(* ===== verification/Rust_Std.thy ===== *)
theory Rust_Std
  imports Main "HOL-Library.Word"
begin

text \<open>
  The prelude of the development: the machine integers, the byte strings and the parts of the
  Rust standard library that the modelled sources call, with the generic lemmas the component
  theories share.

  A Rust \<open>u8\<close> is a \<^typ>\<open>char\<close> (HOL's characters are exactly the 256 byte values), so a
  \<open>&[u8]\<close> and a \<open>&str\<close> are both a \<^typ>\<open>string\<close> and \<open>len\<close> is \<^const>\<open>length\<close>; a \<open>&str\<close> is
  a byte list accepted by \<open>utf8_valid\<close> below. \<open>u16\<close>, \<open>u32\<close> and \<open>u64\<close> are words of that
  width; \<open>usize\<close> counters that the program bounds by the length of an in-memory vector are
  \<^typ>\<open>nat\<close>.
\<close>

type_synonym byte = char
type_synonym bytes = "char list"
type_synonym u8 = "8 word"
type_synonym u32 = "32 word"
type_synonym u64 = "64 word"

named_theorems rust_std \<open>unfolding rules of the standard-library models\<close>

subsection \<open>Checked machine arithmetic\<close>

definition checked_add :: "'a::len word \<Rightarrow> 'a word \<Rightarrow> 'a word option" where
  "checked_add a b = (if unat a + unat b < 2 ^ LENGTH('a) then Some (a + b) else None)"

lemma checked_add_SomeD: "checked_add a b = Some c \<Longrightarrow> unat c = unat a + unat b"
  by (auto simp: checked_add_def unat_word_ariths split: if_splits)

lemma checked_add_fits:
  fixes a b c :: "'a::len word"
  assumes "unat a + unat b \<le> unat c"
  shows "\<exists>d. checked_add a b = Some d \<and> unat d = unat a + unat b"
proof -
  have "unat a + unat b < 2 ^ LENGTH('a)"
    using assms unsigned_less[of c] by (meson le_less_trans)
  then show ?thesis
    by (simp add: checked_add_def unat_word_ariths)
qed

lemma unat_sub_le: "unat b \<le> unat a \<Longrightarrow> unat (a - b) = unat a - unat b"
  by (simp add: unat_sub word_le_nat_alt)

subsection \<open>Slices of bytes\<close>

text \<open>\<open>str::split_once\<close> and \<open>str::rsplit_once\<close> on one ASCII character.\<close>

primrec split_once :: "char \<Rightarrow> string \<Rightarrow> (string \<times> string) option" where
  "split_once c [] = None"
| "split_once c (x # xs) =
     (if x = c then Some ([], xs) else map_option (\<lambda>(a, b). (x # a, b)) (split_once c xs))"

definition rsplit_once :: "char \<Rightarrow> string \<Rightarrow> (string \<times> string) option" where
  "rsplit_once c s = map_option (\<lambda>(a, b). (rev b, rev a)) (split_once c (rev s))"

text \<open>\<open>str::strip_prefix\<close>, \<open>str::starts_with\<close> and \<open>slice::starts_with\<close>.\<close>

fun strip_prefix :: "'a list \<Rightarrow> 'a list \<Rightarrow> 'a list option" where
  "strip_prefix [] ys = Some ys"
| "strip_prefix (x # xs) [] = None"
| "strip_prefix (x # xs) (y # ys) = (if x = y then strip_prefix xs ys else None)"

definition starts_with :: "'a list \<Rightarrow> 'a list \<Rightarrow> bool" where
  "starts_with p s \<longleftrightarrow> strip_prefix p s \<noteq> None"

text \<open>\<open>Iterator::position\<close>.\<close>

primrec position :: "('a \<Rightarrow> bool) \<Rightarrow> 'a list \<Rightarrow> nat option" where
  "position P [] = None"
| "position P (x # xs) = (if P x then Some 0 else map_option Suc (position P xs))"

lemma split_once_Some: "split_once c s = Some (a, b) \<longleftrightarrow> s = a @ c # b \<and> c \<notin> set a"
proof (induction s arbitrary: a)
  case Nil
  then show ?case by simp
next
  case (Cons x s)
  then show ?case by (cases a) (auto split: prod.splits)
qed

lemma split_once_None: "split_once c s = None \<longleftrightarrow> c \<notin> set s"
  by (induction s) auto

lemma rsplit_once_Some: "rsplit_once c s = Some (a, b) \<longleftrightarrow> s = a @ c # b \<and> c \<notin> set b"
proof
  assume "rsplit_once c s = Some (a, b)"
  then have "rev s = rev b @ c # rev a \<and> c \<notin> set b"
    by (auto simp: rsplit_once_def split_once_Some)
  then show "s = a @ c # b \<and> c \<notin> set b"
    by (metis rev_append rev_rev_ident rev.simps(2) append.assoc append_Cons append_Nil)
next
  assume s: "s = a @ c # b \<and> c \<notin> set b"
  then have "split_once c (rev s) = Some (rev b, rev a)"
    by (simp add: split_once_Some)
  then show "rsplit_once c s = Some (a, b)"
    by (simp add: rsplit_once_def)
qed

lemma rsplit_once_None: "rsplit_once c s = None \<longleftrightarrow> c \<notin> set s"
  by (auto simp: rsplit_once_def split_once_None)

lemma strip_prefix_Some: "strip_prefix p s = Some r \<longleftrightarrow> s = p @ r"
  by (induction p s rule: strip_prefix.induct) auto

lemma strip_prefix_append [simp]: "strip_prefix p (p @ r) = Some r"
  by (simp add: strip_prefix_Some)

lemma starts_with_iff: "starts_with p s \<longleftrightarrow> (\<exists>r. s = p @ r)"
  by (auto simp: starts_with_def strip_prefix_Some)

lemma position_Some: "position P xs = Some i \<longleftrightarrow> i < length xs \<and> P (xs ! i) \<and> (\<forall>j<i. \<not> P (xs ! j))"
proof (induction xs arbitrary: i)
  case Nil
  then show ?case by simp
next
  case (Cons x xs)
  show ?case
  proof (cases i)
    case 0
    then show ?thesis by auto
  next
    case (Suc k)
    then show ?thesis
      using Cons.IH[of k] by (auto simp: less_Suc_eq_0_disj)
  qed
qed

lemma position_None: "position P xs = None \<longleftrightarrow> (\<forall>x\<in>set xs. \<not> P x)"
  by (induction xs) auto

lemma position_append:
  "position P (xs @ ys) =
     (case position P xs of Some i \<Rightarrow> Some i | None \<Rightarrow> map_option (\<lambda>i. length xs + i) (position P ys))"
proof (induction xs)
  case Nil
  show ?case by (cases "position P ys") auto
next
  case (Cons x xs)
  then show ?case by (cases "position P xs"; cases "position P ys") auto
qed

subsection \<open>Sums over an updated list\<close>

lemma find_SomeD: "find P xs = Some x \<Longrightarrow> x \<in> set xs \<and> P x"
  by (induction xs) (auto split: if_splits)

lemma find_append: "find P (xs @ ys) = (case find P xs of Some x \<Rightarrow> Some x | None \<Rightarrow> find P ys)"
  by (induction xs) auto

lemma sum_list_map_update:
  fixes f :: "'a \<Rightarrow> nat"
  assumes "i < length xs"
  shows "sum_list (map f (xs[i := x])) + f (xs ! i) = sum_list (map f xs) + f x"
  using assms
proof (induction xs arbitrary: i)
  case Nil
  then show ?case by simp
next
  case (Cons y ys)
  then show ?case by (cases i) auto
qed

lemma sum_list_member_le_nat:
  fixes f :: "'a \<Rightarrow> nat"
  assumes "i < length xs"
  shows "f (xs ! i) \<le> sum_list (map f xs)"
  using assms by (simp add: member_le_sum_list)

lemma filter_length_pos_iff: "0 < length (filter P xs) \<longleftrightarrow> (\<exists>x\<in>set xs. P x)"
  by (induction xs) auto

subsection \<open>Bytes and UTF-8\<close>

definition byte_val :: "byte \<Rightarrow> nat" where
  "byte_val c = of_char c"

lemma byte_val_less [simp]: "byte_val c < 256"
  by (simp add: byte_val_def)

lemma byte_val_char_of [simp]: "byte_val (char_of (n :: nat)) = n mod 256"
  by (simp add: byte_val_def)

definition utf8_cont :: "nat \<Rightarrow> nat \<Rightarrow> byte \<Rightarrow> bool" where
  "utf8_cont lo hi c \<longleftrightarrow> lo \<le> byte_val c \<and> byte_val c \<le> hi"

text \<open>
  The well-formed byte sequences of the Unicode standard (its table 3-7): from the first byte, the
  ranges of the bytes that follow, or \<open>None\<close> for a byte that starts no sequence.
\<close>

definition utf8_follow :: "byte \<Rightarrow> (nat \<times> nat) list option" where
  "utf8_follow c =
     (let x = byte_val c in
      if x < 128 then Some []
      else if 194 \<le> x \<and> x \<le> 223 then Some [(128, 191)]
      else if x = 224 then Some [(160, 191), (128, 191)]
      else if x = 237 then Some [(128, 159), (128, 191)]
      else if 225 \<le> x \<and> x \<le> 239 then Some [(128, 191), (128, 191)]
      else if x = 240 then Some [(144, 191), (128, 191), (128, 191)]
      else if 241 \<le> x \<and> x \<le> 243 then Some [(128, 191), (128, 191), (128, 191)]
      else if x = 244 then Some [(128, 143), (128, 191), (128, 191)]
      else None)"

text \<open>How many of the expected bytes are there, stopping at the first that does not fit.\<close>

fun utf8_matched :: "(nat \<times> nat) list \<Rightarrow> bytes \<Rightarrow> nat" where
  "utf8_matched ((lo, hi) # rs) (c # cs) =
     (if utf8_cont lo hi c then Suc (utf8_matched rs cs) else 0)"
| "utf8_matched _ _ = 0"

text \<open>
  The first sequence of a non-empty slice: whether it is well-formed, and its length (for an
  ill-formed one, of its longest prefix that could start a well-formed one, at least one byte).
\<close>

definition utf8_step :: "byte \<Rightarrow> bytes \<Rightarrow> bool \<times> nat" where
  "utf8_step c cs =
     (case utf8_follow c of
        None \<Rightarrow> (False, 1)
      | Some rs \<Rightarrow> (utf8_matched rs cs = length rs, Suc (utf8_matched rs cs)))"

text \<open>\<open>str::from_utf8\<close> succeeds, and \<open>String::from_utf8_lossy\<close>.\<close>

fun utf8_valid :: "bytes \<Rightarrow> bool" where
  "utf8_valid [] = True"
| "utf8_valid (c # cs) = (fst (utf8_step c cs) \<and> utf8_valid (drop (snd (utf8_step c cs) - 1) cs))"

definition replacement :: bytes where
  "replacement = [CHR 0xEF, CHR 0xBF, CHR 0xBD]"

fun from_utf8_lossy :: "bytes \<Rightarrow> string" where
  "from_utf8_lossy [] = []"
| "from_utf8_lossy (c # cs) =
     (let (ok, n) = utf8_step c cs
      in (if ok then c # take (n - 1) cs else replacement) @ from_utf8_lossy (drop (n - 1) cs))"

lemma utf8_matched_bound: "utf8_matched rs cs \<le> length rs" "utf8_matched rs cs \<le> length cs"
  by (induction rs cs rule: utf8_matched.induct) auto

lemma utf8_step_bound: "snd (utf8_step c cs) - 1 \<le> length cs"
  using utf8_matched_bound by (simp add: utf8_step_def split: option.split)

lemma utf8_matched_full:
  "utf8_matched rs cs = length rs \<Longrightarrow> utf8_matched rs (cs @ ds) = length rs"
  by (induction rs cs rule: utf8_matched.induct) (auto split: if_splits)

lemma utf8_step_append:
  assumes "fst (utf8_step c cs)"
  shows "utf8_step c (cs @ ds) = utf8_step c cs"
  using assms utf8_matched_full by (auto simp: utf8_step_def split: option.splits)

lemma utf8_valid_append: "utf8_valid a \<Longrightarrow> utf8_valid (a @ b) = utf8_valid b"
proof (induction a rule: utf8_valid.induct)
  case 1
  then show ?case by simp
next
  case (2 c cs)
  then show ?case
    using utf8_step_append[of c cs b] utf8_step_bound[of c cs] by simp
qed

lemma utf8_matched_take:
  "utf8_matched rs cs = length rs \<Longrightarrow> utf8_matched rs (take (length rs) cs) = length rs"
  by (induction rs cs rule: utf8_matched.induct) (auto split: if_splits)

lemma utf8_valid_ascii: "\<forall>c\<in>set s. byte_val c < 128 \<Longrightarrow> utf8_valid s"
  by (induction s) (auto simp: utf8_step_def utf8_follow_def Let_def)

lemma utf8_valid_head:
  assumes "fst (utf8_step c cs)"
  shows "utf8_valid (c # take (snd (utf8_step c cs) - 1) cs)"
proof -
  obtain rs where rs: "utf8_follow c = Some rs" "utf8_matched rs cs = length rs"
    using assms by (auto simp: utf8_step_def split: option.splits)
  then show ?thesis using utf8_matched_take[OF rs(2)] by (simp add: utf8_step_def)
qed

lemma utf8_valid_replacement: "utf8_valid replacement"
  by (simp add: replacement_def utf8_step_def utf8_follow_def utf8_cont_def byte_val_def Let_def)

text \<open>The lossy decoding is always valid UTF-8, and the identity on valid input.\<close>

lemma from_utf8_lossy_valid: "utf8_valid (from_utf8_lossy s)"
proof (induction s rule: from_utf8_lossy.induct)
  case (2 c cs)
  have "utf8_valid (from_utf8_lossy (drop (snd (utf8_step c cs) - 1) cs))"
    using 2 by (metis prod.collapse)
  then show ?case
    using utf8_valid_append[OF utf8_valid_head] utf8_valid_append[OF utf8_valid_replacement]
    by (auto simp: split_beta Let_def simp flip: append_Cons)
qed simp

lemma from_utf8_lossy_id: "utf8_valid s \<Longrightarrow> from_utf8_lossy s = s"
  by (induction s rule: utf8_valid.induct) (auto simp: split_beta Let_def)

end
