(* ===== verification/Contracts.thy ===== *)
theory Contracts
  imports Rust_Std
begin

text \<open>
  The runtime contract types of \<open>src/src/contracts.rs\<close> that the other components carry: the
  nominal identifiers, the public error codes with their spelling and exit code, lifecycles,
  attempt states, effect classes, obligations, events, answers and the JSON-RPC envelope.

  A nominal identifier is a one-constructor datatype over its string, as the \<open>nominal_id!\<close>
  macro makes it. \<open>serde_json::Value\<close> is a type variable \<open>'v\<close>: no modelled operation
  looks inside it.
\<close>

datatype session_id = SessionId string
datatype task_id = TaskId string
datatype question_id = QuestionId string
datatype event_id = EventId string
datatype attempt_id = AttemptId string
datatype action_id = ActionId string
datatype criterion_id = CriterionId string
datatype evidence_id = EvidenceId string
datatype option_id = OptionId string

primrec task_raw :: "task_id \<Rightarrow> string" where
  "task_raw (TaskId s) = s"

primrec question_raw :: "question_id \<Rightarrow> string" where
  "question_raw (QuestionId s) = s"

subsection \<open>Error codes\<close>

datatype error_code =
    InvalidInput | UnsupportedVersion | UnknownMethod | NotFound | Conflict | StaleIntent
  | AlreadyTerminal | Denied | CapabilityUnavailable | DependencyBlocked | OutcomeUnknown
  | ContextOverflow | BudgetExhausted | StorageUnavailable | OutputLimit | InternalError
  | ErrorCancelled

fun error_code_as_str :: "error_code \<Rightarrow> string" where
  "error_code_as_str InvalidInput = ''invalid_input''"
| "error_code_as_str UnsupportedVersion = ''unsupported_version''"
| "error_code_as_str UnknownMethod = ''unknown_method''"
| "error_code_as_str NotFound = ''not_found''"
| "error_code_as_str Conflict = ''conflict''"
| "error_code_as_str StaleIntent = ''stale_intent''"
| "error_code_as_str AlreadyTerminal = ''already_terminal''"
| "error_code_as_str Denied = ''denied''"
| "error_code_as_str CapabilityUnavailable = ''capability_unavailable''"
| "error_code_as_str DependencyBlocked = ''dependency_blocked''"
| "error_code_as_str OutcomeUnknown = ''outcome_unknown''"
| "error_code_as_str ContextOverflow = ''context_overflow''"
| "error_code_as_str BudgetExhausted = ''budget_exhausted''"
| "error_code_as_str StorageUnavailable = ''storage_unavailable''"
| "error_code_as_str OutputLimit = ''output_limit''"
| "error_code_as_str InternalError = ''internal_error''"
| "error_code_as_str ErrorCancelled = ''cancelled''"

fun exit_code :: "error_code \<Rightarrow> u8" where
  "exit_code InvalidInput = 2"
| "exit_code UnsupportedVersion = 2"
| "exit_code UnknownMethod = 2"
| "exit_code StorageUnavailable = 1"
| "exit_code InternalError = 1"
| "exit_code OutputLimit = 1"
| "exit_code ErrorCancelled = 130"
| "exit_code _ = 3"

datatype retry_class = RetryNone | RetryTransport | RetryReconcile | RetrySemantic | RetryPlan

record wire_error =
  we_code :: error_code
  we_message :: string
  we_boundary_id :: "string option"
  we_retry_class :: retry_class

definition wire_error_new :: "error_code \<Rightarrow> string \<Rightarrow> wire_error" where
  "wire_error_new code message =
     \<lparr>we_code = code, we_message = message, we_boundary_id = None, we_retry_class = RetryNone\<rparr>"

subsection \<open>Lifecycles, attempts, effects and obligations\<close>

datatype lifecycle =
    LifecycleRunning | LifecycleWaiting | LifecyclePaused | LifecycleBlocked
  | LifecycleCompleted | LifecycleCancelled

definition lifecycle_is_terminal :: "lifecycle \<Rightarrow> bool" where
  "lifecycle_is_terminal l \<longleftrightarrow> l = LifecycleCompleted \<or> l = LifecycleCancelled"

datatype effect_class = ReadEffect | WriteEffect | ExecEffect | EgressEffect | ModelEffect | ControlEffect

datatype attempt_state =
    AttemptPlanned | AttemptAdmitted | AttemptRunning | AttemptConfirmed | AttemptRejected
  | AttemptCancelRequested | AttemptUnknown

definition attempt_is_settled :: "attempt_state \<Rightarrow> bool" where
  "attempt_is_settled a \<longleftrightarrow> a = AttemptConfirmed \<or> a = AttemptRejected \<or> a = AttemptUnknown"

datatype obligation_execution =
  ObligationPending | ObligationSatisfied | ObligationFailed | ObligationStale

datatype answer_attempt_outcome = AnswerApplied | AnswerDenied

definition answer_attempt_outcome_from_db :: "string \<Rightarrow> answer_attempt_outcome option" where
  "answer_attempt_outcome_from_db v =
     (if v = ''applied'' then Some AnswerApplied
      else if v = ''denied'' then Some AnswerDenied
      else None)"

subsection \<open>Pages, events, answers and the RPC envelope\<close>

record 'a page =
  items :: "'a list"
  snapshot_generation :: u64
  next_cursor :: "string option"

definition page_new :: "'a list \<Rightarrow> u64 \<Rightarrow> 'a page" where
  "page_new xs g = \<lparr>items = xs, snapshot_generation = g, next_cursor = None\<rparr>"

record 'v event =
  ev_schema_version :: u32
  ev_event_id :: event_id
  ev_aggregate_id :: string
  ev_aggregate_revision :: u64
  ev_cursor :: u64
  ev_session_id :: session_id
  ev_task_id :: "task_id option"
  ev_event_type :: string
  ev_delta :: 'v
  ev_origin :: string

datatype answer_selection = AnswerOption option_id | AnswerCustom string

record rpc_error_body =
  rpc_code :: int
  rpc_message :: string
  rpc_data :: wire_error

record 'v rpc_response =
  jsonrpc :: string
  rpc_id :: 'v
  rpc_result :: "'v option"
  rpc_error :: "rpc_error_body option"

definition rpc_ok :: "'v \<Rightarrow> 'v \<Rightarrow> 'v rpc_response" where
  "rpc_ok i r = \<lparr>jsonrpc = ''2.0'', rpc_id = i, rpc_result = Some r, rpc_error = None\<rparr>"

definition rpc_fail :: "'v \<Rightarrow> int \<Rightarrow> wire_error \<Rightarrow> 'v rpc_response" where
  "rpc_fail i code wire =
     \<lparr>jsonrpc = ''2.0'', rpc_id = i, rpc_result = None,
      rpc_error = Some \<lparr>rpc_code = code, rpc_message = error_code_as_str (we_code wire),
                        rpc_data = wire\<rparr>\<rparr>"

record command_descriptor =
  canonical_id :: string
  aliases :: "string list"
  description :: string
  busy_policy :: string
  available :: bool
  unavailability_reason :: "string option"

subsection \<open>Facts about the contract types\<close>

lemma error_code_as_str_inj: "error_code_as_str a = error_code_as_str b \<longleftrightarrow> a = b"
  by (cases a; cases b; simp)

lemma exit_code_range: "exit_code c \<in> {1, 2, 3, 130}"
  by (cases c) auto

lemma exit_code_nonzero: "exit_code c \<noteq> 0"
  by (cases c) auto

end
