(* ===== verification/Scheduler.thy ===== *)
theory Scheduler
  imports Contracts
begin

text \<open>
  The bounded task-tree scheduler of \<open>src/src/scheduler.rs\<close>: the node arena, the strict FIFO
  ready queue, the slot and resource ledger, the task linkage and the cancelled-task set, with
  every public operation. An operation takes the scheduler and returns its Rust result together
  with the scheduler it leaves. A \<open>Vec\<close> used as a stack has its top at the head of the list.
  Walks that follow links (\<open>in_cancelled_subtree\<close>, \<open>runnable_parent\<close>, the drain of
  \<open>cancel_tree\<close>) are \<^theory_text>\<open>partial_function (option)\<close>: \<open>None\<close> is "does not return".
  The properties are in \<open>Scheduler_Inv\<close> and the theories above it.
\<close>

type_synonym node_id = nat

datatype node_state =
  NodeReady | NodeRunning | NodeWaiting | NodeCompleted | NodeSettled | NodeCancelled

record node =
  n_task :: task_id
  n_answer :: answer_selection
  n_grant_id :: string
  n_parent :: "node_id option"
  n_children :: "node_id list"
  n_unfinished :: nat
  n_units :: u32
  n_state :: node_state

record node_context =
  ctx_task :: task_id
  ctx_answer :: answer_selection
  ctx_grant_id :: string

datatype wait_transition = WaitReleased | WaitAlreadySatisfied

datatype complete_transition = TransitionCompleted "node_id option" | TransitionIgnoredCancelled

datatype deliver_verdict = DeliverObserved | DeliverIgnoredCancelled

datatype scheduler_error =
    UnknownNode node_id
  | NotRunning node_id
  | ParentSettled node_id
  | UnitsExceedCap u32 u32

record scheduler =
  max_slots :: nat
  resource_cap :: u32
  nodes :: "node list"
  ready :: "node_id list"
  running :: nat
  held_units :: u32
  ignored_late_deliveries :: u64
  parents :: "task_id \<rightharpoonup> task_id"
  linkage :: "(task_id \<times> task_id) list"
  by_task :: "task_id \<rightharpoonup> node_id"
  cancelled_tasks :: "task_id set"

definition default_max_slots :: nat where
  "default_max_slots = 2"

definition default_resource_cap :: u32 where
  "default_resource_cap = 4"

definition scheduler_new :: "nat \<Rightarrow> u32 \<Rightarrow> scheduler" where
  "scheduler_new slots cap =
     \<lparr>max_slots = slots, resource_cap = cap, nodes = [], ready = [], running = 0, held_units = 0,
      ignored_late_deliveries = 0, parents = Map.empty, linkage = [], by_task = Map.empty,
      cancelled_tasks = {}\<rparr>"

text \<open>The states the source's \<open>matches!\<close> lists name as settled for good.\<close>

definition is_terminal :: "node_state \<Rightarrow> bool" where
  "is_terminal st \<longleftrightarrow> st = NodeCompleted \<or> st = NodeCancelled \<or> st = NodeSettled"

abbreviation live :: "node \<Rightarrow> bool" where
  "live n \<equiv> \<not> is_terminal (n_state n)"

definition upd_node :: "node_id \<Rightarrow> (node \<Rightarrow> node) \<Rightarrow> scheduler \<Rightarrow> scheduler" where
  "upd_node i f s = s\<lparr>nodes := (nodes s)[i := f (nodes s ! i)]\<rparr>"

definition set_node_state :: "node_id \<Rightarrow> node_state \<Rightarrow> scheduler \<Rightarrow> scheduler" where
  "set_node_state i st = upd_node i (\<lambda>n. n\<lparr>n_state := st\<rparr>)"

text \<open>The paired \<open>running -= 1\<close> and \<open>held_units -= resource_units\<close> of every release.\<close>

definition release_slot :: "node_id \<Rightarrow> scheduler \<Rightarrow> scheduler" where
  "release_slot i s =
     s\<lparr>running := running s - 1, held_units := held_units s - n_units (nodes s ! i)\<rparr>"

definition sched_node_state :: "scheduler \<Rightarrow> node_id \<Rightarrow> scheduler_error + node_state" where
  "sched_node_state s i =
     (if i < length (nodes s) then Inr (n_state (nodes s ! i)) else Inl (UnknownNode i))"

definition settle_parent :: "node_id \<Rightarrow> scheduler \<Rightarrow> node_id option \<times> scheduler" where
  "settle_parent child s =
     (case n_parent (nodes s ! child) of
        None \<Rightarrow> (None, s)
      | Some p \<Rightarrow>
          (let s1 = (if n_unfinished (nodes s ! p) > 0
                     then upd_node p (\<lambda>n. n\<lparr>n_unfinished := n_unfinished n - 1\<rparr>) s else s);
               n = nodes s1 ! p
           in if n_state n = NodeWaiting \<and> n_unfinished n = 0
              then (Some p, (set_node_state p NodeReady s1)\<lparr>ready := ready s1 @ [p]\<rparr>)
              else (None, s1)))"

definition submit ::
  "node_id option \<Rightarrow> task_id \<Rightarrow> answer_selection \<Rightarrow> string \<Rightarrow> u32 \<Rightarrow> scheduler \<Rightarrow>
     (scheduler_error + node_id) \<times> scheduler" where
  "submit parent task answer grant_id units s =
     (if units > resource_cap s then (Inl (UnitsExceedCap units (resource_cap s)), s)
      else
        (let node = length (nodes s);
             push = (\<lambda>s1. s1\<lparr>nodes := nodes s1 @
                        [\<lparr>n_task = task, n_answer = answer, n_grant_id = grant_id,
                          n_parent = parent, n_children = [], n_unfinished = 0,
                          n_units = units, n_state = NodeReady\<rparr>],
                      by_task := (by_task s1)(task \<mapsto> node),
                      ready := ready s1 @ [node]\<rparr>)
         in case parent of
              None \<Rightarrow> (Inr node, push s)
            | Some p \<Rightarrow>
                (case sched_node_state s p of
                   Inl e \<Rightarrow> (Inl e, s)
                 | Inr st \<Rightarrow>
                     if is_terminal st then (Inl (ParentSettled p), s)
                     else (Inr node,
                           push (upd_node p (\<lambda>n. n\<lparr>n_children := n_children n @ [node],
                                                   n_unfinished := n_unfinished n + 1\<rparr>) s)))))"

definition adopt :: "task_id \<Rightarrow> task_id \<Rightarrow> scheduler \<Rightarrow> scheduler" where
  "adopt task parent s =
     (if parents s task \<noteq> None then s
      else s\<lparr>parents := (parents s)(task \<mapsto> parent), linkage := linkage s @ [(task, parent)]\<rparr>)"

text \<open>The walks over task linkage.\<close>

partial_function (option) cancelled_walk ::
  "task_id set \<Rightarrow> (task_id \<rightharpoonup> task_id) \<Rightarrow> task_id option \<Rightarrow> bool option" where
  "cancelled_walk cancelled par ancestor =
     (case ancestor of
        None \<Rightarrow> Some False
      | Some t \<Rightarrow> if t \<in> cancelled then Some True else cancelled_walk cancelled par (par t))"

definition in_cancelled_subtree :: "scheduler \<Rightarrow> task_id \<Rightarrow> bool option" where
  "in_cancelled_subtree s task = cancelled_walk (cancelled_tasks s) (parents s) (Some task)"

partial_function (option) runnable_walk ::
  "(task_id \<rightharpoonup> node_id) \<Rightarrow> (task_id \<rightharpoonup> task_id) \<Rightarrow> task_id option \<Rightarrow> node_id option option" where
  "runnable_walk nodes_of par ancestor =
     (case ancestor of
        None \<Rightarrow> Some None
      | Some t \<Rightarrow> (case nodes_of t of Some n \<Rightarrow> Some (Some n)
                   | None \<Rightarrow> runnable_walk nodes_of par (par t)))"

definition runnable_parent :: "scheduler \<Rightarrow> task_id \<Rightarrow> node_id option option" where
  "runnable_parent s task = runnable_walk (by_task s) (parents s) (parents s task)"

definition retire :: "node_id \<Rightarrow> scheduler \<Rightarrow> scheduler" where
  "retire i s =
     (if is_terminal (n_state (nodes s ! i)) then s
      else
        (let s1 = (if n_state (nodes s ! i) = NodeRunning then release_slot i s else s);
             s2 = (if n_state (nodes s1 ! i) = NodeReady
                   then s1\<lparr>ready := filter (\<lambda>q. q \<noteq> i) (ready s1)\<rparr> else s1)
         in snd (settle_parent i (set_node_state i NodeSettled s2))))"

definition submit_answered ::
  "task_id \<Rightarrow> answer_selection \<Rightarrow> string \<Rightarrow> scheduler \<Rightarrow>
     ((scheduler_error + node_id option) \<times> scheduler) option" where
  "submit_answered task answer grant_id s =
     (case in_cancelled_subtree s task of
        None \<Rightarrow> None
      | Some True \<Rightarrow> Some (Inr None, s)
      | Some False \<Rightarrow>
          (let s1 = (case by_task s task of Some previous \<Rightarrow> retire previous s | None \<Rightarrow> s)
           in case runnable_parent s1 task of
                None \<Rightarrow> None
              | Some parent \<Rightarrow>
                  (case submit parent task answer grant_id 1 s1 of
                     (Inr node, s2) \<Rightarrow> Some (Inr (Some node), s2)
                   | (Inl (ParentSettled _), s2) \<Rightarrow> Some (Inr None, s2)
                   | (Inl e, s2) \<Rightarrow> Some (Inl e, s2))))"

text \<open>
  The drain of \<open>cancel_tree\<close>: pop a node, collect it when it is not terminal, push its
  children so that the leftmost is popped first.
\<close>

partial_function (option) drain_walk ::
  "node list \<Rightarrow> node_id list \<Rightarrow> node_id list \<Rightarrow> node_id list option" where
  "drain_walk ns stack cancelled =
     (case stack of
        [] \<Rightarrow> Some cancelled
      | i # rest \<Rightarrow>
          drain_walk ns (n_children (ns ! i) @ rest)
            (if live (ns ! i) then cancelled @ [i] else cancelled))"

definition cancel_node :: "node_id \<Rightarrow> scheduler \<Rightarrow> scheduler" where
  "cancel_node i s =
     set_node_state i NodeCancelled
       (if n_state (nodes s ! i) = NodeRunning then release_slot i s else s)"

definition cancel_tree ::
  "node_id \<Rightarrow> scheduler \<Rightarrow> ((scheduler_error + node_id list) \<times> scheduler) option" where
  "cancel_tree root s =
     (case sched_node_state s root of
        Inl e \<Rightarrow> Some (Inl e, s)
      | Inr st \<Rightarrow>
          (let root_was_live = \<not> is_terminal st
           in case drain_walk (nodes s) [root] [] of
                None \<Rightarrow> None
              | Some cancelled \<Rightarrow>
                  (let s1 = fold cancel_node cancelled s;
                       s2 = s1\<lparr>ready := filter (\<lambda>q. n_state (nodes s1 ! q) = NodeReady) (ready s1)\<rparr>;
                       s3 = (if root_was_live then snd (settle_parent root s2) else s2)
                   in Some (Inr cancelled, s3))))"

text \<open>
  The breadth-first walk of \<open>task_subtree\<close>: the inner loop scans the whole linkage for
  children of the current task, the outer one advances the index until it passes the end.
\<close>

fun subtree_scan :: "task_id \<Rightarrow> (task_id \<times> task_id) list \<Rightarrow> task_id list \<Rightarrow> task_id list" where
  "subtree_scan current [] acc = acc"
| "subtree_scan current ((child, parent) # ls) acc =
     subtree_scan current ls
       (if parent = current \<and> child \<notin> set acc then acc @ [child] else acc)"

lemma subtree_scan_props:
  "\<exists>new. subtree_scan current ls acc = acc @ new \<and> distinct new \<and> set new \<inter> set acc = {}
       \<and> set new \<subseteq> {c. (c, current) \<in> set ls}"
proof (induction ls arbitrary: acc)
  case Nil
  then show ?case by simp
next
  case (Cons l ls)
  obtain child parent where l: "l = (child, parent)" by (cases l)
  show ?case
  proof (cases "parent = current \<and> child \<notin> set acc")
    case True
    obtain new where "subtree_scan current ls (acc @ [child]) = (acc @ [child]) @ new"
      "distinct new" "set new \<inter> set (acc @ [child]) = {}" "set new \<subseteq> {c. (c, current) \<in> set ls}"
      using Cons.IH[of "acc @ [child]"] by blast
    then show ?thesis
      using True l by (intro exI[of _ "child # new"]) auto
  next
    case False
    then show ?thesis
      using Cons.IH[of acc] l by (auto split: if_splits)
  qed
qed

function subtree_walk ::
  "(task_id \<times> task_id) list \<Rightarrow> task_id list \<Rightarrow> nat \<Rightarrow> task_id list" where
  "subtree_walk links subtree index =
     (if index < length subtree
      then subtree_walk links (subtree_scan (subtree ! index) links subtree) (Suc index)
      else subtree)"
  by pat_completeness auto
termination
proof (relation "measure (\<lambda>(links, subtree, index).
    card (fst ` set links - set subtree) + (length subtree - index))")
  show "wf (measure (\<lambda>(links, subtree, index).
    card (fst ` set links - set subtree) + (length subtree - index)))" by simp
next
  fix links :: "(task_id \<times> task_id) list" and subtree :: "task_id list" and index :: nat
  assume idx: "index < length subtree"
  let ?U = "fst ` set links"
  obtain new where new: "subtree_scan (subtree ! index) links subtree = subtree @ new"
    "distinct new" "set new \<inter> set subtree = {}"
    "set new \<subseteq> {c. (c, subtree ! index) \<in> set links}"
    using subtree_scan_props by metis
  have sub: "set new \<subseteq> ?U - set subtree"
    using new(3,4) by force
  have "card (?U - set (subtree @ new)) = card ((?U - set subtree) - set new)"
    by (metis Diff_Diff_Int Un_Diff Diff_eq set_append Diff_Un Int_Diff boolean_algebra.de_Morgan_disj)
  also have "\<dots> = card (?U - set subtree) - length new"
    using sub new(2) by (simp add: card_Diff_subset distinct_card)
  finally have c: "card (?U - set (subtree @ new)) = card (?U - set subtree) - length new" .
  have "length new \<le> card (?U - set subtree)"
    using card_mono[OF _ sub] new(2) by (simp add: distinct_card)
  with c idx new(1)
  show "((links, subtree_scan (subtree ! index) links subtree, Suc index), (links, subtree, index))
      \<in> measure (\<lambda>(links, subtree, index).
          card (fst ` set links - set subtree) + (length subtree - index))"
    by simp
qed

declare subtree_walk.simps [simp del]

definition task_subtree :: "scheduler \<Rightarrow> task_id \<Rightarrow> task_id list" where
  "task_subtree s task = subtree_walk (linkage s) [task] 0"

fun cancel_tasks ::
  "task_id list \<Rightarrow> node_id list \<Rightarrow> scheduler \<Rightarrow>
     ((scheduler_error + node_id list) \<times> scheduler) option" where
  "cancel_tasks [] cancelled s = Some (Inr cancelled, s)"
| "cancel_tasks (t # ts) cancelled s =
     (let s1 = s\<lparr>cancelled_tasks := insert t (cancelled_tasks s)\<rparr>
      in case by_task s1 t of
           None \<Rightarrow> cancel_tasks ts cancelled s1
         | Some root \<Rightarrow>
             (case cancel_tree root s1 of
                None \<Rightarrow> None
              | Some (Inl e, s2) \<Rightarrow> Some (Inl e, s2)
              | Some (Inr drained, s2) \<Rightarrow> cancel_tasks ts (cancelled @ drained) s2))"

definition cancel_task_tree ::
  "task_id \<Rightarrow> scheduler \<Rightarrow> ((scheduler_error + node_id list) \<times> scheduler) option" where
  "cancel_task_tree task s = cancel_tasks (task_subtree s task) [] s"

text \<open>
  \<open>scope_chain\<close> collects the node's task and each ancestor's, then reverses. A parent id
  is always smaller than the id of its child, which the loop's recursion follows; a parent link
  that is not smaller would make the source's loop run on, here it is a walk of its own that
  returns \<open>None\<close>.
\<close>

partial_function (option) scope_walk ::
  "node list \<Rightarrow> node_id option \<Rightarrow> task_id list \<Rightarrow> task_id list option" where
  "scope_walk ns current chain =
     (case current of
        None \<Rightarrow> Some (rev chain)
      | Some i \<Rightarrow> scope_walk ns (n_parent (ns ! i)) (chain @ [n_task (ns ! i)]))"

definition scope_chain :: "scheduler \<Rightarrow> node_id \<Rightarrow> task_id list option" where
  "scope_chain s i = scope_walk (nodes s) (Some i) []"

text \<open>
  The \<open>reserve\<close> closure of \<open>admit_next_bounded\<close> is \<open>FnMut\<close>: it may change state of its
  own, so it takes and returns a ledger state \<open>'l\<close>.
\<close>

definition admit_next_bounded ::
  "('l \<Rightarrow> task_id list \<Rightarrow> u32 \<Rightarrow> bool \<times> 'l) \<Rightarrow> 'l \<Rightarrow> scheduler \<Rightarrow>
     (node_id option \<times> 'l \<times> scheduler) option" where
  "admit_next_bounded reserve l s =
     (case ready s of
        [] \<Rightarrow> Some (None, l, s)
      | i # rest \<Rightarrow>
          (let units = n_units (nodes s ! i)
           in if running s = max_slots s then Some (None, l, s)
              else (case checked_add (held_units s) units of
                      None \<Rightarrow> Some (None, l, s)
                    | Some tot \<Rightarrow>
                        if tot > resource_cap s then Some (None, l, s)
                        else (case scope_chain s i of
                                None \<Rightarrow> None
                              | Some chain \<Rightarrow>
                                  (case reserve l chain units of
                                     (False, l') \<Rightarrow> Some (None, l', s)
                                   | (True, l') \<Rightarrow>
                                       Some (Some i, l',
                                         (set_node_state i NodeRunning (s\<lparr>ready := rest\<rparr>))
                                           \<lparr>running := running s + 1, held_units := tot\<rparr>))))))"

definition admit_next :: "scheduler \<Rightarrow> (node_id option \<times> scheduler) option" where
  "admit_next s =
     map_option (\<lambda>(r, _, s'). (r, s')) (admit_next_bounded (\<lambda>l _ _. (True, l)) () s)"

definition begin_wait :: "node_id \<Rightarrow> scheduler \<Rightarrow> (scheduler_error + wait_transition) \<times> scheduler" where
  "begin_wait i s =
     (case sched_node_state s i of
        Inl e \<Rightarrow> (Inl e, s)
      | Inr st \<Rightarrow>
          if st \<noteq> NodeRunning then (Inl (NotRunning i), s)
          else if n_unfinished (nodes s ! i) = 0 then (Inr WaitAlreadySatisfied, s)
          else (Inr WaitReleased, release_slot i (set_node_state i NodeWaiting s)))"

definition complete :: "node_id \<Rightarrow> scheduler \<Rightarrow> (scheduler_error + complete_transition) \<times> scheduler" where
  "complete i s =
     (case sched_node_state s i of
        Inl e \<Rightarrow> (Inl e, s)
      | Inr NodeRunning \<Rightarrow>
          (case settle_parent i (release_slot i (set_node_state i NodeCompleted s)) of
             (resumed, s1) \<Rightarrow> (Inr (TransitionCompleted resumed), s1))
      | Inr NodeCancelled \<Rightarrow>
          (Inr TransitionIgnoredCancelled,
           s\<lparr>ignored_late_deliveries := ignored_late_deliveries s + 1\<rparr>)
      | Inr _ \<Rightarrow> (Inl (NotRunning i), s))"

definition settle :: "node_id \<Rightarrow> scheduler \<Rightarrow> (scheduler_error + unit) \<times> scheduler" where
  "settle i s =
     (case sched_node_state s i of
        Inl e \<Rightarrow> (Inl e, s)
      | Inr st \<Rightarrow>
          if st \<noteq> NodeRunning then (Inl (NotRunning i), s)
          else (Inr (), snd (settle_parent i (release_slot i (set_node_state i NodeSettled s)))))"

definition deliver :: "'v event \<Rightarrow> scheduler \<Rightarrow> deliver_verdict \<times> scheduler" where
  "deliver ev s =
     (case ev_task_id ev of
        None \<Rightarrow> (DeliverObserved, s)
      | Some t \<Rightarrow>
          if (case by_task s t of None \<Rightarrow> False
              | Some i \<Rightarrow> n_state (nodes s ! i) = NodeCancelled)
          then (DeliverIgnoredCancelled,
                s\<lparr>ignored_late_deliveries := ignored_late_deliveries s + 1\<rparr>)
          else (DeliverObserved, s))"

definition sched_node_context :: "scheduler \<Rightarrow> node_id \<Rightarrow> scheduler_error + node_context" where
  "sched_node_context s i =
     (if i < length (nodes s)
      then Inr \<lparr>ctx_task = n_task (nodes s ! i), ctx_answer = n_answer (nodes s ! i),
                ctx_grant_id = n_grant_id (nodes s ! i)\<rparr>
      else Inl (UnknownNode i))"

definition node_of_task :: "scheduler \<Rightarrow> task_id \<Rightarrow> node_id option" where
  "node_of_task s task = by_task s task"

definition budget_scopes :: "scheduler \<Rightarrow> node_id \<Rightarrow> (scheduler_error + task_id list) option" where
  "budget_scopes s i =
     (case sched_node_state s i of
        Inl e \<Rightarrow> Some (Inl e)
      | Inr _ \<Rightarrow> map_option Inr (scope_chain s i))"

end
