(* ===== verification/Scheduler_Inv.thy ===== *)
theory Scheduler_Inv
  imports Scheduler
begin

text \<open>
  The scheduler's invariant and its preservation by every operation. The invariant has one
  definition per aspect: the shape of the node tree, the agreement of every live node's child
  counter with its live children, the slot and resource ledger, the ready queue, the task index
  and the linkage. Operations that end nodes share one lemma (\<open>live_children_ended\<close>) and
  one intermediate state (\<open>owes_settle\<close>): every invariant holds except that one parent's
  counter is one too high, which \<open>settle_parent\<close> repairs.
\<close>

subsection \<open>The invariant\<close>

definition wf_tree :: "node list \<Rightarrow> bool" where
  "wf_tree ns \<longleftrightarrow>
     (\<forall>i<length ns.
        (\<forall>p. n_parent (ns ! i) = Some p \<longrightarrow> p < i \<and> i \<in> set (n_children (ns ! p))) \<and>
        distinct (n_children (ns ! i)) \<and>
        (\<forall>c\<in>set (n_children (ns ! i)). c < length ns \<and> n_parent (ns ! c) = Some i))"

definition live_children :: "node list \<Rightarrow> node_id \<Rightarrow> nat" where
  "live_children ns i = length (filter (\<lambda>c. live (ns ! c)) (n_children (ns ! i)))"

definition counts_ok :: "node list \<Rightarrow> bool" where
  "counts_ok ns \<longleftrightarrow> (\<forall>i<length ns. live (ns ! i) \<longrightarrow> n_unfinished (ns ! i) = live_children ns i)"

definition waits_ok :: "node list \<Rightarrow> bool" where
  "waits_ok ns \<longleftrightarrow> (\<forall>i<length ns. n_state (ns ! i) = NodeWaiting \<longrightarrow> 0 < n_unfinished (ns ! i))"

definition run_count :: "node list \<Rightarrow> nat" where
  "run_count ns = (\<Sum>n\<leftarrow>ns. if n_state n = NodeRunning then 1 else 0)"

definition run_units :: "node list \<Rightarrow> nat" where
  "run_units ns = (\<Sum>n\<leftarrow>ns. if n_state n = NodeRunning then unat (n_units n) else 0)"

definition ledger_ok :: "scheduler \<Rightarrow> bool" where
  "ledger_ok s \<longleftrightarrow>
     running s = run_count (nodes s) \<and> unat (held_units s) = run_units (nodes s) \<and>
     running s \<le> max_slots s \<and> held_units s \<le> resource_cap s \<and>
     (\<forall>n\<in>set (nodes s). n_units n \<le> resource_cap s)"

definition queue_ok :: "scheduler \<Rightarrow> bool" where
  "queue_ok s \<longleftrightarrow> distinct (ready s) \<and>
     set (ready s) = {i. i < length (nodes s) \<and> n_state (nodes s ! i) = NodeReady}"

definition index_ok :: "scheduler \<Rightarrow> bool" where
  "index_ok s \<longleftrightarrow>
     (\<forall>t i. by_task s t = Some i \<longrightarrow> i < length (nodes s) \<and> n_task (nodes s ! i) = t)"

definition links_ok :: "scheduler \<Rightarrow> bool" where
  "links_ok s \<longleftrightarrow> distinct (map fst (linkage s)) \<and> parents s = map_of (linkage s)"

definition sched_inv :: "scheduler \<Rightarrow> bool" where
  "sched_inv s \<longleftrightarrow> wf_tree (nodes s) \<and> counts_ok (nodes s) \<and> waits_ok (nodes s) \<and>
     ledger_ok s \<and> queue_ok s \<and> index_ok s \<and> links_ok s"

text \<open>All of the invariant but one unit of the counter of \<open>i\<close>'s parent.\<close>

definition owes_settle :: "node_id \<Rightarrow> scheduler \<Rightarrow> bool" where
  "owes_settle i s \<longleftrightarrow> wf_tree (nodes s) \<and> waits_ok (nodes s) \<and> ledger_ok s \<and> queue_ok s \<and>
     index_ok s \<and> links_ok s \<and> i < length (nodes s) \<and>
     (\<forall>j<length (nodes s). live (nodes s ! j) \<longrightarrow>
        n_unfinished (nodes s ! j) =
          live_children (nodes s) j + (if n_parent (nodes s ! i) = Some j then 1 else 0))"

lemmas inv_defs = sched_inv_def counts_ok_def waits_ok_def queue_ok_def index_ok_def links_ok_def

subsection \<open>Frame lemmas\<close>

lemma is_terminal_simps [simp]:
  "is_terminal NodeCompleted" "is_terminal NodeCancelled" "is_terminal NodeSettled"
  "\<not> is_terminal NodeReady" "\<not> is_terminal NodeRunning" "\<not> is_terminal NodeWaiting"
  by (simp_all add: is_terminal_def)

lemma upd_node_simps [simp]:
  "nodes (upd_node i f s) = (nodes s)[i := f (nodes s ! i)]"
  "ready (upd_node i f s) = ready s" "running (upd_node i f s) = running s"
  "held_units (upd_node i f s) = held_units s" "max_slots (upd_node i f s) = max_slots s"
  "resource_cap (upd_node i f s) = resource_cap s" "parents (upd_node i f s) = parents s"
  "linkage (upd_node i f s) = linkage s" "by_task (upd_node i f s) = by_task s"
  "cancelled_tasks (upd_node i f s) = cancelled_tasks s"
  "ignored_late_deliveries (upd_node i f s) = ignored_late_deliveries s"
  by (simp_all add: upd_node_def)

lemma set_node_state_simps [simp]:
  "nodes (set_node_state i st s) = (nodes s)[i := (nodes s ! i)\<lparr>n_state := st\<rparr>]"
  "ready (set_node_state i st s) = ready s" "running (set_node_state i st s) = running s"
  "held_units (set_node_state i st s) = held_units s"
  "max_slots (set_node_state i st s) = max_slots s"
  "resource_cap (set_node_state i st s) = resource_cap s"
  "parents (set_node_state i st s) = parents s" "linkage (set_node_state i st s) = linkage s"
  "by_task (set_node_state i st s) = by_task s"
  "cancelled_tasks (set_node_state i st s) = cancelled_tasks s"
  "ignored_late_deliveries (set_node_state i st s) = ignored_late_deliveries s"
  by (simp_all add: set_node_state_def)

lemma release_slot_simps [simp]:
  "nodes (release_slot i s) = nodes s" "ready (release_slot i s) = ready s"
  "running (release_slot i s) = running s - 1"
  "held_units (release_slot i s) = held_units s - n_units (nodes s ! i)"
  "max_slots (release_slot i s) = max_slots s" "resource_cap (release_slot i s) = resource_cap s"
  "parents (release_slot i s) = parents s" "linkage (release_slot i s) = linkage s"
  "by_task (release_slot i s) = by_task s" "cancelled_tasks (release_slot i s) = cancelled_tasks s"
  "ignored_late_deliveries (release_slot i s) = ignored_late_deliveries s"
  by (simp_all add: release_slot_def)

lemma ledger_ok_ready [simp]: "ledger_ok (s\<lparr>ready := r\<rparr>) = ledger_ok s"
  by (simp add: ledger_ok_def)

lemma unfinished_zero_update [simp]: "n_unfinished n = 0 \<Longrightarrow> n\<lparr>n_unfinished := 0\<rparr> = n"
  by (cases n) simp

lemma nodes_update_id [simp]: "s\<lparr>nodes := nodes s\<rparr> = s"
  by (cases s) simp

lemma terminal_not_running: "is_terminal st \<Longrightarrow> st \<noteq> NodeRunning"
  by auto

lemma release_set_state_commute:
  "i < length (nodes s) \<Longrightarrow>
     release_slot i (set_node_state i st s) = set_node_state i st (release_slot i s)"
  by (simp add: release_slot_def set_node_state_def upd_node_def)

lemma wf_treeI:
  assumes "\<And>i p. i < length ns \<Longrightarrow> n_parent (ns ! i) = Some p \<Longrightarrow> p < i \<and> i \<in> set (n_children (ns ! p))"
    and "\<And>i. i < length ns \<Longrightarrow> distinct (n_children (ns ! i))"
    and "\<And>i c. i < length ns \<Longrightarrow> c \<in> set (n_children (ns ! i)) \<Longrightarrow>
           c < length ns \<and> n_parent (ns ! c) = Some i"
  shows "wf_tree ns"
  unfolding wf_tree_def using assms by blast

lemma wf_tree_parent:
  assumes "wf_tree ns" "i < length ns" "n_parent (ns ! i) = Some p"
  shows "p < i" "p < length ns" "i \<in> set (n_children (ns ! p))"
proof -
  show "p < i" and "i \<in> set (n_children (ns ! p))"
    using assms unfolding wf_tree_def by blast+
  then show "p < length ns" using assms(2) by linarith
qed

lemma wf_tree_child:
  assumes "wf_tree ns" "i < length ns" "c \<in> set (n_children (ns ! i))"
  shows "c < length ns" "n_parent (ns ! c) = Some i" "i < c"
proof -
  show c: "c < length ns" and p: "n_parent (ns ! c) = Some i"
    using assms unfolding wf_tree_def by blast+
  show "i < c" by (rule wf_tree_parent(1)[OF assms(1) c p])
qed

lemma wf_tree_distinct: "wf_tree ns \<Longrightarrow> i < length ns \<Longrightarrow> distinct (n_children (ns ! i))"
  unfolding wf_tree_def by blast

lemma wf_tree_cong:
  assumes "wf_tree ns" "length ns' = length ns"
    and "\<And>i. i < length ns \<Longrightarrow>
      n_parent (ns' ! i) = n_parent (ns ! i) \<and> n_children (ns' ! i) = n_children (ns ! i)"
  shows "wf_tree ns'"
proof (rule wf_treeI)
  fix i p assume i: "i < length ns'" and p: "n_parent (ns' ! i) = Some p"
  then have "n_parent (ns ! i) = Some p" "i < length ns" using assms by auto
  note wf_tree_parent[OF assms(1) this(2,1)]
  then show "p < i \<and> i \<in> set (n_children (ns' ! p))" using assms(3) by simp
next
  fix i assume "i < length ns'"
  then show "distinct (n_children (ns' ! i))"
    using wf_tree_distinct[OF assms(1)] assms(2,3) by simp
next
  fix i c assume i: "i < length ns'" and c: "c \<in> set (n_children (ns' ! i))"
  then have "i < length ns" "c \<in> set (n_children (ns ! i))" using assms by auto
  note wf_tree_child[OF assms(1) this]
  then show "c < length ns' \<and> n_parent (ns' ! c) = Some i" using assms(2,3) by simp
qed

lemma live_children_cong:
  assumes "n_children (ns' ! i) = n_children (ns ! i)"
    and "\<And>c. c \<in> set (n_children (ns ! i)) \<Longrightarrow> live (ns' ! c) = live (ns ! c)"
  shows "live_children ns' i = live_children ns i"
proof -
  have "filter (\<lambda>c. live (ns' ! c)) (n_children (ns ! i)) = filter (\<lambda>c. live (ns ! c)) (n_children (ns ! i))"
    using assms(2) by (intro filter_cong) auto
  then show ?thesis using assms(1) by (simp add: live_children_def)
qed

lemma index_ok_update:
  assumes "index_ok s" "nodes t = (nodes s)[i := x]" "n_task x = n_task (nodes s ! i)"
    and "by_task t = by_task s"
  shows "index_ok t"
  unfolding index_ok_def
proof (intro allI impI)
  fix u k assume "by_task t u = Some k"
  then have k: "k < length (nodes s)" "n_task (nodes s ! k) = u"
    using assms(1,4) unfolding index_ok_def by (metis, metis)
  then show "k < length (nodes t) \<and> n_task (nodes t ! k) = u"
    using assms(2,3) by (cases "i = k") auto
qed

lemma queue_ok_drop:
  assumes "queue_ok s" "nodes t = (nodes s)[i := x]" "n_state x \<noteq> NodeReady"
    and "ready t = filter (\<lambda>q. q \<noteq> i) (ready s)"
  shows "queue_ok t"
proof -
  have "set (ready t) = {j. j < length (nodes s) \<and> n_state (nodes s ! j) = NodeReady} - {i}"
    using assms(1,4) unfolding queue_ok_def by auto
  also have "\<dots> = {j. j < length (nodes t) \<and> n_state (nodes t ! j) = NodeReady}"
    using assms(2,3)
    by (cases "i < length (nodes s)") (auto simp: nth_list_update list_update_beyond split: if_splits)
  finally show ?thesis using assms(1,4) unfolding queue_ok_def by simp
qed

lemma run_count_update:
  "i < length ns \<Longrightarrow>
     run_count (ns[i := x]) + (if n_state (ns ! i) = NodeRunning then 1 else 0) =
     run_count ns + (if n_state x = NodeRunning then 1 else 0)"
  unfolding run_count_def
  by (rule sum_list_map_update[where f = "\<lambda>n. if n_state n = NodeRunning then 1 else 0"])

lemma run_units_update:
  "i < length ns \<Longrightarrow>
     run_units (ns[i := x]) + (if n_state (ns ! i) = NodeRunning then unat (n_units (ns ! i)) else 0) =
     run_units ns + (if n_state x = NodeRunning then unat (n_units x) else 0)"
  unfolding run_units_def
  by (rule sum_list_map_update[where f = "\<lambda>n. if n_state n = NodeRunning then unat (n_units n) else 0"])

lemma run_count_pos: "i < length ns \<Longrightarrow> n_state (ns ! i) = NodeRunning \<Longrightarrow> 0 < run_count ns"
  using sum_list_member_le_nat[of i ns "\<lambda>n. if n_state n = NodeRunning then 1 else 0"]
  by (simp add: run_count_def)

lemma run_units_ge:
  "i < length ns \<Longrightarrow> n_state (ns ! i) = NodeRunning \<Longrightarrow> unat (n_units (ns ! i)) \<le> run_units ns"
  using sum_list_member_le_nat[of i ns "\<lambda>n. if n_state n = NodeRunning then unat (n_units n) else 0"]
  by (simp add: run_units_def)

text \<open>A state change that keeps the running nodes keeps the ledger.\<close>

lemma ledger_cong:
  assumes "ledger_ok s" "i < length (nodes s)"
    and "nodes t = (nodes s)[i := x]" "n_units x = n_units (nodes s ! i)"
    and "(n_state x = NodeRunning) = (n_state (nodes s ! i) = NodeRunning)"
    and "running t = running s" "held_units t = held_units s"
    and "max_slots t = max_slots s" "resource_cap t = resource_cap s"
  shows "ledger_ok t"
proof -
  have "run_count (nodes t) = run_count (nodes s)" "run_units (nodes t) = run_units (nodes s)"
    using run_count_update[OF assms(2), of x] run_units_update[OF assms(2), of x] assms(3-5)
    by (auto split: if_splits)
  moreover have "\<forall>n\<in>set (nodes t). n_units n \<le> resource_cap t"
    using assms set_update_subset_insert[of "nodes s" i x] nth_mem[OF assms(2)]
    unfolding ledger_ok_def by (metis insert_iff subsetD)
  ultimately show ?thesis using assms unfolding ledger_ok_def by simp
qed

text \<open>Ending or parking one node, with the release its running state calls for.\<close>

lemma ledger_stop:
  assumes "ledger_ok s" "i < length (nodes s)" "st \<noteq> NodeRunning"
  shows "ledger_ok (set_node_state i st
           (if n_state (nodes s ! i) = NodeRunning then release_slot i s else s))"
proof (cases "n_state (nodes s ! i) = NodeRunning")
  case False
  then show ?thesis
    using assms
    by (intro ledger_cong[OF assms(1,2), where x = "(nodes s ! i)\<lparr>n_state := st\<rparr>"]) auto
next
  case True
  let ?t = "set_node_state i st (release_slot i s)"
  let ?x = "(nodes s ! i)\<lparr>n_state := st\<rparr>"
  have rc: "run_count (nodes ?t) = run_count (nodes s) - 1"
    using run_count_update[OF assms(2), of ?x] True assms(3) by simp
  have ru: "run_units (nodes ?t) = run_units (nodes s) - unat (n_units (nodes s ! i))"
    using run_units_update[OF assms(2), of ?x] True assms(3) by simp
  have le: "unat (n_units (nodes s ! i)) \<le> unat (held_units s)"
    using run_units_ge[OF assms(2) True] assms(1) by (simp add: ledger_ok_def)
  have hu: "unat (held_units ?t) = unat (held_units s) - unat (n_units (nodes s ! i))"
    using le by (simp add: unat_sub_le)
  have units: "\<forall>n\<in>set (nodes ?t). n_units n \<le> resource_cap s"
  proof
    fix n assume "n \<in> set (nodes ?t)"
    then have "n = ?x \<or> n \<in> set (nodes s)"
      using set_update_subset_insert[of "nodes s" i ?x] by auto
    then show "n_units n \<le> resource_cap s"
      using assms(1,2) nth_mem[OF assms(2)] by (auto simp: ledger_ok_def)
  qed
  have "held_units ?t \<le> resource_cap s"
    using hu assms(1) unfolding ledger_ok_def word_le_nat_alt by linarith
  then show ?thesis
    using rc ru hu units assms(1) True unfolding ledger_ok_def by (simp; linarith)
qed

subsection \<open>Ending nodes\<close>

text \<open>
  When a set \<open>D\<close> of live nodes becomes terminal and every member but \<open>r\<close> has a parent in
  \<open>D\<close> or a terminal one, only the parent of \<open>r\<close> loses a live child.
\<close>

lemma live_children_ended:
  assumes wf: "wf_tree ns" and len: "length ns' = length ns"
    and upd: "\<And>j. j < length ns \<Longrightarrow> n_children (ns' ! j) = n_children (ns ! j)
                 \<and> (j \<in> D \<longrightarrow> is_terminal (n_state (ns' ! j)))
                 \<and> (j \<notin> D \<longrightarrow> live (ns' ! j) = live (ns ! j))"
    and D: "\<And>d. d \<in> D \<Longrightarrow> d < length ns \<and> live (ns ! d)"
    and closed: "\<And>d p. d \<in> D \<Longrightarrow> d \<noteq> r \<Longrightarrow> n_parent (ns ! d) = Some p \<Longrightarrow> p \<in> D \<or> \<not> live (ns ! p)"
    and r: "r < length ns" and j: "j < length ns" and jl: "live (ns' ! j)"
  shows "live_children ns' j + (if r \<in> D \<and> n_parent (ns ! r) = Some j then 1 else 0) =
         live_children ns j"
proof -
  have jD: "j \<notin> D" "live (ns ! j)" using upd[OF j] jl by auto
  have only: "c = r" if "c \<in> set (n_children (ns ! j))" "c \<in> D" for c
    using closed[OF that(2)] wf_tree_child(2)[OF wf j that(1)] jD by blast
  let ?cs = "n_children (ns ! j)"
  have dist: "distinct ?cs" by (rule wf_tree_distinct[OF wf j])
  have cl: "live (ns' ! c) = (live (ns ! c) \<and> c \<notin> D)" if "c \<in> set ?cs" for c
    using upd[OF wf_tree_child(1)[OF wf j that]] D by blast
  show ?thesis
  proof (cases "r \<in> D \<and> n_parent (ns ! r) = Some j")
    case True
    then have rin: "r \<in> set ?cs" using wf_tree_parent(3)[OF wf r] by blast
    have "filter (\<lambda>c. live (ns' ! c)) ?cs = filter (\<lambda>c. r \<noteq> c) (filter (\<lambda>c. live (ns ! c)) ?cs)"
      unfolding filter_filter using cl only True by (intro filter_cong) auto
    also have "\<dots> = remove1 r (filter (\<lambda>c. live (ns ! c)) ?cs)"
      using dist by (simp add: distinct_remove1_removeAll removeAll_filter_not_eq)
    finally have "live_children ns' j = live_children ns j - 1"
      using rin True D upd[OF j] by (simp add: live_children_def length_remove1)
    moreover have "0 < live_children ns j"
      using rin True D unfolding live_children_def filter_length_pos_iff by blast
    ultimately show ?thesis using True by simp
  next
    case False
    have "c \<notin> D" if "c \<in> set ?cs" for c
      using only[OF that] False wf_tree_child(2)[OF wf j that] by blast
    then have "live_children ns' j = live_children ns j"
      using cl upd[OF j] by (intro live_children_cong) auto
    with False show ?thesis by simp
  qed
qed

lemma settle_parent_inv:
  assumes owes: "owes_settle i s"
  shows "sched_inv (snd (settle_parent i s))"
proof (cases "n_parent (nodes s ! i)")
  case None
  then show ?thesis
    using owes by (simp add: owes_settle_def sched_inv_def counts_ok_def settle_parent_def)
next
  case (Some p)
  let ?ns = "nodes s"
  have wf: "wf_tree ?ns" and i: "i < length ?ns" using owes by (simp_all add: owes_settle_def)
  have lq: "ledger_ok s" "queue_ok s" using owes by (simp_all add: owes_settle_def)
  have p: "p < length ?ns" by (rule wf_tree_parent(2)[OF wf i Some])
  define x where "x = (?ns ! p)\<lparr>n_unfinished := n_unfinished (?ns ! p) - 1\<rparr>"
  define y where "y = (if n_state x = NodeWaiting \<and> n_unfinished x = 0 then x\<lparr>n_state := NodeReady\<rparr> else x)"
  let ?wake = "n_state x = NodeWaiting \<and> n_unfinished x = 0"
  let ?t = "snd (settle_parent i s)"
  have t: "?t = s\<lparr>nodes := ?ns[p := y], ready := ready s @ (if ?wake then [p] else [])\<rparr>"
    using Some p by (cases "n_unfinished (?ns ! p)")
      (simp_all add: settle_parent_def x_def y_def Let_def upd_node_def set_node_state_def)
  have yf: "n_parent y = n_parent (?ns ! p)" "n_children y = n_children (?ns ! p)"
    "n_units y = n_units (?ns ! p)" "n_task y = n_task (?ns ! p)" "live y = live (?ns ! p)"
    "(n_state y = NodeRunning) = (n_state (?ns ! p) = NodeRunning)"
    by (auto simp: y_def x_def)
  have livec: "live_children (?ns[p := y]) j = live_children ?ns j" if "j < length ?ns" for j
    using yf p that by (intro live_children_cong) (auto simp: nth_list_update)
  have 1: "wf_tree (nodes ?t)"
    unfolding t by (rule wf_tree_cong[OF wf]) (use p in \<open>auto simp: nth_list_update yf\<close>)
  have 2: "counts_ok (nodes ?t)"
    using owes livec p Some unfolding counts_ok_def t owes_settle_def
    by (auto simp: nth_list_update yf y_def x_def)
  have 3: "waits_ok (nodes ?t)"
    using owes p unfolding waits_ok_def t owes_settle_def
    by (auto simp: nth_list_update y_def x_def)
  have 4: "ledger_ok ?t"
    by (rule ledger_cong[OF lq(1) p, of _ y]) (simp_all add: t yf)
  have 5: "queue_ok ?t"
    using lq(2) p unfolding t queue_ok_def
    by (auto simp: nth_list_update y_def x_def split: if_splits)
  have 6: "index_ok ?t"
    using owes yf(4) by (intro index_ok_update[of s ?t p y]) (simp_all add: t owes_settle_def)
  have 7: "links_ok ?t"
    using owes by (simp add: t owes_settle_def links_ok_def)
  show ?thesis using 1 2 3 4 5 6 7 by (simp add: sched_inv_def)
qed

text \<open>
  One node leaves the live states: the release its running state calls for, its queue entry
  dropped, and the parent's settlement still owed.
\<close>

definition end_node :: "node_id \<Rightarrow> node_state \<Rightarrow> scheduler \<Rightarrow> scheduler" where
  "end_node i st s =
     (set_node_state i st (if n_state (nodes s ! i) = NodeRunning then release_slot i s else s))
       \<lparr>ready := filter (\<lambda>q. q \<noteq> i) (ready s)\<rparr>"

lemma end_node_owes:
  assumes inv: "sched_inv s" and i: "i < length (nodes s)" and l: "live (nodes s ! i)"
    and st: "is_terminal st"
  shows "owes_settle i (end_node i st s)"
proof -
  let ?ns = "nodes s" and ?x = "(nodes s ! i)\<lparr>n_state := st\<rparr>" and ?t = "end_node i st s"
  have wf: "wf_tree ?ns" using inv by (simp add: sched_inv_def)
  have nt: "nodes ?t = ?ns[i := ?x]" by (simp add: end_node_def)
  have ledger: "ledger_ok ?t"
    using ledger_stop[of s i st] inv i terminal_not_running[OF st]
    unfolding end_node_def ledger_ok_ready by (simp add: sched_inv_def)
  have counts: "n_unfinished (nodes ?t ! j) =
      live_children (nodes ?t) j + (if n_parent (nodes ?t ! i) = Some j then 1 else 0)"
    if j: "j < length (nodes ?t)" and jl: "live (nodes ?t ! j)" for j
  proof -
    have ji: "j \<noteq> i" and j': "j < length ?ns" using j jl st i by (auto simp: nt)
    have lc: "live_children (nodes ?t) j + (if i \<in> {i} \<and> n_parent (?ns ! i) = Some j then 1 else 0)
        = live_children ?ns j"
      by (rule live_children_ended[OF wf]) (use i l st j jl in \<open>auto simp: nt nth_list_update\<close>)
    have "n_unfinished (?ns ! j) = live_children ?ns j"
      using inv j' jl ji by (auto simp: sched_inv_def counts_ok_def nt)
    with lc ji i show ?thesis by (simp add: nt)
  qed
  have "wf_tree (nodes ?t)"
    unfolding nt by (rule wf_tree_cong[OF wf]) (use i in \<open>auto simp: nth_list_update\<close>)
  moreover have "waits_ok (nodes ?t)"
    using inv st i by (auto simp: sched_inv_def waits_ok_def nt nth_list_update)
  moreover have "queue_ok ?t"
    using inv st by (intro queue_ok_drop[of s ?t i ?x]) (auto simp: sched_inv_def end_node_def)
  moreover have "index_ok ?t"
    using inv by (intro index_ok_update[of s ?t i ?x]) (simp_all add: sched_inv_def end_node_def)
  moreover have "links_ok ?t"
    using inv by (simp add: sched_inv_def links_ok_def end_node_def)
  ultimately show ?thesis
    using ledger counts i by (simp add: owes_settle_def nt)
qed

lemma sched_inv_end_node:
  assumes "sched_inv s" "i < length (nodes s)" "live (nodes s ! i)" "is_terminal st"
  shows "sched_inv (snd (settle_parent i (end_node i st s)))"
  using settle_parent_inv end_node_owes assms by blast

subsection \<open>The drain of a subtree\<close>

text \<open>
  \<open>under ns r d\<close>: the node \<open>d\<close> is in the subtree of \<open>r\<close>. \<open>preorder k ns r\<close> lists that
  subtree in pre-order, \<open>k\<close> bounding the depth; ids grow from parent to child, so
  \<open>length ns - r\<close> is deep enough.
\<close>

inductive under :: "node list \<Rightarrow> node_id \<Rightarrow> node_id \<Rightarrow> bool" for ns where
  under_refl: "under ns r r"
| under_child: "under ns r p \<Longrightarrow> c \<in> set (n_children (ns ! p)) \<Longrightarrow> under ns r c"

fun preorder :: "nat \<Rightarrow> node list \<Rightarrow> node_id \<Rightarrow> node_id list" where
  "preorder 0 ns i = []"
| "preorder (Suc k) ns i = i # concat (map (preorder k ns) (n_children (ns ! i)))"

lemma preorder_Suc:
  "preorder (Suc k) ns = (\<lambda>i. i # concat (map (preorder k ns) (n_children (ns ! i))))"
  by (rule ext) simp

lemma under_bound: "under ns r d \<Longrightarrow> wf_tree ns \<Longrightarrow> r < length ns \<Longrightarrow> d < length ns \<and> r \<le> d"
proof (induction rule: under.induct)
  case (under_refl r)
  then show ?case by simp
next
  case (under_child r p c)
  then show ?case using wf_tree_child[of ns p c] by fastforce
qed

lemma under_first:
  assumes "c \<in> set (n_children (ns ! r))" "under ns c d"
  shows "under ns r d"
  using assms(2,1) by (induction rule: under.induct) (auto intro: under.intros)

lemma under_split: "under ns r d \<Longrightarrow> d = r \<or> (\<exists>c\<in>set (n_children (ns ! r)). under ns c d)"
proof (induction rule: under.induct)
  case (under_refl r)
  then show ?case by simp
next
  case (under_child r p c)
  then show ?case by (auto intro: under.intros)
qed

lemma under_parent:
  assumes "wf_tree ns" "r < length ns" "under ns r d" "d \<noteq> r"
  shows "\<exists>p. n_parent (ns ! d) = Some p \<and> under ns r p"
  using assms(3)
proof (cases rule: under.cases)
  case under_refl
  then show ?thesis using assms(4) by simp
next
  case (under_child p)
  have "p < length ns" using under_bound[OF under_child(1) assms(1,2)] by simp
  then show ?thesis using under_child wf_tree_child(2)[OF assms(1)] by blast
qed

lemma set_preorder:
  "wf_tree ns \<Longrightarrow> i < length ns \<Longrightarrow> length ns - i \<le> k \<Longrightarrow> set (preorder k ns i) = {d. under ns i d}"
proof (induction k arbitrary: i)
  case 0
  then show ?case by simp
next
  case (Suc k)
  have IH: "set (preorder k ns c) = {d. under ns c d}" if "c \<in> set (n_children (ns ! i))" for c
    using Suc.IH[of c] wf_tree_child[OF Suc.prems(1,2) that] Suc.prems by simp
  have "set (preorder (Suc k) ns i) = insert i (\<Union>c\<in>set (n_children (ns ! i)). {d. under ns c d})"
    using IH by simp
  also have "\<dots> = {d. under ns i d}"
    using under_first under_split by (fastforce intro: under_refl)
  finally show ?case .
qed

lemma drain_walk_stack:
  assumes wf: "wf_tree ns"
  shows "\<forall>i\<in>set st. i < length ns \<and> length ns - i \<le> k \<Longrightarrow>
     drain_walk ns (st @ rest) acc =
     drain_walk ns rest (acc @ filter (\<lambda>i. live (ns ! i)) (concat (map (preorder k ns) st)))"
proof (induction k arbitrary: st rest acc)
  case 0
  then show ?case by (cases st) auto
next
  case (Suc k)
  note outer = Suc.IH
  show ?case using Suc.prems
  proof (induction st arbitrary: acc)
    case Nil
    then show ?case by simp
  next
    case (Cons i st)
    let ?acc = "if live (ns ! i) then acc @ [i] else acc"
    have "\<forall>c\<in>set (n_children (ns ! i)). c < length ns \<and> length ns - c \<le> k"
    proof
      fix c assume c: "c \<in> set (n_children (ns ! i))"
      have "i < length ns" "length ns - i \<le> Suc k" using Cons.prems by simp_all
      then show "c < length ns \<and> length ns - c \<le> k"
        using wf_tree_child(1,3)[OF wf _ c] by simp
    qed
    then have "drain_walk ns ((i # st) @ rest) acc = drain_walk ns (st @ rest)
        (?acc @ filter (\<lambda>i. live (ns ! i)) (concat (map (preorder k ns) (n_children (ns ! i)))))"
      using outer[of "n_children (ns ! i)" "st @ rest" ?acc]
      by (subst drain_walk.simps) simp
    also have "\<dots> = drain_walk ns rest
        (acc @ filter (\<lambda>i. live (ns ! i)) (concat (map (preorder (Suc k) ns) (i # st))))"
      using Cons.IH Cons.prems by (simp add: preorder_Suc)
    finally show ?case .
  qed
qed

text \<open>On a well-formed tree the drain returns, with the live nodes of the subtree in pre-order.\<close>

lemma drain_walk_preorder:
  assumes "wf_tree ns" "r < length ns"
  shows "drain_walk ns [r] [] = Some (filter (\<lambda>i. live (ns ! i)) (preorder (length ns) ns r))"
  using drain_walk_stack[OF assms(1), of "[r]" "length ns" "[]" "[]"] assms(2)
  by (simp add: drain_walk.simps[of ns "[]"])

definition drained :: "node list \<Rightarrow> node_id \<Rightarrow> node_id list" where
  "drained ns r = filter (\<lambda>i. live (ns ! i)) (preorder (length ns) ns r)"

lemma set_drained:
  "wf_tree ns \<Longrightarrow> r < length ns \<Longrightarrow> set (drained ns r) = {d. under ns r d \<and> live (ns ! d)}"
  using set_preorder[of ns r "length ns"] by (auto simp: drained_def)

subsection \<open>Folding the cancellation over the drained nodes\<close>

lemma cancel_node_simps [simp]:
  "nodes (cancel_node i s) = (nodes s)[i := (nodes s ! i)\<lparr>n_state := NodeCancelled\<rparr>]"
  "ready (cancel_node i s) = ready s" "by_task (cancel_node i s) = by_task s"
  "parents (cancel_node i s) = parents s" "linkage (cancel_node i s) = linkage s"
  "cancelled_tasks (cancel_node i s) = cancelled_tasks s"
  "max_slots (cancel_node i s) = max_slots s" "resource_cap (cancel_node i s) = resource_cap s"
  "ignored_late_deliveries (cancel_node i s) = ignored_late_deliveries s"
  by (simp_all add: cancel_node_def)

lemma fold_cancel_frame:
  "ready (fold cancel_node xs s) = ready s \<and> by_task (fold cancel_node xs s) = by_task s \<and>
   parents (fold cancel_node xs s) = parents s \<and> linkage (fold cancel_node xs s) = linkage s \<and>
   cancelled_tasks (fold cancel_node xs s) = cancelled_tasks s \<and>
   max_slots (fold cancel_node xs s) = max_slots s \<and>
   resource_cap (fold cancel_node xs s) = resource_cap s \<and>
   ignored_late_deliveries (fold cancel_node xs s) = ignored_late_deliveries s \<and>
   length (nodes (fold cancel_node xs s)) = length (nodes s)"
  by (induction xs arbitrary: s) auto

lemma fold_cancel_nodes:
  "j < length (nodes s) \<Longrightarrow> nodes (fold cancel_node xs s) ! j =
     (if j \<in> set xs then (nodes s ! j)\<lparr>n_state := NodeCancelled\<rparr> else nodes s ! j)"
proof (induction xs arbitrary: s)
  case Nil
  then show ?case by simp
next
  case (Cons a xs)
  then show ?case by (cases "a = j") auto
qed

lemma fold_cancel_ledger:
  "ledger_ok s \<Longrightarrow> \<forall>i\<in>set xs. i < length (nodes s) \<Longrightarrow> ledger_ok (fold cancel_node xs s)"
proof (induction xs arbitrary: s)
  case Nil
  then show ?case by simp
next
  case (Cons i xs)
  then have "ledger_ok (cancel_node i s)"
    unfolding cancel_node_def by (intro ledger_stop) auto
  with Cons show ?case by simp
qed

end
