(* ===== verification/Scheduler_Ops.thy ===== *)
theory Scheduler_Ops
  imports Scheduler_Inv
begin

text \<open>
  Preservation of the scheduler's invariant by every public operation, and what each operation
  changes: node states only move forward (\<open>keeps_terminal\<close>), the limits never move, and the
  walks the operations start return.
\<close>

lemma sched_invD:
  assumes "sched_inv s"
  shows "wf_tree (nodes s)" "counts_ok (nodes s)" "waits_ok (nodes s)" "ledger_ok s" "queue_ok s"
    "index_ok s" "links_ok s"
  using assms by (simp_all add: sched_inv_def)

lemma index_ok_cong:
  assumes "index_ok s" "length (nodes t) = length (nodes s)" "by_task t = by_task s"
    and "\<And>j. j < length (nodes s) \<Longrightarrow> n_task (nodes t ! j) = n_task (nodes s ! j)"
  shows "index_ok t"
  unfolding index_ok_def
proof (intro allI impI)
  fix u k assume "by_task t u = Some k"
  then have "k < length (nodes s)" "n_task (nodes s ! k) = u"
    using assms(1,3) unfolding index_ok_def by (metis, metis)
  then show "k < length (nodes t) \<and> n_task (nodes t ! k) = u"
    using assms(2,4) by simp
qed

lemma links_ok_cong:
  "links_ok s \<Longrightarrow> linkage t = linkage s \<Longrightarrow> parents t = parents s \<Longrightarrow> links_ok t"
  by (simp add: links_ok_def)

lemma new_inv: "sched_inv (scheduler_new slots cap)"
  by (simp add: sched_inv_def scheduler_new_def wf_tree_def counts_ok_def waits_ok_def ledger_ok_def
      queue_ok_def index_ok_def links_ok_def run_count_def run_units_def)

subsection \<open>Completion, settlement and retirement\<close>

lemma running_not_ready:
  assumes "sched_inv s" "i < length (nodes s)" "n_state (nodes s ! i) \<noteq> NodeReady"
  shows "filter (\<lambda>q. q \<noteq> i) (ready s) = ready s"
proof -
  have "i \<notin> set (ready s)" using sched_invD(5)[OF assms(1)] assms(3) by (simp add: queue_ok_def)
  then show ?thesis by (intro filter_True) auto
qed

lemma end_running:
  assumes "sched_inv s" "i < length (nodes s)" "n_state (nodes s ! i) = NodeRunning"
  shows "release_slot i (set_node_state i st s) = end_node i st s"
  using assms running_not_ready[OF assms(1,2)]
  by (simp add: end_node_def release_slot_def set_node_state_def upd_node_def)

lemma complete_inv: "sched_inv s \<Longrightarrow> sched_inv (snd (complete i s))"
proof (cases "i < length (nodes s)")
  case False
  then show "sched_inv s \<Longrightarrow> ?thesis" by (simp add: complete_def sched_node_state_def)
next
  case i: True
  assume inv: "sched_inv s"
  show ?thesis
  proof (cases "n_state (nodes s ! i)")
    case NodeRunning
    have "complete i s = (let (r, t) = settle_parent i (end_node i NodeCompleted s)
                          in (Inr (TransitionCompleted r), t))"
      using i NodeRunning end_running[OF inv i NodeRunning]
      by (simp add: complete_def sched_node_state_def split: prod.splits)
    then show ?thesis
      using sched_inv_end_node[OF inv i, of NodeCompleted] NodeRunning
      by (simp add: Let_def split: prod.splits)
  next
    case NodeCancelled
    then show ?thesis using i inv
      by (simp add: complete_def sched_node_state_def sched_inv_def ledger_ok_def queue_ok_def
          index_ok_def links_ok_def)
  qed (use i inv in \<open>simp_all add: complete_def sched_node_state_def\<close>)
qed

lemma settle_inv: "sched_inv s \<Longrightarrow> sched_inv (snd (settle i s))"
proof (cases "i < length (nodes s) \<and> n_state (nodes s ! i) = NodeRunning")
  case False
  then show "sched_inv s \<Longrightarrow> ?thesis" by (auto simp: settle_def sched_node_state_def)
next
  case True
  assume inv: "sched_inv s"
  have "snd (settle i s) = snd (settle_parent i (end_node i NodeSettled s))"
    using True end_running[OF inv] by (simp add: settle_def sched_node_state_def)
  then show ?thesis using sched_inv_end_node[OF inv] True by simp
qed

lemma set_state_ready:
  "set_node_state i st (s\<lparr>ready := q\<rparr>) = (set_node_state i st s)\<lparr>ready := q\<rparr>"
  by (simp add: set_node_state_def upd_node_def)

lemma set_state_ready_id:
  "ready s = q \<Longrightarrow> (set_node_state i st s)\<lparr>ready := q\<rparr> = set_node_state i st s"
  by (auto simp: set_node_state_def upd_node_def)

lemma retire_inv:
  assumes inv: "sched_inv s" and i: "i < length (nodes s)"
  shows "sched_inv (retire i s)"
proof (cases "live (nodes s ! i)")
  case False
  then show ?thesis using inv by (simp add: retire_def)
next
  case True
  have "retire i s = snd (settle_parent i (end_node i NodeSettled s))"
    using True running_not_ready[OF inv i]
    by (cases "n_state (nodes s ! i)")
      (simp_all add: retire_def end_node_def Let_def set_state_ready set_state_ready_id)
  then show ?thesis using sched_inv_end_node[OF inv i True] by simp
qed

subsection \<open>Waiting\<close>

lemma begin_wait_inv:
  assumes inv: "sched_inv s"
  shows "sched_inv (snd (begin_wait i s))"
proof (cases "i < length (nodes s) \<and> n_state (nodes s ! i) = NodeRunning \<and> 0 < n_unfinished (nodes s ! i)")
  case False
  then show ?thesis using inv by (auto simp: begin_wait_def sched_node_state_def)
next
  case True
  let ?x = "(nodes s ! i)\<lparr>n_state := NodeWaiting\<rparr>" and ?ns = "nodes s"
  let ?t = "set_node_state i NodeWaiting (release_slot i s)"
  have i: "i < length ?ns" using True by simp
  have t: "snd (begin_wait i s) = ?t"
    using True by (simp add: begin_wait_def sched_node_state_def release_set_state_commute)
  have lc: "live_children (?ns[i := ?x]) j = live_children ?ns j" if "j < length ?ns" for j
    using i that True by (intro live_children_cong) (auto simp: nth_list_update)
  have "wf_tree (nodes ?t)"
    by (rule wf_tree_cong[OF sched_invD(1)[OF inv]]) (use i in \<open>auto simp: nth_list_update\<close>)
  moreover have "counts_ok (nodes ?t)"
    using sched_invD(2)[OF inv] lc i True by (auto simp: counts_ok_def nth_list_update)
  moreover have "waits_ok (nodes ?t)"
    using sched_invD(3)[OF inv] i True by (auto simp: waits_ok_def nth_list_update)
  moreover have "ledger_ok ?t"
    using ledger_stop[OF sched_invD(4)[OF inv] i, of NodeWaiting] True by simp
  moreover have "queue_ok ?t"
    by (rule queue_ok_drop[OF sched_invD(5)[OF inv], of _ i ?x])
      (use i True running_not_ready[OF inv i] in simp_all)
  moreover have "index_ok ?t"
    by (rule index_ok_update[OF sched_invD(6)[OF inv], of _ i ?x]) simp_all
  moreover have "links_ok ?t"
    by (rule links_ok_cong[OF sched_invD(7)[OF inv]]) simp_all
  ultimately show ?thesis unfolding t by (simp add: sched_inv_def)
qed

subsection \<open>Cancellation of a tree\<close>

lemma cancel_tree_state:
  assumes inv: "sched_inv s" and r: "r < length (nodes s)"
  defines "D \<equiv> drained (nodes s) r"
  defines "s1 \<equiv> fold cancel_node D s"
  defines "s2 \<equiv> s1\<lparr>ready := filter (\<lambda>q. n_state (nodes s1 ! q) = NodeReady) (ready s1)\<rparr>"
  shows "cancel_tree r s =
           Some (Inr D, if live (nodes s ! r) then snd (settle_parent r s2) else s2)"
  using drain_walk_preorder[OF sched_invD(1)[OF inv] r] r
  by (simp add: cancel_tree_def sched_node_state_def D_def drained_def s1_def s2_def Let_def)

lemma cancel_tree_inv:
  assumes inv: "sched_inv s" and r: "r < length (nodes s)"
  shows "\<exists>t. cancel_tree r s = Some (Inr (drained (nodes s) r), t) \<and> sched_inv t"
proof -
  let ?ns = "nodes s" and ?D = "drained (nodes s) r"
  define s1 where "s1 = fold cancel_node ?D s"
  define s2 where "s2 = s1\<lparr>ready := filter (\<lambda>q. n_state (nodes s1 ! q) = NodeReady) (ready s1)\<rparr>"
  have wf: "wf_tree ?ns" by (rule sched_invD(1)[OF inv])
  have D: "set ?D = {d. under ?ns r d \<and> live (?ns ! d)}" by (rule set_drained[OF wf r])
  have Dlen: "\<forall>d\<in>set ?D. d < length ?ns" using D under_bound[OF _ wf r] by blast
  have len: "length (nodes s2) = length ?ns" and rdy: "ready s1 = ready s"
    and frame: "by_task s2 = by_task s" "parents s2 = parents s" "linkage s2 = linkage s"
    using fold_cancel_frame[of ?D s] by (simp_all add: s1_def s2_def)
  have nth: "nodes s2 ! j = (if j \<in> set ?D then (?ns ! j)\<lparr>n_state := NodeCancelled\<rparr> else ?ns ! j)"
    if "j < length ?ns" for j
    using fold_cancel_nodes[OF that] by (simp add: s1_def s2_def)
  have wf2: "wf_tree (nodes s2)" by (rule wf_tree_cong[OF wf len]) (simp add: nth)
  have wt2: "waits_ok (nodes s2)"
    using sched_invD(3)[OF inv] unfolding waits_ok_def len by (simp add: nth)
  have lg2: "ledger_ok s2"
    using fold_cancel_ledger[OF sched_invD(4)[OF inv] Dlen] by (simp add: s1_def s2_def)
  have "set (ready s2) = {j. j < length (nodes s2) \<and> n_state (nodes s2 ! j) = NodeReady}"
    using sched_invD(5)[OF inv] rdy nth len unfolding queue_ok_def
    by (auto simp: s2_def split: if_splits)
  then have q2: "queue_ok s2"
    using sched_invD(5)[OF inv] rdy by (simp add: queue_ok_def s2_def)
  have ix2: "index_ok s2"
    by (rule index_ok_cong[OF sched_invD(6)[OF inv] len frame(1)]) (simp add: nth)
  have lk2: "links_ok s2" by (rule links_ok_cong[OF sched_invD(7)[OF inv] frame(3,2)])
  have lc: "live_children (nodes s2) j + (if r \<in> set ?D \<and> n_parent (?ns ! r) = Some j then 1 else 0)
      = live_children ?ns j" if "j < length ?ns" "live (nodes s2 ! j)" for j
  proof (rule live_children_ended[OF wf len _ _ _ r that])
    show "\<And>d. d \<in> set ?D \<Longrightarrow> d < length ?ns \<and> live (?ns ! d)" using D Dlen by blast
    show "p \<in> set ?D \<or> \<not> live (?ns ! p)"
      if "d \<in> set ?D" "d \<noteq> r" "n_parent (?ns ! d) = Some p" for d p
      using under_parent[OF wf r, of d] that D by auto
  qed (simp add: nth)
  have cnt: "n_unfinished (nodes s2 ! j) = live_children ?ns j"
    if "j < length ?ns" "live (nodes s2 ! j)" for j
    using sched_invD(2)[OF inv] that nth[OF that(1)] unfolding counts_ok_def
    by (metis is_terminal_simps(2) node.select_convs(8) node.surjective node.update_convs(8))
  show ?thesis
  proof (cases "live (?ns ! r)")
    case True
    then have "r \<in> set ?D" using D by (simp add: under_refl)
    then have "owes_settle r s2"
      unfolding owes_settle_def using wf2 wt2 lg2 q2 ix2 lk2 r len lc cnt nth[OF r] by simp
    then show ?thesis
      using settle_parent_inv cancel_tree_state[OF inv r] True by (simp add: s1_def s2_def)
  next
    case False
    then have "r \<notin> set ?D" using D by simp
    then have "counts_ok (nodes s2)" using lc cnt len by (simp add: counts_ok_def)
    then show ?thesis
      using wf2 wt2 lg2 q2 ix2 lk2 cancel_tree_state[OF inv r] False
      by (simp add: s1_def s2_def sched_inv_def)
  qed
qed

subsection \<open>Submission and adoption\<close>

definition child_added :: "node_id \<Rightarrow> node \<Rightarrow> node" where
  "child_added c n = n\<lparr>n_children := n_children n @ [c], n_unfinished := n_unfinished n + 1\<rparr>"

lemma push_node_inv:
  assumes inv: "sched_inv s" and x: "n_children x = []" "n_unfinished x = 0" "n_state x = NodeReady"
    and cap: "n_units x \<le> resource_cap s" and len: "length ns = length (nodes s)"
    and par: "\<And>p. n_parent x = Some p \<Longrightarrow> p < length (nodes s) \<and> live (nodes s ! p)"
    and nth: "\<And>j. j < length (nodes s) \<Longrightarrow>
       ns ! j = (if n_parent x = Some j then child_added (length (nodes s)) (nodes s ! j) else nodes s ! j)"
    and t: "t = s\<lparr>nodes := ns @ [x], by_task := (by_task s)(n_task x \<mapsto> length (nodes s)),
                   ready := ready s @ [length (nodes s)]\<rparr>"
  shows "sched_inv t"
proof -
  let ?n = "length (nodes s)" and ?ns' = "ns @ [x]"
  have wf: "wf_tree (nodes s)" by (rule sched_invD(1)[OF inv])
  have f: "n_parent (?ns' ! j) = n_parent (nodes s ! j)" "n_state (?ns' ! j) = n_state (nodes s ! j)"
    "n_units (?ns' ! j) = n_units (nodes s ! j)" "n_task (?ns' ! j) = n_task (nodes s ! j)"
    "n_children (?ns' ! j) = n_children (nodes s ! j) @ (if n_parent x = Some j then [?n] else [])"
    "n_unfinished (?ns' ! j) = n_unfinished (nodes s ! j) + (if n_parent x = Some j then 1 else 0)"
    if "j < ?n" for j
    using nth[OF that] that len by (auto simp: nth_append child_added_def)
  have fn: "?ns' ! ?n = x" using len by (metis nth_append_length)
  have lc: "live_children ?ns' j = live_children (nodes s) j + (if n_parent x = Some j then 1 else 0)"
    if j: "j < ?n" for j
  proof -
    have "filter (\<lambda>c. live (?ns' ! c)) (n_children (nodes s ! j)) =
        filter (\<lambda>c. live (nodes s ! c)) (n_children (nodes s ! j))"
      using wf_tree_child(1)[OF wf j] f(2) by (intro filter_cong) auto
    then show ?thesis using f(5)[OF j] fn x(3) by (simp add: live_children_def)
  qed
  have "wf_tree ?ns'"
  proof (rule wf_treeI)
    fix i p assume i: "i < length ?ns'" and p: "n_parent (?ns' ! i) = Some p"
    show "p < i \<and> i \<in> set (n_children (?ns' ! p))"
    proof (cases "i = ?n")
      case True
      then show ?thesis using p fn par f(5) by fastforce
    next
      case False
      then have "i < ?n" using i len by simp
      then show ?thesis using p f(1,5) wf_tree_parent[OF wf] by fastforce
    qed
  next
    fix i assume i: "i < length ?ns'"
    show "distinct (n_children (?ns' ! i))"
    proof (cases "i = ?n")
      case True
      then show ?thesis using fn x(1) by simp
    next
      case False
      then have "i < ?n" using i len by simp
      then show ?thesis
        using f(5) wf_tree_distinct[OF wf] wf_tree_child(1)[OF wf] by fastforce
    qed
  next
    fix i c assume i: "i < length ?ns'" and c: "c \<in> set (n_children (?ns' ! i))"
    have i': "i < ?n" using i c fn x(1) len by (cases "i = ?n") auto
    show "c < length ?ns' \<and> n_parent (?ns' ! c) = Some i"
    proof (cases "c = ?n")
      case True
      have "c \<notin> set (n_children (nodes s ! i))" using wf_tree_child(1)[OF wf i'] True by auto
      then have "n_parent x = Some i" using c f(5)[OF i'] by (auto split: if_splits)
      then show ?thesis using True fn len by simp
    next
      case False
      then have "c \<in> set (n_children (nodes s ! i))" using c f(5)[OF i'] by (auto split: if_splits)
      from wf_tree_child[OF wf i' this] show ?thesis using f(1)[of c] len by simp
    qed
  qed
  moreover have "counts_ok ?ns'"
    using sched_invD(2)[OF inv] f(2,6) lc fn x len
    by (auto simp: counts_ok_def live_children_def less_Suc_eq)
  moreover have "waits_ok ?ns'"
    using sched_invD(3)[OF inv] f(2,6) fn x len by (auto simp: waits_ok_def less_Suc_eq)
  moreover have "ledger_ok t"
  proof -
    have "map n_units ns = map n_units (nodes s)"
      using nth len by (auto intro!: nth_equalityI simp: child_added_def)
    have eq: "map (\<lambda>n. (n_state n, n_units n)) ns = map (\<lambda>n. (n_state n, n_units n)) (nodes s)"
      using nth len by (auto intro!: nth_equalityI simp: child_added_def)
    have "run_count ns = run_count (nodes s)" "run_units ns = run_units (nodes s)"
      using arg_cong[OF eq, of "\<lambda>l. sum_list (map (\<lambda>(a, b). if a = NodeRunning then 1 else 0) l)"]
        arg_cong[OF eq, of "\<lambda>l. sum_list (map (\<lambda>(a, b). if a = NodeRunning then unat b else 0) l)"]
      by (simp_all add: run_count_def run_units_def comp_def)
    moreover have "\<forall>n\<in>set ns. n_units n \<le> resource_cap s"
    proof
      fix n assume "n \<in> set ns"
      then have "n_units n \<in> set (map n_units ns)" by simp
      then have "n_units n \<in> n_units ` set (nodes s)"
        using \<open>map n_units ns = map n_units (nodes s)\<close> by simp
      then show "n_units n \<le> resource_cap s"
        using sched_invD(4)[OF inv] by (auto simp: ledger_ok_def)
    qed
    ultimately show ?thesis
      using sched_invD(4)[OF inv] x cap unfolding ledger_ok_def t
      by (simp add: run_count_def run_units_def)
  qed
  moreover have "queue_ok t"
    using sched_invD(5)[OF inv] f(2) fn x(3) len unfolding queue_ok_def t by (auto simp: less_Suc_eq)
  moreover have "index_ok t"
    unfolding index_ok_def
  proof (intro allI impI)
    fix u k assume k: "by_task t u = Some k"
    show "k < length (nodes t) \<and> n_task (nodes t ! k) = u"
    proof (cases "u = n_task x")
      case True
      then show ?thesis using k fn len by (simp add: t)
    next
      case False
      then have "k < ?n \<and> n_task (nodes s ! k) = u"
        using sched_invD(6)[OF inv] k unfolding index_ok_def t by simp
      then show ?thesis using f(4)[of k] len by (simp add: t)
    qed
  qed
  moreover have "links_ok t" using sched_invD(7)[OF inv] by (simp add: links_ok_def t)
  ultimately show ?thesis by (simp add: sched_inv_def t)
qed

lemma submit_inv: "sched_inv s \<Longrightarrow> sched_inv (snd (submit parent task answer grant units s))"
proof (cases parent)
  case None
  assume inv: "sched_inv s"
  show ?thesis
  proof (cases "units \<le> resource_cap s")
    case True
    then show ?thesis
      by (intro push_node_inv[OF inv, where ns = "nodes s" and x = "\<lparr>n_task = task, n_answer = answer, n_grant_id = grant,
            n_parent = parent, n_children = [], n_unfinished = 0, n_units = units, n_state = NodeReady\<rparr>"])
        (use None in \<open>simp_all add: submit_def Let_def\<close>)
  qed (use inv in \<open>simp add: submit_def not_le\<close>)
next
  case (Some p)
  assume inv: "sched_inv s"
  show ?thesis
  proof (cases "units \<le> resource_cap s \<and> p < length (nodes s) \<and> live (nodes s ! p)")
    case True
    then show ?thesis
      by (intro push_node_inv[OF inv,
            where ns = "(nodes s)[p := child_added (length (nodes s)) (nodes s ! p)]"
              and x = "\<lparr>n_task = task, n_answer = answer, n_grant_id = grant,
                n_parent = parent, n_children = [], n_unfinished = 0, n_units = units, n_state = NodeReady\<rparr>"])
        (use Some in \<open>auto simp: submit_def Let_def sched_node_state_def nth_list_update
            child_added_def upd_node_def\<close>)
  qed (use Some inv in \<open>auto simp: submit_def sched_node_state_def Let_def\<close>)
qed

lemma adopt_inv: "sched_inv s \<Longrightarrow> sched_inv (adopt task parent s)"
proof (cases "parents s task")
  case (Some q)
  then show "sched_inv s \<Longrightarrow> ?thesis" by (simp add: adopt_def)
next
  case None
  assume inv: "sched_inv s"
  have l: "distinct (map fst (linkage s))" "parents s = map_of (linkage s)"
    using sched_invD(7)[OF inv] by (simp_all add: links_ok_def)
  then have "task \<notin> fst ` set (linkage s)" using None by (simp add: map_of_eq_None_iff)
  moreover have "map_of (linkage s @ [(task, parent)]) = (map_of (linkage s))(task \<mapsto> parent)"
  proof
    fix u
    show "map_of (linkage s @ [(task, parent)]) u = ((map_of (linkage s))(task \<mapsto> parent)) u"
      using None l(2) by (cases "map_of (linkage s) u") (auto simp: map_add_def)
  qed
  ultimately have "links_ok (adopt task parent s)"
    using l None by (simp add: links_ok_def adopt_def)
  moreover have "index_ok (adopt task parent s)"
    by (rule index_ok_cong[OF sched_invD(6)[OF inv]]) (simp_all add: adopt_def)
  ultimately show ?thesis
    using inv None by (simp add: sched_inv_def adopt_def ledger_ok_def queue_ok_def)
qed

lemma deliver_inv: "sched_inv s \<Longrightarrow> sched_inv (snd (deliver ev s))"
proof -
  assume inv: "sched_inv s"
  have "index_ok (snd (deliver ev s))"
    by (rule index_ok_cong[OF sched_invD(6)[OF inv]]) (simp_all add: deliver_def split: option.splits)
  then show ?thesis
    using inv by (simp add: sched_inv_def deliver_def ledger_ok_def queue_ok_def links_ok_def
        split: option.splits)
qed

subsection \<open>Admission\<close>

lemma scope_walk_returns:
  "wf_tree ns \<Longrightarrow> i < length ns \<Longrightarrow>
     \<exists>above. scope_walk ns (Some i) chain = Some (above @ n_task (ns ! i) # rev chain)"
proof (induction i arbitrary: chain rule: less_induct)
  case (less i)
  show ?case
  proof (cases "n_parent (ns ! i)")
    case None
    then show ?thesis
      by (intro exI[of _ "[]"]) (simp add: scope_walk.simps[of ns "Some i"] scope_walk.simps[of ns None])
  next
    case (Some p)
    note p = wf_tree_parent[OF less.prems Some]
    obtain above where "scope_walk ns (Some p) (chain @ [n_task (ns ! i)]) =
        Some (above @ n_task (ns ! p) # rev (chain @ [n_task (ns ! i)]))"
      using less.IH[OF p(1) less.prems(1) p(2)] by blast
    then show ?thesis
      using Some by (intro exI[of _ "above @ [n_task (ns ! p)]"]) (simp add: scope_walk.simps[of ns "Some i"])
  qed
qed

lemma scope_chain_returns:
  assumes "sched_inv s" "i < length (nodes s)"
  shows "\<exists>above. scope_chain s i = Some (above @ [n_task (nodes s ! i)])"
  using scope_walk_returns[OF sched_invD(1)[OF assms(1)] assms(2), of "[]"] by (simp add: scope_chain_def)

lemma ready_head:
  assumes "sched_inv s" "ready s = i # rest"
  shows "i < length (nodes s)" "n_state (nodes s ! i) = NodeReady" "i \<notin> set rest"
proof -
  have d: "distinct (i # rest)"
    and q: "set (i # rest) = {j. j < length (nodes s) \<and> n_state (nodes s ! j) = NodeReady}"
    using sched_invD(5)[OF assms(1)] assms(2) by (simp_all add: queue_ok_def)
  have "i \<in> {j. j < length (nodes s) \<and> n_state (nodes s ! j) = NodeReady}"
    using q by (metis list.set_intros(1))
  then show "i < length (nodes s)" "n_state (nodes s ! i) = NodeReady" by simp_all
  show "i \<notin> set rest" using d by simp
qed

lemma admitted_inv:
  assumes inv: "sched_inv s" and q: "ready s = i # rest" and slot: "running s \<noteq> max_slots s"
    and tot: "checked_add (held_units s) (n_units (nodes s ! i)) = Some tot" "tot \<le> resource_cap s"
  shows "sched_inv ((set_node_state i NodeRunning (s\<lparr>ready := rest\<rparr>))\<lparr>running := running s + 1, held_units := tot\<rparr>)"
    (is "sched_inv ?t")
proof -
  note h = ready_head[OF inv q]
  let ?ns = "nodes s" and ?x = "(nodes s ! i)\<lparr>n_state := NodeRunning\<rparr>"
  have nt: "nodes ?t = ?ns[i := ?x]" by simp
  have lc: "live_children (?ns[i := ?x]) j = live_children ?ns j" if "j < length ?ns" for j
    using h that by (intro live_children_cong) (auto simp: nth_list_update)
  have "wf_tree (nodes ?t)"
    unfolding nt by (rule wf_tree_cong[OF sched_invD(1)[OF inv]]) (use h in \<open>auto simp: nth_list_update\<close>)
  moreover have "counts_ok (nodes ?t)"
    unfolding nt using sched_invD(2)[OF inv] lc h by (auto simp: counts_ok_def nth_list_update)
  moreover have "waits_ok (nodes ?t)"
    unfolding nt using sched_invD(3)[OF inv] h by (auto simp: waits_ok_def nth_list_update)
  moreover have "ledger_ok ?t"
  proof -
    have rc: "run_count (?ns[i := ?x]) = run_count ?ns + 1"
      "run_units (?ns[i := ?x]) = run_units ?ns + unat (n_units (?ns ! i))"
      using run_count_update[OF h(1), of ?x] run_units_update[OF h(1), of ?x] h(2) by simp_all
    have units: "\<forall>n\<in>set (?ns[i := ?x]). n_units n \<le> resource_cap s"
    proof
      fix n assume "n \<in> set (?ns[i := ?x])"
      then have "n = ?x \<or> n \<in> set ?ns" using set_update_subset_insert[of ?ns i ?x] by auto
      then show "n_units n \<le> resource_cap s"
        using sched_invD(4)[OF inv] nth_mem[OF h(1)] by (auto simp: ledger_ok_def)
    qed
    show ?thesis
      using rc units sched_invD(4)[OF inv] slot tot checked_add_SomeD[OF tot(1)]
      by (simp add: ledger_ok_def)
  qed
  moreover have "queue_ok ?t"
  proof (rule queue_ok_drop[OF sched_invD(5)[OF inv] nt])
    show "ready ?t = filter (\<lambda>q. q \<noteq> i) (ready s)"
      using q h(3) by (auto intro!: filter_True[symmetric])
  qed simp
  moreover have "index_ok ?t"
    by (rule index_ok_update[OF sched_invD(6)[OF inv] nt]) simp_all
  moreover have "links_ok ?t"
    by (rule links_ok_cong[OF sched_invD(7)[OF inv]]) simp_all
  ultimately show ?thesis by (simp add: sched_inv_def)
qed

lemma admit_cases:
  assumes "admit_next_bounded reserve l s = Some (r, l', t)" "sched_inv s"
  shows "(r = None \<and> t = s) \<or>
    (\<exists>i rest tot. r = Some i \<and> ready s = i # rest \<and> running s \<noteq> max_slots s \<and>
       checked_add (held_units s) (n_units (nodes s ! i)) = Some tot \<and> tot \<le> resource_cap s \<and>
       t = (set_node_state i NodeRunning (s\<lparr>ready := rest\<rparr>))\<lparr>running := running s + 1, held_units := tot\<rparr>)"
proof (cases "ready s")
  case Nil
  then show ?thesis using assms(1) by (simp add: admit_next_bounded_def)
next
  case (Cons i rest)
  then show ?thesis
    using assms(1)
    by (auto simp: admit_next_bounded_def Let_def not_less split: if_splits option.splits prod.splits bool.splits)
qed

lemma admit_inv:
  assumes "sched_inv s" "admit_next_bounded reserve l s = Some (r, l', t)"
  shows "sched_inv t"
  using admit_cases[OF assms(2,1)] assms(1) admitted_inv[OF assms(1)] by blast

subsection \<open>Answers and task-tree cancellation\<close>

lemma submit_answered_cases:
  assumes "submit_answered task answer grant s = Some (r, t)"
  shows "(t = s \<and> r = Inr None \<and> in_cancelled_subtree s task = Some True) \<or>
    (\<exists>parent r'. in_cancelled_subtree s task = Some False \<and>
       submit parent task answer grant 1
         (case by_task s task of Some previous \<Rightarrow> retire previous s | None \<Rightarrow> s) = (r', t))"
  using assms
  by (auto simp: submit_answered_def Let_def
      split: option.splits bool.splits prod.splits sum.splits scheduler_error.splits)

lemma submit_answered_inv:
  assumes inv: "sched_inv s" and ret: "submit_answered task answer grant s = Some (r, t)"
  shows "sched_inv t"
proof -
  define s1 where "s1 = (case by_task s task of Some previous \<Rightarrow> retire previous s | None \<Rightarrow> s)"
  have inv1: "sched_inv s1"
  proof (cases "by_task s task")
    case (Some i)
    then have "i < length (nodes s)" using sched_invD(6)[OF inv] unfolding index_ok_def by blast
    then show ?thesis using retire_inv[OF inv] Some by (simp add: s1_def)
  qed (use inv in \<open>simp add: s1_def\<close>)
  from submit_answered_cases[OF ret] show ?thesis
    using inv submit_inv[OF inv1] unfolding s1_def by (metis snd_conv)
qed

lemma cancelled_tasks_inv: "sched_inv s \<Longrightarrow> sched_inv (s\<lparr>cancelled_tasks := c\<rparr>)"
  using index_ok_cong[of s "s\<lparr>cancelled_tasks := c\<rparr>"]
  by (simp add: sched_inv_def ledger_ok_def queue_ok_def links_ok_def)

lemma cancel_tasks_returns:
  "sched_inv s \<Longrightarrow> \<exists>d t. cancel_tasks ts acc s = Some (Inr d, t) \<and> sched_inv t"
proof (induction ts arbitrary: acc s)
  case Nil
  then show ?case by simp
next
  case (Cons task ts)
  let ?s1 = "s\<lparr>cancelled_tasks := insert task (cancelled_tasks s)\<rparr>"
  have inv1: "sched_inv ?s1" by (rule cancelled_tasks_inv[OF Cons.prems])
  show ?case
  proof (cases "by_task s task")
    case None
    then show ?thesis using Cons.IH[OF inv1] by simp
  next
    case (Some i)
    then have "i < length (nodes ?s1)" using sched_invD(6)[OF Cons.prems] unfolding index_ok_def by simp
    from cancel_tree_inv[OF inv1 this] obtain t where
      t: "cancel_tree i ?s1 = Some (Inr (drained (nodes ?s1) i), t)" "sched_inv t" by blast
    then show ?thesis using Cons.IH[OF t(2)] Some by simp
  qed
qed

lemma cancel_task_tree_returns:
  "sched_inv s \<Longrightarrow> \<exists>d t. cancel_task_tree task s = Some (Inr d, t) \<and> sched_inv t"
  by (simp add: cancel_task_tree_def cancel_tasks_returns)

end
