(* ===== verification/Scheduler_Props.thy ===== *)
theory Scheduler_Props
  imports Scheduler_Ops "HOL-Library.Sublist"
begin

text \<open>
  What the scheduler promises over whole runs: the step relation of its public operations, the
  reachable states, and the relation \<open>evolves\<close> every step respects (terminal nodes never change
  state, limits and linkage never change, the cancelled set only grows).
\<close>

subsection \<open>Steps and reachable states\<close>

text \<open>
  \<open>ingress_step\<close> has one rule per operation the runtime calls: task creation adopts, an
  answer submits, a cancel drains, and the scheduler loop admits, waits, completes, settles and
  delivers. \<open>sched_step\<close> adds the two public operations only library callers use. The types of
  the budget ledger and of the event payload, which no transition looks at, are \<^typ>\<open>nat\<close> here.
\<close>

inductive ingress_step :: "scheduler \<Rightarrow> scheduler \<Rightarrow> bool" where
  step_adopt: "ingress_step s (adopt task parent s)"
| step_answer: "submit_answered task answer grant s = Some (r, t) \<Longrightarrow> ingress_step s t"
| step_cancel: "cancel_task_tree task s = Some (r, t) \<Longrightarrow> ingress_step s t"
| step_admit: "admit_next_bounded reserve (l :: nat) s = Some (r, l', t) \<Longrightarrow> ingress_step s t"
| step_wait: "begin_wait i s = (r, t) \<Longrightarrow> ingress_step s t"
| step_complete: "complete i s = (r, t) \<Longrightarrow> ingress_step s t"
| step_settle: "settle i s = (r, t) \<Longrightarrow> ingress_step s t"
| step_deliver: "deliver (ev :: nat event) s = (v, t) \<Longrightarrow> ingress_step s t"

inductive sched_step :: "scheduler \<Rightarrow> scheduler \<Rightarrow> bool" where
  step_ingress: "ingress_step s t \<Longrightarrow> sched_step s t"
| step_submit: "submit parent task answer grant units s = (r, t) \<Longrightarrow> sched_step s t"
| step_cancel_tree: "cancel_tree root s = Some (r, t) \<Longrightarrow> sched_step s t"

inductive sched_reachable :: "nat \<Rightarrow> u32 \<Rightarrow> scheduler \<Rightarrow> bool" for slots cap where
  reach_new: "sched_reachable slots cap (scheduler_new slots cap)"
| reach_step: "sched_reachable slots cap s \<Longrightarrow> sched_step s t \<Longrightarrow> sched_reachable slots cap t"

lemma ingress_step_inv:
  assumes "ingress_step s t" "sched_inv s"
  shows "sched_inv t"
  using assms
proof (cases rule: ingress_step.cases)
  case (step_adopt task parent)
  then show ?thesis using adopt_inv assms(2) by simp
next
  case (step_answer task answer grant r)
  then show ?thesis using submit_answered_inv assms(2) by blast
next
  case (step_cancel task r)
  then show ?thesis using cancel_task_tree_returns[OF assms(2), of task] by auto
next
  case (step_admit reserve l r l')
  show ?thesis by (rule admit_inv[OF assms(2) step_admit])
next
  case (step_wait i r)
  then show ?thesis using begin_wait_inv[OF assms(2), of i] by simp
next
  case (step_complete i r)
  then show ?thesis using complete_inv[OF assms(2), of i] by simp
next
  case (step_settle i r)
  then show ?thesis using settle_inv[OF assms(2), of i] by simp
next
  case (step_deliver ev v)
  then show ?thesis using deliver_inv[OF assms(2), of ev] by simp
qed

lemma sched_step_inv:
  assumes "sched_step s t" "sched_inv s"
  shows "sched_inv t"
  using assms
proof (cases rule: sched_step.cases)
  case step_ingress
  then show ?thesis using ingress_step_inv assms(2) by blast
next
  case (step_submit parent task answer grant units r)
  then show ?thesis using submit_inv[OF assms(2), of parent task answer grant units] by simp
next
  case (step_cancel_tree root r)
  then show ?thesis
  proof (cases "root < length (nodes s)")
    case True
    then show ?thesis using cancel_tree_inv[OF assms(2) True] step_cancel_tree by auto
  next
    case False
    then show ?thesis using step_cancel_tree assms(2) by (simp add: cancel_tree_def sched_node_state_def)
  qed
qed

lemma reachable_inv: "sched_reachable slots cap s \<Longrightarrow> sched_inv s"
  by (induction rule: sched_reachable.induct) (auto intro: new_inv sched_step_inv)

subsection \<open>What every step keeps\<close>

definition evolves :: "scheduler \<Rightarrow> scheduler \<Rightarrow> bool" where
  "evolves s t \<longleftrightarrow>
     max_slots t = max_slots s \<and> resource_cap t = resource_cap s \<and>
     length (nodes s) \<le> length (nodes t) \<and>
     (\<forall>i<length (nodes s). is_terminal (n_state (nodes s ! i)) \<longrightarrow>
        n_state (nodes t ! i) = n_state (nodes s ! i)) \<and>
     parents s \<subseteq>\<^sub>m parents t \<and> cancelled_tasks s \<subseteq> cancelled_tasks t"

lemma evolves_refl [simp]: "evolves s s"
  by (simp add: evolves_def)

lemma evolves_trans: "evolves s t \<Longrightarrow> evolves t u \<Longrightarrow> evolves s u"
  unfolding evolves_def by (metis (no_types, lifting) less_le_trans le_trans map_le_trans order_trans)

lemma evolves_upd_node:
  assumes "is_terminal (n_state (nodes s ! i)) \<Longrightarrow> n_state (f (nodes s ! i)) = n_state (nodes s ! i)"
  shows "evolves s (upd_node i f s)"
  using assms by (cases "i < length (nodes s)") (auto simp: evolves_def nth_list_update list_update_beyond)

lemma evolves_set_state: "live (nodes s ! i) \<Longrightarrow> evolves s (set_node_state i st s)"
  unfolding set_node_state_def by (rule evolves_upd_node) simp

lemma evolves_other [simp]:
  "evolves s (release_slot i s)" "evolves s (s\<lparr>ready := q\<rparr>)"
  "evolves s (s\<lparr>running := n, held_units := h\<rparr>)" "evolves s (s\<lparr>ignored_late_deliveries := k\<rparr>)"
  "evolves s (s\<lparr>cancelled_tasks := insert c (cancelled_tasks s)\<rparr>)"
  by (auto simp: evolves_def)

lemma evolves_settle_parent: "evolves s (snd (settle_parent i s))"
proof (cases "n_parent (nodes s ! i)")
  case None
  then show ?thesis by (simp add: settle_parent_def)
next
  case (Some p)
  define s1 where "s1 = (if n_unfinished (nodes s ! p) > 0
     then upd_node p (\<lambda>n. n\<lparr>n_unfinished := n_unfinished n - 1\<rparr>) s else s)"
  have e1: "evolves s s1" by (simp add: s1_def evolves_upd_node)
  have "snd (settle_parent i s) = s1 \<or>
    (n_state (nodes s1 ! p) = NodeWaiting \<and>
     snd (settle_parent i s) = (set_node_state p NodeReady s1)\<lparr>ready := ready s1 @ [p]\<rparr>)"
    using Some by (auto simp: settle_parent_def s1_def Let_def)
  then show ?thesis
    using e1 evolves_trans evolves_set_state evolves_other(2) by (metis is_terminal_simps(6))
qed

lemma evolves_end:
  "live (nodes s ! i) \<Longrightarrow> evolves s (set_node_state i st (if b then release_slot i s else s))"
  using evolves_trans[OF evolves_other(1) evolves_set_state, of i s] evolves_set_state by simp

lemma evolves_retire: "evolves s (retire i s)"
proof (cases "live (nodes s ! i)")
  case True
  define s1 where "s1 = (if n_state (nodes s ! i) = NodeRunning then release_slot i s else s)"
  define s2 where "s2 = (if n_state (nodes s1 ! i) = NodeReady
     then s1\<lparr>ready := filter (\<lambda>q. q \<noteq> i) (ready s1)\<rparr> else s1)"
  have r: "retire i s = snd (settle_parent i (set_node_state i NodeSettled s2))"
    using True by (simp add: retire_def s1_def s2_def Let_def)
  have "evolves s s2" by (auto simp: s1_def s2_def evolves_def)
  moreover have "live (nodes s2 ! i)" using True by (simp add: s1_def s2_def)
  ultimately show ?thesis
    unfolding r using evolves_trans evolves_set_state evolves_settle_parent by blast
qed (simp add: retire_def)

lemma evolves_submit: "evolves s (snd (submit parent task answer grant units s))"
proof (cases parent)
  case None
  then show ?thesis by (simp add: submit_def Let_def evolves_def nth_append)
next
  case (Some p)
  then show ?thesis
    by (auto simp: submit_def Let_def evolves_def nth_append sched_node_state_def nth_list_update)
qed

lemma evolves_cancel_node: "evolves s (cancel_node i s) \<or> is_terminal (n_state (nodes s ! i))"
  unfolding cancel_node_def using evolves_end by blast

lemma evolves_cancel_tree:
  assumes inv: "sched_inv s" and r: "root < length (nodes s)" and c: "cancel_tree root s = Some (res, t)"
  shows "evolves s t"
proof -
  let ?D = "drained (nodes s) root"
  define s1 where "s1 = fold cancel_node ?D s"
  define s2 where "s2 = s1\<lparr>ready := filter (\<lambda>q. n_state (nodes s1 ! q) = NodeReady) (ready s1)\<rparr>"
  have "evolves s s1"
    unfolding evolves_def s1_def
    using fold_cancel_frame[of ?D s] fold_cancel_nodes[of _ s ?D]
      set_drained[OF sched_invD(1)[OF inv] r] by auto
  then have "evolves s s2" unfolding s2_def using evolves_trans evolves_other(2) by blast
  then show ?thesis
    using c cancel_tree_state[OF inv r] evolves_trans[OF _ evolves_settle_parent]
    by (auto simp: s1_def s2_def split: if_splits)
qed


lemma settle_parent_frame:
  "by_task (snd (settle_parent i s)) = by_task s" "parents (snd (settle_parent i s)) = parents s"
  "linkage (snd (settle_parent i s)) = linkage s"
  "cancelled_tasks (snd (settle_parent i s)) = cancelled_tasks s"
  by (simp_all add: settle_parent_def Let_def split: option.splits)

lemma cancel_tree_frame:
  assumes "cancel_tree root s = Some (res, t)"
  shows "by_task t = by_task s \<and> parents t = parents s \<and> linkage t = linkage s \<and>
    cancelled_tasks t = cancelled_tasks s"
  using assms fold_cancel_frame
  by (auto simp: cancel_tree_def Let_def settle_parent_frame split: sum.splits option.splits if_splits)

lemma settle_parent_nth:
  assumes "is_terminal (n_state (nodes s ! j))" "j < length (nodes s)"
  shows "n_state (nodes (snd (settle_parent i s)) ! j) = n_state (nodes s ! j)"
  using evolves_settle_parent[of s i] assms by (simp add: evolves_def)

lemma cancel_tree_root_terminal:
  assumes inv: "sched_inv s" and r: "root < length (nodes s)" and c: "cancel_tree root s = Some (res, t)"
  shows "is_terminal (n_state (nodes t ! root))"
proof -
  let ?D = "drained (nodes s) root"
  define s1 where "s1 = fold cancel_node ?D s"
  define s2 where "s2 = s1\<lparr>ready := filter (\<lambda>q. n_state (nodes s1 ! q) = NodeReady) (ready s1)\<rparr>"
  have "root \<in> set ?D \<or> is_terminal (n_state (nodes s ! root))"
    using set_drained[OF sched_invD(1)[OF inv] r] by (auto intro: under_refl)
  then have "is_terminal (n_state (nodes s2 ! root))" "root < length (nodes s2)"
    using fold_cancel_nodes[OF r, of ?D] fold_cancel_frame[of ?D s] r by (auto simp: s1_def s2_def)
  then show ?thesis
    using c cancel_tree_state[OF inv r] settle_parent_nth[of s2 root root]
    by (auto simp: s1_def s2_def split: if_splits)
qed

lemma evolves_cancel_tasks:
  "sched_inv s \<Longrightarrow> cancel_tasks ts acc s = Some (r, t) \<Longrightarrow>
     evolves s t \<and> cancelled_tasks t = cancelled_tasks s \<union> set ts \<and> by_task t = by_task s \<and>
     parents t = parents s \<and> linkage t = linkage s"
proof (induction ts arbitrary: acc s)
  case Nil
  then show ?case by simp
next
  case (Cons task ts)
  let ?s1 = "s\<lparr>cancelled_tasks := insert task (cancelled_tasks s)\<rparr>"
  have inv1: "sched_inv ?s1" by (rule cancelled_tasks_inv[OF Cons.prems(1)])
  have e1: "evolves s ?s1" by simp
  show ?case
  proof (cases "by_task s task")
    case None
    then show ?thesis
      using Cons.IH[OF inv1, of acc] Cons.prems(2) evolves_trans[OF e1] by simp
  next
    case (Some i)
    then have i: "i < length (nodes ?s1)" using sched_invD(6)[OF Cons.prems(1)] unfolding index_ok_def by simp
    from cancel_tree_inv[OF inv1 this] obtain u where
      u: "cancel_tree i ?s1 = Some (Inr (drained (nodes ?s1) i), u)" "sched_inv u" by blast
    have "evolves s u" using evolves_trans[OF e1 evolves_cancel_tree[OF inv1 i u(1)]] .
    then show ?thesis
      using Cons.IH[OF u(2)] Cons.prems(2) Some u(1) cancel_tree_frame[OF u(1)] evolves_trans
      by fastforce
  qed
qed

lemma evolves_complete: "evolves s (snd (complete i s))"
proof -
  have "evolves s (snd (settle_parent i (release_slot i (set_node_state i NodeCompleted s))))"
    if "n_state (nodes s ! i) = NodeRunning"
    using evolves_set_state[of s i NodeCompleted] that
      evolves_trans[OF evolves_trans[OF _ evolves_other(1)] evolves_settle_parent] by simp
  then show ?thesis
    by (auto simp: complete_def sched_node_state_def split: node_state.splits prod.splits)
qed

lemma evolves_settle: "evolves s (snd (settle i s))"
  using evolves_set_state[of s i NodeSettled]
    evolves_trans[OF evolves_trans[OF _ evolves_other(1)] evolves_settle_parent]
  by (auto simp: settle_def sched_node_state_def)

lemma evolves_begin_wait: "evolves s (snd (begin_wait i s))"
  using evolves_set_state[of s i NodeWaiting] evolves_trans[OF _ evolves_other(1)]
  by (auto simp: begin_wait_def sched_node_state_def)

lemma evolves_submit_answered:
  assumes "submit_answered task answer grant s = Some (r, t)"
  shows "evolves s t"
proof -
  let ?s1 = "case by_task s task of Some previous \<Rightarrow> retire previous s | None \<Rightarrow> s"
  have "evolves s ?s1" by (simp add: evolves_retire split: option.split)
  then show ?thesis
    using submit_answered_cases[OF assms] evolves_trans[OF _ evolves_submit] by (metis evolves_refl snd_conv)
qed

lemma evolves_admit:
  assumes "admit_next_bounded reserve l s = Some (r, l', t)" "sched_inv s"
  shows "evolves s t"
  using admit_cases[OF assms]
proof
  assume "\<exists>i rest tot. r = Some i \<and> ready s = i # rest \<and> running s \<noteq> max_slots s \<and>
       checked_add (held_units s) (n_units (nodes s ! i)) = Some tot \<and> tot \<le> resource_cap s \<and>
       t = (set_node_state i NodeRunning (s\<lparr>ready := rest\<rparr>))\<lparr>running := running s + 1, held_units := tot\<rparr>"
  then obtain i rest tot where q: "ready s = i # rest" and
    t: "t = (set_node_state i NodeRunning (s\<lparr>ready := rest\<rparr>))\<lparr>running := running s + 1, held_units := tot\<rparr>"
    by blast
  have "live (nodes (s\<lparr>ready := rest\<rparr>) ! i)" using ready_head(2)[OF assms(2) q] by simp
  from evolves_set_state[OF this, of NodeRunning] show ?thesis
    unfolding t using evolves_trans evolves_other(2,3) by blast
qed simp

lemma ingress_step_evolves:
  assumes "ingress_step s t" "sched_inv s"
  shows "evolves s t"
  using assms(1)
proof (cases rule: ingress_step.cases)
  case (step_adopt task parent)
  then show ?thesis by (auto simp: adopt_def evolves_def map_le_def)
next
  case (step_answer task answer grant r)
  show ?thesis by (rule evolves_submit_answered[OF step_answer])
next
  case (step_cancel task r)
  then show ?thesis using evolves_cancel_tasks[OF assms(2)] by (simp add: cancel_task_tree_def)
next
  case (step_admit reserve l r l')
  show ?thesis by (rule evolves_admit[OF step_admit assms(2)])
next
  case (step_wait i r)
  then show ?thesis using evolves_begin_wait[of s i] by simp
next
  case (step_complete i r)
  then show ?thesis using evolves_complete[of s i] by simp
next
  case (step_settle i r)
  then show ?thesis using evolves_settle[of s i] by simp
next
  case (step_deliver ev v)
  then show ?thesis by (auto simp: deliver_def split: option.splits if_splits)
qed

lemma sched_step_evolves:
  assumes "sched_step s t" "sched_inv s"
  shows "evolves s t"
  using assms(1)
proof (cases rule: sched_step.cases)
  case step_ingress
  then show ?thesis using ingress_step_evolves assms(2) by blast
next
  case (step_submit parent task answer grant units r)
  then show ?thesis using evolves_submit[of s parent task answer grant units] by simp
next
  case (step_cancel_tree root r)
  then show ?thesis
  proof (cases "root < length (nodes s)")
    case True
    then show ?thesis using evolves_cancel_tree[OF assms(2) True step_cancel_tree] by simp
  next
    case False
    then show ?thesis using step_cancel_tree by (simp add: cancel_tree_def sched_node_state_def)
  qed
qed

lemma reachable_limits: "sched_reachable slots cap s \<Longrightarrow> max_slots s = slots \<and> resource_cap s = cap"
proof (induction rule: sched_reachable.induct)
  case reach_new
  then show ?case by (simp add: scheduler_new_def)
next
  case (reach_step s t)
  then show ?case using sched_step_evolves reachable_inv by (simp add: evolves_def)
qed

subsection \<open>Progress\<close>

lemma run_count_filter: "run_count ns = length (filter (\<lambda>n. n_state n = NodeRunning) ns)"
  by (induction ns) (simp_all add: run_count_def)

lemma run_units_filter:
  "run_units ns = (\<Sum>n\<leftarrow>filter (\<lambda>n. n_state n = NodeRunning) ns. unat (n_units n))"
  by (induction ns) (simp_all add: run_units_def)

text \<open>Some live node is not waiting: the one with the largest id has no live child.\<close>

lemma live_not_waiting:
  assumes inv: "sched_inv s" and i: "i < length (nodes s)" "live (nodes s ! i)"
  shows "\<exists>j<length (nodes s). n_state (nodes s ! j) = NodeReady \<or> n_state (nodes s ! j) = NodeRunning"
proof -
  let ?L = "{j. j < length (nodes s) \<and> live (nodes s ! j)}"
  define m where "m = Max ?L"
  have fin: "finite ?L" and ne: "?L \<noteq> {}" using i by auto
  have m: "m < length (nodes s)" "live (nodes s ! m)" using Max_in[OF fin ne] by (simp_all add: m_def)
  have "n_state (nodes s ! m) \<noteq> NodeWaiting"
  proof
    assume w: "n_state (nodes s ! m) = NodeWaiting"
    then have "0 < live_children (nodes s) m"
      using sched_invD(2,3)[OF inv] m by (simp add: counts_ok_def waits_ok_def)
    then obtain c where c: "c \<in> set (n_children (nodes s ! m))" "live (nodes s ! c)"
      unfolding live_children_def filter_length_pos_iff by blast
    note cp = wf_tree_child[OF sched_invD(1)[OF inv] m(1) c(1)]
    then have "c \<le> m" using Max_ge[OF fin, of c] c(2) by (simp add: m_def)
    with cp(3) show False by simp
  qed
  then show ?thesis using m by (cases "n_state (nodes s ! m)") auto
qed

lemma idle_admits:
  assumes inv: "sched_inv s" and slots: "0 < max_slots s" and idle: "running s = 0"
    and i: "i < length (nodes s)" "live (nodes s ! i)"
  shows "\<exists>j t. admit_next s = Some (Some j, t)"
proof -
  have none: "n_state (nodes s ! j) \<noteq> NodeRunning" if "j < length (nodes s)" for j
    using run_count_pos[OF that] sched_invD(4)[OF inv] idle by (auto simp: ledger_ok_def)
  obtain j where "j < length (nodes s)" "n_state (nodes s ! j) = NodeReady"
    using live_not_waiting[OF inv i] none by blast
  then have "j \<in> set (ready s)" using sched_invD(5)[OF inv] by (simp add: queue_ok_def)
  then obtain k rest where q: "ready s = k # rest" by (cases "ready s") auto
  note h = ready_head[OF inv q]
  have "filter (\<lambda>n. n_state n = NodeRunning) (nodes s) = []"
    using none by (auto simp: filter_empty_conv in_set_conv_nth)
  then have "held_units s = 0"
    using sched_invD(4)[OF inv] by (simp add: ledger_ok_def run_units_filter unsigned_eq_0_iff)
  moreover have "n_units (nodes s ! k) \<le> resource_cap s"
    using sched_invD(4)[OF inv] nth_mem[OF h(1)] by (simp add: ledger_ok_def)
  moreover obtain above where "scope_chain s k = Some (above @ [n_task (nodes s ! k)])"
    using scope_chain_returns[OF inv h(1)] by blast
  moreover have "checked_add 0 (n_units (nodes s ! k)) = Some (n_units (nodes s ! k))"
    using unsigned_less[of "n_units (nodes s ! k)", where 'a = nat] by (simp add: checked_add_def)
  ultimately show ?thesis
    using q slots idle by (simp add: admit_next_def admit_next_bounded_def Let_def not_less)
qed

subsection \<open>Walks over task linkage\<close>

definition link_rel :: "(task_id \<rightharpoonup> task_id) \<Rightarrow> (task_id \<times> task_id) set" where
  "link_rel par = {(c, p). par c = Some p}"

lemma cancelled_walk_True:
  assumes "(v, a) \<in> (link_rel par)\<^sup>*" "a \<in> cancelled"
  shows "cancelled_walk cancelled par (Some v) = Some True"
  using assms
proof (induction rule: converse_rtrancl_induct)
  case base
  then show ?case by (simp add: cancelled_walk.simps)
next
  case (step x y)
  then show ?case by (subst cancelled_walk.simps) (simp add: link_rel_def)
qed

lemma cancelled_walk_returns:
  assumes wf: "wf ((link_rel par)\<inverse>)"
  shows "cancelled_walk cancelled par (Some v) =
    Some (\<exists>a\<in>cancelled. (v, a) \<in> (link_rel par)\<^sup>*)"
  using wf
proof (induction v rule: wf_induct_rule)
  case (less v)
  show ?case
  proof (cases "v \<in> cancelled")
    case True
    then show ?thesis by (subst cancelled_walk.simps) auto
  next
    case False
    show ?thesis
    proof (cases "par v")
      case None
      then have "a = v" if "(v, a) \<in> (link_rel par)\<^sup>*" for a
        using that by (auto elim: converse_rtranclE simp: link_rel_def)
      then show ?thesis using None False
        by (subst cancelled_walk.simps) (auto simp: cancelled_walk.simps[of _ _ None])
    next
      case (Some p)
      then have vp: "(v, p) \<in> link_rel par" by (simp add: link_rel_def)
      have "(v, a) \<in> (link_rel par)\<^sup>* \<longleftrightarrow> v = a \<or> (p, a) \<in> (link_rel par)\<^sup>*" for a
        using vp Some by (auto elim: converse_rtranclE intro: converse_rtrancl_into_rtrancl simp: link_rel_def)
      moreover have "cancelled_walk cancelled par (Some p) = Some (\<exists>a\<in>cancelled. (p, a) \<in> (link_rel par)\<^sup>*)"
        using less.IH[of p] vp by simp
      ultimately show ?thesis using Some False by (subst cancelled_walk.simps) auto
    qed
  qed
qed

text \<open>A task linked to itself makes the walk run forever.\<close>

lemma cancelled_walk_loops:
  assumes "par v = Some v" "v \<notin> cancelled"
  shows "cancelled_walk cancelled par (Some v) = None"
proof (cases "cancelled_walk cancelled par (Some v)")
  case (Some r)
  have "\<not> (Some v = Some v \<and> cancelled = cancelled \<and> par = par)"
  proof (rule cancelled_walk.raw_induct[where P = "\<lambda>c q anc r. \<not> (anc = Some v \<and> c = cancelled \<and> q = par)", OF _ Some])
    fix walk c q anc r
    assume IH: "\<And>c q anc r. walk c q anc = Some r \<Longrightarrow> \<not> (anc = Some v \<and> c = cancelled \<and> q = par)"
      and eq: "(case anc of None \<Rightarrow> Some False | Some t \<Rightarrow> if t \<in> c then Some True else walk c q (q t)) = Some r"
    show "\<not> (anc = Some v \<and> c = cancelled \<and> q = par)"
      using eq IH[of cancelled par "Some v" r] assms by auto
  qed
  then show ?thesis by simp
qed simp

lemma subtree_scan_mono: "set acc \<subseteq> set (subtree_scan current ls acc)"
  using subtree_scan_props[of current ls acc] by auto

lemma subtree_scan_complete: "(c, current) \<in> set ls \<Longrightarrow> c \<in> set (subtree_scan current ls acc)"
proof (induction ls arbitrary: acc)
  case Nil
  then show ?case by simp
next
  case (Cons l ls)
  obtain child parent where l: "l = (child, parent)" by (cases l)
  show ?case
  proof (cases "(c, current) = l")
    case True
    then show ?thesis
      using l subtree_scan_mono[of "if c \<notin> set acc then acc @ [c] else acc" current ls] by auto
  next
    case False
    then show ?thesis using Cons l by auto
  qed
qed

text \<open>
  The walk's invariant: the list is duplicate-free, holds only descendants of the root, and is
  closed under children of the entries before the index.
\<close>

lemma subtree_walk_correct:
  "distinct sub \<Longrightarrow> root \<in> set sub \<Longrightarrow> set sub \<subseteq> {u. (u, root) \<in> (set links)\<^sup>*} \<Longrightarrow>
   (\<forall>k<index. k < length sub \<longrightarrow> {c. (c, sub ! k) \<in> set links} \<subseteq> set sub) \<Longrightarrow>
   distinct (subtree_walk links sub index) \<and>
   set (subtree_walk links sub index) = {u. (u, root) \<in> (set links)\<^sup>*}"
proof (induction links sub index rule: subtree_walk.induct)
  case (1 links sub index)
  show ?case
  proof (cases "index < length sub")
    case False
    have "u \<in> set sub" if "(u, root) \<in> (set links)\<^sup>*" for u
      using that
    proof (induction rule: converse_rtrancl_induct)
      case base
      then show ?case using "1.prems"(2) .
    next
      case (step c p)
      then obtain k where "k < length sub" "sub ! k = p" by (metis in_set_conv_nth)
      moreover from this False have "k < index" by simp
      ultimately show ?case using "1.prems"(4) step(1) by blast
    qed
    then show ?thesis using False "1.prems" by (subst (1 2) subtree_walk.simps) auto
  next
    case True
    obtain new where new: "subtree_scan (sub ! index) links sub = sub @ new" "distinct new"
      "set new \<inter> set sub = {}" "set new \<subseteq> {c. (c, sub ! index) \<in> set links}"
      using subtree_scan_props by metis
    have "(sub ! index, root) \<in> (set links)\<^sup>*" using "1.prems"(3) True nth_mem by blast
    then have desc: "set (sub @ new) \<subseteq> {u. (u, root) \<in> (set links)\<^sup>*}"
      using "1.prems"(3) new(4) by (auto intro: converse_rtrancl_into_rtrancl)
    have closed: "{c. (c, (sub @ new) ! k) \<in> set links} \<subseteq> set (sub @ new)"
      if "k < Suc index" for k
    proof (cases "k = index")
      case True
      then show ?thesis
        using subtree_scan_complete[of _ "sub ! index" links sub] new(1) \<open>index < length sub\<close>
        by (auto simp: nth_append)
    next
      case False
      then have "k < index" using that by simp
      then show ?thesis using "1.prems"(4) \<open>index < length sub\<close> by (auto simp: nth_append)
    qed
    have "distinct (subtree_walk links (sub @ new) (Suc index)) \<and>
        set (subtree_walk links (sub @ new) (Suc index)) = {u. (u, root) \<in> (set links)\<^sup>*}"
      using "1.IH"[OF True] new "1.prems"(1,2) desc closed by auto
    then show ?thesis using True new(1) by (simp add: subtree_walk.simps[of links sub index])
  qed
qed

lemma task_subtree_correct:
  "distinct (task_subtree s task) \<and> set (task_subtree s task) = {u. (u, task) \<in> (set (linkage s))\<^sup>*}"
  unfolding task_subtree_def by (rule subtree_walk_correct) auto

lemma link_rel_linkage: "sched_inv s \<Longrightarrow> link_rel (parents s) = set (linkage s)"
  using sched_invD(7) by (auto simp: link_rel_def links_ok_def)

subsection \<open>A cancelled task stays cancelled\<close>

lemma cancelled_task_terminal:
  "sched_inv s \<Longrightarrow> cancel_tasks ts acc s = Some (r, t) \<Longrightarrow> v \<in> set ts \<Longrightarrow> by_task s v = Some i \<Longrightarrow>
     is_terminal (n_state (nodes t ! i))"
proof (induction ts arbitrary: acc s)
  case Nil
  then show ?case by simp
next
  case (Cons task ts)
  let ?s1 = "s\<lparr>cancelled_tasks := insert task (cancelled_tasks s)\<rparr>"
  have inv1: "sched_inv ?s1" by (rule cancelled_tasks_inv[OF Cons.prems(1)])
  show ?case
  proof (cases "by_task s task")
    case None
    then show ?thesis using Cons.IH[OF inv1] Cons.prems by auto
  next
    case (Some k)
    then have k: "k < length (nodes ?s1)" using sched_invD(6)[OF Cons.prems(1)] unfolding index_ok_def by simp
    from cancel_tree_inv[OF inv1 this] obtain u where
      u: "cancel_tree k ?s1 = Some (Inr (drained (nodes ?s1) k), u)" "sched_inv u" by blast
    have rest: "cancel_tasks ts (acc @ drained (nodes ?s1) k) u = Some (r, t)"
      using Cons.prems(2) Some u(1) by simp
    have byt: "by_task u v = Some i" using cancel_tree_frame[OF u(1)] Cons.prems(4) by simp
    show ?thesis
    proof (cases "v \<in> set ts")
      case True
      then show ?thesis using Cons.IH[OF u(2) rest] byt by blast
    next
      case False
      then have "k = i" using Cons.prems(3,4) Some by simp
      then have "is_terminal (n_state (nodes u ! i))"
        using cancel_tree_root_terminal[OF inv1 k u(1)] by simp
      moreover have "i < length (nodes u)" using sched_invD(6)[OF u(2)] byt unfolding index_ok_def by blast
      ultimately show ?thesis
        using evolves_cancel_tasks[OF u(2) rest] by (simp add: evolves_def)
    qed
  qed
qed

lemma ingress_by_task_cancelled:
  assumes st: "ingress_step s t" and inv: "sched_inv s" and v: "v \<in> cancelled_tasks s"
  shows "by_task t v = by_task s v"
  using st
proof (cases rule: ingress_step.cases)
  case (step_answer task answer grant r)
  show ?thesis
  proof (cases "task = v")
    case True
    then have "in_cancelled_subtree s task = Some True"
      unfolding in_cancelled_subtree_def using cancelled_walk_True[of v v] v by blast
    then show ?thesis using submit_answered_cases[OF step_answer] by auto
  next
    case False
    have ret: "by_task (retire k u) = by_task u" for k u
      by (simp add: retire_def settle_parent_frame Let_def)
    have sub: "by_task u' v = by_task u v" if "submit pp task answer grant 1 u = (r', u')" for pp u r' u'
      using that False by (auto simp: submit_def Let_def split: if_splits option.splits sum.splits)
    show ?thesis
      using submit_answered_cases[OF step_answer] sub ret by (auto split: option.splits)
  qed
next
  case (step_cancel task r)
  then show ?thesis using evolves_cancel_tasks[OF inv] by (simp add: cancel_task_tree_def)
next
  case (step_admit reserve l r l')
  then show ?thesis using admit_cases[OF step_admit inv] by auto
next
  case (step_complete i r)
  then show ?thesis
    by (auto simp: complete_def sched_node_state_def settle_parent_frame
        split: if_splits node_state.splits prod.splits dest: arg_cong[where f = snd])
      (metis release_slot_simps(9) set_node_state_simps(9) settle_parent_frame(1) snd_conv)
qed (auto simp: adopt_def begin_wait_def settle_def deliver_def sched_node_state_def
    settle_parent_frame split: if_splits option.splits)

lemma ingress_run_cancelled:
  assumes "ingress_step\<^sup>*\<^sup>* s u" "sched_inv s"
  shows "sched_inv u \<and> evolves s u \<and> (\<forall>v\<in>cancelled_tasks s. by_task u v = by_task s v)"
  using assms
proof (induction rule: rtranclp_induct)
  case base
  then show ?case by simp
next
  case (step t u)
  then have t: "sched_inv t" "evolves s t" "\<forall>v\<in>cancelled_tasks s. by_task t v = by_task s v"
    by simp_all
  have "cancelled_tasks s \<subseteq> cancelled_tasks t" using t(2) by (simp add: evolves_def)
  then have "\<forall>v\<in>cancelled_tasks s. by_task u v = by_task s v"
    using ingress_by_task_cancelled[OF step(2) t(1)] t(3) by (metis subsetD)
  then show ?case
    using ingress_step_inv[OF step(2) t(1)] evolves_trans[OF t(2) ingress_step_evolves[OF step(2) t(1)]]
    by blast
qed

end
