(* ===== verification/Scheduler_Order.thy ===== *)
theory Scheduler_Order
  imports Scheduler_Props
begin

text \<open>
  The order in which the scheduler works: the wake-up
  and queue-order lemmas over its steps, and the admission loop of the controller's
  \<open>scheduler_step\<close> (\<open>src/src/controller.rs\<close>), which is the scheduler's client.
\<close>

subsection \<open>The controller's admission loop\<close>

text \<open>
  \<open>loop { admit_next; begin_wait }\<close>: admit a node, and keep it when none of its children is
  unfinished; a node that still waits on children is parked and the loop goes on. \<open>None\<close> is
  "does not return"; \<open>Inr None\<close> is the \<open>Idle\<close> return.
\<close>

partial_function (option) pick_node ::
  "scheduler \<Rightarrow> ((scheduler_error + node_id option) \<times> scheduler) option" where
  "pick_node s =
     (case admit_next s of
        None \<Rightarrow> None
      | Some (None, s1) \<Rightarrow> Some (Inr None, s1)
      | Some (Some i, s1) \<Rightarrow>
          (case begin_wait i s1 of
             (Inl e, s2) \<Rightarrow> Some (Inl e, s2)
           | (Inr WaitAlreadySatisfied, s2) \<Rightarrow> Some (Inr (Some i), s2)
           | (Inr WaitReleased, s2) \<Rightarrow> pick_node s2))"

lemma admit_next_cases:
  assumes "sched_inv s" "admit_next s = Some (r, t)"
  shows "(r = None \<and> t = s) \<or>
    (\<exists>i rest tot. r = Some i \<and> ready s = i # rest \<and> sched_inv t \<and>
       t = (set_node_state i NodeRunning (s\<lparr>ready := rest\<rparr>))\<lparr>running := running s + 1, held_units := tot\<rparr>)"
proof -
  obtain l' where a: "admit_next_bounded (\<lambda>l _ _. (True, l)) () s = Some (r, l', t)"
    using assms(2) by (auto simp: admit_next_def)
  from admit_cases[OF a assms(1)] admit_inv[OF assms(1) a] show ?thesis by blast
qed

lemma admit_next_returns: "sched_inv s \<Longrightarrow> \<exists>r t. admit_next s = Some (r, t)"
proof (cases "ready s")
  case Nil
  then show ?thesis by (simp add: admit_next_def admit_next_bounded_def)
next
  case (Cons i rest)
  assume inv: "sched_inv s"
  obtain above where "scope_chain s i = Some (above @ [n_task (nodes s ! i)])"
    using scope_chain_returns[OF inv ready_head(1)[OF inv Cons]] by blast
  then show ?thesis
    using Cons by (auto simp: admit_next_def admit_next_bounded_def Let_def split: option.splits)
qed

lemma pick_node_returns:
  "sched_inv s \<Longrightarrow> \<exists>r t. pick_node s = Some (Inr r, t) \<and> sched_inv t \<and>
     (\<forall>i. r = Some i \<longrightarrow> i < length (nodes t) \<and> n_state (nodes t ! i) = NodeRunning \<and> n_unfinished (nodes t ! i) = 0) \<and>
     (r = None \<longrightarrow> admit_next t = Some (None, t))"
proof (induction "length (ready s)" arbitrary: s rule: less_induct)
  case less
  obtain r t where a: "admit_next s = Some (r, t)" using admit_next_returns[OF less.prems] by blast
  show ?case
  proof (cases r)
    case None
    then show ?thesis
      using a admit_next_cases[OF less.prems a] less.prems by (subst pick_node.simps) auto
  next
    case (Some i)
    then obtain rest tot where q: "ready s = i # rest" and inv: "sched_inv t" and
      t: "t = (set_node_state i NodeRunning (s\<lparr>ready := rest\<rparr>))\<lparr>running := running s + 1, held_units := tot\<rparr>"
      using admit_next_cases[OF less.prems a] by auto
    have i: "i < length (nodes t)" "n_state (nodes t ! i) = NodeRunning"
      using ready_head[OF less.prems q] by (simp_all add: t)
    show ?thesis
    proof (cases "n_unfinished (nodes t ! i) = 0")
      case True
      then show ?thesis using a Some i inv
        by (subst pick_node.simps) (simp add: begin_wait_def sched_node_state_def)
    next
      case False
      then have bw: "begin_wait i t = (Inr WaitReleased, release_slot i (set_node_state i NodeWaiting t))"
        using i by (simp add: begin_wait_def sched_node_state_def)
      have "length (ready (snd (begin_wait i t))) < length (ready s)" using bw q by (simp add: t)
      then show ?thesis
        using less.hyps[OF _ begin_wait_inv[OF inv, of i]] a Some bw
        by (subst pick_node.simps) simp
    qed
  qed
qed

subsection \<open>Wake-ups\<close>

lemma settle_parent_states:
  "n_state (nodes (snd (settle_parent i s)) ! j) = n_state (nodes s ! j) \<or>
   (n_parent (nodes s ! i) = Some j \<and> n_state (nodes s ! j) = NodeWaiting \<and>
    n_state (nodes (snd (settle_parent i s)) ! j) = NodeReady)"
proof (cases "n_parent (nodes s ! i)")
  case (Some p)
  then show ?thesis
    by (cases "p < length (nodes s)"; cases "p = j")
      (auto simp: settle_parent_def Let_def nth_list_update list_update_beyond)
qed (simp add: settle_parent_def)

lemma single_live_child:
  assumes inv: "sched_inv s" and p: "p < length (nodes s)" "live (nodes s ! p)"
    and i: "i \<in> set (n_children (nodes s ! p))" "live (nodes s ! i)"
  shows "n_unfinished (nodes s ! p) = 1 \<longleftrightarrow>
    (\<forall>c\<in>set (n_children (nodes s ! p)). c \<noteq> i \<longrightarrow> is_terminal (n_state (nodes s ! c)))"
proof -
  let ?F = "filter (\<lambda>c. live (nodes s ! c)) (n_children (nodes s ! p))"
  have d: "distinct ?F" using wf_tree_distinct[OF sched_invD(1)[OF inv] p(1)] by simp
  have "n_unfinished (nodes s ! p) = length ?F"
    using sched_invD(2)[OF inv] p by (simp add: counts_ok_def live_children_def)
  also have "\<dots> = card (set ?F)" by (rule distinct_card[OF d, symmetric])
  finally have u: "n_unfinished (nodes s ! p) = card (set ?F)" .
  have "i \<in> set ?F" using i by simp
  then have "n_unfinished (nodes s ! p) = 1 \<longleftrightarrow> set ?F = {i}"
    unfolding u by (metis One_nat_def card_1_singletonE card.empty card_insert_disjoint empty_iff finite.emptyI singletonD)
  then show ?thesis using i by auto
qed

lemma complete_wakes:
  assumes inv: "sched_inv s" and c: "complete i s = (Inr (TransitionCompleted resumed), t)"
  shows "(resumed = Some p \<longleftrightarrow> n_parent (nodes s ! i) = Some p \<and> n_state (nodes s ! p) = NodeWaiting \<and>
      (\<forall>k\<in>set (n_children (nodes s ! p)). k \<noteq> i \<longrightarrow> is_terminal (n_state (nodes s ! k)))) \<and>
    (resumed = Some p \<longrightarrow> ready t = ready s @ [p] \<and> n_state (nodes t ! p) = NodeReady)"
proof -
  have i: "i < length (nodes s)" and run: "n_state (nodes s ! i) = NodeRunning"
    using c by (auto simp: complete_def sched_node_state_def split: if_splits node_state.splits prod.splits)
  define s1 where "s1 = release_slot i (set_node_state i NodeCompleted s)"
  have sp: "settle_parent i s1 = (resumed, t)"
    using c i run by (auto simp: complete_def sched_node_state_def s1_def split: prod.splits)
  have par: "n_parent (nodes s1 ! i) = n_parent (nodes s ! i)" using i by (simp add: s1_def)
  show ?thesis
  proof (cases "n_parent (nodes s ! i)")
    case None
    then show ?thesis using sp par by (auto simp: settle_parent_def)
  next
    case (Some q)
    note q = wf_tree_parent[OF sched_invD(1)[OF inv] i Some]
    have nq: "nodes s1 ! q = nodes s ! q" using q(1) by (simp add: s1_def)
    have lenq: "q < length (nodes s1)" using q(2) by (simp add: s1_def)
    have res: "resumed = (if n_state (nodes s ! q) = NodeWaiting \<and> n_unfinished (nodes s ! q) - 1 = 0 then Some q else None)"
      "n_state (nodes s ! q) = NodeWaiting \<and> n_unfinished (nodes s ! q) - 1 = 0 \<Longrightarrow>
         ready t = ready s @ [q] \<and> n_state (nodes t ! q) = NodeReady"
      using sp Some par nq lenq
      by (auto simp: settle_parent_def Let_def s1_def split: if_splits)
    have "n_unfinished (nodes s ! q) - 1 = 0 \<longleftrightarrow>
        (\<forall>k\<in>set (n_children (nodes s ! q)). k \<noteq> i \<longrightarrow> is_terminal (n_state (nodes s ! k)))"
      if w: "n_state (nodes s ! q) = NodeWaiting"
    proof -
      have "0 < n_unfinished (nodes s ! q)" using sched_invD(3)[OF inv] q(2) w by (simp add: waits_ok_def)
      then show ?thesis using single_live_child[OF inv q(2) _ q(3)] w run by auto
    qed
    then show ?thesis using res Some by (cases "p = q") auto
  qed
qed


subsection \<open>Queue order\<close>

text \<open>The queue only loses entries and gains entries that were not queued, at its end.\<close>

definition queue_advances :: "scheduler \<Rightarrow> scheduler \<Rightarrow> bool" where
  "queue_advances s t \<longleftrightarrow>
     (\<exists>P new. ready t = filter P (ready s) @ new \<and> set new \<inter> set (ready s) = {})"

lemma queue_advancesI: "ready t = filter P (ready s) @ new \<Longrightarrow> set new \<inter> set (ready s) = {} \<Longrightarrow> queue_advances s t"
  unfolding queue_advances_def by blast

lemma queue_advances_same: "ready t = ready s \<Longrightarrow> queue_advances s t"
  by (rule queue_advancesI[of _ "\<lambda>_. True" _ "[]"]) simp_all

lemma settle_parent_queue:
  assumes "\<And>p. n_state (nodes s ! p) = NodeWaiting \<Longrightarrow> p \<notin> set (ready s)"
  shows "ready (snd (settle_parent i s)) = ready s \<or>
    (\<exists>p. ready (snd (settle_parent i s)) = ready s @ [p] \<and> p \<notin> set (ready s))"
proof (cases "n_parent (nodes s ! i)")
  case (Some p)
  have "n_state (nodes s ! p) = NodeWaiting"
    if "p < length (nodes s)" "n_state ((nodes s)[p := (nodes s ! p)\<lparr>n_unfinished := k\<rparr>] ! p) = NodeWaiting" for k
    using that by simp
  then show ?thesis
    using Some assms[of p]
    by (cases "p < length (nodes s)") (auto simp: settle_parent_def Let_def list_update_beyond)
qed (simp add: settle_parent_def)


lemma waiting_not_queued:
  assumes "sched_inv s" "n_state (nodes s ! p) = NodeWaiting"
  shows "p \<notin> set (ready s)"
  using sched_invD(5)[OF assms(1)] assms(2) unfolding queue_ok_def by auto

lemma ready_bound: "sched_inv s \<Longrightarrow> i \<in> set (ready s) \<Longrightarrow> i < length (nodes s)"
  using sched_invD(5) unfolding queue_ok_def by blast

text \<open>Like \<^const>\<open>queue_advances\<close>, and what left the queue is settled for good.\<close>

definition queue_purges :: "scheduler \<Rightarrow> scheduler \<Rightarrow> bool" where
  "queue_purges s t \<longleftrightarrow>
     (\<exists>P new. ready t = filter P (ready s) @ new \<and> set new \<inter> set (ready s) = {} \<and>
        (\<forall>i\<in>set (ready s). P i \<or> is_terminal (n_state (nodes t ! i))))"

lemma queue_purges_advances: "queue_purges s t \<Longrightarrow> queue_advances s t"
  unfolding queue_purges_def queue_advances_def by blast

lemma queue_purges_trans:
  assumes st: "queue_purges s t" and tu: "queue_purges t u"
    and inv: "sched_inv s" "sched_inv u" and ev: "evolves s t" "evolves t u"
  shows "queue_purges s u"
proof -
  obtain P new where P: "ready t = filter P (ready s) @ new" "set new \<inter> set (ready s) = {}"
    "\<forall>i\<in>set (ready s). P i \<or> is_terminal (n_state (nodes t ! i))"
    using st unfolding queue_purges_def by blast
  obtain Q new' where Q: "ready u = filter Q (ready t) @ new'" "set new' \<inter> set (ready t) = {}"
    "\<forall>i\<in>set (ready t). Q i \<or> is_terminal (n_state (nodes u ! i))"
    using tu unfolding queue_purges_def by blast
  have dead: "is_terminal (n_state (nodes u ! i))" if "i \<in> set (ready s)" "\<not> P i" for i
  proof -
    have "i < length (nodes t)" using ready_bound[OF inv(1) that(1)] ev(1) by (simp add: evolves_def)
    then show ?thesis using P(3) that ev(2) by (auto simp: evolves_def)
  qed
  have fresh: "set new' \<inter> set (ready s) = {}"
  proof (rule ccontr)
    assume "set new' \<inter> set (ready s) \<noteq> {}"
    then obtain i where i: "i \<in> set new'" "i \<in> set (ready s)" by blast
    then have "\<not> P i" using P(1) Q(2) by auto
    moreover have "n_state (nodes u ! i) = NodeReady"
      using sched_invD(5)[OF inv(2)] Q(1) i(1) unfolding queue_ok_def by auto
    ultimately show False using dead[OF i(2)] by simp
  qed
  show ?thesis
    unfolding queue_purges_def
  proof (intro exI conjI)
    show "ready u = filter (\<lambda>i. P i \<and> Q i) (ready s) @ (filter Q new @ new')"
      using P(1) Q(1) by (simp add: filter_filter conj_commute)
    show "set (filter Q new @ new') \<inter> set (ready s) = {}" using P(2) fresh by auto
    show "\<forall>i\<in>set (ready s). P i \<and> Q i \<or> is_terminal (n_state (nodes u ! i))"
      using P(1) Q(3) dead by auto
  qed
qed

lemma cancel_tree_queue:
  assumes inv: "sched_inv s" and r: "root < length (nodes s)" and c: "cancel_tree root s = Some (res, t)"
  shows "queue_purges s t"
proof -
  let ?D = "drained (nodes s) root"
  define s1 where "s1 = fold cancel_node ?D s"
  define s2 where "s2 = s1\<lparr>ready := filter (\<lambda>q. n_state (nodes s1 ! q) = NodeReady) (ready s1)\<rparr>"
  have fr: "ready s1 = ready s" "length (nodes s1) = length (nodes s)"
    using fold_cancel_frame[of ?D s] by (simp_all add: s1_def)
  have nd: "n_state (nodes s1 ! j) = (if j \<in> set ?D then NodeCancelled else n_state (nodes s ! j))"
    if "j < length (nodes s)" for j
    using fold_cancel_nodes[OF that, of ?D] by (simp add: s1_def)
  have out: "n_state (nodes s1 ! p) = NodeWaiting \<Longrightarrow> p \<notin> set (ready s)" for p
    using waiting_not_queued[OF inv, of p] nd[of p] ready_bound[OF inv, of p] by (auto split: if_splits)
  have t: "t = s2 \<or> t = snd (settle_parent root s2)"
    using c cancel_tree_state[OF inv r] by (auto simp: s1_def s2_def)
  have dead: "n_state (nodes s1 ! i) = NodeReady \<or> is_terminal (n_state (nodes t ! i))"
    if i: "i \<in> set (ready s)" for i
  proof (cases "i \<in> set ?D")
    case True
    have b: "i < length (nodes s2)" using ready_bound[OF inv i] fr by (simp add: s2_def)
    have "is_terminal (n_state (nodes s2 ! i))" using True nd[OF ready_bound[OF inv i]] by (simp add: s2_def)
    then show ?thesis using t settle_parent_nth[OF _ b, of root] by auto
  next
    case False
    then show ?thesis
      using sched_invD(5)[OF inv] i nd[OF ready_bound[OF inv i]] unfolding queue_ok_def by auto
  qed
  have "ready (snd (settle_parent root s2)) = ready s2 \<or>
    (\<exists>p. ready (snd (settle_parent root s2)) = ready s2 @ [p] \<and> p \<notin> set (ready s))"
  proof (cases "n_parent (nodes s2 ! root)")
    case (Some p)
    then show ?thesis using out[of p]
      by (cases "p < length (nodes s2)") (auto simp: settle_parent_def Let_def s2_def list_update_beyond)
  qed (simp add: settle_parent_def)
  then obtain new where "ready t = filter (\<lambda>q. n_state (nodes s1 ! q) = NodeReady) (ready s) @ new"
    "set new \<inter> set (ready s) = {}"
    using t fr(1) by (auto simp: s2_def)
  then show ?thesis unfolding queue_purges_def using dead by blast
qed


lemma cancel_tasks_queue:
  "sched_inv s \<Longrightarrow> cancel_tasks ts acc s = Some (r, t) \<Longrightarrow> queue_purges s t"
proof (induction ts arbitrary: acc s)
  case Nil
  then show ?case unfolding queue_purges_def by (intro exI[of _ "\<lambda>_. True"] exI[of _ "[]"]) simp
next
  case (Cons task ts)
  let ?s1 = "s\<lparr>cancelled_tasks := insert task (cancelled_tasks s)\<rparr>"
  have inv1: "sched_inv ?s1" by (rule cancelled_tasks_inv[OF Cons.prems(1)])
  have "queue_purges ?s1 t"
  proof (cases "by_task s task")
    case None
    then show ?thesis using Cons.IH[OF inv1] Cons.prems(2) by simp
  next
    case (Some i)
    then have i: "i < length (nodes ?s1)" using sched_invD(6)[OF Cons.prems(1)] unfolding index_ok_def by simp
    from cancel_tree_inv[OF inv1 this] obtain u where
      u: "cancel_tree i ?s1 = Some (Inr (drained (nodes ?s1) i), u)" "sched_inv u" by blast
    have rest: "cancel_tasks ts (acc @ drained (nodes ?s1) i) u = Some (r, t)"
      using Cons.prems(2) Some u(1) by simp
    obtain d t' where "cancel_tasks ts (acc @ drained (nodes ?s1) i) u = Some (Inr d, t')" "sched_inv t'"
      using cancel_tasks_returns[OF u(2)] by blast
    then have "sched_inv t" using rest by simp
    then show ?thesis
      using queue_purges_trans[OF cancel_tree_queue[OF inv1 i u(1)] Cons.IH[OF u(2) rest] inv1]
        evolves_cancel_tree[OF inv1 i u(1)] evolves_cancel_tasks[OF u(2) rest] by blast
  qed
  then show ?case by (simp add: queue_purges_def)
qed

lemma end_running_queue:
  assumes "sched_inv s" "n_state (nodes s ! i) = NodeRunning" "is_terminal st"
  shows "queue_advances s (snd (settle_parent i (release_slot i (set_node_state i st s))))"
proof -
  let ?u = "release_slot i (set_node_state i st s)"
  have "n_state (nodes ?u ! p) = NodeWaiting \<Longrightarrow> p \<notin> set (ready ?u)" for p
    using waiting_not_queued[OF assms(1), of p] assms(3)
    by (cases "p = i"; cases "i < length (nodes s)") (auto simp: list_update_beyond)
  from settle_parent_queue[of ?u i, OF this] show ?thesis
    using queue_advances_same queue_advancesI[of _ "\<lambda>_. True"] by force
qed

lemma submit_queue: "sched_inv s \<Longrightarrow> queue_advances s (snd (submit parent task answer grant units s))"
proof -
  assume inv: "sched_inv s"
  have fresh: "length (nodes s) \<notin> set (ready s)" using ready_bound[OF inv] by blast
  have "ready (snd (submit parent task answer grant units s)) = ready s \<or>
    ready (snd (submit parent task answer grant units s)) = ready s @ [length (nodes s)]"
    by (cases parent) (auto simp: submit_def Let_def sched_node_state_def)
  then show ?thesis
    using queue_advances_same queue_advancesI[of _ "\<lambda>_. True" s "[length (nodes s)]"] fresh by force
qed

lemma retire_queue:
  assumes "sched_inv s"
  shows "\<exists>P new. ready (retire i s) = filter P (ready s) @ new \<and> set new \<inter> set (ready s) = {} \<and>
    length (nodes (retire i s)) = length (nodes s)"
proof (cases "live (nodes s ! i)")
  case False
  then show ?thesis by (intro exI[of _ "\<lambda>_. True"] exI[of _ "[]"]) (simp add: retire_def)
next
  case True
  define s1 where "s1 = (if n_state (nodes s ! i) = NodeRunning then release_slot i s else s)"
  define s2 where "s2 = (if n_state (nodes s1 ! i) = NodeReady
     then s1\<lparr>ready := filter (\<lambda>q. q \<noteq> i) (ready s1)\<rparr> else s1)"
  let ?u = "set_node_state i NodeSettled s2"
  have r: "retire i s = snd (settle_parent i ?u)"
    using True by (simp add: retire_def s1_def s2_def Let_def)
  obtain P where P: "ready ?u = filter P (ready s)"
    by (rule that[of "if n_state (nodes s1 ! i) = NodeReady then (\<lambda>q. q \<noteq> i) else (\<lambda>_. True)"])
      (simp add: s1_def s2_def)
  have ns: "nodes ?u = (nodes s)[i := (nodes s ! i)\<lparr>n_state := NodeSettled\<rparr>]" by (simp add: s1_def s2_def)
  have len: "length (nodes (retire i s)) = length (nodes s)"
    unfolding r by (simp add: settle_parent_def Let_def s1_def s2_def split: option.splits)
  have out: "n_state (nodes ?u ! p) = NodeWaiting \<Longrightarrow> p \<notin> set (ready s)" for p
    unfolding ns using waiting_not_queued[OF assms, of p]
    by (cases "p = i"; cases "i < length (nodes s)") (auto simp: list_update_beyond)
  have "ready (retire i s) = ready ?u \<or> (\<exists>p. ready (retire i s) = ready ?u @ [p] \<and> p \<notin> set (ready s))"
  proof (cases "n_parent (nodes ?u ! i)")
    case (Some p)
    then show ?thesis unfolding r using out[of p]
      by (cases "p < length (nodes ?u)") (auto simp: settle_parent_def Let_def list_update_beyond)
  qed (simp add: settle_parent_def r)
  then obtain new where "ready (retire i s) = filter P (ready s) @ new" "set new \<inter> set (ready s) = {}"
    using P by auto
  then show ?thesis using len by blast
qed

lemma submit_answered_queue:
  assumes inv: "sched_inv s" and a: "submit_answered task answer grant s = Some (r, t)"
  shows "queue_advances s t"
  using submit_answered_cases[OF a]
proof
  assume "\<exists>parent r'. in_cancelled_subtree s task = Some False \<and>
       submit parent task answer grant 1
         (case by_task s task of Some previous \<Rightarrow> retire previous s | None \<Rightarrow> s) = (r', t)"
  then obtain parent r' s1 where s1: "s1 = s \<or> (\<exists>k. s1 = retire k s)"
    and sub: "submit parent task answer grant 1 s1 = (r', t)"
    by (cases "by_task s task") auto
  obtain P new where P: "ready s1 = filter P (ready s) @ new" "set new \<inter> set (ready s) = {}"
    "length (nodes s1) = length (nodes s)"
  proof -
    have "ready s = filter (\<lambda>_. True) (ready s) @ []" by simp
    then show thesis using s1 retire_queue[OF inv] that[of "\<lambda>_. True" "[]"] that by fastforce
  qed
  have "ready t = ready s1 \<or> ready t = ready s1 @ [length (nodes s)]"
    using sub P(3) by (cases parent) (auto simp: submit_def Let_def sched_node_state_def split: if_splits)
  moreover have "length (nodes s) \<notin> set (ready s)" using ready_bound[OF inv] by blast
  ultimately show ?thesis
    using P queue_advancesI[of t P s new] queue_advancesI[of t P s "new @ [length (nodes s)]"] by auto
qed (simp add: queue_advances_same)

lemma admit_queue:
  assumes "sched_inv s" "admit_next_bounded reserve l s = Some (r, l', t)"
  shows "(r = None \<and> ready t = ready s) \<or> (\<exists>i. r = Some i \<and> ready s = i # ready t)"
  using admit_cases[OF assms(2,1)] by auto

lemma sched_step_queue:
  assumes "sched_step s t" "sched_inv s"
  shows "queue_advances s t"
  using assms(1)
proof (cases rule: sched_step.cases)
  case step_ingress
  then show ?thesis
  proof (cases rule: ingress_step.cases)
    case (step_answer task answer grant r)
    show ?thesis by (rule submit_answered_queue[OF assms(2) step_answer])
  next
    case (step_cancel task r)
    then show ?thesis using cancel_tasks_queue[OF assms(2)] queue_purges_advances by (simp add: cancel_task_tree_def)
  next
    case (step_admit reserve l r l')
    have d: "distinct (ready s)" using sched_invD(5)[OF assms(2)] unfolding queue_ok_def by blast
    consider "ready t = ready s" | i where "ready s = i # ready t"
      using admit_queue[OF assms(2) step_admit] by blast
    then show ?thesis
    proof cases
      case 2
      then have "ready t = filter (\<lambda>q. q \<noteq> i) (ready s) @ []" using d by (auto intro: filter_True[symmetric])
      then show ?thesis by (rule queue_advancesI) simp
    qed (simp add: queue_advances_same)
  next
    case (step_complete i r)
    then show ?thesis using end_running_queue[OF assms(2), of i NodeCompleted]
      by (auto simp: complete_def sched_node_state_def queue_advances_same
          split: if_splits node_state.splits prod.splits)
  next
    case (step_settle i r)
    then show ?thesis using end_running_queue[OF assms(2), of i NodeSettled]
      by (auto simp: settle_def sched_node_state_def queue_advances_same split: if_splits)
  qed (auto intro!: queue_advances_same simp: adopt_def begin_wait_def deliver_def sched_node_state_def
      split: if_splits option.splits)
next
  case (step_submit parent task answer grant units r)
  then show ?thesis using submit_queue[OF assms(2), of parent task answer grant units] by simp
next
  case (step_cancel_tree root r)
  show ?thesis
  proof (cases "root < length (nodes s)")
    case True
    show ?thesis by (rule queue_purges_advances[OF cancel_tree_queue[OF assms(2) True step_cancel_tree]])
  next
    case False
    then show ?thesis using step_cancel_tree by (simp add: cancel_tree_def sched_node_state_def queue_advances_same)
  qed
qed

end
