(* ===== verification/Scheduler_Theorems.thy ===== *)
theory Scheduler_Theorems
  imports Scheduler_Order
begin

text \<open>
  The scheduler's properties, each over the states its public operations reach, and the small
  concrete schedulers their witnesses run on.
\<close>

subsection \<open>Concrete schedulers\<close>

lemma walk_simps [simp]:
  "cancelled_walk cs par None = Some False"
  "cancelled_walk cs par (Some v) = (if v \<in> cs then Some True else cancelled_walk cs par (par v))"
  "runnable_walk ns par None = Some None"
  "runnable_walk ns par (Some v) = (case ns v of Some n \<Rightarrow> Some (Some n) | None \<Rightarrow> runnable_walk ns par (par v))"
  "drain_walk nd [] acc = Some acc"
  "drain_walk nd (i # rest) acc =
     drain_walk nd (n_children (nd ! i) @ rest) (if live (nd ! i) then acc @ [i] else acc)"
  "scope_walk nd None chain = Some (rev chain)"
  "scope_walk nd (Some i) chain = scope_walk nd (n_parent (nd ! i)) (chain @ [n_task (nd ! i)])"
  by (subst cancelled_walk.simps runnable_walk.simps drain_walk.simps scope_walk.simps, simp)+

text \<open>A root task with one child, queued, then with the root parked until the child is done.\<close>

abbreviation task_a :: task_id where "task_a \<equiv> TaskId ''a''"
abbreviation task_b :: task_id where "task_b \<equiv> TaskId ''b''"
abbreviation reply :: answer_selection where "reply \<equiv> AnswerCustom ''go''"

definition demo_queued :: scheduler where
  "demo_queued =
     snd (submit (Some 0) task_b reply ''g'' 1 (snd (submit None task_a reply ''g'' 1
       (adopt task_b task_a (scheduler_new 1 4)))))"

definition demo_admitted :: scheduler where
  "demo_admitted = demo_queued\<lparr>nodes := (nodes demo_queued)[0 := (nodes demo_queued ! 0)\<lparr>n_state := NodeRunning\<rparr>],
     ready := [1], running := 1, held_units := 1\<rparr>"

definition demo_parked :: scheduler where
  "demo_parked = snd (begin_wait 0 demo_admitted)"

definition demo_child_running :: scheduler where
  "demo_child_running = demo_parked\<lparr>nodes := (nodes demo_parked)[1 := (nodes demo_parked ! 1)\<lparr>n_state := NodeRunning\<rparr>],
     ready := [], running := 1, held_units := 1\<rparr>"

lemmas demo_defs = demo_queued_def demo_admitted_def demo_parked_def demo_child_running_def
  submit_def adopt_def scheduler_new_def begin_wait_def sched_node_state_def Let_def upd_node_def
  set_node_state_def release_slot_def

lemma reach_ops:
  assumes "sched_reachable slots cap s"
  shows "sched_reachable slots cap (adopt task parent s)"
    "sched_reachable slots cap (snd (submit p task answer grant units s))"
    "sched_reachable slots cap (snd (begin_wait i s))"
    "sched_reachable slots cap (snd (complete i s))"
  using reach_step[OF assms] step_ingress step_adopt step_submit[OF surjective_pairing]
    step_wait[OF surjective_pairing] step_complete[OF surjective_pairing] by blast+

lemma demo_queued_reachable: "sched_reachable 1 4 demo_queued"
  unfolding demo_queued_def by (intro reach_ops reach_new)

lemma demo_admit: "admit_next demo_queued = Some (Some 0, demo_admitted)"
  by (simp add: admit_next_def admit_next_bounded_def scope_chain_def demo_defs checked_add_def)

lemma demo_admit_child: "admit_next demo_parked = Some (Some 1, demo_child_running)"
  by (simp add: admit_next_def admit_next_bounded_def scope_chain_def demo_defs checked_add_def)

lemma demo_ready: "ready demo_queued = [0, 1]"
  by (simp add: demo_defs)

lemma admit_next_step: "admit_next s = Some (r, t) \<Longrightarrow> sched_inv s \<Longrightarrow> sched_step s t"
proof -
  assume a: "admit_next s = Some (r, t)" and inv: "sched_inv s"
  then have "admit_next_bounded (\<lambda>l _ _. (True, l)) (0::nat) s = Some (r, 0, t)"
    by (auto simp: admit_next_def admit_next_bounded_def Let_def split: list.splits if_splits option.splits)
  then show ?thesis by (rule step_ingress[OF step_admit])
qed

lemma demo_admitted_reachable: "sched_reachable 1 4 demo_admitted"
  by (rule reach_step[OF demo_queued_reachable admit_next_step[OF demo_admit reachable_inv[OF demo_queued_reachable]]])

lemma demo_parked_reachable: "sched_reachable 1 4 demo_parked"
  unfolding demo_parked_def by (rule reach_ops(3)[OF demo_admitted_reachable])

lemma demo_child_running_reachable: "sched_reachable 1 4 demo_child_running"
  by (rule reach_step[OF demo_parked_reachable admit_next_step[OF demo_admit_child reachable_inv[OF demo_parked_reachable]]])

subsection \<open>Limits and progress\<close>

text \<open>
  C1. After any sequence of public operations the scheduler's two counters are exact and within
  the limits it was built with: \<open>running\<close> is the number of running nodes, at most the slot
  count, and \<open>held_units\<close>, a wrapping 32-bit counter, is the true sum of the running nodes'
  units, at most the resource cap.
\<close>

theorem sched_caps_hold:
  assumes "sched_reachable slots cap s"
  shows "running s = length (filter (\<lambda>n. n_state n = NodeRunning) (nodes s)) \<and> running s \<le> slots \<and>
    unat (held_units s) = (\<Sum>n\<leftarrow>filter (\<lambda>n. n_state n = NodeRunning) (nodes s). unat (n_units n)) \<and>
    held_units s \<le> cap"
  using sched_invD(4)[OF reachable_inv[OF assms]] reachable_limits[OF assms]
  by (simp add: ledger_ok_def run_count_filter run_units_filter)

theorem sched_caps_hold_witness:
  "running demo_admitted = 1 \<and> running demo_admitted \<le> 1 \<and> held_units demo_admitted \<le> 4"
  using sched_caps_hold[OF demo_admitted_reachable] by (simp add: demo_defs)

text \<open>
  C5. The scheduler never stalls: whatever happened before, with at least one slot, as long as
  some node is unfinished, either a node is running or the next admission succeeds.
\<close>

theorem sched_no_stall:
  assumes "sched_reachable slots cap s" "0 < slots" "i < length (nodes s)" "live (nodes s ! i)"
  shows "0 < running s \<or> (\<exists>j t. admit_next s = Some (Some j, t) \<and> n_state (nodes t ! j) = NodeRunning)"
proof (cases "running s = 0")
  case True
  have inv: "sched_inv s" by (rule reachable_inv[OF assms(1)])
  obtain j t where a: "admit_next s = Some (Some j, t)"
    using idle_admits[OF inv _ True assms(3,4)] assms(2) reachable_limits[OF assms(1)] by auto
  then obtain rest where q: "ready s = j # rest" and
    st: "\<exists>tot. t = (set_node_state j NodeRunning (s\<lparr>ready := rest\<rparr>))\<lparr>running := running s + 1, held_units := tot\<rparr>"
    using admit_next_cases[OF inv a] by auto
  have "n_state (nodes t ! j) = NodeRunning" using st ready_head(1)[OF inv q] by auto
  then show ?thesis using a by blast
qed simp

theorem sched_no_stall_witness:
  "0 < running demo_parked \<or> (\<exists>j t. admit_next demo_parked = Some (Some j, t) \<and> n_state (nodes t ! j) = NodeRunning)"
  by (rule sched_no_stall[OF demo_parked_reachable, of 1]) (simp_all add: demo_defs)

subsection \<open>Cancellation\<close>

text \<open>
  What a cancelled tree leaves of each node: the live nodes of the subtree are cancelled, the parent of a
  live root counts one unfinished child less and is woken when it waited for that one alone, and
  every other node is the node it was.
\<close>

definition wakes_parent :: "scheduler \<Rightarrow> node_id \<Rightarrow> node_id \<Rightarrow> bool" where
  "wakes_parent s r p \<longleftrightarrow> live (nodes s ! r) \<and> n_parent (nodes s ! r) = Some p \<and>
     n_state (nodes s ! p) = NodeWaiting \<and> n_unfinished (nodes s ! p) \<le> 1"

lemma settle_parent_exact:
  assumes "n_parent (nodes s ! i) = Some p" "p < length (nodes s)"
  defines "wakes \<equiv> n_state (nodes s ! p) = NodeWaiting \<and> n_unfinished (nodes s ! p) \<le> 1"
  shows "nodes (snd (settle_parent i s)) = (nodes s)[p := (nodes s ! p)\<lparr>n_unfinished := n_unfinished (nodes s ! p) - 1,
           n_state := if wakes then NodeReady else n_state (nodes s ! p)\<rparr>]"
    and "ready (snd (settle_parent i s)) = ready s @ (if wakes then [p] else [])"
    and "max_slots (snd (settle_parent i s)) = max_slots s" "resource_cap (snd (settle_parent i s)) = resource_cap s"
    and "ignored_late_deliveries (snd (settle_parent i s)) = ignored_late_deliveries s"
  using assms by (auto simp: settle_parent_def Let_def)

lemma cancel_tree_nodes:
  assumes inv: "sched_inv s" and r: "r < length (nodes s)" and c: "cancel_tree r s = Some (Inr d, t)"
  obtains s2 where "length (nodes s2) = length (nodes s)"
    "\<And>q. q < length (nodes s) \<Longrightarrow> nodes s2 ! q =
       (if under (nodes s) r q \<and> live (nodes s ! q) then (nodes s ! q)\<lparr>n_state := NodeCancelled\<rparr> else nodes s ! q)"
    "ready s2 = filter (\<lambda>q. \<not> under (nodes s) r q) (ready s)" "max_slots s2 = max_slots s"
    "resource_cap s2 = resource_cap s" "ignored_late_deliveries s2 = ignored_late_deliveries s"
    "t = (if live (nodes s ! r) then snd (settle_parent r s2) else s2)"
proof -
  let ?D = "drained (nodes s) r"
  define s1 where "s1 = fold cancel_node ?D s"
  define s2 where "s2 = s1\<lparr>ready := filter (\<lambda>q. n_state (nodes s1 ! q) = NodeReady) (ready s1)\<rparr>"
  have wf: "wf_tree (nodes s)" by (rule sched_invD(1)[OF inv])
  have D: "q \<in> set ?D \<longleftrightarrow> under (nodes s) r q \<and> live (nodes s ! q)" for q using set_drained[OF wf r] by simp
  have t: "t = (if live (nodes s ! r) then snd (settle_parent r s2) else s2)"
  proof -
    have "Some (Inr d, t) = Some (Inr ?D :: scheduler_error + node_id list, if live (nodes s ! r) then snd (settle_parent r s2) else s2)"
      unfolding c[symmetric] s1_def s2_def by (rule cancel_tree_state[OF inv r])
    then show ?thesis by (simp only: option.inject prod.inject)
  qed
  have nth: "nodes s1 ! q = (if under (nodes s) r q \<and> live (nodes s ! q) then (nodes s ! q)\<lparr>n_state := NodeCancelled\<rparr> else nodes s ! q)"
    if "q < length (nodes s)" for q
    using fold_cancel_nodes[OF that, of ?D] by (simp add: s1_def D)
  have "n_state (nodes s1 ! q) = NodeReady \<longleftrightarrow> \<not> under (nodes s) r q" if "q \<in> set (ready s)" for q
  proof -
    have "q < length (nodes s)" "n_state (nodes s ! q) = NodeReady"
      using sched_invD(5)[OF inv] that by (auto simp: queue_ok_def)
    then show ?thesis using nth[of q] by simp
  qed
  then have "ready s2 = filter (\<lambda>q. \<not> under (nodes s) r q) (ready s)"
    using fold_cancel_frame[of ?D s] by (simp add: s2_def s1_def cong: filter_cong)
  then show thesis using that[of s2] t nth fold_cancel_frame[of ?D s] by (simp add: s1_def s2_def)
qed

lemma cancel_tree_exact:
  assumes inv: "sched_inv s" and r: "r < length (nodes s)" and c: "cancel_tree r s = Some (Inr d, t)"
  shows "length (nodes t) = length (nodes s) \<and>
    (\<forall>j<length (nodes s). nodes t ! j =
       (if under (nodes s) r j then if live (nodes s ! j) then (nodes s ! j)\<lparr>n_state := NodeCancelled\<rparr> else nodes s ! j
        else if live (nodes s ! r) \<and> n_parent (nodes s ! r) = Some j
        then (nodes s ! j)\<lparr>n_unfinished := n_unfinished (nodes s ! j) - 1,
               n_state := if wakes_parent s r j then NodeReady else n_state (nodes s ! j)\<rparr>
        else nodes s ! j)) \<and>
    ready t = filter (\<lambda>q. \<not> under (nodes s) r q) (ready s) @
      (case n_parent (nodes s ! r) of Some p \<Rightarrow> if wakes_parent s r p then [p] else [] | None \<Rightarrow> []) \<and>
    max_slots t = max_slots s \<and> resource_cap t = resource_cap s \<and> ignored_late_deliveries t = ignored_late_deliveries s"
proof -
  have wf: "wf_tree (nodes s)" by (rule sched_invD(1)[OF inv])
  from inv r c obtain s2 where s2: "length (nodes s2) = length (nodes s)"
    "\<And>q. q < length (nodes s) \<Longrightarrow> nodes s2 ! q =
       (if under (nodes s) r q \<and> live (nodes s ! q) then (nodes s ! q)\<lparr>n_state := NodeCancelled\<rparr> else nodes s ! q)"
    "ready s2 = filter (\<lambda>q. \<not> under (nodes s) r q) (ready s)" "max_slots s2 = max_slots s"
    "resource_cap s2 = resource_cap s" "ignored_late_deliveries s2 = ignored_late_deliveries s"
    "t = (if live (nodes s ! r) then snd (settle_parent r s2) else s2)"
    by (rule cancel_tree_nodes) blast
  have same: "n_parent (nodes s2 ! r) = n_parent (nodes s ! r)" using s2(2)[OF r] by simp
  show ?thesis
  proof (cases "live (nodes s ! r) \<and> n_parent (nodes s ! r) \<noteq> None")
    case False
    then have "t = s2" using s2(7) same by (auto simp: settle_parent_def)
    then show ?thesis using False s2(1-6) by (auto simp: wakes_parent_def split: option.splits)
  next
    case True
    then obtain p where p: "n_parent (nodes s ! r) = Some p" by blast
    then have "p < r" using wf r unfolding wf_tree_def by blast
    then have up: "p < length (nodes s)" "\<not> under (nodes s) r p" using r under_bound[OF _ wf r, of p] by auto
    have "nodes s2 ! p = nodes s ! p" using s2(2)[OF up(1)] up(2) by simp
    moreover have "t = snd (settle_parent r s2)" using s2(7) True by simp
    ultimately show ?thesis
      using settle_parent_exact[of s2 r p] s2(1-6) same p up True by (auto simp: wakes_parent_def nth_list_update)
  qed
qed

text \<open>
  C11. \<open>cancel_tree\<close> returns, and drains exactly the subtree. It answers with the unfinished nodes of
  the subtree in pre-order and leaves each of them cancelled; the finished ones stay as they were, so
  every node of the subtree is terminal and off the ready queue. Outside the subtree every node is unchanged in all its
  fields but the parent of a live root, whose count of unfinished children goes down by one and which
  becomes ready if it waited for that child alone. The ready queue is the old one without the subtree,
  followed by the woken parent; the two counters are those of the nodes left running; limits, links
  between tasks, the task index, cancelled tasks and the count of late deliveries stay.
\<close>

theorem cancel_tree_drains:
  assumes "sched_reachable slots cap s" "r < length (nodes s)"
  shows "\<exists>t. cancel_tree r s = Some (Inr (filter (\<lambda>j. live (nodes s ! j)) (preorder (length (nodes s)) (nodes s) r)), t) \<and>
    length (nodes t) = length (nodes s) \<and>
    (\<forall>j. under (nodes s) r j \<longrightarrow> j \<notin> set (ready t) \<and> is_terminal (n_state (nodes t ! j)) \<and>
       nodes t ! j = (if live (nodes s ! j) then (nodes s ! j)\<lparr>n_state := NodeCancelled\<rparr> else nodes s ! j)) \<and>
    (\<forall>j<length (nodes s). \<not> under (nodes s) r j \<longrightarrow>
       nodes t ! j =
         (if live (nodes s ! r) \<and> n_parent (nodes s ! r) = Some j
          then (nodes s ! j)\<lparr>n_unfinished := n_unfinished (nodes s ! j) - 1,
                 n_state := if wakes_parent s r j then NodeReady else n_state (nodes s ! j)\<rparr>
          else nodes s ! j)) \<and>
    ready t = filter (\<lambda>q. \<not> under (nodes s) r q) (ready s) @
      (case n_parent (nodes s ! r) of Some p \<Rightarrow> if wakes_parent s r p then [p] else [] | None \<Rightarrow> []) \<and>
    running t = length (filter (\<lambda>n. n_state n = NodeRunning) (nodes t)) \<and>
    unat (held_units t) = (\<Sum>n\<leftarrow>filter (\<lambda>n. n_state n = NodeRunning) (nodes t). unat (n_units n)) \<and>
    max_slots t = max_slots s \<and> resource_cap t = resource_cap s \<and> parents t = parents s \<and> linkage t = linkage s \<and>
    by_task t = by_task s \<and> cancelled_tasks t = cancelled_tasks s \<and> ignored_late_deliveries t = ignored_late_deliveries s"
proof -
  have inv: "sched_inv s" by (rule reachable_inv[OF assms(1)])
  obtain t where c: "cancel_tree r s = Some (Inr (drained (nodes s) r), t)" and inv': "sched_inv t"
    using cancel_tree_inv[OF inv assms(2)] by blast
  note exact = cancel_tree_exact[OF inv assms(2) c]
  have sub: "nodes t ! j = (if live (nodes s ! j) then (nodes s ! j)\<lparr>n_state := NodeCancelled\<rparr> else nodes s ! j)"
    if "under (nodes s) r j" for j
    using exact under_bound[OF that sched_invD(1)[OF inv] assms(2)] that by simp
  then have terminal: "is_terminal (n_state (nodes t ! j))" if "under (nodes s) r j" for j using that by simp
  have off: "j \<notin> set (ready t)" if "under (nodes s) r j" for j
  proof
    assume "j \<in> set (ready t)"
    then have "n_state (nodes t ! j) = NodeReady" using sched_invD(5)[OF inv'] unfolding queue_ok_def by blast
    then show False using terminal[OF that] by simp
  qed
  have counters: "running t = length (filter (\<lambda>n. n_state n = NodeRunning) (nodes t))"
    "unat (held_units t) = (\<Sum>n\<leftarrow>filter (\<lambda>n. n_state n = NodeRunning) (nodes t). unat (n_units n))"
    using sched_invD(4)[OF inv'] by (simp_all add: ledger_ok_def run_count_filter run_units_filter)
  show ?thesis
    using c exact cancel_tree_frame[OF c] sub terminal off counters unfolding drained_def by (intro exI[of _ t]) simp
qed

theorem cancel_tree_drains_witness:
  "\<exists>t. cancel_tree 0 demo_parked = Some (Inr [0, 1], t) \<and> 1 \<notin> set (ready t) \<and>
     is_terminal (n_state (nodes t ! 1))"
proof -
  have "under (nodes demo_parked) 0 1" by (rule under_child[OF under_refl]) (simp add: demo_defs)
  moreover have "0 < length (nodes demo_parked)"
    "filter (\<lambda>j. live (nodes demo_parked ! j)) (preorder (length (nodes demo_parked)) (nodes demo_parked) 0) = [0, 1]"
    by (simp_all add: demo_defs)
  ultimately show ?thesis
    using cancel_tree_drains[OF demo_parked_reachable, of 0] by metis
qed

lemma cancel_task_tree_marks:
  assumes inv: "sched_inv s" and c: "cancel_task_tree task s = Some (r, t)"
    and v: "(v, task) \<in> (link_rel (parents s))\<^sup>*"
  shows "v \<in> cancelled_tasks t \<and> v \<in> set (task_subtree s task)"
proof -
  have "v \<in> set (task_subtree s task)"
    using task_subtree_correct[of s task] v link_rel_linkage[OF inv] by simp
  then show ?thesis using evolves_cancel_tasks[OF inv] c by (simp add: cancel_task_tree_def)
qed

lemma sched_run_evolves: "sched_step\<^sup>*\<^sup>* s u \<Longrightarrow> sched_inv s \<Longrightarrow> sched_inv u \<and> evolves s u"
  by (induction rule: rtranclp_induct) (auto intro: sched_step_inv evolves_trans[OF _ sched_step_evolves])

text \<open>
  C6. A cancelled task tree never produces new work: after \<open>cancel_task_tree\<close> and any sequence of public
  operations next (new child tasks adopted under the cancelled ones included), an answer for any
  task that is linked, directly or through ancestors, to the cancelled task is dropped and changes
  nothing.
\<close>

theorem cancelled_never_resubmits:
  assumes "sched_reachable slots cap s" "cancel_task_tree task s = Some (r, t)" "sched_step\<^sup>*\<^sup>* t u"
    and "(v, task) \<in> (link_rel (parents u))\<^sup>*"
  shows "submit_answered v answer grant u = Some (Inr None, u)"
proof -
  have inv: "sched_inv s" by (rule reachable_inv[OF assms(1)])
  have invt: "sched_inv t" using cancel_task_tree_returns[OF inv, of task] assms(2) by auto
  have "task \<in> cancelled_tasks t" using cancel_task_tree_marks[OF inv assms(2)] by blast
  then have "task \<in> cancelled_tasks u"
    using sched_run_evolves[OF assms(3) invt] by (auto simp: evolves_def)
  then have "in_cancelled_subtree u v = Some True"
    unfolding in_cancelled_subtree_def by (rule cancelled_walk_True[OF assms(4)])
  then show ?thesis by (simp add: submit_answered_def)
qed

definition demo_cancelled :: scheduler where
  "demo_cancelled = demo_queued\<lparr>nodes := map (\<lambda>n. n\<lparr>n_state := NodeCancelled\<rparr>) (nodes demo_queued),
     ready := [], cancelled_tasks := {task_a, task_b}\<rparr>"

lemma demo_subtree: "task_subtree demo_queued task_a = [task_a, task_b]"
  by (simp add: task_subtree_def subtree_walk.simps demo_defs)

lemma demo_cancel: "cancel_task_tree task_a demo_queued =
    Some (Inr [0, 1], demo_cancelled\<lparr>nodes := [(nodes demo_cancelled ! 0)\<lparr>n_unfinished := 1\<rparr>, nodes demo_cancelled ! 1]\<rparr>)"
  unfolding cancel_task_tree_def demo_subtree
  by (simp add: demo_cancelled_def demo_defs cancel_tree_def cancel_node_def settle_parent_def insert_commute)

theorem cancelled_never_resubmits_witness:
  "\<exists>t. cancel_task_tree task_a demo_queued = Some (Inr [0, 1], t) \<and>
     submit_answered (TaskId ''c'') reply ''g'' (adopt (TaskId ''c'') task_b t) =
       Some (Inr None, adopt (TaskId ''c'') task_b t)"
proof -
  obtain t where t: "cancel_task_tree task_a demo_queued = Some (Inr [0, 1], t)" using demo_cancel by blast
  have "parents t = [task_b \<mapsto> task_a]"
    using evolves_cancel_tasks[OF reachable_inv[OF demo_queued_reachable]] t
    by (simp add: cancel_task_tree_def demo_defs)
  then have "parents (adopt (TaskId ''c'') task_b t) = [task_b \<mapsto> task_a, TaskId ''c'' \<mapsto> task_b]"
    by (simp add: adopt_def)
  then have "(TaskId ''c'', task_b) \<in> link_rel (parents (adopt (TaskId ''c'') task_b t))"
    "(task_b, task_a) \<in> link_rel (parents (adopt (TaskId ''c'') task_b t))"
    by (simp_all add: link_rel_def)
  then have "(TaskId ''c'', task_a) \<in> (link_rel (parents (adopt (TaskId ''c'') task_b t)))\<^sup>*" by auto
  then show ?thesis
    using cancelled_never_resubmits[OF demo_queued_reachable t r_into_rtranclp[of sched_step, OF step_ingress[OF step_adopt]]] t
    by blast
qed

text \<open>
  Cancellation is final: every node that belonged to a task of the cancelled tree is terminal
  and off the ready queue from then on, whatever the runtime does next, and the task keeps that
  node (no later answer replaces it).
\<close>

theorem cancelled_nodes_stay_terminal:
  assumes "sched_reachable slots cap s" "cancel_task_tree task s = Some (r, t)" "ingress_step\<^sup>*\<^sup>* t u"
    and "(v, task) \<in> (link_rel (parents s))\<^sup>*" "by_task s v = Some i"
  shows "by_task u v = Some i \<and> is_terminal (n_state (nodes u ! i)) \<and> i \<notin> set (ready u)"
proof -
  have inv: "sched_inv s" by (rule reachable_inv[OF assms(1)])
  have invt: "sched_inv t" using cancel_task_tree_returns[OF inv, of task] assms(2) by auto
  note m = cancel_task_tree_marks[OF inv assms(2,4)]
  have c: "cancel_tasks (task_subtree s task) [] s = Some (r, t)" using assms(2) by (simp add: cancel_task_tree_def)
  have byt: "by_task t v = Some i" using evolves_cancel_tasks[OF inv c] assms(5) by simp
  have dead: "is_terminal (n_state (nodes t ! i))"
    using cancelled_task_terminal[OF inv c conjunct2[OF m] assms(5)] .
  have "i < length (nodes t)" using sched_invD(6)[OF invt] byt unfolding index_ok_def by blast
  then have du: "is_terminal (n_state (nodes u ! i))"
    using dead ingress_run_cancelled[OF assms(3) invt] by (simp add: evolves_def)
  moreover have "i \<notin> set (ready u)"
    using sched_invD(5)[of u] ingress_run_cancelled[OF assms(3) invt] du unfolding queue_ok_def by auto
  ultimately show ?thesis using ingress_run_cancelled[OF assms(3) invt] m byt by simp
qed

theorem cancelled_nodes_stay_terminal_witness:
  "\<exists>t. cancel_task_tree task_a demo_queued = Some (Inr [0, 1], t) \<and>
     by_task (snd (complete 1 t)) task_b = Some 1 \<and> 1 \<notin> set (ready (snd (complete 1 t)))"
proof -
  obtain t where t: "cancel_task_tree task_a demo_queued = Some (Inr [0, 1], t)" using demo_cancel by blast
  have "(task_b, task_a) \<in> (link_rel (parents demo_queued))\<^sup>*"
    by (rule r_into_rtrancl) (simp add: link_rel_def demo_defs)
  moreover have "by_task demo_queued task_b = Some 1" by (simp add: demo_defs)
  ultimately show ?thesis
    using t cancelled_nodes_stay_terminal[OF demo_queued_reachable t
        r_into_rtranclp[of ingress_step, OF step_complete[of 1 t "fst (complete 1 t)" "snd (complete 1 t)"]]]
    by (metis surjective_pairing)
qed

text \<open>
  Which tasks \<open>cancel_task_tree\<close> reaches: the index-based breadth-first walk returns every
  task linked to the root, directly or through ancestors, once each, even when the linkage is
  cyclic.
\<close>

theorem task_subtree_exact:
  "distinct (task_subtree s task) \<and> set (task_subtree s task) = {u. (u, task) \<in> (set (linkage s))\<^sup>*}"
  by (rule task_subtree_correct)

text \<open>
  Over an acyclic linkage the upward walk of \<open>submit_answered\<close> returns, and says exactly
  whether the task or one of its ancestors was cancelled.
\<close>

theorem in_cancelled_subtree_exact:
  assumes "wf ((link_rel (parents s))\<inverse>)"
  shows "in_cancelled_subtree s task = Some (\<exists>a\<in>cancelled_tasks s. (task, a) \<in> (link_rel (parents s))\<^sup>*)"
  unfolding in_cancelled_subtree_def by (rule cancelled_walk_returns[OF assms])

theorem in_cancelled_subtree_exact_witness:
  "in_cancelled_subtree demo_queued task_b =
     Some (\<exists>a\<in>cancelled_tasks demo_queued. (task_b, a) \<in> (link_rel (parents demo_queued))\<^sup>*)"
proof (rule in_cancelled_subtree_exact)
  have "(link_rel (parents demo_queued))\<inverse> \<subseteq> measure (\<lambda>v. if v = task_a then 0 else 1)"
    by (auto simp: link_rel_def demo_defs split: if_splits)
  then show "wf ((link_rel (parents demo_queued))\<inverse>)" by (rule wf_subset[OF wf_measure])
qed

text \<open>
  C21. \<open>adopt\<close> does not look for cycles: a task that is adopted under itself (which a replayed
  \<open>create\<close> naming its own task as the parent does) makes \<open>in_cancelled_subtree\<close>, and so the next
  answer for that task, run forever.
\<close>

theorem self_adoption_diverges:
  assumes "parents s task = None" "task \<notin> cancelled_tasks s"
  shows "in_cancelled_subtree (adopt task task s) task = None \<and>
    submit_answered task answer grant (adopt task task s) = None"
  using cancelled_walk_loops[of "(parents s)(task \<mapsto> task)" task "cancelled_tasks s"] assms
  by (simp add: in_cancelled_subtree_def submit_answered_def adopt_def del: walk_simps)

theorem self_adoption_diverges_witness:
  "in_cancelled_subtree (adopt task_a task_a demo_queued) task_a = None \<and>
   submit_answered task_a reply ''g'' (adopt task_a task_a demo_queued) = None"
  by (rule self_adoption_diverges) (simp_all add: demo_defs del: walk_simps)

subsection \<open>Order of work\<close>

text \<open>
  C20. The ready queue is first in, first out: an operation only removes entries from it and adds
  entries that were not in it at the end, never reordering, and an admission takes its head.
\<close>

theorem ready_fifo:
  assumes "sched_reachable slots cap s"
  shows "(sched_step s t \<longrightarrow>
      (\<exists>P new. ready t = filter P (ready s) @ new \<and> set new \<inter> set (ready s) = {})) \<and>
    (admit_next_bounded reserve l s = Some (Some i, l', u) \<longrightarrow> ready s = i # ready u)"
  using sched_step_queue[of s t] admit_queue[of s reserve l "Some i" l' u] reachable_inv[OF assms]
  unfolding queue_advances_def by auto

theorem ready_fifo_witness:
  "ready demo_queued = 0 # ready demo_admitted \<and> ready demo_queued = [0, 1]"
proof -
  have "admit_next_bounded (\<lambda>l _ _. (True, l)) () demo_queued = Some (Some 0, (), demo_admitted)"
    using demo_admit by (auto simp: admit_next_def)
  then show ?thesis using ready_fifo[OF demo_queued_reachable] by (metis demo_ready)
qed

text \<open>
  A waiting parent is woken by its last child: completing a node returns its parent as
  resumed exactly when the parent waits and every other child is already terminal, and then the
  parent is ready and last in the queue.
\<close>

theorem complete_wakes_exactly:
  assumes "sched_reachable slots cap s" "complete i s = (Inr (TransitionCompleted resumed), t)"
  shows "(resumed = Some p \<longleftrightarrow> n_parent (nodes s ! i) = Some p \<and> n_state (nodes s ! p) = NodeWaiting \<and>
      (\<forall>k\<in>set (n_children (nodes s ! p)). k \<noteq> i \<longrightarrow> is_terminal (n_state (nodes s ! k)))) \<and>
    (resumed = Some p \<longrightarrow> ready t = ready s @ [p] \<and> n_state (nodes t ! p) = NodeReady)"
  by (rule complete_wakes[OF reachable_inv[OF assms(1)] assms(2)])

theorem complete_wakes_exactly_witness:
  "\<exists>t. complete 1 demo_child_running = (Inr (TransitionCompleted (Some 0)), t) \<and>
     ready t = ready demo_child_running @ [0] \<and> n_state (nodes t ! 0) = NodeReady"
proof -
  have "fst (complete 1 demo_child_running) = Inr (TransitionCompleted (Some 0))"
    by (simp add: complete_def settle_parent_def demo_defs)
  then obtain t where t: "complete 1 demo_child_running = (Inr (TransitionCompleted (Some 0)), t)"
    by (metis surjective_pairing)
  then show ?thesis using complete_wakes_exactly[OF demo_child_running_reachable t, of 0] by blast
qed

text \<open>
  The controller's admission loop returns: it parks admitted nodes that still wait on
  children and stops at a running node with no unfinished child, or idle with no admissible node,
  and never with an error.
\<close>

theorem pick_node_terminates:
  assumes "sched_reachable slots cap s"
  shows "\<exists>r t. pick_node s = Some (Inr r, t) \<and>
     (\<forall>i. r = Some i \<longrightarrow> i < length (nodes t) \<and> n_state (nodes t ! i) = NodeRunning \<and> n_unfinished (nodes t ! i) = 0) \<and>
     (r = None \<longrightarrow> admit_next t = Some (None, t))"
  using pick_node_returns[OF reachable_inv[OF assms]] by blast

theorem pick_node_terminates_witness:
  "\<exists>r t. pick_node demo_queued = Some (Inr r, t)"
  using pick_node_terminates[OF demo_queued_reachable] by blast

end
