(* ===== verification/State_Machine.thy ===== *)
theory State_Machine
  imports Main
begin

text \<open>
  The shape shared by the stateful components: a set of initial states, a step relation (one rule per
  operation) and an invariant. A component interprets the locale on its own relation, discharging the
  two laws from its preservation lemmas, and gets its reachability facts from it.
\<close>

locale state_machine =
  fixes initial :: "'s \<Rightarrow> bool" and step :: "'s \<Rightarrow> 's \<Rightarrow> bool" and inv :: "'s \<Rightarrow> bool"
  assumes initial_inv: "initial s \<Longrightarrow> inv s"
    and step_inv: "inv s \<Longrightarrow> step s s' \<Longrightarrow> inv s'"
begin

lemma run_keeps: "step\<^sup>*\<^sup>* s t \<Longrightarrow> inv s \<Longrightarrow> inv t"
  by (induction rule: rtranclp_induct) (auto dest: step_inv)

lemma run_inv: "initial s \<Longrightarrow> step\<^sup>*\<^sup>* s t \<Longrightarrow> inv t"
  using initial_inv run_keeps by blast

text \<open>A relation between two states that every step respects relates the ends of a run.\<close>

lemma run_mono:
  assumes run: "step\<^sup>*\<^sup>* s t" and "inv s"
    and refl: "\<And>x. R x x" and trans: "\<And>x y z. R x y \<Longrightarrow> R y z \<Longrightarrow> R x z"
    and one: "\<And>x y. inv x \<Longrightarrow> step x y \<Longrightarrow> R x y"
  shows "R s t"
  using run \<open>inv s\<close>
proof (induction rule: rtranclp_induct)
  case base
  show ?case by (rule refl)
next
  case (step y z)
  then show ?case using one run_keeps trans by blast
qed

end

end
