(* ===== verification/Budget_Ledger.thy ===== *)
theory Budget_Ledger
  imports Contracts State_Machine "HOL-Library.List_Lexorder" "HOL-Library.Char_ord" "HOL-Library.Multiset"
begin

text \<open>
  The budget ledger of \<open>src/src/state.rs\<close> (\<open>open_budget\<close>, \<open>budget_reserve\<close>, \<open>budget_charge\<close>,
  \<open>budget_release\<close>, \<open>budget_status\<close>, \<open>budget_reservation\<close>) over its two tables, with the statements
  of \<open>src/src/state/sql/mod.rs\<close> written out. Columns are 64-bit signed integers; \<open>spent + reserved +
  bound\<close> is computed by SQLite, which does not wrap but goes over to a float above every stored limit,
  so the comparison is the one on \<^typ>\<open>int\<close>. A statement that fails or an early return rolls its
  transaction back: the tables are unchanged. Failures of the storage itself are not modelled, apart
  from the primary-key violation that a repeated scope causes.
\<close>

record budget_row =
  limit_units :: int
  spent :: int
  reserved :: int

datatype reservation_state = Reserved | Charged | Released

record reservation_row =
  rr_id :: string
  rr_scope :: string
  rr_bound :: int
  rr_state :: reservation_state
  rr_charged :: "int option"

record ledger =
  budget_scopes_table :: "string \<rightharpoonup> budget_row"
  reservations :: "reservation_row list"

definition ledger_empty :: ledger where
  "ledger_empty = \<lparr>budget_scopes_table = Map.empty, reservations = []\<rparr>"

datatype budget_error =
    BudgetScopeExists string
  | EmptyBudgetScopes
  | BudgetUnitsOutOfRange u64
  | ReservationAlreadyRecorded string
  | PrimaryKeyViolation
  | MissingBudgetScope string
  | BudgetExhaustedAt string nat nat u64 nat
  | MissingReservation string
  | ReservationNotReserved string reservation_state
  | ConfirmedExceedsBound nat nat
  | ChargeReservedBelowBound string nat nat
  | NegativeColumn int

definition budget_units_i64 :: "u64 \<Rightarrow> budget_error + int" where
  "budget_units_i64 units =
     (if uint units < 2 ^ 63 then Inr (uint units) else Inl (BudgetUnitsOutOfRange units))"

definition unsigned :: "int \<Rightarrow> budget_error + nat" where
  "unsigned v = (if v < 0 then Inl (NegativeColumn v) else Inr (nat v))"

definition open_budget :: "string \<Rightarrow> u64 \<Rightarrow> ledger \<Rightarrow> (budget_error + unit) \<times> ledger" where
  "open_budget scope limit l =
     (case budget_units_i64 limit of
        Inl e \<Rightarrow> (Inl e, l)
      | Inr stored \<Rightarrow>
          if budget_scopes_table l scope \<noteq> None then (Inl (BudgetScopeExists scope), l)
          else (Inr (), l\<lparr>budget_scopes_table := (budget_scopes_table l)(scope \<mapsto>
                            \<lparr>limit_units = stored, spent = 0, reserved = 0\<rparr>)\<rparr>))"

definition reserve_denied :: "ledger \<Rightarrow> string \<Rightarrow> u64 \<Rightarrow> budget_error" where
  "reserve_denied l scope bound =
     (case budget_scopes_table l scope of
        None \<Rightarrow> MissingBudgetScope scope
      | Some row \<Rightarrow>
          (case unsigned (spent row) of
             Inl e \<Rightarrow> e
           | Inr sp \<Rightarrow>
               (case unsigned (reserved row) of
                  Inl e \<Rightarrow> e
                | Inr re \<Rightarrow>
                    (case unsigned (limit_units row) of
                       Inl e \<Rightarrow> e
                     | Inr li \<Rightarrow> BudgetExhaustedAt scope sp re bound li))))"

text \<open>
  The loop of \<open>budget_reserve\<close> inside its transaction: the guarded \<open>UPDATE\<close>, then the
  \<open>INSERT\<close> of the reservation's row for that scope.
\<close>

fun reserve_scopes ::
  "string \<Rightarrow> u64 \<Rightarrow> int \<Rightarrow> string list \<Rightarrow> ledger \<Rightarrow> budget_error + ledger" where
  "reserve_scopes rid bound stored [] l = Inr l"
| "reserve_scopes rid bound stored (scope # rest) l =
     (case budget_scopes_table l scope of
        None \<Rightarrow> Inl (reserve_denied l scope bound)
      | Some row \<Rightarrow>
          if \<not> spent row + reserved row + stored \<le> limit_units row
          then Inl (reserve_denied l scope bound)
          else if list_ex (\<lambda>r. rr_id r = rid \<and> rr_scope r = scope) (reservations l)
          then Inl PrimaryKeyViolation
          else
            reserve_scopes rid bound stored rest
              \<lparr>budget_scopes_table = (budget_scopes_table l)(scope \<mapsto> row\<lparr>reserved := reserved row + stored\<rparr>),
               reservations = reservations l @
                 [\<lparr>rr_id = rid, rr_scope = scope, rr_bound = stored, rr_state = Reserved, rr_charged = None\<rparr>]\<rparr>)"

definition budget_reserve ::
  "string \<Rightarrow> string list \<Rightarrow> u64 \<Rightarrow> ledger \<Rightarrow> (budget_error + unit) \<times> ledger" where
  "budget_reserve rid scopes bound l =
     (if scopes = [] then (Inl EmptyBudgetScopes, l)
      else
        (case budget_units_i64 bound of
           Inl e \<Rightarrow> (Inl e, l)
         | Inr stored \<Rightarrow>
             if list_ex (\<lambda>r. rr_id r = rid) (reservations l)
             then (Inl (ReservationAlreadyRecorded rid), l)
             else (case reserve_scopes rid bound stored scopes l of
                     Inl e \<Rightarrow> (Inl e, l)
                   | Inr l' \<Rightarrow> (Inr (), l'))))"

text \<open>\<open>RELEASE_BUDGET_SCOPE\<close> and \<open>CHARGE_BUDGET_SCOPE\<close> with the checks around them.\<close>

definition release_row :: "reservation_row \<Rightarrow> (string \<rightharpoonup> budget_row) \<Rightarrow> (string \<rightharpoonup> budget_row)" where
  "release_row r tab =
     (case tab (rr_scope r) of
        None \<Rightarrow> tab
      | Some row \<Rightarrow> tab(rr_scope r \<mapsto> row\<lparr>reserved := reserved row - rr_bound r\<rparr>))"

definition charge_row ::
  "int option \<Rightarrow> reservation_row \<Rightarrow> (string \<rightharpoonup> budget_row) \<Rightarrow> budget_error + (string \<rightharpoonup> budget_row)" where
  "charge_row confirmed r tab =
     (if (case confirmed of Some delta \<Rightarrow> delta > rr_bound r | None \<Rightarrow> False)
      then Inl (case unsigned (the confirmed) of
                  Inl e \<Rightarrow> e
                | Inr d \<Rightarrow> (case unsigned (rr_bound r) of Inl e \<Rightarrow> e | Inr b \<Rightarrow> ConfirmedExceedsBound d b))
      else
        (let delta = (case confirmed of Some d \<Rightarrow> d | None \<Rightarrow> rr_bound r)
         in case tab (rr_scope r) of
              Some row \<Rightarrow>
                if reserved row \<ge> rr_bound r
                then Inr (tab(rr_scope r \<mapsto>
                       row\<lparr>spent := spent row + delta, reserved := reserved row - rr_bound r\<rparr>))
                else Inl (case unsigned (reserved row) of
                            Inl e \<Rightarrow> e
                          | Inr re \<Rightarrow>
                              (case unsigned (rr_bound r) of
                                 Inl e \<Rightarrow> e | Inr b \<Rightarrow> ChargeReservedBelowBound (rr_scope r) re b))
            | None \<Rightarrow>
                Inl (case unsigned (rr_bound r) of
                       Inl e \<Rightarrow> e | Inr b \<Rightarrow> ChargeReservedBelowBound (rr_scope r) 0 b)))"

text \<open>The loop over the reservation's rows.\<close>

fun resolve_scopes ::
  "int option \<Rightarrow> bool \<Rightarrow> reservation_row list \<Rightarrow> (string \<rightharpoonup> budget_row) \<Rightarrow>
     budget_error + (string \<rightharpoonup> budget_row)" where
  "resolve_scopes confirmed release [] tab = Inr tab"
| "resolve_scopes confirmed release (r # rs) tab =
     (case (if release then Inr (release_row r tab) else charge_row confirmed r tab) of
        Inl e \<Rightarrow> Inl e
      | Inr tab' \<Rightarrow> resolve_scopes confirmed release rs tab')"

definition resolve_reservation_tx ::
  "string \<Rightarrow> reservation_state \<Rightarrow> int option \<Rightarrow> bool \<Rightarrow> ledger \<Rightarrow> budget_error + ledger" where
  "resolve_reservation_tx rid terminal confirmed release l =
     (let rows = sort_key rr_scope (filter (\<lambda>r. rr_id r = rid) (reservations l))
      in if rows = [] then Inl (MissingReservation rid)
         else (case find (\<lambda>r. rr_state r \<noteq> Reserved) rows of
                 Some r \<Rightarrow> Inl (ReservationNotReserved rid (rr_state r))
               | None \<Rightarrow>
                   (case resolve_scopes confirmed release rows (budget_scopes_table l) of
                      Inl e \<Rightarrow> Inl e
                    | Inr tab \<Rightarrow>
                        Inr \<lparr>budget_scopes_table = tab,
                             reservations = map (\<lambda>r. if rr_id r = rid
                               then r\<lparr>rr_state := terminal, rr_charged := confirmed\<rparr> else r) (reservations l)\<rparr>)))"

definition resolve_reservation ::
  "string \<Rightarrow> reservation_state \<Rightarrow> int option \<Rightarrow> bool \<Rightarrow> ledger \<Rightarrow> (budget_error + unit) \<times> ledger" where
  "resolve_reservation rid terminal confirmed release l =
     (case resolve_reservation_tx rid terminal confirmed release l of
        Inl e \<Rightarrow> (Inl e, l)
      | Inr l' \<Rightarrow> (Inr (), l'))"

definition budget_charge :: "string \<Rightarrow> u64 option \<Rightarrow> ledger \<Rightarrow> (budget_error + unit) \<times> ledger" where
  "budget_charge rid confirmed l =
     (case (case confirmed of
              None \<Rightarrow> Inr None
            | Some c \<Rightarrow> (case budget_units_i64 c of Inl e \<Rightarrow> Inl e | Inr v \<Rightarrow> Inr (Some v))) of
        Inl e \<Rightarrow> (Inl e, l)
      | Inr stored \<Rightarrow> resolve_reservation rid Charged stored False l)"

definition budget_release :: "string \<Rightarrow> ledger \<Rightarrow> (budget_error + unit) \<times> ledger" where
  "budget_release rid l = resolve_reservation rid Released None True l"

record budget_status =
  bs_limit_units :: nat
  bs_spent :: nat
  bs_reserved :: nat

definition budget_status_of :: "ledger \<Rightarrow> string \<Rightarrow> budget_error + budget_status" where
  "budget_status_of l scope =
     (case budget_scopes_table l scope of
        None \<Rightarrow> Inl (MissingBudgetScope scope)
      | Some row \<Rightarrow>
          (case unsigned (limit_units row) of
             Inl e \<Rightarrow> Inl e
           | Inr li \<Rightarrow>
               (case unsigned (spent row) of
                  Inl e \<Rightarrow> Inl e
                | Inr sp \<Rightarrow>
                    (case unsigned (reserved row) of
                       Inl e \<Rightarrow> Inl e
                     | Inr re \<Rightarrow> Inr \<lparr>bs_limit_units = li, bs_spent = sp, bs_reserved = re\<rparr>))))"

record budget_reservation =
  br_state :: reservation_state
  br_bound :: nat
  br_charged :: "nat option"

definition budget_reservation_of :: "ledger \<Rightarrow> string \<Rightarrow> budget_error + budget_reservation" where
  "budget_reservation_of l rid =
     (case find (\<lambda>r. rr_id r = rid) (reservations l) of
        None \<Rightarrow> Inl (MissingReservation rid)
      | Some r \<Rightarrow>
          (case unsigned (rr_bound r) of
             Inl e \<Rightarrow> Inl e
           | Inr b \<Rightarrow>
               (case rr_charged r of
                  None \<Rightarrow> Inr \<lparr>br_state = rr_state r, br_bound = b, br_charged = None\<rparr>
                | Some c \<Rightarrow>
                    (case unsigned c of
                       Inl e \<Rightarrow> Inl e
                     | Inr c' \<Rightarrow> Inr \<lparr>br_state = rr_state r, br_bound = b, br_charged = Some c'\<rparr>))))"

subsection \<open>Invariant\<close>

definition held :: "reservation_row list \<Rightarrow> string \<Rightarrow> int" where
  "held rows scope = (\<Sum>r\<leftarrow>rows. if rr_scope r = scope \<and> rr_state r = Reserved then rr_bound r else 0)"

definition settled :: "reservation_row list \<Rightarrow> string \<Rightarrow> int" where
  "settled rows scope =
     (\<Sum>r\<leftarrow>rows. if rr_scope r = scope \<and> rr_state r = Charged
        then (case rr_charged r of Some d \<Rightarrow> d | None \<Rightarrow> rr_bound r) else 0)"

definition row_ok :: "ledger \<Rightarrow> reservation_row \<Rightarrow> bool" where
  "row_ok l r \<longleftrightarrow> 0 \<le> rr_bound r \<and> (\<forall>d. rr_charged r = Some d \<longrightarrow> 0 \<le> d) \<and>
     budget_scopes_table l (rr_scope r) \<noteq> None"

definition scope_ok :: "reservation_row list \<Rightarrow> string \<Rightarrow> budget_row \<Rightarrow> bool" where
  "scope_ok rows scope row \<longleftrightarrow>
     spent row = settled rows scope \<and> reserved row = held rows scope \<and>
     spent row + reserved row \<le> limit_units row \<and> limit_units row < 2 ^ 63"

text \<open>
  The invariant: both counters of a scope are the sums over the reservation rows they summarise, and
  together they fit the limit.
\<close>

definition budget_inv :: "ledger \<Rightarrow> bool" where
  "budget_inv l \<longleftrightarrow>
     (\<forall>r\<in>set (reservations l). row_ok l r) \<and>
     (\<forall>scope row. budget_scopes_table l scope = Some row \<longrightarrow> scope_ok (reservations l) scope row)"

lemma held_append: "held (a @ b) scope = held a scope + held b scope"
  by (simp add: held_def)

lemma settled_append: "settled (a @ b) scope = settled a scope + settled b scope"
  by (simp add: settled_def)

lemma held_nonneg: "\<forall>r\<in>set rows. 0 \<le> rr_bound r \<Longrightarrow> 0 \<le> held rows scope"
  by (induction rows) (auto simp: held_def)

lemma settled_nonneg:
  "\<forall>r\<in>set rows. 0 \<le> rr_bound r \<and> (\<forall>d. rr_charged r = Some d \<longrightarrow> 0 \<le> d) \<Longrightarrow> 0 \<le> settled rows scope"
  by (induction rows) (auto simp: settled_def split: option.splits)

lemma held_none: "\<forall>r\<in>set rows. rr_scope r \<noteq> scope \<Longrightarrow> held rows scope = 0 \<and> settled rows scope = 0"
  by (induction rows) (auto simp: held_def settled_def)

lemma budget_invD:
  assumes "budget_inv l"
  shows "r \<in> set (reservations l) \<Longrightarrow> row_ok l r"
    and "budget_scopes_table l scope = Some row \<Longrightarrow> scope_ok (reservations l) scope row"
    and "0 \<le> held (reservations l) scope"
    and "0 \<le> settled (reservations l) scope"
proof -
  show "r \<in> set (reservations l) \<Longrightarrow> row_ok l r"
    and "budget_scopes_table l scope = Some row \<Longrightarrow> scope_ok (reservations l) scope row"
    using assms unfolding budget_inv_def by blast+
  have "\<forall>r\<in>set (reservations l). row_ok l r" using assms unfolding budget_inv_def by blast
  then show "0 \<le> held (reservations l) scope" "0 \<le> settled (reservations l) scope"
    unfolding row_ok_def by (blast intro: held_nonneg settled_nonneg)+
qed

lemma budget_invI:
  assumes "\<And>r. r \<in> set (reservations l) \<Longrightarrow> row_ok l r"
    and "\<And>scope row. budget_scopes_table l scope = Some row \<Longrightarrow> scope_ok (reservations l) scope row"
  shows "budget_inv l"
  using assms unfolding budget_inv_def by blast

lemma budget_units_i64_range: "budget_units_i64 u = Inr v \<Longrightarrow> 0 \<le> v \<and> v < 2 ^ 63 \<and> v = uint u"
  by (auto simp: budget_units_i64_def split: if_splits)

lemma empty_inv: "budget_inv ledger_empty"
  by (simp add: budget_inv_def ledger_empty_def)

lemma open_budget_inv:
  assumes inv: "budget_inv l"
  shows "budget_inv (snd (open_budget scope limit l))"
proof (cases "isl (budget_units_i64 limit) \<or> budget_scopes_table l scope \<noteq> None")
  case True
  then show ?thesis using inv by (auto simp: open_budget_def isl_def split: sum.splits)
next
  case False
  then obtain v where v: "budget_units_i64 limit = Inr v" and new: "budget_scopes_table l scope = None"
    by (auto simp: isl_def split: sum.splits) (metis sum.exhaust)
  let ?row = "\<lparr>limit_units = v, spent = 0, reserved = 0\<rparr>"
  have post: "snd (open_budget scope limit l) =
      l\<lparr>budget_scopes_table := (budget_scopes_table l)(scope \<mapsto> ?row)\<rparr>" (is "_ = ?m")
    using v new by (simp add: open_budget_def)
  have "held (reservations l) scope = 0 \<and> settled (reservations l) scope = 0"
    using budget_invD(1)[OF inv] new unfolding row_ok_def by (intro held_none) metis
  then have "scope_ok (reservations l) scope ?row"
    using budget_units_i64_range[OF v] by (simp add: scope_ok_def)
  then show ?thesis
    unfolding post using budget_invD(1,2)[OF inv] by (intro budget_invI) (auto simp: row_ok_def split: if_splits)
qed

lemma reserve_scopes_inv:
  "budget_inv l \<Longrightarrow> 0 \<le> stored \<Longrightarrow> reserve_scopes rid bound stored scopes l = Inr l' \<Longrightarrow> budget_inv l'"
proof (induction scopes arbitrary: l)
  case Nil
  then show ?case by simp
next
  case (Cons scope rest)
  obtain row where row: "budget_scopes_table l scope = Some row" "spent row + reserved row + stored \<le> limit_units row"
    using Cons.prems(3) by (auto split: option.splits if_splits)
  let ?r = "\<lparr>rr_id = rid, rr_scope = scope, rr_bound = stored, rr_state = Reserved, rr_charged = None\<rparr>"
  let ?m = "\<lparr>budget_scopes_table = (budget_scopes_table l)(scope \<mapsto> row\<lparr>reserved := reserved row + stored\<rparr>),
      reservations = reservations l @ [?r]\<rparr>"
  have one: "held [?r] s = (if s = scope then stored else 0)" "settled [?r] s = 0" for s
    by (simp_all add: held_def settled_def)
  have "budget_inv ?m"
  proof (rule budget_invI)
    fix s row' assume "budget_scopes_table ?m s = Some row'"
    then show "scope_ok (reservations ?m) s row'"
      using budget_invD(2)[OF Cons.prems(1), of s] row one[of s]
      by (auto simp: scope_ok_def held_append settled_append split: if_splits)
  next
    fix r assume "r \<in> set (reservations ?m)"
    then show "row_ok ?m r"
      using budget_invD(1)[OF Cons.prems(1), of r] Cons.prems(2) by (auto simp: row_ok_def)
  qed
  moreover have "reserve_scopes rid bound stored rest ?m = Inr l'"
    using Cons.prems(3) row by (auto split: if_splits)
  ultimately show ?case using Cons.IH Cons.prems(2) by blast
qed

lemma budget_reserve_inv:
  assumes "budget_inv l"
  shows "budget_inv (snd (budget_reserve rid scopes bound l))"
proof -
  have "budget_inv l'" if "budget_units_i64 bound = Inr v" "reserve_scopes rid bound v scopes l = Inr l'" for v l'
    using reserve_scopes_inv[OF assms _ that(2)] budget_units_i64_range[OF that(1)] by blast
  then show ?thesis using assms by (auto simp: budget_reserve_def split: sum.splits)
qed

subsection \<open>Resolution\<close>

text \<open>What the rows of one reservation hold at a scope, and what resolving them spends there.\<close>

definition due :: "reservation_row list \<Rightarrow> string \<Rightarrow> int" where
  "due rows scope = (\<Sum>r\<leftarrow>rows. if rr_scope r = scope then rr_bound r else 0)"

definition cost :: "int option \<Rightarrow> bool \<Rightarrow> reservation_row list \<Rightarrow> string \<Rightarrow> int" where
  "cost confirmed release rows scope =
     (\<Sum>r\<leftarrow>rows. if rr_scope r = scope \<and> \<not> release
        then (case confirmed of Some d \<Rightarrow> d | None \<Rightarrow> rr_bound r) else 0)"

lemma due_simps [simp]:
  "due [] scope = 0"
  "due (r # rows) scope = (if rr_scope r = scope then rr_bound r else 0) + due rows scope"
  by (simp_all add: due_def)

lemma cost_simps [simp]:
  "cost confirmed release [] scope = 0"
  "cost confirmed release (r # rows) scope =
     (if rr_scope r = scope \<and> \<not> release then (case confirmed of Some d \<Rightarrow> d | None \<Rightarrow> rr_bound r) else 0) +
     cost confirmed release rows scope"
  by (simp_all add: cost_def)

lemma sum_list_sort_key: "sum_list (map f (sort_key k xs)) = (sum_list (map f xs) :: int)"
  by (metis mset_map mset_sort sum_mset_sum_list)

lemma due_sort [simp]: "due (sort_key k rows) scope = due rows scope"
  by (simp add: due_def sum_list_sort_key)

lemma cost_sort [simp]: "cost confirmed release (sort_key k rows) scope = cost confirmed release rows scope"
  by (simp add: cost_def sum_list_sort_key)

lemma due_nonneg: "\<forall>r\<in>set rows. 0 \<le> rr_bound r \<Longrightarrow> 0 \<le> due rows scope"
  by (induction rows) auto

text \<open>The exact effect of the loop: every scope's row moves by its totals.\<close>

definition settle_row :: "int \<Rightarrow> int \<Rightarrow> budget_row \<Rightarrow> budget_row" where
  "settle_row c d row = row\<lparr>spent := spent row + c, reserved := reserved row - d\<rparr>"

lemma settle_row_sel [simp]:
  "spent (settle_row c d row) = spent row + c"
  "reserved (settle_row c d row) = reserved row - d"
  "limit_units (settle_row c d row) = limit_units row"
  "settle_row c d (settle_row c' d' row) = settle_row (c' + c) (d' + d) row"
  "settle_row 0 0 row = row"
  by (simp_all add: settle_row_def)

lemma map_option_settle_row [simp]: "map_option (settle_row 0 0) x = x"
  by (cases x) simp_all

lemma release_row_effect:
  "release_row r tab = (\<lambda>s. map_option (settle_row 0 (if rr_scope r = s then rr_bound r else 0)) (tab s))"
  by (rule ext) (simp add: release_row_def settle_row_def option.map_ident split: option.splits)

lemma charge_row_effect:
  assumes "charge_row confirmed r tab = Inr tab'"
  shows "tab' = (\<lambda>s. map_option (settle_row
           (if rr_scope r = s then (case confirmed of Some d \<Rightarrow> d | None \<Rightarrow> rr_bound r) else 0)
           (if rr_scope r = s then rr_bound r else 0)) (tab s))"
    and "(case confirmed of Some d \<Rightarrow> d | None \<Rightarrow> rr_bound r) \<le> rr_bound r"
  using assms
  by (auto simp: charge_row_def settle_row_def[of _ "rr_bound r"] Let_def intro!: ext
      split: option.splits if_splits sum.splits)

definition resolve_row ::
  "int option \<Rightarrow> bool \<Rightarrow> reservation_row \<Rightarrow> (string \<rightharpoonup> budget_row) \<Rightarrow> budget_error + (string \<rightharpoonup> budget_row)" where
  "resolve_row confirmed release r tab = (if release then Inr (release_row r tab) else charge_row confirmed r tab)"

lemma resolve_scopes_Cons:
  "resolve_scopes confirmed release (r # rs) tab =
     (case resolve_row confirmed release r tab of
        Inl e \<Rightarrow> Inl e | Inr tab' \<Rightarrow> resolve_scopes confirmed release rs tab')"
  by (simp add: resolve_row_def)

lemma resolve_row_effect:
  assumes "resolve_row confirmed release r tab = Inr t"
  shows "t s = map_option (settle_row (cost confirmed release [r] s) (due [r] s)) (tab s)"
    and "0 \<le> rr_bound r \<Longrightarrow> cost confirmed release [r] s \<le> due [r] s"
proof -
  show "t s = map_option (settle_row (cost confirmed release [r] s) (due [r] s)) (tab s)"
  proof (cases release)
    case True
    then have "t = release_row r tab" using assms by (simp add: resolve_row_def)
    then show ?thesis using True by (simp add: release_row_effect)
  next
    case False
    then have "charge_row confirmed r tab = Inr t" using assms by (simp add: resolve_row_def)
    from charge_row_effect(1)[OF this] show ?thesis using False by simp
  qed
  show "0 \<le> rr_bound r \<Longrightarrow> cost confirmed release [r] s \<le> due [r] s"
    using assms charge_row_effect(2)[of confirmed r tab t] by (auto simp: resolve_row_def split: if_splits)
qed

lemma resolve_scopes_effect:
  "resolve_scopes confirmed release rows tab = Inr tab' \<Longrightarrow> \<forall>r\<in>set rows. 0 \<le> rr_bound r \<Longrightarrow>
     tab' s = map_option (settle_row (cost confirmed release rows s) (due rows s)) (tab s) \<and>
     cost confirmed release rows s \<le> due rows s"
proof (induction rows arbitrary: tab)
  case Nil
  then show ?case by (cases "tab s") simp_all
next
  case (Cons r rows)
  then obtain t where t: "resolve_row confirmed release r tab = Inr t"
    "resolve_scopes confirmed release rows t = Inr tab'"
    unfolding resolve_scopes_Cons by (auto split: sum.splits)
  have "t s = map_option (settle_row (cost confirmed release [r] s) (due [r] s)) (tab s)"
    "cost confirmed release [r] s \<le> due [r] s"
    using resolve_row_effect[OF t(1)] Cons.prems(2) by simp_all
  moreover have "tab' s = map_option (settle_row (cost confirmed release rows s) (due rows s)) (t s)"
    "cost confirmed release rows s \<le> due rows s"
    using Cons.IH[OF t(2)] Cons.prems(2) by simp_all
  ultimately show ?case by (cases "tab s") (simp_all add: ac_simps)
qed

lemma resolve_row_total:
  assumes "tab (rr_scope r) = Some row" "rr_bound r \<le> reserved row"
    and "release \<or> (case confirmed of Some d \<Rightarrow> d \<le> rr_bound r | None \<Rightarrow> True)"
  shows "\<exists>t. resolve_row confirmed release r tab = Inr t"
  using assms by (cases confirmed) (auto simp: resolve_row_def charge_row_def)

lemma resolve_scopes_total:
  assumes "\<forall>r\<in>set rows. 0 \<le> rr_bound r \<and> tab (rr_scope r) \<noteq> None \<and>
             (release \<or> (case confirmed of Some d \<Rightarrow> d \<le> rr_bound r | None \<Rightarrow> True))"
    and "\<And>s row. tab s = Some row \<Longrightarrow> due rows s \<le> reserved row"
  shows "\<exists>tab'. resolve_scopes confirmed release rows tab = Inr tab'"
  using assms
proof (induction rows arbitrary: tab)
  case (Cons r rows)
  obtain row where row: "tab (rr_scope r) = Some row" using Cons.prems(1) by auto
  have "0 \<le> due rows (rr_scope r)" using Cons.prems(1) by (intro due_nonneg) simp
  then have "rr_bound r \<le> reserved row" using Cons.prems(2)[OF row] by simp
  then obtain t where t: "resolve_row confirmed release r tab = Inr t"
    using resolve_row_total[of tab r row, OF row] Cons.prems(1) by (metis list.set_intros(1))
  note eff = resolve_row_effect(1)[OF t]
  have "\<exists>tab'. resolve_scopes confirmed release rows t = Inr tab'"
  proof (rule Cons.IH)
    show "\<forall>r\<in>set rows. 0 \<le> rr_bound r \<and> t (rr_scope r) \<noteq> None \<and>
             (release \<or> (case confirmed of Some d \<Rightarrow> d \<le> rr_bound r | None \<Rightarrow> True))"
      using Cons.prems(1) by (simp add: eff)
    fix s row' assume "t s = Some row'"
    then obtain row0 where "tab s = Some row0" "row' = settle_row (cost confirmed release [r] s) (due [r] s) row0"
      by (auto simp: eff)
    then show "due rows s \<le> reserved row'" using Cons.prems(2)[of s row0] by simp
  qed
  then show ?case unfolding resolve_scopes_Cons by (simp add: t)
qed simp

text \<open>Rewriting the rows of one reservation moves its held units into the settled ones.\<close>

definition close_row :: "string \<Rightarrow> reservation_state \<Rightarrow> int option \<Rightarrow> reservation_row \<Rightarrow> reservation_row" where
  "close_row rid terminal confirmed r =
     (if rr_id r = rid then r\<lparr>rr_state := terminal, rr_charged := confirmed\<rparr> else r)"

lemma close_rows_sums:
  assumes "\<forall>r\<in>set rows. rr_id r = rid \<longrightarrow> rr_state r = Reserved"
    and "terminal = (if release then Released else Charged)"
  shows "held (map (close_row rid terminal confirmed) rows) s =
           held rows s - due (filter (\<lambda>r. rr_id r = rid) rows) s"
    and "settled (map (close_row rid terminal confirmed) rows) s =
           settled rows s + cost confirmed release (filter (\<lambda>r. rr_id r = rid) rows) s"
  using assms by (induction rows) (auto simp: held_def settled_def close_row_def split: option.splits)

lemma due_le_held:
  assumes "\<forall>r\<in>set rows. rr_id r = rid \<longrightarrow> rr_state r = Reserved" "\<forall>r\<in>set rows. 0 \<le> rr_bound r"
  shows "due (filter (\<lambda>r. rr_id r = rid) rows) s \<le> held rows s"
  using assms by (induction rows) (auto simp: held_def)

lemma resolve_reservation_tx_Inr:
  assumes ok: "resolve_reservation_tx rid terminal confirmed release l = Inr l'" and inv: "budget_inv l"
    and terminal: "terminal = (if release then Released else Charged)"
  defines "mine \<equiv> filter (\<lambda>r. rr_id r = rid) (reservations l)"
  shows "mine \<noteq> []"
    and "\<forall>r\<in>set (reservations l). rr_id r = rid \<longrightarrow> rr_state r = Reserved"
    and "reservations l' = map (close_row rid terminal confirmed) (reservations l)"
    and "budget_scopes_table l' s =
           map_option (settle_row (cost confirmed release mine s) (due mine s)) (budget_scopes_table l s)"
    and "cost confirmed release mine s \<le> due mine s"
proof -
  let ?rows = "sort_key rr_scope mine"
  have rows: "?rows \<noteq> []" "find (\<lambda>r. rr_state r \<noteq> Reserved) ?rows = None"
    using ok by (auto simp: resolve_reservation_tx_def Let_def mine_def split: if_splits option.splits)
  then show "mine \<noteq> []" by auto
  show all: "\<forall>r\<in>set (reservations l). rr_id r = rid \<longrightarrow> rr_state r = Reserved"
    using rows(2) by (auto simp: find_None_iff mine_def)
  obtain tab where tab: "resolve_scopes confirmed release ?rows (budget_scopes_table l) = Inr tab"
    and l': "l' = \<lparr>budget_scopes_table = tab, reservations = map (close_row rid terminal confirmed) (reservations l)\<rparr>"
    using ok rows unfolding resolve_reservation_tx_def Let_def mine_def[symmetric] close_row_def
    by (auto split: sum.splits)
  then show "reservations l' = map (close_row rid terminal confirmed) (reservations l)" by simp
  have "\<forall>r\<in>set ?rows. 0 \<le> rr_bound r" using budget_invD(1)[OF inv] by (auto simp: mine_def row_ok_def)
  from resolve_scopes_effect[OF tab this, of s]
  show "budget_scopes_table l' s =
      map_option (settle_row (cost confirmed release mine s) (due mine s)) (budget_scopes_table l s)"
    and "cost confirmed release mine s \<le> due mine s"
    by (simp_all add: l')
qed

lemma resolve_tx_inv:
  assumes ok: "resolve_reservation_tx rid terminal confirmed release l = Inr l'" and inv: "budget_inv l"
    and terminal: "terminal = (if release then Released else Charged)"
    and confirmed: "\<forall>d. confirmed = Some d \<longrightarrow> 0 \<le> d"
  shows "budget_inv l'"
proof (rule budget_invI)
  note eff = resolve_reservation_tx_Inr[OF ok inv terminal]
  note sums = close_rows_sums[OF eff(2) terminal, of confirmed]
  fix r assume "r \<in> set (reservations l')"
  then obtain r0 where r0: "r0 \<in> set (reservations l)" "r = close_row rid terminal confirmed r0"
    unfolding eff(3) by auto
  then show "row_ok l' r"
    using budget_invD(1)[OF inv r0(1)] confirmed by (auto simp: row_ok_def close_row_def eff(4))
next
  note eff = resolve_reservation_tx_Inr[OF ok inv terminal]
  note sums = close_rows_sums[OF eff(2) terminal, of confirmed]
  fix s row assume "budget_scopes_table l' s = Some row"
  then obtain row0 where row0: "budget_scopes_table l s = Some row0"
    and row: "row = settle_row (cost confirmed release (filter (\<lambda>r. rr_id r = rid) (reservations l)) s)
                (due (filter (\<lambda>r. rr_id r = rid) (reservations l)) s) row0"
    unfolding eff(4) by auto
  show "scope_ok (reservations l') s row"
    using budget_invD(2)[OF inv row0] eff(5)[of s] unfolding row eff(3) scope_ok_def sums by simp
qed

lemma resolve_reservation_inv:
  assumes "budget_inv l" "terminal = (if release then Released else Charged)" "\<forall>d. confirmed = Some d \<longrightarrow> 0 \<le> d"
  shows "budget_inv (snd (resolve_reservation rid terminal confirmed release l))"
  using resolve_tx_inv[OF _ assms] assms(1)
  by (auto simp: resolve_reservation_def split: sum.splits)

lemma budget_charge_inv: "budget_inv l \<Longrightarrow> budget_inv (snd (budget_charge rid confirmed l))"
  using budget_units_i64_range resolve_reservation_inv[of l Charged False _ rid]
  by (fastforce simp: budget_charge_def split: option.splits sum.splits)

lemma budget_release_inv: "budget_inv l \<Longrightarrow> budget_inv (snd (budget_release rid l))"
  using resolve_reservation_inv[of l Released True None rid] by (simp add: budget_release_def)

subsection \<open>Steps\<close>

inductive budget_step :: "ledger \<Rightarrow> ledger \<Rightarrow> bool" where
  step_open: "budget_step l (snd (open_budget scope limit l))"
| step_reserve: "budget_step l (snd (budget_reserve rid scopes bound l))"
| step_charge: "budget_step l (snd (budget_charge rid confirmed l))"
| step_release: "budget_step l (snd (budget_release rid l))"

lemma budget_step_inv: "budget_step l l' \<Longrightarrow> budget_inv l \<Longrightarrow> budget_inv l'"
  by (erule budget_step.cases)
    (simp_all add: open_budget_inv budget_reserve_inv budget_charge_inv budget_release_inv)

interpretation lg: state_machine "\<lambda>l. l = ledger_empty" budget_step budget_inv
  by unfold_locales (simp_all add: empty_inv budget_step_inv)

end
