(* ===== verification/Budget_Theorems.thy ===== *)
theory Budget_Theorems
  imports Budget_Ledger
begin

text \<open>
  What the budget ledger promises: its two counters refine a journal that keeps no counters, a
  reservation is all or nothing, it resolves exactly once, and no scope is ever overspent.
\<close>

subsection \<open>Effect of a reservation\<close>

definition fits :: "ledger \<Rightarrow> int \<Rightarrow> string \<Rightarrow> bool" where
  "fits l stored scope =
     (case budget_scopes_table l scope of
        None \<Rightarrow> False | Some row \<Rightarrow> spent row + reserved row + stored \<le> limit_units row)"

definition fresh_row :: "string \<Rightarrow> int \<Rightarrow> string \<Rightarrow> reservation_row" where
  "fresh_row rid stored scope =
     \<lparr>rr_id = rid, rr_scope = scope, rr_bound = stored, rr_state = Reserved, rr_charged = None\<rparr>"

lemma fresh_row_sel [simp]:
  "rr_id (fresh_row rid stored scope) = rid" "rr_scope (fresh_row rid stored scope) = scope"
  "rr_bound (fresh_row rid stored scope) = stored" "rr_state (fresh_row rid stored scope) = Reserved"
  "rr_charged (fresh_row rid stored scope) = None"
  by (simp_all add: fresh_row_def)

definition recorded :: "string \<Rightarrow> ledger \<Rightarrow> string \<Rightarrow> bool" where
  "recorded rid l scope \<longleftrightarrow> (\<exists>r\<in>set (reservations l). rr_id r = rid \<and> rr_scope r = scope)"

text \<open>One turn of the loop.\<close>

definition reserve_one :: "string \<Rightarrow> int \<Rightarrow> string \<Rightarrow> ledger \<Rightarrow> ledger" where
  "reserve_one rid stored scope l =
     \<lparr>budget_scopes_table = (budget_scopes_table l)(scope :=
        map_option (settle_row 0 (- stored)) (budget_scopes_table l scope)),
      reservations = reservations l @ [fresh_row rid stored scope]\<rparr>"

lemma reserve_one_sel [simp]:
  "budget_scopes_table (reserve_one rid stored scope l) s =
     (if s = scope then map_option (settle_row 0 (- stored)) (budget_scopes_table l s) else budget_scopes_table l s)"
  "reservations (reserve_one rid stored scope l) = reservations l @ [fresh_row rid stored scope]"
  "recorded rid (reserve_one rid stored scope l) s \<longleftrightarrow> s = scope \<or> recorded rid l s"
  "s \<noteq> scope \<Longrightarrow> fits (reserve_one rid stored scope l) stored s = fits l stored s"
  by (auto simp: reserve_one_def recorded_def fits_def)

lemma reserve_one_eq:
  "budget_scopes_table l scope = Some row \<Longrightarrow> reserve_one rid stored scope l =
     \<lparr>budget_scopes_table = (budget_scopes_table l)(scope \<mapsto> row\<lparr>reserved := reserved row + stored\<rparr>),
      reservations = reservations l @
        [\<lparr>rr_id = rid, rr_scope = scope, rr_bound = stored, rr_state = Reserved, rr_charged = None\<rparr>]\<rparr>"
  by (simp add: reserve_one_def fresh_row_def settle_row_def)

lemma reserve_scopes_Cons:
  "reserve_scopes rid bound stored (scope # rest) l =
     (if \<not> fits l stored scope then Inl (reserve_denied l scope bound)
      else if recorded rid l scope then Inl PrimaryKeyViolation
      else reserve_scopes rid bound stored rest (reserve_one rid stored scope l))"
  by (auto simp: fits_def recorded_def list_ex_iff reserve_one_eq split: option.splits)

lemmas reserve_scopes_rules = reserve_scopes.simps(1) reserve_scopes_Cons

declare reserve_scopes.simps(2) [simp del]

lemma reserve_scopes_succeeds:
  "(\<exists>l'. reserve_scopes rid bound stored scopes l = Inr l') \<longleftrightarrow>
     distinct scopes \<and> (\<forall>s\<in>set scopes. fits l stored s \<and> \<not> recorded rid l s)"
proof (induction scopes arbitrary: l)
  case (Cons scope rest)
  show ?case
  proof (cases "fits l stored scope \<and> \<not> recorded rid l scope")
    case True
    then have "(\<exists>l'. reserve_scopes rid bound stored (scope # rest) l = Inr l') \<longleftrightarrow> distinct rest \<and>
        (\<forall>s\<in>set rest. fits (reserve_one rid stored scope l) stored s \<and>
           \<not> recorded rid (reserve_one rid stored scope l) s)"
      by (simp add: reserve_scopes_rules Cons.IH)
    moreover have "scope \<notin> set rest \<Longrightarrow> s \<in> set rest \<Longrightarrow>
        fits (reserve_one rid stored scope l) stored s = fits l stored s" for s
      by (rule reserve_one_sel(4)) auto
    ultimately show ?thesis using True by auto
  qed (auto simp: reserve_scopes_rules)
qed simp

lemma reserve_scopes_effect:
  "reserve_scopes rid bound stored scopes l = Inr l' \<Longrightarrow>
     reservations l' = reservations l @ map (fresh_row rid stored) scopes \<and>
     budget_scopes_table l' s =
       (if s \<in> set scopes then map_option (settle_row 0 (- stored)) (budget_scopes_table l s)
        else budget_scopes_table l s)"
proof (induction scopes arbitrary: l)
  case (Cons scope rest)
  then have "reserve_scopes rid bound stored rest (reserve_one rid stored scope l) = Inr l'"
    by (auto simp: reserve_scopes_rules split: if_splits)
  from Cons.IH[OF this] show ?case
    using reserve_scopes_succeeds[of rid bound stored "scope # rest" l] Cons.prems by auto
qed simp

lemma budget_reserve_Inr:
  "fst (budget_reserve rid scopes bound l) = Inr () \<longleftrightarrow>
     scopes \<noteq> [] \<and> uint bound < 2 ^ 63 \<and> (\<forall>r\<in>set (reservations l). rr_id r \<noteq> rid) \<and>
     distinct scopes \<and> (\<forall>s\<in>set scopes. fits l (uint bound) s)"
  (is "?ok \<longleftrightarrow> ?cond")
proof -
  have unrecorded: "(\<forall>r\<in>set (reservations l). rr_id r \<noteq> rid) \<Longrightarrow> \<not> recorded rid l s" for s
    by (auto simp: recorded_def)
  have "?ok \<longleftrightarrow> scopes \<noteq> [] \<and> uint bound < 2 ^ 63 \<and> (\<forall>r\<in>set (reservations l). rr_id r \<noteq> rid) \<and>
     (\<exists>l'. reserve_scopes rid bound (uint bound) scopes l = Inr l')"
    by (auto simp: budget_reserve_def budget_units_i64_def list_ex_iff split: sum.splits)
  then show ?thesis using reserve_scopes_succeeds[of rid bound "uint bound" scopes l] unrecorded by blast
qed

lemma budget_reserve_effect:
  assumes "fst (budget_reserve rid scopes bound l) = Inr ()"
  shows "reservations (snd (budget_reserve rid scopes bound l)) =
           reservations l @ map (fresh_row rid (uint bound)) scopes"
    and "budget_scopes_table (snd (budget_reserve rid scopes bound l)) s =
       (if s \<in> set scopes then map_option (settle_row 0 (- uint bound)) (budget_scopes_table l s)
        else budget_scopes_table l s)"
proof -
  obtain l' where l': "reserve_scopes rid bound (uint bound) scopes l = Inr l'"
    "budget_reserve rid scopes bound l = (Inr (), l')"
    using assms by (auto simp: budget_reserve_def budget_units_i64_def split: sum.splits if_splits)
  show "reservations (snd (budget_reserve rid scopes bound l)) =
           reservations l @ map (fresh_row rid (uint bound)) scopes"
    and "budget_scopes_table (snd (budget_reserve rid scopes bound l)) s =
       (if s \<in> set scopes then map_option (settle_row 0 (- uint bound)) (budget_scopes_table l s)
        else budget_scopes_table l s)"
    using reserve_scopes_effect[OF l'(1)] l'(2) by simp_all
qed

lemma refused_unchanged:
  "isl (fst (budget_reserve rid scopes bound l)) \<Longrightarrow> snd (budget_reserve rid scopes bound l) = l"
  "isl (fst (resolve_reservation rid terminal confirmed release l)) \<Longrightarrow>
     snd (resolve_reservation rid terminal confirmed release l) = l"
  by (auto simp: budget_reserve_def resolve_reservation_def split: sum.splits if_splits)

subsection \<open>When a resolution succeeds\<close>

definition resolvable :: "reservation_row list \<Rightarrow> string \<Rightarrow> int option \<Rightarrow> bool" where
  "resolvable rows rid confirmed \<longleftrightarrow>
     (\<exists>r\<in>set rows. rr_id r = rid) \<and>
     (\<forall>r\<in>set rows. rr_id r = rid \<longrightarrow> rr_state r = Reserved \<and>
        (case confirmed of Some d \<Rightarrow> d \<le> rr_bound r | None \<Rightarrow> True))"

lemma resolvable_filter:
  "resolvable rows rid confirmed \<longleftrightarrow> filter (\<lambda>r. rr_id r = rid) rows \<noteq> [] \<and>
     (\<forall>r\<in>set (filter (\<lambda>r. rr_id r = rid) rows). rr_state r = Reserved \<and>
        (case confirmed of Some d \<Rightarrow> d \<le> rr_bound r | None \<Rightarrow> True))"
  by (auto simp: resolvable_def filter_empty_conv)

lemma resolve_scopes_confirmed:
  "resolve_scopes confirmed False rows tab = Inr tab' \<Longrightarrow>
     \<forall>r\<in>set rows. (case confirmed of Some d \<Rightarrow> d \<le> rr_bound r | None \<Rightarrow> True)"
  by (induction rows arbitrary: tab) (auto simp: charge_row_def split: sum.splits option.splits if_splits)

lemma resolve_tx_succeeds:
  assumes inv: "budget_inv l" and "release \<Longrightarrow> confirmed = None"
  shows "(\<exists>l'. resolve_reservation_tx rid terminal confirmed release l = Inr l') \<longleftrightarrow>
     resolvable (reservations l) rid confirmed" (is "?ok \<longleftrightarrow> ?cond")
proof -
  let ?mine = "filter (\<lambda>r. rr_id r = rid) (reservations l)"
  let ?rows = "sort_key rr_scope ?mine"
  have ok: "?ok \<longleftrightarrow> ?mine \<noteq> [] \<and> (\<forall>r\<in>set ?mine. rr_state r = Reserved) \<and>
      (\<exists>tab. resolve_scopes confirmed release ?rows (budget_scopes_table l) = Inr tab)"
  proof -
    have nil: "?rows = [] \<longleftrightarrow> ?mine = []" by (metis length_0_conv length_sort)
    have "find (\<lambda>r. rr_state r \<noteq> Reserved) ?rows = None \<longleftrightarrow> (\<forall>r\<in>set ?mine. rr_state r = Reserved)"
      by (auto simp: find_None_iff)
    then show ?thesis
      unfolding resolve_reservation_tx_def Let_def nil
      by (cases "find (\<lambda>r. rr_state r \<noteq> Reserved) ?rows") (auto split: sum.splits)
  qed
  have "\<exists>tab. resolve_scopes confirmed release ?rows (budget_scopes_table l) = Inr tab" if ?cond
  proof (rule resolve_scopes_total)
    show "\<forall>r\<in>set ?rows. 0 \<le> rr_bound r \<and> budget_scopes_table l (rr_scope r) \<noteq> None \<and>
        (release \<or> (case confirmed of Some d \<Rightarrow> d \<le> rr_bound r | None \<Rightarrow> True))"
      using that budget_invD(1)[OF inv] by (auto simp: resolvable_def row_ok_def)
    fix s row assume "budget_scopes_table l s = Some row"
    then have "reserved row = held (reservations l) s"
      using budget_invD(2)[OF inv] by (simp add: scope_ok_def)
    moreover have "due ?mine s \<le> held (reservations l) s"
      using that budget_invD(1)[OF inv] by (intro due_le_held) (auto simp: resolvable_def row_ok_def)
    ultimately show "due ?rows s \<le> reserved row" by simp
  qed
  moreover have "\<forall>r\<in>set ?mine. (case confirmed of Some d \<Rightarrow> d \<le> rr_bound r | None \<Rightarrow> True)"
    if "resolve_scopes confirmed release ?rows (budget_scopes_table l) = Inr tab" for tab
    using that resolve_scopes_confirmed[of confirmed ?rows _ tab] assms(2) by (cases release) auto
  ultimately show ?thesis unfolding ok resolvable_def by (auto simp: filter_empty_conv)
qed

subsection \<open>The journal the counters refine\<close>

text \<open>
  The journal keeps the limits and the reservation rows, and decides everything from the rows: what a
  scope has left is its limit less what its rows have settled and hold.
\<close>

record journal =
  j_limits :: "string \<rightharpoonup> int"
  j_rows :: "reservation_row list"

definition journal_of :: "ledger \<Rightarrow> journal" where
  "journal_of l = \<lparr>j_limits = map_option limit_units \<circ> budget_scopes_table l, j_rows = reservations l\<rparr>"

definition journal_open :: "string \<Rightarrow> int \<Rightarrow> journal \<Rightarrow> journal option" where
  "journal_open scope limit j =
     (if limit < 2 ^ 63 \<and> j_limits j scope = None
      then Some (j\<lparr>j_limits := (j_limits j)(scope \<mapsto> limit)\<rparr>) else None)"

definition journal_fits :: "journal \<Rightarrow> int \<Rightarrow> string \<Rightarrow> bool" where
  "journal_fits j bound s =
     (case j_limits j s of
        None \<Rightarrow> False
      | Some limit \<Rightarrow> settled (j_rows j) s + held (j_rows j) s + bound \<le> limit)"

definition journal_reserve :: "string \<Rightarrow> string list \<Rightarrow> int \<Rightarrow> journal \<Rightarrow> journal option" where
  "journal_reserve rid scopes bound j =
     (if scopes \<noteq> [] \<and> distinct scopes \<and> (\<forall>r\<in>set (j_rows j). rr_id r \<noteq> rid) \<and>
         (\<forall>s\<in>set scopes. journal_fits j bound s)
      then Some (j\<lparr>j_rows := j_rows j @ map (fresh_row rid bound) scopes\<rparr>) else None)"

definition journal_close :: "string \<Rightarrow> reservation_state \<Rightarrow> int option \<Rightarrow> journal \<Rightarrow> journal option" where
  "journal_close rid terminal confirmed j =
     (if resolvable (j_rows j) rid confirmed
      then Some (j\<lparr>j_rows := map (close_row rid terminal confirmed) (j_rows j)\<rparr>) else None)"

definition journal_outcome :: "(budget_error + unit) \<times> ledger \<Rightarrow> journal option" where
  "journal_outcome res = (if isl (fst res) then None else Some (journal_of (snd res)))"

lemma journal_of_sel [simp]:
  "j_limits (journal_of l) s = map_option limit_units (budget_scopes_table l s)"
  "j_rows (journal_of l) = reservations l"
  by (simp_all add: journal_of_def)

lemma journal_eqI: "(\<And>s. j_limits j s = j_limits k s) \<Longrightarrow> j_rows j = j_rows k \<Longrightarrow> j = (k :: journal)"
  by (cases j; cases k) (auto intro: ext)

lemma open_refines: "journal_outcome (open_budget scope limit l) = journal_open scope (uint limit) (journal_of l)"
  by (auto simp: journal_outcome_def open_budget_def journal_open_def budget_units_i64_def journal_of_def fun_eq_iff)

lemma fits_journal:
  assumes "budget_inv l"
  shows "journal_fits (journal_of l) bound s = fits l bound s"
  using budget_invD(2)[OF assms, of s] by (auto simp: fits_def journal_fits_def scope_ok_def split: option.splits)

lemma fits_small:
  assumes "budget_inv l" "fits l bound s"
  shows "bound < 2 ^ 63"
proof -
  obtain row where row: "budget_scopes_table l s = Some row" "spent row + reserved row + bound \<le> limit_units row"
    using assms(2) by (auto simp: fits_def split: option.splits)
  then show ?thesis
    using budget_invD(2)[OF assms(1) row(1)] budget_invD(3,4)[OF assms(1), of s] by (simp add: scope_ok_def)
qed

lemma reserve_refines:
  assumes inv: "budget_inv l"
  shows "journal_outcome (budget_reserve rid scopes bound l) = journal_reserve rid scopes (uint bound) (journal_of l)"
proof (cases "fst (budget_reserve rid scopes bound l)")
  case (Inr u)
  then have ok: "fst (budget_reserve rid scopes bound l) = Inr ()" by simp
  note cond = iffD1[OF budget_reserve_Inr ok]
  have "journal_of (snd (budget_reserve rid scopes bound l)) =
      (journal_of l)\<lparr>j_rows := reservations l @ map (fresh_row rid (uint bound)) scopes\<rparr>"
    using budget_reserve_effect[OF ok] by (intro journal_eqI) (simp_all add: option.map_comp comp_def)
  then show ?thesis
    using cond Inr by (simp add: journal_outcome_def journal_reserve_def fits_journal[OF inv])
next
  case (Inl e)
  then have "\<not> (scopes \<noteq> [] \<and> uint bound < 2 ^ 63 \<and> (\<forall>r\<in>set (reservations l). rr_id r \<noteq> rid) \<and>
     distinct scopes \<and> (\<forall>s\<in>set scopes. fits l (uint bound) s))"
    using budget_reserve_Inr[of rid scopes bound l] by simp
  moreover have "scopes \<noteq> [] \<Longrightarrow> \<forall>s\<in>set scopes. fits l (uint bound) s \<Longrightarrow> uint bound < 2 ^ 63"
    using fits_small[OF inv] by (cases scopes) auto
  ultimately have "journal_reserve rid scopes (uint bound) (journal_of l) = None"
    unfolding journal_reserve_def by (auto simp: fits_journal[OF inv])
  then show ?thesis using Inl by (simp add: journal_outcome_def)
qed

lemma resolve_refines:
  assumes inv: "budget_inv l" and terminal: "terminal = (if release then Released else Charged)"
    and none: "release \<Longrightarrow> confirmed = None"
  shows "journal_outcome (resolve_reservation rid terminal confirmed release l) =
           journal_close rid terminal confirmed (journal_of l)"
proof (cases "resolve_reservation_tx rid terminal confirmed release l")
  case (Inl e)
  then show ?thesis using resolve_tx_succeeds[OF inv none, where release = release and rid = rid and terminal = terminal]
    by (simp add: journal_outcome_def resolve_reservation_def journal_close_def)
next
  case (Inr l')
  note eff = resolve_reservation_tx_Inr[OF Inr inv terminal]
  have "journal_of l' = (journal_of l)\<lparr>j_rows := map (close_row rid terminal confirmed) (reservations l)\<rparr>"
    by (rule journal_eqI) (simp_all add: eff(3,4) option.map_comp comp_def)
  moreover have "resolvable (reservations l) rid confirmed"
    using resolve_tx_succeeds[OF inv none, where release = release and rid = rid and terminal = terminal] Inr by blast
  ultimately show ?thesis using Inr by (simp add: journal_outcome_def resolve_reservation_def journal_close_def)
qed

subsection \<open>Reachable ledgers\<close>

abbreviation ledger_reachable :: "ledger \<Rightarrow> bool" where
  "ledger_reachable l \<equiv> budget_step\<^sup>*\<^sup>* ledger_empty l"

lemma ledger_reachable_inv: "ledger_reachable l \<Longrightarrow> budget_inv l"
  by (rule lg.run_inv) simp_all

text \<open>
  C7. The ledger with its running counters refines the journal without them: on every reachable ledger
  each operation succeeds exactly when the journal's operation does, with the journal's result.
\<close>

theorem ledger_refines_journal:
  assumes "ledger_reachable l"
  shows "journal_outcome (open_budget scope limit l) = journal_open scope (uint limit) (journal_of l) \<and>
    journal_outcome (budget_reserve rid scopes bound l) = journal_reserve rid scopes (uint bound) (journal_of l) \<and>
    journal_outcome (budget_release rid l) = journal_close rid Released None (journal_of l) \<and>
    journal_outcome (budget_charge rid None l) = journal_close rid Charged None (journal_of l) \<and>
    (uint c < 2 ^ 63 \<longrightarrow>
       journal_outcome (budget_charge rid (Some c) l) = journal_close rid Charged (Some (uint c)) (journal_of l))"
proof -
  note inv = ledger_reachable_inv[OF assms]
  show ?thesis
    using open_refines reserve_refines[OF inv] resolve_refines[OF inv, of Released True None rid]
      resolve_refines[OF inv, of Charged False _ rid]
    by (simp add: budget_release_def budget_charge_def budget_units_i64_def)
qed

text \<open>
  C3. No scope is ever overspent: in every reachable ledger the status of an open scope reads, and its
  spent and reserved units, which are the sums over its charged and held reservations, fit its limit.
\<close>

theorem never_overspent:
  assumes "ledger_reachable l" "budget_scopes_table l scope \<noteq> None"
  shows "\<exists>st. budget_status_of l scope = Inr st \<and>
    bs_spent st + bs_reserved st \<le> bs_limit_units st \<and> bs_limit_units st < 2 ^ 63 \<and>
    int (bs_spent st) = settled (reservations l) scope \<and> int (bs_reserved st) = held (reservations l) scope"
proof -
  note inv = ledger_reachable_inv[OF assms(1)]
  obtain row where row: "budget_scopes_table l scope = Some row" using assms(2) by blast
  note ok = budget_invD(2)[OF inv row, unfolded scope_ok_def]
  have nn: "0 \<le> spent row" "0 \<le> reserved row" using ok budget_invD(3,4)[OF inv, of scope] by linarith+
  then have "0 \<le> limit_units row" using ok by linarith
  then have "budget_status_of l scope = Inr \<lparr>bs_limit_units = nat (limit_units row),
      bs_spent = nat (spent row), bs_reserved = nat (reserved row)\<rparr>"
    using nn by (simp add: budget_status_of_def row unsigned_def)
  moreover have "nat (spent row) + nat (reserved row) \<le> nat (limit_units row)" "nat (limit_units row) < 2 ^ 63"
    using ok nn by (linarith, simp add: nat_less_iff)
  ultimately show ?thesis using ok nn by simp
qed

definition grantable :: "ledger \<Rightarrow> string \<Rightarrow> string list \<Rightarrow> u64 \<Rightarrow> bool" where
  "grantable l rid scopes bound \<longleftrightarrow>
     scopes \<noteq> [] \<and> uint bound < 2 ^ 63 \<and> (\<forall>r\<in>set (reservations l). rr_id r \<noteq> rid) \<and>
     distinct scopes \<and> (\<forall>s\<in>set scopes. fits l (uint bound) s)"

text \<open>
  C26. A reservation is all or nothing: it is granted exactly when it is fresh, representable, names
  distinct scopes and fits every one of them; then every named scope and no other holds the bound more,
  and otherwise the ledger is unchanged.
\<close>

theorem reserve_all_or_nothing:
  "(fst (budget_reserve rid scopes bound l) = Inr () \<longleftrightarrow> grantable l rid scopes bound) \<and>
   (\<not> grantable l rid scopes bound \<longrightarrow> snd (budget_reserve rid scopes bound l) = l) \<and>
   (grantable l rid scopes bound \<longrightarrow> (\<forall>s. budget_scopes_table (snd (budget_reserve rid scopes bound l)) s =
      (if s \<in> set scopes then map_option (\<lambda>row. row\<lparr>reserved := reserved row + uint bound\<rparr>) (budget_scopes_table l s)
       else budget_scopes_table l s)))"
proof -
  have ok: "fst (budget_reserve rid scopes bound l) = Inr () \<longleftrightarrow> grantable l rid scopes bound"
    unfolding grantable_def by (rule budget_reserve_Inr)
  moreover have "snd (budget_reserve rid scopes bound l) = l" if "\<not> grantable l rid scopes bound"
  proof (rule refused_unchanged(1))
    show "isl (fst (budget_reserve rid scopes bound l))"
      using ok that by (cases "fst (budget_reserve rid scopes bound l)") auto
  qed
  moreover have "settle_row 0 (- uint bound) = (\<lambda>row. row\<lparr>reserved := reserved row + uint bound\<rparr>)"
    by (simp add: settle_row_def fun_eq_iff)
  ultimately show ?thesis using budget_reserve_effect(2)[of rid scopes bound l] by auto
qed

subsection \<open>Resolution, once\<close>

definition mine :: "string \<Rightarrow> ledger \<Rightarrow> reservation_row list" where
  "mine rid l = filter (\<lambda>r. rr_id r = rid) (reservations l)"












subsection \<open>Reserve, then resolve\<close>

lemma reserved_mine:
  assumes ok: "fst (budget_reserve rid scopes bound l) = Inr ()"
  shows "mine rid (snd (budget_reserve rid scopes bound l)) = map (fresh_row rid (uint bound)) scopes"
proof -
  have "mine rid l = []" using iffD1[OF budget_reserve_Inr ok] by (auto simp: mine_def filter_empty_conv)
  then show ?thesis by (simp add: mine_def budget_reserve_effect(1)[OF ok] filter_map comp_def)
qed

lemma due_fresh: "distinct scopes \<Longrightarrow> due (map (fresh_row rid b) scopes) s = (if s \<in> set scopes then b else 0)"
  by (induction scopes) auto

lemma cost_fresh:
  "distinct scopes \<Longrightarrow> cost confirmed release (map (fresh_row rid b) scopes) s =
     (if s \<in> set scopes \<and> \<not> release then (case confirmed of Some d \<Rightarrow> d | None \<Rightarrow> b) else 0)"
  by (induction scopes) (auto split: option.splits)

lemma reserve_resolve:
  assumes inv: "budget_inv l" and ok: "fst (budget_reserve rid scopes bound l) = Inr ()"
    and terminal: "terminal = (if release then Released else Charged)" and none: "release \<Longrightarrow> confirmed = None"
    and small: "case confirmed of Some d \<Rightarrow> d \<le> uint bound | None \<Rightarrow> True"
  defines "held_l \<equiv> snd (budget_reserve rid scopes bound l)"
  shows "fst (resolve_reservation rid terminal confirmed release held_l) = Inr ()"
    and "budget_scopes_table (snd (resolve_reservation rid terminal confirmed release held_l)) s =
      (if s \<in> set scopes
       then map_option (settle_row (if release then 0 else case confirmed of Some d \<Rightarrow> d | None \<Rightarrow> uint bound) 0)
              (budget_scopes_table l s)
       else budget_scopes_table l s)"
proof -
  have hinv: "budget_inv held_l" unfolding held_l_def by (rule budget_reserve_inv[OF inv])
  have m: "filter (\<lambda>r. rr_id r = rid) (reservations held_l) = map (fresh_row rid (uint bound)) scopes"
    using reserved_mine[OF ok] unfolding mine_def held_l_def .
  note cond = iffD1[OF budget_reserve_Inr ok]
  have "resolvable (reservations held_l) rid confirmed"
    unfolding resolvable_filter m using cond small by (auto split: option.splits)
  then obtain l' where tx: "resolve_reservation_tx rid terminal confirmed release held_l = Inr l'"
    using resolve_tx_succeeds[OF hinv none, where rid = rid and terminal = terminal and release = release] by blast
  then show "fst (resolve_reservation rid terminal confirmed release held_l) = Inr ()"
    by (simp add: resolve_reservation_def)
  have "distinct scopes" using cond by simp
  then show "budget_scopes_table (snd (resolve_reservation rid terminal confirmed release held_l)) s =
      (if s \<in> set scopes
       then map_option (settle_row (if release then 0 else case confirmed of Some d \<Rightarrow> d | None \<Rightarrow> uint bound) 0)
              (budget_scopes_table l s)
       else budget_scopes_table l s)"
    using resolve_reservation_tx_Inr(4)[OF tx hinv terminal, of s] tx
      budget_reserve_effect(2)[OF ok, of s, folded held_l_def]
    by (simp add: resolve_reservation_def m due_fresh cost_fresh option.map_comp comp_def)
qed

text \<open>
  Reserving and then releasing is a round trip: the release succeeds and every scope has its old
  counters back.
\<close>

theorem reserve_release_roundtrip:
  assumes "ledger_reachable l" "budget_reserve rid scopes bound l = (Inr (), held_l)"
  shows "fst (budget_release rid held_l) = Inr () \<and>
    budget_scopes_table (snd (budget_release rid held_l)) = budget_scopes_table l"
proof -
  note rr = reserve_resolve[OF ledger_reachable_inv[OF assms(1)], of rid scopes bound Released True None]
  have "budget_scopes_table (snd (budget_release rid held_l)) s = budget_scopes_table l s" for s
    using rr(2)[of s] assms(2) by (simp add: budget_release_def)
  then show ?thesis using rr(1) assms(2) by (auto simp: budget_release_def)
qed

text \<open>
  Charging a granted reservation succeeds for every confirmed cost up to the bound and spends
  exactly that cost at each of its scopes; an unknown cost spends the whole bound; a cost above the
  bound is refused and the reservation stays as it was.
\<close>

theorem reserve_charge_effect:
  assumes "ledger_reachable l" "budget_reserve rid scopes bound l = (Inr (), held_l)"
  shows "if (case c of None \<Rightarrow> True | Some d \<Rightarrow> d \<le> bound)
    then fst (budget_charge rid c held_l) = Inr () \<and>
      (\<forall>s. budget_scopes_table (snd (budget_charge rid c held_l)) s =
        (if s \<in> set scopes
         then map_option (\<lambda>row. row\<lparr>spent := spent row + (case c of None \<Rightarrow> uint bound | Some d \<Rightarrow> uint d)\<rparr>)
                (budget_scopes_table l s)
         else budget_scopes_table l s))
    else isl (fst (budget_charge rid c held_l)) \<and> snd (budget_charge rid c held_l) = held_l"
proof (cases "case c of None \<Rightarrow> True | Some d \<Rightarrow> d \<le> bound")
  case True
  let ?c = "map_option uint c"
  let ?cost = "case c of None \<Rightarrow> uint bound | Some d \<Rightarrow> uint d"
  have ok: "fst (budget_reserve rid scopes bound l) = Inr ()" using assms(2) by simp
  then have "uint bound < 2 ^ 63" unfolding budget_reserve_Inr by blast
  then have charge: "budget_charge rid c held_l = resolve_reservation rid Charged ?c False held_l"
    using True by (auto simp: budget_charge_def budget_units_i64_def word_le_def split: option.splits)
  have small: "case ?c of Some d \<Rightarrow> d \<le> uint bound | None \<Rightarrow> True"
    using True by (auto simp: word_le_def split: option.splits)
  have "(case ?c of Some d \<Rightarrow> d | None \<Rightarrow> uint bound) = ?cost" by (cases c) simp_all
  then have "settle_row (if False then 0 else case ?c of Some d \<Rightarrow> d | None \<Rightarrow> uint bound) 0 =
      (\<lambda>row. row\<lparr>spent := spent row + ?cost\<rparr>)"
    by (simp add: settle_row_def fun_eq_iff)
  then show ?thesis
    using True reserve_resolve[OF ledger_reachable_inv[OF assms(1)] ok, of Charged False ?c, OF _ _ small]
    by (simp add: charge assms(2))
next
  case False
  then obtain d where d: "c = Some d" "bound < d" by (auto split: option.splits)
  have ok: "fst (budget_reserve rid scopes bound l) = Inr ()" using assms(2) by simp
  have hinv: "budget_inv held_l" using budget_reserve_inv[OF ledger_reachable_inv[OF assms(1)]] assms(2) by (metis snd_conv)
  have "\<not> resolvable (reservations held_l) rid (Some (uint d))"
    using reserved_mine[OF ok] iffD1[OF budget_reserve_Inr ok] d(2) assms(2)
    unfolding resolvable_filter mine_def by (cases scopes) (auto simp: word_less_def)
  then have "isl (fst (resolve_reservation rid Charged (Some (uint d)) False held_l))"
    using resolve_tx_succeeds[OF hinv, where release = False and confirmed = "Some (uint d)" and rid = rid]
    by (auto simp: resolve_reservation_def split: sum.splits)
  then show ?thesis
    using False d refused_unchanged(2) by (auto simp: budget_charge_def budget_units_i64_def)
qed

subsection \<open>Refusals\<close>

lemma reserve_scopes_refusal:
  "reserve_scopes rid bound stored scopes l = Inl e \<Longrightarrow> distinct scopes \<Longrightarrow>
   \<forall>s\<in>set scopes. \<not> recorded rid l s \<Longrightarrow>
   \<exists>pre s post. scopes = pre @ s # post \<and> (\<forall>p\<in>set pre. fits l stored p) \<and> \<not> fits l stored s \<and>
     e = reserve_denied l s bound"
proof (induction scopes arbitrary: l)
  case (Cons scope rest)
  show ?case
  proof (cases "fits l stored scope")
    case False
    then have "e = reserve_denied l scope bound" using Cons.prems(1) by (simp add: reserve_scopes_rules)
    then show ?thesis using False by (metis append_Nil empty_iff empty_set)
  next
    case True
    let ?l = "reserve_one rid stored scope l"
    have "reserve_scopes rid bound stored rest ?l = Inl e"
      using Cons.prems True by (simp add: reserve_scopes_rules)
    moreover have "\<forall>s\<in>set rest. \<not> recorded rid ?l s" using Cons.prems by auto
    ultimately obtain pre s post where split: "rest = pre @ s # post" "\<forall>p\<in>set pre. fits ?l stored p"
      "\<not> fits ?l stored s" "e = reserve_denied ?l s bound"
      using Cons.IH[of ?l] Cons.prems(2) by auto
    have other: "p \<noteq> scope" if "p \<in> set (pre @ [s])" for p using that Cons.prems(2) split(1) by auto
    have "\<forall>p\<in>set (scope # pre). fits l stored p" using True split(2) other by auto
    moreover have "\<not> fits l stored s" using split(3) other by auto
    moreover have "e = reserve_denied l s bound" using split(4) other by (simp add: reserve_denied_def)
    ultimately show ?thesis using split(1) by (intro exI[of _ "scope # pre"]) auto
  qed
qed simp

text \<open>
  A refusal of a fresh reservation over distinct scopes names the first scope that cannot take it:
  a scope that was never opened, or one whose reported units are its status and leave no room.
\<close>

theorem refusal_names_first_scope:
  assumes "ledger_reachable l" "distinct scopes" "scopes \<noteq> []" "uint bound < 2 ^ 63"
    and "\<forall>r\<in>set (reservations l). rr_id r \<noteq> rid"
    and "fst (budget_reserve rid scopes bound l) = Inl e"
  shows "\<exists>pre s post. scopes = pre @ s # post \<and> (\<forall>p\<in>set pre. fits l (uint bound) p) \<and>
    (case budget_status_of l s of
       Inl _ \<Rightarrow> e = MissingBudgetScope s
     | Inr st \<Rightarrow> bs_limit_units st < bs_spent st + bs_reserved st + unat bound \<and>
         e = BudgetExhaustedAt s (bs_spent st) (bs_reserved st) bound (bs_limit_units st))"
proof -
  note inv = ledger_reachable_inv[OF assms(1)]
  have "reserve_scopes rid bound (uint bound) scopes l = Inl e"
    using assms(3-6) by (auto simp: budget_reserve_def budget_units_i64_def list_ex_iff split: sum.splits)
  moreover have "\<forall>s\<in>set scopes. \<not> recorded rid l s" using assms(5) by (auto simp: recorded_def)
  ultimately obtain pre s post where split: "scopes = pre @ s # post" "\<forall>p\<in>set pre. fits l (uint bound) p"
      "\<not> fits l (uint bound) s" "e = reserve_denied l s bound"
    using reserve_scopes_refusal[OF _ assms(2)] by blast
  have "case budget_status_of l s of
       Inl _ \<Rightarrow> e = MissingBudgetScope s
     | Inr st \<Rightarrow> bs_limit_units st < bs_spent st + bs_reserved st + unat bound \<and>
         e = BudgetExhaustedAt s (bs_spent st) (bs_reserved st) bound (bs_limit_units st)"
  proof (cases "budget_scopes_table l s")
    case None
    then show ?thesis using split(4) by (simp add: budget_status_of_def reserve_denied_def)
  next
    case (Some row)
    have ok: "0 \<le> spent row" "0 \<le> reserved row" "0 \<le> limit_units row"
      using budget_invD(2)[OF inv Some] budget_invD(3,4)[OF inv, of s] by (simp_all add: scope_ok_def)
    moreover have "limit_units row < spent row + reserved row + int (unat bound)"
      using split(3) Some by (simp add: fits_def)
    ultimately show ?thesis
      using split(4) Some by (simp add: budget_status_of_def reserve_denied_def unsigned_def nat_less_iff)
  qed
  then show ?thesis using split(1,2) by blast
qed

subsection \<open>Witnesses\<close>

definition demo_ledger :: ledger where
  "demo_ledger = snd (open_budget ''task'' 5 (snd (open_budget ''root'' 10 ledger_empty)))"

lemma demo_reachable: "ledger_reachable demo_ledger"
  unfolding demo_ledger_def by (meson rtranclp.rtrancl_refl rtranclp.rtrancl_into_rtrancl step_open)

lemma demo_table:
  "budget_scopes_table demo_ledger = [''root'' \<mapsto> \<lparr>limit_units = 10, spent = 0, reserved = 0\<rparr>,
     ''task'' \<mapsto> \<lparr>limit_units = 5, spent = 0, reserved = 0\<rparr>]"
  "reservations demo_ledger = []"
  by (simp_all add: demo_ledger_def open_budget_def budget_units_i64_def ledger_empty_def)

lemma demo_reserve: "fst (budget_reserve ''r1'' [''root'', ''task''] 4 demo_ledger) = Inr ()"
  unfolding budget_reserve_Inr by (simp add: demo_table fits_def)

definition demo_held :: ledger where
  "demo_held = snd (budget_reserve ''r1'' [''root'', ''task''] 4 demo_ledger)"

lemma demo_held: "budget_reserve ''r1'' [''root'', ''task''] 4 demo_ledger = (Inr (), demo_held)"
  using demo_reserve by (simp add: demo_held_def prod_eq_iff)

lemma demo_held_reachable: "ledger_reachable demo_held"
  using demo_reachable step_reserve unfolding demo_held_def by (rule rtranclp.rtrancl_into_rtrancl)

theorem ledger_refines_journal_witness:
  "journal_outcome (budget_charge ''r1'' (Some 3) demo_held) = journal_close ''r1'' Charged (Some 3) (journal_of demo_held)"
  using ledger_refines_journal[OF demo_held_reachable, where rid = "''r1''" and c = 3] by simp

theorem never_overspent_witness:
  "\<exists>st. budget_status_of demo_held ''task'' = Inr st \<and> bs_spent st + bs_reserved st \<le> bs_limit_units st"
proof -
  have "budget_scopes_table demo_held ''task'' \<noteq> None"
    using budget_reserve_effect(2)[OF demo_reserve, of "''task''"] by (simp add: demo_held_def demo_table)
  from never_overspent[OF demo_held_reachable this] show ?thesis by blast
qed

theorem reserve_all_or_nothing_witness:
  "budget_scopes_table demo_held ''task'' = Some \<lparr>limit_units = 5, spent = 0, reserved = 4\<rparr> \<and>
   snd (budget_reserve ''r1'' [''root'', ''task''] 6 demo_ledger) = demo_ledger"
proof -
  have "grantable demo_ledger ''r1'' [''root'', ''task''] 4" "\<not> grantable demo_ledger ''r1'' [''root'', ''task''] 6"
    by (simp_all add: grantable_def demo_table fits_def)
  then show ?thesis
    using reserve_all_or_nothing[of "''r1''" "[''root'', ''task'']" 4 demo_ledger]
      reserve_all_or_nothing[of "''r1''" "[''root'', ''task'']" 6 demo_ledger]
    by (simp add: demo_held_def demo_table)
qed

theorem reserve_release_roundtrip_witness:
  "budget_scopes_table (snd (budget_release ''r1'' demo_held)) = budget_scopes_table demo_ledger"
  using reserve_release_roundtrip[OF demo_reachable demo_held] by simp

theorem reserve_charge_effect_witness:
  "fst (budget_charge ''r1'' (Some 3) demo_held) = Inr () \<and> isl (fst (budget_charge ''r1'' (Some 5) demo_held))"
  using reserve_charge_effect[OF demo_reachable demo_held, of "Some 3"]
    reserve_charge_effect[OF demo_reachable demo_held, of "Some 5"] by simp


theorem refusal_names_first_scope_witness:
  "fst (budget_reserve ''r1'' [''root'', ''task''] 6 demo_ledger) = Inl (BudgetExhaustedAt ''task'' 0 0 6 5)"
proof -
  have "\<not> grantable demo_ledger ''r1'' [''root'', ''task''] 6"
    by (simp add: grantable_def demo_table fits_def)
  then obtain e where e: "fst (budget_reserve ''r1'' [''root'', ''task''] 6 demo_ledger) = Inl e"
    unfolding grantable_def budget_reserve_Inr[symmetric]
    by (cases "fst (budget_reserve ''r1'' [''root'', ''task''] 6 demo_ledger)") auto
  obtain pre s post where split: "[''root'', ''task''] = pre @ s # post" "\<forall>p\<in>set pre. fits demo_ledger 6 p"
    and st: "case budget_status_of demo_ledger s of
       Inl _ \<Rightarrow> e = MissingBudgetScope s
     | Inr st \<Rightarrow> bs_limit_units st < bs_spent st + bs_reserved st + unat (6 :: u64) \<and>
         e = BudgetExhaustedAt s (bs_spent st) (bs_reserved st) 6 (bs_limit_units st)"
    using refusal_names_first_scope[OF demo_reachable _ _ _ _ e] by (auto simp: demo_table)
  have "s = ''root'' \<or> s = ''task''" using arg_cong[OF split(1), of set] by auto
  then show ?thesis using st e by (auto simp: budget_status_of_def demo_table unsigned_def)
qed

end
