(* ===== verification/Stream_Decoder.thy ===== *)
theory Stream_Decoder
  imports Rust_Std
begin

text \<open>
  The contract of an incremental stream decoder, which the two wire parsers of
  \<open>src/src/providers\<close> promise their readers: the bytes of a response arrive in chunks the network
  chooses, and what is decoded must not depend on them.
\<close>

text \<open>A reader's loop: feed each chunk, stop at the first error.\<close>

primrec feed_all ::
  "('s \<Rightarrow> 'b list \<Rightarrow> ('e + 'o list) \<times> 's) \<Rightarrow> 's \<Rightarrow> 'b list list \<Rightarrow> ('e + 'o list) \<times> 's" where
  "feed_all feed s [] = (Inr [], s)"
| "feed_all feed s (c # cs) =
     (case feed s c of
        (Inl e, s1) \<Rightarrow> (Inl e, s1)
      | (Inr xs, s1) \<Rightarrow>
          (case feed_all feed s1 cs of
             (Inl e, s2) \<Rightarrow> (Inl e, s2)
           | (Inr ys, s2) \<Rightarrow> (Inr (xs @ ys), s2)))"

text \<open>
  \<open>decode\<close> is the reference decoder on a whole stream, \<open>accepts\<close> the streams that every chunking
  must get through, and \<open>holds s p\<close> says that \<open>s\<close> is the decoder's state after the bytes \<open>p\<close>.
\<close>

locale incremental_decoder =
  fixes feed :: "'s \<Rightarrow> 'b list \<Rightarrow> ('e + 'o list) \<times> 's"
    and start :: 's
    and holds :: "'s \<Rightarrow> 'b list \<Rightarrow> bool"
    and decode :: "'b list \<Rightarrow> 'o list"
    and accepts :: "'b list \<Rightarrow> bool"
  assumes holds_start: "holds start []"
    and decode_nil: "decode [] = []"
    and feed_holds: "holds s p \<Longrightarrow> feed s c = (Inr xs, t) \<Longrightarrow> holds t (p @ c) \<and> decode (p @ c) = decode p @ xs"
    and feed_accepts: "holds s p \<Longrightarrow> accepts (p @ c) \<Longrightarrow> \<exists>xs t. feed s c = (Inr xs, t)"
    and accepts_prefix: "accepts (p @ c) \<Longrightarrow> accepts p"
begin

lemma feed_all_holds:
  "holds s p \<Longrightarrow> feed_all feed s cs = (Inr xs, t) \<Longrightarrow>
     holds t (p @ concat cs) \<and> decode (p @ concat cs) = decode p @ xs"
proof (induction cs arbitrary: s p xs)
  case Nil
  then show ?case by simp
next
  case (Cons c cs)
  obtain ys s1 where f: "feed s c = (Inr ys, s1)"
    using Cons.prems(2) by (auto split: prod.splits sum.splits)
  obtain zs where g: "feed_all feed s1 cs = (Inr zs, t)" "xs = ys @ zs"
    using Cons.prems(2) f by (auto split: prod.splits sum.splits)
  note h = feed_holds[OF Cons.prems(1) f]
  show ?case using Cons.IH[OF conjunct1[OF h] g(1)] h g(2) by simp
qed

lemma feed_all_accepts:
  "holds s p \<Longrightarrow> accepts (p @ concat cs) \<Longrightarrow> \<exists>xs t. feed_all feed s cs = (Inr xs, t)"
proof (induction cs arbitrary: s p)
  case Nil
  then show ?case by simp
next
  case (Cons c cs)
  have "accepts (p @ c)" using accepts_prefix[of "p @ c" "concat cs"] Cons.prems(2) by simp
  then obtain xs s1 where f: "feed s c = (Inr xs, s1)" using feed_accepts[OF Cons.prems(1)] by blast
  have "holds s1 (p @ c)" using feed_holds[OF Cons.prems(1) f] by simp
  from Cons.IH[OF this] Cons.prems(2) obtain ys t where "feed_all feed s1 cs = (Inr ys, t)" by auto
  then show ?case using f by simp
qed

lemma decoded_output: "feed_all feed start cs = (Inr xs, t) \<Longrightarrow> xs = decode (concat cs)"
  using feed_all_holds[OF holds_start] decode_nil by fastforce

lemma chunking_irrelevant: "accepts (concat cs) \<Longrightarrow> fst (feed_all feed start cs) = Inr (decode (concat cs))"
  using feed_all_accepts[OF holds_start, of cs] decoded_output[of cs] by fastforce

end

end
