(* ===== verification/Sse.thy ===== *)
theory Sse
  imports Stream_Decoder
begin

text \<open>
  The incremental server-sent-events parser of \<open>src/src/providers/sse.rs\<close>: the field buffers of
  the pending block, the byte buffer with its scan cursor and the open BOM decision, \<open>feed\<close>,
  \<open>finish\<close> and the line loop \<open>pump\<close>. Errors leave the state the source leaves: \<open>pump\<close> returns
  before it drains the buffer.
\<close>

definition max_line_bytes :: nat where
  "max_line_bytes = 256 * 1024"

definition max_data_bytes :: nat where
  "max_data_bytes = 4 * 1024 * 1024"

definition bom :: bytes where
  "bom = [CHR 0xEF, CHR 0xBB, CHR 0xBF]"

record sse_event =
  sse_event :: string
  sse_data :: string

datatype sse_error = SseOverrun string nat | SseInvalidUtf8

record block =
  event_type :: string
  data :: string

definition block_default :: block where
  "block_default = \<lparr>event_type = '''', data = ''''\<rparr>"

definition block_dispatch :: "block \<Rightarrow> sse_event list \<times> block" where
  "block_dispatch b =
     (if data b \<noteq> [] then ([\<lparr>sse_event = event_type b, sse_data = butlast (data b)\<rparr>], \<lparr>event_type = '''', data = ''''\<rparr>)
      else ([], b\<lparr>event_type := ''''\<rparr>))"

definition block_line :: "block \<Rightarrow> bytes \<Rightarrow> (sse_error + sse_event list) \<times> block" where
  "block_line b raw =
     (if length raw > max_line_bytes then (Inl (SseOverrun ''line'' max_line_bytes), b)
      else if \<not> utf8_valid raw then (Inl SseInvalidUtf8, b)
      else if raw = [] then (case block_dispatch b of (events, b') \<Rightarrow> (Inr events, b'))
      else if starts_with '':'' raw then (Inr [], b)
      else
        (let (field, v) = (case split_once (CHR '':'') raw of
               Some (f, v) \<Rightarrow> (f, case strip_prefix '' '' v of Some r \<Rightarrow> r | None \<Rightarrow> v)
             | None \<Rightarrow> (raw, ''''))
         in if field = ''event'' then (Inr [], b\<lparr>event_type := v\<rparr>)
            else if field = ''data''
            then (if length (data b) + length v + 1 > max_data_bytes
                  then (Inl (SseOverrun ''event data'' max_data_bytes), b)
                  else (Inr [], b\<lparr>data := data b @ v @ [CHR 0x0A]\<rparr>))
            else (Inr [], b)))"

record sse_parser =
  buf :: bytes
  scanned :: nat
  bom_pending :: bool
  blk :: block

definition sse_new :: sse_parser where
  "sse_new = \<lparr>buf = [], scanned = 0, bom_pending = True, blk = block_default\<rparr>"

definition is_terminator :: "byte \<Rightarrow> bool" where
  "is_terminator c \<longleftrightarrow> c = CHR 0x0D \<or> c = CHR 0x0A"

text \<open>
  The loop of \<open>pump\<close>: \<open>consumed\<close> and \<open>scanned\<close> are its cursors into the buffer; it returns the
  events or the error, both cursors and the block. Each round passes a terminator.
\<close>

function pump_loop ::
  "bool \<Rightarrow> bytes \<Rightarrow> nat \<Rightarrow> nat \<Rightarrow> block \<Rightarrow> sse_event list \<Rightarrow>
     (sse_error + sse_event list) \<times> nat \<times> nat \<times> block" where
  "pump_loop at_eof bs consumed scan b events =
     (let scan_from = max consumed scan
      in case position is_terminator (drop scan_from bs) of
           None \<Rightarrow> (Inr events, consumed, length bs, b)
         | Some off \<Rightarrow>
             (let at = scan_from + off
              in if bs ! at = CHR 0x0D \<and> at + 1 = length bs \<and> \<not> at_eof
                 then (Inr events, consumed, at, b)
                 else
                   (let width = (if bs ! at = CHR 0x0D \<and> at + 1 < length bs \<and> bs ! (at + 1) = CHR 0x0A
                                 then 2 else 1)
                    in case block_line b (take (at - consumed) (drop consumed bs)) of
                         (Inl e, b') \<Rightarrow> (Inl e, consumed, scan, b')
                       | (Inr es, b') \<Rightarrow>
                           pump_loop at_eof bs (at + width) (at + width) b' (events @ es))))"
  by pat_completeness auto
termination
  by (relation "measure (\<lambda>(_, bs, consumed, scan, _, _). length bs - max consumed scan)")
    (auto simp: position_Some max_def split: if_splits)

declare pump_loop.simps [simp del]

definition sse_pump :: "bool \<Rightarrow> sse_parser \<Rightarrow> (sse_error + sse_event list) \<times> sse_parser" where
  "sse_pump at_eof p =
     (if bom_pending p \<and> buf p \<noteq> [] \<and> length (buf p) < length bom \<and> starts_with (buf p) bom \<and> \<not> at_eof
      then (Inr [], p)
      else
        (let p1 = (if bom_pending p
                   then p\<lparr>buf := (if starts_with bom (buf p) then drop (length bom) (buf p) else buf p),
                          bom_pending := False, scanned := 0\<rparr>
                   else p)
         in case pump_loop at_eof (buf p1) 0 (scanned p1) (blk p1) [] of
              (Inl e, consumed, scan, b) \<Rightarrow> (Inl e, p1\<lparr>scanned := scan, blk := b\<rparr>)
            | (Inr events, consumed, scan, b) \<Rightarrow>
                (let p2 = p1\<lparr>buf := drop consumed (buf p1), scanned := scan - consumed, blk := b\<rparr>
                 in if scan - consumed > max_line_bytes
                    then (Inl (SseOverrun ''line'' max_line_bytes), p2) else (Inr events, p2))))"

definition sse_feed :: "sse_parser \<Rightarrow> bytes \<Rightarrow> (sse_error + sse_event list) \<times> sse_parser" where
  "sse_feed p chunk =
     (if chunk = [] then (Inr [], p)
      else if (buf p = [] \<or> last (buf p) \<noteq> CHR 0x0D) \<and>
              (if bom_pending p then length (buf p) else scanned p) +
                (case position is_terminator chunk of Some k \<Rightarrow> k | None \<Rightarrow> length chunk) > max_line_bytes
      then (Inl (SseOverrun ''line'' max_line_bytes), p)
      else sse_pump False (p\<lparr>buf := buf p @ chunk\<rparr>))"

definition sse_finish :: "sse_parser \<Rightarrow> (sse_error + sse_event list) \<times> sse_parser" where
  "sse_finish p =
     (case sse_pump True p of
        (Inl e, p1) \<Rightarrow> (Inl e, p1)
      | (Inr events, p1) \<Rightarrow> (Inr events, p1\<lparr>buf := [], scanned := 0, blk := \<lparr>event_type = '''', data = ''''\<rparr>\<rparr>))"

subsection \<open>The reference: lines of a whole stream\<close>

text \<open>
  The next line of a byte sequence and what follows its terminator. A final CR ends a line only at
  the end of the stream: an LF may still follow it.
\<close>

definition next_line :: "bool \<Rightarrow> bytes \<Rightarrow> (bytes \<times> bytes) option" where
  "next_line at_eof bs =
     (case position is_terminator bs of
        None \<Rightarrow> None
      | Some k \<Rightarrow>
          if bs ! k = CHR 0x0D \<and> k + 1 = length bs \<and> \<not> at_eof then None
          else if bs ! k = CHR 0x0D \<and> k + 1 < length bs \<and> bs ! (k + 1) = CHR 0x0A
          then Some (take k bs, drop (k + 2) bs)
          else Some (take k bs, drop (k + 1) bs))"

function split_lines :: "bool \<Rightarrow> bytes \<Rightarrow> bytes list \<times> bytes" where
  "split_lines at_eof bs =
     (case next_line at_eof bs of
        None \<Rightarrow> ([], bs)
      | Some (l, r) \<Rightarrow> (case split_lines at_eof r of (ls, t) \<Rightarrow> (l # ls, t)))"
  by pat_completeness auto
termination
  by (relation "measure (\<lambda>(_, bs). length bs)")
    (auto simp: next_line_def position_Some split: option.splits if_splits)

declare split_lines.simps [simp del]

fun run_lines :: "block \<Rightarrow> bytes list \<Rightarrow> (sse_error + sse_event list) \<times> block" where
  "run_lines b [] = (Inr [], b)"
| "run_lines b (l # ls) =
     (case block_line b l of
        (Inl e, b') \<Rightarrow> (Inl e, b')
      | (Inr es, b') \<Rightarrow>
          (case run_lines b' ls of
             (Inl e, b'') \<Rightarrow> (Inl e, b'')
           | (Inr fs, b'') \<Rightarrow> (Inr (es @ fs), b'')))"

definition strip_bom :: "bytes \<Rightarrow> bytes" where
  "strip_bom p = (if starts_with bom p then drop (length bom) p else p)"

definition sse_decode :: "bytes \<Rightarrow> sse_event list" where
  "sse_decode p =
     (case fst (run_lines block_default (fst (split_lines False (strip_bom p)))) of
        Inr es \<Rightarrow> es | Inl _ \<Rightarrow> [])"

text \<open>The bytes before the first terminator.\<close>

definition line_len :: "bytes \<Rightarrow> nat" where
  "line_len bs = (case position is_terminator bs of Some k \<Rightarrow> k | None \<Rightarrow> length bs)"

text \<open>
  The streams every chunking gets through: all lines are accepted, the unfinished tail is within
  the line bound, and after a BOM the first line leaves room for it (the bound is checked before
  the BOM is dropped).
\<close>

definition sse_accepts :: "bytes \<Rightarrow> bool" where
  "sse_accepts p \<longleftrightarrow>
     (\<exists>es b. run_lines block_default (fst (split_lines False (strip_bom p))) = (Inr es, b)) \<and>
     line_len (snd (split_lines False (strip_bom p))) \<le> max_line_bytes \<and>
     line_len p \<le> max_line_bytes"

end
