(* ===== verification/Sse_Props.thy ===== *)
theory Sse_Props
  imports Sse
begin

text \<open>
  The SSE parser decodes the lines of the whole stream: the line loop against the reference
  splitting, independence of chunk boundaries, and the interpretation of the decoder contract.
\<close>

subsection \<open>Splitting into lines\<close>

lemma next_line_append: "next_line False a = Some (l, r) \<Longrightarrow> next_line False (a @ b) = Some (l, r @ b)"
proof -
  assume n: "next_line False a = Some (l, r)"
  then obtain k where k: "position is_terminator a = Some k" by (auto simp: next_line_def split: option.splits)
  then have kl: "k < length a" by (simp add: position_Some)
  have "position is_terminator (a @ b) = Some k" using k by (simp add: position_append)
  then show ?thesis
    using n k kl by (auto simp: next_line_def nth_append split: if_splits)
qed

lemma split_lines_append:
  "split_lines False (a @ b) =
     (case split_lines False a of (ls, t) \<Rightarrow> (case split_lines False (t @ b) of (ms, u) \<Rightarrow> (ls @ ms, u)))"
proof (induction False a rule: split_lines.induct)
  case (1 bs)
  show ?case
  proof (cases "next_line False bs")
    case None
    then show ?thesis by (simp add: split_lines.simps[of False bs] split: prod.splits)
  next
    case (Some lr)
    obtain l r where lr: "lr = (l, r)" by (cases lr)
    have "next_line False (bs @ b) = Some (l, r @ b)" using next_line_append Some lr by simp
    then show ?thesis
      using 1[OF Some, of l r] Some lr
      by (simp add: split_lines.simps[of False bs] split_lines.simps[of False "bs @ b"] split: prod.splits)
  qed
qed

lemma next_line_None_tail:
  "next_line False t = None \<Longrightarrow> line_len t = length t \<or> (t \<noteq> [] \<and> last t = CHR 0x0D \<and> line_len t = length t - 1)"
proof (cases "position is_terminator t")
  case (Some k)
  assume "next_line False t = None"
  then have k: "t ! k = CHR 0x0D" "k + 1 = length t" using Some by (auto simp: next_line_def split: if_splits)
  then have "t \<noteq> []" "length t - 1 = k" by auto
  then show ?thesis using k Some by (simp add: last_conv_nth line_len_def)
qed (simp add: line_len_def)

lemma split_tail: "next_line eof (snd (split_lines eof bs)) = None"
proof (induction eof bs rule: split_lines.induct)
  case (1 eof bs)
  show ?case
  proof (cases "next_line eof bs")
    case None
    then show ?thesis by (simp add: split_lines.simps[of eof bs])
  next
    case (Some lr)
    then show ?thesis using 1[OF Some] by (cases lr) (auto simp: split_lines.simps[of eof bs] split: prod.splits)
  qed
qed

lemma split_lines_tail_length: "length (snd (split_lines eof bs)) \<le> length bs"
proof (induction eof bs rule: split_lines.induct)
  case (1 eof bs)
  show ?case
  proof (cases "next_line eof bs")
    case None
    then show ?thesis by (simp add: split_lines.simps[of eof bs])
  next
    case (Some lr)
    obtain l r where lr: "lr = (l, r)" by (cases lr)
    have "length r \<le> length bs"
      using Some lr by (auto simp: next_line_def split: option.splits if_splits)
    then show ?thesis
      using 1[OF Some lr[symmetric]] Some lr by (auto simp: split_lines.simps[of eof bs] split: prod.splits)
  qed
qed

lemma run_lines_append:
  "run_lines b (ls @ ms) =
     (case run_lines b ls of
        (Inl e, b') \<Rightarrow> (Inl e, b')
      | (Inr es, b') \<Rightarrow> (case run_lines b' ms of (Inl e, b'') \<Rightarrow> (Inl e, b'') | (Inr fs, b'') \<Rightarrow> (Inr (es @ fs), b'')))"
  by (induction ls arbitrary: b) (auto split: prod.splits sum.splits)

lemma line_len_append: "line_len (a @ b) = (if position is_terminator a = None then length a + line_len b else line_len a)"
  by (auto simp: line_len_def position_append split: option.splits)

lemma line_len_le: "line_len bs \<le> length bs"
  by (auto simp: line_len_def position_Some split: option.splits)

subsection \<open>The line loop\<close>

text \<open>The scan resumes after a terminator-free prefix, so it finds the same terminator.\<close>

lemma position_resume:
  assumes "consumed \<le> scan" "scan \<le> length bs"
    and "position is_terminator (take (scan - consumed) (drop consumed bs)) = None"
  shows "position is_terminator (drop consumed bs) =
    map_option ((+) (scan - consumed)) (position is_terminator (drop scan bs))"
proof -
  have "drop consumed bs = take (scan - consumed) (drop consumed bs) @ drop scan bs"
    using assms(1) by (metis append_take_drop_id drop_drop le_add_diff_inverse2)
  then have "position is_terminator (drop consumed bs) =
      position is_terminator (take (scan - consumed) (drop consumed bs) @ drop scan bs)" by simp
  moreover have "length (take (scan - consumed) (drop consumed bs)) = scan - consumed" using assms(2) by simp
  ultimately show ?thesis using assms(3) by (simp add: position_append del: length_take)
qed

lemma pump_loop_spec:
  assumes "consumed \<le> scan" "scan \<le> length bs"
    and "position is_terminator (take (scan - consumed) (drop consumed bs)) = None"
  shows "case split_lines eof (drop consumed bs) of (ls, t) \<Rightarrow>
    (case run_lines b ls of
       (Inl e, b') \<Rightarrow> (\<exists>c s. pump_loop eof bs consumed scan b ev = (Inl e, c, s, b'))
     | (Inr es, b') \<Rightarrow>
         pump_loop eof bs consumed scan b ev =
           (Inr (ev @ es), length bs - length t, length bs - length t + line_len t, b'))"
  using assms
proof (induction "length bs - consumed" arbitrary: consumed scan b ev rule: less_induct)
  case less
  let ?d = "drop consumed bs"
  note pos = position_resume[OF less.prems]
  have mx: "max consumed scan = scan" using less.prems(1) by simp
  show ?case
  proof (cases "position is_terminator (drop scan bs)")
    case None
    then have "split_lines eof ?d = ([], ?d)" "line_len ?d = length ?d"
      using pos by (simp_all add: split_lines.simps[of eof ?d] next_line_def line_len_def)
    then show ?thesis using None mx less.prems by (simp add: pump_loop.simps[of eof bs consumed scan])
  next
    case (Some off)
    define k where "k = scan - consumed + off"
    have pk: "position is_terminator ?d = Some k" using pos Some by (simp add: k_def)
    have at: "scan + off = consumed + k" using less.prems(1) by (simp add: k_def)
    have kl: "consumed + k < length bs" using pk by (simp add: position_Some less_diff_conv)
    have nk: "?d ! k = bs ! (consumed + k)" using kl by simp
    show ?thesis
    proof (cases "bs ! (consumed + k) = CHR 0x0D \<and> consumed + k + 1 = length bs \<and> \<not> eof")
      case True
      then have "split_lines eof ?d = ([], ?d)" "line_len ?d = k"
        using pk nk kl by (auto simp: split_lines.simps[of _ ?d] next_line_def line_len_def)
      then show ?thesis using True Some mx at kl by (simp add: pump_loop.simps[of _ bs consumed scan])
    next
      case False
      define w where "w = (if bs ! (consumed + k) = CHR 0x0D \<and> consumed + k + 1 < length bs \<and>
        bs ! (consumed + k + 1) = CHR 0x0A then 2 else 1 :: nat)"
      have wl: "consumed + k + w \<le> length bs" using kl by (auto simp: w_def)
      have nl: "next_line eof ?d = Some (take k ?d, drop (consumed + k + w) bs)"
        using pk nk kl False by (auto simp: next_line_def w_def ac_simps)
      obtain ls t where lt: "split_lines eof (drop (consumed + k + w) bs) = (ls, t)" by fastforce
      have sp: "split_lines eof ?d = (take k ?d # ls, t)"
        using nl lt by (simp add: split_lines.simps[of eof ?d])
      have loop: "pump_loop eof bs consumed scan b ev =
        (case block_line b (take k ?d) of
           (Inl e, b') \<Rightarrow> (Inl e, consumed, scan, b')
         | (Inr es, b') \<Rightarrow> pump_loop eof bs (consumed + k + w) (consumed + k + w) b' (ev @ es))"
        unfolding w_def using Some mx at False by (subst pump_loop.simps) (auto simp: Let_def)
      show ?thesis
      proof (cases "block_line b (take k ?d)")
        case (Pair r b')
        show ?thesis
        proof (cases r)
          case (Inl e)
          then show ?thesis using Pair sp loop by simp
        next
          case (Inr es)
          have ih: "case split_lines eof (drop (consumed + k + w) bs) of (ls, t) \<Rightarrow>
            (case run_lines b' ls of
               (Inl e, b'') \<Rightarrow> (\<exists>c s. pump_loop eof bs (consumed + k + w) (consumed + k + w) b' (ev @ es) = (Inl e, c, s, b''))
             | (Inr fs, b'') \<Rightarrow>
                 pump_loop eof bs (consumed + k + w) (consumed + k + w) b' (ev @ es) =
                   (Inr ((ev @ es) @ fs), length bs - length t, length bs - length t + line_len t, b''))"
            by (rule less.hyps) (use kl wl in \<open>auto simp: w_def\<close>)
          then show ?thesis using Pair Inr sp loop lt by (auto split: prod.splits sum.splits)
        qed
      qed
    qed
  qed
qed


lemma split_lines_suffix: "\<exists>p. bs = p @ snd (split_lines eof bs)"
proof (induction eof bs rule: split_lines.induct)
  case (1 eof bs)
  show ?case
  proof (cases "next_line eof bs")
    case None
    then show ?thesis by (simp add: split_lines.simps[of eof bs])
  next
    case (Some lr)
    obtain l r where lr: "lr = (l, r)" by (cases lr)
    obtain n where n: "r = drop n bs"
      using Some lr by (auto simp: next_line_def split: option.splits if_splits)
    obtain p where "r = p @ snd (split_lines eof r)" using 1[OF Some lr[symmetric]] by blast
    then have "bs = (take n bs @ p) @ snd (split_lines eof r)" using n by (metis append.assoc append_take_drop_id)
    moreover have "snd (split_lines eof bs) = snd (split_lines eof r)"
      using Some lr by (simp add: split_lines.simps[of eof bs] split: prod.splits)
    ultimately show ?thesis by metis
  qed
qed

lemma sse_pump_spec:
  assumes q: "\<not> bom_pending q" "scanned q \<le> length (buf q)" "position is_terminator (take (scanned q) (buf q)) = None"
    and sp: "split_lines False (buf q) = (ls, t)"
  shows "run_lines (blk q) ls = (Inr es, b) \<Longrightarrow> sse_pump False q =
      (if line_len t > max_line_bytes then Inl (SseOverrun ''line'' max_line_bytes) else Inr es,
       q\<lparr>buf := t, scanned := line_len t, blk := b\<rparr>)"
    and "run_lines (blk q) ls = (Inl e, b) \<Longrightarrow> \<exists>q'. sse_pump False q = (Inl e, q')"
proof -
  have loop: "case run_lines (blk q) ls of
       (Inl e, b') \<Rightarrow> (\<exists>c s. pump_loop False (buf q) 0 (scanned q) (blk q) [] = (Inl e, c, s, b'))
     | (Inr es, b') \<Rightarrow>
         pump_loop False (buf q) 0 (scanned q) (blk q) [] =
           (Inr ([] @ es), length (buf q) - length t, length (buf q) - length t + line_len t, b')"
    using pump_loop_spec[of 0 "scanned q" "buf q" False "blk q" "[]"] q(2,3) sp by simp
  have "drop (length (buf q) - length t) (buf q) = t"
    using split_lines_suffix[of "buf q" False] sp by (metis append_eq_conv_conj diff_add_inverse2 length_append snd_conv)
  then show "run_lines (blk q) ls = (Inr es, b) \<Longrightarrow> sse_pump False q =
      (if line_len t > max_line_bytes then Inl (SseOverrun ''line'' max_line_bytes) else Inr es,
       q\<lparr>buf := t, scanned := line_len t, blk := b\<rparr>)"
    using loop q(1) by (simp add: sse_pump_def Let_def)
  show "run_lines (blk q) ls = (Inl e, b) \<Longrightarrow> \<exists>q'. sse_pump False q = (Inl e, q')"
    using loop q(1) by (auto simp: sse_pump_def Let_def)
qed

lemma run_lines_bound:
  "run_lines b ls = (Inr es, b') \<Longrightarrow> l \<in> set ls \<Longrightarrow> length l \<le> max_line_bytes"
  by (induction ls arbitrary: b es) (auto simp: block_line_def split: prod.splits sum.splits if_splits)

lemma first_line_bound:
  assumes "split_lines eof bs = (ls, t)" "run_lines b ls = (Inr es, b')" "line_len t \<le> max_line_bytes"
  shows "line_len bs \<le> max_line_bytes"
proof (cases "next_line eof bs")
  case None
  then show ?thesis using assms(1,3) by (simp add: split_lines.simps[of eof bs])
next
  case (Some lr)
  obtain l r where lr: "lr = (l, r)" by (cases lr)
  have "l \<in> set ls" using assms(1) Some lr by (auto simp: split_lines.simps[of eof bs] split: prod.splits)
  moreover have "line_len bs = length l"
  proof (cases "position is_terminator bs")
    case None
    then show ?thesis using Some by (simp add: next_line_def)
  next
    case (Some k)
    then have "k < length bs" by (simp add: position_Some)
    then show ?thesis using Some \<open>next_line eof bs = Some lr\<close> lr by (auto simp: next_line_def line_len_def split: if_splits)
  qed
  ultimately show ?thesis using run_lines_bound[OF assms(2)] by simp
qed

subsection \<open>The decoder contract\<close>

text \<open>The stream so far is a strict prefix of the BOM: the decision is open.\<close>

definition bom_open :: "bytes \<Rightarrow> bool" where
  "bom_open p \<longleftrightarrow> length p < length bom \<and> starts_with p bom"

definition sse_holds :: "sse_parser \<Rightarrow> bytes \<Rightarrow> bool" where
  "sse_holds s p \<longleftrightarrow>
     (if bom_pending s then s = sse_new\<lparr>buf := p\<rparr> \<and> bom_open p
      else \<not> bom_open p \<and> buf s = snd (split_lines False (strip_bom p)) \<and> scanned s = line_len (buf s) \<and>
        (\<exists>es. run_lines block_default (fst (split_lines False (strip_bom p))) = (Inr es, blk s)))"

lemma bom_open_cases: "bom_open p \<longleftrightarrow> p = [] \<or> p = [CHR 0xEF] \<or> p = [CHR 0xEF, CHR 0xBB]"
  by (cases p rule: list.exhaust; cases "tl p") (auto simp: bom_open_def bom_def starts_with_iff)

lemma bom_open_prefix: "bom_open (p @ c) \<Longrightarrow> bom_open p"
  by (auto simp: bom_open_def starts_with_iff)

lemma bom_closed_append:
  assumes "\<not> bom_open p"
  shows "strip_bom (p @ c) = strip_bom p @ c" "\<not> bom_open (p @ c)"
proof -
  show "\<not> bom_open (p @ c)" using assms bom_open_prefix by blast
  have "starts_with bom (p @ c) \<Longrightarrow> starts_with bom p"
  proof -
    assume "starts_with bom (p @ c)"
    then obtain r where "p @ c = bom @ r" by (auto simp: starts_with_iff)
    then consider us where "p = bom @ us" | us where "bom = p @ us" "us \<noteq> []"
      unfolding append_eq_append_conv2 by (metis append_Nil2)
    then show "starts_with bom p"
    proof cases
      case 2
      have "length p < length bom" by (subst 2(1)) (simp add: 2(2))
      then have "bom_open p" using 2(1) unfolding bom_open_def starts_with_iff by blast
      then show ?thesis using assms by simp
    qed (auto simp: starts_with_iff)
  qed
  moreover have "starts_with bom p \<Longrightarrow> starts_with bom (p @ c)" by (auto simp: starts_with_iff)
  moreover have "starts_with bom p \<Longrightarrow> drop (length bom) (p @ c) = drop (length bom) p @ c" by (auto simp: starts_with_iff)
  ultimately show "strip_bom (p @ c) = strip_bom p @ c" by (auto simp: strip_bom_def)
qed

lemma bom_open_nothing:
  assumes "bom_open p"
  shows "strip_bom p = p" "split_lines False p = ([], p)" "position is_terminator p = None"
proof -
  show pos: "position is_terminator p = None" using assms by (auto simp: bom_open_cases is_terminator_def)
  show "strip_bom p = p" using assms by (auto simp: bom_open_cases strip_bom_def bom_def starts_with_def)
  show "split_lines False p = ([], p)" using pos by (simp add: split_lines.simps[of False p] next_line_def)
qed


lemma line_len_clean: "position is_terminator (take (line_len t) t) = None"
  by (auto simp: line_len_def position_None position_Some in_set_conv_nth split: option.splits)

lemma sse_decode_run:
  "run_lines block_default (fst (split_lines False (strip_bom p))) = (Inr es, b) \<Longrightarrow> sse_decode p = es"
  by (simp add: sse_decode_def)

text \<open>
  One fed chunk: \<open>run\<close> is what the reference makes of the stream so far and \<open>more_lines\<close> of the held
  tail with the chunk.
\<close>

lemma sse_pump_resume:
  assumes holds: "sse_holds s p" "\<not> bom_pending s"
    and sp: "split_lines False (buf s @ c) = (ms, u)"
  shows "run_lines (blk s) ms = (Inr fs, b) \<Longrightarrow> sse_pump False (s\<lparr>buf := buf s @ c\<rparr>) =
      (if line_len u > max_line_bytes then Inl (SseOverrun ''line'' max_line_bytes) else Inr fs,
       s\<lparr>buf := u, scanned := line_len u, blk := b\<rparr>)"
    and "run_lines (blk s) ms = (Inl e, b) \<Longrightarrow> \<exists>q'. sse_pump False (s\<lparr>buf := buf s @ c\<rparr>) = (Inl e, q')"
proof -
  have sc: "scanned s = line_len (buf s)" using holds by (simp add: sse_holds_def)
  have "scanned s \<le> length (buf s)" using sc line_len_le by simp
  moreover from this have "take (scanned s) (buf s @ c) = take (scanned s) (buf s)" by simp
  ultimately have pre: "\<not> bom_pending (s\<lparr>buf := buf s @ c\<rparr>)" "scanned (s\<lparr>buf := buf s @ c\<rparr>) \<le> length (buf (s\<lparr>buf := buf s @ c\<rparr>))"
    "position is_terminator (take (scanned (s\<lparr>buf := buf s @ c\<rparr>)) (buf (s\<lparr>buf := buf s @ c\<rparr>))) = None"
    using holds(2) sc line_len_clean[of "buf s"] by simp_all
  note spec = sse_pump_spec[OF pre, of ms u]
  show "run_lines (blk s) ms = (Inr fs, b) \<Longrightarrow> sse_pump False (s\<lparr>buf := buf s @ c\<rparr>) =
      (if line_len u > max_line_bytes then Inl (SseOverrun ''line'' max_line_bytes) else Inr fs,
       s\<lparr>buf := u, scanned := line_len u, blk := b\<rparr>)"
    using spec(1) sp by simp
  show "run_lines (blk s) ms = (Inl e, b) \<Longrightarrow> \<exists>q'. sse_pump False (s\<lparr>buf := buf s @ c\<rparr>) = (Inl e, q')"
    using spec(2) sp by simp
qed

lemma sse_pump_begin:
  assumes "sse_holds s p" "bom_pending s" "\<not> bom_open (p @ c)" "p @ c \<noteq> []"
  shows "sse_pump False (s\<lparr>buf := buf s @ c\<rparr>) =
    sse_pump False (sse_new\<lparr>buf := strip_bom (p @ c), bom_pending := False\<rparr>)"
proof -
  let ?q = "sse_new\<lparr>buf := p @ c\<rparr>"
  have s: "s\<lparr>buf := buf s @ c\<rparr> = ?q" using assms(1,2) by (simp add: sse_holds_def)
  have open_no: "\<not> (length (p @ c) < length bom \<and> starts_with (p @ c) bom)" using assms(3) by (simp add: bom_open_def)
  have "?q\<lparr>buf := (if starts_with bom (buf ?q) then drop (length bom) (buf ?q) else buf ?q),
          bom_pending := False, scanned := 0\<rparr> = sse_new\<lparr>buf := strip_bom (p @ c), bom_pending := False\<rparr>"
    by (simp add: sse_new_def strip_bom_def)
  moreover have "bom_pending ?q" "buf ?q = p @ c" by (simp_all add: sse_new_def)
  moreover have "\<not> bom_pending (sse_new\<lparr>buf := strip_bom (p @ c), bom_pending := False\<rparr>)" by simp
  ultimately show ?thesis
    unfolding s sse_pump_def[of False ?q] sse_pump_def[of False "sse_new\<lparr>buf := strip_bom (p @ c), bom_pending := False\<rparr>"]
    using open_no by (simp only: if_True if_False Let_def simp_thms)
qed

lemma sse_pump_wait:
  assumes "sse_holds s p" "bom_pending s" "bom_open (p @ c)"
  shows "c \<noteq> [] \<Longrightarrow> sse_pump False (s\<lparr>buf := buf s @ c\<rparr>) = (Inr [], s\<lparr>buf := p @ c\<rparr>)"
  using assms by (auto simp: sse_pump_def sse_holds_def sse_new_def bom_open_def)

lemma new_holds: "sse_holds sse_new []"
  by (simp add: sse_holds_def sse_new_def bom_open_cases)

lemma feed_pumps:
  assumes "sse_feed s c = (Inr xs, t)" "c \<noteq> []"
  shows "sse_pump False (s\<lparr>buf := buf s @ c\<rparr>) = (Inr xs, t)"
  using assms by (auto simp: sse_feed_def split: if_splits)

lemma fresh_pump:
  assumes sp: "split_lines False bs = (ms, u)"
  shows "run_lines block_default ms = (Inr fs, b) \<Longrightarrow> sse_pump False (sse_new\<lparr>buf := bs, bom_pending := False\<rparr>) =
      (if line_len u > max_line_bytes then Inl (SseOverrun ''line'' max_line_bytes) else Inr fs,
       \<lparr>buf = u, scanned = line_len u, bom_pending = False, blk = b\<rparr>)"
    and "run_lines block_default ms = (Inl e, b) \<Longrightarrow>
       \<exists>q'. sse_pump False (sse_new\<lparr>buf := bs, bom_pending := False\<rparr>) = (Inl e, q')"
  using sse_pump_spec[of "sse_new\<lparr>buf := bs, bom_pending := False\<rparr>" ms u] sp
  by (simp_all add: sse_new_def)

lemma sse_feed_holds:
  assumes holds: "sse_holds s p" and f: "sse_feed s c = (Inr xs, t)"
  shows "sse_holds t (p @ c) \<and> sse_decode (p @ c) = sse_decode p @ xs"
proof (cases "c = []")
  case True
  then show ?thesis using holds f by (simp add: sse_feed_def)
next
  case ne: False
  note pump = feed_pumps[OF f ne]
  show ?thesis
  proof (cases "bom_pending s")
    case True
    then have p: "bom_open p" "s = sse_new\<lparr>buf := p\<rparr>" using holds by (simp_all add: sse_holds_def)
    have dp: "sse_decode p = []" using bom_open_nothing[OF p(1)] by (simp add: sse_decode_def)
    show ?thesis
    proof (cases "bom_open (p @ c)")
      case o: True
      have "xs = []" "t = s\<lparr>buf := p @ c\<rparr>" using sse_pump_wait[OF holds True o ne] pump by simp_all
      then show ?thesis
        using o p(2) dp bom_open_nothing[OF o] by (simp add: sse_holds_def sse_decode_def sse_new_def)
    next
      case False
      obtain ms u where sp: "split_lines False (strip_bom (p @ c)) = (ms, u)" by fastforce
      have pumped: "sse_pump False (sse_new\<lparr>buf := strip_bom (p @ c), bom_pending := False\<rparr>) = (Inr xs, t)"
        using sse_pump_begin[OF holds True False] ne pump by simp
      obtain fs b where run: "run_lines block_default ms = (Inr fs, b)"
        using fresh_pump(2)[OF sp] pumped by (cases "run_lines block_default ms"; cases "fst (run_lines block_default ms)") force+
      have "xs = fs" "t = \<lparr>buf = u, scanned = line_len u, bom_pending = False, blk = b\<rparr>"
        using fresh_pump(1)[OF sp run] pumped by (auto split: if_splits)
      then show ?thesis using False sp run dp sse_decode_run[of "p @ c" fs b] by (simp add: sse_holds_def)
    qed
  next
    case False
    have h: "\<not> bom_open p" "buf s = snd (split_lines False (strip_bom p))" using holds False by (simp_all add: sse_holds_def)
    obtain es where es: "run_lines block_default (fst (split_lines False (strip_bom p))) = (Inr es, blk s)"
      using holds False by (auto simp: sse_holds_def)
    obtain ms u where sp: "split_lines False (buf s @ c) = (ms, u)" by fastforce
    obtain fs b where run: "run_lines (blk s) ms = (Inr fs, b)"
      using sse_pump_resume(2)[OF holds False sp] pump by (cases "run_lines (blk s) ms"; cases "fst (run_lines (blk s) ms)") force+
    have t: "xs = fs" "t = s\<lparr>buf := u, scanned := line_len u, blk := b\<rparr>"
      using sse_pump_resume(1)[OF holds False sp run] pump by (auto split: if_splits)
    have whole: "split_lines False (strip_bom (p @ c)) = (fst (split_lines False (strip_bom p)) @ ms, u)"
      using split_lines_append[of "strip_bom p" c] h sp bom_closed_append(1)[OF h(1)] by (simp split: prod.splits)
    have "run_lines block_default (fst (split_lines False (strip_bom (p @ c)))) = (Inr (es @ fs), b)"
      using whole es run by (simp add: run_lines_append)
    then show ?thesis
      using t whole False bom_closed_append(2)[OF h(1)] sse_decode_run[OF es] sse_decode_run
      by (simp add: sse_holds_def)
  qed
qed


lemma sse_accepts_prefix: "sse_accepts (p @ c) \<Longrightarrow> sse_accepts p"
proof -
  assume acc: "sse_accepts (p @ c)"
  have first: "line_len p \<le> max_line_bytes"
    using acc line_len_append[of p c] by (auto simp: sse_accepts_def line_len_def split: if_splits option.splits)
  show ?thesis
  proof (cases "bom_open p")
    case True
    then show ?thesis using bom_open_nothing[OF True] first by (simp add: sse_accepts_def)
  next
    case False
    obtain ls t where lt: "split_lines False (strip_bom p) = (ls, t)" by fastforce
    obtain ms u where mu: "split_lines False (t @ c) = (ms, u)" by fastforce
    have whole: "split_lines False (strip_bom (p @ c)) = (ls @ ms, u)"
      using split_lines_append[of "strip_bom p" c] lt mu bom_closed_append(1)[OF False] by simp
    obtain es b where "run_lines block_default (ls @ ms) = (Inr es, b)"
      using acc whole by (auto simp: sse_accepts_def)
    then obtain fs b' gs where run: "run_lines block_default ls = (Inr fs, b')" "run_lines b' ms = (Inr gs, b)"
      by (auto simp: run_lines_append split: prod.splits sum.splits)
    have "line_len u \<le> max_line_bytes" using acc whole by (simp add: sse_accepts_def)
    from first_line_bound[OF mu run(2) this] have "line_len (t @ c) \<le> max_line_bytes" .
    then have "line_len t \<le> max_line_bytes"
      using line_len_append[of t c] by (auto simp: line_len_def split: if_splits option.splits)
    then show ?thesis using lt run(1) first by (simp add: sse_accepts_def)
  qed
qed

lemma sse_feed_accepts:
  assumes holds: "sse_holds s p" and acc: "sse_accepts (p @ c)"
  shows "\<exists>xs t. sse_feed s c = (Inr xs, t)"
proof (cases "c = []")
  case True
  then show ?thesis by (simp add: sse_feed_def)
next
  case ne: False
  show ?thesis
  proof (cases "bom_pending s")
    case True
    then have p: "bom_open p" "s = sse_new\<lparr>buf := p\<rparr>" using holds by (simp_all add: sse_holds_def)
    have "length p + line_len c \<le> max_line_bytes"
      using acc line_len_append[of p c] bom_open_nothing(3)[OF p(1)] by (simp add: sse_accepts_def)
    then have feed: "sse_feed s c = sse_pump False (s\<lparr>buf := buf s @ c\<rparr>)"
      using ne True p(2) by (auto simp: sse_feed_def line_len_def)
    show ?thesis
    proof (cases "bom_open (p @ c)")
      case o: True
      then show ?thesis using feed sse_pump_wait[OF holds True o ne] by simp
    next
      case False
      obtain ms u where sp: "split_lines False (strip_bom (p @ c)) = (ms, u)" by fastforce
      then obtain fs b where "run_lines block_default ms = (Inr fs, b)" "line_len u \<le> max_line_bytes"
        using acc by (auto simp: sse_accepts_def)
      then show ?thesis using feed sse_pump_begin[OF holds True False] ne fresh_pump(1)[OF sp] by simp
    qed
  next
    case False
    have h: "\<not> bom_open p" "buf s = snd (split_lines False (strip_bom p))" "scanned s = line_len (buf s)"
      using holds False by (simp_all add: sse_holds_def)
    obtain es where es: "run_lines block_default (fst (split_lines False (strip_bom p))) = (Inr es, blk s)"
      using holds False by (auto simp: sse_holds_def)
    obtain ms u where sp: "split_lines False (buf s @ c) = (ms, u)" by fastforce
    have whole: "split_lines False (strip_bom (p @ c)) = (fst (split_lines False (strip_bom p)) @ ms, u)"
      using split_lines_append[of "strip_bom p" c] h sp bom_closed_append(1)[OF h(1)] by (simp split: prod.splits)
    then obtain fs b where run: "run_lines (blk s) ms = (Inr fs, b)"
      using acc es by (auto simp: sse_accepts_def run_lines_append split: prod.splits sum.splits)
    have ul: "line_len u \<le> max_line_bytes" using acc whole by (simp add: sse_accepts_def)
    have tail: "next_line False (buf s) = None" using split_tail[of False] h(2) by simp
    have "(buf s = [] \<or> last (buf s) \<noteq> CHR 0x0D) \<Longrightarrow> scanned s + line_len c \<le> max_line_bytes"
    proof -
      assume "buf s = [] \<or> last (buf s) \<noteq> CHR 0x0D"
      then have "line_len (buf s) = length (buf s)" using next_line_None_tail[OF tail] by (auto simp: line_len_def)
      then have "position is_terminator (buf s) = None"
        by (auto simp: line_len_def position_Some split: option.splits)
      then have "line_len (buf s @ c) = scanned s + line_len c"
        using h(3) \<open>line_len (buf s) = length (buf s)\<close> by (simp add: line_len_append)
      then show ?thesis using first_line_bound[OF sp run ul] by simp
    qed
    then have "sse_feed s c = sse_pump False (s\<lparr>buf := buf s @ c\<rparr>)"
      using ne False by (auto simp: sse_feed_def line_len_def)
    then show ?thesis using sse_pump_resume(1)[OF holds False sp run] ul by simp
  qed
qed

interpretation sse: incremental_decoder sse_feed sse_new sse_holds sse_decode sse_accepts
proof
  show "sse_decode [] = []"
    by (simp add: sse_decode_def strip_bom_def starts_with_def bom_def split_lines.simps[of False "[]"] next_line_def)
qed (auto intro: new_holds sse_feed_accepts sse_accepts_prefix dest: sse_feed_holds)

end
