(* ===== verification/Sse_Theorems.thy ===== *)
theory Sse_Theorems
  imports Sse_Props
begin

text \<open>The properties of the SSE parser.\<close>

subsection \<open>Bounds\<close>

definition sse_bounded :: "sse_parser \<Rightarrow> bool" where
  "sse_bounded s \<longleftrightarrow> length (buf s) \<le> max_line_bytes + 1 \<and> scanned s \<le> max_line_bytes \<and>
     length (data (blk s)) \<le> max_data_bytes"

lemma block_line_data:
  "length (data b) \<le> max_data_bytes \<Longrightarrow> length (data (snd (block_line b l))) \<le> max_data_bytes"
  by (auto simp: block_line_def block_dispatch_def Let_def max_data_bytes_def split: option.splits)

lemma run_lines_data:
  "length (data b) \<le> max_data_bytes \<Longrightarrow> length (data (snd (run_lines b ls))) \<le> max_data_bytes"
proof (induction ls arbitrary: b)
  case (Cons l ls)
  obtain r b' where bl: "block_line b l = (r, b')" by fastforce
  then have d: "length (data b') \<le> max_data_bytes" using block_line_data[OF Cons.prems, of l] by simp
  show ?case
  proof (cases r)
    case (Inr es)
    then have "snd (run_lines b (l # ls)) = snd (run_lines b' ls)" using bl by (simp split: prod.splits sum.splits)
    then show ?thesis using Cons.IH[OF d] by simp
  qed (use bl d in simp)
qed simp

lemma holds_bounded:
  assumes "sse_holds s p" "line_len (buf s) \<le> max_line_bytes"
  shows "sse_bounded s"
proof (cases "bom_pending s")
  case True
  then show ?thesis using assms
    by (auto simp: sse_holds_def sse_bounded_def sse_new_def bom_open_def bom_def block_default_def max_line_bytes_def)
next
  case False
  have tail: "next_line False (buf s) = None" using split_tail[of False] assms(1) False by (simp add: sse_holds_def)
  obtain es where "run_lines block_default (fst (split_lines False (strip_bom p))) = (Inr es, blk s)"
    using assms(1) False by (auto simp: sse_holds_def)
  then have "length (data (blk s)) \<le> max_data_bytes"
    using run_lines_data[of block_default "fst (split_lines False (strip_bom p))"] by (simp add: block_default_def)
  then show ?thesis
    using assms False next_line_None_tail[OF tail] by (auto simp: sse_bounded_def sse_holds_def)
qed

lemma fed_tail_bound:
  assumes holds: "sse_holds s p" "line_len (buf s) \<le> max_line_bytes" and f: "sse_feed s c = (Inr xs, t)"
  shows "line_len (buf t) \<le> max_line_bytes"
proof (cases "c = []")
  case True
  then show ?thesis using holds f by (simp add: sse_feed_def)
next
  case False
  have h: "sse_holds t (p @ c)" using sse_feed_holds[OF holds(1) f] by simp
  show ?thesis
  proof (cases "bom_pending t")
    case True
    then have "length (buf t) < 3" using h by (auto simp: sse_holds_def bom_open_def bom_def sse_new_def dest: arg_cong[of _ _ buf])
    then show ?thesis using line_len_le[of "buf t"] by (simp add: max_line_bytes_def)
  next
    case no: False
    have "scanned t \<le> max_line_bytes"
      using feed_pumps[OF f False] no
      by (auto simp: sse_pump_def Let_def split: if_splits prod.splits sum.splits)
    then show ?thesis using h no by (simp add: sse_holds_def)
  qed
qed

lemma feed_all_tail_bound:
  "sse_holds s p \<Longrightarrow> line_len (buf s) \<le> max_line_bytes \<Longrightarrow> feed_all sse_feed s cs = (Inr xs, t) \<Longrightarrow>
     line_len (buf t) \<le> max_line_bytes"
proof (induction cs arbitrary: s p xs)
  case Nil
  then show ?case by simp
next
  case (Cons c cs)
  obtain ys s1 where f: "feed_all sse_feed s1 cs = (Inr (drop (length ys) xs), t)" "sse_feed s c = (Inr ys, s1)"
    using Cons.prems(3) by (auto split: prod.splits sum.splits)
  show ?case
    using Cons.IH[OF _ _ f(1)] sse_feed_holds[OF Cons.prems(1) f(2)] fed_tail_bound[OF Cons.prems(1,2) f(2)] by blast
qed

lemma new_tail_bound: "line_len (buf sse_new) \<le> max_line_bytes"
  by (simp add: sse_new_def line_len_def)

text \<open>
  C22. Chunk boundaries do not matter: whatever way the network cuts the stream, a successful
  parse yields exactly the events of the whole stream's lines, and a stream whose lines are all
  acceptable is parsed successfully under every cut.
\<close>

theorem sse_chunking_irrelevant:
  "(feed_all sse_feed sse_new cs = (Inr xs, t) \<longrightarrow> xs = sse_decode (concat cs)) \<and>
   (sse_accepts (concat cs) \<longrightarrow> fst (feed_all sse_feed sse_new cs) = Inr (sse_decode (concat cs)))"
  using sse.decoded_output[of cs xs t] sse.chunking_irrelevant[of cs] by blast

text \<open>
  Memory is bounded by the two caps: after any successful run of feeds the held bytes are at
  most one line cap and one held CR, and the pending \<open>data\<close> at most its cap.
\<close>

theorem sse_memory_bounded:
  assumes "feed_all sse_feed sse_new cs = (Inr xs, t)"
  shows "length (buf t) \<le> max_line_bytes + 1 \<and> scanned t \<le> max_line_bytes \<and>
    length (data (blk t)) \<le> max_data_bytes"
  using holds_bounded[of t "concat cs"] sse.feed_all_holds[OF new_holds assms]
    feed_all_tail_bound[OF new_holds new_tail_bound assms] by (simp add: sse_bounded_def)

theorem sse_memory_bounded_witness:
  "length (buf (snd (feed_all sse_feed sse_new [''data: a'']))) \<le> max_line_bytes + 1"
proof -
  have pos: "position is_terminator ''data: a'' = None" by (simp add: is_terminator_def)
  have sp: "split_lines False ''data: a'' = ([], ''data: a'')"
    by (simp add: split_lines.simps[of False "''data: a''"] next_line_def pos del: position.simps)
  have "sse_accepts ''data: a''"
    using sp pos by (simp add: sse_accepts_def strip_bom_def starts_with_def bom_def line_len_def
        max_line_bytes_def del: position.simps)
  then obtain xs t where "feed_all sse_feed sse_new [''data: a''] = (Inr xs, t)"
    using sse.feed_all_accepts[OF new_holds, of "[''data: a'']"] by auto
  from sse_memory_bounded[OF this] this show ?thesis by simp
qed

subsection \<open>Round trip\<close>

text \<open>
  Writing events as the protocol's server does: an \<open>event\<close> field, one \<open>data\<close> field per line of
  the payload, and the blank line that dispatches.
\<close>

definition lf :: bytes where
  "lf = [CHR 0x0A]"

definition event_lines :: "string \<times> string list \<Rightarrow> bytes list" where
  "event_lines e = (''event: '' @ fst e) # map (\<lambda>l. ''data: '' @ l) (snd e) @ [[]]"

definition sse_encode :: "(string \<times> string list) list \<Rightarrow> bytes" where
  "sse_encode evs = concat (map (\<lambda>l. l @ lf) (concat (map event_lines evs)))"

definition data_of :: "string list \<Rightarrow> string" where
  "data_of ls = concat (map (\<lambda>l. l @ lf) ls)"

definition plain :: "bytes \<Rightarrow> bool" where
  "plain l \<longleftrightarrow> utf8_valid l \<and> position is_terminator l = None \<and> length l + 7 \<le> max_line_bytes"

definition wf_event :: "string \<times> string list \<Rightarrow> bool" where
  "wf_event e \<longleftrightarrow> plain (fst e) \<and> snd e \<noteq> [] \<and> (\<forall>l\<in>set (snd e). plain l) \<and>
     length (data_of (snd e)) \<le> max_data_bytes"

lemma split_lines_clean:
  assumes "position is_terminator l = None"
  shows "split_lines False ((l @ lf) @ r) = (l # fst (split_lines False r), snd (split_lines False r))"
proof -
  have "position is_terminator ((l @ lf) @ r) = Some (length l)"
    using assms by (simp add: position_append lf_def is_terminator_def)
  then have "next_line False ((l @ lf) @ r) = Some (l, r)"
    by (simp add: next_line_def nth_append lf_def)
  then show ?thesis by (simp add: split_lines.simps[of False "l @ lf @ r"] split: prod.splits)
qed

lemma split_lines_join:
  "\<forall>l\<in>set ls. position is_terminator l = None \<Longrightarrow>
     split_lines False (concat (map (\<lambda>l. l @ lf) ls)) = (ls, [])"
proof (induction ls)
  case Nil
  then show ?case by (simp add: split_lines.simps[of False "[]"] next_line_def)
next
  case (Cons l ls)
  then show ?case using split_lines_clean[of l "concat (map (\<lambda>l. l @ lf) ls)"] by simp
qed

lemma ascii_prefix: "\<forall>c\<in>set p. byte_val c < 128 \<Longrightarrow> utf8_valid (p @ l) = utf8_valid l"
  using utf8_valid_append[OF utf8_valid_ascii] by blast

lemma field_line_simps [simp]:
  "utf8_valid (''event: '' @ v) = utf8_valid v" "utf8_valid (''data: '' @ v) = utf8_valid v"
  using ascii_prefix[of "''event: ''" v] ascii_prefix[of "''data: ''" v] by (simp_all add: byte_val_def)

lemma block_line_event: "plain v \<Longrightarrow> block_line b (''event: '' @ v) = (Inr [], b\<lparr>event_type := v\<rparr>)"
  using field_line_simps(1)[of v] by (simp add: block_line_def plain_def starts_with_def)

lemma block_line_data_field:
  "plain v \<Longrightarrow> length (data b) + length v + 1 \<le> max_data_bytes \<Longrightarrow>
     block_line b (''data: '' @ v) = (Inr [], b\<lparr>data := data b @ v @ lf\<rparr>)"
  using field_line_simps(2)[of v] by (simp add: block_line_def plain_def starts_with_def lf_def)

lemma run_data_lines:
  "\<forall>l\<in>set ls. plain l \<Longrightarrow> length (data b) + length (data_of ls) \<le> max_data_bytes \<Longrightarrow>
     run_lines b (map (\<lambda>l. ''data: '' @ l) ls) = (Inr [], b\<lparr>data := data b @ data_of ls\<rparr>)"
proof (induction ls arbitrary: b)
  case Nil
  then show ?case by (simp add: data_of_def)
next
  case (Cons l ls)
  have "run_lines (b\<lparr>data := data b @ l @ lf\<rparr>) (map (\<lambda>l. ''data: '' @ l) ls) =
      (Inr [], b\<lparr>data := data b @ data_of (l # ls)\<rparr>)"
    using Cons.IH[of "b\<lparr>data := data b @ l @ lf\<rparr>"] Cons.prems by (simp add: data_of_def)
  moreover have "block_line b (''data: '' @ l) = (Inr [], b\<lparr>data := data b @ l @ lf\<rparr>)"
    using block_line_data_field[of l b] Cons.prems by (simp add: data_of_def lf_def)
  ultimately show ?case by simp
qed

lemma data_of_nonempty: "ls \<noteq> [] \<Longrightarrow> data_of ls \<noteq> []"
  by (cases ls) (simp_all add: data_of_def lf_def)

lemma run_event_lines:
  assumes "wf_event e"
  shows "run_lines block_default (event_lines e) =
    (Inr [\<lparr>sse_event = fst e, sse_data = butlast (data_of (snd e))\<rparr>], block_default)"
proof -
  have "run_lines (block_default\<lparr>event_type := fst e\<rparr>) (map (\<lambda>l. ''data: '' @ l) (snd e)) =
      (Inr [], block_default\<lparr>event_type := fst e, data := data_of (snd e)\<rparr>)"
    using run_data_lines[of "snd e" "block_default\<lparr>event_type := fst e\<rparr>"] assms
    by (simp add: wf_event_def block_default_def)
  moreover have "block_line block_default (''event: '' @ fst e) = (Inr [], block_default\<lparr>event_type := fst e\<rparr>)"
    using block_line_event assms by (simp add: wf_event_def)
  moreover have "data_of (snd e) \<noteq> []" using data_of_nonempty assms by (simp add: wf_event_def)
  ultimately show ?thesis
    by (simp add: event_lines_def run_lines_append block_line_def block_dispatch_def block_default_def)
qed

lemma run_encoded:
  "\<forall>e\<in>set evs. wf_event e \<Longrightarrow> run_lines block_default (concat (map event_lines evs)) =
     (Inr (map (\<lambda>e. \<lparr>sse_event = fst e, sse_data = butlast (data_of (snd e))\<rparr>) evs), block_default)"
  by (induction evs) (simp_all add: run_lines_append run_event_lines)

lemma encoded_clean: "\<forall>e\<in>set evs. wf_event e \<Longrightarrow> l \<in> set (concat (map event_lines evs)) \<Longrightarrow> position is_terminator l = None"
proof -
  assume "\<forall>e\<in>set evs. wf_event e" "l \<in> set (concat (map event_lines evs))"
  then obtain e where e: "wf_event e" "l \<in> set (event_lines e)" by auto
  have p: "position is_terminator (''event: '' @ v) = None" "position is_terminator (''data: '' @ v) = None"
    if "plain v" for v
    using that by (simp_all add: plain_def is_terminator_def)
  show ?thesis using e p by (auto simp: event_lines_def wf_event_def simp del: position.simps(2) append.simps)
qed

lemma encoded_no_bom: "strip_bom (sse_encode evs) = sse_encode evs"
  by (cases evs) (simp_all add: sse_encode_def event_lines_def strip_bom_def starts_with_def bom_def)

text \<open>
  C23. Round trip: a stream written event by event (a type, one or more data lines) is parsed,
  under every cut into chunks, to exactly those events with their data lines joined by LF, the
  final LF removed.
\<close>

theorem sse_roundtrip:
  assumes "\<forall>e\<in>set evs. wf_event e" "concat cs = sse_encode evs"
  shows "fst (feed_all sse_feed sse_new cs) =
    Inr (map (\<lambda>e. \<lparr>sse_event = fst e, sse_data = butlast (data_of (snd e))\<rparr>) evs)"
proof -
  have sp: "split_lines False (strip_bom (sse_encode evs)) = (concat (map event_lines evs), [])"
    unfolding encoded_no_bom unfolding sse_encode_def
    by (rule split_lines_join) (use encoded_clean[OF assms(1)] in blast)
  have "line_len (sse_encode evs) \<le> max_line_bytes"
    using first_line_bound[of False "sse_encode evs"] sp run_encoded[OF assms(1)]
    by (simp add: encoded_no_bom line_len_def)
  then have "sse_accepts (sse_encode evs)"
    using sp run_encoded[OF assms(1)] by (simp add: sse_accepts_def line_len_def)
  then show ?thesis
    using sse.chunking_irrelevant[of cs] assms(2) sp run_encoded[OF assms(1)] by (simp add: sse_decode_def)
qed

theorem sse_roundtrip_witness:
  "fst (feed_all sse_feed sse_new [''event: de'', ''lta'' @ lf @ ''data: a'', lf @ ''data: b'' @ lf, lf]) =
     Inr [\<lparr>sse_event = ''delta'', sse_data = ''a'' @ lf @ ''b''\<rparr>]"
proof -
  have w: "wf_event (''delta'', [''a'', ''b''])"
    by (simp add: wf_event_def plain_def data_of_def lf_def is_terminator_def max_line_bytes_def max_data_bytes_def
        utf8_step_def utf8_follow_def byte_val_def)
  have "concat [''event: de'', ''lta'' @ lf @ ''data: a'', lf @ ''data: b'' @ lf, lf] = sse_encode [(''delta'', [''a'', ''b''])]"
    by (simp add: sse_encode_def event_lines_def lf_def)
  from sse_roundtrip[OF _ this] w show ?thesis by (simp add: data_of_def lf_def del: feed_all.simps)
qed

theorem sse_chunking_irrelevant_witness:
  "fst (feed_all sse_feed sse_new [''data: a''])  = Inr (sse_decode ''data: a'')"
proof -
  have pos: "position is_terminator ''data: a'' = None" by (simp add: is_terminator_def)
  have "split_lines False ''data: a'' = ([], ''data: a'')"
    by (simp add: split_lines.simps[of False "''data: a''"] next_line_def pos del: position.simps)
  then have "sse_accepts (concat [''data: a''])"
    using pos by (simp add: sse_accepts_def strip_bom_def starts_with_def bom_def line_len_def
        max_line_bytes_def del: position.simps)
  then show ?thesis using sse_chunking_irrelevant[of "[''data: a'']"] by simp
qed


subsection \<open>End of stream\<close>

lemma finish_clean:
  assumes "position is_terminator (buf q) = None" "length (buf q) \<le> max_line_bytes" "scanned q \<le> length (buf q)"
    and "bom_pending q \<longrightarrow> \<not> starts_with bom (buf q)"
  shows "sse_finish q = (Inr [], \<lparr>buf = [], scanned = 0, bom_pending = False, blk = block_default\<rparr>)"
proof -
  have pd: "position is_terminator (drop k (buf q)) = None" for k
    using assms(1) by (auto simp: position_None dest: in_set_dropD)
  have "\<exists>q'. sse_pump True q = (Inr [], q') \<and> bom_pending q' = False"
    using pd[of 0] pd[of "scanned q"] assms(2,4) by (auto simp: sse_pump_def pump_loop.simps Let_def)
  then show ?thesis by (auto simp: sse_finish_def block_default_def)
qed

text \<open>
  An event that is incomplete at the end of the stream is never dispatched: after a
  successful run over a stream that does not end in a CR, \<open>finish\<close> reports no event and resets
  buffer, cursor and block.
\<close>

theorem sse_finish_discards:
  assumes "feed_all sse_feed sse_new cs = (Inr xs, t)" "concat cs = [] \<or> last (concat cs) \<noteq> CHR 0x0D"
  shows "sse_finish t =
    (Inr [], \<lparr>buf = [], scanned = 0, bom_pending = False, blk = block_default\<rparr>)"
proof -
  let ?p = "concat cs"
  have h: "sse_holds t ?p" using sse.feed_all_holds[OF new_holds assms(1)] by simp
  have ll: "line_len (buf t) \<le> max_line_bytes" using feed_all_tail_bound[OF new_holds new_tail_bound assms(1)] .
  show ?thesis
  proof (cases "bom_pending t")
    case True
    then have t: "t = sse_new\<lparr>buf := ?p\<rparr>" "bom_open ?p" using h by (simp_all add: sse_holds_def)
    then have b: "buf t = ?p" "scanned t = 0" by (simp_all add: sse_new_def)
    have "length (buf t) \<le> max_line_bytes" "\<not> starts_with bom (buf t)"
      using t(2) unfolding b(1) bom_open_def by (auto simp: bom_def max_line_bytes_def starts_with_iff)
    then show ?thesis using b bom_open_nothing(3)[OF t(2)] by (intro finish_clean) simp_all
  next
    case False
    have bt: "buf t = snd (split_lines False (strip_bom ?p))" "scanned t = line_len (buf t)"
      using h False by (simp_all add: sse_holds_def)
    have nocr: "buf t = [] \<or> last (buf t) \<noteq> CHR 0x0D"
    proof -
      obtain a where "strip_bom ?p = a @ buf t" using split_lines_suffix[of "strip_bom ?p" False] bt(1) by auto
      moreover obtain b where "?p = b @ strip_bom ?p"
        by (cases "starts_with bom ?p") (auto simp: strip_bom_def starts_with_iff)
      ultimately obtain d where d: "?p = d @ buf t" by (metis append.assoc)
      have "buf t = [] \<or> last (buf t) = last ?p" "?p = [] \<Longrightarrow> buf t = []"
        unfolding d by (cases "buf t = []"; simp)+
      then show "buf t = [] \<or> last (buf t) \<noteq> CHR 0x0D" using assms(2) by metis
    qed
    have tail: "next_line False (buf t) = None" using split_tail[of False] bt(1) by simp
    have "line_len (buf t) = length (buf t)" using next_line_None_tail[OF tail] nocr by (auto simp: line_len_def)
    then have "position is_terminator (buf t) = None" "length (buf t) \<le> max_line_bytes" "scanned t \<le> length (buf t)"
      using ll bt(2) by (auto simp: line_len_def position_Some split: option.splits)
    then show ?thesis using False by (intro finish_clean) simp_all
  qed
qed

theorem sse_finish_discards_witness:
  "sse_finish (snd (feed_all sse_feed sse_new [''data: a''])) =
    (Inr [], \<lparr>buf = [], scanned = 0, bom_pending = False, blk = block_default\<rparr>)"
proof -
  have pos: "position is_terminator ''data: a'' = None" by (simp add: is_terminator_def)
  have "split_lines False ''data: a'' = ([], ''data: a'')"
    by (simp add: split_lines.simps[of False "''data: a''"] next_line_def pos del: position.simps)
  then have "sse_accepts (concat [''data: a''])"
    using pos by (simp add: sse_accepts_def strip_bom_def starts_with_def bom_def line_len_def
        max_line_bytes_def del: position.simps)
  then obtain xs t where "feed_all sse_feed sse_new [''data: a''] = (Inr xs, t)"
    using sse.feed_all_accepts[OF new_holds, of "[''data: a'']"] by auto
  from sse_finish_discards[OF this] this show ?thesis by simp
qed

text \<open>
  The one place where the cut matters: the line bound is checked before the BOM is dropped, so
  a first line of the maximal admitted length behind a BOM is refused in one chunk, and accepted
  when the BOM arrives on its own.
\<close>

definition long_line :: bytes where
  "long_line = replicate max_line_bytes (CHR ''x'')"

theorem sse_bom_bound_edge:
  "fst (feed_all sse_feed sse_new [bom @ long_line @ lf]) = Inl (SseOverrun ''line'' max_line_bytes) \<and>
   fst (feed_all sse_feed sse_new [bom, long_line @ lf]) = Inr []"
proof -
  have clean: "position is_terminator long_line = None" "position is_terminator bom = None"
    by (simp_all add: position_None long_line_def is_terminator_def bom_def)
  have len: "length long_line = max_line_bytes" by (simp add: long_line_def)
  have pos: "position is_terminator (long_line @ lf) = Some max_line_bytes"
    using clean len by (simp add: position_append lf_def is_terminator_def)
  have "position is_terminator (bom @ long_line @ lf) = Some (3 + max_line_bytes)"
    using clean(2) pos by (simp add: position_append bom_def is_terminator_def)
  then have one: "fst (sse_feed sse_new (bom @ long_line @ lf)) = Inl (SseOverrun ''line'' max_line_bytes)"
    by (simp add: sse_feed_def sse_new_def bom_def)
  let ?s = "\<lparr>buf = [], scanned = 0, bom_pending = False, blk = block_default\<rparr>"
  have s: "sse_feed sse_new bom = (Inr [], ?s)"
    by (simp add: sse_feed_def sse_new_def bom_def is_terminator_def max_line_bytes_def sse_pump_def starts_with_def
        pump_loop.simps Let_def)
  have bl: "block_line block_default long_line = (Inr [], block_default)"
  proof -
    have v: "utf8_valid long_line" by (rule utf8_valid_ascii) (simp add: long_line_def byte_val_def)
    have "split_once (CHR '':'') long_line = None" by (simp add: split_once_None long_line_def)
    moreover have "long_line \<noteq> ''event'' \<and> long_line \<noteq> ''data'' \<and> long_line \<noteq> []"
    proof -
      have "length long_line \<noteq> length ''event''" "length long_line \<noteq> length ''data''" "length long_line \<noteq> length []"
        unfolding len by (simp_all add: max_line_bytes_def)
      then show ?thesis by metis
    qed
    moreover have "\<not> starts_with '':'' long_line"
    proof
      assume "starts_with '':'' long_line"
      then obtain r where "long_line = CHR '':'' # r" by (auto simp: starts_with_iff)
      then have "CHR '':'' \<in> set long_line" by (metis list.set_intros(1))
      then show False by (simp add: long_line_def)
    qed
    ultimately show ?thesis using v len by (simp add: block_line_def)
  qed
  have h: "sse_holds ?s bom" using sse_feed_holds[OF new_holds s] by simp
  have sp: "split_lines False (buf ?s @ long_line @ lf) = ([long_line], [])"
    using split_lines_join[of "[long_line]"] clean by simp
  have run: "run_lines (blk ?s) [long_line] = (Inr [], block_default)" using bl by simp
  have "fst (sse_feed ?s (long_line @ lf)) = Inr []"
    using sse_pump_resume(1)[OF h _ sp run] pos by (simp add: sse_feed_def lf_def line_len_def)
  then show ?thesis using one s by (auto split: prod.splits sum.splits)
qed

end
