(* ===== verification/Event_Stream.thy ===== *)
theory Event_Stream
  imports Stream_Decoder
begin

text \<open>
  The event-stream framing of \<open>src/src/providers/eventstream.rs\<close>: length-prefixed messages with a
  typed header block, buffered across reads. \<open>usize\<close> is 64 bits wide, so a \<open>u32\<close> length always
  fits and the two additions the source saturates or checks are exact here. The checksums are not
  read by the source.
\<close>

definition max_eventstream_frame_bytes :: nat where
  "max_eventstream_frame_bytes = 1024 * 1024"

definition max_eventstream_bytes :: nat where
  "max_eventstream_bytes = 8 * 1024 * 1024"

datatype event_stream_error =
    FrameTooLarge nat nat
  | StreamTooLarge nat
  | TruncatedFrame nat nat
  | MalformedFrame
  | MalformedHeader

record frame =
  message_type :: "string option"
  f_event_type :: "string option"
  exception_type :: "string option"
  payload :: bytes

record event_stream_decoder =
  buffer :: bytes
  consumed :: nat

definition es_new :: event_stream_decoder where
  "es_new = \<lparr>buffer = [], consumed = 0\<rparr>"

text \<open>\<open>from_be_bytes\<close>.\<close>

definition from_be_bytes :: "bytes \<Rightarrow> nat" where
  "from_be_bytes bs = foldl (\<lambda>n c. n * 256 + byte_val c) 0 bs"

definition read_u32 :: "bytes \<Rightarrow> nat \<Rightarrow> event_stream_error + nat" where
  "read_u32 bs offset =
     (if offset + 4 \<le> length bs then Inr (from_be_bytes (take 4 (drop offset bs)))
      else Inl MalformedFrame)"

definition es_split :: "bytes \<Rightarrow> nat \<Rightarrow> event_stream_error + bytes \<times> bytes" where
  "es_split bs n = (if length bs < n then Inl MalformedHeader else Inr (take n bs, drop n bs))"

definition header_value :: "nat \<Rightarrow> bytes \<Rightarrow> event_stream_error + string option \<times> bytes" where
  "header_value value_type bs =
     (let fixed = (\<lambda>n. case es_split bs n of Inl e \<Rightarrow> Inl e | Inr (v, rest) \<Rightarrow> Inr (None, rest));
          sized = (case es_split bs 2 of
                     Inl e \<Rightarrow> Inl e
                   | Inr (n, rest) \<Rightarrow> es_split rest (from_be_bytes n))
      in if value_type = 0 \<or> value_type = 1 then Inr (None, bs)
         else if value_type = 2 then fixed 1
         else if value_type = 3 then fixed 2
         else if value_type = 4 then fixed 4
         else if value_type = 5 \<or> value_type = 8 then fixed 8
         else if value_type = 6
         then (case sized of Inl e \<Rightarrow> Inl e | Inr (v, rest) \<Rightarrow> Inr (None, rest))
         else if value_type = 7
         then (case sized of
                 Inl e \<Rightarrow> Inl e
               | Inr (v, rest) \<Rightarrow> if utf8_valid v then Inr (Some v, rest) else Inl MalformedHeader)
         else if value_type = 9 then fixed 16
         else Inl MalformedHeader)"

lemma es_split_length: "es_split bs n = Inr (v, rest) \<Longrightarrow> length rest \<le> length bs"
  by (auto simp: es_split_def split: if_splits)

lemma header_value_length: "header_value ty bs = Inr (v, rest) \<Longrightarrow> length rest \<le> length bs"
  by (auto simp: header_value_def Let_def dest!: es_split_length split: if_splits sum.splits)

function parse_headers ::
  "bytes \<Rightarrow> (string \<rightharpoonup> string) \<Rightarrow> event_stream_error + (string \<rightharpoonup> string)" where
  "parse_headers bs headers =
     (case bs of
        [] \<Rightarrow> Inr headers
      | n # rest \<Rightarrow>
          (case es_split rest (byte_val n) of
             Inl e \<Rightarrow> Inl e
           | Inr (name, rest1) \<Rightarrow>
               if \<not> utf8_valid name then Inl MalformedHeader
               else (case rest1 of
                       [] \<Rightarrow> Inl MalformedHeader
                     | ty # rest2 \<Rightarrow>
                         (case header_value (byte_val ty) rest2 of
                            Inl e \<Rightarrow> Inl e
                          | Inr (value, rest3) \<Rightarrow>
                              parse_headers rest3
                                (case value of Some v \<Rightarrow> headers(name \<mapsto> v) | None \<Rightarrow> headers)))))"
  by pat_completeness auto
termination
  by (relation "measure (\<lambda>(bs, _). length bs)")
    (auto dest!: es_split_length header_value_length)

declare parse_headers.simps [simp del]

text \<open>
  One frame off the front of the buffer: \<open>None\<close> when more bytes are needed, else the frame and
  the bytes behind it.
\<close>

definition next_frame :: "bytes \<Rightarrow> event_stream_error + (frame \<times> bytes) option" where
  "next_frame b =
     (if length b < 12 then Inr None
      else
        (case read_u32 (take 12 b) 0 of
           Inl e \<Rightarrow> Inl e
         | Inr total_len \<Rightarrow>
             (case read_u32 (take 12 b) 4 of
                Inl e \<Rightarrow> Inl e
              | Inr headers_length \<Rightarrow>
                  if total_len < 16 \<or> headers_length > total_len - 16 then Inl MalformedFrame
                  else if total_len > max_eventstream_frame_bytes
                  then Inl (FrameTooLarge total_len max_eventstream_frame_bytes)
                  else if length b < total_len then Inr None
                  else
                    (let fr = take total_len b;
                         headers_end = 12 + headers_length;
                         payload_end = total_len - 4
                     in case parse_headers (take (headers_end - 12) (drop 12 fr)) Map.empty of
                          Inl e \<Rightarrow> Inl e
                        | Inr headers \<Rightarrow>
                            Inr (Some (\<lparr>message_type = headers '':message-type'',
                                        f_event_type = headers '':event-type'',
                                        exception_type = headers '':exception-type'',
                                        payload = take (payload_end - headers_end) (drop headers_end fr)\<rparr>,
                                       drop total_len b))))))"

lemma next_frame_shrinks: "next_frame b = Inr (Some (f, r)) \<Longrightarrow> length r < length b"
  by (auto simp: next_frame_def Let_def split: if_splits sum.splits)

text \<open>The loop of \<open>feed\<close>; on an error the frames before it are dropped from the buffer and lost.\<close>

function frames_loop :: "bytes \<Rightarrow> frame list \<Rightarrow> (event_stream_error + frame list) \<times> bytes" where
  "frames_loop b frames =
     (case next_frame b of
        Inl e \<Rightarrow> (Inl e, b)
      | Inr None \<Rightarrow> (Inr frames, b)
      | Inr (Some (f, rest)) \<Rightarrow> frames_loop rest (frames @ [f]))"
  by pat_completeness auto
termination
  by (relation "measure (\<lambda>(b, _). length b)") (auto dest: next_frame_shrinks)

declare frames_loop.simps [simp del]

definition es_feed ::
  "event_stream_decoder \<Rightarrow> bytes \<Rightarrow> (event_stream_error + frame list) \<times> event_stream_decoder" where
  "es_feed d bs =
     (if consumed d + length bs > max_eventstream_bytes
      then (Inl (StreamTooLarge max_eventstream_bytes), d)
      else
        (case frames_loop (buffer d @ bs) [] of
           (r, rest) \<Rightarrow> (r, \<lparr>buffer = rest, consumed = consumed d + length bs\<rparr>)))"

definition es_finish :: "event_stream_decoder \<Rightarrow> event_stream_error + unit" where
  "es_finish d =
     (if buffer d = [] then Inr ()
      else Inl (TruncatedFrame
             (if 4 \<le> length (buffer d) then from_be_bytes (take 4 (buffer d)) else 0)
             (length (buffer d))))"

subsection \<open>The decoder contract\<close>

lemma next_frame_decided:
  assumes "next_frame a \<noteq> Inr None"
  shows "next_frame (a @ b) = map_sum id (map_option (map_prod id (\<lambda>r. r @ b))) (next_frame a)"
proof -
  have a: "12 \<le> length a" by (rule ccontr) (use assms in \<open>simp add: next_frame_def\<close>)
  then have hd12: "take 12 (a @ b) = take 12 a" by simp
  show ?thesis
  proof (cases "read_u32 (take 12 a) 0")
    case (Inr total_len)
    show ?thesis
    proof (cases "total_len \<le> length a")
      case True
      then have "take total_len (a @ b) = take total_len a" "drop total_len (a @ b) = drop total_len a @ b" by simp_all
      then show ?thesis using a True unfolding next_frame_def hd12 by (simp add: Inr Let_def split: sum.split)
    next
      case False
      then show ?thesis using a assms unfolding next_frame_def hd12 by (auto simp: Inr split: sum.split)
    qed
  qed (use a hd12 in \<open>simp add: next_frame_def\<close>)
qed

lemma next_frame_append:
  "next_frame a = Inr (Some (f, r)) \<Longrightarrow> next_frame (a @ b) = Inr (Some (f, r @ b))"
  "next_frame a = Inl e \<Longrightarrow> next_frame (a @ b) = Inl e"
  using next_frame_decided[of a b] by simp_all

lemma frames_loop_acc:
  "frames_loop b fs = (case frames_loop b [] of (Inl e, r) \<Rightarrow> (Inl e, r) | (Inr gs, r) \<Rightarrow> (Inr (fs @ gs), r))"
proof (induction b arbitrary: fs rule: measure_induct_rule[where f = length])
  case (less b)
  show ?case
  proof (cases "next_frame b")
    case (Inl e)
    then show ?thesis by (simp add: frames_loop.simps[of b])
  next
    case (Inr nx)
    show ?thesis
    proof (cases nx)
      case None
      then show ?thesis using Inr by (simp add: frames_loop.simps[of b])
    next
      case (Some fr)
      obtain f r where fr: "fr = (f, r)" by (cases fr)
      have lt: "length r < length b" using next_frame_shrinks Inr Some fr by simp
      have step: "frames_loop b gs = frames_loop r (gs @ [f])" for gs
        using Inr Some fr by (simp add: frames_loop.simps[of b])
      show ?thesis
        unfolding step less.IH[OF lt, of "fs @ [f]"] less.IH[OF lt, of "[] @ [f]"]
        by (simp split: prod.splits sum.splits)
    qed
  qed
qed

lemma frames_loop_append:
  "frames_loop (a @ b) [] =
     (case frames_loop a [] of
        (Inl e, r) \<Rightarrow> (Inl e, r @ b)
      | (Inr fs, r) \<Rightarrow> frames_loop (r @ b) fs)"
proof (induction a rule: measure_induct_rule[where f = length])
  case (less a)
  show ?case
  proof (cases "next_frame a")
    case (Inl e)
    then show ?thesis using next_frame_append(2)[OF Inl, of b] by (simp add: frames_loop.simps[of a] frames_loop.simps[of "a @ b"])
  next
    case (Inr nx)
    show ?thesis
    proof (cases nx)
      case None
      then show ?thesis using Inr by (simp add: frames_loop.simps[of a])
    next
      case (Some fr)
      obtain f r where fr: "fr = (f, r)" by (cases fr)
      have nf: "next_frame a = Inr (Some (f, r))" using Inr Some fr by simp
      have lt: "length r < length a" by (rule next_frame_shrinks[OF nf])
      have "frames_loop a [] = frames_loop r [f]" "frames_loop (a @ b) [] = frames_loop (r @ b) [f]"
        using nf next_frame_append(1)[OF nf, of b] by (simp_all add: frames_loop.simps[of a] frames_loop.simps[of "a @ b"])
      moreover obtain x s where xs: "frames_loop r [] = (x, s)" by fastforce
      ultimately show ?thesis
      proof (cases x)
        case (Inl e)
        then show ?thesis
          using \<open>frames_loop a [] = _\<close> \<open>frames_loop (a @ b) [] = _\<close> xs less.IH[OF lt]
            frames_loop_acc[of r "[f]"] frames_loop_acc[of "r @ b" "[f]"] by simp
      next
        case (Inr gs)
        then show ?thesis
          using \<open>frames_loop a [] = _\<close> \<open>frames_loop (a @ b) [] = _\<close> xs less.IH[OF lt]
            frames_loop_acc[of r "[f]"] frames_loop_acc[of "r @ b" "[f]"]
            frames_loop_acc[of "s @ b" gs] frames_loop_acc[of "s @ b" "f # gs"]
          by (auto split: prod.splits sum.splits)
      qed
    qed
  qed
qed


definition es_decode :: "bytes \<Rightarrow> frame list" where
  "es_decode p = (case fst (frames_loop p []) of Inr fs \<Rightarrow> fs | Inl _ \<Rightarrow> [])"

definition es_accepts :: "bytes \<Rightarrow> bool" where
  "es_accepts p \<longleftrightarrow> length p \<le> max_eventstream_bytes \<and> (\<exists>fs r. frames_loop p [] = (Inr fs, r))"

definition es_holds :: "event_stream_decoder \<Rightarrow> bytes \<Rightarrow> bool" where
  "es_holds d p \<longleftrightarrow> consumed d = length p \<and> (\<exists>fs. frames_loop p [] = (Inr fs, buffer d))"

lemma es_feed_loop:
  assumes "es_holds d p" "frames_loop p [] = (Inr fs, buffer d)"
  shows "frames_loop (p @ c) [] =
    (case frames_loop (buffer d @ c) [] of (Inl e, r) \<Rightarrow> (Inl e, r) | (Inr gs, r) \<Rightarrow> (Inr (fs @ gs), r))"
  using frames_loop_append[of p c] frames_loop_acc[of "buffer d @ c" fs] assms(2) by simp

interpretation es: incremental_decoder es_feed es_new es_holds es_decode es_accepts
proof
  have nil: "frames_loop [] [] = (Inr [], [])" by (simp add: frames_loop.simps[of "[]"] next_frame_def)
  show "es_holds es_new []" "es_decode [] = []" by (simp_all add: es_holds_def es_new_def es_decode_def nil)
next
  fix d :: event_stream_decoder and p c xs t
  assume h: "es_holds d p" and f: "es_feed d c = (Inr xs, t)"
  then obtain fs where fs: "frames_loop p [] = (Inr fs, buffer d)" by (auto simp: es_holds_def)
  show "es_holds t (p @ c) \<and> es_decode (p @ c) = es_decode p @ xs"
    using es_feed_loop[OF h fs, of c] f h fs
    by (auto simp: es_feed_def es_holds_def es_decode_def split: if_splits prod.splits)
next
  fix d :: event_stream_decoder and p c
  assume h: "es_holds d p" and a: "es_accepts (p @ c)"
  then obtain fs where fs: "frames_loop p [] = (Inr fs, buffer d)" by (auto simp: es_holds_def)
  show "\<exists>xs t. es_feed d c = (Inr xs, t)"
    using es_feed_loop[OF h fs, of c] a h
    by (auto simp: es_feed_def es_holds_def es_accepts_def split: if_splits prod.splits sum.splits)
next
  fix p c assume "es_accepts (p @ c)"
  then show "es_accepts p" using frames_loop_append[of p c]
    by (auto simp: es_accepts_def split: prod.splits sum.splits)
qed

subsection \<open>Round trip\<close>

text \<open>The encoder of the wire format, as the module's own tests write it.\<close>

definition to_be_bytes :: "nat \<Rightarrow> nat \<Rightarrow> bytes" where
  "to_be_bytes w n = map (\<lambda>i. char_of (n div 256 ^ (w - 1 - i) mod 256)) [0..<w]"

definition string_header :: "string \<times> string \<Rightarrow> bytes" where
  "string_header h =
     char_of (length (fst h)) # fst h @ char_of (7 :: nat) # to_be_bytes 2 (length (snd h)) @ snd h"

definition framed :: "bytes \<Rightarrow> bytes \<Rightarrow> bytes" where
  "framed headers pay =
     to_be_bytes 4 (12 + length headers + length pay + 4) @ to_be_bytes 4 (length headers) @
     to_be_bytes 4 0 @ headers @ pay @ to_be_bytes 4 0"

lemma to_be_bytes_length [simp]: "length (to_be_bytes w n) = w"
  by (simp add: to_be_bytes_def)

lemma to_be_bytes_Suc: "to_be_bytes (Suc w) n = to_be_bytes w (n div 256) @ [char_of (n mod 256)]"
proof -
  have "n div 256 ^ (w - i) = n div 256 div 256 ^ (w - 1 - i)" if "i < w" for i
  proof -
    have "w - i = Suc (w - 1 - i)" using that by simp
    then show ?thesis by (simp add: div_mult2_eq)
  qed
  then show ?thesis by (simp add: to_be_bytes_def)
qed

lemma be_bytes_mod: "from_be_bytes (to_be_bytes w n) = n mod 256 ^ w"
proof (induction w arbitrary: n)
  case 0
  then show ?case by (simp add: from_be_bytes_def to_be_bytes_def)
next
  case (Suc w)
  have "from_be_bytes (to_be_bytes (Suc w) n) = (n div 256 mod 256 ^ w) * 256 + n mod 256"
    using Suc[of "n div 256"] by (simp add: to_be_bytes_Suc from_be_bytes_def)
  also have "\<dots> = n mod (256 * 256 ^ w)" by (simp add: mod_mult2_eq)
  finally show ?case by simp
qed

lemma be_bytes_roundtrip: "n < 256 ^ w \<Longrightarrow> from_be_bytes (to_be_bytes w n) = n"
  by (simp add: be_bytes_mod)

definition header_ok :: "string \<times> string \<Rightarrow> bool" where
  "header_ok h \<longleftrightarrow> length (fst h) < 256 \<and> length (snd h) < 65536 \<and> utf8_valid (fst h) \<and> utf8_valid (snd h)"

lemma parse_string_header:
  assumes "header_ok h"
  shows "parse_headers (string_header h @ rest) m = parse_headers rest (m(fst h \<mapsto> snd h))"
  using assms be_bytes_roundtrip[of "length (snd h)" 2]
  by (simp add: parse_headers.simps[of "_ # _"] string_header_def header_ok_def es_split_def
      header_value_def)

lemma parse_string_headers:
  "\<forall>h\<in>set hs. header_ok h \<Longrightarrow> parse_headers (concat (map string_header hs)) m = Inr (m ++ map_of (rev hs))"
proof (induction hs arbitrary: m)
  case Nil
  then show ?case by (simp add: parse_headers.simps)
next
  case (Cons h hs)
  have "parse_headers (concat (map string_header (h # hs))) m = Inr (m(fst h \<mapsto> snd h) ++ map_of (rev hs))"
    using Cons by (simp add: parse_string_header)
  also have "m(fst h \<mapsto> snd h) ++ map_of (rev hs) = m ++ map_of (rev (h # hs))"
    by (simp add: map_add_def fun_eq_iff split: option.splits)
  finally show ?case .
qed

definition message_ok :: "(string \<times> string) list \<times> bytes \<Rightarrow> bool" where
  "message_ok m \<longleftrightarrow> (\<forall>h\<in>set (fst m). header_ok h) \<and>
     length (framed (concat (map string_header (fst m))) (snd m)) \<le> max_eventstream_frame_bytes"

definition encode_message :: "(string \<times> string) list \<times> bytes \<Rightarrow> bytes" where
  "encode_message m = framed (concat (map string_header (fst m))) (snd m)"

definition message_frame :: "(string \<times> string) list \<times> bytes \<Rightarrow> frame" where
  "message_frame m =
     \<lparr>message_type = map_of (rev (fst m)) '':message-type'', f_event_type = map_of (rev (fst m)) '':event-type'',
      exception_type = map_of (rev (fst m)) '':exception-type'', payload = snd m\<rparr>"

lemma next_frame_encoded:
  assumes "message_ok m"
  shows "next_frame (encode_message m @ rest) = Inr (Some (message_frame m, rest))"
proof -
  let ?h = "concat (map string_header (fst m))"
  let ?n = "12 + length ?h + length (snd m) + 4"
  have len: "length (encode_message m) = ?n" by (simp add: encode_message_def framed_def)
  have n: "?n \<le> max_eventstream_frame_bytes" using assms len by (simp add: message_ok_def encode_message_def)
  then have b: "?n < 256 ^ 4" "length ?h < 256 ^ 4" by (simp_all add: max_eventstream_frame_bytes_def)
  have r0: "read_u32 (take 12 (encode_message m @ rest)) 0 = Inr ?n"
    using be_bytes_roundtrip[OF b(1)] by (simp add: read_u32_def encode_message_def framed_def)
  have r4: "read_u32 (take 12 (encode_message m @ rest)) 4 = Inr (length ?h)"
    using be_bytes_roundtrip[OF b(2)] by (simp add: read_u32_def encode_message_def framed_def)
  have fr: "take ?n (encode_message m @ rest) = encode_message m" "drop ?n (encode_message m @ rest) = rest"
    using len by simp_all
  have hd: "take (length ?h) (drop 12 (encode_message m)) = ?h"
    "take (length (snd m)) (drop (12 + length ?h) (encode_message m)) = snd m"
    by (simp_all add: encode_message_def framed_def)
  have ph: "parse_headers ?h Map.empty = Inr (map_of (rev (fst m)))"
    using parse_string_headers[of "fst m" Map.empty] assms by (simp add: message_ok_def)
  have l12: "\<not> length (encode_message m @ rest) < 12" "\<not> length (encode_message m @ rest) < ?n" using len by simp_all
  have e: "12 + length ?h - 12 = length ?h" "?n - 4 - (12 + length ?h) = length (snd m)" by simp_all
  show ?thesis
    unfolding next_frame_def Let_def r0 r4 sum.case fr e hd ph using l12 n
    by (simp add: message_frame_def)
qed

lemma frames_loop_encoded:
  "\<forall>m\<in>set ms. message_ok m \<Longrightarrow> frames_loop (concat (map encode_message ms)) [] = (Inr (map message_frame ms), [])"
proof (induction ms)
  case Nil
  then show ?case by (simp add: frames_loop.simps[of "[]"] next_frame_def)
next
  case (Cons m ms)
  then show ?case
    using next_frame_encoded[of m "concat (map encode_message ms)"]
      frames_loop_acc[of "concat (map encode_message ms)" "[message_frame m]"]
    by (simp add: frames_loop.simps[of "encode_message m @ concat (map encode_message ms)"])
qed

subsection \<open>Properties\<close>

text \<open>
  Framing does not depend on read boundaries: a successful run of feeds yields exactly the
  frames of the whole stream, and a stream within the total bound whose frames are all well-formed
  is decoded successfully under every cut.
\<close>

theorem es_chunking_irrelevant:
  "(feed_all es_feed es_new cs = (Inr xs, t) \<longrightarrow> xs = es_decode (concat cs)) \<and>
   (es_accepts (concat cs) \<longrightarrow> fst (feed_all es_feed es_new cs) = Inr (es_decode (concat cs)))"
  using es.decoded_output[of cs xs t] es.chunking_irrelevant[of cs] by blast

theorem es_chunking_irrelevant_witness:
  "fst (feed_all es_feed es_new [''abc'', ''def'']) = Inr (es_decode ''abcdef'')"
proof -
  have "es_accepts (concat [''abc'', ''def''])"
    by (simp add: es_accepts_def max_eventstream_bytes_def frames_loop.simps next_frame_def)
  then show ?thesis using es_chunking_irrelevant[of "[''abc'', ''def'']"] by simp
qed

text \<open>
  Round trip: messages encoded with string headers, of admissible size, decode under every
  cut to exactly their frames (the last header of a name wins), and the stream then ends on a
  message boundary.
\<close>

theorem es_roundtrip:
  assumes "\<forall>m\<in>set ms. message_ok m" "concat cs = concat (map encode_message ms)"
    and "length (concat cs) \<le> max_eventstream_bytes"
  shows "\<exists>t. feed_all es_feed es_new cs = (Inr (map message_frame ms), t) \<and> es_finish t = Inr ()"
proof -
  have loop: "frames_loop (concat cs) [] = (Inr (map message_frame ms), [])"
    using frames_loop_encoded[OF assms(1)] assms(2) by simp
  then have acc: "es_accepts (concat cs)" using assms(3) by (simp add: es_accepts_def)
  then obtain xs t where run: "feed_all es_feed es_new cs = (Inr xs, t)"
    using es.feed_all_accepts[OF es.holds_start, of cs] by auto
  have "xs = map message_frame ms" using es.decoded_output[OF run] loop by (simp add: es_decode_def)
  moreover have "buffer t = []" using es.feed_all_holds[OF es.holds_start run] loop by (simp add: es_holds_def)
  ultimately show ?thesis using run by (simp add: es_finish_def)
qed

theorem es_roundtrip_witness:
  "\<exists>t. feed_all es_feed es_new [encode_message ([('':event-type'', ''stop'')], ''{}'')] =
     (Inr [\<lparr>message_type = None, f_event_type = Some ''stop'', exception_type = None, payload = ''{}''\<rparr>], t) \<and>
     es_finish t = Inr ()"
proof -
  have ok: "message_ok ([('':event-type'', ''stop'')], ''{}'')"
    by (simp add: message_ok_def header_ok_def framed_def string_header_def max_eventstream_frame_bytes_def
        utf8_step_def utf8_follow_def byte_val_def)
  have "length (encode_message ([('':event-type'', ''stop'')], ''{}'')) \<le> max_eventstream_bytes"
    by (simp add: encode_message_def framed_def string_header_def max_eventstream_bytes_def)
  then show ?thesis
    using es_roundtrip[of "[([('':event-type'', ''stop'')], ''{}'')]" "[encode_message ([('':event-type'', ''stop'')], ''{}'')]"] ok
    by (simp add: message_frame_def del: feed_all.simps)
qed

end
