(* ===== verification/Text_Std.thy ===== *)
theory Text_Std
  imports Rust_Std
begin

text \<open>
  The parts of the standard library that work on text and that the policy and resource modules
  call: ASCII classes and case, splitting and trimming, number parsing and printing, and the
  address parser of \<open>std::net\<close>. All of them look at ASCII bytes only, so they are byte functions.
\<close>

subsection \<open>ASCII\<close>

definition is_ascii_alphabetic :: "byte \<Rightarrow> bool" where
  "is_ascii_alphabetic c \<longleftrightarrow> (65 \<le> byte_val c \<and> byte_val c \<le> 90) \<or> (97 \<le> byte_val c \<and> byte_val c \<le> 122)"

definition is_ascii_digit :: "byte \<Rightarrow> bool" where
  "is_ascii_digit c \<longleftrightarrow> 48 \<le> byte_val c \<and> byte_val c \<le> 57"

definition is_ascii_alphanumeric :: "byte \<Rightarrow> bool" where
  "is_ascii_alphanumeric c \<longleftrightarrow> is_ascii_alphabetic c \<or> is_ascii_digit c"

definition ascii_lower :: "byte \<Rightarrow> byte" where
  "ascii_lower c = (if 65 \<le> byte_val c \<and> byte_val c \<le> 90 then char_of (byte_val c + 32) else c)"

definition to_ascii_lowercase :: "string \<Rightarrow> string" where
  "to_ascii_lowercase = map ascii_lower"

definition eq_ignore_ascii_case :: "string \<Rightarrow> string \<Rightarrow> bool" where
  "eq_ignore_ascii_case a b \<longleftrightarrow> to_ascii_lowercase a = to_ascii_lowercase b"

lemma byte_val_inject: "byte_val a = byte_val b \<longleftrightarrow> a = b"
  by (simp add: byte_val_def)

lemma char_of_eq:
  "char_of (n :: nat) = c \<longleftrightarrow> n mod 256 = byte_val c" "c = char_of (n :: nat) \<longleftrightarrow> byte_val c = n mod 256"
  by (metis byte_val_char_of byte_val_inject)+

lemma ascii_lower_val: "byte_val (ascii_lower c) =
    (if 65 \<le> byte_val c \<and> byte_val c \<le> 90 then byte_val c + 32 else byte_val c)"
  by (simp add: ascii_lower_def)

lemma ascii_lower_idem [simp]: "ascii_lower (ascii_lower c) = ascii_lower c"
  by (auto simp: byte_val_inject[symmetric] ascii_lower_val)

lemma to_ascii_lowercase_idem [simp]: "to_ascii_lowercase (to_ascii_lowercase s) = to_ascii_lowercase s"
  by (simp add: to_ascii_lowercase_def)

lemma to_ascii_lowercase_append [simp]:
  "to_ascii_lowercase (a @ b) = to_ascii_lowercase a @ to_ascii_lowercase b"
  by (simp add: to_ascii_lowercase_def)

subsection \<open>Splitting and trimming\<close>

text \<open>\<open>str::split\<close> on one ASCII character: always at least one piece.\<close>

fun str_split :: "char \<Rightarrow> string \<Rightarrow> string list" where
  "str_split c [] = [[]]"
| "str_split c (x # xs) =
     (if x = c then [] # str_split c xs
      else (case str_split c xs of [] \<Rightarrow> [[x]] | p # ps \<Rightarrow> (x # p) # ps))"

definition trim_start_matches :: "(char \<Rightarrow> bool) \<Rightarrow> string \<Rightarrow> string" where
  "trim_start_matches P = dropWhile P"

definition trim_matches :: "(char \<Rightarrow> bool) \<Rightarrow> string \<Rightarrow> string" where
  "trim_matches P s = rev (dropWhile P (rev (dropWhile P s)))"

definition str_replace :: "char \<Rightarrow> string \<Rightarrow> string \<Rightarrow> string" where
  "str_replace c r s = concat (map (\<lambda>x. if x = c then r else [x]) s)"

text \<open>\<open>strip_suffix\<close> on one character.\<close>

definition strip_last :: "char \<Rightarrow> string \<Rightarrow> string option" where
  "strip_last c s = (if s \<noteq> [] \<and> last s = c then Some (butlast s) else None)"

lemma str_split_nonempty: "str_split c s \<noteq> []"
  by (induction s) (auto split: list.splits)

lemma str_split_single: "c \<notin> set a \<Longrightarrow> str_split c a = [a]"
  by (induction a) auto

lemma str_split_no_sep: "p \<in> set (str_split c s) \<Longrightarrow> c \<notin> set p"
proof (induction s arbitrary: p)
  case Nil
  then show ?case by simp
next
  case (Cons x s)
  then show ?case
    using str_split_nonempty[of c s] by (cases "str_split c s") (auto split: if_splits)
qed

subsection \<open>Numbers\<close>

text \<open>\<open>char::to_digit\<close> for a radix up to 16.\<close>

definition to_digit :: "nat \<Rightarrow> byte \<Rightarrow> nat option" where
  "to_digit radix c =
     (let x = byte_val c;
          d = (if 48 \<le> x \<and> x \<le> 57 then Some (x - 48)
               else if 97 \<le> x \<and> x \<le> 102 then Some (x - 97 + 10)
               else if 65 \<le> x \<and> x \<le> 70 then Some (x - 65 + 10)
               else None)
      in case d of Some n \<Rightarrow> if n < radix then Some n else None | None \<Rightarrow> None)"

text \<open>The digits' value, or \<open>None\<close> when one is not a digit.\<close>

fun digits_value :: "nat \<Rightarrow> nat \<Rightarrow> string \<Rightarrow> nat option" where
  "digits_value radix acc [] = Some acc"
| "digits_value radix acc (c # cs) =
     (case to_digit radix c of None \<Rightarrow> None | Some d \<Rightarrow> digits_value radix (acc * radix + d) cs)"

text \<open>
  \<open>from_str_radix\<close> and \<open>parse\<close> of an unsigned integer below \<open>bound\<close>: a leading \<open>+\<close> is
  accepted when digits follow it, an empty or overflowing spelling is an error.
\<close>

definition from_str_radix :: "nat \<Rightarrow> nat \<Rightarrow> string \<Rightarrow> nat option" where
  "from_str_radix bound radix s =
     (let digits = (case s of c # cs \<Rightarrow> if c = CHR ''+'' \<and> cs \<noteq> [] then cs else s | [] \<Rightarrow> s)
      in if digits = [] then None
         else (case digits_value radix 0 digits of
                 None \<Rightarrow> None
               | Some n \<Rightarrow> if n < bound then Some n else None))"

definition parse_u16 :: "string \<Rightarrow> nat option" where
  "parse_u16 = from_str_radix (2 ^ 16) 10"

text \<open>The decimal form \<open>format!\<close> prints.\<close>

fun show_nat :: "nat \<Rightarrow> string" where
  "show_nat n = (if n < 10 then [char_of (48 + n)] else show_nat (n div 10) @ [char_of (48 + n mod 10)])"

declare show_nat.simps [simp del]

lemma to_digit_show: "d < 10 \<Longrightarrow> to_digit 10 (char_of (48 + d)) = Some d"
  by (simp add: to_digit_def Let_def)

lemma digits_value_append:
  "digits_value r acc (a @ b) = (case digits_value r acc a of None \<Rightarrow> None | Some m \<Rightarrow> digits_value r m b)"
  by (induction a arbitrary: acc) (auto split: option.splits)

lemma digits_value_show: "digits_value 10 0 (show_nat n) = Some n"
proof (induction n rule: show_nat.induct)
  case (1 n)
  show ?case
  proof (cases "n < 10")
    case True
    then show ?thesis using to_digit_show by (simp add: show_nat.simps[of n])
  next
    case False
    then show ?thesis
      using 1 to_digit_show[of "n mod 10"] by (simp add: show_nat.simps[of n] digits_value_append)
  qed
qed

lemma show_nat_nonempty: "show_nat n \<noteq> []"
  by (subst show_nat.simps) simp

lemma show_nat_digits: "c \<in> set (show_nat n) \<Longrightarrow> is_ascii_digit c"
proof (induction n rule: show_nat.induct)
  case (1 n)
  show ?case
  proof (cases "n < 10")
    case True
    then show ?thesis using 1(2) by (simp add: show_nat.simps[of n] is_ascii_digit_def)
  next
    case False
    have "c \<in> set (show_nat (n div 10)) \<or> c = char_of (48 + n mod 10)"
      using 1(2) False by (auto simp: show_nat.simps[of n])
    then show ?thesis using 1(1)[OF False] by (auto simp: is_ascii_digit_def)
  qed
qed

lemma show_nat_inject: "show_nat m = show_nat n \<longleftrightarrow> m = n"
  using digits_value_show by (metis option.inject)

lemma show_nat_no_plus: "show_nat n = CHR ''+'' # cs \<Longrightarrow> False"
  using show_nat_digits[of "CHR ''+''" n] by (simp add: is_ascii_digit_def byte_val_def)

lemma parse_show: "n < 2 ^ 16 \<Longrightarrow> parse_u16 (show_nat n) = Some n"
  using digits_value_show[of n] show_nat_nonempty[of n] show_nat_no_plus[of n]
  by (auto simp: parse_u16_def from_str_radix_def Let_def split: list.splits)

subsection \<open>Addresses\<close>

text \<open>
  The parser of \<open>std::net\<close>: each reader returns its value and the rest, and on failure consumes
  nothing. \<open>read_number\<close> takes at most \<open>max\<close> digits and may refuse a leading zero.
\<close>

fun read_digits :: "nat \<Rightarrow> string \<Rightarrow> nat \<Rightarrow> nat \<Rightarrow> nat \<times> nat \<times> string" where
  "read_digits radix [] acc n = (acc, n, [])"
| "read_digits radix (c # cs) acc n =
     (case to_digit radix c of
        None \<Rightarrow> (acc, n, c # cs)
      | Some d \<Rightarrow> read_digits radix cs (acc * radix + d) (Suc n))"

definition read_number :: "nat \<Rightarrow> nat \<Rightarrow> nat \<Rightarrow> bool \<Rightarrow> string \<Rightarrow> (nat \<times> string) option" where
  "read_number bound radix max_digits zero_prefix s =
     (case read_digits radix s 0 0 of
        (v, n, rest) \<Rightarrow>
          if n = 0 \<or> n > max_digits then None
          else if \<not> zero_prefix \<and> hd s = CHR ''0'' \<and> n > 1 then None
          else if v < bound then Some (v, rest) else None)"

definition read_char_is :: "char \<Rightarrow> string \<Rightarrow> string option" where
  "read_char_is c s = strip_prefix [c] s"

fun read_ipv4_groups :: "nat \<Rightarrow> nat \<Rightarrow> string \<Rightarrow> (nat list \<times> string) option" where
  "read_ipv4_groups 0 i s = Some ([], s)"
| "read_ipv4_groups (Suc k) i s =
     (case (if i > 0 then read_char_is (CHR ''.'') s else Some s) of
        None \<Rightarrow> None
      | Some s1 \<Rightarrow>
          (case read_number 256 10 3 False s1 of
             None \<Rightarrow> None
           | Some (v, s2) \<Rightarrow>
               (case read_ipv4_groups k (Suc i) s2 of None \<Rightarrow> None | Some (vs, s3) \<Rightarrow> Some (v # vs, s3))))"

definition read_ipv4 :: "string \<Rightarrow> (nat list \<times> string) option" where
  "read_ipv4 s = read_ipv4_groups 4 0 s"

text \<open>
  \<open>read_groups\<close>: up to \<open>limit\<close> 16-bit groups; wherever two slots are left an IPv4 spelling is
  tried first and ends the groups.
\<close>

fun read_groups :: "nat \<Rightarrow> nat \<Rightarrow> string \<Rightarrow> nat list \<times> bool \<times> string" where
  "read_groups 0 i s = ([], False, s)"
| "read_groups (Suc k) i s =
     (let sep = (if i > 0 then read_char_is (CHR '':'') s else Some s);
          v4 = (if k > 0 then (case sep of None \<Rightarrow> None | Some s1 \<Rightarrow> read_ipv4 s1) else None)
      in case v4 of
           Some ([a, b, c, d], s2) \<Rightarrow> ([a * 256 + b, c * 256 + d], True, s2)
         | _ \<Rightarrow>
             (case (case sep of None \<Rightarrow> None | Some s1 \<Rightarrow> read_number 65536 16 4 True s1) of
                None \<Rightarrow> ([], False, s)
              | Some (g, s2) \<Rightarrow>
                  (case read_groups k (Suc i) s2 of (gs, is4, s3) \<Rightarrow> (g # gs, is4, s3))))"

definition read_ipv6 :: "string \<Rightarrow> (nat list \<times> string) option" where
  "read_ipv6 s =
     (case read_groups 8 0 s of
        (head, is4, s1) \<Rightarrow>
          if length head = 8 then Some (head, s1)
          else if is4 then None
          else (case strip_prefix ''::'' s1 of
                  None \<Rightarrow> None
                | Some s2 \<Rightarrow>
                    (case read_groups (8 - (length head + 1)) 0 s2 of
                       (tail, _, s3) \<Rightarrow>
                         Some (head @ replicate (8 - length head - length tail) 0 @ tail, s3))))"

definition parse_ipv6 :: "string \<Rightarrow> nat list option" where
  "parse_ipv6 s = (case read_ipv6 s of Some (gs, []) \<Rightarrow> Some gs | _ \<Rightarrow> None)"

definition ipv6_is_loopback :: "nat list \<Rightarrow> bool" where
  "ipv6_is_loopback gs \<longleftrightarrow> gs = [0, 0, 0, 0, 0, 0, 0, 1]"

text \<open>\<open>to_ipv4_mapped().is_some_and(is_loopback)\<close>: \<open>::ffff:127.x.y.z\<close>.\<close>

definition ipv6_mapped_loopback :: "nat list \<Rightarrow> bool" where
  "ipv6_mapped_loopback gs \<longleftrightarrow> take 6 gs = [0, 0, 0, 0, 0, 65535] \<and> gs ! 6 div 256 = 127"

end
