(* ===== verification/Policy_Egress.thy ===== *)
theory Policy_Egress
  imports Text_Std Contracts
begin

text \<open>
  The egress half of \<open>src/src/policy.rs\<close>: the preprocessing, percent-decoding and normalisation of
  URL spellings, the comparison of a request with the enrolled raw denies, the filesystem shape of
  an egress target, and the preapproval keys.
\<close>

subsection \<open>Pieces of a spelling\<close>

definition until_first :: "string \<Rightarrow> char list \<Rightarrow> string" where
  "until_first raw markers = takeWhile (\<lambda>c. c \<notin> set markers) raw"

definition hex_value :: "byte \<Rightarrow> nat option" where
  "hex_value c =
     (let x = byte_val c
      in if 48 \<le> x \<and> x \<le> 57 then Some (x - 48)
         else if 97 \<le> x \<and> x \<le> 102 then Some (x - 97 + 10)
         else if 65 \<le> x \<and> x \<le> 70 then Some (x - 65 + 10)
         else None)"

text \<open>The loops of \<open>percent_decode\<close> and \<open>percent_decode_lenient\<close>.\<close>

fun percent_loop :: "bytes \<Rightarrow> bytes option" where
  "percent_loop [] = Some []"
| "percent_loop (c # cs) =
     (if c = CHR ''%''
      then (case cs of
              a # b # rest \<Rightarrow>
                (case (hex_value a, hex_value b) of
                   (Some h, Some l) \<Rightarrow> map_option ((#) (char_of (h * 16 + l))) (percent_loop rest)
                 | _ \<Rightarrow> None)
            | _ \<Rightarrow> None)
      else map_option ((#) c) (percent_loop cs))"

definition percent_decode :: "string \<Rightarrow> string option" where
  "percent_decode raw =
     (case position (\<lambda>c. c = CHR ''%'') raw of
        None \<Rightarrow> Some raw
      | Some start \<Rightarrow>
          (case percent_loop (drop start raw) of
             None \<Rightarrow> None
           | Some d \<Rightarrow> if utf8_valid (take start raw @ d) then Some (take start raw @ d) else None))"

fun percent_lenient_loop :: "bytes \<Rightarrow> bytes" where
  "percent_lenient_loop [] = []"
| "percent_lenient_loop (c # cs) =
     (case (if c = CHR ''%''
            then (case cs of
                    a # b # rest \<Rightarrow>
                      (case (hex_value a, hex_value b) of (Some h, Some l) \<Rightarrow> Some (h * 16 + l) | _ \<Rightarrow> None)
                  | _ \<Rightarrow> None)
            else None) of
        Some v \<Rightarrow> char_of v # percent_lenient_loop (drop 2 cs)
      | None \<Rightarrow> c # percent_lenient_loop cs)"

definition percent_decode_lenient :: "string \<Rightarrow> string" where
  "percent_decode_lenient raw = from_utf8_lossy (percent_lenient_loop raw)"

text \<open>\<open>Path::is_absolute\<close> on Unix.\<close>

definition is_absolute :: "string \<Rightarrow> bool" where
  "is_absolute p \<longleftrightarrow> starts_with ''/'' p"

definition split_leading_scheme :: "string \<Rightarrow> (string \<times> string) option" where
  "split_leading_scheme raw =
     (case split_once (CHR '':'') raw of
        None \<Rightarrow> None
      | Some (scheme, rest) \<Rightarrow>
          (case scheme of
             [] \<Rightarrow> None
           | c # cs \<Rightarrow>
               if \<not> is_ascii_alphabetic c then None
               else if list_all (\<lambda>x. is_ascii_alphanumeric x \<or> x = CHR ''+'' \<or> x = CHR ''-'' \<or> x = CHR ''.'') cs
               then Some (scheme, rest) else None))"

definition is_special_scheme :: "string \<Rightarrow> bool" where
  "is_special_scheme scheme \<longleftrightarrow>
     to_ascii_lowercase scheme \<in> {''http'', ''https'', ''ws'', ''wss'', ''ftp'', ''file''}"

definition has_leading_scheme :: "string \<Rightarrow> bool" where
  "has_leading_scheme raw \<longleftrightarrow>
     (case split_leading_scheme raw of
        None \<Rightarrow> False
      | Some (scheme, rest) \<Rightarrow> starts_with ''//'' rest \<or> is_special_scheme scheme)"

definition is_separator :: "char \<Rightarrow> bool" where
  "is_separator c \<longleftrightarrow> c = CHR ''/'' \<or> c = CHR 0x5C"

definition has_authority_intro :: "string \<Rightarrow> bool" where
  "has_authority_intro raw \<longleftrightarrow> length raw \<ge> 2 \<and> list_all is_separator (take 2 raw)"

definition port_shaped :: "string \<Rightarrow> bool" where
  "port_shaped host \<longleftrightarrow>
     (case split_once (CHR '':'') host of
        None \<Rightarrow> False
      | Some (word, tail) \<Rightarrow>
          \<not> (case word of c # cs \<Rightarrow> is_ascii_alphabetic c \<and> cs = [] | [] \<Rightarrow> False) \<and>
          (tail = [] \<or> list_all is_ascii_digit tail))"

definition web_shaped :: "string \<Rightarrow> bool" where
  "web_shaped raw \<longleftrightarrow>
     (let schemeless =
            (has_authority_intro raw \<or>
             (\<not> starts_with ''/'' raw \<and>
              (let host = until_first raw [CHR ''/'', CHR 0x5C]
               in CHR ''.'' \<in> set host \<or> port_shaped host)))
      in case split_leading_scheme raw of
           Some (scheme, rest) \<Rightarrow>
             if is_special_scheme scheme \<or> starts_with ''//'' rest then is_special_scheme scheme
             else schemeless
         | None \<Rightarrow> schemeless)"

definition preprocess_egress_target :: "string \<Rightarrow> string" where
  "preprocess_egress_target raw =
     (let trimmed = trim_matches (\<lambda>c. byte_val c \<le> 32)
                      (filter (\<lambda>c. c \<noteq> CHR 0x09 \<and> c \<noteq> CHR 0x0A \<and> c \<noteq> CHR 0x0D) raw)
      in if web_shaped trimmed then str_replace (CHR 0x5C) ''/'' trimmed else trimmed)"

subsection \<open>Identity of spellings\<close>

definition decoded_identity :: "string \<Rightarrow> string" where
  "decoded_identity raw = (case percent_decode raw of Some d \<Rightarrow> d | None \<Rightarrow> raw)"

datatype authority_token = Delimiter char | Run string

text \<open>The loop of \<open>authority_tokens\<close>; \<open>run\<close> is the slice since the last delimiter.\<close>

fun authority_loop :: "string \<Rightarrow> string \<Rightarrow> authority_token list" where
  "authority_loop run [] = [Run (decoded_identity run)]"
| "authority_loop run (c # cs) =
     (if c = CHR ''@'' \<or> c = CHR '':'' then Run (decoded_identity run) # Delimiter c # authority_loop [] cs
      else authority_loop (run @ [c]) cs)"

definition authority_tokens :: "string \<Rightarrow> authority_token list" where
  "authority_tokens authority = authority_loop [] authority"

record url_blob_segments =
  intro :: string
  authority :: "authority_token list"
  seg_tail :: string

definition url_blob_segments_of :: "string \<Rightarrow> url_blob_segments option" where
  "url_blob_segments_of raw =
     (let split = (case strip_prefix ''//'' raw of
            Some body \<Rightarrow> Some (''//'', body)
          | None \<Rightarrow>
              (case split_leading_scheme raw of
                 None \<Rightarrow> None
               | Some (scheme, rest) \<Rightarrow>
                   (case strip_prefix ''//'' rest of
                      None \<Rightarrow> None
                    | Some body \<Rightarrow> Some (take (length scheme + 3) raw, body))))
      in case split of
           None \<Rightarrow> None
         | Some (i, body) \<Rightarrow>
             (let a = until_first body [CHR ''/'', CHR ''?'', CHR ''#'']
              in Some \<lparr>intro = i, authority = authority_tokens a,
                       seg_tail = decoded_identity (drop (length a) body)\<rparr>))"

definition same_decoded_identity :: "string \<Rightarrow> string \<Rightarrow> bool" where
  "same_decoded_identity l r \<longleftrightarrow>
     (case (url_blob_segments_of l, url_blob_segments_of r) of
        (Some a, Some b) \<Rightarrow> a = b
      | _ \<Rightarrow> decoded_identity l = decoded_identity r)"

text \<open>\<open>split_once("://")\<close>.\<close>

fun split_once_str :: "string \<Rightarrow> string \<Rightarrow> (string \<times> string) option" where
  "split_once_str pat [] = (if pat = [] then Some ([], []) else None)"
| "split_once_str pat (c # cs) =
     (case strip_prefix pat (c # cs) of
        Some rest \<Rightarrow> Some ([], rest)
      | None \<Rightarrow> map_option (\<lambda>(a, b). (c # a, b)) (split_once_str pat cs))"

definition url_key :: "string \<Rightarrow> string" where
  "url_key normalized = (case split_once_str ''://'' normalized of Some (_, rest) \<Rightarrow> rest | None \<Rightarrow> normalized)"

definition url_form_matches :: "string option \<Rightarrow> string option \<Rightarrow> string \<Rightarrow> bool" where
  "url_form_matches request schemeless denied \<longleftrightarrow>
     (case request of
        Some r \<Rightarrow> same_decoded_identity r denied
      | None \<Rightarrow>
          (case schemeless of
             Some s \<Rightarrow> same_decoded_identity (url_key s) (url_key denied)
           | None \<Rightarrow> False))"

definition url_key_matches ::
  "string option \<Rightarrow> string option \<Rightarrow> string option \<Rightarrow> string \<Rightarrow> bool" where
  "url_key_matches request schemeless folded denied \<longleftrightarrow>
     (let denied_key = url_key denied
      in list_ex (\<lambda>sp. case sp of Some s \<Rightarrow> same_decoded_identity (url_key s) denied_key | None \<Rightarrow> False)
           [request, schemeless, folded])"

subsection \<open>Hosts and ports\<close>

definition strip_userinfo :: "string \<Rightarrow> string" where
  "strip_userinfo auth = (case rsplit_once (CHR ''@'') auth of Some (_, h) \<Rightarrow> h | None \<Rightarrow> auth)"

definition split_host_port :: "string \<Rightarrow> (string \<times> string) option" where
  "split_host_port auth =
     (case strip_prefix ''['' auth of
        Some rest \<Rightarrow>
          (case position (\<lambda>c. c = CHR '']'') rest of
             None \<Rightarrow> None
           | Some k \<Rightarrow>
               (let e = k + 1;
                    port = (case strip_prefix '':'' (drop (e + 1) auth) of Some p \<Rightarrow> p | None \<Rightarrow> [])
                in Some (take (e + 1) auth, port)))
      | None \<Rightarrow>
          (case rsplit_once (CHR '':'') auth of
             Some (host, port) \<Rightarrow>
               if port = [] \<or> list_all is_ascii_digit port then Some (host, port) else Some (auth, [])
           | None \<Rightarrow> Some (auth, [])))"

definition is_default_port :: "string \<Rightarrow> nat \<Rightarrow> bool" where
  "is_default_port scheme port \<longleftrightarrow> (scheme = ''http'' \<and> port = 80) \<or> (scheme = ''https'' \<and> port = 443)"

definition is_any_default_port :: "nat \<Rightarrow> bool" where
  "is_any_default_port port \<longleftrightarrow> port = 80 \<or> port = 443"

definition ipv4_part :: "string \<Rightarrow> nat option" where
  "ipv4_part part =
     (if part = [] then None
      else
        (let (digits, radix) =
               (case (case strip_prefix ''0x'' part of Some h \<Rightarrow> Some h | None \<Rightarrow> strip_prefix ''0X'' part) of
                  Some h \<Rightarrow> (h, 16)
                | None \<Rightarrow> if length part > 1 \<and> starts_with ''0'' part then (drop 1 part, 8) else (part, 10))
         in if digits = [] then Some 0 else from_str_radix (2 ^ 64) radix digits))"

text \<open>The octets of the address; \<open>None\<close> is a hostname.\<close>

definition ipv4_number :: "string \<Rightarrow> nat list option" where
  "ipv4_number host =
     (let parts = str_split (CHR ''.'') host
      in if length parts > 4 then None
         else
           (let numbers = map ipv4_part parts
            in if list_ex (\<lambda>n. n = None) numbers then None
               else
                 (let ns = map the numbers;
                      heads = butlast ns;
                      tail = last ns;
                      fill = 5 - length ns
                  in if list_ex (\<lambda>n. n > 255) heads \<or> tail \<ge> 2 ^ (8 * fill) then None
                     else Some (heads @ map (\<lambda>i. tail div 256 ^ (fill - 1 - i) mod 256) [0..<fill]))))"

definition is_loopback_authority :: "string \<Rightarrow> bool" where
  "is_loopback_authority host \<longleftrightarrow>
     (case (case strip_prefix ''['' host of None \<Rightarrow> None | Some inner \<Rightarrow> strip_last (CHR '']'') inner) of
        Some v6 \<Rightarrow>
          (let addr = (case rsplit_once (CHR ''%'') v6 of Some (a, _) \<Rightarrow> a | None \<Rightarrow> v6)
           in case parse_ipv6 addr of
                Some gs \<Rightarrow> ipv6_is_loopback gs \<or> ipv6_mapped_loopback gs
              | None \<Rightarrow> False)
      | None \<Rightarrow> (case ipv4_number host of Some os \<Rightarrow> hd os = 127 | None \<Rightarrow> False))"

subsection \<open>Normal forms\<close>

definition fold_file_authority :: "string \<Rightarrow> string \<Rightarrow> string" where
  "fold_file_authority auth path =
     (let host_port = strip_userinfo auth;
          raw_host = (case split_host_port host_port of Some (h, _) \<Rightarrow> h | None \<Rightarrow> host_port);
          lowered = to_ascii_lowercase (case percent_decode raw_host of Some d \<Rightarrow> d | None \<Rightarrow> raw_host);
          host = (if lowered \<in> {'''', ''localhost'', ''localhost.localdomain''} then ''''
                  else if is_loopback_authority lowered then ''''
                  else str_replace (CHR ''%'') ''%25'' (to_ascii_lowercase raw_host))
      in ''file://'' @ host @ path)"

definition normalize_file_url :: "string \<Rightarrow> string" where
  "normalize_file_url rest0 =
     (let rest = until_first rest0 [CHR ''?'', CHR ''#'']
      in case strip_prefix ''//'' rest of
           None \<Rightarrow> fold_file_authority '''' rest
         | Some after_intro \<Rightarrow>
             (case position (\<lambda>c. c = CHR ''/'') after_intro of
                Some start \<Rightarrow> fold_file_authority (take start after_intro) (drop start after_intro)
              | None \<Rightarrow>
                  (case percent_decode after_intro of
                     Some d \<Rightarrow>
                       if starts_with ''/'' d then ''file://'' @ d
                       else fold_file_authority after_intro ''/''
                   | None \<Rightarrow> fold_file_authority after_intro ''/'')))"

datatype scheme_knowledge = Carried | Guessed

definition normalized_port :: "scheme_knowledge \<Rightarrow> string \<Rightarrow> string \<Rightarrow> string" where
  "normalized_port knowledge scheme port =
     (if port = [] then []
      else (case parse_u16 port of
              Some n \<Rightarrow>
                if knowledge = Carried \<and> is_default_port scheme n then []
                else if knowledge = Guessed \<and> is_any_default_port n then []
                else CHR '':'' # show_nat n
            | None \<Rightarrow> CHR '':'' # port))"

definition normalize_egress_url :: "string \<Rightarrow> scheme_knowledge \<Rightarrow> string option" where
  "normalize_egress_url raw knowledge =
     (case split_once (CHR '':'') raw of
        Some (s, file_rest) \<Rightarrow>
          if eq_ignore_ascii_case s ''file'' then Some (normalize_file_url file_rest)
          else
            (case split_leading_scheme raw of
               None \<Rightarrow> None
             | Some (raw_scheme, rest0) \<Rightarrow>
                 (let scheme = to_ascii_lowercase raw_scheme;
                      opened = (if scheme \<in> {''http'', ''https'', ''ws'', ''wss'', ''ftp''}
                                then Some (trim_start_matches is_separator rest0)
                                else strip_prefix ''//'' rest0)
                  in case opened of
                       None \<Rightarrow> None
                     | Some rest \<Rightarrow>
                         (let auth = until_first rest [CHR ''/'', CHR ''?'', CHR ''#''];
                              tail = drop (length auth) rest;
                              path = until_first (case strip_prefix ''/'' tail of Some p \<Rightarrow> p | None \<Rightarrow> [])
                                       [CHR ''?'', CHR ''#''];
                              host_port = strip_userinfo auth
                          in case split_host_port host_port of
                               None \<Rightarrow> None
                             | Some (host, port) \<Rightarrow>
                                 Some (scheme @ ''://'' @ to_ascii_lowercase host @
                                       normalized_port knowledge scheme port @ ''/'' @ path))))
      | None \<Rightarrow> None)"

definition schemeless_retry :: "string \<Rightarrow> string option" where
  "schemeless_retry raw =
     (case strip_prefix ''//'' raw of
        Some rest \<Rightarrow> normalize_egress_url (''https://'' @ trim_start_matches is_separator rest) Guessed
      | None \<Rightarrow>
          if raw \<noteq> [] \<and> is_separator (hd raw) then None
          else normalize_egress_url (''https://'' @ raw) Guessed)"

definition schemeless_deny_form :: "string \<Rightarrow> string option" where
  "schemeless_deny_form denied = (if CHR ''/'' \<in> set denied then schemeless_retry denied else None)"

definition egress_denied :: "string list \<Rightarrow> string \<Rightarrow> bool" where
  "egress_denied raw_denies raw \<longleftrightarrow>
     (let request = normalize_egress_url raw Carried;
          schemeless = (if request = None \<and> \<not> has_leading_scheme raw then schemeless_retry raw else None);
          folded = normalize_egress_url raw Guessed
      in list_ex (\<lambda>entry.
           (let denied = preprocess_egress_target entry
            in same_decoded_identity denied raw \<or>
               (if has_leading_scheme denied
                then (case normalize_egress_url denied Carried of
                        Some form \<Rightarrow> url_form_matches request schemeless form | None \<Rightarrow> False)
                else (case schemeless_deny_form denied of
                        Some form \<Rightarrow> url_key_matches request schemeless folded form | None \<Rightarrow> False))))
           raw_denies)"

subsection \<open>Filesystem shape\<close>

datatype egress_fs_shape = FsAbsolute string | FsUnresolvable | FsNotFilesystem

definition file_scheme_rest :: "string \<Rightarrow> string option" where
  "file_scheme_rest raw =
     (case split_once (CHR '':'') raw of
        None \<Rightarrow> None
      | Some (scheme, rest) \<Rightarrow> if eq_ignore_ascii_case scheme ''file'' then Some rest else None)"

definition file_url_path :: "string \<Rightarrow> string option" where
  "file_url_path rest =
     (case strip_prefix ''//'' rest of
        None \<Rightarrow> percent_decode rest
      | Some after_intro \<Rightarrow>
          (case position (\<lambda>c. c = CHR ''/'') after_intro of
             Some start \<Rightarrow> percent_decode (drop start after_intro)
           | None \<Rightarrow>
               (case percent_decode after_intro of
                  Some d \<Rightarrow> if starts_with ''/'' d then Some d else Some ''/''
                | None \<Rightarrow> None)))"

definition egress_filesystem_shape :: "string \<Rightarrow> egress_fs_shape" where
  "egress_filesystem_shape raw =
     (if \<not> utf8_valid raw then FsNotFilesystem
      else
        (case file_scheme_rest raw of
           Some rest \<Rightarrow>
             (case file_url_path (until_first rest [CHR ''?'', CHR ''#'']) of
                Some path \<Rightarrow> if is_absolute path then FsAbsolute path else FsUnresolvable
              | None \<Rightarrow> FsUnresolvable)
         | None \<Rightarrow>
             (case percent_decode raw of
                Some path \<Rightarrow> if is_absolute path then FsAbsolute path else FsNotFilesystem
              | None \<Rightarrow>
                  if is_absolute (percent_decode_lenient raw) then FsUnresolvable else FsNotFilesystem)))"

subsection \<open>Preapproval keys\<close>

definition canonical_egress_target :: "string \<Rightarrow> string" where
  "canonical_egress_target scope =
     (let cleaned = preprocess_egress_target scope
      in case normalize_egress_url cleaned Carried of Some n \<Rightarrow> n | None \<Rightarrow> cleaned)"

definition grant_id_is_key_safe :: "string \<Rightarrow> bool" where
  "grant_id_is_key_safe g \<longleftrightarrow> g \<noteq> [] \<and> list_all (\<lambda>c. is_ascii_alphanumeric c \<or> c = CHR ''-'') g"

fun class_key :: "effect_class \<Rightarrow> string" where
  "class_key ReadEffect = ''read''"
| "class_key WriteEffect = ''write''"
| "class_key ExecEffect = ''exec''"
| "class_key EgressEffect = ''egress''"
| "class_key ModelEffect = ''model''"
| "class_key ControlEffect = ''control''"

text \<open>
  \<open>canonicalize\<close> is \<open>Path::canonicalize\<close> of the running system: \<open>None\<close> for its error, else the
  canonical path's bytes.
\<close>

definition preapproval_scope ::
  "(string \<Rightarrow> bytes option) \<Rightarrow> effect_class \<Rightarrow> string \<Rightarrow> string \<Rightarrow> string option" where
  "preapproval_scope canonicalize cls grant_id scope =
     (if \<not> grant_id_is_key_safe grant_id then None
      else
        (let key = (case cls of
               EgressEffect \<Rightarrow> Some (canonical_egress_target scope)
             | ModelEffect \<Rightarrow> Some scope
             | ControlEffect \<Rightarrow> Some scope
             | _ \<Rightarrow>
                 (case canonicalize scope of
                    Some path \<Rightarrow> if utf8_valid path then Some path else None
                  | None \<Rightarrow> Some scope))
         in map_option (\<lambda>k. class_key cls @ '':'' @ grant_id @ '':'' @ k) key))"

end
