(* ===== verification/Policy_Paths.thy ===== *)
theory Policy_Paths
  imports Text_Std Policy_Egress
begin

text \<open>
  The filesystem half of \<open>src/src/policy.rs\<close>: the canonical identity of a path (symbolic links
  resolved, \<open>.\<close> and \<open>..\<close> removed, missing tails kept lexically) and the comparison of identities.

  The running system is a parameter: \<open>symlink_metadata\<close> answers for an absolute path, given by its
  component names, with an error kind or whether it is a symbolic link, and \<open>read_link\<close> with a
  link's target. So are the two Unicode packages: \<open>nfd\<close> is the canonical decomposition and \<open>case_eq\<close>
  equality under full case folding.
\<close>

datatype io_error_kind = IoNotFound | IoOther nat

datatype policy_error =
    UnknownGrant string
  | GrantRevoked string
  | ClassNotAdmitted string effect_class
  | InvalidPath
  | PathInspection io_error_kind
  | SymlinkRead io_error_kind
  | SymlinkLoop

record path_env =
  symlink_metadata :: "string list \<Rightarrow> io_error_kind + bool"
  read_link :: "string list \<Rightarrow> io_error_kind + bytes"
  nfd :: "string \<Rightarrow> string"
  case_eq :: "string \<Rightarrow> string \<Rightarrow> bool"

record canonical_path =
  components :: "string list"
  collapsed_missing_tail :: bool

text \<open>
  \<open>Path::components\<close> on Unix without the root and current-directory components, which the source
  filters out.
\<close>

definition path_components :: "bytes \<Rightarrow> bytes list" where
  "path_components p = filter (\<lambda>c. c \<noteq> [] \<and> c \<noteq> ''.'') (str_split (CHR ''/'') p)"

definition normalize_component :: "path_env \<Rightarrow> string \<Rightarrow> string" where
  "normalize_component env c = nfd env c"

definition max_symlink_expansions :: nat where
  "max_symlink_expansions = 40"

text \<open>
  The loop of \<open>canonicalize_path\<close>. \<open>resolved\<close> is the path walked so far by its names as written,
  \<open>comps\<close> the same in normal form; both grow and shrink together.
\<close>

function canonicalize_loop ::
  "path_env \<Rightarrow> bytes list \<Rightarrow> string list \<Rightarrow> string list \<Rightarrow> nat option \<Rightarrow> bool \<Rightarrow> nat \<Rightarrow>
     policy_error + canonical_path" where
  "canonicalize_loop env pending resolved comps missing collapsed expansions =
     (case pending of
        [] \<Rightarrow> Inr \<lparr>components = comps, collapsed_missing_tail = collapsed\<rparr>
      | name # rest \<Rightarrow>
          if \<not> utf8_valid name then Inl InvalidPath
          else if name = ''.'' then canonicalize_loop env rest resolved comps missing collapsed expansions
          else if name = ''..'' then
            (let comps' = butlast comps;
                 resolved' = (if comps = [] then resolved else butlast resolved);
                 collapsed' = (if length comps' < length comps then True else collapsed);
                 missing' = (case missing of
                               Some depth \<Rightarrow> if length comps' \<le> depth then None else missing
                             | None \<Rightarrow> None)
             in canonicalize_loop env rest resolved' comps' missing' collapsed' expansions)
          else if missing \<noteq> None then
            canonicalize_loop env rest (resolved @ [name]) (comps @ [normalize_component env name])
              missing False expansions
          else
            (case symlink_metadata env (resolved @ [name]) of
               Inr True \<Rightarrow>
                 if expansions \<ge> max_symlink_expansions then Inl SymlinkLoop
                 else
                   (case read_link env (resolved @ [name]) of
                      Inl k \<Rightarrow> Inl (SymlinkRead k)
                    | Inr target \<Rightarrow>
                        (if is_absolute target
                         then canonicalize_loop env (path_components target @ rest) [] [] missing False (Suc expansions)
                         else canonicalize_loop env (path_components target @ rest) resolved comps missing False
                                (Suc expansions)))
             | Inr False \<Rightarrow>
                 canonicalize_loop env rest (resolved @ [name]) (comps @ [normalize_component env name])
                   missing False expansions
             | Inl IoNotFound \<Rightarrow>
                 canonicalize_loop env rest (resolved @ [name]) (comps @ [normalize_component env name])
                   (Some (length comps)) False expansions
             | Inl k \<Rightarrow> Inl (PathInspection k)))"
  by pat_completeness auto
termination
  by (relation "measures [\<lambda>(_, _, _, _, _, _, expansions). max_symlink_expansions - expansions,
        \<lambda>(_, pending, _, _, _, _, _). length pending]") auto

declare canonicalize_loop.simps [simp del]

definition canonicalize_path :: "path_env \<Rightarrow> bytes \<Rightarrow> policy_error + canonical_path" where
  "canonicalize_path env path =
     (if \<not> is_absolute path then Inl InvalidPath
      else canonicalize_loop env (path_components path) [] [] None False 0)"

definition same_components :: "path_env \<Rightarrow> canonical_path \<Rightarrow> canonical_path \<Rightarrow> bool" where
  "same_components env l r \<longleftrightarrow>
     length (components l) = length (components r) \<and>
     list_all (\<lambda>(a, b). case_eq env a b) (zip (components l) (components r))"

definition covers_identity :: "path_env \<Rightarrow> canonical_path \<Rightarrow> canonical_path \<Rightarrow> bool" where
  "covers_identity env denied request \<longleftrightarrow>
     (if length (components request) < length (components denied) then False
      else if \<not> list_all (\<lambda>(a, b). case_eq env a b) (zip (components denied) (components request)) then False
      else if collapsed_missing_tail denied
      then length (components request) > length (components denied)
      else True)"

subsection \<open>Identities\<close>

text \<open>
  Pointwise case-insensitive prefix. \<open>case_eq\<close> is documented as equality of full case foldings,
  so it is an equivalence; that is the hypothesis \<open>equivp\<close> below.
\<close>

lemma zip_take_length: "zip xs ys = zip xs (take (length xs) ys)"
  by (induction xs arbitrary: ys) (auto simp: zip_Cons1 take_Cons split: list.splits)

lemma covers_identity_prefix:
  "covers_identity env d r \<longleftrightarrow>
     length (components d) \<le> length (components r) \<and>
     list_all2 (case_eq env) (components d) (take (length (components d)) (components r)) \<and>
     (collapsed_missing_tail d \<longrightarrow> length (components d) < length (components r))"
proof -
  have "list_all (\<lambda>(a, b). case_eq env a b) (zip (components d) (components r)) \<longleftrightarrow>
      list_all2 (case_eq env) (components d) (take (length (components d)) (components r))"
    if "length (components d) \<le> length (components r)"
    using that by (subst zip_take_length) (simp add: list_all2_iff list_all_iff)
  then show ?thesis by (auto simp: covers_identity_def not_less)
qed

lemma same_components_list_all2:
  "same_components env l r \<longleftrightarrow> list_all2 (case_eq env) (components l) (components r)"
  by (auto simp: same_components_def list_all2_iff list_all_iff)

lemma list_all2_equivp:
  assumes "equivp P"
  shows "list_all2 P xs xs" "list_all2 P xs ys \<Longrightarrow> list_all2 P ys xs"
    "list_all2 P xs ys \<Longrightarrow> list_all2 P ys zs \<Longrightarrow> list_all2 P xs zs"
proof -
  show "list_all2 P xs xs" using assms by (simp add: list.rel_refl equivp_reflp)
  show "list_all2 P xs ys \<Longrightarrow> list_all2 P ys xs"
    using equivp_symp[OF assms] by (simp add: list_all2_conv_all_nth)
  show "list_all2 P xs ys \<Longrightarrow> list_all2 P ys zs \<Longrightarrow> list_all2 P xs zs"
    by (rule list_all2_trans[OF equivp_transp[OF assms]])
qed

subsection \<open>The resolver\<close>

text \<open>One step of the loop, per kind of component.\<close>

lemma loop_nil: "canonicalize_loop env [] resolved comps missing c e =
    Inr \<lparr>components = comps, collapsed_missing_tail = c\<rparr>"
  by (simp add: canonicalize_loop.simps)

definition plain_name :: "bytes \<Rightarrow> bool" where
  "plain_name n \<longleftrightarrow> utf8_valid n \<and> n \<noteq> [] \<and> n \<noteq> ''.'' \<and> n \<noteq> ''..'' \<and> CHR ''/'' \<notin> set n"

lemma loop_real:
  assumes "plain_name n" "symlink_metadata env (resolved @ [n]) = Inr False"
  shows "canonicalize_loop env (n # rest) resolved comps None c e =
    canonicalize_loop env rest (resolved @ [n]) (comps @ [normalize_component env n]) None False e"
  using assms by (subst canonicalize_loop.simps) (simp add: plain_name_def)

lemma loop_parent:
  "canonicalize_loop env (''..'' # rest) (resolved @ [n]) (comps @ [m]) None c e =
    canonicalize_loop env rest resolved comps None True e"
  by (subst canonicalize_loop.simps) (simp add: utf8_step_def utf8_follow_def byte_val_def)

text \<open>The collapse flag only decorates the result.\<close>

lemma loop_flag:
  "map_sum id components (canonicalize_loop env pending resolved comps missing c e) =
   map_sum id components (canonicalize_loop env pending resolved comps missing d e)"
proof (induction pending arbitrary: resolved comps missing c d)
  case Nil
  then show ?case by (simp add: loop_nil)
next
  case (Cons name rest)
  show ?case
  proof (cases "name = ''.'' \<or> name = ''..''")
    case True
    then show ?thesis
      using Cons.IH[of resolved comps missing c d] Cons.IH
      unfolding canonicalize_loop.simps[of env "name # rest" resolved comps missing c e]
        canonicalize_loop.simps[of env "name # rest" resolved comps missing d e]
      by (simp add: Let_def)
  next
    case False
    then show ?thesis
      unfolding canonicalize_loop.simps[of env "name # rest" resolved comps missing c e]
        canonicalize_loop.simps[of env "name # rest" resolved comps missing d e]
      by simp
  qed
qed

text \<open>More links followed before: the same answer, or the limit.\<close>

lemma loop_expansions:
  "e \<le> f \<Longrightarrow>
   canonicalize_loop env pending resolved comps missing c f = canonicalize_loop env pending resolved comps missing c e \<or>
   canonicalize_loop env pending resolved comps missing c f = Inl SymlinkLoop"
proof (induction env pending resolved comps missing c f arbitrary: e rule: canonicalize_loop.induct)
  case (1 env pending resolved comps missing c f)
  show ?case
  proof (cases pending)
    case Nil
    then show ?thesis by (simp add: loop_nil)
  next
    case (Cons name rest)
    show ?thesis
      using 1 Cons
      unfolding canonicalize_loop.simps[of env pending resolved comps missing c f]
        canonicalize_loop.simps[of env pending resolved comps missing c e]
      by (auto simp: Let_def split: sum.splits io_error_kind.splits bool.splits option.splits)
  qed
qed

lemma loop_real_dirs:
  assumes "\<forall>n\<in>set pre. plain_name n" "\<forall>k<length pre. symlink_metadata env (resolved @ take (Suc k) pre) = Inr False"
  shows "canonicalize_loop env (pre @ rest) resolved comps None c e =
    canonicalize_loop env rest (resolved @ pre) (comps @ map (normalize_component env) pre) None
      (if pre = [] then c else False) e"
  using assms
proof (induction pre arbitrary: resolved comps c)
  case Nil
  then show ?case by simp
next
  case (Cons n pre)
  have "symlink_metadata env (resolved @ [n]) = Inr False" using Cons.prems(2) by force
  moreover have "symlink_metadata env ((resolved @ [n]) @ take (Suc k) pre) = Inr False" if "k < length pre" for k
    using Cons.prems(2) that by force
  ultimately show ?case using loop_real[of n env resolved "pre @ rest" comps c e] Cons by simp
qed

end
