(* ===== verification/Policy.thy ===== *)
theory Policy
  imports Policy_Paths
begin

text \<open>
  The policy object of \<open>src/src/policy.rs\<close>: scoped grants with fail-closed admission and
  revocation, the deny rules, the permission-mode matrix, and the issuer of check dependency pairs
  with the admission it works on (\<open>CheckAdmission\<close> of \<open>src/src/executor.rs\<close>).

  An \<open>Arc<()>\<close> used as an identity is a number; \<open>alive\<close> says which allocation identities still have
  an owner (\<open>strong_count() > 0\<close>). The task store is given by its identity and by its answers to
  the two queries the issuer makes. A grant counter of 64 bits does not run out: it is a \<^typ>\<open>nat\<close>.
\<close>

subsection \<open>Modes and verdicts\<close>

datatype permission_mode = Manual | AcceptEdits | ReadOnly | Auto | PreapprovedOnly | Yolo

definition mode_from_id :: "string \<Rightarrow> permission_mode option" where
  "mode_from_id i =
     (if i = ''manual'' then Some Manual
      else if i = ''accept-edits'' then Some AcceptEdits
      else if i = ''read-only'' then Some ReadOnly
      else if i = ''auto'' then Some Auto
      else if i = ''preapproved-only'' then Some PreapprovedOnly
      else if i = ''yolo'' then Some Yolo
      else None)"

fun mode_id :: "permission_mode \<Rightarrow> string" where
  "mode_id Manual = ''manual''"
| "mode_id AcceptEdits = ''accept-edits''"
| "mode_id ReadOnly = ''read-only''"
| "mode_id Auto = ''auto''"
| "mode_id PreapprovedOnly = ''preapproved-only''"
| "mode_id Yolo = ''yolo''"

definition all_modes :: "permission_mode list" where
  "all_modes = [Manual, AcceptEdits, ReadOnly, Auto, PreapprovedOnly, Yolo]"

record admission_context =
  mode :: permission_mode
  in_grant_scope :: bool
  budget_remaining :: bool
  in_trusted_scope :: bool
  has_checkpoint :: bool
  previously_approved :: bool
  within_declared_bounds :: bool
  dry_run :: bool

datatype mode_decision = Allow | Ask | Deny

fun decision_token :: "mode_decision \<Rightarrow> string" where
  "decision_token Allow = ''allow''"
| "decision_token Ask = ''ask''"
| "decision_token Deny = ''deny''"

subsection \<open>State\<close>

record grant =
  grant_id :: string
  scope_root :: bytes
  classes :: "effect_class list"
  revoked :: bool

record check_entry =
  entry_grant :: grant
  entry_allocation :: nat

record dependency_receipt =
  cache_grant_id :: string
  index_grant_id :: string
  receipt_attempt_id :: string
  receipt_allocation :: nat

record policy =
  grants :: "string \<rightharpoonup> grant"
  denies :: "canonical_path list"
  raw_denies :: "string list"
  next_id :: nat
  check_entries :: "string \<rightharpoonup> check_entry"
  identity :: nat

definition policy_default :: "nat \<Rightarrow> policy" where
  "policy_default i =
     \<lparr>grants = Map.empty, denies = [], raw_denies = [], next_id = 0, check_entries = Map.empty, identity = i\<rparr>"

subsection \<open>Grants\<close>

definition grant_classes :: "bytes \<Rightarrow> effect_class list \<Rightarrow> policy \<Rightarrow> string \<times> policy" where
  "grant_classes root cs p =
     (let n = next_id p + 1; g = ''grant-'' @ show_nat n
      in (g, p\<lparr>next_id := n,
               grants := (grants p)(g \<mapsto> \<lparr>grant_id = g, scope_root = root, classes = cs, revoked = False\<rparr>)\<rparr>))"

definition grant_read :: "bytes \<Rightarrow> policy \<Rightarrow> string \<times> policy" where
  "grant_read root p = grant_classes root [ReadEffect] p"

definition revoke :: "string \<Rightarrow> policy \<Rightarrow> policy" where
  "revoke g p =
     (case grants p g of
        None \<Rightarrow> p
      | Some gr \<Rightarrow> p\<lparr>grants := (grants p)(g \<mapsto> gr\<lparr>revoked := True\<rparr>)\<rparr>)"

definition policy_grant :: "policy \<Rightarrow> string \<Rightarrow> grant option" where
  "policy_grant p g = grants p g"

definition admit :: "policy \<Rightarrow> string \<Rightarrow> effect_class \<Rightarrow> policy_error + grant" where
  "admit p g cls =
     (case grants p g of
        None \<Rightarrow> Inl (UnknownGrant g)
      | Some gr \<Rightarrow>
          if revoked gr then Inl (GrantRevoked g)
          else if cls \<notin> set (classes gr) then Inl (ClassNotAdmitted g cls)
          else Inr gr)"

subsection \<open>Denies\<close>

text \<open>The first rule with the same identity is replaced, unless the new one collapsed its tail.\<close>

fun enroll_rule :: "path_env \<Rightarrow> canonical_path \<Rightarrow> canonical_path list \<Rightarrow> canonical_path list" where
  "enroll_rule env idy [] = [idy]"
| "enroll_rule env idy (r # rs) =
     (if same_components env r idy
      then (if collapsed_missing_tail idy then r # rs else idy # rs)
      else r # enroll_rule env idy rs)"

definition enroll_deny :: "path_env \<Rightarrow> bytes \<Rightarrow> policy \<Rightarrow> (policy_error + unit) \<times> policy" where
  "enroll_deny env path p =
     (case canonicalize_path env path of
        Inl e \<Rightarrow> (Inl e, p)
      | Inr idy \<Rightarrow> (Inr (), p\<lparr>denies := enroll_rule env idy (denies p)\<rparr>))"

definition enroll_deny_target :: "string \<Rightarrow> policy \<Rightarrow> policy" where
  "enroll_deny_target raw p =
     (if raw \<in> set (raw_denies p) then p else p\<lparr>raw_denies := raw_denies p @ [raw]\<rparr>)"

definition revoke_deny :: "path_env \<Rightarrow> bytes \<Rightarrow> policy \<Rightarrow> (policy_error + unit) \<times> policy" where
  "revoke_deny env path p =
     (case canonicalize_path env path of
        Inl e \<Rightarrow> (Inl e, p)
      | Inr idy \<Rightarrow> (Inr (), p\<lparr>denies := filter (\<lambda>r. \<not> same_components env r idy) (denies p)\<rparr>))"

definition covers_report :: "path_env \<Rightarrow> policy \<Rightarrow> bytes \<Rightarrow> policy_error + bool" where
  "covers_report env p path =
     (case canonicalize_path env path of
        Inl e \<Rightarrow> Inl e
      | Inr request \<Rightarrow> Inr (list_ex (\<lambda>r. covers_identity env r request) (denies p)))"

definition covers :: "path_env \<Rightarrow> policy \<Rightarrow> bytes \<Rightarrow> bool" where
  "covers env p path = (case covers_report env p path of Inr b \<Rightarrow> b | Inl _ \<Rightarrow> True)"

definition target_denied :: "path_env \<Rightarrow> policy \<Rightarrow> bytes \<Rightarrow> effect_class \<Rightarrow> bool" where
  "target_denied env p target cls =
     (if cls = EgressEffect
      then
        (if \<not> utf8_valid target then False
         else
           (let raw = preprocess_egress_target target
            in if egress_denied (raw_denies p) raw then True
               else (case egress_filesystem_shape raw of
                       FsAbsolute path \<Rightarrow> covers env p path
                     | FsUnresolvable \<Rightarrow> True
                     | FsNotFilesystem \<Rightarrow> False)))
      else covers env p target)"

definition decide :: "path_env \<Rightarrow> policy \<Rightarrow> bytes \<Rightarrow> effect_class \<Rightarrow> admission_context \<Rightarrow> mode_decision" where
  "decide env p path cls ctx =
     (if target_denied env p path cls then Deny
      else
        (case mode ctx of
           Manual \<Rightarrow> if cls = ReadEffect \<and> in_grant_scope ctx then Allow else Ask
         | AcceptEdits \<Rightarrow>
             if cls = ReadEffect then Allow
             else if cls = WriteEffect \<and> in_trusted_scope ctx \<and> has_checkpoint ctx then Allow
             else Ask
         | ReadOnly \<Rightarrow> if cls = ReadEffect then Allow else Deny
         | Auto \<Rightarrow>
             if cls = ReadEffect \<and> in_grant_scope ctx then Allow
             else if cls = WriteEffect \<and> in_grant_scope ctx \<and> budget_remaining ctx then Allow
             else if (cls = ExecEffect \<or> cls = EgressEffect) \<and> within_declared_bounds ctx then Allow
             else Ask
         | PreapprovedOnly \<Rightarrow> if previously_approved ctx then Allow else Deny
         | Yolo \<Rightarrow> Allow))"

subsection \<open>The check-dependency issuer\<close>

datatype check_phase = CheckPending | CheckClaimed | CheckSpent

datatype request_kind = KindChange | KindDeliver | KindPlanOnly | KindAudit | KindDiagnose

datatype workflow_owner_mode = OwnerEnabled | OwnerExplicitOff

record owner_snapshot =
  os_generation :: u64
  os_mode :: workflow_owner_mode
  os_sources_digest :: string

datatype check_context =
    NativeContext u64 string request_kind u64 string
  | CustomContext string u64

record check_admission =
  policy_identity :: nat
  store_identity :: nat
  bound_task_id :: task_id
  adm_attempt_id :: string
  bound_cargo_home :: bytes
  adm_context :: check_context
  off_state :: owner_snapshot
  adm_phase :: check_phase
  allocation :: nat
  receipt :: "dependency_receipt option"

record plan_selection_record =
  ps_revision :: u64
  ps_facts_digest :: string
  ps_request_kind :: request_kind

text \<open>The store's identity and its answers; a failed query is the error's text.\<close>

record store_view =
  sv_identity :: nat
  task_cancelled :: "task_id \<Rightarrow> string + bool"
  plan_selection :: "task_id \<Rightarrow> string + plan_selection_record option"

text \<open>The reasons behind the texts of \<open>verify_owner_context\<close> and of \<open>StaleAdmission\<close>.\<close>

datatype owner_mismatch = OwnerGenerationMoved u64 u64 | OwnerToggled bool | OwnerSourcesChanged

datatype stale_detail =
    CancellationUnreadable string | TaskIsCancelled | SelectionMoved | SelectionUnreadable string
  | OwnerContextMoved owner_mismatch

datatype check_issuer_error =
    ForeignAdmission | SpentAdmission | ClaimedAdmission | AlreadyIssued | OwnerEnded
  | UnknownReceipt | RootUnresolved | StaleAdmission stale_detail

definition owner_view :: "check_admission \<Rightarrow> owner_snapshot \<times> u64 \<times> string \<times> bool" where
  "owner_view a =
     (case adm_context a of
        NativeContext _ _ _ generation digest \<Rightarrow> (off_state a, generation, digest, False)
      | CustomContext digest generation \<Rightarrow> (off_state a, generation, digest, True))"

definition verify_owner_context ::
  "owner_snapshot \<Rightarrow> u64 \<Rightarrow> string \<Rightarrow> bool \<Rightarrow> owner_mismatch + unit" where
  "verify_owner_context st generation digest explicit_off =
     (if os_generation st \<noteq> generation then Inl (OwnerGenerationMoved (os_generation st) generation)
      else if (os_mode st = OwnerExplicitOff) \<noteq> explicit_off then Inl (OwnerToggled explicit_off)
      else if os_sources_digest st \<noteq> digest then Inl OwnerSourcesChanged
      else Inr ())"

definition reconsult_admission_context ::
  "store_view \<Rightarrow> check_admission \<Rightarrow> check_issuer_error + unit" where
  "reconsult_admission_context store a =
     (let owner =
            (case owner_view a of
               (st, generation, digest, explicit_off) \<Rightarrow>
                 (case verify_owner_context st generation digest explicit_off of
                    Inl m \<Rightarrow> Inl (StaleAdmission (OwnerContextMoved m))
                  | Inr _ \<Rightarrow> Inr ()))
      in case task_cancelled store (bound_task_id a) of
           Inl e \<Rightarrow> Inl (StaleAdmission (CancellationUnreadable e))
         | Inr True \<Rightarrow> Inl (StaleAdmission TaskIsCancelled)
         | Inr False \<Rightarrow>
             (case adm_context a of
                NativeContext revision facts kind _ _ \<Rightarrow>
                  (case plan_selection store (bound_task_id a) of
                     Inl e \<Rightarrow> Inl (StaleAdmission (SelectionUnreadable e))
                   | Inr None \<Rightarrow> Inl (StaleAdmission SelectionMoved)
                   | Inr (Some r) \<Rightarrow>
                       if ps_revision r = revision \<and> ps_facts_digest r = facts \<and> ps_request_kind r = kind
                       then owner else Inl (StaleAdmission SelectionMoved))
              | CustomContext _ _ \<Rightarrow> owner))"

definition path_join :: "bytes \<Rightarrow> bytes \<Rightarrow> bytes" where
  "path_join a b = (if a \<noteq> [] \<and> last a = CHR ''/'' then a @ b else a @ ''/'' @ b)"

definition sweep_dead_check_entries :: "(nat \<Rightarrow> bool) \<Rightarrow> policy \<Rightarrow> policy" where
  "sweep_dead_check_entries alive p =
     p\<lparr>check_entries := (\<lambda>g. case check_entries p g of
         Some e \<Rightarrow> if alive (entry_allocation e) then Some e else None | None \<Rightarrow> None)\<rparr>"

text \<open>One half of the pair: a fresh id and a Read grant linked to the allocation.\<close>

definition issue_half :: "string \<Rightarrow> bytes \<Rightarrow> nat \<Rightarrow> policy \<Rightarrow> string \<times> policy" where
  "issue_half label root alloc p =
     (let n = next_id p + 1; g = ''check-'' @ label @ ''-'' @ show_nat n
      in (g, p\<lparr>next_id := n,
               check_entries := (check_entries p)(g \<mapsto>
                 \<lparr>entry_grant = \<lparr>grant_id = g, scope_root = root, classes = [ReadEffect], revoked = False\<rparr>,
                  entry_allocation = alloc\<rparr>)\<rparr>))"

definition issue_check_dependencies ::
  "(bytes \<Rightarrow> bytes option) \<Rightarrow> (nat \<Rightarrow> bool) \<Rightarrow> store_view \<Rightarrow> check_admission \<Rightarrow> policy \<Rightarrow>
     (check_issuer_error + unit) \<times> check_admission \<times> policy" where
  "issue_check_dependencies canonicalize alive store a p =
     (if identity p \<noteq> policy_identity a \<or> sv_identity store \<noteq> store_identity a
      then (Inl ForeignAdmission, a, p)
      else if adm_phase a \<noteq> CheckPending
      then (Inl (if adm_phase a = CheckSpent then SpentAdmission else ClaimedAdmission), a, p)
      else if receipt a \<noteq> None then (Inl AlreadyIssued, a, p)
      else
        (case reconsult_admission_context store a of
           Inl e \<Rightarrow> (Inl e, a, p)
         | Inr _ \<Rightarrow>
             (case canonicalize (bound_cargo_home a) of
                None \<Rightarrow> (Inl RootUnresolved, a, p)
              | Some home \<Rightarrow>
                  (case issue_half ''cache'' (path_join home ''registry/cache'') (allocation a) p of
                     (cache, p1) \<Rightarrow>
                       (case issue_half ''index'' (path_join home ''registry/index'') (allocation a) p1 of
                          (index, p2) \<Rightarrow>
                            (Inr (),
                             a\<lparr>receipt := Some \<lparr>cache_grant_id = cache, index_grant_id = index,
                                 receipt_attempt_id = adm_attempt_id a, receipt_allocation = allocation a\<rparr>\<rparr>,
                             sweep_dead_check_entries alive p2))))))"

definition consume_allocation :: "check_admission \<Rightarrow> policy \<Rightarrow> policy" where
  "consume_allocation a p =
     (if identity p \<noteq> policy_identity a then p
      else p\<lparr>check_entries := (\<lambda>g. case check_entries p g of
               Some e \<Rightarrow> if entry_allocation e = allocation a then None else Some e | None \<Rightarrow> None)\<rparr>)"

definition consume_check_pair :: "check_admission \<Rightarrow> policy \<Rightarrow> policy" where
  "consume_check_pair a p = consume_allocation a p"

definition release_check_dependencies ::
  "store_view \<Rightarrow> check_admission \<Rightarrow> policy \<Rightarrow> check_admission \<times> policy" where
  "release_check_dependencies store a p =
     (if identity p \<noteq> policy_identity a \<or> sv_identity store \<noteq> store_identity a then (a, p)
      else (a\<lparr>adm_phase := CheckSpent\<rparr>, consume_allocation a p))"

definition reconsult_check_pair ::
  "(nat \<Rightarrow> bool) \<Rightarrow> policy \<Rightarrow> dependency_receipt \<Rightarrow> check_issuer_error + grant \<times> grant" where
  "reconsult_check_pair alive p r =
     (if \<not> alive (receipt_allocation r) then Inl OwnerEnded
      else
        (case check_entries p (cache_grant_id r) of
           None \<Rightarrow> Inl UnknownReceipt
         | Some c \<Rightarrow>
             (case check_entries p (index_grant_id r) of
                None \<Rightarrow> Inl UnknownReceipt
              | Some i \<Rightarrow>
                  if entry_allocation c \<noteq> receipt_allocation r \<or> entry_allocation i \<noteq> receipt_allocation r
                  then Inl UnknownReceipt
                  else if revoked (entry_grant c) \<or> revoked (entry_grant i) then Inl OwnerEnded
                  else Inr (entry_grant c, entry_grant i))))"

end
