(* ===== verification/Policy_Egress_Props.thy ===== *)
theory Policy_Egress_Props
  imports Policy_Egress
begin

text \<open>
  What the egress deny layer promises: alias spellings of one URL are one target, encoded spellings
  of a path reach the filesystem denies, preprocessing is stable, and preapproval keys of different
  classes or grants never collide.
\<close>

subsection \<open>Spellings of one web URL\<close>

text \<open>
  A web URL in pieces: scheme, userinfo with its \<open>@\<close>, host, port with its colon, path behind its
  slash, and query or fragment with its mark.
\<close>

definition web_url :: "string \<Rightarrow> string \<Rightarrow> string \<Rightarrow> string \<Rightarrow> string \<Rightarrow> string \<Rightarrow> string" where
  "web_url scheme userinfo host port path query =
     scheme @ ''://'' @ userinfo @ host @ port @ ''/'' @ path @ query"

definition plain_chars :: "char list \<Rightarrow> string \<Rightarrow> bool" where
  "plain_chars bad s \<longleftrightarrow> set s \<inter> set bad = {}"

definition web_parts :: "string \<Rightarrow> string \<Rightarrow> string \<Rightarrow> string \<Rightarrow> string \<Rightarrow> string \<Rightarrow> bool" where
  "web_parts scheme userinfo host port path query \<longleftrightarrow>
     (to_ascii_lowercase scheme = ''http'' \<or> to_ascii_lowercase scheme = ''https'') \<and>
     (userinfo = [] \<or> last userinfo = CHR ''@'') \<and>
     plain_chars [CHR ''/'', CHR ''?'', CHR ''#'', CHR 0x5C] userinfo \<and>
     host \<noteq> [] \<and>
     plain_chars [CHR ''/'', CHR ''?'', CHR ''#'', CHR 0x5C, CHR ''@'', CHR '':'', CHR ''[''] host \<and>
     (port = [] \<or>
      (hd port = CHR '':'' \<and> list_all is_ascii_digit (tl port) \<and>
       (tl port = [] \<or>
        (\<exists>n. parse_u16 (tl port) = Some n \<and> is_default_port (to_ascii_lowercase scheme) n)))) \<and>
     plain_chars [CHR ''?'', CHR ''#''] path \<and>
     (query = [] \<or> hd query = CHR ''?'' \<or> hd query = CHR ''#'')"

lemma until_first_append:
  "plain_chars ms a \<Longrightarrow> b = [] \<or> hd b \<in> set ms \<Longrightarrow> until_first (a @ b) ms = a"
  by (cases b) (auto simp: until_first_def plain_chars_def disjoint_iff takeWhile_append)

lemma alpha_lower:
  assumes "is_ascii_alphabetic (ascii_lower c)"
  shows "is_ascii_alphabetic c"
  using assms by (auto simp: is_ascii_alphabetic_def ascii_lower_val split: if_splits)

lemma scheme_alpha:
  assumes "to_ascii_lowercase s = ''http'' \<or> to_ascii_lowercase s = ''https''"
  shows "s \<noteq> []" "\<forall>c\<in>set s. is_ascii_alphabetic c" "CHR '':'' \<notin> set s"
proof -
  show "s \<noteq> []" using assms by (auto simp: to_ascii_lowercase_def)
  have "is_ascii_alphabetic (ascii_lower c)" if "c \<in> set s" for c
  proof -
    have "ascii_lower c \<in> set (to_ascii_lowercase s)" using that by (simp add: to_ascii_lowercase_def)
    then have "ascii_lower c \<in> {CHR ''h'', CHR ''t'', CHR ''p'', CHR ''s''}" using assms by auto
    then show ?thesis by (auto simp: is_ascii_alphabetic_def byte_val_def)
  qed
  then show a: "\<forall>c\<in>set s. is_ascii_alphabetic c" using alpha_lower by blast
  then show "CHR '':'' \<notin> set s" by (auto simp: is_ascii_alphabetic_def byte_val_def)
qed

lemma split_once_at: "c \<notin> set a \<Longrightarrow> split_once c (a @ c # b) = Some (a, b)"
  by (simp add: split_once_Some)

lemma split_scheme_web:
  assumes "to_ascii_lowercase s = ''http'' \<or> to_ascii_lowercase s = ''https''"
  shows "split_leading_scheme (s @ '':'' @ r) = Some (s, r)"
proof -
  have so: "split_once (CHR '':'') (s @ '':'' @ r) = Some (s, r)"
    using split_once_at[OF scheme_alpha(3)[OF assms], of r] by simp
  obtain c cs where s: "s = c # cs" using scheme_alpha(1)[OF assms] by (cases s) auto
  have "is_ascii_alphabetic c" "list_all is_ascii_alphanumeric cs"
    using scheme_alpha(2)[OF assms] s by (auto simp: list_all_iff is_ascii_alphanumeric_def)
  then show ?thesis using so s by (auto simp: split_leading_scheme_def list_all_iff)
qed

lemma not_file_scheme:
  "to_ascii_lowercase s = ''http'' \<or> to_ascii_lowercase s = ''https'' \<Longrightarrow> \<not> eq_ignore_ascii_case s ''file''"
  by (auto simp: eq_ignore_ascii_case_def to_ascii_lowercase_def ascii_lower_def byte_val_def)

lemma split_host_port_web:
  assumes "plain_chars [CHR '':'', CHR ''[''] host" "host \<noteq> []"
    and "port = [] \<or> (hd port = CHR '':'' \<and> list_all is_ascii_digit (tl port))"
  shows "split_host_port (host @ port) = Some (host, tl port)"
proof -
  have h: "strip_prefix ''['' (host @ port) = None"
    using assms(1,2) by (cases host) (auto simp: plain_chars_def)
  show ?thesis
  proof (cases port)
    case Nil
    then have "rsplit_once (CHR '':'') (host @ port) = None"
      using assms(1) by (simp add: rsplit_once_None plain_chars_def)
    then show ?thesis using h Nil by (simp add: split_host_port_def)
  next
    case (Cons c d)
    then have d: "c = CHR '':''" "list_all is_ascii_digit d" using assms(3) by simp_all
    then have "CHR '':'' \<notin> set d" by (auto simp: list_all_iff is_ascii_digit_def byte_val_def)
    then have "rsplit_once (CHR '':'') (host @ port) = Some (host, d)"
      using Cons d by (simp add: rsplit_once_Some)
    then show ?thesis using h Cons d by (simp add: split_host_port_def)
  qed
qed

lemma userinfo_stripped:
  assumes "userinfo = [] \<or> last userinfo = CHR ''@''" "CHR ''@'' \<notin> set rest"
  shows "strip_userinfo (userinfo @ rest) = rest"
proof (cases "userinfo = []")
  case True
  then show ?thesis using assms(2) by (simp add: strip_userinfo_def rsplit_once_None[THEN iffD2])
next
  case False
  then have "userinfo @ rest = butlast userinfo @ CHR ''@'' # rest"
    using assms(1) by (metis append.assoc append_Cons append_Nil append_butlast_last_id)
  then have "rsplit_once (CHR ''@'') (userinfo @ rest) = Some (butlast userinfo, rest)"
    using assms(2) by (simp add: rsplit_once_Some)
  then show ?thesis by (simp add: strip_userinfo_def)
qed

lemma normalize_web_url:
  assumes "web_parts scheme userinfo host port path query"
  shows "normalize_egress_url (web_url scheme userinfo host port path query) Carried =
    Some (to_ascii_lowercase scheme @ ''://'' @ to_ascii_lowercase host @ ''/'' @ path)"
proof -
  let ?auth = "userinfo @ host @ port"
  let ?rest = "?auth @ ''/'' @ path @ query"
  have s: "to_ascii_lowercase scheme = ''http'' \<or> to_ascii_lowercase scheme = ''https''"
    using assms by (simp add: web_parts_def)
  have raw: "web_url scheme userinfo host port path query = scheme @ '':'' @ ''//'' @ ?rest"
    by (simp add: web_url_def)
  have digits: "set port \<subseteq> {c. is_ascii_digit c \<or> c = CHR '':''}"
    using assms by (cases port) (auto simp: web_parts_def list_all_iff)
  then have pp: "plain_chars [CHR ''/'', CHR ''?'', CHR ''#'', CHR ''@''] port"
    by (auto simp: plain_chars_def is_ascii_digit_def byte_val_def)
  have "plain_chars [CHR ''/'', CHR ''?'', CHR ''#''] ?auth"
    using assms pp by (auto simp: web_parts_def plain_chars_def)
  then have auth: "until_first ?rest [CHR ''/'', CHR ''?'', CHR ''#''] = ?auth"
    using until_first_append[of "[CHR ''/'', CHR ''?'', CHR ''#'']" ?auth "''/'' @ path @ query"] by simp
  have path: "until_first (path @ query) [CHR ''?'', CHR ''#''] = path"
    using until_first_append[of "[CHR ''?'', CHR ''#'']" path query] assms by (auto simp: web_parts_def)
  have "trim_start_matches is_separator (''//'' @ ?rest) = ?rest"
  proof -
    have "\<not> is_separator (hd ?auth)" "?auth \<noteq> []"
      using assms by (cases userinfo; cases host; auto simp: web_parts_def plain_chars_def is_separator_def)+
    then show ?thesis by (cases ?auth) (auto simp: trim_start_matches_def is_separator_def)
  qed
  moreover have "strip_userinfo ?auth = host @ port"
    by (rule userinfo_stripped) (use assms pp in \<open>auto simp: web_parts_def plain_chars_def\<close>)
  moreover have "split_host_port (host @ port) = Some (host, tl port)"
    by (rule split_host_port_web) (use assms in \<open>auto simp: web_parts_def plain_chars_def\<close>)
  moreover have "normalized_port Carried (to_ascii_lowercase scheme) (tl port) = []"
    using assms by (auto simp: web_parts_def normalized_port_def)
  moreover have "drop (length ?auth) ?rest = ''/'' @ path @ query" by simp
  moreover have "split_once (CHR '':'') (scheme @ '':'' @ ''//'' @ ?rest) = Some (scheme, ''//'' @ ?rest)"
    using split_once_at[OF scheme_alpha(3)[OF s]] by simp
  ultimately show ?thesis
    unfolding raw normalize_egress_url_def
    using s split_scheme_web[OF s, of "''//'' @ ?rest"] not_file_scheme[OF s] auth path
    by (auto simp: Let_def)
qed


lemma web_segments:
  assumes s: "s = ''http'' \<or> s = ''https''" and h: "plain_chars [CHR ''/'', CHR ''?'', CHR ''#''] host"
  shows "url_blob_segments_of (s @ ''://'' @ host @ ''/'' @ path) =
    Some \<lparr>intro = s @ ''://'', authority = authority_tokens host, seg_tail = decoded_identity (''/'' @ path)\<rparr>"
proof -
  have l: "to_ascii_lowercase s = ''http'' \<or> to_ascii_lowercase s = ''https''"
    using s by (auto simp: to_ascii_lowercase_def ascii_lower_def byte_val_def)
  have a: "until_first (host @ ''/'' @ path) [CHR ''/'', CHR ''?'', CHR ''#''] = host"
    using until_first_append[OF h, of "''/'' @ path"] by simp
  have p: "strip_prefix ''//'' (s @ ''://'' @ host @ ''/'' @ path) = None" using s by auto
  have q: "split_leading_scheme (s @ ''://'' @ host @ ''/'' @ path) = Some (s, ''//'' @ host @ ''/'' @ path)"
    using split_scheme_web[OF l, of "''//'' @ host @ ''/'' @ path"] by simp
  have "take (length s + 3) (s @ ''://'' @ host @ ''/'' @ path) = s @ ''://''" by simp
  then show ?thesis using a p q by (simp add: url_blob_segments_of_def)
qed

lemma same_decoded_identity_refl [simp]: "same_decoded_identity s s"
  by (simp add: same_decoded_identity_def split: option.splits)

lemma lower_plain:
  assumes "plain_chars bad s" "\<forall>c\<in>set bad. \<not> is_ascii_alphabetic c"
  shows "plain_chars bad (to_ascii_lowercase s)"
proof -
  have "ascii_lower c \<notin> set bad" if "c \<in> set s" for c
  proof (cases "65 \<le> byte_val c \<and> byte_val c \<le> 90")
    case True
    then have "is_ascii_alphabetic (ascii_lower c)" by (simp add: is_ascii_alphabetic_def ascii_lower_val)
    then show ?thesis using assms(2) by blast
  next
    case False
    then show ?thesis using assms(1) that by (auto simp: ascii_lower_def plain_chars_def)
  qed
  then show ?thesis by (auto simp: plain_chars_def to_ascii_lowercase_def)
qed

lemma web_has_scheme: "web_parts scheme u h p path q \<Longrightarrow> has_leading_scheme (web_url scheme u h p path q)"
  using split_scheme_web[of scheme "''//'' @ u @ h @ p @ ''/'' @ path @ q"]
  by (auto simp: web_parts_def has_leading_scheme_def web_url_def starts_with_def)

lemma enrolled_web_denied:
  assumes e: "entry \<in> set denies" "preprocess_egress_target entry = web_url s1 u1 h1 p1 path1 q1"
    and w: "web_parts s1 u1 h1 p1 path1 q1" "web_parts s2 u2 h2 p2 path2 q2"
    and eq: "to_ascii_lowercase s1 = to_ascii_lowercase s2" "to_ascii_lowercase h1 = to_ascii_lowercase h2"
      "decoded_identity (''/'' @ path1) = decoded_identity (''/'' @ path2)"
  shows "egress_denied denies (web_url s2 u2 h2 p2 path2 q2)"
proof -
  let ?f = "\<lambda>path. to_ascii_lowercase s2 @ ''://'' @ to_ascii_lowercase h2 @ ''/'' @ path"
  have plain: "plain_chars [CHR ''/'', CHR ''?'', CHR ''#''] (to_ascii_lowercase h2)"
    by (rule lower_plain) (use w(2) in \<open>auto simp: web_parts_def plain_chars_def is_ascii_alphabetic_def byte_val_def\<close>)
  have "to_ascii_lowercase s2 = ''http'' \<or> to_ascii_lowercase s2 = ''https''" using w(2) by (simp add: web_parts_def)
  from web_segments[OF this plain] eq(3) have same: "same_decoded_identity (?f path2) (?f path1)"
    by (simp add: same_decoded_identity_def)
  have n: "normalize_egress_url (web_url s2 u2 h2 p2 path2 q2) Carried = Some (?f path2)"
    "normalize_egress_url (web_url s1 u1 h1 p1 path1 q1) Carried = Some (?f path1)"
    using normalize_web_url[OF w(2)] normalize_web_url[OF w(1)] eq by simp_all
  show ?thesis
    unfolding egress_denied_def Let_def list_ex_iff
    by (rule bexI[OF _ e(1)]) (use e(2) web_has_scheme[OF w(1)] n same in \<open>simp add: url_form_matches_def\<close>)
qed

text \<open>
  Alias spellings of a web URL are one target for the denies: when a URL is enrolled, every
  request that spells the same scheme and host in any case, with any userinfo, no port, the empty
  port or the default port in any numeric spelling, any query or fragment, and a path with the same
  percent-decoding, is denied.
\<close>

theorem enrolled_url_aliases_denied:
  assumes "entry \<in> set denies" "preprocess_egress_target entry = web_url s1 u1 h1 p1 path1 q1"
    and "web_parts s1 u1 h1 p1 path1 q1" "web_parts s2 u2 h2 p2 path2 q2"
    and "to_ascii_lowercase s1 = to_ascii_lowercase s2" "to_ascii_lowercase h1 = to_ascii_lowercase h2"
    and "decoded_identity (''/'' @ path1) = decoded_identity (''/'' @ path2)"
  shows "egress_denied denies (web_url s2 u2 h2 p2 path2 q2)"
  using enrolled_web_denied[OF assms] .

lemmas web_eval = web_parts_def plain_chars_def to_ascii_lowercase_def ascii_lower_def byte_val_def
  list_all_iff is_ascii_digit_def is_ascii_alphabetic_def is_ascii_alphanumeric_def parse_u16_def from_str_radix_def
  to_digit_def is_default_port_def char_of_eq

theorem enrolled_url_aliases_denied_witness:
  "egress_denied [''http://evil.example/admin''] ''HTTP://u@EVIL.example:080/%61dmin?x''"
proof -
  have u: "''http://evil.example/admin'' = web_url ''http'' '''' ''evil.example'' '''' ''admin'' ''''"
    "''HTTP://u@EVIL.example:080/%61dmin?x'' = web_url ''HTTP'' ''u@'' ''EVIL.example'' '':080'' ''%61dmin'' ''?x''"
    by (simp_all add: web_url_def)
  have w: "web_parts ''http'' '''' ''evil.example'' '''' ''admin'' ''''"
    "web_parts ''HTTP'' ''u@'' ''EVIL.example'' '':080'' ''%61dmin'' ''?x''"
    by (simp_all add: web_eval)
  have pre: "preprocess_egress_target ''http://evil.example/admin'' = ''http://evil.example/admin''"
    by (simp add: preprocess_egress_target_def trim_matches_def str_replace_def byte_val_def Let_def)
  have "decoded_identity (''/'' @ ''admin'') = decoded_identity (''/'' @ ''%61dmin'')"
    by (simp add: decoded_identity_def percent_decode_def hex_value_def byte_val_def utf8_step_def utf8_follow_def char_of_eq)
  then show ?thesis
    unfolding u(2)
    using enrolled_url_aliases_denied[of "''http://evil.example/admin''" "[''http://evil.example/admin'']", OF _ _ w] pre u(1)
    by (simp add: to_ascii_lowercase_def ascii_lower_def byte_val_def char_of_eq)
qed

subsection \<open>Preprocessing\<close>

lemma dropWhile_clean: "s = [] \<or> \<not> P (hd s) \<Longrightarrow> dropWhile P s = s"
  by (cases s) auto

lemma trim_matches_ends:
  "trim_matches P s = [] \<or> (\<not> P (hd (trim_matches P s)) \<and> \<not> P (last (trim_matches P s)))"
proof (cases "trim_matches P s = []")
  case False
  let ?d = "dropWhile P s"
  obtain e where e: "?d = trim_matches P s @ e"
    unfolding trim_matches_def by (metis rev_append rev_rev_ident takeWhile_dropWhile_id)
  then have "hd ?d = hd (trim_matches P s)" "?d \<noteq> []" using False by auto
  moreover have "\<not> P (last (trim_matches P s))"
    using False hd_dropWhile[of P "rev ?d"] by (simp add: trim_matches_def last_rev)
  ultimately show ?thesis using hd_dropWhile[of P s] by simp
qed simp

lemma trim_matches_id: "s = [] \<or> (\<not> P (hd s) \<and> \<not> P (last s)) \<Longrightarrow> trim_matches P s = s"
  by (auto simp: trim_matches_def dropWhile_clean hd_rev)

lemma set_trim_matches: "set (trim_matches P s) \<subseteq> set s"
  by (auto simp: trim_matches_def dest!: set_dropWhileD)

lemma str_replace_char: "str_replace c [d] s = map (\<lambda>x. if x = c then d else x) s"
  by (induction s) (auto simp: str_replace_def)

text \<open>
  Preprocessing is stable: a cleaned spelling is cleaned to itself, so the request, the deny
  entry and the recorded approval see the same bytes however often a target is preprocessed.
\<close>

theorem preprocess_idempotent: "preprocess_egress_target (preprocess_egress_target raw) = preprocess_egress_target raw"
proof -
  let ?P = "\<lambda>c. byte_val c \<le> 32" and ?K = "\<lambda>c. c \<noteq> CHR 0x09 \<and> c \<noteq> CHR 0x0A \<and> c \<noteq> CHR 0x0D"
  let ?sub = "\<lambda>x. if x = CHR 0x5C then CHR ''/'' else x"
  define t where "t = trim_matches ?P (filter ?K raw)"
  have keep: "filter ?K t = t" unfolding t_def using set_trim_matches[of ?P "filter ?K raw"] by (intro filter_True) auto
  have keep': "filter ?K (map ?sub t) = map ?sub t"
    using keep by (auto simp: filter_id_conv)
  have ends: "t = [] \<or> (\<not> ?P (hd t) \<and> \<not> ?P (last t))" unfolding t_def by (rule trim_matches_ends)
  have trim: "trim_matches ?P t = t" by (rule trim_matches_id[OF ends])
  have "map ?sub t = [] \<or> (\<not> ?P (hd (map ?sub t)) \<and> \<not> ?P (last (map ?sub t)))"
    using ends by (cases "t = []") (auto simp: hd_map last_map byte_val_def)
  then have trim': "trim_matches ?P (map ?sub t) = map ?sub t" by (rule trim_matches_id)
  have once: "preprocess_egress_target raw = (if web_shaped t then map ?sub t else t)"
    by (simp add: preprocess_egress_target_def t_def Let_def str_replace_char)
  have "map ?sub (map ?sub t) = map ?sub t" by simp
  then have "preprocess_egress_target (map ?sub t) = map ?sub t"
    using keep' trim' by (simp add: preprocess_egress_target_def Let_def str_replace_char)
  moreover have "\<not> web_shaped t \<Longrightarrow> preprocess_egress_target t = t"
    using keep trim by (simp add: preprocess_egress_target_def Let_def)
  ultimately show ?thesis using once by simp
qed

subsection \<open>Preapproval keys\<close>

lemma class_key_no_colon: "CHR '':'' \<notin> set (class_key c)"
  by (cases c) simp_all

lemma class_key_inject: "class_key a = class_key b \<longleftrightarrow> a = b"
  by (cases a; cases b; simp)

lemma key_safe_no_colon: "grant_id_is_key_safe g \<Longrightarrow> CHR '':'' \<notin> set g"
  by (auto simp: grant_id_is_key_safe_def list_all_iff is_ascii_alphanumeric_def is_ascii_alphabetic_def
      is_ascii_digit_def byte_val_def)

lemma colon_split:
  assumes "a @ CHR '':'' # x = b @ CHR '':'' # y" "CHR '':'' \<notin> set a" "CHR '':'' \<notin> set b"
  shows "a = b \<and> x = y"
proof -
  have "split_once (CHR '':'') (a @ CHR '':'' # x) = Some (a, x)" by (rule split_once_at[OF assms(2)])
  then have "split_once (CHR '':'') (b @ CHR '':'' # y) = Some (a, x)" unfolding assms(1) .
  then show ?thesis unfolding split_once_at[OF assms(3)] by simp
qed

lemma preapproval_key_shape:
  assumes "preapproval_scope canonicalize c g s = Some k"
  shows "grant_id_is_key_safe g \<and> (\<exists>t. k = class_key c @ CHR '':'' # (g @ CHR '':'' # t))"
proof -
  have safe: "grant_id_is_key_safe g" using assms by (simp add: preapproval_scope_def split: if_splits)
  obtain key where "map_option (\<lambda>k. class_key c @ '':'' @ g @ '':'' @ k) key = Some k"
    using assms safe unfolding preapproval_scope_def Let_def by (simp only: if_False not_True_eq_False)
  then show ?thesis using safe by auto
qed

text \<open>
  A recorded consent admits nothing else: two requests with the same preapproval key have the
  same effect class and the same grant, whatever their scopes and whatever the filesystem answers.
\<close>

theorem preapproval_keys_separate:
  assumes "preapproval_scope canonicalize c1 g1 s1 = Some k" "preapproval_scope canonicalize' c2 g2 s2 = Some k"
  shows "c1 = c2 \<and> g1 = g2"
proof -
  note shape = preapproval_key_shape
  obtain t1 where k1: "k = class_key c1 @ CHR '':'' # (g1 @ CHR '':'' # t1)" "grant_id_is_key_safe g1"
    using shape[OF assms(1)] by blast
  obtain t2 where k2: "k = class_key c2 @ CHR '':'' # (g2 @ CHR '':'' # t2)" "grant_id_is_key_safe g2"
    using shape[OF assms(2)] by blast
  have "class_key c1 @ CHR '':'' # (g1 @ CHR '':'' # t1) = class_key c2 @ CHR '':'' # (g2 @ CHR '':'' # t2)"
    by (rule trans[OF k1(1)[symmetric] k2(1)])
  from colon_split[OF this class_key_no_colon class_key_no_colon]
  have "class_key c1 = class_key c2 \<and> g1 @ CHR '':'' # t1 = g2 @ CHR '':'' # t2" .
  moreover from this have "g1 = g2"
    using colon_split[of g1 t1 g2 t2] key_safe_no_colon k1(2) k2(2) by blast
  ultimately show ?thesis by (simp add: class_key_inject)
qed

theorem preapproval_keys_separate_witness:
  "preapproval_scope (\<lambda>_. None) ModelEffect ''grant-1'' ''m'' = Some ''model:grant-1:m'' \<and>
   preapproval_scope (\<lambda>_. None) ModelEffect ''grant-2'' ''m'' \<noteq> Some ''model:grant-1:m''"
proof -
  have m: "preapproval_scope (\<lambda>_. None) ModelEffect ''grant-1'' ''m'' = Some ''model:grant-1:m''"
    by (simp add: preapproval_scope_def grant_id_is_key_safe_def is_ascii_alphanumeric_def is_ascii_alphabetic_def
        is_ascii_digit_def byte_val_def)
  have "''grant-2'' \<noteq> ''grant-1''" by simp
  then have "preapproval_scope (\<lambda>_. None) ModelEffect ''grant-2'' ''m'' \<noteq> Some ''model:grant-1:m''"
    using preapproval_keys_separate[OF _ m] by metis
  with m show ?thesis by (rule conjI)
qed

subsection \<open>Filesystem shapes\<close>

lemma percent_loop_char: "CHR ''%'' \<notin> set a \<Longrightarrow> percent_loop (a @ b) = (case percent_loop b of None \<Rightarrow> None | Some d \<Rightarrow> Some (a @ d))"
  by (induction a) (auto split: option.splits)

lemma percent_decode_loop:
  "percent_decode raw = (case percent_loop raw of
     None \<Rightarrow> None | Some d \<Rightarrow> if CHR ''%'' \<in> set raw \<longrightarrow> utf8_valid d then Some d else None)"
proof (cases "position (\<lambda>c. c = CHR ''%'') raw")
  case None
  then have "CHR ''%'' \<notin> set raw" by (auto simp: position_None)
  then show ?thesis using None percent_loop_char[of raw "[]"] by (simp add: percent_decode_def)
next
  case (Some k)
  then have k: "k < length raw" "raw ! k = CHR ''%''" "\<forall>j<k. raw ! j \<noteq> CHR ''%''" by (simp_all add: position_Some)
  then have m: "CHR ''%'' \<in> set raw" by (metis nth_mem)
  have "CHR ''%'' \<notin> set (take k raw)" using k(3) by (auto simp: in_set_conv_nth)
  from percent_loop_char[OF this, of "drop k raw"]
  have "percent_loop raw = (case percent_loop (drop k raw) of None \<Rightarrow> None | Some d \<Rightarrow> Some (take k raw @ d))" by simp
  then show ?thesis using Some m by (auto simp: percent_decode_def split: option.splits)
qed

text \<open>
  A file URL reaches the filesystem denies under every spelling: whatever the scheme's case,
  the authority, the per-byte percent-encoding of the path behind its first slash and the query, the
  shape is the absolute path the URL spells.
\<close>

theorem file_url_reaches_path:
  assumes "eq_ignore_ascii_case scheme ''file''" "CHR '':'' \<notin> set scheme"
    and "plain_chars [CHR ''/'', CHR ''?'', CHR ''#''] auth" "plain_chars [CHR ''?'', CHR ''#''] spelled"
    and "query = [] \<or> hd query = CHR ''?'' \<or> hd query = CHR ''#''"
    and "percent_decode (''/'' @ spelled) = Some path"
    and "utf8_valid (scheme @ ''://'' @ auth @ ''/'' @ spelled @ query)"
  shows "egress_filesystem_shape (scheme @ ''://'' @ auth @ ''/'' @ spelled @ query) = FsAbsolute path"
proof -
  let ?rest = "''//'' @ auth @ ''/'' @ spelled"
  have "file_scheme_rest (scheme @ ''://'' @ auth @ ''/'' @ spelled @ query) = Some (?rest @ query)"
    using split_once_at[OF assms(2), of "''//'' @ auth @ ''/'' @ spelled @ query"] assms(1)
    by (simp add: file_scheme_rest_def)
  moreover have "until_first (?rest @ query) [CHR ''?'', CHR ''#''] = ?rest"
    by (rule until_first_append) (use assms(3,4,5) in \<open>auto simp: plain_chars_def\<close>)
  moreover have "file_url_path ?rest = Some path"
  proof -
    have "position (\<lambda>c. c = CHR ''/'') auth = None" using assms(3) by (auto simp: position_None plain_chars_def)
    then have "position (\<lambda>c. c = CHR ''/'') (auth @ ''/'' @ spelled) = Some (length auth)"
      by (simp add: position_append)
    then show ?thesis using assms(6) by (simp add: file_url_path_def)
  qed
  moreover have "is_absolute path"
    using assms(6) by (auto simp: percent_decode_loop is_absolute_def starts_with_def split: option.splits if_splits)
  ultimately show ?thesis using assms(7) by (simp add: egress_filesystem_shape_def)
qed

theorem file_url_reaches_path_witness:
  "egress_filesystem_shape (''FILE'' @ ''://'' @ ''host'' @ ''/'' @ ''etc/%70asswd'' @ ''?x'') = FsAbsolute ''/etc/passwd''"
proof (rule file_url_reaches_path)
  show "percent_decode (''/'' @ ''etc/%70asswd'') = Some ''/etc/passwd''"
    by (simp add: percent_decode_def hex_value_def byte_val_def utf8_step_def utf8_follow_def char_of_eq)
  show "utf8_valid (''FILE'' @ ''://'' @ ''host'' @ ''/'' @ ''etc/%70asswd'' @ ''?x'')"
    by (rule utf8_valid_ascii) (simp add: byte_val_def)
qed (simp_all add: eq_ignore_ascii_case_def to_ascii_lowercase_def ascii_lower_def byte_val_def char_of_eq plain_chars_def)

text \<open>
  A leading plus sign makes a label numeric: the IPv4 reader takes \<open>127.0.0.+1\<close> for the
  loopback address, which the comment on it calls a hostname.
\<close>

theorem plus_sign_is_numeric: "ipv4_number ''127.0.0.+1'' = Some [127, 0, 0, 1] \<and> is_loopback_authority ''127.0.0.+1''"
proof -
  have "ipv4_number ''127.0.0.+1'' = Some [127, 0, 0, 1]"
    by (simp add: ipv4_number_def ipv4_part_def starts_with_def from_str_radix_def to_digit_def byte_val_def Let_def)
  then show ?thesis by (simp add: is_loopback_authority_def)
qed

end
