(* ===== verification/Policy_Props.thy ===== *)
theory Policy_Props
  imports Policy Policy_Egress_Props
begin

text \<open>
  What the policy promises: the steps its operations make, the invariant on its ids, the lifetime
  of a grant, the meaning of the deny rules, the mode matrix, and the life of a check pair.
\<close>

subsection \<open>Steps and invariant\<close>

inductive policy_step :: "policy \<Rightarrow> policy \<Rightarrow> bool" where
  ps_grant: "grant_classes root cs p = (g, q) \<Longrightarrow> policy_step p q"
| ps_revoke: "policy_step p (revoke g p)"
| ps_enroll: "enroll_deny env path p = (r, q) \<Longrightarrow> policy_step p q"
| ps_enroll_target: "policy_step p (enroll_deny_target raw p)"
| ps_revoke_deny: "revoke_deny env path p = (r, q) \<Longrightarrow> policy_step p q"
| ps_issue: "issue_check_dependencies canonicalize alive store a p = (r, b, q) \<Longrightarrow> policy_step p q"
| ps_release: "release_check_dependencies store a p = (b, q) \<Longrightarrow> policy_step p q"
| ps_consume: "policy_step p (consume_check_pair a p)"

inductive policy_reachable :: "policy \<Rightarrow> bool" where
  pr_new: "policy_reachable (policy_default i)"
| pr_step: "policy_reachable p \<Longrightarrow> policy_step p q \<Longrightarrow> policy_reachable q"

text \<open>Ids are minted from one counter, under a prefix that tells grants and check entries apart.\<close>

definition minted :: "string \<Rightarrow> nat \<Rightarrow> string \<Rightarrow> bool" where
  "minted prefix bound g \<longleftrightarrow> (\<exists>n. 1 \<le> n \<and> n \<le> bound \<and> g = prefix @ show_nat n)"

definition policy_inv :: "policy \<Rightarrow> bool" where
  "policy_inv p \<longleftrightarrow>
     (\<forall>g gr. grants p g = Some gr \<longrightarrow> minted ''grant-'' (next_id p) g \<and> grant_id gr = g) \<and>
     (\<forall>g e. check_entries p g = Some e \<longrightarrow>
        (minted ''check-cache-'' (next_id p) g \<or> minted ''check-index-'' (next_id p) g) \<and>
        grant_id (entry_grant e) = g \<and> classes (entry_grant e) = [ReadEffect] \<and> \<not> revoked (entry_grant e))"

lemma minted_mono: "minted pre n g \<Longrightarrow> n \<le> m \<Longrightarrow> minted pre m g"
  unfolding minted_def using le_trans by blast

lemma minted_fresh: "minted pre n (pre @ show_nat (Suc n)) \<Longrightarrow> False"
  by (auto simp: minted_def show_nat_inject)

lemma minted_Suc: "minted pre (Suc n) (pre @ show_nat (Suc n))"
  unfolding minted_def by (intro exI[of _ "Suc n"]) simp

lemma minted_grant_check: "minted ''grant-'' n g \<Longrightarrow> \<not> minted ''check-cache-'' m g \<and> \<not> minted ''check-index-'' m g"
  by (auto simp: minted_def)

lemma minted_cache_index: "minted ''check-cache-'' n g \<Longrightarrow> \<not> minted ''check-index-'' m g"
  by (auto simp: minted_def)

lemma policy_invI:
  assumes "\<And>g gr. grants p g = Some gr \<Longrightarrow> minted ''grant-'' (next_id p) g \<and> grant_id gr = g"
    and "\<And>g e. check_entries p g = Some e \<Longrightarrow>
        (minted ''check-cache-'' (next_id p) g \<or> minted ''check-index-'' (next_id p) g) \<and>
        grant_id (entry_grant e) = g \<and> classes (entry_grant e) = [ReadEffect] \<and> \<not> revoked (entry_grant e)"
  shows "policy_inv p"
  unfolding policy_inv_def using assms by blast

lemma policy_invD:
  assumes "policy_inv p"
  shows "grants p g = Some gr \<Longrightarrow> minted ''grant-'' (next_id p) g \<and> grant_id gr = g"
    and "check_entries p g = Some e \<Longrightarrow>
        (minted ''check-cache-'' (next_id p) g \<or> minted ''check-index-'' (next_id p) g) \<and>
        grant_id (entry_grant e) = g \<and> classes (entry_grant e) = [ReadEffect] \<and> \<not> revoked (entry_grant e)"
  using assms unfolding policy_inv_def by blast+

lemma grant_classes_inv:
  assumes inv: "policy_inv p" and g: "grant_classes root cs p = (g, q)"
  shows "policy_inv q"
proof (rule policy_invI)
  have q: "q = p\<lparr>next_id := Suc (next_id p), grants := (grants p)(g \<mapsto>
      \<lparr>grant_id = g, scope_root = root, classes = cs, revoked = False\<rparr>)\<rparr>" "g = ''grant-'' @ show_nat (Suc (next_id p))"
    using g by (auto simp: grant_classes_def Let_def)
  fix h gr assume "grants q h = Some gr"
  then show "minted ''grant-'' (next_id q) h \<and> grant_id gr = h"
    using policy_invD(1)[OF inv, of h gr] minted_mono[of "''grant-''" "next_id p" h "Suc (next_id p)"]
      minted_Suc[of "''grant-''" "next_id p"] q
    by (cases "h = g") auto
next
  have q: "next_id q = Suc (next_id p)" "check_entries q = check_entries p"
    using g by (auto simp: grant_classes_def Let_def)
  fix h e assume "check_entries q h = Some e"
  then show "(minted ''check-cache-'' (next_id q) h \<or> minted ''check-index-'' (next_id q) h) \<and>
        grant_id (entry_grant e) = h \<and> classes (entry_grant e) = [ReadEffect] \<and> \<not> revoked (entry_grant e)"
    using policy_invD(2)[OF inv, of h e] minted_mono[of _ "next_id p" h "Suc (next_id p)"] q by auto
qed

lemma policy_inv_sub:
  assumes inv: "policy_inv p" and "next_id p \<le> next_id q"
    and "\<And>g gr. grants q g = Some gr \<Longrightarrow> \<exists>gr'. grants p g = Some gr' \<and> grant_id gr = grant_id gr'"
    and "\<And>g e. check_entries q g = Some e \<Longrightarrow> check_entries p g = Some e"
  shows "policy_inv q"
proof (rule policy_invI)
  fix g gr assume "grants q g = Some gr"
  then obtain gr' where "grants p g = Some gr'" "grant_id gr = grant_id gr'" using assms(3) by blast
  then show "minted ''grant-'' (next_id q) g \<and> grant_id gr = g"
    using policy_invD(1)[OF inv] minted_mono[OF _ assms(2)] by simp
next
  fix g e assume "check_entries q g = Some e"
  from policy_invD(2)[OF inv assms(4)[OF this]]
  show "(minted ''check-cache-'' (next_id q) g \<or> minted ''check-index-'' (next_id q) g) \<and>
        grant_id (entry_grant e) = g \<and> classes (entry_grant e) = [ReadEffect] \<and> \<not> revoked (entry_grant e)"
    using minted_mono[OF _ assms(2)] by blast
qed

lemma issue_half_inv:
  assumes inv: "policy_inv p" and h: "issue_half label root alloc p = (g, q)" and l: "label = ''cache'' \<or> label = ''index''"
  shows "policy_inv q"
proof (rule policy_invI)
  have q: "next_id q = Suc (next_id p)" "grants q = grants p" using h by (auto simp: issue_half_def Let_def)
  fix k gr assume "grants q k = Some gr"
  then show "minted ''grant-'' (next_id q) k \<and> grant_id gr = k"
    using policy_invD(1)[OF inv, of k gr] minted_mono[of _ "next_id p" k "Suc (next_id p)"] q by auto
next
  have q: "next_id q = Suc (next_id p)" "g = (''check-'' @ label @ ''-'') @ show_nat (Suc (next_id p))"
    "check_entries q = (check_entries p)(g \<mapsto> \<lparr>entry_grant = \<lparr>grant_id = g, scope_root = root,
        classes = [ReadEffect], revoked = False\<rparr>, entry_allocation = alloc\<rparr>)"
    using h by (auto simp: issue_half_def Let_def)
  have new: "minted (''check-'' @ label @ ''-'') (next_id q) g" unfolding q(1,2) by (rule minted_Suc)
  fix k e assume e: "check_entries q k = Some e"
  show "(minted ''check-cache-'' (next_id q) k \<or> minted ''check-index-'' (next_id q) k) \<and>
        grant_id (entry_grant e) = k \<and> classes (entry_grant e) = [ReadEffect] \<and> \<not> revoked (entry_grant e)"
  proof (cases "k = g")
    case True
    then show ?thesis using new l e q(3) by auto
  next
    case False
    then have "check_entries p k = Some e" using e q(3) by simp
    then show ?thesis
      using policy_invD(2)[OF inv] minted_mono[of _ "next_id p" k "next_id q"] q(1) by auto
  qed
qed

lemma issue_cases:
  assumes "issue_check_dependencies canonicalize alive store a p = (r, b, q)"
  shows "(q = p \<and> b = a \<and> r \<noteq> Inr ()) \<or>
    (\<exists>home cache p1 index p2. r = Inr () \<and> canonicalize (bound_cargo_home a) = Some home \<and>
       identity p = policy_identity a \<and> sv_identity store = store_identity a \<and> adm_phase a = CheckPending \<and> receipt a = None \<and>
       reconsult_admission_context store a = Inr () \<and>
       issue_half ''cache'' (path_join home ''registry/cache'') (allocation a) p = (cache, p1) \<and>
       issue_half ''index'' (path_join home ''registry/index'') (allocation a) p1 = (index, p2) \<and>
       b = a\<lparr>receipt := Some \<lparr>cache_grant_id = cache, index_grant_id = index,
              receipt_attempt_id = adm_attempt_id a, receipt_allocation = allocation a\<rparr>\<rparr> \<and>
       q = sweep_dead_check_entries alive p2)"
  using assms unfolding issue_check_dependencies_def
  by (auto split: if_splits sum.splits option.splits prod.splits)

lemma policy_inv_same:
  "policy_inv p \<Longrightarrow> next_id q = next_id p \<Longrightarrow> grants q = grants p \<Longrightarrow> check_entries q = check_entries p \<Longrightarrow> policy_inv q"
  unfolding policy_inv_def by simp

lemma sweep_inv: "policy_inv p \<Longrightarrow> policy_inv (sweep_dead_check_entries alive p)"
  by (rule policy_inv_sub[where p = p]) (auto simp: sweep_dead_check_entries_def split: option.splits if_splits)

lemma consume_inv: "policy_inv p \<Longrightarrow> policy_inv (consume_allocation a p)"
  by (rule policy_inv_sub[where p = p]) (auto simp: consume_allocation_def split: option.splits if_splits)

lemma policy_step_inv:
  assumes "policy_step p q" "policy_inv p"
  shows "policy_inv q"
  using assms(1)
proof (cases rule: policy_step.cases)
  case (ps_grant root cs g)
  then show ?thesis using grant_classes_inv[OF assms(2)] by blast
next
  case (ps_revoke g)
  have "policy_inv (revoke g p)"
    by (rule policy_inv_sub[OF assms(2)]) (auto simp: revoke_def split: option.splits if_splits)
  then show ?thesis using ps_revoke by simp
next
  case (ps_issue canonicalize alive store a r b)
  then show ?thesis
    using issue_cases[OF ps_issue] issue_half_inv[OF issue_half_inv[OF assms(2)]] sweep_inv assms(2) by metis
next
  case (ps_release store a b)
  then show ?thesis using consume_inv[OF assms(2)] assms(2) by (auto simp: release_check_dependencies_def split: if_splits)
next
  case (ps_consume a)
  then show ?thesis using consume_inv[OF assms(2)] by (simp add: consume_check_pair_def)
next
  case (ps_enroll env path r)
  show ?thesis
    by (rule policy_inv_same[OF assms(2)]) (use ps_enroll in \<open>auto simp: enroll_deny_def split: sum.splits\<close>)
next
  case (ps_revoke_deny env path r)
  show ?thesis
    by (rule policy_inv_same[OF assms(2)]) (use ps_revoke_deny in \<open>auto simp: revoke_deny_def split: sum.splits\<close>)
next
  case (ps_enroll_target raw)
  show ?thesis
    by (rule policy_inv_same[OF assms(2)]) (use ps_enroll_target in \<open>auto simp: enroll_deny_target_def\<close>)
qed

lemma policy_default_inv: "policy_inv (policy_default i)"
  by (simp add: policy_inv_def policy_default_def)

lemma policy_reachable_inv: "policy_reachable p \<Longrightarrow> policy_inv p"
  by (induction rule: policy_reachable.induct) (auto intro: policy_default_inv policy_step_inv)

subsection \<open>The lifetime of a grant\<close>

text \<open>A grant is never dropped, never changes what it admits, and stays revoked.\<close>

definition grant_kept :: "grant \<Rightarrow> grant \<Rightarrow> bool" where
  "grant_kept a b \<longleftrightarrow> grant_id b = grant_id a \<and> scope_root b = scope_root a \<and> classes b = classes a \<and> (revoked a \<longrightarrow> revoked b)"

lemma sweep_grants [simp]: "grants (sweep_dead_check_entries alive p) = grants p"
  by (simp add: sweep_dead_check_entries_def)

lemma consume_grants [simp]: "grants (consume_allocation a p) = grants p"
  by (simp add: consume_allocation_def)

lemma policy_step_grant:
  assumes st: "policy_step p q" and inv: "policy_inv p" and g: "grants p g = Some gr"
  shows "\<exists>gr'. grants q g = Some gr' \<and> grant_kept gr gr'"
  using st
proof (cases rule: policy_step.cases)
  case (ps_grant root cs h)
  then have h: "h = ''grant-'' @ show_nat (Suc (next_id p))" by (auto simp: grant_classes_def Let_def)
  have "h \<noteq> g" unfolding h using policy_invD(1)[OF inv g] minted_fresh[of "''grant-''" "next_id p"] by blast
  then show ?thesis using ps_grant g by (auto simp: grant_classes_def Let_def grant_kept_def)
next
  case (ps_issue canonicalize alive store a r b)
  have "grants p1 = grants p" if "issue_half label root alloc p = (h, p1)" for label root alloc h p p1
    using that by (auto simp: issue_half_def Let_def)
  then have "grants q = grants p" using issue_cases[OF ps_issue] by (metis sweep_grants)
  then show ?thesis using g by (simp add: grant_kept_def)
qed (use g in \<open>auto simp: grant_kept_def revoke_def enroll_deny_def enroll_deny_target_def revoke_deny_def
    release_check_dependencies_def consume_check_pair_def split: sum.splits if_splits option.splits\<close>)

lemma policy_run_grant:
  assumes "policy_step\<^sup>*\<^sup>* p q" "policy_inv p" "grants p g = Some gr"
  shows "policy_inv q \<and> (\<exists>gr'. grants q g = Some gr' \<and> grant_kept gr gr')"
  using assms(1)
proof (induction rule: rtranclp_induct)
  case base
  then show ?case using assms by (simp add: grant_kept_def)
next
  case (step p' q)
  then obtain gr' where "grants p' g = Some gr'" "grant_kept gr gr'" "policy_inv p'" by blast
  then show ?case
    using policy_step_grant[OF step(2), of g gr'] policy_step_inv[OF step(2)] by (auto simp: grant_kept_def)
qed

end
