(* ===== verification/Policy_Theorems.thy ===== *)
theory Policy_Theorems
  imports Policy_Props
begin

text \<open>The properties of the policy object.\<close>

subsection \<open>Grants\<close>

lemma grant_classes_eq:
  assumes "grant_classes root cs p = (g, q)"
  shows "g = ''grant-'' @ show_nat (Suc (next_id p))"
    "grants q = (grants p)(g \<mapsto> \<lparr>grant_id = g, scope_root = root, classes = cs, revoked = False\<rparr>)"
  using assms by (auto simp: grant_classes_def Let_def)

text \<open>
  A new grant has an id no earlier grant has, admits exactly the effect classes it lists, and
  changes no other grant's admissions.
\<close>

theorem grant_admits_exactly:
  assumes "policy_reachable p" "grant_classes root cs p = (g, q)"
  shows "grants p g = None \<and>
    admit q g cls = (if cls \<in> set cs
      then Inr \<lparr>grant_id = g, scope_root = root, classes = cs, revoked = False\<rparr>
      else Inl (ClassNotAdmitted g cls)) \<and>
    (\<forall>h. h \<noteq> g \<longrightarrow> admit q h cls = admit p h cls)"
proof -
  note eq = grant_classes_eq[OF assms(2)]
  have "grants p g = None"
  proof (cases "grants p g")
    case (Some gr)
    then have "minted ''grant-'' (next_id p) g" using policy_invD(1)[OF policy_reachable_inv[OF assms(1)]] by blast
    then show ?thesis using minted_fresh[of "''grant-''" "next_id p"] unfolding eq(1) by blast
  qed
  then show ?thesis by (simp add: admit_def eq(2))
qed

abbreviation policy0 :: policy where "policy0 \<equiv> policy_default 0"

theorem grant_admits_exactly_witness:
  "\<exists>g q. grant_classes ''/w'' [ReadEffect] policy0 = (g, q) \<and>
     admit q g WriteEffect = Inl (ClassNotAdmitted g WriteEffect)"
proof -
  obtain g q where gq: "grant_classes ''/w'' [ReadEffect] policy0 = (g, q)" by fastforce
  show ?thesis using grant_admits_exactly[OF pr_new gq, of WriteEffect] gq by auto
qed

lemma revoked_stays:
  assumes "policy_reachable p" "grants p g = Some gr" "policy_step\<^sup>*\<^sup>* (revoke g p) q"
  shows "admit q g cls = Inl (GrantRevoked g)"
proof -
  have inv: "policy_inv (revoke g p)" by (rule policy_step_inv[OF ps_revoke policy_reachable_inv[OF assms(1)]])
  have "grants (revoke g p) g = Some (gr\<lparr>revoked := True\<rparr>)" using assms(2) by (simp add: revoke_def)
  from policy_run_grant[OF assms(3) inv this] show ?thesis by (auto simp: admit_def grant_kept_def)
qed

text \<open>
  C24. Revocation is final and immediate: from the moment a known grant is revoked, and after any
  further operations on the policy, every admission under it is refused as revoked.
\<close>

theorem revoked_forever:
  assumes "policy_reachable p" "grants p g = Some gr" "policy_step\<^sup>*\<^sup>* (revoke g p) q"
  shows "admit q g cls = Inl (GrantRevoked g)"
  by (rule revoked_stays[OF assms])

theorem revoked_forever_witness:
  "\<exists>g p. grant_classes ''/w'' [ReadEffect] policy0 = (g, p) \<and>
     admit (revoke g p) g ReadEffect = Inl (GrantRevoked g)"
proof -
  obtain g q where gq: "grant_classes ''/w'' [ReadEffect] policy0 = (g, q)" by fastforce
  have "policy_reachable q" by (rule pr_step[OF pr_new ps_grant[OF gq]])
  then show ?thesis using revoked_forever[of q g _ "revoke g q"] grant_classes_eq(2)[OF gq] gq by auto
qed

text \<open>
  The ids of check entries never admit a generic effect: in every reachable policy an id of
  the private check table is unknown to \<open>admit\<close>.
\<close>

theorem check_ids_never_admit:
  assumes "policy_reachable p" "check_entries p g = Some e"
  shows "admit p g cls = Inl (UnknownGrant g)"
proof (cases "grants p g")
  case None
  then show ?thesis by (simp add: admit_def)
next
  case (Some gr)
  have inv: "policy_inv p" by (rule policy_reachable_inv[OF assms(1)])
  show ?thesis
    using policy_invD(1)[OF inv Some] policy_invD(2)[OF inv assms(2)] minted_grant_check by blast
qed

subsection \<open>Modes\<close>

text \<open>
  The mode matrix is exactly this: an enrolled deny outranks every mode; otherwise a request is
  allowed by \<open>yolo\<close>, by a recorded approval in \<open>preapproved-only\<close>, for a read in \<open>read-only\<close> and
  \<open>accept-edits\<close>, for an in-scope read in \<open>manual\<close> and \<open>auto\<close>, for a trusted and checkpointed
  write in \<open>accept-edits\<close>, and in \<open>auto\<close> for an in-scope write with budget or a bounded exec or
  egress; and it is denied without a deny rule only in the two modes that forbid new consent.
\<close>

theorem decide_matrix:
  "(decide env p path cls ctx = Allow \<longleftrightarrow>
      \<not> target_denied env p path cls \<and>
      (mode ctx = Yolo \<or> (mode ctx = PreapprovedOnly \<and> previously_approved ctx) \<or>
       (cls = ReadEffect \<and> (mode ctx \<in> {ReadOnly, AcceptEdits} \<or> (mode ctx \<in> {Manual, Auto} \<and> in_grant_scope ctx))) \<or>
       (cls = WriteEffect \<and> ((mode ctx = AcceptEdits \<and> in_trusted_scope ctx \<and> has_checkpoint ctx) \<or>
          (mode ctx = Auto \<and> in_grant_scope ctx \<and> budget_remaining ctx))) \<or>
       (cls \<in> {ExecEffect, EgressEffect} \<and> mode ctx = Auto \<and> within_declared_bounds ctx))) \<and>
   (decide env p path cls ctx = Deny \<longleftrightarrow>
      target_denied env p path cls \<or> (mode ctx = ReadOnly \<and> cls \<noteq> ReadEffect) \<or>
      (mode ctx = PreapprovedOnly \<and> \<not> previously_approved ctx))"
  by (cases "mode ctx") (auto simp: decide_def)

subsection \<open>Deny rules\<close>

lemma covers_identity_cong:
  assumes eqv: "equivp (case_eq env)" and same: "same_components env r d" "collapsed_missing_tail r = collapsed_missing_tail d"
  shows "covers_identity env r q = covers_identity env d q"
proof -
  have l2: "list_all2 (case_eq env) (components r) (components d)" using same(1) by (simp add: same_components_list_all2)
  then have len: "length (components r) = length (components d)" by (rule list_all2_lengthD)
  have "list_all2 (case_eq env) (components r) xs \<longleftrightarrow> list_all2 (case_eq env) (components d) xs" for xs
    using list_all2_equivp[OF eqv] l2 by blast
  then show ?thesis by (simp add: covers_identity_prefix len same(2))
qed

lemma covers_identity_collapsed:
  assumes eqv: "equivp (case_eq env)" and same: "same_components env r d" and "collapsed_missing_tail r \<longrightarrow> collapsed_missing_tail d"
    and c: "covers_identity env d q"
  shows "covers_identity env r q"
proof -
  have "covers_identity env (d\<lparr>collapsed_missing_tail := collapsed_missing_tail r\<rparr>) q"
    using c assms(3) by (auto simp: covers_identity_prefix)
  moreover have "same_components env r (d\<lparr>collapsed_missing_tail := collapsed_missing_tail r\<rparr>)"
    using same by (simp add: same_components_def)
  ultimately show ?thesis using covers_identity_cong[OF eqv, of r "d\<lparr>collapsed_missing_tail := collapsed_missing_tail r\<rparr>"] by simp
qed

lemma same_components_sym:
  "equivp (case_eq env) \<Longrightarrow> same_components env a b \<Longrightarrow> same_components env b a"
  using list_all2_equivp(2) by (auto simp: same_components_list_all2)

lemma enroll_rule_covers:
  assumes eqv: "equivp (case_eq env)"
  shows "list_ex (\<lambda>r. covers_identity env r q) (enroll_rule env d rs) \<longleftrightarrow>
    list_ex (\<lambda>r. covers_identity env r q) rs \<or> covers_identity env d q"
proof (induction rs)
  case Nil
  then show ?case by simp
next
  case (Cons r rs)
  show ?case
  proof (cases "same_components env r d")
    case True
    note sym = same_components_sym[OF eqv True]
    show ?thesis
    proof (cases "collapsed_missing_tail d")
      case col: True
      then show ?thesis using True covers_identity_collapsed[OF eqv True, of q] by auto
    next
      case False
      then show ?thesis using True covers_identity_collapsed[OF eqv sym, of q] by auto
    qed
  next
    case False
    then show ?thesis using Cons by auto
  qed
qed

text \<open>
  C25. Enrolling a deny does exactly what it says: afterwards a path is denied if and only if it was
  denied before, or cannot be resolved, or its canonical identity is at or below the enrolled one
  (strictly below, when the enrolled spelling collapsed its missing tail). This holds whether the
  rule is new or replaces one, for any filesystem, and for any case folding that is an equivalence.
\<close>

theorem enroll_deny_exact:
  assumes "equivp (case_eq env)" "canonicalize_path env path = Inr d"
  shows "fst (enroll_deny env path p) = Inr () \<and>
    (covers env (snd (enroll_deny env path p)) request \<longleftrightarrow>
     covers env p request \<or>
     (\<exists>q. canonicalize_path env request = Inr q \<and>
        length (components d) \<le> length (components q) \<and>
        list_all2 (case_eq env) (components d) (take (length (components d)) (components q)) \<and>
        (collapsed_missing_tail d \<longrightarrow> length (components d) < length (components q))))"
  using assms(2) enroll_rule_covers[OF assms(1), of _ d "denies p"]
  by (auto simp: enroll_deny_def covers_def covers_report_def covers_identity_prefix split: sum.splits)

definition demo_env :: path_env where
  "demo_env = \<lparr>symlink_metadata = (\<lambda>names. if names = [''link''] then Inr True
      else if names = [''etc''] \<or> names = [''etc'', ''key''] then Inr False else Inl IoNotFound),
    read_link = (\<lambda>_. Inr ''/etc''), nfd = id, case_eq = (\<lambda>a b. to_ascii_lowercase a = to_ascii_lowercase b)\<rparr>"

lemma demo_equivp: "equivp (case_eq demo_env)"
  by (rule equivpI) (auto simp: demo_env_def reflp_def symp_def transp_def)

lemma demo_canonical: "canonicalize_path demo_env ''/etc'' = Inr \<lparr>components = [''etc''], collapsed_missing_tail = False\<rparr>"
  by (simp add: canonicalize_path_def is_absolute_def starts_with_def path_components_def canonicalize_loop.simps
      demo_env_def normalize_component_def utf8_step_def utf8_follow_def byte_val_def)

theorem enroll_deny_exact_witness:
  "covers demo_env (snd (enroll_deny demo_env ''/etc'' policy0)) ''/etc''"
  using enroll_deny_exact[OF demo_equivp demo_canonical, of policy0 "''/etc''"] demo_canonical
  by (auto simp: equivp_reflp[OF demo_equivp])

subsection \<open>Aliases of a path\<close>

text \<open>The absolute spelling of a list of names.\<close>

definition abs_path :: "bytes list \<Rightarrow> bytes" where
  "abs_path names = concat (map (\<lambda>n. ''/'' @ n) names)"

lemma str_split_append: "str_split c (a @ c # b) = str_split c a @ str_split c b"
proof (induction a)
  case (Cons x a)
  then show ?case using str_split_nonempty[of c a] by (cases "str_split c a") auto
qed simp

lemma path_components_append:
  assumes "\<forall>n\<in>set names. plain_name n"
  shows "path_components (a @ abs_path names) = path_components a @ names"
  using assms
proof (induction names arbitrary: a)
  case Nil
  then show ?case by (simp add: abs_path_def)
next
  case (Cons n names)
  have n: "CHR ''/'' \<notin> set n" "n \<noteq> []" "n \<noteq> ''.''" using Cons.prems by (simp_all add: plain_name_def)
  have "path_components (a @ abs_path (n # names)) = path_components ((a @ ''/'' @ n) @ abs_path names)"
    by (simp add: abs_path_def)
  also have "\<dots> = path_components (a @ ''/'' @ n) @ names"
    by (rule Cons.IH) (use Cons.prems in simp)
  also have "path_components (a @ ''/'' @ n) = path_components a @ [n]"
    using str_split_append[of "CHR ''/''" a n] str_split_single[OF n(1)] n(2,3) by (simp add: path_components_def)
  finally show ?case by simp
qed

lemma abs_path_absolute: "names \<noteq> [] \<Longrightarrow> is_absolute (abs_path names)"
  by (cases names) (auto simp: is_absolute_def starts_with_iff abs_path_def)

lemma path_components_abs: "\<forall>n\<in>set names. plain_name n \<Longrightarrow> path_components (abs_path names) = names"
  using path_components_append[of names "[]"] by (simp add: path_components_def)

lemma covers_map_components:
  assumes "map_sum id components (canonicalize_path env a) = map_sum id components (canonicalize_path env b)"
  shows "covers env p a = covers env p b"
proof -
  have "covers env p x = (case map_sum id components (canonicalize_path env x) of
      Inl e \<Rightarrow> True | Inr cs \<Rightarrow> list_ex (\<lambda>r. covers_identity env r \<lparr>components = cs, collapsed_missing_tail = False\<rparr>) (denies p))" for x
    by (auto simp: covers_def covers_report_def covers_identity_def split: sum.splits)
  then show ?thesis using assms by simp
qed

text \<open>
  A symbolic link does not lead around a deny: when a link below real directories points to an
  absolute target and the path spelled through the target is denied, so is the path spelled through
  the link, whatever the rest of the path and the filesystem are.
\<close>

theorem symlink_alias_denied:
  assumes "\<forall>n\<in>set (pre @ link # rest). plain_name n"
    and "\<forall>k<length pre. symlink_metadata env (take (Suc k) pre) = Inr False"
    and "symlink_metadata env (pre @ [link]) = Inr True" "read_link env (pre @ [link]) = Inr target"
    and "is_absolute target" "covers env p (target @ abs_path rest)"
  shows "covers env p (abs_path (pre @ link # rest))"
proof -
  let ?canon = "canonicalize_loop env (path_components target @ rest) [] [] None False"
  have "canonicalize_path env (abs_path (pre @ link # rest)) = canonicalize_loop env (pre @ link # rest) [] [] None False 0"
    using path_components_abs[OF assms(1)] abs_path_absolute[of "pre @ link # rest"] by (simp add: canonicalize_path_def)
  also have "\<dots> = canonicalize_loop env (link # rest) pre (map (normalize_component env) pre) None False 0"
    using loop_real_dirs[of pre env "[]" "link # rest" "[]" False 0] assms(1,2) by (simp split: if_splits)
  also have "\<dots> = ?canon 1"
    using assms(1,3,4,5) by (subst canonicalize_loop.simps) (simp add: plain_name_def max_symlink_expansions_def)
  finally have link: "canonicalize_path env (abs_path (pre @ link # rest)) = ?canon 1" .
  have "is_absolute (target @ abs_path rest)" using assms(5) by (auto simp: is_absolute_def starts_with_iff)
  then have tgt: "canonicalize_path env (target @ abs_path rest) = ?canon 0"
    using path_components_append[of rest target] assms(1) by (simp add: canonicalize_path_def)
  from loop_expansions[of 0 1 env "path_components target @ rest" "[]" "[]" None False] show ?thesis
    using assms(6) link tgt by (auto simp: covers_def covers_report_def)
qed

theorem symlink_alias_denied_witness:
  "covers demo_env (snd (enroll_deny demo_env ''/etc'' policy0)) ''/link/key''"
proof -
  have plain: "plain_name ''link'' \<and> plain_name ''key''"
    by (simp add: plain_name_def utf8_step_def utf8_follow_def byte_val_def)
  have "canonicalize_path demo_env ''/etc/key'' = Inr \<lparr>components = [''etc'', ''key''], collapsed_missing_tail = False\<rparr>"
    by (simp add: canonicalize_path_def is_absolute_def starts_with_def path_components_def canonicalize_loop.simps
      demo_env_def normalize_component_def utf8_step_def utf8_follow_def byte_val_def)
  then have "covers demo_env (snd (enroll_deny demo_env ''/etc'' policy0)) (''/etc'' @ abs_path [''key''])"
    using demo_canonical
    by (simp add: covers_def covers_report_def enroll_deny_def policy_default_def covers_identity_def demo_env_def abs_path_def)
  from symlink_alias_denied[of "[]" "''link''" "[''key'']" demo_env "''/etc''", OF _ _ _ _ _ this] plain
  show ?thesis by (simp add: demo_env_def is_absolute_def starts_with_def abs_path_def)
qed

subsection \<open>Check pairs\<close>

lemma issue_half_eq:
  assumes "issue_half label root alloc p = (g, q)"
  shows "g = ''check-'' @ label @ ''-'' @ show_nat (Suc (next_id p))" "next_id q = Suc (next_id p)"
    "check_entries q = (check_entries p)(g \<mapsto> \<lparr>entry_grant = \<lparr>grant_id = g, scope_root = root,
        classes = [ReadEffect], revoked = False\<rparr>, entry_allocation = alloc\<rparr>)"
  using assms by (auto simp: issue_half_def Let_def)

text \<open>
  A successful issue mints exactly one pair: the admission was pending, had none, and gets the
  receipt; as long as its allocation lives the receipt yields two Read grants rooted in the bound
  cargo home's registry cache and index; a second issue is refused; every entry of another living
  allocation is kept.
\<close>

theorem issued_pair_usable:
  assumes "policy_reachable p" "issue_check_dependencies canonicalize alive store a p = (Inr (), b, q)" "alive (allocation a)"
  shows "adm_phase a = CheckPending \<and> receipt a = None \<and>
    (\<exists>home r c i. canonicalize (bound_cargo_home a) = Some home \<and> receipt b = Some r \<and> receipt_allocation r = allocation a \<and>
       reconsult_check_pair alive q r =
         Inr (\<lparr>grant_id = c, scope_root = path_join home ''registry/cache'', classes = [ReadEffect], revoked = False\<rparr>,
              \<lparr>grant_id = i, scope_root = path_join home ''registry/index'', classes = [ReadEffect], revoked = False\<rparr>)) \<and>
    fst (issue_check_dependencies canonicalize alive store b q) \<noteq> Inr () \<and>
    (\<forall>g e. check_entries p g = Some e \<and> alive (entry_allocation e) \<longrightarrow> check_entries q g = Some e)"
proof -
  from issue_cases[OF assms(2)] obtain home cache p1 index p2 where
    home: "canonicalize (bound_cargo_home a) = Some home" and pre: "adm_phase a = CheckPending" "receipt a = None" and
    h1: "issue_half ''cache'' (path_join home ''registry/cache'') (allocation a) p = (cache, p1)" and
    h2: "issue_half ''index'' (path_join home ''registry/index'') (allocation a) p1 = (index, p2)" and
    b: "b = a\<lparr>receipt := Some \<lparr>cache_grant_id = cache, index_grant_id = index,
              receipt_attempt_id = adm_attempt_id a, receipt_allocation = allocation a\<rparr>\<rparr>" and
    q: "q = sweep_dead_check_entries alive p2" by blast
  note e1 = issue_half_eq[OF h1] and e2 = issue_half_eq[OF h2]
  have ne: "cache \<noteq> index" by (simp add: e1(1) e2(1))
  have inv: "policy_inv p" by (rule policy_reachable_inv[OF assms(1)])
  have fresh: "check_entries p g = Some e \<Longrightarrow> g \<noteq> cache \<and> g \<noteq> index" for g e
  proof -
    assume ge: "check_entries p g = Some e"
    have c: "cache = ''check-cache-'' @ show_nat (Suc (next_id p))" using e1(1) by simp
    have i: "index = ''check-index-'' @ show_nat (Suc (Suc (next_id p)))" using e2(1) e1(2) by simp
    have "\<not> minted ''check-cache-'' (next_id p) cache" unfolding c using minted_fresh by blast
    moreover have "\<not> minted ''check-index-'' (next_id p) index"
      unfolding i using minted_fresh[of "''check-index-''" "Suc (next_id p)"] minted_mono[of _ "next_id p" _ "Suc (next_id p)"] by auto
    moreover have "\<not> minted ''check-index-'' (next_id p) cache" "\<not> minted ''check-cache-'' (next_id p) index"
      unfolding c i by (simp_all add: minted_def)
    ultimately show ?thesis using policy_invD(2)[OF inv ge] by blast
  qed
  have "fst (issue_check_dependencies canonicalize alive store b q) \<noteq> Inr ()"
    using b by (simp add: issue_check_dependencies_def)
  moreover have "\<forall>g e. check_entries p g = Some e \<and> alive (entry_allocation e) \<longrightarrow> check_entries q g = Some e"
    using fresh by (auto simp: q sweep_dead_check_entries_def e2(3) e1(3))
  moreover have "reconsult_check_pair alive q (the (receipt b)) =
      Inr (\<lparr>grant_id = cache, scope_root = path_join home ''registry/cache'', classes = [ReadEffect], revoked = False\<rparr>,
           \<lparr>grant_id = index, scope_root = path_join home ''registry/index'', classes = [ReadEffect], revoked = False\<rparr>)"
    using assms(3) ne by (simp add: b q reconsult_check_pair_def sweep_dead_check_entries_def e2(3) e1(3))
  ultimately show ?thesis using home pre b by auto
qed

text \<open>
  A release ends exactly its own pair: presented to the issuing policy and store it spends the
  admission, makes the receipt unknown for good and keeps the entries of every other allocation;
  presented to another policy or store it changes nothing.
\<close>

theorem release_ends_pair:
  assumes "receipt_allocation r = allocation a" "alive (allocation a)" "release_check_dependencies store a p = (b, q)"
  shows "if identity p = policy_identity a \<and> sv_identity store = store_identity a
    then adm_phase b = CheckSpent \<and> reconsult_check_pair alive q r = Inl UnknownReceipt \<and>
      (\<forall>g e. entry_allocation e \<noteq> allocation a \<longrightarrow> (check_entries q g = Some e \<longleftrightarrow> check_entries p g = Some e)) \<and>
      fst (issue_check_dependencies canonicalize alive store b q) = Inl SpentAdmission
    else b = a \<and> q = p"
proof (cases "identity p = policy_identity a \<and> sv_identity store = store_identity a")
  case False
  then show ?thesis using assms(3) by (auto simp: release_check_dependencies_def)
next
  case True
  then have bq: "b = a\<lparr>adm_phase := CheckSpent\<rparr>" "q = consume_allocation a p"
    using assms(3) by (simp_all add: release_check_dependencies_def)
  have own: "entry_allocation e \<noteq> allocation a" if "check_entries q g = Some e" for g e
    using that True by (auto simp: bq(2) consume_allocation_def split: option.splits if_splits)
  have "reconsult_check_pair alive q r = Inl UnknownReceipt"
    using own assms(1,2) by (simp add: reconsult_check_pair_def split: option.splits)
  moreover have "check_entries q g = Some e \<longleftrightarrow> check_entries p g = Some e" if "entry_allocation e \<noteq> allocation a" for g e
    using that True by (auto simp: bq(2) consume_allocation_def split: option.splits if_splits)
  moreover have "fst (issue_check_dependencies canonicalize alive store b q) = Inl SpentAdmission"
    using True by (simp add: bq issue_check_dependencies_def consume_allocation_def)
  ultimately show ?thesis using True bq(1) by simp
qed

definition demo_admission :: check_admission where
  "demo_admission = \<lparr>policy_identity = 0, store_identity = 7, bound_task_id = TaskId ''t'', adm_attempt_id = ''a'',
     bound_cargo_home = ''/home/c'', adm_context = CustomContext ''d'' 3,
     off_state = \<lparr>os_generation = 3, os_mode = OwnerExplicitOff, os_sources_digest = ''d''\<rparr>,
     adm_phase = CheckPending, allocation = 5, receipt = None\<rparr>"

definition demo_store :: store_view where
  "demo_store = \<lparr>sv_identity = 7, task_cancelled = (\<lambda>_. Inr False), plan_selection = (\<lambda>_. Inr None)\<rparr>"

lemma demo_issue:
  "\<exists>b q e. issue_check_dependencies Some (\<lambda>_. True) demo_store demo_admission policy0 = (Inr (), b, q) \<and>
     check_entries q ''check-cache-1'' = Some e"
  by (simp add: issue_check_dependencies_def demo_admission_def demo_store_def policy_default_def
      reconsult_admission_context_def owner_view_def verify_owner_context_def issue_half_def Let_def
      sweep_dead_check_entries_def show_nat.simps char_of_eq byte_val_def)

theorem issued_pair_usable_witness:
  "\<exists>b q. issue_check_dependencies Some (\<lambda>_. True) demo_store demo_admission policy0 = (Inr (), b, q) \<and>
     fst (issue_check_dependencies Some (\<lambda>_. True) demo_store b q) \<noteq> Inr ()"
proof -
  obtain b q where i: "issue_check_dependencies Some (\<lambda>_. True) demo_store demo_admission policy0 = (Inr (), b, q)"
    using demo_issue by blast
  show ?thesis using issued_pair_usable[OF pr_new i] i by blast
qed

theorem check_ids_never_admit_witness:
  "\<exists>b q. issue_check_dependencies Some (\<lambda>_. True) demo_store demo_admission policy0 = (Inr (), b, q) \<and>
     admit q ''check-cache-1'' ReadEffect = Inl (UnknownGrant ''check-cache-1'')"
proof -
  obtain b q e where i: "issue_check_dependencies Some (\<lambda>_. True) demo_store demo_admission policy0 = (Inr (), b, q)"
    "check_entries q ''check-cache-1'' = Some e"
    using demo_issue by blast
  have "policy_reachable q" by (rule pr_step[OF pr_new ps_issue[OF i(1)]])
  then show ?thesis using check_ids_never_admit i by blast
qed

theorem release_ends_pair_witness:
  "\<exists>b q. release_check_dependencies demo_store demo_admission policy0 = (b, q) \<and> adm_phase b = CheckSpent"
proof -
  obtain b q where r: "release_check_dependencies demo_store demo_admission policy0 = (b, q)" by fastforce
  from release_ends_pair[OF _ _ r, of "\<lparr>cache_grant_id = ''x'', index_grant_id = ''y'', receipt_attempt_id = ''a'',
      receipt_allocation = 5\<rparr>" "\<lambda>_. True"]
  show ?thesis using r by (simp add: demo_admission_def demo_store_def policy_default_def)
qed

end
