(* ===== verification/Usage.thy ===== *)
theory Usage
  imports Contracts
begin

text \<open>
  Usage reports of one physical send (\<open>UsageDelta\<close>, \<open>UsageBins\<close>, \<open>Exactness\<close> of
  \<open>src/src/resources.rs\<close>): what a provider reported, which of it is a confirmed total, and how far
  the figures can be trusted.
\<close>

datatype usage_delta =
    UsageUnknown
  | UsageExact u64 u64 u64
  | UsageLegs "u64 option" "u64 option" "u64 option" "u64 option" "u64 option" "u64 option"

record usage_bins =
  prompt_tokens :: "u64 option"
  completion_tokens :: "u64 option"
  reasoning_tokens :: "u64 option"
  cache_read_tokens :: "u64 option"
  cache_write_tokens :: "u64 option"
  total_tokens :: "u64 option"

definition usage_bins_default :: usage_bins where
  "usage_bins_default = \<lparr>prompt_tokens = None, completion_tokens = None, reasoning_tokens = None,
     cache_read_tokens = None, cache_write_tokens = None, total_tokens = None\<rparr>"

datatype exactness = Exact | Estimate | UnknownUsage

fun exactness_as_str :: "exactness \<Rightarrow> string" where
  "exactness_as_str Exact = ''exact''"
| "exactness_as_str Estimate = ''estimate''"
| "exactness_as_str UnknownUsage = ''unknown''"

definition exactness_from_db :: "string \<Rightarrow> exactness option" where
  "exactness_from_db v =
     (if v = ''exact'' then Some Exact
      else if v = ''estimate'' then Some Estimate
      else if v = ''unknown'' then Some UnknownUsage
      else None)"

definition from_reported ::
  "u64 \<Rightarrow> u64 \<Rightarrow> u64 \<Rightarrow> u64 option \<Rightarrow> u64 option \<Rightarrow> u64 option \<Rightarrow> usage_delta" where
  "from_reported prompt completion tot reasoning cache_read cache_write =
     (if reasoning \<noteq> None \<or> cache_read \<noteq> None \<or> cache_write \<noteq> None
      then UsageLegs (Some prompt) (Some completion) reasoning cache_read cache_write (Some tot)
      else UsageExact prompt completion tot)"

fun confirmed_total :: "usage_delta \<Rightarrow> u64 option" where
  "confirmed_total UsageUnknown = None"
| "confirmed_total (UsageExact p c t) = Some t"
| "confirmed_total (UsageLegs p c r cr cw t) = t"

fun usage_bins_of :: "usage_delta \<Rightarrow> usage_bins" where
  "usage_bins_of UsageUnknown = usage_bins_default"
| "usage_bins_of (UsageExact p c t) =
     usage_bins_default\<lparr>prompt_tokens := Some p, completion_tokens := Some c, total_tokens := Some t\<rparr>"
| "usage_bins_of (UsageLegs p c r cr cw t) =
     \<lparr>prompt_tokens = p, completion_tokens = c, reasoning_tokens = r, cache_read_tokens = cr,
      cache_write_tokens = cw, total_tokens = t\<rparr>"

fun usage_exactness :: "usage_delta \<Rightarrow> exactness" where
  "usage_exactness UsageUnknown = UnknownUsage"
| "usage_exactness (UsageExact p c t) = Exact"
| "usage_exactness (UsageLegs p c r cr cw t) = (if t \<noteq> None then Exact else Estimate)"

lemma exactness_roundtrip [simp]: "exactness_from_db (exactness_as_str e) = Some e"
  by (cases e) (simp_all add: exactness_from_db_def)

lemma exactness_from_db_Some: "exactness_from_db v = Some e \<Longrightarrow> v = exactness_as_str e"
  by (auto simp: exactness_from_db_def split: if_splits)

text \<open>The claim and the figures agree: exact means a total, unknown means no figure at all.\<close>

lemma usage_exact_iff: "usage_exactness u = Exact \<longleftrightarrow> confirmed_total u \<noteq> None"
  by (cases u) simp_all

lemma usage_unknown_bins: "usage_exactness u = UnknownUsage \<longleftrightarrow> u = UsageUnknown"
  by (cases u) simp_all

lemma bins_total [simp]: "total_tokens (usage_bins_of u) = confirmed_total u"
  by (cases u) (simp_all add: usage_bins_default_def)

lemma from_reported_total [simp]: "confirmed_total (from_reported p c t r cr cw) = Some t"
  by (simp add: from_reported_def)

lemma from_reported_bins:
  "usage_bins_of (from_reported p c t r cr cw) =
     \<lparr>prompt_tokens = Some p, completion_tokens = Some c, reasoning_tokens = r, cache_read_tokens = cr,
      cache_write_tokens = cw, total_tokens = Some t\<rparr>"
  by (auto simp: from_reported_def usage_bins_default_def)

end
