(* ===== verification/Send_Ledger.thy ===== *)
theory Send_Ledger
  imports Budget_Theorems Usage
begin

text \<open>
  Sends against the budget ledger (\<open>src/src/state.rs\<close>): work budgets, the \<open>dispatched\<close> settlement
  row written with the reservation (\<open>begin_send\<close>), its settlement (\<open>finish_send\<close>), the
  reconciliation of interrupted sends on reopen (\<open>reconcile_sends\<close>), and the totals row that is kept
  incrementally beside the rows. Each operation is one transaction: an error leaves the store as it
  was. The triggers of \<open>schema.sql\<close> that could fire are written out as errors. Token sums that no
  longer fit a 64-bit column fail in SQLite (the tables are \<open>STRICT\<close>); row counters are unbounded.
\<close>

datatype work_state = WorkOpen | WorkStopped

record work_row =
  w_deadline :: int
  w_send_bound :: int
  w_state :: work_state
  w_reason :: "string option"

datatype settlement_state = Dispatched | Settled

record settlement_row =
  sr_rowid :: int
  sr_attempt :: string
  sr_parent :: "string option"
  sr_purpose :: string
  sr_connection :: string
  sr_basis :: "string option"
  sr_cost_bound :: int
  sr_state :: settlement_state
  sr_exactness :: exactness
  sr_unknown_reason :: "string option"
  sr_wire_retries :: int
  sr_prompt :: "int option"
  sr_completion :: "int option"
  sr_reasoning :: "int option"
  sr_cache_read :: "int option"
  sr_cache_write :: "int option"
  sr_total :: "int option"
  sr_charged :: "int option"

record usage_totals =
  ut_settled_count :: int
  ut_without_total :: int
  ut_total_tokens :: "int option"
  ut_charged_count :: int
  ut_charged_units :: "int option"
  ut_latest_prompt :: "int option"
  ut_dispatched_count :: int
  ut_next_rowid :: int

record store =
  st_ledger :: ledger
  st_tasks :: "string list"
  st_work :: "string \<rightharpoonup> work_row"
  st_settlements :: "settlement_row list"
  st_totals :: usage_totals

datatype send_error =
    BudgetRefusal budget_error
  | MissingTask string
  | WorkBudgetExists string work_state
  | WorkScopeExists string
  | WorkBudgetBoundOutOfRange string u64
  | MissingWorkBudget string
  | WorkBudgetStopped string
  | SettlementAlreadyRecorded string
  | WorkSendBoundReached string nat nat
  | SettlementGuard
  | SettlementMissingTotal string
  | MissingSettlement string
  | SettlementNotDispatched string settlement_state
  | ColumnOverflow

definition i64_fits :: "int \<Rightarrow> bool" where
  "i64_fits v \<longleftrightarrow> v < 2 ^ 63"

subsection \<open>Work budgets\<close>

definition work_bound_i64 :: "string \<Rightarrow> u64 \<Rightarrow> send_error + int" where
  "work_bound_i64 field v =
     (if uint v < 2 ^ 63 then Inr (uint v) else Inl (WorkBudgetBoundOutOfRange field v))"

text \<open>The count of \<open>WORK_BUDGET_ROW\<close>: this scope's reservations joined to settled rows.\<close>

definition settled_sends :: "store \<Rightarrow> string \<Rightarrow> nat" where
  "settled_sends st scope =
     length (filter (\<lambda>r. rr_scope r = scope \<and>
        list_ex (\<lambda>s. sr_attempt s = rr_id r \<and> sr_state s = Settled) (st_settlements st))
       (reservations (st_ledger st)))"

record work_budget =
  wb_deadline :: nat
  wb_send_bound :: nat
  wb_unit_bound :: nat
  wb_spent :: nat
  wb_reserved :: nat
  wb_settled_sends :: nat
  wb_state :: work_state
  wb_stop_reason :: "string option"

text \<open>\<open>unsigned(column)?\<close> on each column in turn: the first negative one is the error.\<close>

fun negative_column :: "int list \<Rightarrow> budget_error option" where
  "negative_column [] = None"
| "negative_column (v # vs) = (case unsigned v of Inl e \<Rightarrow> Some e | Inr _ \<Rightarrow> negative_column vs)"

definition work_budget_on :: "store \<Rightarrow> string \<Rightarrow> send_error + work_budget option" where
  "work_budget_on st task =
     (case (st_work st task, budget_scopes_table (st_ledger st) task) of
        (Some w, Some row) \<Rightarrow>
          (case negative_column [w_deadline w, w_send_bound w, limit_units row, spent row, reserved row] of
             Some e \<Rightarrow> Inl (BudgetRefusal e)
           | None \<Rightarrow>
               Inr (Some \<lparr>wb_deadline = nat (w_deadline w), wb_send_bound = nat (w_send_bound w),
                 wb_unit_bound = nat (limit_units row), wb_spent = nat (spent row),
                 wb_reserved = nat (reserved row), wb_settled_sends = settled_sends st task,
                 wb_state = w_state w, wb_stop_reason = w_reason w\<rparr>))
      | _ \<Rightarrow> Inr None)"

definition open_work_budget ::
  "string \<Rightarrow> u64 \<Rightarrow> u64 \<Rightarrow> u64 \<Rightarrow> store \<Rightarrow> (send_error + work_budget) \<times> store" where
  "open_work_budget task deadline sends units st =
     (case work_bound_i64 ''deadline_unix_seconds'' deadline of
        Inl e \<Rightarrow> (Inl e, st)
      | Inr stored_deadline \<Rightarrow>
     (case work_bound_i64 ''send_bound'' sends of
        Inl e \<Rightarrow> (Inl e, st)
      | Inr stored_sends \<Rightarrow>
     (case work_bound_i64 ''unit_bound'' units of
        Inl e \<Rightarrow> (Inl e, st)
      | Inr stored_units \<Rightarrow>
          if task \<notin> set (st_tasks st) then (Inl (MissingTask task), st)
          else (case st_work st task of
                  Some w \<Rightarrow> (Inl (WorkBudgetExists task (w_state w)), st)
                | None \<Rightarrow>
                    if budget_scopes_table (st_ledger st) task \<noteq> None then (Inl (WorkScopeExists task), st)
                    else
                      (let st' = st\<lparr>st_ledger := (st_ledger st)\<lparr>budget_scopes_table :=
                                      (budget_scopes_table (st_ledger st))(task \<mapsto>
                                        \<lparr>limit_units = stored_units, spent = 0, reserved = 0\<rparr>)\<rparr>,
                                    st_work := (st_work st)(task \<mapsto>
                                      \<lparr>w_deadline = stored_deadline, w_send_bound = stored_sends,
                                       w_state = WorkOpen, w_reason = None\<rparr>)\<rparr>
                       in case work_budget_on st' task of
                            Inl e \<Rightarrow> (Inl e, st)
                          | Inr None \<Rightarrow> (Inl (MissingWorkBudget task), st')
                          | Inr (Some wb) \<Rightarrow> (Inr wb, st'))))))"

definition stop_work_budget :: "string \<Rightarrow> string \<Rightarrow> store \<Rightarrow> (send_error + work_budget) \<times> store" where
  "stop_work_budget task reason st =
     (if task \<notin> set (st_tasks st) then (Inl (MissingTask task), st)
      else
        (let opened = (case st_work st task of Some w \<Rightarrow> w_state w = WorkOpen | None \<Rightarrow> False);
             st' = (if opened
                    then st\<lparr>st_work := (st_work st)(task := map_option
                           (\<lambda>w. w\<lparr>w_state := WorkStopped, w_reason := Some reason\<rparr>) (st_work st task))\<rparr>
                    else st)
         in case work_budget_on st' task of
              Inl e \<Rightarrow> (Inl e, st)
            | Inr None \<Rightarrow> (Inl (MissingWorkBudget task), st)
            | Inr (Some wb) \<Rightarrow> if \<not> opened then (Inl (WorkBudgetStopped task), st) else (Inr wb, st')))"

subsection \<open>Beginning a send\<close>

record send_context =
  sc_purpose :: string
  sc_connection :: string
  sc_parent :: "string option"
  sc_basis :: "string option"

record send_ticket =
  tk_attempt :: string
  tk_cost_bound :: u64
  tk_reserved :: bool

text \<open>The scopes that were opened, each once, in the order given.\<close>

fun open_scopes :: "(string \<rightharpoonup> budget_row) \<Rightarrow> string list \<Rightarrow> string list \<Rightarrow> string list" where
  "open_scopes tab [] acc = acc"
| "open_scopes tab (s # ss) acc =
     open_scopes tab ss (if tab s \<noteq> None \<and> s \<notin> set acc then acc @ [s] else acc)"

text \<open>\<open>WORK_BUDGET_SEND_STATE\<close> at each open scope: an open worker whose sends are used up refuses.\<close>

fun send_bound_refusal :: "store \<Rightarrow> string list \<Rightarrow> send_error option" where
  "send_bound_refusal st [] = None"
| "send_bound_refusal st (s # ss) =
     (case st_work st s of
        None \<Rightarrow> send_bound_refusal st ss
      | Some w \<Rightarrow>
          if w_state w = WorkOpen \<and> int (settled_sends st s) \<ge> w_send_bound w
          then Some (case unsigned (w_send_bound w) of
                       Inl e \<Rightarrow> BudgetRefusal e
                     | Inr b \<Rightarrow> WorkSendBoundReached s (settled_sends st s) b)
          else send_bound_refusal st ss)"

text \<open>\<open>COALESCE(MAX(rowid), 0)\<close> and \<open>NEXT_SETTLEMENT_ROWID\<close>.\<close>

definition max_rowid :: "settlement_row list \<Rightarrow> int" where
  "max_rowid rows = (if rows = [] then 0 else Max (set (map sr_rowid rows)))"

definition next_settlement_rowid :: "settlement_row list \<Rightarrow> usage_totals \<Rightarrow> int \<times> usage_totals" where
  "next_settlement_rowid rows tot =
     (let n = max (ut_next_rowid tot) (max_rowid rows + 1)
      in (n, tot\<lparr>ut_next_rowid := n + 1, ut_dispatched_count := ut_dispatched_count tot + 1\<rparr>))"

definition dispatched_row :: "int \<Rightarrow> string \<Rightarrow> send_context \<Rightarrow> int \<Rightarrow> settlement_row" where
  "dispatched_row rowid attempt ctx bound =
     \<lparr>sr_rowid = rowid, sr_attempt = attempt, sr_parent = sc_parent ctx, sr_purpose = sc_purpose ctx,
      sr_connection = sc_connection ctx, sr_basis = sc_basis ctx, sr_cost_bound = bound,
      sr_state = Dispatched, sr_exactness = UnknownUsage, sr_unknown_reason = None, sr_wire_retries = 0,
      sr_prompt = None, sr_completion = None, sr_reasoning = None, sr_cache_read = None,
      sr_cache_write = None, sr_total = None, sr_charged = None\<rparr>"

definition begin_send ::
  "string list \<Rightarrow> send_context \<Rightarrow> string \<Rightarrow> u64 \<Rightarrow> store \<Rightarrow> (send_error + send_ticket) \<times> store" where
  "begin_send scopes ctx attempt cost_bound st =
     (case budget_units_i64 cost_bound of
        Inl e \<Rightarrow> (Inl (BudgetRefusal e), st)
      | Inr stored \<Rightarrow>
          if list_ex (\<lambda>r. sr_attempt r = attempt) (st_settlements st)
          then (Inl (SettlementAlreadyRecorded attempt), st)
          else
            (let opened = open_scopes (budget_scopes_table (st_ledger st)) scopes []
             in case send_bound_refusal st opened of
                  Some e \<Rightarrow> (Inl e, st)
                | None \<Rightarrow>
                    (case reserve_scopes attempt cost_bound stored opened (st_ledger st) of
                       Inl e \<Rightarrow> (Inl (BudgetRefusal e), st)
                     | Inr l' \<Rightarrow>
                         (case next_settlement_rowid (st_settlements st) (st_totals st) of
                            (rowid, tot) \<Rightarrow>
                              if list_ex (\<lambda>r. sr_rowid r = rowid) (st_settlements st)
                              then (Inl SettlementGuard, st)
                              else
                                (Inr \<lparr>tk_attempt = attempt, tk_cost_bound = cost_bound,
                                      tk_reserved = (opened \<noteq> [])\<rparr>,
                                 st\<lparr>st_ledger := l',
                                    st_settlements := st_settlements st @ [dispatched_row rowid attempt ctx stored],
                                    st_totals := tot\<rparr>)))))"

subsection \<open>Settling a send\<close>

datatype send_outcome = SendSettled usage_delta u32 | SendFailed u32

fun outcome_usage :: "send_outcome \<Rightarrow> usage_delta \<times> u32" where
  "outcome_usage (SendSettled usage wire_retries) = (usage, wire_retries)"
| "outcome_usage (SendFailed wire_retries) = (UsageUnknown, wire_retries)"

fun unknown_reason :: "exactness \<Rightarrow> send_outcome \<Rightarrow> string option" where
  "unknown_reason UnknownUsage (SendFailed w) = Some ''send failed''"
| "unknown_reason UnknownUsage (SendSettled u w) = Some ''provider reported no usage''"
| "unknown_reason Exact outcome = None"
| "unknown_reason Estimate outcome = None"

definition opt_units :: "u64 option \<Rightarrow> budget_error + int option" where
  "opt_units u =
     (case u of
        None \<Rightarrow> Inr None
      | Some v \<Rightarrow> (case budget_units_i64 v of Inl e \<Rightarrow> Inl e | Inr i \<Rightarrow> Inr (Some i)))"

record stored_bins =
  sb_prompt :: "int option"
  sb_completion :: "int option"
  sb_reasoning :: "int option"
  sb_cache_read :: "int option"
  sb_cache_write :: "int option"
  sb_total :: "int option"

definition stored_bins_none :: stored_bins where
  "stored_bins_none = \<lparr>sb_prompt = None, sb_completion = None, sb_reasoning = None,
     sb_cache_read = None, sb_cache_write = None, sb_total = None\<rparr>"

definition store_bins :: "usage_bins \<Rightarrow> budget_error + stored_bins" where
  "store_bins b =
     (case opt_units (prompt_tokens b) of Inl e \<Rightarrow> Inl e | Inr p \<Rightarrow>
     (case opt_units (completion_tokens b) of Inl e \<Rightarrow> Inl e | Inr c \<Rightarrow>
     (case opt_units (reasoning_tokens b) of Inl e \<Rightarrow> Inl e | Inr r \<Rightarrow>
     (case opt_units (cache_read_tokens b) of Inl e \<Rightarrow> Inl e | Inr cr \<Rightarrow>
     (case opt_units (cache_write_tokens b) of Inl e \<Rightarrow> Inl e | Inr cw \<Rightarrow>
     (case opt_units (total_tokens b) of Inl e \<Rightarrow> Inl e | Inr t \<Rightarrow>
        Inr \<lparr>sb_prompt = p, sb_completion = c, sb_reasoning = r, sb_cache_read = cr,
             sb_cache_write = cw, sb_total = t\<rparr>))))))"

text \<open>\<open>SETTLE_USAGE_SETTLEMENT\<close>: closes the attempt's row if it is still dispatched.\<close>

definition settle_row_of ::
  "string \<Rightarrow> exactness \<Rightarrow> string option \<Rightarrow> int \<Rightarrow> stored_bins \<Rightarrow> int option \<Rightarrow> settlement_row \<Rightarrow> settlement_row" where
  "settle_row_of attempt ex reason retries b charged r =
     (if sr_attempt r = attempt \<and> sr_state r = Dispatched
      then r\<lparr>sr_state := Settled, sr_exactness := ex, sr_unknown_reason := reason,
             sr_wire_retries := retries, sr_prompt := sb_prompt b, sr_completion := sb_completion b,
             sr_reasoning := sb_reasoning b, sr_cache_read := sb_cache_read b,
             sr_cache_write := sb_cache_write b, sr_total := sb_total b, sr_charged := charged\<rparr>
      else r)"

definition is_dispatched :: "settlement_row list \<Rightarrow> string \<Rightarrow> bool" where
  "is_dispatched rows attempt = list_ex (\<lambda>r. sr_attempt r = attempt \<and> sr_state r = Dispatched) rows"

definition settlement_not_dispatched :: "settlement_row list \<Rightarrow> string \<Rightarrow> send_error" where
  "settlement_not_dispatched rows attempt =
     (case find (\<lambda>r. sr_attempt r = attempt) rows of
        None \<Rightarrow> MissingSettlement attempt
      | Some r \<Rightarrow> SettlementNotDispatched attempt (sr_state r))"

text \<open>\<open>SETTLE_USAGE_TOTAL\<close>, over the rows as the settle left them.\<close>

definition settled_max_rowid :: "settlement_row list \<Rightarrow> int option" where
  "settled_max_rowid rows =
     (let ids = map sr_rowid (filter (\<lambda>r. sr_state r = Settled) rows)
      in if ids = [] then None else Some (Max (set ids)))"

definition add_column :: "int option \<Rightarrow> int option \<Rightarrow> int" where
  "add_column old new = (case old of None \<Rightarrow> 0 | Some v \<Rightarrow> v) + (case new of None \<Rightarrow> 0 | Some v \<Rightarrow> v)"

definition settle_usage_total ::
  "int option \<Rightarrow> int option \<Rightarrow> int option \<Rightarrow> string \<Rightarrow> settlement_row list \<Rightarrow> usage_totals \<Rightarrow>
     send_error + usage_totals" where
  "settle_usage_total tot charged prompt attempt rows t =
     (let total' = add_column (ut_total_tokens t) tot;
          charged' = add_column (ut_charged_units t) charged
      in if \<not> i64_fits total' \<or> \<not> i64_fits charged' then Inl ColumnOverflow
         else
           Inr \<lparr>ut_settled_count = ut_settled_count t + 1,
                ut_without_total = ut_without_total t + (if tot = None then 1 else 0),
                ut_total_tokens = Some total',
                ut_charged_count = ut_charged_count t + (if charged = None then 0 else 1),
                ut_charged_units = Some charged',
                ut_latest_prompt =
                  (if map_option sr_rowid (find (\<lambda>r. sr_attempt r = attempt) rows) = settled_max_rowid rows
                   then prompt else ut_latest_prompt t),
                ut_dispatched_count = max (ut_dispatched_count t - 1) 0,
                ut_next_rowid = ut_next_rowid t\<rparr>)"

text \<open>
  The statements one settle runs: the close of the row, the totals, and the resolution of the
  reservation when one stands behind the send.
\<close>

definition settle_tx ::
  "string \<Rightarrow> exactness \<Rightarrow> string option \<Rightarrow> int \<Rightarrow> stored_bins \<Rightarrow> int option \<Rightarrow> int option option \<Rightarrow> store \<Rightarrow>
     send_error + store" where
  "settle_tx attempt ex reason retries b charged resolve st =
     (let rows = map (settle_row_of attempt ex reason retries b charged) (st_settlements st)
      in case settle_usage_total (sb_total b) charged (sb_prompt b) attempt rows (st_totals st) of
           Inl e \<Rightarrow> Inl e
         | Inr tot \<Rightarrow>
             (case (case resolve of
                      None \<Rightarrow> Inr (st_ledger st)
                    | Some c \<Rightarrow> resolve_reservation_tx attempt Charged c False (st_ledger st)) of
                Inl e \<Rightarrow> Inl (BudgetRefusal e)
              | Inr l' \<Rightarrow> Inr (st\<lparr>st_ledger := l', st_settlements := rows, st_totals := tot\<rparr>)))"

definition send_charge :: "send_ticket \<Rightarrow> usage_delta \<Rightarrow> u64 option" where
  "send_charge ticket usage =
     (if tk_reserved ticket
      then Some (case confirmed_total usage of
                   None \<Rightarrow> tk_cost_bound ticket
                 | Some t \<Rightarrow> min t (tk_cost_bound ticket))
      else None)"

definition finish_send :: "send_ticket \<Rightarrow> send_outcome \<Rightarrow> store \<Rightarrow> (send_error + unit) \<times> store" where
  "finish_send ticket outcome st =
     (case outcome_usage outcome of
        (usage, retries) \<Rightarrow>
          if usage_exactness usage = Exact \<and> confirmed_total usage = None
          then (Inl (SettlementMissingTotal (tk_attempt ticket)), st)
          else
            (case opt_units (send_charge ticket usage) of
               Inl e \<Rightarrow> (Inl (BudgetRefusal e), st)
             | Inr charged \<Rightarrow>
                 (case store_bins (usage_bins_of usage) of
                    Inl e \<Rightarrow> (Inl (BudgetRefusal e), st)
                  | Inr b \<Rightarrow>
                      if \<not> is_dispatched (st_settlements st) (tk_attempt ticket)
                      then (Inl (settlement_not_dispatched (st_settlements st) (tk_attempt ticket)), st)
                      else
                        (case settle_tx (tk_attempt ticket) (usage_exactness usage)
                                (unknown_reason (usage_exactness usage) outcome) (uint retries) b charged
                                (if tk_reserved ticket then Some charged else None) st of
                           Inl e \<Rightarrow> (Inl e, st)
                         | Inr st' \<Rightarrow> (Inr (), st')))))"

subsection \<open>Reconciliation\<close>

definition reservation_is_open :: "ledger \<Rightarrow> string \<Rightarrow> bool" where
  "reservation_is_open l rid =
     (let rows = filter (\<lambda>r. rr_id r = rid) (reservations l)
      in rows \<noteq> [] \<and> list_all (\<lambda>r. rr_state r = Reserved) rows)"

fun reconcile_loop :: "(string \<times> int) list \<Rightarrow> nat \<Rightarrow> store \<Rightarrow> send_error + (nat \<times> store)" where
  "reconcile_loop [] n st = Inr (n, st)"
| "reconcile_loop ((attempt, bound) # rest) n st =
     (let held_here = reservation_is_open (st_ledger st) attempt;
          charged = (if held_here then Some bound else None)
      in if \<not> is_dispatched (st_settlements st) attempt then reconcile_loop rest n st
         else (case settle_tx attempt UnknownUsage (Some ''interrupted'') 0 stored_bins_none charged
                      (if held_here then Some (Some bound) else None) st of
                 Inl e \<Rightarrow> Inl e
               | Inr st' \<Rightarrow> reconcile_loop rest (n + 1) st'))"

definition interrupted_sends :: "store \<Rightarrow> (string \<times> int) list" where
  "interrupted_sends st =
     map (\<lambda>r. (sr_attempt r, sr_cost_bound r))
       (sort_key sr_rowid (filter (\<lambda>r. sr_state r = Dispatched) (st_settlements st)))"

definition reconcile_sends :: "store \<Rightarrow> (send_error + nat) \<times> store" where
  "reconcile_sends st =
     (case reconcile_loop (interrupted_sends st) 0 st of
        Inl e \<Rightarrow> (Inl e, st)
      | Inr (n, st') \<Rightarrow> (Inr n, st'))"

end
