(* ===== verification/Send_Props.thy ===== *)
theory Send_Props
  imports Send_Ledger
begin

text \<open>
  The invariant of the send store: the incremental totals are the aggregate of the settlement rows,
  row identities only grow, and every reservation belongs to the settlement row of its attempt, held
  while that row is dispatched and charged once it is settled.
\<close>

subsection \<open>Totals as an aggregate\<close>

abbreviation settled_rows :: "settlement_row list \<Rightarrow> settlement_row list" where
  "settled_rows rows \<equiv> filter (\<lambda>r. sr_state r = Settled) rows"

definition reported :: "(settlement_row \<Rightarrow> int option) \<Rightarrow> settlement_row list \<Rightarrow> int" where
  "reported col rows = int (length (filter (\<lambda>r. col r \<noteq> None) (settled_rows rows)))"

definition column_sum :: "(settlement_row \<Rightarrow> int option) \<Rightarrow> settlement_row list \<Rightarrow> int" where
  "column_sum col rows = (\<Sum>r\<leftarrow>settled_rows rows. case col r of None \<Rightarrow> 0 | Some v \<Rightarrow> v)"

definition latest_prompt :: "settlement_row list \<Rightarrow> int option" where
  "latest_prompt rows =
     (case rev (settled_rows (sort_key sr_rowid rows)) of [] \<Rightarrow> None | r # _ \<Rightarrow> sr_prompt r)"

definition dispatched_count :: "settlement_row list \<Rightarrow> int" where
  "dispatched_count rows = int (length (filter (\<lambda>r. sr_state r = Dispatched) rows))"

text \<open>\<open>USAGE_TOTALS_BACKFILL\<close>: the totals row recomputed from the settlement rows.\<close>

definition usage_totals_backfill :: "settlement_row list \<Rightarrow> usage_totals" where
  "usage_totals_backfill rows =
     \<lparr>ut_settled_count = int (length (settled_rows rows)),
      ut_without_total = int (length (settled_rows rows)) - reported sr_total rows,
      ut_total_tokens = (if reported sr_total rows = 0 then None else Some (column_sum sr_total rows)),
      ut_charged_count = reported sr_charged rows,
      ut_charged_units = (if reported sr_charged rows = 0 then None else Some (column_sum sr_charged rows)),
      ut_latest_prompt = latest_prompt rows,
      ut_dispatched_count = dispatched_count rows,
      ut_next_rowid = max (max_rowid rows + 1) 1\<rparr>"

text \<open>\<open>SETTLEMENT_TOTALS\<close>: what the status projection reads off the totals row.\<close>

record settlement_totals =
  tt_settled_count :: int
  tt_without_total :: int
  tt_total_tokens :: "int option"
  tt_charged_units :: "int option"
  tt_dispatched_count :: int
  tt_latest_prompt :: "int option"

definition totals_view :: "usage_totals \<Rightarrow> settlement_totals" where
  "totals_view t =
     \<lparr>tt_settled_count = ut_settled_count t, tt_without_total = ut_without_total t,
      tt_total_tokens = (if ut_settled_count t > ut_without_total t then ut_total_tokens t else None),
      tt_charged_units = (if ut_charged_count t > 0 then ut_charged_units t else None),
      tt_dispatched_count = ut_dispatched_count t, tt_latest_prompt = ut_latest_prompt t\<rparr>"

definition totals_ok :: "settlement_row list \<Rightarrow> usage_totals \<Rightarrow> bool" where
  "totals_ok rows t \<longleftrightarrow>
     ut_settled_count t = int (length (settled_rows rows)) \<and>
     ut_without_total t = int (length (settled_rows rows)) - reported sr_total rows \<and>
     add_column (ut_total_tokens t) None = column_sum sr_total rows \<and>
     ut_charged_count t = reported sr_charged rows \<and>
     add_column (ut_charged_units t) None = column_sum sr_charged rows \<and>
     (settled_rows rows \<noteq> [] \<longrightarrow> ut_total_tokens t \<noteq> None \<and> ut_charged_units t \<noteq> None) \<and>
     ut_latest_prompt t = latest_prompt rows \<and>
     ut_dispatched_count t = dispatched_count rows \<and>
     i64_fits (column_sum sr_total rows) \<and> i64_fits (column_sum sr_charged rows)"

lemma reported_append [simp]: "reported col (xs @ ys) = reported col xs + reported col ys"
  by (simp add: reported_def)

lemma reported_Cons [simp]:
  "reported col (r # rows) = (if sr_state r = Settled \<and> col r \<noteq> None then 1 else 0) + reported col rows"
  by (simp add: reported_def)

lemma column_sum_append [simp]: "column_sum col (xs @ ys) = column_sum col xs + column_sum col ys"
  by (simp add: column_sum_def)

lemma column_sum_Cons [simp]:
  "column_sum col (r # rows) =
     (if sr_state r = Settled then (case col r of None \<Rightarrow> 0 | Some v \<Rightarrow> v) else 0) + column_sum col rows"
  by (simp add: column_sum_def)

lemma reported_Nil [simp]: "reported col [] = 0" "column_sum col [] = 0"
  by (simp_all add: reported_def column_sum_def)

lemma dispatched_count_append [simp]:
  "dispatched_count [] = 0" "dispatched_count (xs @ ys) = dispatched_count xs + dispatched_count ys"
  "dispatched_count (r # rows) = (if sr_state r = Dispatched then 1 else 0) + dispatched_count rows"
  by (simp_all add: dispatched_count_def)

lemma dispatched_count_nonneg: "0 \<le> dispatched_count rows"
  by (simp add: dispatched_count_def)

lemma reported_le: "reported col rows \<le> int (length (settled_rows rows))" "0 \<le> reported col rows"
  by (induction rows) auto

lemma totals_view_ok:
  assumes ok: "totals_ok rows t"
  shows "totals_view t = totals_view (usage_totals_backfill rows)"
proof -
  have tot: "reported sr_total rows \<noteq> 0 \<Longrightarrow> ut_total_tokens t = Some (column_sum sr_total rows)"
    and chg: "reported sr_charged rows \<noteq> 0 \<Longrightarrow> ut_charged_units t = Some (column_sum sr_charged rows)"
  proof -
    have ne: "reported col rows \<noteq> 0 \<Longrightarrow> settled_rows rows \<noteq> []" for col
      using reported_le[of col rows] by auto
    show "reported sr_total rows \<noteq> 0 \<Longrightarrow> ut_total_tokens t = Some (column_sum sr_total rows)"
      using ok ne[of sr_total] unfolding totals_ok_def by (auto simp: add_column_def)
    show "reported sr_charged rows \<noteq> 0 \<Longrightarrow> ut_charged_units t = Some (column_sum sr_charged rows)"
      using ok ne[of sr_charged] unfolding totals_ok_def by (auto simp: add_column_def)
  qed
  have "0 \<le> reported sr_total rows" "0 \<le> reported sr_charged rows" by (simp_all add: reported_def)
  then show ?thesis
    using ok tot chg unfolding totals_ok_def by (auto simp: totals_view_def usage_totals_backfill_def)
qed

subsection \<open>Rows in order of identity\<close>

definition rows_ok :: "settlement_row list \<Rightarrow> bool" where
  "rows_ok rows \<longleftrightarrow> sorted_wrt (\<lambda>a b. sr_rowid a < sr_rowid b) rows \<and> distinct (map sr_attempt rows)"

lemma rows_ok_sorted: "rows_ok rows \<Longrightarrow> sort_key sr_rowid rows = rows"
proof -
  assume "rows_ok rows"
  then have "sorted_wrt (\<lambda>a b. sr_rowid a \<le> sr_rowid b) rows"
    unfolding rows_ok_def by (elim conjE sorted_wrt_mono_rel[rotated]) simp
  then have "sorted (map sr_rowid rows)" by (simp add: sorted_map)
  then show ?thesis by (rule sort_key_id_if_sorted)
qed

lemma max_rowid_bound: "r \<in> set rows \<Longrightarrow> sr_rowid r \<le> max_rowid rows"
  by (auto simp: max_rowid_def)

lemma rows_ok_snoc:
  assumes "rows_ok rows" "\<forall>r\<in>set rows. sr_attempt r \<noteq> sr_attempt n" "max_rowid rows < sr_rowid n"
  shows "rows_ok (rows @ [n])"
  using assms max_rowid_bound[of _ rows] by (fastforce simp: rows_ok_def sorted_wrt_append)

text \<open>A settle changes one row, in place.\<close>

lemma settle_split:
  assumes rows: "rows_ok rows" and "is_dispatched rows attempt"
  obtains xs r ys where "rows = xs @ r # ys" "sr_attempt r = attempt" "sr_state r = Dispatched"
    "map (settle_row_of attempt ex reason retries b charged) rows =
       xs @ settle_row_of attempt ex reason retries b charged r # ys"
    "\<forall>x\<in>set xs \<union> set ys. sr_attempt x \<noteq> attempt"
proof -
  obtain r where r: "r \<in> set rows" "sr_attempt r = attempt" "sr_state r = Dispatched"
    using assms(2) by (auto simp: is_dispatched_def list_ex_iff)
  then obtain xs ys where split: "rows = xs @ r # ys" by (meson split_list)
  then have others: "\<forall>x\<in>set xs \<union> set ys. sr_attempt x \<noteq> attempt"
  proof -
    have "sr_attempt r \<notin> sr_attempt ` set xs" "sr_attempt r \<notin> sr_attempt ` set ys"
      using rows unfolding split rows_ok_def by simp_all
    then show ?thesis using r(2) by (metis UnE image_eqI)
  qed
  then have "map (settle_row_of attempt ex reason retries b charged) zs = zs" if "set zs \<subseteq> set xs \<union> set ys" for zs
    using that by (intro map_idI) (auto simp: settle_row_of_def)
  then show thesis using that[OF split r(2,3) _ others] split by simp
qed

lemma settle_row_of_sel [simp]:
  "sr_rowid (settle_row_of attempt ex reason retries b charged r) = sr_rowid r"
  "sr_attempt (settle_row_of attempt ex reason retries b charged r) = sr_attempt r"
  "sr_cost_bound (settle_row_of attempt ex reason retries b charged r) = sr_cost_bound r"
  by (simp_all add: settle_row_of_def)

lemma rows_ok_settle:
  "rows_ok rows \<Longrightarrow> rows_ok (map (settle_row_of attempt ex reason retries b charged) rows)"
  by (simp add: rows_ok_def sorted_wrt_map comp_def)

lemma latest_prompt_sorted:
  "rows_ok rows \<Longrightarrow> latest_prompt rows = (case rev (settled_rows rows) of [] \<Rightarrow> None | r # _ \<Rightarrow> sr_prompt r)"
  by (simp add: latest_prompt_def rows_ok_sorted)

lemma latest_prompt_cons:
  assumes "rows_ok (xs @ r # ys)"
  shows "latest_prompt (xs @ r # ys) =
    (if settled_rows ys \<noteq> [] then latest_prompt ys
     else if sr_state r = Settled then sr_prompt r else latest_prompt xs)"
proof -
  have "rows_ok xs" "rows_ok ys" using assms by (auto simp: rows_ok_def sorted_wrt_append)
  then show ?thesis
    using assms by (cases "settled_rows ys" rule: rev_cases) (auto simp: latest_prompt_sorted split: list.splits)
qed

lemma settled_max_rowid_at:
  assumes "rows_ok (xs @ r # ys)" "sr_state r = Settled"
  shows "settled_max_rowid (xs @ r # ys) = Some (sr_rowid r) \<longleftrightarrow> settled_rows ys = []"
proof -
  let ?ids = "sr_rowid ` set (settled_rows (xs @ r # ys))"
  have smr: "settled_max_rowid (xs @ r # ys) = Some (Max ?ids)"
    using assms(2) by (simp add: settled_max_rowid_def Let_def image_Un)
  have below: "\<forall>x\<in>set xs. sr_rowid x < sr_rowid r" and above: "\<forall>y\<in>set ys. sr_rowid r < sr_rowid y"
    using assms(1) by (auto simp: rows_ok_def sorted_wrt_append)
  show ?thesis
  proof
    assume "settled_rows ys = []"
    then have "Max ?ids = sr_rowid r"
      using assms(2) below by (intro Max_eqI) (auto simp: filter_empty_conv)
    then show "settled_max_rowid (xs @ r # ys) = Some (sr_rowid r)" by (simp add: smr)
  next
    assume "settled_max_rowid (xs @ r # ys) = Some (sr_rowid r)"
    then have "Max ?ids = sr_rowid r" by (simp only: smr option.inject)
    moreover have "sr_rowid y \<le> Max ?ids" if "y \<in> set (settled_rows ys)" for y
      using that by (intro Max_ge) auto
    ultimately have "\<forall>y\<in>set (settled_rows ys). sr_rowid y \<le> sr_rowid r" by metis
    then show "settled_rows ys = []" using above by (fastforce simp: filter_empty_conv)
  qed
qed

subsection \<open>The store invariant\<close>

abbreviation has_reservation :: "ledger \<Rightarrow> string \<Rightarrow> bool" where
  "has_reservation l rid \<equiv> \<exists>q\<in>set (reservations l). rr_id q = rid"

definition link_ok :: "ledger \<Rightarrow> settlement_row \<Rightarrow> bool" where
  "link_ok l r \<longleftrightarrow> 0 \<le> sr_cost_bound r \<and>
     (\<forall>q\<in>set (reservations l). rr_id q = sr_attempt r \<longrightarrow> rr_bound q = sr_cost_bound r \<and>
        (case sr_state r of
           Dispatched \<Rightarrow> rr_state q = Reserved
         | Settled \<Rightarrow> rr_state q = Charged \<and> rr_charged q = sr_charged r)) \<and>
     (sr_state r = Settled \<longrightarrow> (sr_charged r \<noteq> None \<longleftrightarrow> has_reservation l (sr_attempt r)) \<and>
        (\<forall>c. sr_charged r = Some c \<longrightarrow> 0 \<le> c \<and> c \<le> sr_cost_bound r))"

definition owned :: "settlement_row list \<Rightarrow> ledger \<Rightarrow> bool" where
  "owned rows l \<longleftrightarrow> (\<forall>q\<in>set (reservations l). \<exists>r\<in>set rows. sr_attempt r = rr_id q)"

definition work_ok :: "store \<Rightarrow> bool" where
  "work_ok st \<longleftrightarrow> (\<forall>task w. st_work st task = Some w \<longrightarrow>
     0 \<le> w_deadline w \<and> 0 \<le> w_send_bound w \<and> budget_scopes_table (st_ledger st) task \<noteq> None)"

definition store_inv :: "store \<Rightarrow> bool" where
  "store_inv st \<longleftrightarrow> budget_inv (st_ledger st) \<and> rows_ok (st_settlements st) \<and>
     totals_ok (st_settlements st) (st_totals st) \<and>
     (\<forall>r\<in>set (st_settlements st). link_ok (st_ledger st) r) \<and>
     owned (st_settlements st) (st_ledger st) \<and> work_ok st"

lemma store_invD:
  assumes "store_inv st"
  shows "budget_inv (st_ledger st)" "rows_ok (st_settlements st)" "totals_ok (st_settlements st) (st_totals st)"
    "r \<in> set (st_settlements st) \<Longrightarrow> link_ok (st_ledger st) r" "owned (st_settlements st) (st_ledger st)"
    "work_ok st"
  using assms unfolding store_inv_def by blast+

definition store_new :: "string list \<Rightarrow> store" where
  "store_new tasks =
     \<lparr>st_ledger = ledger_empty, st_tasks = tasks, st_work = Map.empty, st_settlements = [],
      st_totals = usage_totals_backfill []\<rparr>"

lemma store_new_inv: "store_inv (store_new tasks)"
  by (simp add: store_inv_def store_new_def empty_inv rows_ok_def totals_ok_def usage_totals_backfill_def
      add_column_def i64_fits_def latest_prompt_def owned_def ledger_empty_def work_ok_def)
    (simp add: budget_inv_def)

subsection \<open>Scopes and work rows\<close>

lemma open_ledger_inv:
  assumes inv: "store_inv st"
  shows "store_inv (st\<lparr>st_ledger := snd (open_budget scope limit (st_ledger st))\<rparr>)"
proof -
  let ?l = "snd (open_budget scope limit (st_ledger st))"
  have res: "reservations ?l = reservations (st_ledger st)"
    by (simp add: open_budget_def split: sum.splits)
  have "budget_scopes_table (st_ledger st) s \<noteq> None \<Longrightarrow> budget_scopes_table ?l s \<noteq> None" for s
    by (auto simp: open_budget_def split: sum.splits)
  then have "work_ok (st\<lparr>st_ledger := ?l\<rparr>)" using store_invD(6)[OF inv] by (fastforce simp: work_ok_def)
  then show ?thesis
    using store_invD[OF inv] open_budget_inv[of "st_ledger st" scope limit] res
    by (simp add: store_inv_def link_ok_def owned_def)
qed

text \<open>Opening a worker opens the scope exactly as \<open>open_budget\<close> does, or changes nothing.\<close>

lemma open_work_budget_ledger:
  "snd (open_work_budget task deadline sends units st) = st \<or>
   (\<exists>w. st_work st task = None \<and> 0 \<le> w_deadline w \<and> 0 \<le> w_send_bound w \<and> w_state w = WorkOpen \<and>
     snd (open_work_budget task deadline sends units st) =
       st\<lparr>st_ledger := snd (open_budget task units (st_ledger st)), st_work := (st_work st)(task \<mapsto> w)\<rparr> \<and>
     budget_scopes_table (snd (open_budget task units (st_ledger st))) task \<noteq> None)"
proof (cases "uint deadline < 2 ^ 63 \<and> uint sends < 2 ^ 63 \<and> uint units < 2 ^ 63 \<and> task \<in> set (st_tasks st) \<and>
    st_work st task = None \<and> budget_scopes_table (st_ledger st) task = None")
  case False
  then show ?thesis by (auto simp: open_work_budget_def work_bound_i64_def split: option.splits)
next
  case True
  let ?w = "\<lparr>w_deadline = uint deadline, w_send_bound = uint sends, w_state = WorkOpen, w_reason = None\<rparr>"
  let ?st = "st\<lparr>st_ledger := snd (open_budget task units (st_ledger st)), st_work := (st_work st)(task \<mapsto> ?w)\<rparr>"
  have led: "snd (open_budget task units (st_ledger st)) = (st_ledger st)\<lparr>budget_scopes_table :=
      (budget_scopes_table (st_ledger st))(task \<mapsto> \<lparr>limit_units = uint units, spent = 0, reserved = 0\<rparr>)\<rparr>"
    using True by (simp add: open_budget_def budget_units_i64_def)
  have "snd (open_work_budget task deadline sends units st) =
      (case work_budget_on ?st task of Inl e \<Rightarrow> st | Inr _ \<Rightarrow> ?st)"
    using True by (simp add: open_work_budget_def work_bound_i64_def led Let_def split: sum.splits option.splits)
  then have "snd (open_work_budget task deadline sends units st) = ?st \<or>
      snd (open_work_budget task deadline sends units st) = st"
    by (cases "work_budget_on ?st task") simp_all
  then show ?thesis
  proof
    assume "snd (open_work_budget task deadline sends units st) = ?st"
    then show ?thesis using True by (intro disjI2 exI[of _ ?w]) (simp add: led)
  qed simp
qed

lemma open_work_budget_inv:
  assumes inv: "store_inv st"
  shows "store_inv (snd (open_work_budget task deadline sends units st))"
  using open_work_budget_ledger[of task deadline sends units st]
proof (elim disjE exE conjE)
  fix w
  assume w: "0 \<le> w_deadline w" "0 \<le> w_send_bound w"
    and post: "snd (open_work_budget task deadline sends units st) =
      st\<lparr>st_ledger := snd (open_budget task units (st_ledger st)), st_work := (st_work st)(task \<mapsto> w)\<rparr>"
    and opened: "budget_scopes_table (snd (open_budget task units (st_ledger st))) task \<noteq> None"
  note inv1 = open_ledger_inv[OF inv, of task units]
  have "work_ok (st\<lparr>st_ledger := snd (open_budget task units (st_ledger st)), st_work := (st_work st)(task \<mapsto> w)\<rparr>)"
    using store_invD(6)[OF inv1] w opened by (auto simp: work_ok_def)
  then show ?thesis using store_invD(1-5)[OF inv1] unfolding post by (simp add: store_inv_def)
qed (use inv in simp)

lemma stop_work_budget_post:
  "snd (stop_work_budget task reason st) = st \<or>
   (\<exists>w. st_work st task = Some w \<and> w_state w = WorkOpen \<and>
     snd (stop_work_budget task reason st) =
       st\<lparr>st_work := (st_work st)(task \<mapsto> w\<lparr>w_state := WorkStopped, w_reason := Some reason\<rparr>)\<rparr>)"
  by (auto simp: stop_work_budget_def Let_def split: sum.splits option.splits if_splits)

lemma stop_work_budget_inv:
  assumes inv: "store_inv st"
  shows "store_inv (snd (stop_work_budget task reason st))"
  using stop_work_budget_post[of task reason st]
proof (elim disjE exE conjE)
  fix w assume w: "st_work st task = Some w"
    and post: "snd (stop_work_budget task reason st) =
      st\<lparr>st_work := (st_work st)(task \<mapsto> w\<lparr>w_state := WorkStopped, w_reason := Some reason\<rparr>)\<rparr>"
  have "work_ok (st\<lparr>st_work := (st_work st)(task \<mapsto> w\<lparr>w_state := WorkStopped, w_reason := Some reason\<rparr>)\<rparr>)"
    using store_invD(6)[OF inv] w by (auto simp: work_ok_def)
  then show ?thesis using store_invD(1-5)[OF inv] unfolding post by (simp add: store_inv_def)
qed (use inv in simp)

subsection \<open>Sends\<close>

lemma open_scopes_spec:
  "distinct acc \<Longrightarrow> distinct (open_scopes tab scopes acc) \<and>
     set (open_scopes tab scopes acc) = set acc \<union> {s \<in> set scopes. tab s \<noteq> None}"
  by (induction scopes arbitrary: acc) auto

lemma begin_send_cases:
  assumes "begin_send scopes ctx attempt cost_bound st = (res, st')"
  obtains (refused) e where "res = Inl e" "st' = st"
  | (sent) l' rowid tot where
      "res = Inr \<lparr>tk_attempt = attempt, tk_cost_bound = cost_bound,
         tk_reserved = (open_scopes (budget_scopes_table (st_ledger st)) scopes [] \<noteq> [])\<rparr>"
      "uint cost_bound < 2 ^ 63" "\<forall>r\<in>set (st_settlements st). sr_attempt r \<noteq> attempt"
      "send_bound_refusal st (open_scopes (budget_scopes_table (st_ledger st)) scopes []) = None"
      "reserve_scopes attempt cost_bound (uint cost_bound)
         (open_scopes (budget_scopes_table (st_ledger st)) scopes []) (st_ledger st) = Inr l'"
      "next_settlement_rowid (st_settlements st) (st_totals st) = (rowid, tot)"
      "st' = st\<lparr>st_ledger := l', st_settlements := st_settlements st @ [dispatched_row rowid attempt ctx (uint cost_bound)],
         st_totals := tot\<rparr>"
proof (cases res)
  case (Inl e)
  then have "st' = st"
    using assms by (auto simp: begin_send_def Let_def split: sum.splits if_splits option.splits prod.splits)
  then show ?thesis using Inl refused by blast
next
  case (Inr t)
  then show ?thesis
    using assms
    by (auto simp: begin_send_def Let_def budget_units_i64_def list_ex_iff
        split: sum.splits if_splits option.splits prod.splits intro!: sent)
qed

lemma dispatched_row_sel [simp]:
  "sr_rowid (dispatched_row rowid attempt ctx b) = rowid" "sr_attempt (dispatched_row rowid attempt ctx b) = attempt"
  "sr_state (dispatched_row rowid attempt ctx b) = Dispatched" "sr_cost_bound (dispatched_row rowid attempt ctx b) = b"
  "sr_charged (dispatched_row rowid attempt ctx b) = None"
  by (simp_all add: dispatched_row_def)

lemma totals_ok_dispatch:
  assumes ok: "totals_ok rows t" and rows: "rows_ok rows" and snoc: "rows_ok (rows @ [n])"
    and n: "sr_state n = Dispatched" and t': "next_settlement_rowid rows t = (rowid, t')"
  shows "totals_ok (rows @ [n]) t'"
proof -
  obtain k where t: "t' = t\<lparr>ut_next_rowid := k, ut_dispatched_count := ut_dispatched_count t + 1\<rparr>"
    using t' by (auto simp: next_settlement_rowid_def Let_def)
  have "latest_prompt (rows @ [n]) = latest_prompt rows"
    using latest_prompt_cons[of rows n "[]"] snoc n by simp
  then show ?thesis using ok n unfolding t totals_ok_def by simp
qed

lemma begin_send_inv:
  assumes inv: "store_inv st"
  shows "store_inv (snd (begin_send scopes ctx attempt cost_bound st))"
proof -
  obtain res st' where post: "begin_send scopes ctx attempt cost_bound st = (res, st')"
    by (cases "begin_send scopes ctx attempt cost_bound st")
  then have "store_inv st'"
  proof (cases rule: begin_send_cases)
    case (refused e)
    then show ?thesis using inv by simp
  next
    case (sent l' rowid tot)
    let ?rows = "st_settlements st" and ?l = "st_ledger st"
    let ?open = "open_scopes (budget_scopes_table ?l) scopes []"
    let ?n = "dispatched_row rowid attempt ctx (uint cost_bound)"
    let ?fresh = "map (fresh_row attempt (uint cost_bound)) ?open"
    note eff = reserve_scopes_effect[OF sent(5)]
    have res: "reservations l' = reservations ?l @ ?fresh" using eff by blast
    have none: "\<forall>q\<in>set (reservations ?l). rr_id q \<noteq> attempt"
      using store_invD(5)[OF inv] sent(3) unfolding owned_def by metis
    have rowid: "max_rowid ?rows < rowid" using sent(6) by (auto simp: next_settlement_rowid_def Let_def)
    have rows: "rows_ok (?rows @ [?n])"
      using rows_ok_snoc[OF store_invD(2)[OF inv]] sent(3) rowid by simp
    have "budget_inv l'" using reserve_scopes_inv[OF store_invD(1)[OF inv] _ sent(5)] by simp
    moreover have "totals_ok (?rows @ [?n]) tot"
      by (rule totals_ok_dispatch[OF store_invD(3,2)[OF inv] rows _ sent(6)]) simp
    moreover have "q \<in> set ?fresh \<Longrightarrow> rr_bound q = uint cost_bound \<and> rr_state q = Reserved" for q by auto
    then have "link_ok l' ?n" using none unfolding link_ok_def res by (auto simp del: set_map)
    moreover have "link_ok l' r" if "r \<in> set ?rows" for r
      using store_invD(4)[OF inv that] sent(3) that by (auto simp: link_ok_def res)
    moreover have "owned (?rows @ [?n]) l'"
      using store_invD(5)[OF inv] by (auto simp: owned_def res)
    moreover have "work_ok st'"
      using store_invD(6)[OF inv] eff unfolding sent(7) work_ok_def by auto
    ultimately show ?thesis using rows unfolding sent(7) by (simp add: store_inv_def)
  qed
  then show ?thesis by (simp add: post)
qed

subsection \<open>Settlement\<close>

lemma totals_ok_settle:
  assumes ok: "totals_ok rows t" and rows: "rows_ok rows" and disp: "is_dispatched rows attempt"
    and tot: "settle_usage_total (sb_total b) charged (sb_prompt b) attempt
        (map (settle_row_of attempt ex reason retries b charged) rows) t = Inr t'"
  shows "totals_ok (map (settle_row_of attempt ex reason retries b charged) rows) t'"
proof -
  obtain xs r ys where split: "rows = xs @ r # ys" "sr_attempt r = attempt" "sr_state r = Dispatched"
    "map (settle_row_of attempt ex reason retries b charged) rows =
       xs @ settle_row_of attempt ex reason retries b charged r # ys" (is "?rows' = xs @ ?r' # ys")
    "\<forall>x\<in>set xs \<union> set ys. sr_attempt x \<noteq> attempt"
    by (rule settle_split[OF rows disp])
  have r': "sr_state ?r' = Settled" "sr_total ?r' = sb_total b" "sr_charged ?r' = charged" "sr_prompt ?r' = sb_prompt b"
    using split(2,3) by (simp_all add: settle_row_of_def)
  have rows': "rows_ok (xs @ ?r' # ys)" using rows_ok_settle[OF rows] split(4) by metis
  have "find (\<lambda>r. sr_attempt r = attempt) (xs @ ?r' # ys) = Some ?r'"
    using split(2,5) by (induction xs) auto
  then have cond: "map_option sr_rowid (find (\<lambda>r. sr_attempt r = attempt) (xs @ ?r' # ys)) = settled_max_rowid (xs @ ?r' # ys)
      \<longleftrightarrow> settled_rows ys = []"
    using settled_max_rowid_at[OF rows' r'(1)] by auto
  have old: "latest_prompt rows = (if settled_rows ys \<noteq> [] then latest_prompt ys else latest_prompt xs)"
    using latest_prompt_cons[of xs r ys] rows split(1,3) by simp
  have new: "latest_prompt (xs @ ?r' # ys) = (if settled_rows ys \<noteq> [] then latest_prompt ys else sb_prompt b)"
    using latest_prompt_cons[OF rows'] r' by simp
  have dc: "0 \<le> dispatched_count xs" "0 \<le> dispatched_count ys" by (simp_all add: dispatched_count_nonneg)
  have t': "t' = \<lparr>ut_settled_count = ut_settled_count t + 1,
      ut_without_total = ut_without_total t + (if sb_total b = None then 1 else 0),
      ut_total_tokens = Some (add_column (ut_total_tokens t) (sb_total b)),
      ut_charged_count = ut_charged_count t + (if charged = None then 0 else 1),
      ut_charged_units = Some (add_column (ut_charged_units t) charged),
      ut_latest_prompt = (if settled_rows ys = [] then sb_prompt b else ut_latest_prompt t),
      ut_dispatched_count = max (ut_dispatched_count t - 1) 0, ut_next_rowid = ut_next_rowid t\<rparr>"
    using tot unfolding split(4) settle_usage_total_def Let_def cond by (auto split: if_splits)
  have "i64_fits (add_column (ut_total_tokens t) (sb_total b))" "i64_fits (add_column (ut_charged_units t) charged)"
    using tot by (auto simp: settle_usage_total_def Let_def split: if_splits)
  then show ?thesis
    using ok r' dc split(1,3) old new unfolding t' split(4) totals_ok_def by (auto simp: add_column_def algebra_simps)
qed

text \<open>What the charge of a dispatched row may be: its bound at most, and present exactly when units are held.\<close>

definition charge_fits :: "store \<Rightarrow> string \<Rightarrow> int option \<Rightarrow> bool" where
  "charge_fits st attempt charged \<longleftrightarrow>
     (charged \<noteq> None \<longleftrightarrow> has_reservation (st_ledger st) attempt) \<and>
     (\<forall>c. charged = Some c \<longrightarrow> 0 \<le> c \<and>
        (\<forall>r\<in>set (st_settlements st). sr_attempt r = attempt \<longrightarrow> c \<le> sr_cost_bound r))"

lemma close_row_sel [simp]:
  "rr_id (close_row rid terminal c r) = rr_id r" "rr_scope (close_row rid terminal c r) = rr_scope r"
  "rr_bound (close_row rid terminal c r) = rr_bound r"
  by (simp_all add: close_row_def)

lemma settle_tx_Inr:
  assumes inv: "store_inv st"
    and tx: "settle_tx attempt ex reason retries b charged
        (if has_reservation (st_ledger st) attempt then Some charged else None) st = Inr st'"
  shows "st_settlements st' = map (settle_row_of attempt ex reason retries b charged) (st_settlements st)"
    and "settle_usage_total (sb_total b) charged (sb_prompt b) attempt (st_settlements st') (st_totals st) =
           Inr (st_totals st')"
    and "reservations (st_ledger st') = map (close_row attempt Charged charged) (reservations (st_ledger st))"
    and "budget_scopes_table (st_ledger st') s \<noteq> None \<longleftrightarrow> budget_scopes_table (st_ledger st) s \<noteq> None"
    and "charge_fits st attempt charged \<Longrightarrow> budget_inv (st_ledger st')"
    and "st_work st' = st_work st" "st_tasks st' = st_tasks st"
proof -
  let ?has = "has_reservation (st_ledger st) attempt"
  note binv = store_invD(1)[OF inv]
  obtain tot l' where
    tot: "settle_usage_total (sb_total b) charged (sb_prompt b) attempt
      (map (settle_row_of attempt ex reason retries b charged) (st_settlements st)) (st_totals st) = Inr tot"
    and l': "(if ?has then resolve_reservation_tx attempt Charged charged False (st_ledger st)
              else Inr (st_ledger st)) = Inr l'"
    and st': "st' = st\<lparr>st_ledger := l', st_settlements :=
        map (settle_row_of attempt ex reason retries b charged) (st_settlements st), st_totals := tot\<rparr>"
    using tx by (auto simp: settle_tx_def Let_def split: sum.splits if_splits)
  show "st_settlements st' = map (settle_row_of attempt ex reason retries b charged) (st_settlements st)"
    and "settle_usage_total (sb_total b) charged (sb_prompt b) attempt (st_settlements st') (st_totals st) =
           Inr (st_totals st')"
    and "st_work st' = st_work st" "st_tasks st' = st_tasks st"
    using tot by (simp_all add: st')
  have "reservations l' = map (close_row attempt Charged charged) (reservations (st_ledger st)) \<and>
      (budget_scopes_table l' s \<noteq> None \<longleftrightarrow> budget_scopes_table (st_ledger st) s \<noteq> None) \<and>
      (charge_fits st attempt charged \<longrightarrow> budget_inv l')"
  proof (cases ?has)
    case True
    then have r: "resolve_reservation_tx attempt Charged charged False (st_ledger st) = Inr l'" using l' by simp
    note eff = resolve_reservation_tx_Inr[OF r binv]
    show ?thesis
      using eff(3) eff(4)[of s] resolve_tx_inv[OF r binv] by (auto simp: charge_fits_def)
  next
    case False
    then have "map (close_row attempt Charged charged) (reservations (st_ledger st)) = reservations (st_ledger st)"
      by (intro map_idI) (auto simp: close_row_def)
    then show ?thesis using l' False binv by simp
  qed
  then show "reservations (st_ledger st') = map (close_row attempt Charged charged) (reservations (st_ledger st))"
    and "budget_scopes_table (st_ledger st') s \<noteq> None \<longleftrightarrow> budget_scopes_table (st_ledger st) s \<noteq> None"
    and "charge_fits st attempt charged \<Longrightarrow> budget_inv (st_ledger st')"
    by (simp_all add: st')
qed

lemma settle_tx_inv:
  assumes inv: "store_inv st" and disp: "is_dispatched (st_settlements st) attempt"
    and fits: "charge_fits st attempt charged"
    and tx: "settle_tx attempt ex reason retries b charged
        (if has_reservation (st_ledger st) attempt then Some charged else None) st = Inr st'"
  shows "store_inv st'"
proof -
  note eff = settle_tx_Inr[OF inv tx]
  let ?close = "close_row attempt Charged charged"
  have has: "has_reservation (st_ledger st') rid \<longleftrightarrow> has_reservation (st_ledger st) rid" for rid
    by (simp add: eff(3))
  have "link_ok (st_ledger st') r'" if r': "r' \<in> set (st_settlements st')" for r'
  proof -
    obtain r where r: "r \<in> set (st_settlements st)" "r' = settle_row_of attempt ex reason retries b charged r"
      using r' by (auto simp: eff(1))
    note link = store_invD(4)[OF inv r(1)]
    show ?thesis
    proof (cases "sr_attempt r = attempt")
      case False
      then have "r' = r" using r(2) by (simp add: settle_row_of_def)
      moreover have "q \<in> set (reservations (st_ledger st)) \<Longrightarrow> rr_id q = sr_attempt r \<Longrightarrow> ?close q = q" for q
        using False by (simp add: close_row_def)
      ultimately show ?thesis using link has unfolding link_ok_def eff(3) by auto
    next
      case True
      then have "sr_state r = Dispatched"
        using disp r(1) store_invD(2)[OF inv] unfolding is_dispatched_def list_ex_iff rows_ok_def
        by (metis inj_onD distinct_map)
      then have r'_sel: "sr_state r' = Settled" "sr_charged r' = charged" "sr_attempt r' = attempt"
        "sr_cost_bound r' = sr_cost_bound r"
        using True r(2) by (simp_all add: settle_row_of_def)
      have "q \<in> set (reservations (st_ledger st)) \<Longrightarrow> rr_id q = attempt \<Longrightarrow>
          rr_bound q = sr_cost_bound r \<and> rr_state (?close q) = Charged \<and> rr_charged (?close q) = charged" for q
        using link True by (simp add: link_ok_def close_row_def)
      moreover have "0 \<le> sr_cost_bound r" using link by (simp add: link_ok_def)
      ultimately show ?thesis
        using fits r(1) True has[of attempt] unfolding link_ok_def eff(3) r'_sel charge_fits_def by auto
    qed
  qed
  moreover have "rows_ok (st_settlements st')" unfolding eff(1) by (rule rows_ok_settle[OF store_invD(2)[OF inv]])
  moreover have "totals_ok (st_settlements st') (st_totals st')"
    using totals_ok_settle[OF store_invD(3,2)[OF inv] disp] eff(2) unfolding eff(1) by blast
  moreover have "owned (st_settlements st') (st_ledger st')"
    using store_invD(5)[OF inv] by (auto simp: owned_def eff(1,3))
  moreover have "work_ok st'" using store_invD(6)[OF inv] eff(4) by (simp add: work_ok_def eff(6))
  ultimately show ?thesis using eff(5)[OF fits] by (simp add: store_inv_def)
qed

text \<open>A ticket describes the row it was issued for.\<close>

definition ticket_for :: "store \<Rightarrow> send_ticket \<Rightarrow> bool" where
  "ticket_for st tk \<longleftrightarrow> (\<forall>r\<in>set (st_settlements st). sr_attempt r = tk_attempt tk \<longrightarrow>
     sr_cost_bound r = uint (tk_cost_bound tk) \<and> (tk_reserved tk \<longleftrightarrow> has_reservation (st_ledger st) (tk_attempt tk)))"

lemma dispatched_member:
  "is_dispatched rows attempt \<Longrightarrow> \<exists>r\<in>set rows. sr_attempt r = attempt \<and> sr_state r = Dispatched"
  by (auto simp: is_dispatched_def list_ex_iff)

lemma send_charge_fits:
  assumes "store_inv st" "ticket_for st tk" "is_dispatched (st_settlements st) (tk_attempt tk)"
    and "opt_units (send_charge tk usage) = Inr charged"
  shows "charge_fits st (tk_attempt tk) charged"
    and "(if tk_reserved tk then Some charged else None) =
           (if has_reservation (st_ledger st) (tk_attempt tk) then Some charged else None)"
proof -
  obtain r where r: "r \<in> set (st_settlements st)" "sr_attempt r = tk_attempt tk"
    using dispatched_member[OF assms(3)] by blast
  have has: "tk_reserved tk \<longleftrightarrow> has_reservation (st_ledger st) (tk_attempt tk)"
    using assms(2) r unfolding ticket_for_def by blast
  show "(if tk_reserved tk then Some charged else None) =
           (if has_reservation (st_ledger st) (tk_attempt tk) then Some charged else None)"
    unfolding has ..
  show "charge_fits st (tk_attempt tk) charged"
  proof (cases "tk_reserved tk")
    case False
    then show ?thesis using assms(4) has by (simp add: charge_fits_def send_charge_def opt_units_def)
  next
    case True
    let ?c = "case confirmed_total usage of None \<Rightarrow> tk_cost_bound tk | Some t \<Rightarrow> min t (tk_cost_bound tk)"
    have "charged = Some (uint ?c)"
      using assms(4) True by (auto simp: send_charge_def opt_units_def budget_units_i64_def split: if_splits)
    moreover have "?c \<le> tk_cost_bound tk" by (simp split: option.splits)
    then have "uint ?c \<le> uint (tk_cost_bound tk)" by (simp only: word_le_def)
    ultimately show ?thesis using assms(2) True has unfolding charge_fits_def ticket_for_def by auto
  qed
qed

lemma finish_send_cases:
  assumes "finish_send tk outcome st = (res, st')"
  obtains (refused) e where "res = Inl e" "st' = st"
  | (settled) usage retries charged b where
      "outcome_usage outcome = (usage, retries)" "opt_units (send_charge tk usage) = Inr charged"
      "store_bins (usage_bins_of usage) = Inr b" "is_dispatched (st_settlements st) (tk_attempt tk)"
      "settle_tx (tk_attempt tk) (usage_exactness usage) (unknown_reason (usage_exactness usage) outcome) (uint retries)
         b charged (if tk_reserved tk then Some charged else None) st = Inr st'" "res = Inr ()"
  using assms unfolding finish_send_def
  by (auto split: prod.splits if_splits sum.splits)

lemma finish_send_inv:
  assumes inv: "store_inv st" and tk: "ticket_for st tk"
  shows "store_inv (snd (finish_send tk outcome st))"
proof -
  obtain res st' where post: "finish_send tk outcome st = (res, st')" by (cases "finish_send tk outcome st")
  then have "store_inv st'"
  proof (cases rule: finish_send_cases)
    case (refused e)
    then show ?thesis using inv by simp
  next
    case (settled usage retries charged b)
    note fits = send_charge_fits[OF inv tk settled(4,2)]
    show ?thesis by (rule settle_tx_inv[OF inv settled(4) fits(1) settled(5)[unfolded fits(2)]])
  qed
  then show ?thesis by (simp add: post)
qed

subsection \<open>Interrupted sends\<close>

lemma reservation_is_open_iff:
  assumes inv: "store_inv st" and "is_dispatched (st_settlements st) attempt"
  shows "reservation_is_open (st_ledger st) attempt \<longleftrightarrow> has_reservation (st_ledger st) attempt"
proof -
  obtain r where r: "r \<in> set (st_settlements st)" "sr_attempt r = attempt" "sr_state r = Dispatched"
    using dispatched_member[OF assms(2)] by blast
  have "q \<in> set (reservations (st_ledger st)) \<Longrightarrow> rr_id q = attempt \<Longrightarrow> rr_state q = Reserved" for q
    using store_invD(4)[OF inv r(1)] r(2,3) by (simp add: link_ok_def)
  then show ?thesis by (auto simp: reservation_is_open_def Let_def filter_empty_conv list_all_iff)
qed

lemma settle_tx_total:
  assumes inv: "store_inv st" and disp: "is_dispatched (st_settlements st) attempt"
    and fits: "charge_fits st attempt charged"
    and "i64_fits (add_column (ut_total_tokens (st_totals st)) (sb_total b))"
    and "i64_fits (add_column (ut_charged_units (st_totals st)) charged)"
  shows "\<exists>st'. settle_tx attempt ex reason retries b charged
        (if has_reservation (st_ledger st) attempt then Some charged else None) st = Inr st'"
proof -
  let ?rows = "map (settle_row_of attempt ex reason retries b charged) (st_settlements st)"
  have "\<exists>tot. settle_usage_total (sb_total b) charged (sb_prompt b) attempt ?rows (st_totals st) = Inr tot"
    using assms(4,5) by (simp add: settle_usage_total_def Let_def)
  moreover have "\<exists>l'. resolve_reservation_tx attempt Charged charged False (st_ledger st) = Inr l'"
    if has: "has_reservation (st_ledger st) attempt"
  proof -
    obtain r where r: "r \<in> set (st_settlements st)" "sr_attempt r = attempt" "sr_state r = Dispatched"
      using dispatched_member[OF disp] by blast
    have "resolvable (reservations (st_ledger st)) attempt charged"
      using has fits store_invD(4)[OF inv r(1)] r
      by (auto simp: resolvable_def link_ok_def charge_fits_def split: option.splits)
    then show ?thesis
      using resolve_tx_succeeds[OF store_invD(1)[OF inv], where release = False] by blast
  qed
  ultimately show ?thesis
    by (cases "has_reservation (st_ledger st) attempt") (auto simp del: bex_simps simp: settle_tx_def Let_def)
qed

definition interrupt :: "ledger \<Rightarrow> settlement_row \<Rightarrow> settlement_row" where
  "interrupt l r = settle_row_of (sr_attempt r) UnknownUsage (Some ''interrupted'') 0 stored_bins_none
     (if has_reservation l (sr_attempt r) then Some (sr_cost_bound r) else None) r"

lemma interrupt_sel [simp]:
  "sr_attempt (interrupt l r) = sr_attempt r" "sr_cost_bound (interrupt l r) = sr_cost_bound r"
  "sr_state (interrupt l r) = Settled" "sr_state r = Settled \<Longrightarrow> interrupt l r = r"
  by (cases "sr_state r"; simp add: interrupt_def settle_row_of_def)+

lemma interrupt_cong:
  "(\<And>rid. has_reservation l rid \<longleftrightarrow> has_reservation l' rid) \<Longrightarrow> interrupt l = interrupt l'"
  by (simp add: interrupt_def fun_eq_iff)

lemma settle_usage_total_charged:
  "settle_usage_total tot c p a rows t = Inr t' \<Longrightarrow> ut_charged_units t' = Some (add_column (ut_charged_units t) c)"
  by (auto simp: settle_usage_total_def Let_def split: if_splits)

text \<open>One round of the loop.\<close>

lemma reconcile_step:
  assumes inv: "store_inv st" and disp: "is_dispatched (st_settlements st) a"
    and bound: "\<forall>r\<in>set (st_settlements st). sr_attempt r = a \<longrightarrow> sr_cost_bound r = b" and b: "0 \<le> b"
    and room: "column_sum sr_charged (st_settlements st) + b < 2 ^ 63"
  obtains st1 where
    "\<And>rest n. reconcile_loop ((a, b) # rest) n st = reconcile_loop rest (n + 1) st1" "store_inv st1"
    "st_settlements st1 = map (\<lambda>r. if sr_attempt r = a then interrupt (st_ledger st) r else r) (st_settlements st)"
    "\<And>rid. has_reservation (st_ledger st1) rid \<longleftrightarrow> has_reservation (st_ledger st) rid"
    "column_sum sr_charged (st_settlements st1) \<le> column_sum sr_charged (st_settlements st) + b"
proof -
  let ?charged = "if has_reservation (st_ledger st) a then Some b else None"
  let ?resolve = "if has_reservation (st_ledger st) a then Some ?charged else None"
  have fits: "charge_fits st a ?charged" using bound b by (auto simp: charge_fits_def)
  note tot = store_invD(3)[OF inv, unfolded totals_ok_def]
  have add: "add_column x c = add_column x None + (case c of None \<Rightarrow> 0 | Some v \<Rightarrow> v)" for x c
    by (simp add: add_column_def split: option.splits)
  have "i64_fits (add_column (ut_total_tokens (st_totals st)) (sb_total stored_bins_none))"
    using tot by (simp add: stored_bins_none_def)
  moreover have "i64_fits (add_column (ut_charged_units (st_totals st)) ?charged)"
    unfolding add[of _ ?charged] using tot room b by (simp add: i64_fits_def)
  ultimately obtain st1 where tx: "settle_tx a UnknownUsage (Some ''interrupted'') 0 stored_bins_none ?charged ?resolve st = Inr st1"
    using settle_tx_total[OF inv disp fits] by blast
  note eff = settle_tx_Inr[OF inv tx]
  have inv1: "store_inv st1" by (rule settle_tx_inv[OF inv disp fits tx])
  have "add_column (ut_charged_units (st_totals st1)) None = add_column (ut_charged_units (st_totals st)) ?charged"
    using settle_usage_total_charged[OF eff(2)] by (simp add: add_column_def)
  then have "column_sum sr_charged (st_settlements st1) \<le> column_sum sr_charged (st_settlements st) + b"
    using store_invD(3)[OF inv1, unfolded totals_ok_def] tot b unfolding add[of _ ?charged] by simp
  moreover have "reconcile_loop ((a, b) # rest) n st = reconcile_loop rest (n + 1) st1" for rest n
    using tx disp reservation_is_open_iff[OF inv disp] by (simp cong: if_cong)
  moreover have "st_settlements st1 = map (\<lambda>r. if sr_attempt r = a then interrupt (st_ledger st) r else r) (st_settlements st)"
    unfolding eff(1) using bound by (auto simp: interrupt_def settle_row_of_def)
  moreover have "has_reservation (st_ledger st1) rid \<longleftrightarrow> has_reservation (st_ledger st) rid" for rid
    by (simp add: eff(3))
  ultimately show thesis using that inv1 by blast
qed

lemma reconcile_loop_closes:
  assumes "store_inv st" "\<forall>r\<in>set (st_settlements st). \<forall>b. (sr_attempt r, b) \<in> set zs \<longrightarrow> sr_cost_bound r = b"
    and "distinct (map fst zs)" "\<forall>(a, b)\<in>set zs. is_dispatched (st_settlements st) a \<and> 0 \<le> b"
    and "column_sum sr_charged (st_settlements st) + sum_list (map snd zs) < 2 ^ 63"
  shows "\<exists>st'. reconcile_loop zs n st = Inr (n + length zs, st') \<and> store_inv st' \<and>
    st_settlements st' =
      map (\<lambda>r. if sr_attempt r \<in> fst ` set zs then interrupt (st_ledger st) r else r) (st_settlements st)"
  using assms
proof (induction zs arbitrary: n st)
  case (Cons z zs)
  obtain a b where z: "z = (a, b)" by (cases z)
  have nonneg: "0 \<le> sum_list (map snd zs)" using Cons.prems(4) by (intro sum_list_nonneg) auto
  obtain st1 where st1: "\<And>rest n. reconcile_loop ((a, b) # rest) n st = reconcile_loop rest (n + 1) st1" "store_inv st1"
    "st_settlements st1 = map (\<lambda>r. if sr_attempt r = a then interrupt (st_ledger st) r else r) (st_settlements st)"
    "\<And>rid. has_reservation (st_ledger st1) rid \<longleftrightarrow> has_reservation (st_ledger st) rid"
    "column_sum sr_charged (st_settlements st1) \<le> column_sum sr_charged (st_settlements st) + b"
    using reconcile_step[OF Cons.prems(1), of a b] Cons.prems(2,4,5) nonneg unfolding z by auto
  have disp: "is_dispatched (st_settlements st1) x" if "(x, y) \<in> set zs" for x y
  proof -
    have "x \<noteq> a" using Cons.prems(3) that by (force simp: z)
    moreover have "is_dispatched (st_settlements st) x" using Cons.prems(4) that by auto
    ultimately show ?thesis by (auto simp: is_dispatched_def list_ex_iff st1(3))
  qed
  have bounds: "\<forall>r\<in>set (st_settlements st1). \<forall>c. (sr_attempt r, c) \<in> set zs \<longrightarrow> sr_cost_bound r = c"
    using Cons.prems(2) unfolding st1(3) by auto
  have pairs: "\<forall>(x, y)\<in>set zs. is_dispatched (st_settlements st1) x \<and> 0 \<le> y"
    using disp Cons.prems(4) by auto
  have room: "column_sum sr_charged (st_settlements st1) + sum_list (map snd zs) < 2 ^ 63"
    using st1(5) Cons.prems(5) by (simp add: z)
  have "distinct (map fst zs)" using Cons.prems(3) by simp
  from Cons.IH[OF st1(2) bounds this pairs room, of "n + 1"]
  obtain st' where st': "reconcile_loop zs (n + 1) st1 = Inr (n + 1 + length zs, st')" "store_inv st'"
    "st_settlements st' =
      map (\<lambda>r. if sr_attempt r \<in> fst ` set zs then interrupt (st_ledger st1) r else r) (st_settlements st1)"
    by blast
  have "interrupt (st_ledger st1) = interrupt (st_ledger st)" by (rule interrupt_cong) (rule st1(4))
  moreover have "a \<notin> fst ` set zs" using Cons.prems(3) by (simp add: z)
  ultimately have "st_settlements st' =
      map (\<lambda>r. if sr_attempt r \<in> fst ` set (z # zs) then interrupt (st_ledger st) r else r) (st_settlements st)"
    unfolding st'(3) st1(3) by (auto simp: z)
  then show ?case using st'(1,2) st1(1) by (simp add: z)
qed (simp add: map_idI)

end
