(* ===== verification/Send_Theorems.thy ===== *)
theory Send_Theorems
  imports Send_Props
begin

text \<open>
  What the send ledger promises over every sequence of its operations: totals that are the aggregate
  of the rows, exactly one settlement per attempt, charges within the frozen bound, and a
  reconciliation that closes every interrupted send.
\<close>

subsection \<open>Rows only grow and settled rows never change\<close>

definition rows_extend :: "store \<Rightarrow> store \<Rightarrow> bool" where
  "rows_extend st st' \<longleftrightarrow> (\<forall>r\<in>set (st_settlements st). \<exists>r'\<in>set (st_settlements st').
     sr_attempt r' = sr_attempt r \<and> sr_cost_bound r' = sr_cost_bound r \<and> (sr_state r = Settled \<longrightarrow> r' = r)) \<and>
     (\<forall>r\<in>set (st_settlements st). has_reservation (st_ledger st') (sr_attempt r) = has_reservation (st_ledger st) (sr_attempt r))"

lemma rows_extend_same:
  "st_settlements st' = st_settlements st \<Longrightarrow> reservations (st_ledger st') = reservations (st_ledger st) \<Longrightarrow>
     rows_extend st st'"
  by (auto simp: rows_extend_def)

lemma rows_extend_trans:
  assumes "rows_extend a b" "rows_extend b c"
  shows "rows_extend a c"
  unfolding rows_extend_def
proof (intro conjI ballI)
  fix r assume r: "r \<in> set (st_settlements a)"
  then obtain r' where r': "r' \<in> set (st_settlements b)" "sr_attempt r' = sr_attempt r"
    "sr_cost_bound r' = sr_cost_bound r" "sr_state r = Settled \<longrightarrow> r' = r"
    using assms(1) unfolding rows_extend_def by blast
  then obtain r'' where "r'' \<in> set (st_settlements c)" "sr_attempt r'' = sr_attempt r'"
    "sr_cost_bound r'' = sr_cost_bound r'" "sr_state r' = Settled \<longrightarrow> r'' = r'"
    using assms(2) unfolding rows_extend_def by blast
  then show "\<exists>r'\<in>set (st_settlements c). sr_attempt r' = sr_attempt r \<and> sr_cost_bound r' = sr_cost_bound r \<and>
      (sr_state r = Settled \<longrightarrow> r' = r)"
    using r' by auto
  have "has_reservation (st_ledger c) (sr_attempt r') = has_reservation (st_ledger b) (sr_attempt r')"
    using assms(2) r'(1) unfolding rows_extend_def by blast
  moreover have "has_reservation (st_ledger b) (sr_attempt r) = has_reservation (st_ledger a) (sr_attempt r)"
    using assms(1) r unfolding rows_extend_def by blast
  ultimately show "has_reservation (st_ledger c) (sr_attempt r) = has_reservation (st_ledger a) (sr_attempt r)"
    unfolding r'(2) by simp
qed

lemma settle_tx_extends:
  assumes "store_inv st" "settle_tx attempt ex reason retries b charged
        (if has_reservation (st_ledger st) attempt then Some charged else None) st = Inr st'"
  shows "rows_extend st st'"
proof -
  note eff = settle_tx_Inr(1,3)[OF assms]
  have "settle_row_of attempt ex reason retries b charged r \<in> set (st_settlements st')"
    if "r \<in> set (st_settlements st)" for r
    using that unfolding eff by simp
  moreover have "sr_state r = Settled \<Longrightarrow> settle_row_of attempt ex reason retries b charged r = r" for r
    by (simp add: settle_row_of_def)
  moreover have "has_reservation (st_ledger st') rid = has_reservation (st_ledger st) rid" for rid
    by (simp add: eff(2))
  ultimately show ?thesis unfolding rows_extend_def by (metis settle_row_of_sel(2,3))
qed

lemma reconcile_loop_inv:
  "store_inv st \<Longrightarrow> \<forall>r\<in>set (st_settlements st). \<forall>b. (sr_attempt r, b) \<in> set zs \<longrightarrow> sr_cost_bound r = b \<Longrightarrow>
   reconcile_loop zs n st = Inr (m, st') \<Longrightarrow> store_inv st' \<and> rows_extend st st'"
proof (induction zs arbitrary: n st)
  case (Cons z zs)
  obtain a b where z: "z = (a, b)" by (cases z)
  show ?case
  proof (cases "is_dispatched (st_settlements st) a")
    case False
    then show ?thesis using Cons.IH[OF Cons.prems(1)] Cons.prems(2,3) by (simp add: z)
  next
    case True
    let ?charged = "if has_reservation (st_ledger st) a then Some b else None"
    obtain r where r: "r \<in> set (st_settlements st)" "sr_attempt r = a" using dispatched_member[OF True] by blast
    have bound: "\<forall>r\<in>set (st_settlements st). sr_attempt r = a \<longrightarrow> sr_cost_bound r = b"
      using Cons.prems(2) by (auto simp: z)
    then have "0 \<le> b" using store_invD(4)[OF Cons.prems(1) r(1)] r by (auto simp: link_ok_def)
    then have fits: "charge_fits st a ?charged" using bound by (auto simp: charge_fits_def)
    obtain st1 where tx: "settle_tx a UnknownUsage (Some ''interrupted'') 0 stored_bins_none ?charged
        (if has_reservation (st_ledger st) a then Some ?charged else None) st = Inr st1"
      and rest: "reconcile_loop zs (n + 1) st1 = Inr (m, st')"
      using Cons.prems(3) True reservation_is_open_iff[OF Cons.prems(1) True]
      by (auto simp: z Let_def split: sum.splits cong: if_cong)
    note eff = settle_tx_Inr(1)[OF Cons.prems(1) tx]
    have "\<forall>r\<in>set (st_settlements st1). \<forall>b. (sr_attempt r, b) \<in> set zs \<longrightarrow> sr_cost_bound r = b"
      using Cons.prems(2) unfolding eff by (auto simp: z)
    from Cons.IH[OF settle_tx_inv[OF Cons.prems(1) True fits tx] this rest]
    show ?thesis using rows_extend_trans[OF settle_tx_extends[OF Cons.prems(1) tx]] by blast
  qed
qed (simp add: rows_extend_same)

subsection \<open>Steps\<close>

lemma interrupted_bounds:
  assumes "store_inv st"
  shows "\<forall>r\<in>set (st_settlements st). \<forall>b. (sr_attempt r, b) \<in> set (interrupted_sends st) \<longrightarrow> sr_cost_bound r = b"
  using store_invD(2)[OF assms] unfolding interrupted_sends_def rows_ok_def
  by (auto dest!: inj_onD simp: distinct_map)

lemma reconcile_sends_inv:
  "store_inv st \<Longrightarrow> store_inv (snd (reconcile_sends st)) \<and> rows_extend st (snd (reconcile_sends st))"
  using reconcile_loop_inv[OF _ interrupted_bounds]
  by (auto simp: reconcile_sends_def rows_extend_same split: sum.splits)

text \<open>
  The steps of the send ledger. A reservation of a send is held under the attempt id of that send and is
  resolved by the send's own operations. The public \<open>budget_reserve\<close>, \<open>budget_charge\<close> and \<open>budget_release\<close>,
  which a caller may use under ids of its own, are steps of \<open>Budget_Theorems\<close> and not of this relation: the
  equations between rows and scopes below are those of a ledger that only sends draw on.
\<close>

inductive store_step :: "store \<Rightarrow> store \<Rightarrow> bool" where
  store_scope: "store_step st (st\<lparr>st_ledger := snd (open_budget scope limit (st_ledger st))\<rparr>)"
| store_task: "store_step st (st\<lparr>st_tasks := task # st_tasks st\<rparr>)"
| store_open_work: "store_step st (snd (open_work_budget task deadline sends units st))"
| store_stop_work: "store_step st (snd (stop_work_budget task reason st))"
| store_begin: "store_step st (snd (begin_send scopes ctx attempt cost_bound st))"
| store_finish: "ticket_for st tk \<Longrightarrow> store_step st (snd (finish_send tk result st))"
| store_reconcile: "store_step st (snd (reconcile_sends st))"

lemma store_step_inv: "store_step st st' \<Longrightarrow> store_inv st \<Longrightarrow> store_inv st'"
proof (erule store_step.cases, goal_cases)
  case (2 st0 task)
  then show ?case by (simp add: store_inv_def work_ok_def)
qed (simp_all add: open_ledger_inv open_work_budget_inv stop_work_budget_inv begin_send_inv finish_send_inv
    reconcile_sends_inv)

interpretation sl: state_machine "\<lambda>st. \<exists>tasks. st = store_new tasks" store_step store_inv
  by unfold_locales (auto simp: store_new_inv store_step_inv)

definition store_reachable :: "store \<Rightarrow> bool" where
  "store_reachable st \<longleftrightarrow> (\<exists>tasks. store_step\<^sup>*\<^sup>* (store_new tasks) st)"

lemma store_reachable_inv: "store_reachable st \<Longrightarrow> store_inv st"
  unfolding store_reachable_def using sl.run_inv by blast

lemma begin_send_extends:
  assumes inv: "store_inv st" and post: "begin_send scopes ctx attempt cost_bound st = (res, st')"
  shows "rows_extend st st'"
  using post
proof (cases rule: begin_send_cases)
  case (refused e)
  then show ?thesis by (simp add: rows_extend_same)
next
  case (sent l' rowid tot)
  have res: "reservations l' = reservations (st_ledger st) @
      map (fresh_row attempt (uint cost_bound)) (open_scopes (budget_scopes_table (st_ledger st)) scopes [])"
    using reserve_scopes_effect[OF sent(5)] by blast
  show ?thesis using sent(3) unfolding rows_extend_def sent(7) by (auto simp: res)
qed

lemma finish_send_extends:
  assumes inv: "store_inv st" and tk: "ticket_for st tk" and post: "finish_send tk result st = (res, st')"
  shows "rows_extend st st'"
  using post
proof (cases rule: finish_send_cases)
  case (refused e)
  then show ?thesis by (simp add: rows_extend_same)
next
  case (settled usage retries charged b)
  show ?thesis
    by (rule settle_tx_extends[OF inv settled(5)[unfolded send_charge_fits(2)[OF inv tk settled(4,2)]]])
qed

lemma store_step_extends: "store_inv st \<Longrightarrow> store_step st st' \<Longrightarrow> rows_extend st st'"
proof (erule store_step.cases, goal_cases)
  case (1 st0 scope limit)
  then show ?case by (intro rows_extend_same) (simp_all add: open_budget_def split: sum.splits)
next
  case (3 st0 task deadline sends units)
  have "reservations (snd (open_budget task units (st_ledger st0))) = reservations (st_ledger st0)"
    by (simp add: open_budget_def split: sum.splits)
  then show ?case using 3 open_work_budget_ledger[of task deadline sends units st0]
    by (intro rows_extend_same) auto
next
  case (4 st0 task reason)
  then show ?case using stop_work_budget_post[of task reason st0] by (intro rows_extend_same) auto
next
  case (5 st0 scopes ctx attempt cost_bound)
  then show ?case using begin_send_extends[OF _ surjective_pairing] by simp
next
  case (6 st0 tk result)
  then show ?case using finish_send_extends[OF _ _ surjective_pairing] by simp
next
  case (7 st0)
  then show ?case using reconcile_sends_inv by simp
qed (simp add: rows_extend_same)

lemma run_extends: "store_step\<^sup>*\<^sup>* st st' \<Longrightarrow> store_inv st \<Longrightarrow> rows_extend st st'"
  by (rule sl.run_mono[where R = rows_extend])
    (auto intro: rows_extend_same rows_extend_trans store_step_extends)

subsection \<open>Theorems\<close>

text \<open>
  C10. The totals row, which every dispatch and settle updates in place, always reads as the totals
  recomputed from the settlement rows: in every reachable store the status projection of the
  incremental row is that of the backfill statement.
\<close>

theorem totals_are_aggregate:
  assumes "store_reachable st"
  shows "totals_view (st_totals st) = totals_view (usage_totals_backfill (st_settlements st))"
  using totals_view_ok store_invD(3)[OF store_reachable_inv[OF assms]] .

text \<open>
  C9. Every charge stays within its frozen bound and matches the ledger: in a reachable store a
  dispatched attempt holds its bound, still reserved, at each of its scopes, and a settled one is
  charged at each of its scopes exactly the units its row records, at most the bound, with units
  recorded exactly when something was held.
\<close>

theorem send_charge_within_bound:
  assumes "store_reachable st" "r \<in> set (st_settlements st)"
  shows "(\<forall>q\<in>set (reservations (st_ledger st)). rr_id q = sr_attempt r \<longrightarrow> rr_bound q = sr_cost_bound r \<and>
      (case sr_state r of
         Dispatched \<Rightarrow> rr_state q = Reserved
       | Settled \<Rightarrow> rr_state q = Charged \<and> rr_charged q = sr_charged r)) \<and>
    (sr_state r = Settled \<longrightarrow> (sr_charged r \<noteq> None \<longleftrightarrow> has_reservation (st_ledger st) (sr_attempt r)) \<and>
      (\<forall>c. sr_charged r = Some c \<longrightarrow> 0 \<le> c \<and> c \<le> sr_cost_bound r))"
  using store_invD(4)[OF store_reachable_inv[OF assms(1)] assms(2)] unfolding link_ok_def by blast

text \<open>
  C29. An attempt settles once: after a send's settlement succeeded, at every later point its row is
  the same, a further settle of the ticket is refused and changes nothing, and the attempt can not be
  begun again.
\<close>

theorem send_settles_once:
  assumes "store_reachable st" "ticket_for st tk" "finish_send tk result st = (Inr (), st1)"
    and "store_step\<^sup>*\<^sup>* st1 st2"
  shows "(\<forall>r\<in>set (st_settlements st1). sr_attempt r = tk_attempt tk \<longrightarrow> sr_state r = Settled \<and> r \<in> set (st_settlements st2)) \<and>
    (\<exists>e. finish_send tk result' st2 = (Inl e, st2)) \<and>
    (\<exists>e. begin_send scopes ctx (tk_attempt tk) cost_bound st2 = (Inl e, st2))"
proof -
  note inv = store_reachable_inv[OF assms(1)]
  obtain usage and retries :: u32 and charged b where tx:
    "is_dispatched (st_settlements st) (tk_attempt tk)" "opt_units (send_charge tk usage) = Inr charged"
    "settle_tx (tk_attempt tk) (usage_exactness usage) (unknown_reason (usage_exactness usage) result) (uint retries)
       b charged (if tk_reserved tk then Some charged else None) st = Inr st1"
    using assms(3) by (cases rule: finish_send_cases) auto
  note fits = send_charge_fits[OF inv assms(2) tx(1,2)]
  note eff = settle_tx_Inr(1)[OF inv tx(3)[unfolded fits(2)]]
  have inv1: "store_inv st1" by (rule settle_tx_inv[OF inv tx(1) fits(1) tx(3)[unfolded fits(2)]])
  have inv2: "store_inv st2" by (rule sl.run_keeps[OF assms(4) inv1])
  have settled1: "sr_state r = Settled" if "r \<in> set (st_settlements st1)" "sr_attempt r = tk_attempt tk" for r
    using that unfolding eff by (cases "sr_state r") (auto simp: settle_row_of_def split: if_splits)
  have kept: "r \<in> set (st_settlements st2)" if "r \<in> set (st_settlements st1)" "sr_attempt r = tk_attempt tk" for r
    using run_extends[OF assms(4) inv1] settled1[OF that] that unfolding rows_extend_def by metis
  obtain r where r: "r \<in> set (st_settlements st1)" "sr_attempt r = tk_attempt tk"
    using dispatched_member[OF tx(1)] unfolding eff by force
  have rows2: "r' = r" if "r' \<in> set (st_settlements st2)" "sr_attempt r' = tk_attempt tk" for r'
    using store_invD(2)[OF inv2] that kept[OF r] r(2) unfolding rows_ok_def distinct_map by (metis inj_onD)
  have "\<not> is_dispatched (st_settlements st2) (tk_attempt tk)"
    using rows2 settled1[OF r] dispatched_member by fastforce
  then have "\<exists>e. finish_send tk result' st2 = (Inl e, st2)"
    by (auto simp: finish_send_def split: prod.splits sum.splits)
  moreover have "list_ex (\<lambda>r. sr_attempt r = tk_attempt tk) (st_settlements st2)"
    using kept[OF r] r(2) by (auto simp: list_ex_iff)
  then have "\<exists>e. begin_send scopes ctx (tk_attempt tk) cost_bound st2 = (Inl e, st2)"
    by (auto simp: begin_send_def split: sum.splits)
  ultimately show ?thesis using settled1 kept by blast
qed

text \<open>
  C30. Reconciliation closes every interrupted send: on a reachable store whose charged total has room
  for the open bounds, it succeeds, reports the number of dispatched rows, settles each of them as
  unknown with its whole bound charged where units were held, and leaves no row dispatched and no
  settled row changed.
\<close>

theorem reconcile_closes_all:
  assumes "store_reachable st"
    and "column_sum sr_charged (st_settlements st) +
      (\<Sum>r\<leftarrow>filter (\<lambda>r. sr_state r = Dispatched) (st_settlements st). sr_cost_bound r) < 2 ^ 63"
  shows "\<exists>st'. reconcile_sends st = (Inr (nat (dispatched_count (st_settlements st))), st') \<and>
    st_settlements st' = map (interrupt (st_ledger st)) (st_settlements st) \<and>
    dispatched_count (st_settlements st') = 0"
proof -
  let ?rows = "st_settlements st" and ?zs = "interrupted_sends st"
  note inv = store_reachable_inv[OF assms(1)]
  have zs: "?zs = map (\<lambda>r. (sr_attempt r, sr_cost_bound r)) (filter (\<lambda>r. sr_state r = Dispatched) ?rows)"
    unfolding interrupted_sends_def
    using filter_sort[of "\<lambda>r. sr_state r = Dispatched" sr_rowid ?rows] rows_ok_sorted[OF store_invD(2)[OF inv]]
    by metis
  have "distinct (map fst ?zs)"
    using store_invD(2)[OF inv] unfolding zs rows_ok_def by (simp add: comp_def distinct_map_filter)
  moreover have "\<forall>(a, b)\<in>set ?zs. is_dispatched ?rows a \<and> 0 \<le> b"
    using store_invD(4)[OF inv] unfolding zs by (auto simp: is_dispatched_def list_ex_iff link_ok_def)
  moreover have "column_sum sr_charged ?rows + sum_list (map snd ?zs) < 2 ^ 63"
    using assms(2) unfolding zs by (simp add: comp_def)
  ultimately obtain st' where st': "reconcile_loop ?zs 0 st = Inr (length ?zs, st')"
    "st_settlements st' = map (\<lambda>r. if sr_attempt r \<in> fst ` set ?zs then interrupt (st_ledger st) r else r) ?rows"
    using reconcile_loop_closes[OF inv interrupted_bounds[OF inv], of 0] by auto
  have "(if sr_attempt r \<in> fst ` set ?zs then interrupt (st_ledger st) r else r) = interrupt (st_ledger st) r"
    if "r \<in> set ?rows" for r
    using that by (cases "sr_state r") (auto simp: zs image_iff)
  then have rows': "st_settlements st' = map (interrupt (st_ledger st)) ?rows" unfolding st'(2) by simp
  have "length ?zs = nat (dispatched_count ?rows)" by (simp add: zs dispatched_count_def)
  moreover have "dispatched_count (map (interrupt (st_ledger st)) ?rows) = 0"
    by (simp add: dispatched_count_def filter_empty_conv)
  ultimately show ?thesis using st'(1) rows' by (simp add: reconcile_sends_def)
qed

lemma send_bound_refusal_None:
  "send_bound_refusal st ss = None \<Longrightarrow> s \<in> set ss \<Longrightarrow> st_work st s = Some w \<Longrightarrow> w_state w = WorkOpen \<Longrightarrow>
     int (settled_sends st s) < w_send_bound w"
  by (induction ss) (auto split: option.splits if_splits)

lemma begin_send_ticket:
  assumes inv: "store_inv st" and "begin_send scopes ctx attempt cost_bound st = (Inr tk, st')"
  shows "ticket_for st' tk \<and> is_dispatched (st_settlements st') (tk_attempt tk)"
  using assms(2)
proof (cases rule: begin_send_cases)
  case (sent l' rowid tot)
  let ?open = "open_scopes (budget_scopes_table (st_ledger st)) scopes []"
  have "\<forall>q\<in>set (reservations (st_ledger st)). rr_id q \<noteq> attempt"
    using store_invD(5)[OF inv] sent(3) unfolding owned_def by metis
  moreover have "reservations l' = reservations (st_ledger st) @ map (fresh_row attempt (uint cost_bound)) ?open"
    using reserve_scopes_effect[OF sent(5)] by blast
  ultimately have "has_reservation l' attempt \<longleftrightarrow> ?open \<noteq> []" by (cases ?open) auto
  then show ?thesis using sent(1,3) unfolding sent(7) ticket_for_def is_dispatched_def by auto
qed simp

text \<open>
  The send bound holds at dispatch: a send is begun only if every scope it draws from that has an
  open worker has settled fewer sends than the worker's bound; then it holds its cost bound at exactly
  the opened scopes among those named, and its ticket is good for the row it dispatched.
\<close>

theorem send_bound_enforced:
  assumes "store_reachable st" "begin_send scopes ctx attempt cost_bound st = (Inr tk, st')"
  shows "(\<forall>s w. s \<in> set scopes \<longrightarrow> budget_scopes_table (st_ledger st) s \<noteq> None \<longrightarrow> st_work st s = Some w \<longrightarrow>
      w_state w = WorkOpen \<longrightarrow> int (settled_sends st s) < w_send_bound w) \<and>
    (\<forall>s. budget_scopes_table (st_ledger st') s =
      (if s \<in> set scopes then map_option (settle_row 0 (- uint cost_bound)) (budget_scopes_table (st_ledger st) s)
       else budget_scopes_table (st_ledger st) s)) \<and>
    ticket_for st' tk \<and> is_dispatched (st_settlements st') (tk_attempt tk)"
proof -
  note ticket = begin_send_ticket[OF store_reachable_inv[OF assms(1)] assms(2)]
  show ?thesis
    using assms(2)
  proof (cases rule: begin_send_cases)
    case (sent l' rowid tot)
    let ?open = "open_scopes (budget_scopes_table (st_ledger st)) scopes []"
    have opened: "set ?open = {s \<in> set scopes. budget_scopes_table (st_ledger st) s \<noteq> None}"
      using open_scopes_spec[of "[]"] by simp
    have "budget_scopes_table l' s =
        (if s \<in> set scopes then map_option (settle_row 0 (- uint cost_bound)) (budget_scopes_table (st_ledger st) s)
         else budget_scopes_table (st_ledger st) s)" for s
    proof -
      have "budget_scopes_table l' s = (if s \<in> set ?open
          then map_option (settle_row 0 (- uint cost_bound)) (budget_scopes_table (st_ledger st) s)
          else budget_scopes_table (st_ledger st) s)"
        using reserve_scopes_effect[OF sent(5)] by blast
      then show ?thesis unfolding opened by (cases "budget_scopes_table (st_ledger st) s") auto
    qed
    moreover have "s \<in> set ?open" if "s \<in> set scopes" "budget_scopes_table (st_ledger st) s \<noteq> None" for s
      using that opened by blast
    ultimately show ?thesis using send_bound_refusal_None[OF sent(4)] ticket unfolding sent(7) by simp
  qed simp
qed

subsection \<open>Witnesses\<close>

definition demo_worker :: store where
  "demo_worker = snd (open_work_budget ''t'' 100 2 10 (store_new [''t'']))"

abbreviation demo_ctx :: send_context where
  "demo_ctx \<equiv> \<lparr>sc_purpose = ''p'', sc_connection = ''c'', sc_parent = None, sc_basis = None\<rparr>"

definition demo_sent :: store where
  "demo_sent = snd (begin_send [''t'', ''u''] demo_ctx ''a1'' 4 demo_worker)"

abbreviation demo_ticket :: send_ticket where
  "demo_ticket \<equiv> \<lparr>tk_attempt = ''a1'', tk_cost_bound = 4, tk_reserved = True\<rparr>"

definition demo_settled :: store where
  "demo_settled = snd (finish_send demo_ticket (SendSettled (UsageExact 2 1 3) 0) demo_sent)"

lemma store_reachable_step: "store_reachable st \<Longrightarrow> store_step st st' \<Longrightarrow> store_reachable st'"
  unfolding store_reachable_def by (meson rtranclp.rtrancl_into_rtrancl)

lemma demo_worker_reachable: "store_reachable demo_worker"
proof -
  have "store_reachable (store_new [''t''])" unfolding store_reachable_def by blast
  then show ?thesis unfolding demo_worker_def by (rule store_reachable_step[OF _ store_open_work])
qed

lemma demo_sent_reachable: "store_reachable demo_sent"
  unfolding demo_sent_def by (rule store_reachable_step[OF demo_worker_reachable store_begin])

lemma demo_worker_eq:
  "demo_worker = \<lparr>st_ledger = \<lparr>budget_scopes_table = [''t'' \<mapsto> \<lparr>limit_units = 10, spent = 0, reserved = 0\<rparr>],
      reservations = []\<rparr>, st_tasks = [''t''],
    st_work = [''t'' \<mapsto> \<lparr>w_deadline = 100, w_send_bound = 2, w_state = WorkOpen, w_reason = None\<rparr>],
    st_settlements = [], st_totals = usage_totals_backfill []\<rparr>"
  by (simp add: demo_worker_def open_work_budget_def work_bound_i64_def store_new_def ledger_empty_def
      work_budget_on_def unsigned_def Let_def)

lemma demo_begin: "begin_send [''t'', ''u''] demo_ctx ''a1'' 4 demo_worker = (Inr demo_ticket, demo_sent)"
proof -
  have "fst (begin_send [''t'', ''u''] demo_ctx ''a1'' 4 demo_worker) = Inr demo_ticket"
    by (simp add: demo_worker_eq begin_send_def budget_units_i64_def settled_sends_def reserve_scopes_rules
        fits_def recorded_def next_settlement_rowid_def Let_def max_rowid_def)
  then show ?thesis by (simp add: demo_sent_def prod_eq_iff)
qed

lemma demo_sent_rows:
  "st_settlements demo_sent = [dispatched_row 1 ''a1'' demo_ctx 4]"
  "reservations (st_ledger demo_sent) = [fresh_row ''a1'' 4 ''t'']"
  "ut_total_tokens (st_totals demo_sent) = None" "ut_charged_units (st_totals demo_sent) = None"
  unfolding demo_sent_def
  by (simp_all add: demo_worker_eq begin_send_def budget_units_i64_def settled_sends_def reserve_scopes_rules
        fits_def recorded_def next_settlement_rowid_def Let_def max_rowid_def usage_totals_backfill_def)

lemma demo_ticket_for: "ticket_for demo_sent demo_ticket" "is_dispatched (st_settlements demo_sent) ''a1''"
  using begin_send_ticket[OF store_reachable_inv[OF demo_worker_reachable] demo_begin] by simp_all

lemma demo_finish: "finish_send demo_ticket (SendSettled (UsageExact 2 1 3) 0) demo_sent = (Inr (), demo_settled)"
proof -
  let ?b = "\<lparr>sb_prompt = Some 2, sb_completion = Some 1, sb_reasoning = None, sb_cache_read = None,
    sb_cache_write = None, sb_total = Some 3\<rparr>"
  have fits: "charge_fits demo_sent ''a1'' (Some 3)"
    by (simp add: charge_fits_def demo_sent_rows)
  have "\<exists>st'. settle_tx ''a1'' Exact None 0 ?b (Some 3)
      (if has_reservation (st_ledger demo_sent) ''a1'' then Some (Some 3) else None) demo_sent = Inr st'"
    by (rule settle_tx_total[OF store_reachable_inv[OF demo_sent_reachable] demo_ticket_for(2) fits])
      (simp_all add: add_column_def i64_fits_def demo_sent_rows)
  then have "fst (finish_send demo_ticket (SendSettled (UsageExact 2 1 3) 0) demo_sent) = Inr ()"
    using demo_ticket_for(2)
    by (auto simp: finish_send_def send_charge_def opt_units_def budget_units_i64_def store_bins_def
        usage_bins_default_def demo_sent_rows)
  then show ?thesis by (simp add: demo_settled_def prod_eq_iff)
qed

theorem totals_are_aggregate_witness:
  "totals_view (st_totals demo_sent) = totals_view (usage_totals_backfill [dispatched_row 1 ''a1'' demo_ctx 4])"
  using totals_are_aggregate[OF demo_sent_reachable] by (simp add: demo_sent_rows)

theorem send_charge_within_bound_witness:
  "{(rr_bound q, rr_state q) |q. q \<in> set (reservations (st_ledger demo_sent)) \<and> rr_id q = ''a1''} \<subseteq> {(4, Reserved)}"
  using send_charge_within_bound[OF demo_sent_reachable, of "dispatched_row 1 ''a1'' demo_ctx 4"]
  by (auto simp: demo_sent_rows)

theorem send_settles_once_witness:
  "\<exists>e. finish_send demo_ticket (SendFailed 0) demo_settled = (Inl e, demo_settled)"
  using send_settles_once[OF demo_sent_reachable demo_ticket_for(1) demo_finish rtranclp.rtrancl_refl] by blast

theorem reconcile_closes_all_witness:
  "\<exists>st'. reconcile_sends demo_sent = (Inr 1, st') \<and> dispatched_count (st_settlements st') = 0"
  using reconcile_closes_all[OF demo_sent_reachable] by (simp add: demo_sent_rows) blast

theorem send_bound_enforced_witness:
  "int (settled_sends demo_worker ''t'') < 2 \<and>
   budget_scopes_table (st_ledger demo_sent) ''t'' = Some \<lparr>limit_units = 10, spent = 0, reserved = 4\<rparr>"
  using send_bound_enforced[OF demo_worker_reachable demo_begin]
  by (simp add: demo_worker_eq settle_row_def)

end
