(* ===== verification/Output_Stream.thy ===== *)
theory Output_Stream
  imports Rust_Std
begin

text \<open>
  The display projection of external output (\<open>OutputStream\<close> of \<open>src/src/resources.rs\<close>): bytes arrive
  in chunks, complete UTF-8 is decoded, every character is sanitised, and the text is kept up to a
  retention cap. A \<open>char\<close> of the source is a code point, a natural number; \<open>text.len()\<close> counts the
  bytes of its encoding.
\<close>

type_synonym code_point = nat

subsection \<open>Decoding\<close>

text \<open>The code point of a well-formed sequence, and the characters of a valid slice.\<close>

definition utf8_code :: "byte \<Rightarrow> bytes \<Rightarrow> code_point" where
  "utf8_code c cs =
     foldl (\<lambda>acc b. acc * 64 + byte_val b mod 64)
       (if byte_val c < 128 then byte_val c
        else if byte_val c < 224 then byte_val c mod 32
        else if byte_val c < 240 then byte_val c mod 16
        else byte_val c mod 8) cs"

fun utf8_chars :: "bytes \<Rightarrow> code_point list" where
  "utf8_chars [] = []"
| "utf8_chars (c # cs) =
     (let n = snd (utf8_step c cs) - 1 in utf8_code c (take n cs) # utf8_chars (drop n cs))"

text \<open>\<open>Utf8Error::valid_up_to\<close>, and \<open>error_len\<close> at the first ill-formed sequence.\<close>

fun valid_up_to :: "bytes \<Rightarrow> nat" where
  "valid_up_to [] = 0"
| "valid_up_to (c # cs) =
     (case utf8_step c cs of (ok, n) \<Rightarrow> if ok then n + valid_up_to (drop (n - 1) cs) else 0)"

definition error_len :: "byte \<Rightarrow> bytes \<Rightarrow> nat option" where
  "error_len c cs =
     (case utf8_follow c of
        None \<Rightarrow> Some 1
      | Some rs \<Rightarrow> if utf8_matched rs cs = length cs then None else Some (Suc (utf8_matched rs cs)))"

subsection \<open>Sanitising\<close>

definition stripped_ranges :: "(code_point \<times> code_point) list" where
  "stripped_ranges =
     [(0xAD, 0xAD), (0x600, 0x605), (0x61C, 0x61C), (0x6DD, 0x6DD), (0x70F, 0x70F), (0x890, 0x891),
      (0x8E2, 0x8E2), (0x17B4, 0x17B5), (0x180B, 0x180E), (0x200B, 0x200F), (0x202A, 0x202E),
      (0x2060, 0x206F), (0x110BD, 0x110BD), (0x110CD, 0x110CD), (0x13430, 0x1343F),
      (0x1BCA0, 0x1BCA3), (0x1D173, 0x1D17A), (0xFEFF, 0xFEFF), (0xFFF9, 0xFFFB), (0xE0000, 0xE007F)]"

definition is_stripped_format :: "code_point \<Rightarrow> bool" where
  "is_stripped_format ch = list_ex (\<lambda>(lo, hi). lo \<le> ch \<and> ch \<le> hi) stripped_ranges"

text \<open>\<open>char::is_control\<close>: the general category Cc.\<close>

definition is_control :: "code_point \<Rightarrow> bool" where
  "is_control ch \<longleftrightarrow> ch < 0x20 \<or> 0x7F \<le> ch \<and> ch \<le> 0x9F"

definition push_sanitized :: "code_point list \<Rightarrow> code_point \<Rightarrow> code_point list" where
  "push_sanitized out ch =
     (if is_stripped_format ch then out
      else if ch = 10 \<or> \<not> is_control ch then out @ [ch]
      else if ch < 0x20 then out @ [94, ch + 0x40]
      else out @ [0xFFFD])"

definition sanitize_status_cause :: "code_point list \<Rightarrow> code_point list" where
  "sanitize_status_cause cause = foldl push_sanitized [] cause"

text \<open>\<open>String::len\<close>.\<close>

definition utf8_len :: "code_point \<Rightarrow> nat" where
  "utf8_len ch = (if ch < 0x80 then 1 else if ch < 0x800 then 2 else if ch < 0x10000 then 3 else 4)"

definition text_len :: "code_point list \<Rightarrow> nat" where
  "text_len t = sum_list (map utf8_len t)"

subsection \<open>The stream\<close>

datatype output_status =
    Streaming
  | OutComplete
  | OutPartial "code_point list"
  | OutFailed "code_point list"

datatype output_settlement =
    SettleComplete
  | SettlePartial "code_point list"
  | SettleFailed "code_point list"

record output_stream =
  os_pending :: bytes
  os_text :: "code_point list"
  os_truncated :: bool
  os_status :: output_status

definition output_new :: output_stream where
  "output_new = \<lparr>os_pending = [], os_text = [], os_truncated = False, os_status = Streaming\<rparr>"

definition output_retain_bytes :: nat where
  "output_retain_bytes = 64 * 1024"

text \<open>The loop of \<open>append_decoded\<close> on the text and the truncation flag.\<close>

fun append_decoded :: "code_point list \<Rightarrow> code_point list \<times> bool \<Rightarrow> code_point list \<times> bool" where
  "append_decoded [] (text, trunc) = (text, trunc)"
| "append_decoded (ch # chs) (text, trunc) =
     (if text_len text \<ge> output_retain_bytes then (text, True)
      else append_decoded chs (push_sanitized text ch, trunc))"

text \<open>
  The loop of \<open>decode_pending\<close>: the bytes not consumed yet, the text and the flag; it returns the
  bytes left over.
\<close>

lemma error_len_pos: "error_len c cs = Some n \<Longrightarrow> 0 < n"
  by (auto simp: error_len_def split: option.splits if_splits)

function decode_loop ::
  "bool \<Rightarrow> bytes \<Rightarrow> code_point list \<times> bool \<Rightarrow> bytes \<times> code_point list \<times> bool" where
  "decode_loop flush rest st =
     (if rest = [] \<or> snd st then (rest, st)
      else
        (let up = valid_up_to rest
         in case drop up rest of
              [] \<Rightarrow> ([], append_decoded (utf8_chars rest) st)
            | c # cs \<Rightarrow>
                (let st1 = append_decoded (utf8_chars (take up rest)) st
                 in case error_len c cs of
                      Some n \<Rightarrow> decode_loop flush (drop (up + n) rest) (append_decoded [0xFFFD] st1)
                    | None \<Rightarrow> if flush then ([], append_decoded [0xFFFD] st1) else (drop up rest, st1))))"
  by auto
termination
  by (relation "measure (\<lambda>(flush, rest, st). length rest)") (auto dest: error_len_pos)

definition decode_pending :: "bool \<Rightarrow> output_stream \<Rightarrow> output_stream" where
  "decode_pending flush s =
     (case decode_loop flush (os_pending s) (os_text s, os_truncated s) of
        (rest, text, trunc) \<Rightarrow>
          s\<lparr>os_pending := (if trunc then [] else rest), os_text := text, os_truncated := trunc\<rparr>)"

definition push_chunk :: "bytes \<Rightarrow> output_stream \<Rightarrow> output_stream" where
  "push_chunk bs s =
     (if os_truncated s \<or> os_status s \<noteq> Streaming then s
      else decode_pending False (s\<lparr>os_pending := os_pending s @ bs\<rparr>))"

fun settled_status :: "output_settlement \<Rightarrow> output_status" where
  "settled_status SettleComplete = OutComplete"
| "settled_status (SettlePartial cause) = OutPartial cause"
| "settled_status (SettleFailed cause) = OutFailed cause"

definition output_settle :: "output_settlement \<Rightarrow> output_stream \<Rightarrow> output_stream" where
  "output_settle settlement s = (decode_pending True s)\<lparr>os_status := settled_status settlement\<rparr>"

definition output_is_active :: "output_stream \<Rightarrow> bool" where
  "output_is_active s \<longleftrightarrow> os_text s \<noteq> [] \<or> os_status s \<noteq> Streaming"

end
