(* ===== verification/Output_Theorems.thy ===== *)
theory Output_Theorems
  imports Output_Stream
begin

text \<open>
  The output projection does not depend on how the bytes were chunked, its text never holds a control
  character or a stripped format character, and it stays within the retention cap.
\<close>

declare decode_loop.simps [simp del]

subsection \<open>A reference scanner\<close>

text \<open>The characters of a byte sequence, one sequence at a time, and the incomplete tail.\<close>

fun scan :: "bytes \<Rightarrow> code_point list \<times> bytes" where
  "scan [] = ([], [])"
| "scan (c # cs) =
     (let n = snd (utf8_step c cs) - 1
      in if fst (utf8_step c cs)
         then (utf8_code c (take n cs) # fst (scan (drop n cs)), snd (scan (drop n cs)))
         else (case error_len c cs of
                 None \<Rightarrow> ([], c # cs)
               | Some _ \<Rightarrow> (0xFFFD # fst (scan (drop n cs)), snd (scan (drop n cs)))))"

lemma utf8_matched_stop:
  "utf8_matched rs cs < length rs \<Longrightarrow> utf8_matched rs cs < length cs \<Longrightarrow>
     utf8_matched rs (cs @ ds) = utf8_matched rs cs"
  by (induction rs cs rule: utf8_matched.induct) auto

lemma utf8_step_pos: "snd (utf8_step c cs) = Suc (snd (utf8_step c cs) - 1)"
  by (simp add: utf8_step_def split: option.splits)

lemma ill_formed_append:
  assumes "\<not> fst (utf8_step c cs)" "error_len c cs = Some n"
  shows "utf8_step c (cs @ ds) = utf8_step c cs" "error_len c (cs @ ds) = Some n" "n = snd (utf8_step c cs)"
proof -
  have "utf8_step c (cs @ ds) = utf8_step c cs \<and> error_len c (cs @ ds) = Some n \<and> n = snd (utf8_step c cs)"
  proof (cases "utf8_follow c")
    case None
    then show ?thesis using assms by (simp add: utf8_step_def error_len_def)
  next
    case (Some rs)
    then have m: "utf8_matched rs cs < length rs" "utf8_matched rs cs < length cs" "n = Suc (utf8_matched rs cs)"
      using assms utf8_matched_bound[of rs cs] by (auto simp: utf8_step_def error_len_def split: if_splits)
    then show ?thesis using Some utf8_matched_stop[OF m(1,2), of ds] by (simp add: utf8_step_def error_len_def)
  qed
  then show "utf8_step c (cs @ ds) = utf8_step c cs" "error_len c (cs @ ds) = Some n" "n = snd (utf8_step c cs)"
    by simp_all
qed

lemma scan_append:
  "scan (p @ d) = (fst (scan p) @ fst (scan (snd (scan p) @ d)), snd (scan (snd (scan p) @ d)))"
proof (induction p rule: scan.induct)
  case (2 c cs)
  let ?n = "snd (utf8_step c cs) - 1"
  have b: "snd (utf8_step c cs) - Suc (length cs) = 0" using utf8_step_bound[of c cs] by simp
  show ?case
  proof (cases "fst (utf8_step c cs)")
    case True
    then show ?thesis using 2(1)[OF refl True] utf8_step_append[OF True, of d] b by (simp add: Let_def)
  next
    case False
    show ?thesis
    proof (cases "error_len c cs")
      case None
      then show ?thesis using False by (simp add: Let_def)
    next
      case (Some n)
      then show ?thesis
        using 2(3)[OF refl False Some] False b ill_formed_append(1,2)[OF False Some, of d] by (simp add: Let_def)
    qed
  qed
qed simp

lemma scan_valid_prefix:
  "scan rest = (utf8_chars (take (valid_up_to rest) rest) @ fst (scan (drop (valid_up_to rest) rest)),
     snd (scan (drop (valid_up_to rest) rest))) \<and>
   (drop (valid_up_to rest) rest = [] \<longrightarrow> scan rest = (utf8_chars rest, [])) \<and>
   (\<forall>c cs. drop (valid_up_to rest) rest = c # cs \<longrightarrow> \<not> fst (utf8_step c cs))"
proof (induction rest rule: valid_up_to.induct)
  case (2 c cs)
  show ?case
  proof (cases "utf8_step c cs")
    case (Pair ok n)
    show ?thesis
    proof (cases ok)
      case False
      then show ?thesis using Pair by simp
    next
      case True
      obtain m where m: "n = Suc m" using utf8_step_pos[of c cs] Pair by (cases n) auto
      note IH = 2[OF Pair[symmetric] True]
      let ?v = "valid_up_to (drop m cs)"
      have vu: "valid_up_to (c # cs) = Suc (m + ?v)" using Pair True m by simp
      have split: "take (m + ?v) cs = take m cs @ take ?v (drop m cs)" by (simp add: take_add)
      have m_le: "m \<le> length cs" using utf8_step_bound[of c cs] Pair m by simp
      have ok: "fst (utf8_step c (take m cs @ x)) \<and> snd (utf8_step c (take m cs @ x)) = n" for x
      proof -
        have "utf8_valid (c # take m cs)" using utf8_valid_head[of c cs] Pair True m by simp
        then have "fst (utf8_step c (take m cs))" by simp
        moreover have "snd (utf8_step c (take m cs)) = n"
        proof -
          obtain rs where rs: "utf8_follow c = Some rs" "utf8_matched rs cs = length rs" "n = Suc (length rs)"
            using Pair True by (auto simp: utf8_step_def split: option.splits)
          then show ?thesis using utf8_matched_take[OF rs(2)] m by (simp add: utf8_step_def)
        qed
        ultimately show ?thesis using utf8_step_append[of c "take m cs" x] by simp
      qed
      have "drop (Suc (m + ?v)) (c # cs) = drop ?v (drop m cs)" by (simp add: add.commute)
      moreover have "utf8_chars (take (Suc (m + ?v)) (c # cs)) =
          utf8_code c (take m cs) # utf8_chars (take ?v (drop m cs))"
        using ok[of "take ?v (drop m cs)"] m m_le by (simp add: split Let_def)
      moreover have "utf8_chars (c # cs) = utf8_code c (take m cs) # utf8_chars (drop m cs)"
        using Pair m by (simp add: Let_def)
      moreover have "scan (c # cs) = (utf8_code c (take m cs) # fst (scan (drop m cs)), snd (scan (drop m cs)))"
        using Pair True m by (simp add: Let_def)
      ultimately show ?thesis using IH unfolding vu m diff_Suc_1
        by (auto simp del: drop_drop scan.simps utf8_chars.simps)
    qed
  qed
qed simp

subsection \<open>The loop against the scanner\<close>

definition trunc_ok :: "code_point list \<times> bool \<Rightarrow> bool" where
  "trunc_ok st \<longleftrightarrow> (snd st \<longrightarrow> output_retain_bytes \<le> text_len (fst st))"

lemma append_decoded_append: "append_decoded (xs @ ys) st = append_decoded ys (append_decoded xs st)"
proof (induction xs st rule: append_decoded.induct)
  case (2 ch chs t trunc)
  then show ?case by (cases ys) auto
qed simp

lemma append_decoded_trunc_ok: "trunc_ok st \<Longrightarrow> trunc_ok (append_decoded xs st)"
proof (induction xs st rule: append_decoded.induct)
  case (2 ch chs t trunc)
  have "trunc_ok (push_sanitized t ch, trunc)" if "\<not> output_retain_bytes \<le> text_len t"
    using that 2(2) by (auto simp: trunc_ok_def)
  then show ?case using 2(1) by (auto simp: trunc_ok_def)
qed simp

lemma append_decoded_stuck: "trunc_ok st \<Longrightarrow> snd st \<Longrightarrow> append_decoded xs st = st"
  by (cases st; cases xs) (auto simp: trunc_ok_def)

lemma append_decoded_keeps: "snd st \<Longrightarrow> snd (append_decoded xs st)"
  by (induction xs st rule: append_decoded.induct) auto

lemma decode_loop_scan:
  "trunc_ok st \<Longrightarrow> snd (decode_loop False rest st) = append_decoded (fst (scan rest)) st \<and>
     (\<not> snd (snd (decode_loop False rest st)) \<longrightarrow> fst (decode_loop False rest st) = snd (scan rest))"
proof (induction False rest st rule: decode_loop.induct)
  case (1 rest st)
  let ?up = "valid_up_to rest"
  let ?st1 = "append_decoded (utf8_chars (take ?up rest)) st"
  note vp = scan_valid_prefix[of rest]
  show ?case
  proof (cases "rest = [] \<or> snd st")
    case True
    then have "decode_loop False rest st = (rest, st)" by (subst decode_loop.simps) simp
    then show ?thesis using True append_decoded_stuck[OF 1(2)] by (cases st) auto
  next
    case False
    show ?thesis
    proof (cases "drop ?up rest")
      case Nil
      then have "decode_loop False rest st = ([], append_decoded (utf8_chars rest) st)"
        using False by (subst decode_loop.simps) (simp add: Let_def)
      then show ?thesis using Nil vp by simp
    next
      case (Cons c cs)
      then have bad: "\<not> fst (utf8_step c cs)"
        and sc: "scan rest = (utf8_chars (take ?up rest) @ fst (scan (c # cs)), snd (scan (c # cs)))"
        using vp by auto
      have ok1: "trunc_ok ?st1" by (rule append_decoded_trunc_ok[OF 1(2)])
      show ?thesis
      proof (cases "error_len c cs")
        case None
        then have "decode_loop False rest st = (drop ?up rest, ?st1)"
          using False Cons by (subst decode_loop.simps) (simp add: Let_def)
        then show ?thesis using sc bad None Cons by (simp add: Let_def)
      next
        case (Some n)
        have n: "n = snd (utf8_step c cs)" by (rule ill_formed_append(3)[OF bad Some])
        let ?st2 = "append_decoded [0xFFFD] ?st1"
        have step: "decode_loop False rest st = decode_loop False (drop (?up + n) rest) ?st2"
          using False Cons Some by (subst decode_loop.simps) (simp add: Let_def)
        have "drop (?up + n) rest = drop n (c # cs)" using Cons by (metis add.commute drop_drop)
        then have tail: "drop (?up + n) rest = drop (snd (utf8_step c cs) - 1) cs"
          unfolding n by (subst (asm) utf8_step_pos) simp
        have "scan (c # cs) = (0xFFFD # fst (scan (drop (?up + n) rest)), snd (scan (drop (?up + n) rest)))"
          using bad Some unfolding tail by (simp add: Let_def)
        then have chars: "fst (scan rest) = utf8_chars (take ?up rest) @ [0xFFFD] @ fst (scan (drop (?up + n) rest))"
          and left: "snd (scan rest) = snd (scan (drop (?up + n) rest))"
          using sc by simp_all
        show ?thesis unfolding step chars left append_decoded_append
          by (rule 1(1)[OF False refl Cons refl Some append_decoded_trunc_ok[OF ok1]])
      qed
    qed
  qed
qed

subsection \<open>Chunks\<close>

definition stream_holds :: "output_stream \<Rightarrow> bytes \<Rightarrow> bool" where
  "stream_holds s p \<longleftrightarrow> os_status s = Streaming \<and>
     (os_text s, os_truncated s) = append_decoded (fst (scan p)) ([], False) \<and>
     os_pending s = (if os_truncated s then [] else snd (scan p))"

lemma stream_holds_new: "stream_holds output_new []"
  by (simp add: stream_holds_def output_new_def)

lemma stream_holds_unique: "stream_holds s p \<Longrightarrow> stream_holds t p \<Longrightarrow> s = t"
  by (cases s; cases t) (auto simp: stream_holds_def dest: sym)

lemma push_chunk_holds:
  assumes h: "stream_holds s p"
  shows "stream_holds (push_chunk c s) (p @ c)"
proof -
  have absorbed: "append_decoded (fst (scan (p @ c))) ([], False) =
      append_decoded (fst (scan (snd (scan p) @ c))) (os_text s, os_truncated s)"
    using h by (simp add: scan_append[of p c] append_decoded_append stream_holds_def)
  have ok: "trunc_ok (os_text s, os_truncated s)"
    using h append_decoded_trunc_ok[of "([], False)"] by (simp add: stream_holds_def trunc_ok_def)
  show ?thesis
  proof (cases "os_truncated s")
    case True
    then have "append_decoded (fst (scan (snd (scan p) @ c))) (os_text s, os_truncated s) = (os_text s, os_truncated s)"
      by (intro append_decoded_stuck[OF ok]) simp
    then show ?thesis using True h absorbed by (simp add: push_chunk_def stream_holds_def)
  next
    case False
    then have pend: "os_pending s = snd (scan p)" and status: "os_status s = Streaming"
      using h by (simp_all add: stream_holds_def)
    obtain rest t tr where loop: "decode_loop False (snd (scan p) @ c) (os_text s, os_truncated s) = (rest, t, tr)"
      by (cases "decode_loop False (snd (scan p) @ c) (os_text s, os_truncated s)")
    have "append_decoded (fst (scan (p @ c))) ([], False) = (t, tr)" "\<not> tr \<longrightarrow> rest = snd (scan (p @ c))"
      using decode_loop_scan[OF ok, of "snd (scan p) @ c"] absorbed by (simp_all add: loop scan_append[of p c])
    then show ?thesis
      using False status loop by (simp add: push_chunk_def decode_pending_def pend stream_holds_def)
  qed
qed

lemma fold_push_holds: "stream_holds s p \<Longrightarrow> stream_holds (fold push_chunk cs s) (p @ concat cs)"
  by (induction cs arbitrary: s p) (auto dest: push_chunk_holds[of s p c for s p c] simp flip: append_assoc)

text \<open>
  Chunk boundaries do not matter: pushing the chunks of an output one after another leaves the
  stream in exactly the state that pushing all their bytes at once does, text, truncation and pending
  tail, whatever byte sequences the boundaries cut.
\<close>

theorem output_chunking:
  "fold push_chunk cs output_new = push_chunk (concat cs) output_new"
  using stream_holds_unique[OF fold_push_holds[OF stream_holds_new, of cs]]
    push_chunk_holds[OF stream_holds_new, of "concat cs"] by simp

subsection \<open>What can be displayed\<close>

definition displayable :: "code_point \<Rightarrow> bool" where
  "displayable ch \<longleftrightarrow> \<not> is_stripped_format ch \<and> (ch = 10 \<or> \<not> is_control ch)"

lemma displayable_push: "list_all displayable out \<Longrightarrow> list_all displayable (push_sanitized out ch)"
  by (auto simp: push_sanitized_def displayable_def is_control_def is_stripped_format_def stripped_ranges_def)

lemma utf8_len_bound: "utf8_len ch \<le> 4"
  by (simp add: utf8_len_def)

lemma text_len_push: "text_len (push_sanitized out ch) \<le> text_len out + 4"
  using utf8_len_bound[of ch] by (auto simp: push_sanitized_def text_len_def) (auto simp: utf8_len_def)

definition text_ok :: "code_point list \<times> bool \<Rightarrow> bool" where
  "text_ok st \<longleftrightarrow> list_all displayable (fst st) \<and> text_len (fst st) \<le> output_retain_bytes + 3 \<and> trunc_ok st"

lemma append_decoded_ok: "text_ok st \<Longrightarrow> text_ok (append_decoded chs st)"
proof (induction chs st rule: append_decoded.induct)
  case (2 ch chs t trunc)
  show ?case
  proof (cases "output_retain_bytes \<le> text_len t")
    case True
    then show ?thesis using 2(2) by (simp add: text_ok_def trunc_ok_def)
  next
    case False
    then have "text_ok (push_sanitized t ch, trunc)"
      using 2(2) displayable_push[of t ch] text_len_push[of t ch] by (auto simp: text_ok_def trunc_ok_def)
    then show ?thesis using 2(1) False by simp
  qed
qed simp

lemma decode_loop_ok: "text_ok st \<Longrightarrow> text_ok (snd (decode_loop flush rest st))"
proof (induction flush rest st rule: decode_loop.induct)
  case (1 flush rest st)
  show ?case
  proof (cases "rest = [] \<or> snd st \<or> drop (valid_up_to rest) rest = []")
    case True
    then show ?thesis
      using 1(2) append_decoded_ok[OF 1(2)] by (subst decode_loop.simps) (auto simp: Let_def split: list.splits)
  next
    case False
    then obtain c cs where c: "drop (valid_up_to rest) rest = c # cs" by (cases "drop (valid_up_to rest) rest") auto
    let ?st1 = "append_decoded (utf8_chars (take (valid_up_to rest) rest)) st"
    have ok: "text_ok ?st1" "text_ok (append_decoded [0xFFFD] ?st1)"
      by (rule append_decoded_ok[OF 1(2)], rule append_decoded_ok[OF append_decoded_ok[OF 1(2)]])
    show ?thesis
    proof (cases "error_len c cs")
      case None
      then show ?thesis using False c ok by (subst decode_loop.simps) (simp add: Let_def)
    next
      case (Some n)
      have "decode_loop flush rest st = decode_loop flush (drop (valid_up_to rest + n) rest) (append_decoded [0xFFFD] ?st1)"
        using False c Some by (subst decode_loop.simps) (simp add: Let_def)
      then show ?thesis using 1(1)[OF _ refl c refl Some ok(2)] False by simp
    qed
  qed
qed

datatype output_op = Chunk bytes | Settle output_settlement

fun output_do :: "output_op \<Rightarrow> output_stream \<Rightarrow> output_stream" where
  "output_do (Chunk bs) s = push_chunk bs s"
| "output_do (Settle r) s = output_settle r s"

lemma decode_pending_ok:
  "text_ok (os_text s, os_truncated s) \<Longrightarrow>
     text_ok (os_text (decode_pending flush s), os_truncated (decode_pending flush s))"
  using decode_loop_ok[of "(os_text s, os_truncated s)" flush "os_pending s"]
  by (auto simp: decode_pending_def split: prod.splits)

lemma output_do_ok:
  assumes "text_ok (os_text s, os_truncated s)"
  shows "text_ok (os_text (output_do x s), os_truncated (output_do x s))"
proof (cases x)
  case (Chunk bs)
  then show ?thesis
    using assms decode_pending_ok[of "s\<lparr>os_pending := os_pending s @ bs\<rparr>" False] by (simp add: push_chunk_def)
qed (simp add: output_settle_def decode_pending_ok assms)

lemma output_run_ok:
  "text_ok (os_text s, os_truncated s) \<Longrightarrow>
     text_ok (os_text (fold output_do xs s), os_truncated (fold output_do xs s))"
  by (induction xs arbitrary: s) (simp_all add: output_do_ok)

text \<open>
  Whatever bytes a worker prints, in whatever chunks and however it ends, the display text holds no
  control character but the newline and none of the stripped format characters, stays within the
  retention cap by at most three bytes, and is marked truncated only once the cap was reached.
\<close>

theorem output_display_safe:
  "list_all displayable (os_text (fold output_do xs output_new)) \<and>
   text_len (os_text (fold output_do xs output_new)) \<le> output_retain_bytes + 3 \<and>
   (os_truncated (fold output_do xs output_new) \<longrightarrow>
      output_retain_bytes \<le> text_len (os_text (fold output_do xs output_new)))"
proof -
  have "text_ok (os_text output_new, os_truncated output_new)"
    by (simp add: output_new_def text_ok_def trunc_ok_def text_len_def)
  from output_run_ok[OF this, of xs] show ?thesis by (simp add: text_ok_def trunc_ok_def)
qed

text \<open>
  The escape byte and the C1 introducer of a control sequence are shown as data: \<open>ESC [\<close> becomes a
  caret, a bracket and the bracket that followed, in one chunk or in two.
\<close>

theorem output_display_safe_witness:
  "os_text (fold output_do [Chunk [CHR 0x1B], Chunk ''[m''] output_new) = [94, 0x5B, 0x5B, 0x6D] \<and>
   list_all displayable (os_text (fold output_do [Chunk [CHR 0x1B], Chunk ''[m''] output_new))"
proof
  show "list_all displayable (os_text (fold output_do [Chunk [CHR 0x1B], Chunk ''[m''] output_new))"
    using output_display_safe by blast
  have "fold output_do [Chunk [CHR 0x1B], Chunk ''[m''] output_new = push_chunk [CHR 0x1B, CHR ''['', CHR ''m''] output_new"
    using output_chunking[of "[[CHR 0x1B], ''[m'']"] by simp
  then show "os_text (fold output_do [Chunk [CHR 0x1B], Chunk ''[m''] output_new) = [94, 0x5B, 0x5B, 0x6D]"
    by (simp add: push_chunk_def output_new_def decode_pending_def decode_loop.simps utf8_step_def utf8_follow_def
        byte_val_def utf8_code_def push_sanitized_def is_stripped_format_def stripped_ranges_def is_control_def
        text_len_def utf8_len_def output_retain_bytes_def Let_def)
qed

text \<open>Settling twice replaces the first settlement, so a failed stream can become a complete one.\<close>

lemma settle_overwrites:
  "os_status (output_settle SettleComplete (output_settle (SettleFailed cause) s)) = OutComplete"
  by (simp add: output_settle_def)

end
