(* ===== verification/Read_Flights.thy ===== *)
theory Read_Flights
  imports Policy State_Machine
begin

text \<open>
  The single-flight registry for identical permitted reads (\<open>ReadFlights\<close> of
  \<open>src/src/resources.rs\<close>): reads with the same key merge while their physical read is due, one
  member performs it, and the others share its observation.
\<close>

record read_rights =
  rr_grant_id :: string
  rr_mode :: string

definition read_rights_new :: "string \<Rightarrow> permission_mode \<Rightarrow> read_rights" where
  "read_rights_new gid m = \<lparr>rr_grant_id = gid, rr_mode = mode_id m\<rparr>"

record read_flight_key =
  rf_target :: string
  rf_snapshot :: "u64 \<times> u64"
  rf_scope_root :: string
  rf_rights :: read_rights

record read_observation =
  ro_bytes :: bytes
  ro_digest :: string

record flight =
  fl_members :: "string list"
  fl_observation :: "read_observation option"

datatype flight_role = Leader | Follower

record read_flights =
  rf_flights :: "read_flight_key \<rightharpoonup> flight list"
  rf_by_attempt :: "string \<rightharpoonup> read_flight_key"

definition flights_new :: "read_flights" where
  "flights_new = \<lparr>rf_flights = Map.empty, rf_by_attempt = Map.empty\<rparr>"

definition flights_at :: "read_flights \<Rightarrow> read_flight_key \<Rightarrow> flight list" where
  "flights_at r key = (case rf_flights r key of None \<Rightarrow> [] | Some fs \<Rightarrow> fs)"

definition flight_subscribe ::
  "read_flight_key \<Rightarrow> string \<Rightarrow> read_flights \<Rightarrow> flight_role \<times> read_flights" where
  "flight_subscribe key attempt r =
     (let fs = flights_at r key;
          joins = fs \<noteq> [] \<and> fl_observation (last fs) = None;
          fs' = (if joins then butlast fs @ [(last fs)\<lparr>fl_members := fl_members (last fs) @ [attempt]\<rparr>]
                 else fs @ [\<lparr>fl_members = [attempt], fl_observation = None\<rparr>])
      in (if joins then Follower else Leader,
          r\<lparr>rf_flights := (rf_flights r)(key \<mapsto> fs'), rf_by_attempt := (rf_by_attempt r)(attempt \<mapsto> key)\<rparr>))"

definition flight_role_of :: "read_flights \<Rightarrow> string \<Rightarrow> flight_role option" where
  "flight_role_of r attempt =
     (case rf_by_attempt r attempt of
        None \<Rightarrow> None
      | Some key \<Rightarrow>
          (case rf_flights r key of
             None \<Rightarrow> None
           | Some fs \<Rightarrow>
               (case find (\<lambda>f. attempt \<in> set (fl_members f)) fs of
                  None \<Rightarrow> None
                | Some f \<Rightarrow>
                    if fl_members f \<noteq> [] \<and> hd (fl_members f) = attempt then Some Leader else Some Follower)))"

text \<open>\<open>flight_index_mut\<close>: the attempt's key, the flights there and the position of its own.\<close>

definition flight_index ::
  "read_flights \<Rightarrow> string \<Rightarrow> (read_flight_key \<times> flight list \<times> nat) option" where
  "flight_index r attempt =
     (case rf_by_attempt r attempt of
        None \<Rightarrow> None
      | Some key \<Rightarrow>
          (case rf_flights r key of
             None \<Rightarrow> None
           | Some fs \<Rightarrow>
               (case find (\<lambda>i. attempt \<in> set (fl_members (fs ! i))) [0..<length fs] of
                  None \<Rightarrow> None
                | Some i \<Rightarrow> Some (key, fs, i))))"

text \<open>Drop one member from the flight at an index, and the flight with it when it was the last.\<close>

definition retire_member :: "string \<Rightarrow> nat \<Rightarrow> flight list \<Rightarrow> flight list" where
  "retire_member attempt i fs =
     (let ms = filter (\<lambda>m. m \<noteq> attempt) (fl_members (fs ! i))
      in if ms = [] then take i fs @ drop (Suc i) fs
         else fs[i := (fs ! i)\<lparr>fl_members := ms\<rparr>])"

definition take_shared :: "string \<Rightarrow> read_flights \<Rightarrow> read_observation option \<times> read_flights" where
  "take_shared attempt r =
     (case flight_index r attempt of
        None \<Rightarrow> (None, r)
      | Some (key, fs, i) \<Rightarrow>
          (case fl_observation (fs ! i) of
             None \<Rightarrow> (None, r)
           | Some obs \<Rightarrow>
               (Some obs, r\<lparr>rf_flights := (rf_flights r)(key \<mapsto> retire_member attempt i fs),
                            rf_by_attempt := (rf_by_attempt r)(attempt := None)\<rparr>)))"

definition flight_settle :: "string \<Rightarrow> read_observation \<Rightarrow> read_flights \<Rightarrow> read_flights" where
  "flight_settle attempt obs r =
     (case flight_index r attempt of
        None \<Rightarrow> r
      | Some (key, fs, i) \<Rightarrow>
          (let fs' = fs[i := (fs ! i)\<lparr>fl_observation := Some obs\<rparr>]
           in r\<lparr>rf_flights := (rf_flights r)(key \<mapsto> retire_member attempt i fs'),
                rf_by_attempt := (rf_by_attempt r)(attempt := None)\<rparr>))"

definition drop_member :: "string \<Rightarrow> read_flights \<Rightarrow> read_flights" where
  "drop_member attempt r =
     (case rf_by_attempt r attempt of
        None \<Rightarrow> r
      | Some key \<Rightarrow>
          (case rf_flights r key of
             None \<Rightarrow> r
           | Some fs \<Rightarrow>
               r\<lparr>rf_flights := (rf_flights r)(key \<mapsto> filter (\<lambda>f. fl_members f \<noteq> [])
                    (map (\<lambda>f. f\<lparr>fl_members := filter (\<lambda>m. m \<noteq> attempt) (fl_members f)\<rparr>) fs)),
                 rf_by_attempt := (rf_by_attempt r)(attempt := None)\<rparr>))"

subsection \<open>Invariant\<close>

definition seats :: "flight list \<Rightarrow> string list" where
  "seats fs = concat (map fl_members fs)"

text \<open>
  At every key: each attempt has one seat, no flight is empty, only the newest flight may still wait
  for its read, and the index by attempt names exactly the seats.
\<close>

definition flights_inv :: "read_flights \<Rightarrow> bool" where
  "flights_inv r \<longleftrightarrow> (\<forall>key.
     distinct (seats (flights_at r key)) \<and>
     (\<forall>f\<in>set (flights_at r key). fl_members f \<noteq> []) \<and>
     (\<forall>f\<in>set (butlast (flights_at r key)). fl_observation f \<noteq> None) \<and>
     (\<forall>m. m \<in> set (seats (flights_at r key)) \<longleftrightarrow> rf_by_attempt r m = Some key))"

lemma flights_invD:
  assumes "flights_inv r"
  shows "distinct (seats (flights_at r key))" "f \<in> set (flights_at r key) \<Longrightarrow> fl_members f \<noteq> []"
    "f \<in> set (butlast (flights_at r key)) \<Longrightarrow> fl_observation f \<noteq> None"
    "m \<in> set (seats (flights_at r key)) \<longleftrightarrow> rf_by_attempt r m = Some key"
  using assms unfolding flights_inv_def by blast+

lemma seats_simps [simp]:
  "seats [] = []" "seats (f # fs) = fl_members f @ seats fs" "seats (fs @ gs) = seats fs @ seats gs"
  by (simp_all add: seats_def)

lemma flights_at_upd [simp]:
  "flights_at (r\<lparr>rf_flights := (rf_flights r)(key \<mapsto> fs), rf_by_attempt := b\<rparr>) k = (if k = key then fs else flights_at r k)"
  by (simp add: flights_at_def)

lemma flight_index_split:
  assumes inv: "flights_inv r" and a: "rf_by_attempt r a = Some key"
  obtains xs f ys where "flights_at r key = xs @ f # ys" "a \<in> set (fl_members f)"
    "a \<notin> set (seats xs)" "a \<notin> set (seats ys)" "flight_index r a = Some (key, xs @ f # ys, length xs)"
    "rf_flights r key = Some (xs @ f # ys)"
proof -
  have "a \<in> set (seats (flights_at r key))" using flights_invD(4)[OF inv] a by blast
  then obtain f where f: "f \<in> set (flights_at r key)" "a \<in> set (fl_members f)" by (auto simp: seats_def)
  then obtain xs ys where split: "flights_at r key = xs @ f # ys" by (meson split_list)
  have d: "a \<notin> set (seats xs)" "a \<notin> set (seats ys)"
    using flights_invD(1)[OF inv, of key] f(2) unfolding split by auto
  have fl: "rf_flights r key = Some (xs @ f # ys)"
    using split by (cases "rf_flights r key") (auto simp: flights_at_def)
  have "find (\<lambda>i. a \<in> set (fl_members ((xs @ f # ys) ! i))) [0..<length (xs @ f # ys)] = Some (length xs)"
    using d(1) f(2) by (auto simp: find_Some_iff nth_append seats_def intro!: exI[of _ "length xs"])
  then show thesis using that[OF split f(2) d _ fl] a fl by (simp add: flight_index_def)
qed

lemma retire_member_split:
  "retire_member a (length xs) (xs @ f # ys) =
     (let ms = filter (\<lambda>m. m \<noteq> a) (fl_members f)
      in if ms = [] then xs @ ys else xs @ f\<lparr>fl_members := ms\<rparr> # ys)"
  by (simp add: retire_member_def Let_def nth_append list_update_append)

text \<open>Replacing the flights of one key, with the attempt's seat given up.\<close>

lemma flights_inv_retire:
  assumes inv: "flights_inv r" and a: "rf_by_attempt r a = Some key"
    and fs: "distinct (seats fs)" "\<forall>f\<in>set fs. fl_members f \<noteq> []"
      "\<forall>f\<in>set (butlast fs). fl_observation f \<noteq> None"
      "set (seats fs) = set (seats (flights_at r key)) - {a}"
  shows "flights_inv (r\<lparr>rf_flights := (rf_flights r)(key \<mapsto> fs), rf_by_attempt := (rf_by_attempt r)(a := None)\<rparr>)"
  unfolding flights_inv_def
proof (intro allI conjI)
  fix k
  let ?r = "r\<lparr>rf_flights := (rf_flights r)(key \<mapsto> fs), rf_by_attempt := (rf_by_attempt r)(a := None)\<rparr>"
  show "distinct (seats (flights_at ?r k))" "\<forall>f\<in>set (flights_at ?r k). fl_members f \<noteq> []"
    "\<forall>f\<in>set (butlast (flights_at ?r k)). fl_observation f \<noteq> None"
    using fs flights_invD(1-3)[OF inv, where key = k] by auto
  fix m
  show "m \<in> set (seats (flights_at ?r k)) \<longleftrightarrow> rf_by_attempt ?r m = Some k"
    using fs(4) flights_invD(4)[OF inv, of m] a by auto
qed

lemma flight_retire_inv:
  assumes inv: "flights_inv r" and a: "rf_by_attempt r a = Some key"
    and split: "flights_at r key = xs @ f # ys" "a \<in> set (fl_members f)"
    and g: "fl_members g = fl_members f" "fl_observation f \<noteq> None \<Longrightarrow> fl_observation g \<noteq> None"
  shows "flights_inv (r\<lparr>rf_flights := (rf_flights r)(key \<mapsto> retire_member a (length xs) (xs @ g # ys)),
    rf_by_attempt := (rf_by_attempt r)(a := None)\<rparr>)"
proof (rule flights_inv_retire[OF inv a])
  note D = flights_invD(1-3)[OF inv, where key = key]
  let ?fs = "retire_member a (length xs) (xs @ g # ys)"
  have d: "distinct (seats xs @ fl_members f @ seats ys)" using D(1) split(1) by simp
  show "distinct (seats ?fs)" using d g(1) by (auto simp: retire_member_split Let_def)
  show "\<forall>f\<in>set ?fs. fl_members f \<noteq> []" using D(2) split(1) g(1) by (auto simp: retire_member_split Let_def)
  have old: "\<forall>h\<in>set xs. fl_observation h \<noteq> None" "ys \<noteq> [] \<Longrightarrow> fl_observation f \<noteq> None"
    "\<forall>h\<in>set (butlast ys). fl_observation h \<noteq> None"
    using D(3) unfolding split(1) by (cases "ys = []"; simp add: butlast_append)+
  have "set (butlast ?fs) \<subseteq> set xs \<union> set (butlast ys) \<union>
      (if ys = [] then {} else {g\<lparr>fl_members := filter (\<lambda>m. m \<noteq> a) (fl_members g)\<rparr>})"
    by (auto simp: retire_member_split Let_def butlast_append dest: in_set_butlastD)
  moreover have "ys \<noteq> [] \<Longrightarrow> fl_observation (g\<lparr>fl_members := ms\<rparr>) \<noteq> None" for ms
    using old(2) g(2) by simp
  ultimately show "\<forall>h\<in>set (butlast ?fs). fl_observation h \<noteq> None"
  proof (intro ballI)
    fix h assume "h \<in> set (butlast ?fs)"
    then consider "h \<in> set xs" | "h \<in> set (butlast ys)"
      | "ys \<noteq> []" "h = g\<lparr>fl_members := filter (\<lambda>m. m \<noteq> a) (fl_members g)\<rparr>"
      using \<open>set (butlast ?fs) \<subseteq> _\<close> by (cases "ys = []") auto
    then show "fl_observation h \<noteq> None"
      using old(1,3) \<open>\<And>ms. ys \<noteq> [] \<Longrightarrow> fl_observation (g\<lparr>fl_members := ms\<rparr>) \<noteq> None\<close> by cases simp_all
  qed
  have "a \<notin> set (seats xs)" "a \<notin> set (seats ys)" using d split(2) by auto
  moreover have "set (seats ?fs) = set (seats xs) \<union> set (filter (\<lambda>m. m \<noteq> a) (fl_members f)) \<union> set (seats ys)"
  proof (cases "filter (\<lambda>m. m \<noteq> a) (fl_members f) = []")
    case True
    then show ?thesis unfolding retire_member_split Let_def g(1) by (simp only: if_True set_append seats_simps) simp
  next
    case False
    then show ?thesis unfolding retire_member_split Let_def g(1) by simp blast
  qed
  moreover have "set (seats (flights_at r key)) = set (seats xs) \<union> set (fl_members f) \<union> set (seats ys)"
    unfolding split(1) by (simp add: Un_assoc)
  ultimately show "set (seats ?fs) = set (seats (flights_at r key)) - {a}"
    by (simp only: set_filter) blast
qed

subsection \<open>Operations keep it\<close>

lemma flights_new_inv: "flights_inv flights_new"
  by (simp add: flights_inv_def flights_new_def flights_at_def)

lemma no_index: "rf_by_attempt r a = None \<Longrightarrow> flight_index r a = None"
  by (simp add: flight_index_def)

lemma take_shared_none: "rf_by_attempt r a = None \<Longrightarrow> take_shared a r = (None, r)"
  by (simp add: take_shared_def no_index)

lemma take_shared_inv:
  assumes inv: "flights_inv r"
  shows "flights_inv (snd (take_shared a r))"
proof (cases "rf_by_attempt r a")
  case None
  then show ?thesis using inv by (simp add: take_shared_def no_index)
next
  case (Some key)
  obtain xs f ys where split: "flights_at r key = xs @ f # ys" "a \<in> set (fl_members f)"
    "a \<notin> set (seats xs)" "a \<notin> set (seats ys)" "flight_index r a = Some (key, xs @ f # ys, length xs)"
    "rf_flights r key = Some (xs @ f # ys)"
    by (rule flight_index_split[OF inv Some])
  show ?thesis
    using flight_retire_inv[OF inv Some split(1,2) refl] inv split(5) by (simp add: take_shared_def split: option.splits)
qed

lemma flight_settle_inv:
  assumes inv: "flights_inv r"
  shows "flights_inv (flight_settle a obs r)"
proof (cases "rf_by_attempt r a")
  case None
  then show ?thesis using inv by (simp add: flight_settle_def no_index)
next
  case (Some key)
  obtain xs f ys where split: "flights_at r key = xs @ f # ys" "a \<in> set (fl_members f)"
    "a \<notin> set (seats xs)" "a \<notin> set (seats ys)" "flight_index r a = Some (key, xs @ f # ys, length xs)"
    "rf_flights r key = Some (xs @ f # ys)"
    by (rule flight_index_split[OF inv Some])
  show ?thesis
    using flight_retire_inv[OF inv Some split(1,2), of "f\<lparr>fl_observation := Some obs\<rparr>"] split(5)
    by (simp add: flight_settle_def Let_def)
qed

lemma drop_member_retires:
  assumes inv: "flights_inv r" and split: "flights_at r key = xs @ f # ys" "a \<notin> set (seats xs)" "a \<notin> set (seats ys)"
  shows "filter (\<lambda>f. fl_members f \<noteq> []) (map (\<lambda>f. f\<lparr>fl_members := filter (\<lambda>m. m \<noteq> a) (fl_members f)\<rparr>) (xs @ f # ys)) =
    retire_member a (length xs) (xs @ f # ys)"
proof -
  have same: "filter (\<lambda>f. fl_members f \<noteq> []) (map (\<lambda>f. f\<lparr>fl_members := filter (\<lambda>m. m \<noteq> a) (fl_members f)\<rparr>) zs) = zs"
    if "a \<notin> set (seats zs)" "\<forall>f\<in>set zs. fl_members f \<noteq> []" for zs
    using that
  proof (induction zs)
    case (Cons z zs)
    then have "filter (\<lambda>m. m \<noteq> a) (fl_members z) = fl_members z" by (intro filter_True) auto
    then show ?case using Cons by simp
  qed simp
  have "\<forall>f\<in>set (xs @ f # ys). fl_members f \<noteq> []" using flights_invD(2)[OF inv, of _ key] split(1) by simp
  then show ?thesis using same[OF split(2)] same[OF split(3)] by (simp add: retire_member_split Let_def)
qed

lemma drop_member_inv:
  assumes inv: "flights_inv r"
  shows "flights_inv (drop_member a r)"
proof (cases "rf_by_attempt r a")
  case None
  then show ?thesis using inv by (simp add: drop_member_def)
next
  case (Some key)
  obtain xs f ys where split: "flights_at r key = xs @ f # ys" "a \<in> set (fl_members f)"
    "a \<notin> set (seats xs)" "a \<notin> set (seats ys)" "flight_index r a = Some (key, xs @ f # ys, length xs)"
    "rf_flights r key = Some (xs @ f # ys)"
    by (rule flight_index_split[OF inv Some])
  show ?thesis
    using flight_retire_inv[OF inv Some split(1,2) refl] drop_member_retires[OF inv split(1,3,4)] Some split(6)
    by (simp add: drop_member_def)
qed

lemma flight_subscribe_inv:
  assumes inv: "flights_inv r" and fresh: "rf_by_attempt r a = None"
  shows "flights_inv (snd (flight_subscribe key a r))"
proof -
  let ?fs = "flights_at r key" and ?r = "snd (flight_subscribe key a r)"
  note D = flights_invD(1-3)[OF inv, where key = key]
  have unseated: "a \<notin> set (seats (flights_at r k))" for k using flights_invD(4)[OF inv] fresh by simp
  obtain fs' where fs': "flights_at ?r key = fs'" "\<And>k. k \<noteq> key \<Longrightarrow> flights_at ?r k = flights_at r k"
    "seats fs' = seats ?fs @ [a]" "\<forall>f\<in>set fs'. fl_members f \<noteq> []" "\<forall>f\<in>set (butlast fs'). fl_observation f \<noteq> None"
    "rf_by_attempt ?r = (rf_by_attempt r)(a \<mapsto> key)"
  proof (cases "?fs \<noteq> [] \<and> fl_observation (last ?fs) = None")
    case True
    then have fs: "?fs = butlast ?fs @ [last ?fs]" by simp
    let ?l = "(last ?fs)\<lparr>fl_members := fl_members (last ?fs) @ [a]\<rparr>"
    have "seats ?fs = seats (butlast ?fs) @ fl_members (last ?fs)" by (subst fs) simp
    then have "seats (butlast ?fs @ [?l]) = seats ?fs @ [a]" by simp
    moreover have "\<forall>f\<in>set (butlast ?fs @ [?l]). fl_members f \<noteq> []" using D(2) by (auto dest: in_set_butlastD)
    ultimately show thesis using that[of "butlast ?fs @ [?l]"] True D(3) by (simp add: flight_subscribe_def Let_def)
  next
    case False
    have "\<forall>f\<in>set ?fs. fl_observation f \<noteq> None"
    proof (cases ?fs rule: rev_cases)
      case (snoc ys y)
      then show ?thesis using D(3) False by auto
    qed simp
    then show thesis
      using that[of "?fs @ [\<lparr>fl_members = [a], fl_observation = None\<rparr>]"] False D(2)
      by (auto simp: flight_subscribe_def Let_def)
  qed
  show ?thesis
    unfolding flights_inv_def
  proof (intro allI conjI)
    fix k
    show "distinct (seats (flights_at ?r k))" "\<forall>f\<in>set (flights_at ?r k). fl_members f \<noteq> []"
      "\<forall>f\<in>set (butlast (flights_at ?r k)). fl_observation f \<noteq> None"
      using fs' flights_invD(1-3)[OF inv, where key = k] unseated by (cases "k = key"; auto)+
    fix m
    show "m \<in> set (seats (flights_at ?r k)) \<longleftrightarrow> rf_by_attempt ?r m = Some k"
      using fs' flights_invD(4)[OF inv, of m k] unseated[of k] by (cases "k = key") auto
  qed
qed

inductive flights_step :: "read_flights \<Rightarrow> read_flights \<Rightarrow> bool" where
  flight_join: "rf_by_attempt r a = None \<Longrightarrow> flights_step r (snd (flight_subscribe key a r))"
| flight_take: "flights_step r (snd (take_shared a r))"
| flight_read: "flights_step r (flight_settle a obs r)"
| flight_leave: "flights_step r (drop_member a r)"

lemma flights_step_inv: "flights_step r r' \<Longrightarrow> flights_inv r \<Longrightarrow> flights_inv r'"
  by (erule flights_step.cases)
    (simp_all add: flight_subscribe_inv take_shared_inv flight_settle_inv drop_member_inv)

interpretation rf: state_machine "\<lambda>r. r = flights_new" flights_step flights_inv
  by unfold_locales (simp_all add: flights_new_inv flights_step_inv)

abbreviation flights_reachable :: "read_flights \<Rightarrow> bool" where
  "flights_reachable r \<equiv> flights_step\<^sup>*\<^sup>* flights_new r"

subsection \<open>Sharing\<close>

text \<open>Two attempts in one flight.\<close>

definition same_flight :: "read_flights \<Rightarrow> string \<Rightarrow> string \<Rightarrow> bool" where
  "same_flight r a b \<longleftrightarrow> (case flight_index r a of
     None \<Rightarrow> False | Some (key, fs, i) \<Rightarrow> b \<in> set (fl_members (fs ! i)))"

lemma settled_flight_shares:
  assumes "flights_reachable r" "same_flight r a b" "a \<noteq> b"
  shows "fst (take_shared b (flight_settle a obs r)) = Some obs \<and>
    take_shared b (snd (take_shared b (flight_settle a obs r))) = (None, snd (take_shared b (flight_settle a obs r))) \<and>
    take_shared a (flight_settle a obs r) = (None, flight_settle a obs r)"
proof -
  have inv: "flights_inv r" using rf.run_inv[OF refl assms(1)] .
  obtain key where a: "rf_by_attempt r a = Some key"
    using assms(2) by (cases "rf_by_attempt r a") (auto simp: same_flight_def no_index)
  obtain xs f ys where split: "flights_at r key = xs @ f # ys" "a \<in> set (fl_members f)"
    "a \<notin> set (seats xs)" "a \<notin> set (seats ys)" "flight_index r a = Some (key, xs @ f # ys, length xs)"
    "rf_flights r key = Some (xs @ f # ys)"
    by (rule flight_index_split[OF inv a])
  have b: "b \<in> set (fl_members f)" using assms(2) split(5) by (simp add: same_flight_def)
  let ?g = "f\<lparr>fl_observation := Some obs, fl_members := filter (\<lambda>m. m \<noteq> a) (fl_members f)\<rparr>"
  let ?s = "flight_settle a obs r"
  have s: "?s = r\<lparr>rf_flights := (rf_flights r)(key \<mapsto> xs @ ?g # ys), rf_by_attempt := (rf_by_attempt r)(a := None)\<rparr>"
    using split(5) b assms(3) by (auto simp: flight_settle_def retire_member_split Let_def filter_empty_conv)
  have sinv: "flights_inv ?s" by (rule flight_settle_inv[OF inv])
  have bkey: "rf_by_attempt ?s b = Some key"
    using flights_invD(4)[OF sinv, of b key] b assms(3) by (simp add: s)
  obtain xs' f' ys' where split': "flights_at ?s key = xs' @ f' # ys'" "b \<in> set (fl_members f')"
    "b \<notin> set (seats xs')" "b \<notin> set (seats ys')" "flight_index ?s b = Some (key, xs' @ f' # ys', length xs')"
    "rf_flights ?s key = Some (xs' @ f' # ys')"
    by (rule flight_index_split[OF sinv bkey])
  have "xs' @ f' # ys' = xs @ ?g # ys" using split'(1) by (simp add: s)
  then have "?g \<in> set (xs' @ f' # ys')" by (metis in_set_conv_decomp)
  moreover have "b \<in> set (fl_members ?g)" using b assms(3) by simp
  ultimately have f': "f' = ?g" using split'(3,4) by (auto simp: seats_def)
  have take_b: "take_shared b ?s = (Some obs, ?s\<lparr>rf_flights := (rf_flights ?s)(key \<mapsto>
      retire_member b (length xs') (xs' @ f' # ys')), rf_by_attempt := (rf_by_attempt ?s)(b := None)\<rparr>)"
    using split'(5) by (simp add: take_shared_def f')
  have "take_shared a ?s = (None, ?s)" by (rule take_shared_none) (simp add: s)
  moreover have "take_shared b (snd (take_shared b ?s)) = (None, snd (take_shared b ?s))"
    by (rule take_shared_none) (simp add: take_b)
  moreover have "fst (take_shared b ?s) = Some obs" by (simp add: take_b)
  ultimately show ?thesis by blast
qed

text \<open>
  One physical read serves its whole flight, once per member: after a member of a flight settled
  the read, every other member takes exactly that observation, a second take yields nothing, and the
  reader itself has no further claim.
\<close>

theorem flight_shares_observation:
  assumes "flights_reachable r" "same_flight r a b" "a \<noteq> b"
  shows "fst (take_shared b (flight_settle a obs r)) = Some obs \<and>
    take_shared b (snd (take_shared b (flight_settle a obs r))) = (None, snd (take_shared b (flight_settle a obs r))) \<and>
    take_shared a (flight_settle a obs r) = (None, flight_settle a obs r)"
  by (rule settled_flight_shares[OF assms])

text \<open>
  Only identical reads merge: a new attempt follows exactly when the newest flight of its own key
  (target, file snapshot, scope root, grant and mode) still waits for its read, and then it joins that
  flight; otherwise it leads a flight of its own. No flight of another key changes.
\<close>

theorem flight_merges_identical_only:
  assumes "flight_subscribe key a r = (role, r')"
  shows "(role = Follower \<longleftrightarrow> flights_at r key \<noteq> [] \<and> fl_observation (last (flights_at r key)) = None) \<and>
    (\<forall>k. k \<noteq> key \<longrightarrow> flights_at r' k = flights_at r k) \<and>
    fl_members (last (flights_at r' key)) =
      (if role = Follower then fl_members (last (flights_at r key)) @ [a] else [a]) \<and>
    fl_observation (last (flights_at r' key)) = None \<and> rf_by_attempt r' a = Some key"
  using assms by (auto simp: flight_subscribe_def Let_def split: if_splits)

abbreviation demo_key :: read_flight_key where
  "demo_key \<equiv> \<lparr>rf_target = ''/a'', rf_snapshot = (1, 2), rf_scope_root = ''/'', rf_rights = read_rights_new ''g'' (hd all_modes)\<rparr>"

definition demo_flights :: read_flights where
  "demo_flights = snd (flight_subscribe demo_key ''y'' (snd (flight_subscribe demo_key ''x'' flights_new)))"

lemma demo_flights_reachable: "flights_reachable demo_flights"
proof -
  have step: "flights_reachable (snd (flight_subscribe demo_key ''x'' flights_new))"
    by (rule r_into_rtranclp, rule flight_join) (simp add: flights_new_def)
  show ?thesis
    unfolding demo_flights_def
    by (rule rtranclp.rtrancl_into_rtrancl[OF step], rule flight_join)
      (simp add: flights_new_def flight_subscribe_def Let_def)
qed

lemma demo_same_flight: "same_flight demo_flights ''x'' ''y''"
  by (simp add: demo_flights_def same_flight_def flight_index_def flight_subscribe_def flights_at_def flights_new_def Let_def)

theorem flight_shares_observation_witness:
  "fst (take_shared ''y'' (flight_settle ''x'' \<lparr>ro_bytes = [], ro_digest = ''d''\<rparr> demo_flights)) =
     Some \<lparr>ro_bytes = [], ro_digest = ''d''\<rparr>"
  using flight_shares_observation[OF demo_flights_reachable demo_same_flight] by simp

theorem flight_merges_identical_only_witness:
  "\<exists>r'. flight_subscribe demo_key ''z'' demo_flights = (Follower, r') \<and>
     fl_members (last (flights_at r' demo_key)) = [''x'', ''y'', ''z'']"
proof -
  obtain role r' where sub: "flight_subscribe demo_key ''z'' demo_flights = (role, r')"
    by (cases "flight_subscribe demo_key ''z'' demo_flights")
  have "flights_at demo_flights demo_key = [\<lparr>fl_members = [''x'', ''y''], fl_observation = None\<rparr>]"
    by (simp add: demo_flights_def flight_subscribe_def flights_at_def flights_new_def Let_def)
  then show ?thesis using flight_merges_identical_only[OF sub] sub by simp
qed

end
