(* ===== verification/Notification_Queue.thy ===== *)
theory Notification_Queue
  imports Main
begin

text \<open>
  The bounded notification queue (\<open>NotificationQueue\<close> of \<open>src/src/resources.rs\<close>): a full queue drops
  its backlog and owes the reader one resync marker. Events are opaque to it.
\<close>

datatype 'e delivery = DeliverEvent 'e | ResyncMarker

record 'e notification_queue =
  nq_capacity :: nat
  nq_pending :: "'e list"
  nq_overflowed :: bool

definition queue_new :: "nat \<Rightarrow> 'e notification_queue" where
  "queue_new capacity = \<lparr>nq_capacity = capacity, nq_pending = [], nq_overflowed = False\<rparr>"

definition queue_push :: "'e \<Rightarrow> 'e notification_queue \<Rightarrow> 'e notification_queue" where
  "queue_push e q =
     (let q1 = (if length (nq_pending q) \<ge> nq_capacity q
                then q\<lparr>nq_pending := [], nq_overflowed := True\<rparr> else q)
      in q1\<lparr>nq_pending := nq_pending q1 @ [e]\<rparr>)"

text \<open>The loop of \<open>drain\<close>: one event at a time until the limit or the end of the backlog.\<close>

fun drain_loop :: "nat \<Rightarrow> 'e delivery list \<Rightarrow> 'e list \<Rightarrow> 'e delivery list \<times> 'e list" where
  "drain_loop limit out [] = (out, [])"
| "drain_loop limit out (e # es) =
     (if length out < limit then drain_loop limit (out @ [DeliverEvent e]) es else (out, e # es))"

definition queue_drain :: "nat \<Rightarrow> 'e notification_queue \<Rightarrow> 'e delivery list \<times> 'e notification_queue" where
  "queue_drain limit q =
     (let out = (if nq_overflowed q then [ResyncMarker] else [])
      in case drain_loop limit out (nq_pending q) of
           (out', pending) \<Rightarrow> (out', q\<lparr>nq_pending := pending, nq_overflowed := False\<rparr>))"

subsection \<open>The account of a queue\<close>

text \<open>A reader's view of what was pushed: each event in order, or a marker where some were lost.\<close>

inductive accounts :: "'e list \<Rightarrow> 'e delivery list \<Rightarrow> bool" where
  accounts_nil: "accounts [] []"
| accounts_event: "accounts es ds \<Longrightarrow> accounts (e # es) (DeliverEvent e # ds)"
| accounts_gap: "accounts es ds \<Longrightarrow> accounts (lost @ es) (ResyncMarker # ds)"

inductive_cases accounts_elims: "accounts es []" "accounts es (DeliverEvent e # ds)" "accounts es (ResyncMarker # ds)"

lemma accounts_append: "accounts es ds \<Longrightarrow> accounts fs xs \<Longrightarrow> accounts (es @ fs) (ds @ xs)"
proof (induction rule: accounts.induct)
  case (accounts_gap es ds lost)
  then show ?case using accounts.accounts_gap[of "es @ fs" "ds @ xs" lost] by simp
qed (simp_all add: accounts.intros)

lemma accounts_split: "accounts es (ds @ xs) \<Longrightarrow> \<exists>a b. es = a @ b \<and> accounts a ds \<and> accounts b xs"
proof (induction "ds @ xs" arbitrary: ds rule: accounts.induct)
  case accounts_nil
  then show ?case using accounts.accounts_nil by blast
next
  case (accounts_event es ds' e)
  show ?case
  proof (cases ds)
    case Nil
    then show ?thesis using accounts_event accounts.intros by (metis append_Nil)
  next
    case (Cons d ds0)
    then obtain a b where "es = a @ b" "accounts a ds0" "accounts b xs" "d = DeliverEvent e"
      using accounts_event by auto
    then show ?thesis using accounts.accounts_event[of a ds0 e] Cons by (metis append_Cons)
  qed
next
  case (accounts_gap es ds' lost)
  show ?case
  proof (cases ds)
    case Nil
    then show ?thesis using accounts_gap accounts.intros by (metis append_Nil)
  next
    case (Cons d ds0)
    then obtain a b where "es = a @ b" "accounts a ds0" "accounts b xs" "d = ResyncMarker"
      using accounts_gap by auto
    then show ?thesis using accounts.accounts_gap[of a ds0 lost] Cons by (metis append.assoc)
  qed
qed

lemma accounts_events: "accounts es (map DeliverEvent es)"
  by (induction es) (auto intro: accounts.intros)

text \<open>Whatever a reader was owed can be replaced by one marker.\<close>

lemma accounts_forget: "accounts es (ds @ xs) \<Longrightarrow> accounts es (ds @ [ResyncMarker])"
proof -
  assume "accounts es (ds @ xs)"
  then obtain a b where split: "es = a @ b" "accounts a ds" using accounts_split by blast
  have "accounts (b @ []) [ResyncMarker]" by (intro accounts_gap accounts_nil)
  from accounts_append[OF split(2) this] show ?thesis using split(1) by simp
qed

definition owed :: "'e notification_queue \<Rightarrow> 'e delivery list" where
  "owed q = (if nq_overflowed q then [ResyncMarker] else []) @ map DeliverEvent (nq_pending q)"

lemma push_accounts:
  assumes "accounts es (ds @ owed q)"
  shows "accounts (es @ [e]) (ds @ owed (queue_push e q))"
proof (cases "length (nq_pending q) \<ge> nq_capacity q")
  case True
  then have "owed (queue_push e q) = [ResyncMarker] @ [DeliverEvent e]" by (simp add: owed_def queue_push_def)
  then show ?thesis using accounts_append[OF accounts_forget[OF assms] accounts_events[of "[e]"]] by simp
next
  case False
  then have "owed (queue_push e q) = owed q @ [DeliverEvent e]" by (simp add: owed_def queue_push_def)
  then show ?thesis using accounts_append[OF assms accounts_events[of "[e]"]] by simp
qed

lemma drain_loop_split: "drain_loop limit out es = (out', rest) \<Longrightarrow>
   out @ map DeliverEvent es = out' @ map DeliverEvent rest \<and> length out' \<le> max limit (length out) \<and>
   (rest = [] \<or> limit \<le> length out')"
  by (induction limit out es rule: drain_loop.induct) (auto split: if_splits)

lemma drain_owed:
  assumes "queue_drain limit q = (out, q')"
  shows "owed q = out @ owed q'" "length out \<le> max limit 1" "owed q' = [] \<or> limit \<le> length out"
  using assms drain_loop_split[of limit "if nq_overflowed q then [ResyncMarker] else []" "nq_pending q"]
  by (auto simp: queue_drain_def owed_def split: prod.splits if_splits)

datatype 'e queue_op = Push 'e | Drain nat

text \<open>A run: the events pushed, the deliveries drained, and the queue.\<close>

fun queue_run :: "'e queue_op list \<Rightarrow> 'e notification_queue \<Rightarrow> 'e list \<times> 'e delivery list \<times> 'e notification_queue" where
  "queue_run [] q = ([], [], q)"
| "queue_run (Push e # xs) q = (case queue_run xs (queue_push e q) of (es, ds, q') \<Rightarrow> (e # es, ds, q'))"
| "queue_run (Drain n # xs) q =
     (case queue_drain n q of
        (out, q1) \<Rightarrow> (case queue_run xs q1 of (es, ds, q') \<Rightarrow> (es, out @ ds, q')))"

lemma queue_run_accounts:
  "accounts es (ds @ owed q) \<Longrightarrow> queue_run xs q = (fs, xs', q') \<Longrightarrow> accounts (es @ fs) (ds @ xs' @ owed q')"
proof (induction xs q arbitrary: es ds fs xs' q' rule: queue_run.induct)
  case (2 e xs q)
  from 2(1)[OF push_accounts[OF 2(2), of e]] 2(3) show ?case by (auto split: prod.splits)
next
  case (3 n xs q)
  obtain out q1 where d: "queue_drain n q = (out, q1)" by (cases "queue_drain n q")
  have "accounts es ((ds @ out) @ owed q1)" using 3(2) drain_owed(1)[OF d] by simp
  from 3(1)[OF d[symmetric] this] 3(3) d show ?case by (auto split: prod.splits)
qed simp

lemma queue_len:
  assumes "length (nq_pending q) \<le> max (nq_capacity q) 1"
  shows "length (nq_pending (queue_push e q)) \<le> max (nq_capacity q) 1" "nq_capacity (queue_push e q) = nq_capacity q"
    "length (nq_pending (snd (queue_drain n q))) \<le> max (nq_capacity q) 1"
    "nq_capacity (snd (queue_drain n q)) = nq_capacity q"
proof -
  have len: "length (snd (drain_loop n out es)) \<le> length es" for out :: "'a delivery list" and es
    by (induction n out es rule: drain_loop.induct) auto
  have "nq_pending (snd (queue_drain n q)) =
      snd (drain_loop n (if nq_overflowed q then [ResyncMarker] else []) (nq_pending q))"
    by (simp add: queue_drain_def split: prod.splits)
  then show "length (nq_pending (snd (queue_drain n q))) \<le> max (nq_capacity q) 1"
    using assms len by (metis order_trans)
qed (use assms in \<open>auto simp: queue_push_def queue_drain_def Let_def split: prod.splits\<close>)

lemma queue_run_len:
  "length (nq_pending q) \<le> max (nq_capacity q) 1 \<Longrightarrow> queue_run xs q = (es, ds, q') \<Longrightarrow>
     length (nq_pending q') \<le> max (nq_capacity q) 1"
proof (induction xs q arbitrary: es ds q' rule: queue_run.induct)
  case (2 e xs q)
  then show ?case using queue_len(1,2)[OF 2(2), of e] by (auto split: prod.splits)
next
  case (3 n xs q)
  obtain out q1 where d: "queue_drain n q = (out, q1)" by (cases "queue_drain n q")
  then show ?case using 3(1)[OF d[symmetric]] 3(3) queue_len(3,4)[OF 3(2), of n] by (auto split: prod.splits)
qed simp

text \<open>
  Overflow is never silent: over every sequence of pushes and drains, what the reader was delivered
  and is still owed accounts for every pushed event in order, with a resync marker wherever events were
  dropped, and the backlog never exceeds the capacity (or one event, for a capacity of zero).
\<close>

theorem overflow_never_silent:
  assumes "queue_run xs (queue_new capacity) = (pushed, delivered, q)"
  shows "accounts pushed (delivered @ owed q) \<and> length (nq_pending q) \<le> max capacity 1"
proof
  have "accounts [] ([] @ owed (queue_new capacity))"
    by (simp add: owed_def queue_new_def accounts_nil)
  from queue_run_accounts[OF this assms] show "accounts pushed (delivered @ owed q)" by simp
  show "length (nq_pending q) \<le> max capacity 1"
    using queue_run_len[OF _ assms] by (simp add: queue_new_def)
qed

theorem overflow_never_silent_witness:
  "\<exists>q. queue_run [Push (1::nat), Push 2, Push 3, Drain 2] (queue_new 2) = ([1, 2, 3], [ResyncMarker, DeliverEvent 3], q) \<and>
     accounts [1, 2, 3] ([ResyncMarker, DeliverEvent 3] @ owed q)"
proof -
  obtain p d and q :: "nat notification_queue" where
    run: "queue_run [Push (1::nat), Push 2, Push 3, Drain 2] (queue_new 2) = (p, d, q)"
    using prod_cases3 by blast
  then have "p = [1, 2, 3]" "d = [ResyncMarker, DeliverEvent 3]"
    by (auto simp: queue_new_def queue_push_def queue_drain_def Let_def)
  then show ?thesis using overflow_never_silent[OF run] run by blast
qed

text \<open>A drain of limit zero still hands out the marker, one more than its limit.\<close>

lemma drain_zero_delivers:
  "fst (queue_drain 0 (queue_push e (queue_new 0))) = [ResyncMarker]"
  by (simp add: queue_drain_def queue_push_def queue_new_def Let_def)

end
