(* ===== verification/Capability.thy ===== *)
theory Capability
  imports Contracts Text_Std State_Machine
begin

text \<open>
  Capability generations (\<open>CapabilityGenerations\<close> and \<open>ResourceHolder\<close> of \<open>src/src/resources.rs\<close>):
  a generation is prepared as a draft that owns a directory tree, becomes current whole or releases
  what it acquired. The directories the registry creates and removes are a set of absolute paths;
  creating one fails where \<open>dn_refuse\<close> says so, and removing a tree fails where \<open>dn_stuck\<close> gives
  the paths that survive. Generation numbers are naturals (the counter is 64 bits wide).
\<close>

type_synonym path = "string list"

record dir_namespace =
  dn_present :: "path set"
  dn_refuse :: "path \<Rightarrow> bool"
  dn_stuck :: "path \<Rightarrow> path set option"

definition below :: "path \<Rightarrow> path \<Rightarrow> bool" where
  "below root p \<longleftrightarrow> take (length root) p = root"

text \<open>\<open>std::fs::create_dir\<close> and \<open>std::fs::remove_dir_all\<close>.\<close>

definition create_dir :: "path \<Rightarrow> dir_namespace \<Rightarrow> bool \<times> dir_namespace" where
  "create_dir p fs =
     (if dn_refuse fs p \<or> p \<in> dn_present fs \<or> butlast p \<notin> dn_present fs then (False, fs)
      else (True, fs\<lparr>dn_present := insert p (dn_present fs)\<rparr>))"

datatype holder_status = HolderActive | HolderTerminationUnknown | HolderTerminated

definition release_root :: "path \<Rightarrow> dir_namespace \<Rightarrow> holder_status \<times> dir_namespace" where
  "release_root root fs =
     (if root \<notin> dn_present fs then (HolderTerminated, fs)
      else (case dn_stuck fs root of
              None \<Rightarrow> (HolderTerminated, fs\<lparr>dn_present := {p \<in> dn_present fs. \<not> below root p}\<rparr>)
            | Some keep \<Rightarrow>
                (HolderTerminationUnknown,
                 fs\<lparr>dn_present := {p \<in> dn_present fs. below root p \<longrightarrow> p \<in> keep}\<rparr>)))"

subsection \<open>Names\<close>

text \<open>\<open>Path::components\<close> of a relative name, without the current-directory parts inside it.\<close>

definition name_components :: "string \<Rightarrow> string list" where
  "name_components v = filter (\<lambda>c. c \<noteq> [] \<and> c \<noteq> ''.'') (str_split (CHR ''/'') v)"

definition is_one_segment :: "string \<Rightarrow> bool" where
  "is_one_segment v \<longleftrightarrow>
     v \<noteq> [] \<and> hd v \<noteq> CHR ''/'' \<and> hd (str_split (CHR ''/'') v) \<noteq> ''.'' \<and>
     (case name_components v of [c] \<Rightarrow> c \<noteq> ''..'' | _ \<Rightarrow> False)"

definition generation_root :: "path \<Rightarrow> string \<Rightarrow> nat \<Rightarrow> path" where
  "generation_root parent scope generation = parent @ name_components (scope @ ''-'' @ show_nat generation)"

subsection \<open>The registry\<close>

datatype resource_error =
    NotOneSegment string string
  | Acquire string holder_status
  | Superseded nat nat
  | AlreadyRetired nat
  | UnknownGeneration nat

fun resource_error_code :: "resource_error \<Rightarrow> error_code" where
  "resource_error_code (NotOneSegment f v) = InvalidInput"
| "resource_error_code (Acquire b d) = DependencyBlocked"
| "resource_error_code (Superseded a c) = StaleIntent"
| "resource_error_code (AlreadyRetired g) = AlreadyTerminal"
| "resource_error_code (UnknownGeneration g) = NotFound"

record resource_holder =
  rh_scope :: string
  rh_executor :: string
  rh_generation :: nat
  rh_status :: holder_status
  rh_root :: "path option"
  rh_acquired :: "path list"

record capability_generations =
  cg_next :: nat
  cg_current :: "resource_holder option"
  cg_retired :: "nat list"

definition generations_new :: capability_generations where
  "generations_new = \<lparr>cg_next = 0, cg_current = None, cg_retired = []\<rparr>"

definition capability_generation_retention :: nat where
  "capability_generation_retention = 8"

definition holder_release ::
  "resource_holder \<Rightarrow> dir_namespace \<Rightarrow> holder_status \<times> resource_holder \<times> dir_namespace" where
  "holder_release h fs =
     (case rh_root h of
        None \<Rightarrow> (rh_status h, h, fs)
      | Some root \<Rightarrow>
          (case release_root root fs of
             (st, fs') \<Rightarrow> (st, h\<lparr>rh_root := None, rh_status := st\<rparr>, fs')))"

text \<open>Dropping a holder releases what it owns.\<close>

definition holder_drop :: "resource_holder \<Rightarrow> dir_namespace \<Rightarrow> dir_namespace" where
  "holder_drop h fs = snd (snd (holder_release h fs))"

text \<open>\<open>retire\<close>: the window keeps the last eight numbers.\<close>

definition retire_generation :: "nat \<Rightarrow> capability_generations \<Rightarrow> capability_generations" where
  "retire_generation g cg =
     (let window = cg_retired cg @ [g]
      in cg\<lparr>cg_retired := drop (length window - capability_generation_retention) window\<rparr>)"

fun acquire_all ::
  "path \<Rightarrow> string list \<Rightarrow> path list \<Rightarrow> dir_namespace \<Rightarrow> (holder_status + path list) \<times> dir_namespace" where
  "acquire_all root [] acquired fs = (Inr acquired, fs)"
| "acquire_all root (d # ds) acquired fs =
     (case create_dir (root @ name_components d) fs of
        (True, fs1) \<Rightarrow> acquire_all root ds (acquired @ [root @ name_components d]) fs1
      | (False, fs1) \<Rightarrow> (case release_root root fs1 of (st, fs2) \<Rightarrow> (Inl st, fs2)))"

definition capability_prepare ::
  "path \<Rightarrow> string \<Rightarrow> string \<Rightarrow> string list \<Rightarrow> capability_generations \<Rightarrow> dir_namespace \<Rightarrow>
     (resource_error + resource_holder) \<times> capability_generations \<times> dir_namespace" where
  "capability_prepare parent executor scope deps cg fs =
     (if \<not> is_one_segment scope then (Inl (NotOneSegment ''resource scope'' scope), cg, fs)
      else (case find (\<lambda>d. \<not> is_one_segment d) deps of
              Some d \<Rightarrow> (Inl (NotOneSegment ''dependency'' d), cg, fs)
            | None \<Rightarrow>
                (let g = cg_next cg + 1;
                     cg1 = cg\<lparr>cg_next := g\<rparr>;
                     root = generation_root parent scope g
                 in case create_dir root fs of
                      (False, fs1) \<Rightarrow> (Inl (Acquire ''capability.prepare.root'' HolderTerminated), cg1, fs1)
                    | (True, fs1) \<Rightarrow>
                        (case acquire_all root deps [] fs1 of
                           (Inl st, fs2) \<Rightarrow> (Inl (Acquire ''capability.prepare.dependency'' st), cg1, fs2)
                         | (Inr acquired, fs2) \<Rightarrow>
                             (Inr \<lparr>rh_scope = scope, rh_executor = executor, rh_generation = g,
                                   rh_status = HolderActive, rh_root = Some root, rh_acquired = acquired\<rparr>,
                              cg1, fs2)))))"

definition capability_publish ::
  "resource_holder \<Rightarrow> capability_generations \<Rightarrow> dir_namespace \<Rightarrow>
     (resource_error + unit) \<times> capability_generations \<times> dir_namespace" where
  "capability_publish prepared cg fs =
     (case cg_current cg of
        None \<Rightarrow> (Inr (), cg\<lparr>cg_current := Some prepared\<rparr>, fs)
      | Some c \<Rightarrow>
          if rh_generation prepared \<le> rh_generation c
          then (Inl (Superseded (rh_generation prepared) (rh_generation c)), cg, holder_drop prepared fs)
          else (Inr (), retire_generation (rh_generation c) (cg\<lparr>cg_current := Some prepared\<rparr>), holder_drop c fs))"

definition publish_started ::
  "resource_holder \<Rightarrow> capability_generations \<Rightarrow> dir_namespace \<Rightarrow> capability_generations \<times> dir_namespace" where
  "publish_started prepared cg fs = snd (capability_publish prepared cg fs)"

definition capability_abandon ::
  "resource_holder \<Rightarrow> capability_generations \<Rightarrow> dir_namespace \<Rightarrow>
     holder_status \<times> capability_generations \<times> dir_namespace" where
  "capability_abandon prepared cg fs =
     (case holder_release prepared fs of
        (st, h, fs') \<Rightarrow> (st, retire_generation (rh_generation h) cg, holder_drop h fs'))"

definition stale_refusal :: "capability_generations \<Rightarrow> nat \<Rightarrow> resource_error" where
  "stale_refusal cg g = (if g \<in> set (cg_retired cg) then AlreadyRetired g else UnknownGeneration g)"

definition capability_dispose ::
  "nat \<Rightarrow> capability_generations \<Rightarrow> dir_namespace \<Rightarrow>
     (resource_error + holder_status) \<times> capability_generations \<times> dir_namespace" where
  "capability_dispose g cg fs =
     (case cg_current cg of
        None \<Rightarrow> (Inl (stale_refusal cg g), cg, fs)
      | Some c \<Rightarrow>
          if rh_generation c \<noteq> g then (Inl (stale_refusal cg g), cg, fs)
          else (case holder_release c fs of
                  (st, h, fs') \<Rightarrow> (Inr st, retire_generation g (cg\<lparr>cg_current := None\<rparr>), holder_drop h fs')))"

definition capability_registered :: "capability_generations \<Rightarrow> string \<Rightarrow> resource_holder option" where
  "capability_registered cg executor =
     (case cg_current cg of Some h \<Rightarrow> if rh_executor h = executor then Some h else None | None \<Rightarrow> None)"

definition current_generation :: "capability_generations \<Rightarrow> nat option" where
  "current_generation cg = map_option rh_generation (cg_current cg)"

end
