(* ===== verification/Capability_Theorems.thy ===== *)
theory Capability_Theorems
  imports Capability "HOL-Library.Multiset"
begin

text \<open>
  What the capability registry promises: the directories of the live generations (the current one and
  the drafts not yet published) are exactly what the registry has created and not yet removed, no
  generation touches another's tree, and a generation number that is no longer live never comes back.
  The steps range over scope names without a slash; \<open>trailing_slash_shares_root\<close> shows what
  the registry does with a scope name that ends in one.
\<close>

section \<open>Names and roots\<close>

lemma one_segment_components:
  assumes "is_one_segment d"
  obtains c where "name_components d = [c]"
  using assms unfolding is_one_segment_def by (auto split: list.splits)

definition root_name :: "string \<Rightarrow> nat \<Rightarrow> string" where
  "root_name scope g = scope @ ''-'' @ show_nat g"

lemma plain_root:
  assumes "CHR ''/'' \<notin> set scope" "scope \<noteq> []"
  shows "generation_root parent scope g = parent @ [root_name scope g]"
proof -
  have "CHR ''/'' \<notin> set (show_nat g)" using show_nat_digits[of "CHR ''/''" g] by (auto simp: is_ascii_digit_def byte_val_def)
  then have "str_split (CHR ''/'') (root_name scope g) = [root_name scope g]"
    using assms by (intro str_split_single) (simp add: root_name_def)
  moreover have "root_name scope g \<noteq> ''.''" using assms by (cases scope) (auto simp: root_name_def show_nat_nonempty)
  ultimately show ?thesis by (simp add: generation_root_def name_components_def root_name_def)
qed

lemma root_name_inj:
  assumes "root_name s1 g1 = root_name s2 g2"
  shows "g1 = g2"
proof -
  have dash: "CHR ''-'' \<notin> set (rev (show_nat g))" for g
    using show_nat_digits[of "CHR ''-''" g] by (auto simp: is_ascii_digit_def byte_val_def)
  have cut: "takeWhile (\<lambda>c. c \<noteq> CHR ''-'') (rev (root_name s g)) = rev (show_nat g)" for s g
    using dash[of g] by (subst root_name_def, simp, subst takeWhile_append2) auto
  have "rev (show_nat g1) = rev (show_nat g2)" using cut[of s1 g1] cut[of s2 g2] assms by simp
  then show ?thesis by (simp add: show_nat_inject)
qed

lemma below_self [simp]: "below r r"
  by (simp add: below_def)

lemma below_sibling [simp]: "below (parent @ [a]) (parent @ b # ps) \<longleftrightarrow> a = b"
  by (auto simp: below_def)

section \<open>The live generations\<close>

definition owned_by :: "resource_holder \<Rightarrow> path \<Rightarrow> bool" where
  "owned_by h p \<longleftrightarrow> rh_root h = Some p \<or> p \<in> set (rh_acquired h)"

definition leftover :: "dir_namespace \<Rightarrow> path \<Rightarrow> bool" where
  "leftover fs p \<longleftrightarrow> (\<exists>root. dn_stuck fs root \<noteq> None \<and> below root p)"

definition tree_closed :: "path set \<Rightarrow> bool" where
  "tree_closed base \<longleftrightarrow> (\<forall>p\<in>base. \<forall>n. take n p \<in> base)"

definition holder_ok :: "path \<Rightarrow> path set \<Rightarrow> nat \<Rightarrow> dir_namespace \<Rightarrow> resource_holder \<Rightarrow> bool" where
  "holder_ok parent base nxt fs h \<longleftrightarrow>
     rh_generation h \<le> nxt \<and> rh_status h = HolderActive \<and>
     (let root = parent @ [root_name (rh_scope h) (rh_generation h)]
      in rh_root h = Some root \<and> (\<forall>p\<in>set (rh_acquired h). \<exists>c. p = root @ [c]) \<and>
         (\<forall>p. owned_by h p \<longrightarrow> p \<in> dn_present fs) \<and> (\<forall>p\<in>base. \<not> below root p))"

definition live_inv :: "path \<Rightarrow> path set \<Rightarrow> nat \<Rightarrow> resource_holder list \<Rightarrow> dir_namespace \<Rightarrow> bool" where
  "live_inv parent base nxt hs fs \<longleftrightarrow>
     distinct (map rh_generation hs) \<and> (\<forall>h\<in>set hs. holder_ok parent base nxt fs h) \<and> base \<subseteq> dn_present fs \<and>
     (\<forall>p\<in>dn_present fs. p \<in> base \<or> (\<exists>h\<in>set hs. owned_by h p) \<or> leftover fs p)"

lemma holder_okD:
  assumes "holder_ok parent base nxt fs h"
  shows "rh_generation h \<le> nxt" "rh_status h = HolderActive"
    "rh_root h = Some (parent @ [root_name (rh_scope h) (rh_generation h)])"
    "owned_by h p \<Longrightarrow> p \<in> dn_present fs"
    "p \<in> base \<Longrightarrow> \<not> below (parent @ [root_name (rh_scope h) (rh_generation h)]) p"
    "owned_by h p \<Longrightarrow> \<exists>ps. p = parent @ root_name (rh_scope h) (rh_generation h) # ps"
  using assms by (auto simp: holder_ok_def Let_def owned_by_def)

lemma live_inv_reorder:
  assumes "live_inv parent base nxt hs fs" "set hs' = set hs" "distinct (map rh_generation hs')"
  shows "live_inv parent base nxt hs' fs"
  using assms by (simp add: live_inv_def)

subsection \<open>Releasing a root\<close>

lemma release_root_fields [simp]:
  "dn_stuck (snd (release_root root fs)) = dn_stuck fs" "dn_refuse (snd (release_root root fs)) = dn_refuse fs"
  by (simp_all add: release_root_def split: option.splits)

lemma release_root_present:
  "p \<in> dn_present (snd (release_root root fs)) \<Longrightarrow>
     p \<in> dn_present fs \<and> (root \<in> dn_present fs \<longrightarrow> \<not> below root p \<or> leftover fs p)"
  "p \<in> dn_present fs \<Longrightarrow> \<not> below root p \<Longrightarrow> p \<in> dn_present (snd (release_root root fs))"
  by (auto simp: release_root_def leftover_def split: option.splits if_splits)

lemma leftover_release [simp]: "leftover (snd (release_root root fs)) = leftover fs"
  by (simp add: leftover_def fun_eq_iff)

lemma holder_drop_root: "rh_root h = Some root \<Longrightarrow> holder_drop h fs = snd (release_root root fs)"
  by (simp add: holder_drop_def holder_release_def split: prod.splits)

lemma released_drop: "holder_release h fs = (st, h', fs') \<Longrightarrow> holder_drop h' fs' = fs' \<and> fs' = holder_drop h fs \<and> rh_generation h' = rh_generation h"
  by (auto simp: holder_drop_def holder_release_def split: prod.splits option.splits)

lemma holder_ok_release:
  assumes "holder_ok parent base nxt fs h" "rh_generation h \<noteq> g"
  shows "holder_ok parent base nxt (snd (release_root (parent @ [root_name s g]) fs)) h"
proof -
  have "p \<in> dn_present (snd (release_root (parent @ [root_name s g]) fs))" if "owned_by h p" for p
    using holder_okD(4,6)[OF assms(1) that] assms(2) by (auto intro!: release_root_present(2) dest: root_name_inj)
  then show ?thesis using assms(1) by (auto simp: holder_ok_def Let_def)
qed

lemma live_inv_drop:
  assumes inv: "live_inv parent base nxt (h # hs) fs"
  shows "live_inv parent base nxt hs (holder_drop h fs)"
proof -
  let ?root = "parent @ [root_name (rh_scope h) (rh_generation h)]"
  let ?fs = "snd (release_root ?root fs)"
  have h: "holder_ok parent base nxt fs h" using inv by (simp add: live_inv_def)
  have fs': "holder_drop h fs = ?fs" using holder_okD(3)[OF h] by (rule holder_drop_root)
  have "?root \<in> dn_present fs" using holder_okD(3,4)[OF h] by (simp add: owned_by_def)
  then have gone: "\<not> below ?root p \<or> leftover fs p" "p \<in> dn_present fs" if "p \<in> dn_present ?fs" for p
    using release_root_present(1)[OF that] by blast+
  have own: "below ?root p" if "owned_by h p" for p using holder_okD(6)[OF h that] by auto
  have "\<forall>k\<in>set hs. holder_ok parent base nxt ?fs k"
    using inv by (auto simp: live_inv_def image_iff intro!: holder_ok_release)
  moreover have "base \<subseteq> dn_present ?fs"
    using inv holder_okD(5)[OF h] by (auto simp: live_inv_def intro!: release_root_present(2))
  moreover have "p \<in> base \<or> (\<exists>k\<in>set hs. owned_by k p) \<or> leftover ?fs p" if "p \<in> dn_present ?fs" for p
    using inv gone[OF that] own[of p] by (auto simp: live_inv_def)
  ultimately show ?thesis using inv by (simp add: fs' live_inv_def)
qed

subsection \<open>Preparing a generation\<close>

lemma create_dir_cases:
  obtains (refused) "create_dir p fs = (False, fs)"
  | (created) "create_dir p fs = (True, fs\<lparr>dn_present := insert p (dn_present fs)\<rparr>)" "p \<notin> dn_present fs"
  unfolding create_dir_def by (cases "dn_refuse fs p \<or> p \<in> dn_present fs \<or> butlast p \<notin> dn_present fs") auto

text \<open>What is present while a prepare runs: the directories of before, the root and what it acquired.\<close>

definition acquiring :: "dir_namespace \<Rightarrow> path \<Rightarrow> path list \<Rightarrow> dir_namespace" where
  "acquiring fs root acquired = fs\<lparr>dn_present := insert root (set acquired) \<union> dn_present fs\<rparr>"

lemma acquire_all_result:
  assumes "\<forall>d\<in>set deps. is_one_segment d" "\<forall>p\<in>set acquired. \<exists>c. p = root @ [c]"
    and "acquire_all root deps acquired (acquiring fs root acquired) = (r, fs')"
  shows "(\<exists>st acq. r = Inl st \<and> (\<forall>p\<in>set acq. \<exists>c. p = root @ [c]) \<and> fs' = snd (release_root root (acquiring fs root acq))) \<or>
    (\<exists>acq. r = Inr acq \<and> (\<forall>p\<in>set acq. \<exists>c. p = root @ [c]) \<and> fs' = acquiring fs root acq)"
  using assms
proof (induction deps arbitrary: acquired)
  case (Cons d ds)
  obtain c where c: "name_components d = [c]" using one_segment_components[of d] Cons.prems(1) by auto
  show ?case
  proof (cases rule: create_dir_cases[of "root @ [c]" "acquiring fs root acquired"])
    case refused
    then show ?thesis using Cons.prems(2,3) by (auto simp: c split: prod.splits)
  next
    case created
    moreover have "(acquiring fs root acquired)\<lparr>dn_present := insert (root @ [c]) (dn_present (acquiring fs root acquired))\<rparr> =
      acquiring fs root (acquired @ [root @ [c]])"
      by (simp add: acquiring_def insert_commute)
    ultimately show ?thesis using Cons.IH[of "acquired @ [root @ [c]]"] Cons.prems by (simp add: c ball_Un)
  qed
qed auto

lemma holder_ok_grow:
  assumes "holder_ok parent base nxt fs h" "dn_present fs \<subseteq> dn_present fs'" "nxt \<le> nxt'"
  shows "holder_ok parent base nxt' fs' h"
  using assms by (auto simp: holder_ok_def Let_def)

lemma not_below_root:
  assumes "tree_closed base" "root \<notin> base" "p \<in> base"
  shows "\<not> below root p"
  using assms unfolding below_def tree_closed_def by metis

lemma live_inv_acquired:
  assumes inv: "live_inv parent base nxt hs fs" and closed: "tree_closed base"
    and root: "root = parent @ [root_name scope (Suc nxt)]" "root \<notin> dn_present fs"
    and acq: "\<forall>p\<in>set acq. \<exists>c. p = root @ [c]"
    and h: "rh_generation h = Suc nxt" "rh_scope h = scope" "rh_status h = HolderActive"
      "rh_root h = Some root" "rh_acquired h = acq"
  shows "live_inv parent base (Suc nxt) (h # hs) (acquiring fs root acq)"
proof -
  have base: "base \<subseteq> dn_present fs" and gens: "\<forall>k\<in>set hs. rh_generation k \<le> nxt"
    using inv by (auto simp: live_inv_def dest: holder_okD(1))
  have "\<not> below root p" if "p \<in> base" for p using not_below_root[OF closed _ that] root(2) base by blast
  then have "holder_ok parent base (Suc nxt) (acquiring fs root acq) h"
    using h acq root(1) by (auto simp: holder_ok_def owned_by_def acquiring_def Let_def)
  moreover have "\<forall>k\<in>set hs. holder_ok parent base (Suc nxt) (acquiring fs root acq) k"
    using inv by (auto simp: live_inv_def acquiring_def intro: holder_ok_grow)
  moreover have "Suc nxt \<notin> rh_generation ` set hs" using gens by auto
  moreover have "p \<in> base \<or> (\<exists>k\<in>set (h # hs). owned_by k p) \<or> leftover (acquiring fs root acq) p"
    if "p \<in> dn_present (acquiring fs root acq)" for p
    using that inv h by (auto simp: live_inv_def acquiring_def owned_by_def leftover_def)
  ultimately show ?thesis using inv h(1) base by (auto simp: live_inv_def acquiring_def)
qed

lemma live_inv_later: "live_inv parent base nxt hs fs \<Longrightarrow> nxt \<le> nxt' \<Longrightarrow> live_inv parent base nxt' hs fs"
  by (auto simp: live_inv_def intro: holder_ok_grow)

lemma live_inv_prepare:
  assumes inv: "live_inv parent base (cg_next cg) hs fs" and closed: "tree_closed base"
    and plain: "CHR ''/'' \<notin> set scope"
    and prep: "capability_prepare parent executor scope deps cg fs = (r, cg', fs')"
  shows "cg_current cg' = cg_current cg \<and> cg_retired cg' = cg_retired cg \<and> cg_next cg \<le> cg_next cg' \<and>
    (case r of
       Inl e \<Rightarrow> live_inv parent base (cg_next cg') hs fs'
     | Inr h \<Rightarrow> rh_generation h = cg_next cg' \<and> cg_next cg' = Suc (cg_next cg) \<and>
         live_inv parent base (cg_next cg') (h # hs) fs')"
proof (cases "is_one_segment scope \<and> find (\<lambda>d. \<not> is_one_segment d) deps = None")
  case False
  then show ?thesis using prep inv by (auto simp: capability_prepare_def split: if_splits)
next
  case True
  then have deps: "\<forall>d\<in>set deps. is_one_segment d" by (simp add: find_None_iff)
  let ?g = "Suc (cg_next cg)"
  let ?root = "parent @ [root_name scope ?g]"
  have root: "generation_root parent scope ?g = ?root"
    using True by (intro plain_root[OF plain]) (auto simp: is_one_segment_def)
  show ?thesis
  proof (cases rule: create_dir_cases[of ?root fs])
    case refused
    then show ?thesis using prep True live_inv_later[OF inv, of ?g] root
      by (auto simp: capability_prepare_def Let_def)
  next
    case created
    have start: "fs\<lparr>dn_present := insert ?root (dn_present fs)\<rparr> = acquiring fs ?root []" by (auto simp: acquiring_def)
    obtain r1 fs1 where acq: "acquire_all ?root deps [] (acquiring fs ?root []) = (r1, fs1)" by fastforce
    have post: "(r, cg', fs') = (case r1 of
        Inl st \<Rightarrow> (Inl (Acquire ''capability.prepare.dependency'' st), cg\<lparr>cg_next := ?g\<rparr>, fs1)
      | Inr acquired \<Rightarrow> (Inr \<lparr>rh_scope = scope, rh_executor = executor, rh_generation = ?g,
          rh_status = HolderActive, rh_root = Some ?root, rh_acquired = acquired\<rparr>, cg\<lparr>cg_next := ?g\<rparr>, fs1))"
      using prep True root created(1) acq by (simp add: capability_prepare_def Let_def start split: sum.splits)
    let ?h = "\<lambda>a. \<lparr>rh_scope = scope, rh_executor = executor, rh_generation = ?g,
        rh_status = HolderActive, rh_root = Some ?root, rh_acquired = a\<rparr>"
    have got: "live_inv parent base ?g (?h a # hs) (acquiring fs ?root a)" if "\<forall>p\<in>set a. \<exists>c. p = ?root @ [c]" for a
      by (rule live_inv_acquired[OF inv closed refl created(2) that]) simp_all
    have undone: "live_inv parent base ?g hs (snd (release_root ?root (acquiring fs ?root a)))"
      if "\<forall>p\<in>set a. \<exists>c. p = ?root @ [c]" for a
      using live_inv_drop[OF got[OF that]] holder_drop_root[of "?h a"] by simp
    from acquire_all_result[OF deps _ acq] got undone post show ?thesis by fastforce
  qed
qed

section \<open>Runs of the registry\<close>

text \<open>The registry, the directories and the drafts that callers hold.\<close>

type_synonym registry = "capability_generations \<times> dir_namespace \<times> resource_holder list"

inductive cap_step :: "path \<Rightarrow> registry \<Rightarrow> registry \<Rightarrow> bool" for parent where
  cap_prepare: "CHR ''/'' \<notin> set scope \<Longrightarrow> capability_prepare parent executor scope deps cg fs = (r, cg', fs') \<Longrightarrow>
    cap_step parent (cg, fs, ds) (cg', fs', case r of Inl e \<Rightarrow> ds | Inr h \<Rightarrow> h # ds)"
| cap_publish: "capability_publish h cg fs = (r, cg', fs') \<Longrightarrow>
    cap_step parent (cg, fs, xs @ h # ys) (cg', fs', xs @ ys)"
| cap_abandon: "capability_abandon h cg fs = (st, cg', fs') \<Longrightarrow>
    cap_step parent (cg, fs, xs @ h # ys) (cg', fs', xs @ ys)"
| cap_drop: "cap_step parent (cg, fs, xs @ h # ys) (cg, holder_drop h fs, xs @ ys)"
| cap_dispose: "capability_dispose g cg fs = (r', cg', fs') \<Longrightarrow> cap_step parent (cg, fs, ds) (cg', fs', ds)"

fun live :: "registry \<Rightarrow> resource_holder list" where
  "live (cg, fs, ds) = (case cg_current cg of None \<Rightarrow> ds | Some c \<Rightarrow> c # ds)"

fun cap_inv :: "path \<Rightarrow> path set \<Rightarrow> registry \<Rightarrow> bool" where
  "cap_inv parent base (cg, fs, ds) \<longleftrightarrow>
     live_inv parent base (cg_next cg) (live (cg, fs, ds)) fs \<and> tree_closed base \<and>
     length (cg_retired cg) \<le> capability_generation_retention \<and>
     (\<forall>g\<in>set (cg_retired cg). g \<le> cg_next cg \<and> g \<notin> rh_generation ` set (live (cg, fs, ds)))"

lemma retire_generation_fields [simp]:
  "cg_next (retire_generation g cg) = cg_next cg" "cg_current (retire_generation g cg) = cg_current cg"
  "length (cg_retired (retire_generation g cg)) \<le> capability_generation_retention"
  by (simp_all add: retire_generation_def Let_def)

lemma retire_generation_window: "g' \<in> set (cg_retired (retire_generation g cg)) \<Longrightarrow> g' = g \<or> g' \<in> set (cg_retired cg)"
  by (auto simp: retire_generation_def Let_def dest!: in_set_dropD)

text \<open>Every operation that ends a live generation leaves the others as a live set.\<close>

lemma cap_inv_retire:
  assumes "cap_inv parent base (cg, fs, ds)" "mset (live (cg, fs, ds)) = mset (h # live (cg', fs', ds'))"
    and "fs' = holder_drop h fs" "cg_next cg' = cg_next cg"
    and "cg_retired cg' = cg_retired cg \<or> cg_retired cg' = cg_retired (retire_generation (rh_generation h) cg)"
  shows "cap_inv parent base (cg', fs', ds')"
proof -
  let ?hs = "live (cg', fs', ds')"
  have inv: "live_inv parent base (cg_next cg) (live (cg, fs, ds)) fs" using assms(1) by simp
  have set: "set (live (cg, fs, ds)) = set (h # ?hs)" by (metis assms(2) set_mset_mset)
  have "mset (map rh_generation (live (cg, fs, ds))) = mset (map rh_generation (h # ?hs))"
    by (metis assms(2) mset_map)
  then have dist: "distinct (map rh_generation (h # ?hs))"
    using inv by (metis live_inv_def mset_eq_imp_distinct_iff)
  have hs: "live_inv parent base (cg_next cg) (h # ?hs) fs"
    using live_inv_reorder[OF inv set[symmetric] dist] .
  have own: "rh_generation h \<le> cg_next cg" "rh_generation h \<notin> rh_generation ` set ?hs"
    using hs by (auto simp: live_inv_def image_iff dest: holder_okD(1))
  have old: "g \<le> cg_next cg \<and> g \<notin> rh_generation ` set ?hs" if "g \<in> set (cg_retired cg)" for g
    using assms(1) that unfolding cap_inv.simps set by fastforce
  have "g = rh_generation h \<or> g \<in> set (cg_retired cg)" if "g \<in> set (cg_retired cg')" for g
    using assms(5) that retire_generation_window by metis
  then have "\<forall>g\<in>set (cg_retired cg'). g \<le> cg_next cg \<and> g \<notin> rh_generation ` set ?hs"
    using own old by metis
  moreover have "length (cg_retired cg') \<le> capability_generation_retention"
    using assms(1,5) retire_generation_fields(3)[of "rh_generation h" cg] by auto
  ultimately show ?thesis
    using live_inv_drop[OF hs] assms(1,3,4) by simp
qed

lemma cap_publish_inv:
  assumes inv: "cap_inv parent base (cg, fs, xs @ h # ys)" and post: "capability_publish h cg fs = (r, cg', fs')"
  shows "cap_inv parent base (cg', fs', xs @ ys)"
proof (cases "cg_current cg")
  case None
  then have "cg' = cg\<lparr>cg_current := Some h\<rparr>" "fs' = fs" using post by (auto simp: capability_publish_def)
  then show ?thesis using inv None by (auto simp: live_inv_def)
next
  case (Some c)
  show ?thesis
  proof (cases "rh_generation h \<le> rh_generation c")
    case True
    then have "cg' = cg" "fs' = holder_drop h fs" using post Some by (auto simp: capability_publish_def)
    then show ?thesis using Some by (intro cap_inv_retire[OF inv, of h]) auto
  next
    case False
    then have "cg' = retire_generation (rh_generation c) (cg\<lparr>cg_current := Some h\<rparr>)" "fs' = holder_drop c fs"
      using post Some by (auto simp: capability_publish_def)
    then show ?thesis using Some by (intro cap_inv_retire[OF inv, of c]) (auto simp: retire_generation_def Let_def)
  qed
qed

lemma cap_abandon_inv:
  assumes inv: "cap_inv parent base (cg, fs, xs @ h # ys)" and post: "capability_abandon h cg fs = (st, cg', fs')"
  shows "cap_inv parent base (cg', fs', xs @ ys)"
proof -
  have "cg' = retire_generation (rh_generation h) cg" "fs' = holder_drop h fs"
    using post by (auto simp: capability_abandon_def released_drop split: prod.splits)
  then show ?thesis by (intro cap_inv_retire[OF inv, of h]) (auto split: option.split)
qed

lemma dispose_stale:
  assumes "current_generation cg \<noteq> Some g"
  shows "capability_dispose g cg fs = (Inl (stale_refusal cg g), cg, fs)"
  using assms by (auto simp: capability_dispose_def current_generation_def split: option.split)

lemma cap_dispose_inv:
  assumes inv: "cap_inv parent base (cg, fs, ds)" and post: "capability_dispose g cg fs = (r, cg', fs')"
  shows "cap_inv parent base (cg', fs', ds)"
proof (cases "current_generation cg = Some g")
  case True
  then obtain c where c: "cg_current cg = Some c" "rh_generation c = g" by (auto simp: current_generation_def)
  then have "cg' = retire_generation g (cg\<lparr>cg_current := None\<rparr>)" "fs' = holder_drop c fs"
    using post by (auto simp: capability_dispose_def released_drop split: prod.splits)
  then show ?thesis using c by (intro cap_inv_retire[OF inv, of c]) (auto simp: retire_generation_def Let_def)
next
  case False
  then show ?thesis using inv post by (simp add: dispose_stale)
qed

lemma cap_step_inv:
  assumes "cap_step parent s t" "cap_inv parent base s"
  shows "cap_inv parent base t"
  using assms
proof (cases rule: cap_step.cases)
  case (cap_prepare scope executor deps cg fs r cg' fs' ds)
  then have "live_inv parent base (cg_next cg) (live (cg, fs, ds)) fs" "tree_closed base" using assms(2) by simp_all
  from live_inv_prepare[OF this cap_prepare(3,4)] cap_prepare(1,2) assms(2) show ?thesis
    by (cases r; cases "cg_current cg") (auto simp: live_inv_def)
next
  case (cap_drop cg fs xs h ys)
  then have inv: "cap_inv parent base (cg, fs, xs @ h # ys)" using assms(2) by simp
  show ?thesis unfolding cap_drop(2) by (intro cap_inv_retire[OF inv, of h]) (auto split: option.split)
qed (use assms(2) in \<open>auto simp del: cap_inv.simps intro: cap_publish_inv cap_abandon_inv cap_dispose_inv\<close>)

definition cap_initial :: "path set \<Rightarrow> registry \<Rightarrow> bool" where
  "cap_initial base s \<longleftrightarrow> (\<exists>fs. s = (generations_new, fs, []) \<and> dn_present fs = base) \<and> tree_closed base"

lemma cap_initial_inv: "cap_initial base s \<Longrightarrow> cap_inv parent base s"
  by (auto simp: cap_initial_def generations_new_def live_inv_def)

interpretation cap: state_machine "cap_initial base" "cap_step parent" "cap_inv parent base" for parent base
  by unfold_locales (rule cap_initial_inv cap_step_inv, assumption+)+

text \<open>
  The directories are exactly the live generations': from any tree of directories \<open>base\<close> the
  registry starts on, however generations are prepared, published, abandoned, dropped and disposed,
  every live generation is active and owns its root and everything it acquired, whole and present; no
  path is owned by two of them; nothing of \<open>base\<close> is ever removed; and every other directory
  belongs to a live generation or is what a failed removal left behind.
\<close>

theorem generations_own_their_roots:
  assumes "cap_initial base s" "(cap_step parent)\<^sup>*\<^sup>* s (cg, fs, ds)"
  shows "(\<forall>h\<in>set (live (cg, fs, ds)). rh_status h = HolderActive \<and> rh_root h \<noteq> None \<and>
      (\<forall>p. owned_by h p \<longrightarrow> p \<in> dn_present fs \<and> p \<notin> base) \<and>
      (\<forall>k\<in>set (live (cg, fs, ds)). \<forall>p. k \<noteq> h \<longrightarrow> owned_by h p \<longrightarrow> \<not> owned_by k p)) \<and>
    base \<subseteq> dn_present fs \<and>
    (\<forall>p\<in>dn_present fs. p \<in> base \<or> (\<exists>h\<in>set (live (cg, fs, ds)). owned_by h p) \<or> leftover fs p)"
proof -
  let ?hs = "live (cg, fs, ds)"
  have inv: "live_inv parent base (cg_next cg) ?hs fs" using cap.run_inv[OF assms] by simp
  then have ok: "holder_ok parent base (cg_next cg) fs h" if "h \<in> set ?hs" for h using that by (simp add: live_inv_def)
  have "rh_generation h = rh_generation k" if "h \<in> set ?hs" "k \<in> set ?hs" "owned_by h p" "owned_by k p" for h k p
    using holder_okD(6)[OF ok[OF that(1)] that(3)] holder_okD(6)[OF ok[OF that(2)] that(4)] root_name_inj by auto
  moreover have "h = k" if "h \<in> set ?hs" "k \<in> set ?hs" "rh_generation h = rh_generation k" for h k
    using inv that unfolding live_inv_def distinct_map by (meson inj_onD)
  ultimately have one: "h = k" if "h \<in> set ?hs" "k \<in> set ?hs" "owned_by h p" "owned_by k p" for h k p
    using that by blast
  have own: "p \<in> dn_present fs \<and> p \<notin> base" if "h \<in> set ?hs" "owned_by h p" for h p
    using holder_okD(4,5,6)[OF ok[OF that(1)]] that(2) below_sibling by metis
  have "rh_status h = HolderActive \<and> rh_root h \<noteq> None" if "h \<in> set ?hs" for h
    using holder_okD(2,3)[OF ok[OF that]] by simp
  with one own inv show ?thesis unfolding live_inv_def by blast
qed

subsection \<open>Numbers\<close>

definition live_numbers :: "registry \<Rightarrow> nat set" where
  "live_numbers s = rh_generation ` set (live s)"

text \<open>A number once handed out and no longer live stays so.\<close>

definition numbers_advance :: "registry \<Rightarrow> registry \<Rightarrow> bool" where
  "numbers_advance s t \<longleftrightarrow> cg_next (fst s) \<le> cg_next (fst t) \<and>
     (\<forall>g\<in>live_numbers t. g \<in> live_numbers s \<or> cg_next (fst s) < g)"

lemma numbers_advance_trans: "numbers_advance x y \<Longrightarrow> numbers_advance y z \<Longrightarrow> numbers_advance x z"
  unfolding numbers_advance_def by fastforce

lemma numbers_advance_step:
  assumes "cap_step parent s t" "cap_inv parent base s"
  shows "numbers_advance s t"
  using assms
proof (cases rule: cap_step.cases)
  case (cap_prepare scope executor deps cg fs r cg' fs' ds)
  then have "live_inv parent base (cg_next cg) (live (cg, fs, ds)) fs" "tree_closed base" using assms(2) by simp_all
  from live_inv_prepare[OF this cap_prepare(3,4)] cap_prepare(1,2) show ?thesis
    by (cases r; cases "cg_current cg") (auto simp: numbers_advance_def live_numbers_def)
qed (auto simp: numbers_advance_def live_numbers_def capability_publish_def capability_abandon_def capability_dispose_def
    split: option.splits if_splits prod.splits dest: released_drop)

text \<open>
  A generation number is never reissued: once a number was handed out and its generation is no
  longer live (retired, abandoned, refused, or never acquired), it is never current again, and a
  disposer that carries it is refused at any later time before it touches the registry or a directory.
\<close>

theorem generation_numbers_final:
  assumes "cap_initial base s" "(cap_step parent)\<^sup>*\<^sup>* s (cg, fs, ds)" "(cap_step parent)\<^sup>*\<^sup>* (cg, fs, ds) (cg', fs', ds')"
    and "g \<le> cg_next cg" "g \<notin> live_numbers (cg, fs, ds)"
  shows "g \<notin> live_numbers (cg', fs', ds') \<and> current_generation cg' \<noteq> Some g \<and>
    capability_dispose g cg' fs' = (Inl (stale_refusal cg' g), cg', fs')"
proof -
  have "numbers_advance (cg, fs, ds) (cg', fs', ds')"
  proof (rule cap.run_mono[OF assms(3) cap.run_inv[OF assms(1,2)]])
    show "numbers_advance x x" for x by (simp add: numbers_advance_def)
  qed (rule numbers_advance_trans numbers_advance_step, assumption+)+
  then have gone: "g \<notin> live_numbers (cg', fs', ds')" using assms(4,5) by (auto simp: numbers_advance_def)
  then have "current_generation cg' \<noteq> Some g"
    by (auto simp: live_numbers_def current_generation_def)
  with gone show ?thesis by (simp add: dispose_stale)
qed

subsection \<open>A concrete registry\<close>

definition demo_dirs :: dir_namespace where
  "demo_dirs = \<lparr>dn_present = {[], [''run'']}, dn_refuse = \<lambda>_. False, dn_stuck = \<lambda>_. None\<rparr>"

definition demo_holder :: resource_holder where
  "demo_holder = \<lparr>rh_scope = ''a'', rh_executor = ''x'', rh_generation = 1, rh_status = HolderActive,
     rh_root = Some [''run'', ''a-1''], rh_acquired = [[''run'', ''a-1'', ''d'']]\<rparr>"

definition demo_dirs_one :: dir_namespace where
  "demo_dirs_one = demo_dirs\<lparr>dn_present := {[], [''run''], [''run'', ''a-1''], [''run'', ''a-1'', ''d'']}\<rparr>"

lemma show_demo: "show_nat (Suc 0) = ''1''" "show_nat 2 = ''2''" "show_nat (Suc (Suc 0)) = ''2''"
  by (simp_all add: show_nat.simps[of "Suc 0"] show_nat.simps[of 2] numeral_2_eq_2[symmetric] char_of_def bit_0)

lemmas demo_cap_defs = demo_dirs_def demo_dirs_one_def demo_holder_def generations_new_def
  capability_prepare_def is_one_segment_def name_components_def generation_root_def show_demo create_dir_def

lemma demo_prepare:
  "capability_prepare [''run''] ''x'' ''a'' [''d''] generations_new demo_dirs =
     (Inr demo_holder, \<lparr>cg_next = 1, cg_current = None, cg_retired = []\<rparr>, demo_dirs_one)"
  by (simp add: demo_cap_defs Let_def) auto

lemma demo_initial: "cap_initial {[], [''run'']} (generations_new, demo_dirs, [])"
  by (auto simp: cap_initial_def demo_dirs_def tree_closed_def take_Cons')

lemma demo_prepared:
  "(cap_step [''run''])\<^sup>*\<^sup>* (generations_new, demo_dirs, [])
     (\<lparr>cg_next = 1, cg_current = None, cg_retired = []\<rparr>, demo_dirs_one, [demo_holder])"
  using cap_prepare[OF _ demo_prepare, where ds = "[]"] by (intro r_into_rtranclp) simp

theorem generations_own_their_roots_witness:
  "cap_initial {[], [''run'']} (generations_new, demo_dirs, []) \<and>
   {p. owned_by demo_holder p} \<subseteq> dn_present demo_dirs_one - {[], [''run'']}"
  using generations_own_their_roots[OF demo_initial demo_prepared] demo_initial by auto

lemma demo_abandoned:
  "cap_step [''run''] (\<lparr>cg_next = 1, cg_current = None, cg_retired = []\<rparr>, demo_dirs_one, [demo_holder])
     (\<lparr>cg_next = 1, cg_current = None, cg_retired = [1]\<rparr>, demo_dirs, [])"
proof -
  have "capability_abandon demo_holder \<lparr>cg_next = 1, cg_current = None, cg_retired = []\<rparr> demo_dirs_one =
    (HolderTerminated, \<lparr>cg_next = 1, cg_current = None, cg_retired = [1]\<rparr>, demo_dirs)"
    by (auto simp: capability_abandon_def holder_release_def holder_drop_def release_root_def retire_generation_def
        capability_generation_retention_def below_def Let_def demo_cap_defs)
  from cap_abandon[OF this, of "[''run'']" "[]" "[]"] show ?thesis by simp
qed

theorem generation_numbers_final_witness:
  "capability_dispose 1 \<lparr>cg_next = 1, cg_current = None, cg_retired = [1]\<rparr> demo_dirs =
     (Inl (AlreadyRetired 1), \<lparr>cg_next = 1, cg_current = None, cg_retired = [1]\<rparr>, demo_dirs)"
proof -
  let ?s = "(\<lparr>cg_next = 1, cg_current = None, cg_retired = [1]\<rparr>, demo_dirs, [])"
  have run: "(cap_step [''run''])\<^sup>*\<^sup>* (generations_new, demo_dirs, []) ?s"
    using demo_prepared demo_abandoned by (rule rtranclp.rtrancl_into_rtrancl)
  have later: "(cap_step [''run''])\<^sup>*\<^sup>* ?s ?s" by (rule rtranclp.rtrancl_refl)
  show ?thesis using generation_numbers_final[OF demo_initial run later, of 1]
    by (simp add: live_numbers_def stale_refusal_def)
qed

subsection \<open>A scope name that ends in a slash\<close>

text \<open>
  \<open>Path::components\<close> drops a trailing slash, so the scope \<open>a-1/\<close> counts as one segment; the root
  of its generation 2 is then \<open>a-1/-2\<close>, inside the root of generation 1 of scope \<open>a\<close>. When
  generation 1 is current and generation 2 is published, retiring generation 1 removes the root of
  generation 2 as well: the registry's current generation is active and its root is gone.
\<close>

definition demo_nested :: resource_holder where
  "demo_nested = \<lparr>rh_scope = ''a-1/'', rh_executor = ''x'', rh_generation = 2, rh_status = HolderActive,
     rh_root = Some [''run'', ''a-1'', ''-2''], rh_acquired = []\<rparr>"

lemma trailing_slash_shares_root:
  "let (r1, cg1, fs1) = capability_prepare [''run''] ''x'' ''a'' [] generations_new demo_dirs;
       (p1, cg2, fs2) = capability_publish (projr r1) cg1 fs1;
       (r2, cg3, fs3) = capability_prepare [''run''] ''x'' ''a-1/'' [] cg2 fs2;
       (p2, cg4, fs4) = capability_publish (projr r2) cg3 fs3
   in p2 = Inr () \<and> cg_current cg4 = Some demo_nested \<and> [''run'', ''a-1'', ''-2''] \<in> dn_present fs3 \<and>
      [''run'', ''a-1'', ''-2''] \<notin> dn_present fs4"
  by (simp add: demo_cap_defs demo_nested_def capability_publish_def holder_drop_def holder_release_def release_root_def
      retire_generation_def below_def Let_def)

end
