(* ===== verification/Effects.thy ===== *)
theory Effects
  imports Policy Read_Flights Budget_Ledger
begin

text \<open>
  The effect path of the executor (\<open>src/src/executor.rs\<close>): a request is admitted by the policy under
  a permission mode, planned in the attempt ledger, re-checked immediately before the effect, handed to
  the confined worker and settled. The attempt ledger is the \<open>attempts\<close> table of the task store
  (\<open>src/src/state.rs\<close>).

  The running system is a parameter: canonical paths, the identity of a target, the program behind the
  \<open>effect.request\<close> hook and the confined worker, which takes and returns the state of the world. So
  are the SHA-256 package and the error texts that a derive macro generates.
\<close>

subsection \<open>Errors\<close>

text \<open>The exit status and the parts of a launch error the settlement looks at; sources are texts.\<close>

record launch_output =
  lo_signal :: "int option"
  lo_code :: "int option"

datatype worker_error =
    OwnedLaunch owned_launch_error
  | OwnedPreparation string string
  | OwnedParent string
  | OwnedReleaseUnavailable
  | OwnedSeccomp string
  | ScopeRootUnavailable string
  | TargetMissing bytes
  | OutsideScope bytes
  | MetadataUnavailable string
  | NotRegularFile bytes
  | TargetChanged bytes
  | ReadFailed string
  | WriteFailed string
  | WriteMutationFailed string
  | WriteUnavailable
  | ExecUnavailable
  | EgressUnavailable
  | WriteTooLarge
  | WriteLengthOverflow string
  | ReadTooLarge
  | SandboxDenied bytes
  | SandboxSpawnFailed string
  | SandboxUnavailable string
  | ConfinedRunTimedOut
  | ConfinedRunKilled string
  | WriteIdentityUnattested string
  | WriteIdentityUnavailable string
and owned_launch_error =
    LaunchHelper string
  | LaunchProtocol string
  | LaunchObservation string string
  | LaunchWaiter string
  | LaunchUnproven worker_error
  | LaunchRelease worker_error worker_error
  | LaunchOutputRelease "launch_output option" worker_error
  | LaunchIdentity bytes
  | LaunchClose bytes string

datatype effect_store_error =
    MissingAttempt string
  | MissingTask string
  | DuplicateAttempt string
  | BudgetRead budget_error

datatype executor_error =
    PolicyRefusal policy_error
  | WorkerFailed worker_error
  | WorkerUnproven worker_error
  | WorkerSettlement worker_error effect_store_error
  | EffectCancelled
  | EffectPolicyDenied
  | EffectModeAsk
  | EffectModeDenied
  | EffectReadonly effect_class
  | HookFailed string
  | HookDenied string string
  | HookTransform string string string
  | StoreRefusal effect_store_error

subsection \<open>Requests\<close>

datatype effect_request =
    ReadRequest string bytes
  | WriteRequest string bytes bytes
  | ExecRequest string bytes
  | EgressRequest string string

fun request_class :: "effect_request \<Rightarrow> effect_class" where
  "request_class (ReadRequest g p) = ReadEffect"
| "request_class (WriteRequest g p bs) = WriteEffect"
| "request_class (ExecRequest g p) = ExecEffect"
| "request_class (EgressRequest g u) = EgressEffect"

fun request_grant :: "effect_request \<Rightarrow> string" where
  "request_grant (ReadRequest g p) = g"
| "request_grant (WriteRequest g p bs) = g"
| "request_grant (ExecRequest g p) = g"
| "request_grant (EgressRequest g u) = g"

definition redact_egress_url :: "string \<Rightarrow> string" where
  "redact_egress_url url = canonical_egress_target url"

fun describe_request :: "effect_request \<Rightarrow> string" where
  "describe_request (ReadRequest g p) = ''read '' @ from_utf8_lossy p"
| "describe_request (WriteRequest g p bs) = ''write '' @ from_utf8_lossy p"
| "describe_request (ExecRequest g p) = ''exec '' @ from_utf8_lossy p"
| "describe_request (EgressRequest g u) = ''egress '' @ redact_egress_url u"

fun target_path :: "effect_request \<Rightarrow> bytes" where
  "target_path (ReadRequest g p) = p"
| "target_path (WriteRequest g p bs) = p"
| "target_path (ExecRequest g p) = p"
| "target_path (EgressRequest g u) = u"

text \<open>\<open>path_field\<close>: the one field a hook may rewrite.\<close>

fun path_field :: "effect_request \<Rightarrow> bytes option" where
  "path_field (EgressRequest g u) = None"
| "path_field r = Some (target_path r)"

fun set_path_field :: "bytes \<Rightarrow> effect_request \<Rightarrow> effect_request" where
  "set_path_field q (ReadRequest g p) = ReadRequest g q"
| "set_path_field q (WriteRequest g p bs) = WriteRequest g q bs"
| "set_path_field q (ExecRequest g p) = ExecRequest g q"
| "set_path_field q (EgressRequest g u) = EgressRequest g u"

fun effect_class_text :: "effect_class \<Rightarrow> string" where
  "effect_class_text ReadEffect = ''read''"
| "effect_class_text WriteEffect = ''write''"
| "effect_class_text ExecEffect = ''exec''"
| "effect_class_text EgressEffect = ''egress''"
| "effect_class_text ModelEffect = ''model''"
| "effect_class_text ControlEffect = ''control''"

subsection \<open>The attempt ledger\<close>

record attempt_row =
  at_id :: string
  at_task :: string
  at_action :: string
  at_class :: string
  at_describe :: string
  at_state :: string
  at_detail :: "string option"

text \<open>
  The parts of the store the effect path reads and writes. Rows stand in rowid order; a preapproval
  counts while it is live.
\<close>

record effect_store =
  es_attempts :: "attempt_row list"
  es_lifecycle :: "string \<rightharpoonup> lifecycle"
  es_ledger :: ledger
  es_retained :: "string set"
  es_preapproved :: "string set"

fun task_text :: "task_id \<Rightarrow> string" where
  "task_text (TaskId t) = t"

text \<open>A generated id is an argument; the primary key refuses one that is taken.\<close>

definition plan_attempt ::
  "string \<Rightarrow> task_id \<Rightarrow> effect_class \<Rightarrow> string \<Rightarrow> effect_store \<Rightarrow> effect_store_error + effect_store" where
  "plan_attempt aid task cls desc st =
     (if aid \<in> at_id ` set (es_attempts st) then Inl (DuplicateAttempt aid)
      else Inr (st\<lparr>es_attempts := es_attempts st @
             [\<lparr>at_id = aid, at_task = task_text task, at_action = ''action-'' @ aid, at_class = effect_class_text cls,
               at_describe = desc, at_state = ''planned'', at_detail = None\<rparr>]\<rparr>))"

definition set_attempt_state ::
  "string \<Rightarrow> string \<Rightarrow> string option \<Rightarrow> effect_store \<Rightarrow> effect_store_error + effect_store" where
  "set_attempt_state aid state detail st =
     (if aid \<in> at_id ` set (es_attempts st)
      then Inr (st\<lparr>es_attempts := map (\<lambda>r. if at_id r = aid then r\<lparr>at_state := state, at_detail := detail\<rparr> else r)
             (es_attempts st)\<rparr>)
      else Inl (MissingAttempt aid))"

definition attempt_record :: "effect_store \<Rightarrow> string \<Rightarrow> (string \<times> string \<times> string option) option" where
  "attempt_record st aid =
     map_option (\<lambda>r. (at_task r, at_state r, at_detail r)) (find (\<lambda>r. at_id r = aid) (es_attempts st))"

definition attempt_state_of :: "effect_store \<Rightarrow> string \<Rightarrow> string option" where
  "attempt_state_of st aid = map_option at_state (find (\<lambda>r. at_id r = aid) (es_attempts st))"

definition latest_unresolved_attempt :: "effect_store \<Rightarrow> task_id \<Rightarrow> string option" where
  "latest_unresolved_attempt st task =
     map_option at_id (find (\<lambda>r. at_task r = task_text task \<and> (at_state r = ''running'' \<or> at_state r = ''unknown''))
       (rev (es_attempts st)))"

definition attempt_running :: "string \<Rightarrow> effect_store \<Rightarrow> effect_store_error + effect_store" where
  "attempt_running aid st = set_attempt_state aid ''running'' None st"

definition attempt_rejected :: "string \<Rightarrow> string \<Rightarrow> effect_store \<Rightarrow> effect_store_error + effect_store" where
  "attempt_rejected aid detail st = set_attempt_state aid ''rejected'' (Some detail) st"

definition attempt_confirmed :: "string \<Rightarrow> effect_store \<Rightarrow> effect_store_error + effect_store" where
  "attempt_confirmed aid st = set_attempt_state aid ''confirmed'' None st"

definition attempt_unknown :: "string \<Rightarrow> string \<Rightarrow> effect_store \<Rightarrow> effect_store_error + effect_store" where
  "attempt_unknown aid detail st = set_attempt_state aid ''unknown'' (Some detail) st"

definition store_task_cancelled :: "effect_store \<Rightarrow> task_id \<Rightarrow> effect_store_error + bool" where
  "store_task_cancelled st task =
     (case es_lifecycle st (task_text task) of
        None \<Rightarrow> Inl (MissingTask (task_text task))
      | Some l \<Rightarrow> Inr (l = LifecycleCancelled))"

subsection \<open>The running system\<close>

record write_identity =
  wi_file :: "u64 \<times> u64"
  wi_reuse :: "string + string"

datatype hook_decision = HookAllow | HookDeny | HookStop

fun hook_decision_as_str :: "hook_decision \<Rightarrow> string" where
  "hook_decision_as_str HookAllow = ''allow''"
| "hook_decision_as_str HookDeny = ''deny''"
| "hook_decision_as_str HookStop = ''stop''"

record hook_answer =
  ha_decision :: hook_decision
  ha_path :: "bytes option"

record hook_rewrite =
  hw_hook :: string
  hw_original :: bytes
  hw_transformed :: bytes

record 'w effect_env =
  ee_paths :: path_env
  ee_canonicalize :: "bytes \<Rightarrow> bytes option"
  ee_hook :: "(string \<times> (bytes \<Rightarrow> string + hook_answer)) option"
  ee_target_identity :: "bytes \<Rightarrow> bytes \<Rightarrow> worker_error + (u64 \<times> u64)"
  ee_write_identity :: "bytes \<Rightarrow> bytes \<Rightarrow> worker_error + write_identity"
  ee_read_once :: "bytes \<Rightarrow> bytes \<Rightarrow> 'w \<Rightarrow> (worker_error + read_observation) \<times> 'w"
  ee_write_once :: "bytes \<Rightarrow> bytes \<Rightarrow> write_identity \<Rightarrow> bytes \<Rightarrow> 'w \<Rightarrow> (worker_error + unit) \<times> 'w"
  ee_exec_once :: "bytes \<Rightarrow> bytes \<Rightarrow> 'w \<Rightarrow> (worker_error + unit) \<times> 'w"
  ee_egress_once :: "string \<Rightarrow> 'w \<Rightarrow> (worker_error + unit) \<times> 'w"
  ee_sha256_hex :: "bytes \<Rightarrow> string"
  ee_error_text :: "executor_error \<Rightarrow> string"
  ee_worker_text :: "worker_error \<Rightarrow> string"

record 'w executor =
  ex_policy :: policy
  ex_store :: effect_store
  ex_flights :: "read_flights option"
  ex_world :: 'w

subsection \<open>The decision context\<close>

definition path_starts_with :: "bytes \<Rightarrow> bytes \<Rightarrow> bool" where
  "path_starts_with p base = (take (length (path_components base)) (path_components p) = path_components base)"

definition derive_in_grant_scope :: "'w effect_env \<Rightarrow> bytes \<Rightarrow> bytes \<Rightarrow> executor_error + bool" where
  "derive_in_grant_scope env root target =
     (case (ee_canonicalize env root, ee_canonicalize env target) of
        (Some scope, Some canonical) \<Rightarrow>
          if path_starts_with canonical scope then Inr True else Inl (WorkerFailed (OutsideScope target))
      | _ \<Rightarrow> Inr False)"

definition checkpoint_boundary_id :: "string \<Rightarrow> string" where
  "checkpoint_boundary_id scope = ''ret:checkpoint:'' @ scope"

text \<open>The sum saturates at 64 bits.\<close>

definition budget_has_remaining :: "effect_store \<Rightarrow> string \<Rightarrow> executor_error + bool" where
  "budget_has_remaining st scope =
     (case budget_status_of (es_ledger st) scope of
        Inr status \<Rightarrow> Inr (min (bs_spent status + bs_reserved status) (2 ^ 64 - 1) < bs_limit_units status)
      | Inl (MissingBudgetScope s) \<Rightarrow> Inr False
      | Inl e \<Rightarrow> Inl (StoreRefusal (BudgetRead e)))"

definition utf8_path :: "bytes \<Rightarrow> string option" where
  "utf8_path p = (if utf8_valid p then Some p else None)"

definition admission_context_of ::
  "'w effect_env \<Rightarrow> effect_store \<Rightarrow> permission_mode \<Rightarrow> effect_class \<Rightarrow> string \<Rightarrow> bytes \<Rightarrow> bytes \<Rightarrow>
     executor_error + admission_context" where
  "admission_context_of env st m cls gid root target =
     (case derive_in_grant_scope env root target of
        Inl e \<Rightarrow> Inl e
      | Inr in_scope \<Rightarrow>
          (let scope_key = Option.bind (ee_canonicalize env root) utf8_path
           in case (case scope_key of Some scope \<Rightarrow> budget_has_remaining st scope | None \<Rightarrow> Inr False) of
                Inl e \<Rightarrow> Inl e
              | Inr budget \<Rightarrow>
                  (let checkpoint = (case scope_key of
                         Some scope \<Rightarrow> checkpoint_boundary_id scope \<in> es_retained st | None \<Rightarrow> False);
                       approved = (case Option.bind (utf8_path target) (preapproval_scope (ee_canonicalize env) cls gid) of
                         Some key \<Rightarrow> key \<in> es_preapproved st | None \<Rightarrow> False)
                   in Inr \<lparr>mode = m, in_grant_scope = in_scope, budget_remaining = budget, in_trusted_scope = in_scope,
                        has_checkpoint = checkpoint, previously_approved = approved,
                        within_declared_bounds =
                          (case cls of ExecEffect \<Rightarrow> in_scope | EgressEffect \<Rightarrow> approved | _ \<Rightarrow> False),
                        dry_run = False\<rparr>)))"

subsection \<open>The hook\<close>

definition hook_max_depth :: nat where
  "hook_max_depth = 1"

fun hook_loop ::
  "nat \<Rightarrow> string \<Rightarrow> (bytes \<Rightarrow> string + hook_answer) \<Rightarrow> bytes \<Rightarrow> executor_error + bytes" where
  "hook_loop 0 i run current = Inr current"
| "hook_loop (Suc n) i run current =
     (case run current of
        Inl e \<Rightarrow> Inl (HookFailed e)
      | Inr answer \<Rightarrow>
          if ha_decision answer \<noteq> HookAllow then Inl (HookDenied i (hook_decision_as_str (ha_decision answer)))
          else (case ha_path answer of None \<Rightarrow> Inr current | Some q \<Rightarrow> hook_loop n i run q))"

definition hook_transform ::
  "'w effect_env \<Rightarrow> effect_request \<Rightarrow> executor_error + effect_request \<times> hook_rewrite option" where
  "hook_transform env request =
     (case ee_hook env of
        None \<Rightarrow> Inr (request, None)
      | Some (i, run) \<Rightarrow>
          if path_field request = None then Inr (request, None)
          else
            (let original = target_path request
             in case hook_loop hook_max_depth i run original of
                  Inl e \<Rightarrow> Inl e
                | Inr current \<Rightarrow>
                    if current = original then Inr (request, None)
                    else Inr (set_path_field current request,
                          Some \<lparr>hw_hook = i, hw_original = original, hw_transformed = current\<rparr>)))"

subsection \<open>Admission\<close>

record admitted_effect =
  ae_task :: task_id
  ae_attempt :: string
  ae_request :: effect_request
  ae_mode :: permission_mode
  ae_identity :: "write_identity option"
  ae_scope_root :: bytes

definition mode_reason :: "mode_decision \<Rightarrow> string" where
  "mode_reason d = (if d = Ask then ''mode ask: permission required'' else ''mode deny'')"

definition reject_mode ::
  "string \<Rightarrow> mode_decision \<Rightarrow> effect_store \<Rightarrow> executor_error \<times> effect_store" where
  "reject_mode aid d st =
     (case attempt_rejected aid (mode_reason d) st of
        Inl e \<Rightarrow> (StoreRefusal e, st)
      | Inr st' \<Rightarrow> (if d = Ask then EffectModeAsk else EffectModeDenied, st'))"

definition pin_write :: "'w effect_env \<Rightarrow> bytes \<Rightarrow> effect_request \<Rightarrow> worker_error + write_identity option" where
  "pin_write env root request =
     (case request of
        WriteRequest g p bs \<Rightarrow> (case ee_write_identity env root p of Inl e \<Rightarrow> Inl e | Inr i \<Rightarrow> Inr (Some i))
      | _ \<Rightarrow> Inr None)"

definition join_flight ::
  "'w effect_env \<Rightarrow> bytes \<Rightarrow> permission_mode \<Rightarrow> effect_request \<Rightarrow> string \<Rightarrow> read_flights option \<Rightarrow> read_flights option" where
  "join_flight env root m request aid flights =
     (case (flights, request) of
        (Some r, ReadRequest g p) \<Rightarrow>
          (case ee_target_identity env root p of
             Inl e \<Rightarrow> flights
           | Inr snapshot \<Rightarrow>
               Some (snd (flight_subscribe \<lparr>rf_target = p, rf_snapshot = snapshot, rf_scope_root = root,
                            rf_rights = read_rights_new g m\<rparr> aid r)))
      | _ \<Rightarrow> flights)"

definition hook_detail :: "hook_rewrite \<Rightarrow> string" where
  "hook_detail w = ''hook '' @ hw_hook w @ '' rewrote '' @ from_utf8_lossy (hw_original w) @ '' to '' @
     from_utf8_lossy (hw_transformed w)"

definition admit_effect ::
  "'w effect_env \<Rightarrow> string \<Rightarrow> task_id \<Rightarrow> effect_request \<Rightarrow> permission_mode \<Rightarrow> 'w executor \<Rightarrow>
     (executor_error + admitted_effect) \<times> 'w executor" where
  "admit_effect env aid task request0 m ex =
     (case hook_transform env request0 of
        Inl e \<Rightarrow> (Inl e, ex)
      | Inr (request, rewrite) \<Rightarrow>
          (case admit (ex_policy ex) (request_grant request) (request_class request) of
             Inl e \<Rightarrow> (Inl (PolicyRefusal e), ex)
           | Inr g \<Rightarrow>
               (case admission_context_of env (ex_store ex) m (request_class request) (request_grant request)
                       (scope_root g) (target_path request) of
                  Inl e \<Rightarrow> (Inl e, ex)
                | Inr ctx \<Rightarrow>
                    (case pin_write env (scope_root g) request of
                       Inl e \<Rightarrow> (Inl (WorkerFailed e), ex)
                     | Inr pinned \<Rightarrow>
                         (let d = decide (ee_paths env) (ex_policy ex) (target_path request) (request_class request) ctx
                          in case plan_attempt aid task (request_class request) (describe_request request) (ex_store ex) of
                               Inl e \<Rightarrow> (Inl (StoreRefusal e), ex)
                             | Inr st \<Rightarrow>
                                 if d \<noteq> Allow
                                 then (case rewrite of
                                         Some w \<Rightarrow>
                                           (case attempt_rejected aid (hook_detail w) st of
                                              Inl e \<Rightarrow> (Inl (StoreRefusal e), ex\<lparr>ex_store := st\<rparr>)
                                            | Inr st' \<Rightarrow>
                                                (Inl (HookTransform (hw_hook w) (from_utf8_lossy (hw_original w))
                                                   (from_utf8_lossy (hw_transformed w))),
                                                 ex\<lparr>ex_store := st'\<rparr>))
                                       | None \<Rightarrow>
                                           (case reject_mode aid d st of (e, st') \<Rightarrow> (Inl e, ex\<lparr>ex_store := st'\<rparr>)))
                                 else (Inr \<lparr>ae_task = task, ae_attempt = aid, ae_request = request, ae_mode = m,
                                          ae_identity = pinned, ae_scope_root = scope_root g\<rparr>,
                                       ex\<lparr>ex_store := st,
                                          ex_flights := join_flight env (scope_root g) m request aid (ex_flights ex)\<rparr>))))))"

subsection \<open>Gates immediately before the effect\<close>

definition abandon_flight :: "string \<Rightarrow> 'w executor \<Rightarrow> 'w executor" where
  "abandon_flight aid ex = ex\<lparr>ex_flights := map_option (drop_member aid) (ex_flights ex)\<rparr>"

definition admit_settled ::
  "'w effect_env \<Rightarrow> string \<Rightarrow> string \<Rightarrow> effect_class \<Rightarrow> 'w executor \<Rightarrow> (executor_error + bytes) \<times> 'w executor" where
  "admit_settled env aid gid cls ex =
     (case admit (ex_policy ex) gid cls of
        Inr g \<Rightarrow> (Inr (scope_root g), ex)
      | Inl e \<Rightarrow>
          (case attempt_rejected aid (ee_error_text env (PolicyRefusal e)) (ex_store ex) of
             Inl se \<Rightarrow> (Inl (StoreRefusal se), ex)
           | Inr st \<Rightarrow> (Inl (PolicyRefusal e), ex\<lparr>ex_store := st\<rparr>)))"

definition reconsult_context ::
  "'w effect_env \<Rightarrow> admitted_effect \<Rightarrow> 'w executor \<Rightarrow> (executor_error + admission_context) \<times> 'w executor" where
  "reconsult_context env a ex =
     (case admission_context_of env (ex_store ex) (ae_mode a) (request_class (ae_request a))
             (request_grant (ae_request a)) (ae_scope_root a) (target_path (ae_request a)) of
        Inr ctx \<Rightarrow> (Inr ctx, ex)
      | Inl e \<Rightarrow>
          (case attempt_rejected (ae_attempt a) (ee_error_text env e) (ex_store ex) of
             Inl se \<Rightarrow> (Inl (StoreRefusal se), ex)
           | Inr st \<Rightarrow> (Inl e, ex\<lparr>ex_store := st\<rparr>)))"

definition mode_gate :: "'w effect_env \<Rightarrow> admitted_effect \<Rightarrow> 'w executor \<Rightarrow> (executor_error + unit) \<times> 'w executor" where
  "mode_gate env a ex =
     (case reconsult_context env a ex of
        (Inl e, ex1) \<Rightarrow> (Inl e, ex1)
      | (Inr ctx, ex1) \<Rightarrow>
          (let d = decide (ee_paths env) (ex_policy ex1) (target_path (ae_request a)) (request_class (ae_request a)) ctx
           in if d \<noteq> Allow
              then (case reject_mode (ae_attempt a) d (ex_store ex1) of (e, st) \<Rightarrow> (Inl e, ex1\<lparr>ex_store := st\<rparr>))
              else (Inr (), ex1)))"

definition execute_gates ::
  "'w effect_env \<Rightarrow> admitted_effect \<Rightarrow> 'w executor \<Rightarrow> (executor_error + unit) \<times> 'w executor" where
  "execute_gates env a ex =
     (case admit_settled env (ae_attempt a) (request_grant (ae_request a)) (request_class (ae_request a)) ex of
        (Inl e, ex1) \<Rightarrow> (Inl e, abandon_flight (ae_attempt a) ex1)
      | (Inr _, ex1) \<Rightarrow>
          (case store_task_cancelled (ex_store ex1) (ae_task a) of
             Inl se \<Rightarrow> (Inl (StoreRefusal se), ex1)
           | Inr True \<Rightarrow>
               (case attempt_rejected (ae_attempt a) ''task cancelled'' (ex_store ex1) of
                  Inl se \<Rightarrow> (Inl (StoreRefusal se), ex1)
                | Inr st \<Rightarrow> (Inl EffectCancelled, abandon_flight (ae_attempt a) (ex1\<lparr>ex_store := st\<rparr>)))
           | Inr False \<Rightarrow>
               (case mode_gate env a ex1 of
                  (Inl e, ex2) \<Rightarrow> (Inl e, abandon_flight (ae_attempt a) ex2)
                | (Inr _, ex2) \<Rightarrow>
                    (case attempt_running (ae_attempt a) (ex_store ex2) of
                       Inl se \<Rightarrow> (Inl (StoreRefusal se), ex2)
                     | Inr st \<Rightarrow> (Inr (), ex2\<lparr>ex_store := st\<rparr>)))))"

subsection \<open>The effect and its settlement\<close>

definition exit_data_mutated :: int where
  "exit_data_mutated = 21"

fun mutation_unknown :: "worker_error \<Rightarrow> bool" where
  "mutation_unknown (WriteMutationFailed s) = True"
| "mutation_unknown ConfinedRunTimedOut = True"
| "mutation_unknown (ConfinedRunKilled s) = True"
| "mutation_unknown (OwnedLaunch (LaunchUnproven p)) = True"
| "mutation_unknown (OwnedLaunch (LaunchRelease p s)) = mutation_unknown p"
| "mutation_unknown (OwnedLaunch (LaunchOutputRelease output r)) =
     (case output of None \<Rightarrow> True | Some out \<Rightarrow> lo_signal out \<noteq> None \<or> lo_code out = Some exit_data_mutated)"
| "mutation_unknown e = False"

fun is_write_mutation :: "worker_error \<Rightarrow> bool" where
  "is_write_mutation (WriteMutationFailed s) = True"
| "is_write_mutation e = False"

fun is_unproven :: "worker_error \<Rightarrow> bool" where
  "is_unproven (OwnedLaunch (LaunchUnproven p)) = True"
| "is_unproven e = False"

definition commit_worker_error ::
  "'w effect_env \<Rightarrow> string \<Rightarrow> worker_error \<Rightarrow> bool \<Rightarrow> 'w executor \<Rightarrow> executor_error \<times> 'w executor" where
  "commit_worker_error env aid err mutating ex =
     (let detail = ee_worker_text env err;
          unproven = (mutating \<and> is_unproven err);
          unknown = (is_write_mutation err \<or> mutating \<and> mutation_unknown err)
      in case (if unknown then attempt_unknown aid detail (ex_store ex) else attempt_rejected aid detail (ex_store ex)) of
           Inr st \<Rightarrow> (if unproven then WorkerUnproven err else WorkerFailed err, ex\<lparr>ex_store := st\<rparr>)
         | Inl se \<Rightarrow> (WorkerSettlement err se, ex))"

definition read_member ::
  "'w effect_env \<Rightarrow> admitted_effect \<Rightarrow> bytes \<Rightarrow> 'w executor \<Rightarrow> (worker_error + read_observation) \<times> 'w executor" where
  "read_member env a p ex =
     (let shared = (case ex_flights ex of None \<Rightarrow> (None, None) | Some r \<Rightarrow> map_prod id Some (take_shared (ae_attempt a) r))
      in case shared of
           (Some obs, flights) \<Rightarrow> (Inr obs, ex\<lparr>ex_flights := flights\<rparr>)
         | (None, flights) \<Rightarrow>
             (case ee_read_once env (ae_scope_root a) p (ex_world ex) of
                (Inl e, w) \<Rightarrow> (Inl e, ex\<lparr>ex_flights := flights, ex_world := w\<rparr>)
              | (Inr obs, w) \<Rightarrow>
                  (Inr obs, ex\<lparr>ex_flights := map_option (flight_settle (ae_attempt a) obs) flights, ex_world := w\<rparr>)))"

datatype effect_outcome =
    EffectRead bytes string
  | EffectExecuted string
  | EffectDenied string

definition read_result :: "read_observation \<Rightarrow> effect_outcome \<times> string" where
  "read_result obs = (EffectRead (ro_bytes obs) (ro_digest obs), ''read-performed sha256='' @ ro_digest obs)"

definition executed :: "string \<Rightarrow> effect_outcome \<times> string" where
  "executed detail = (EffectExecuted detail, detail)"

text \<open>The call to the worker, by request.\<close>

definition perform_effect ::
  "'w effect_env \<Rightarrow> admitted_effect \<Rightarrow> 'w executor \<Rightarrow> (worker_error + effect_outcome \<times> string) \<times> 'w executor" where
  "perform_effect env a ex =
     (case ae_request a of
        ReadRequest g p \<Rightarrow> map_prod (map_sum id read_result) id (read_member env a p ex)
      | WriteRequest g p bs \<Rightarrow>
          (case ae_identity a of
             None \<Rightarrow> (Inl (TargetChanged p), ex)
           | Some expected \<Rightarrow>
               (case ee_write_once env (ae_scope_root a) p expected bs (ex_world ex) of
                  (r, w) \<Rightarrow> (map_sum id (\<lambda>_. executed (''write-performed sha256='' @ ee_sha256_hex env bs)) r, ex\<lparr>ex_world := w\<rparr>)))
      | ExecRequest g p \<Rightarrow>
          (case ee_exec_once env (ae_scope_root a) p (ex_world ex) of
             (r, w) \<Rightarrow> (map_sum id (\<lambda>_. executed ''exec-performed exit=ok'') r, ex\<lparr>ex_world := w\<rparr>))
      | EgressRequest g u \<Rightarrow>
          (case ee_egress_once env u (ex_world ex) of
             (r, w) \<Rightarrow> (map_sum id (\<lambda>_. executed (''egress-performed '' @ redact_egress_url u)) r, ex\<lparr>ex_world := w\<rparr>)))"

fun is_write :: "effect_request \<Rightarrow> bool" where
  "is_write (WriteRequest g p bs) = True"
| "is_write r = False"

definition settle_effect ::
  "'w effect_env \<Rightarrow> admitted_effect \<Rightarrow> worker_error + effect_outcome \<times> string \<Rightarrow> 'w executor \<Rightarrow>
     (executor_error + effect_outcome) \<times> 'w executor" where
  "settle_effect env a effect ex =
     (case effect of
        Inr (result, detail) \<Rightarrow>
          (case set_attempt_state (ae_attempt a) ''confirmed'' (Some detail) (ex_store ex) of
             Inl se \<Rightarrow> (Inl (StoreRefusal se), ex)
           | Inr st \<Rightarrow> (Inr result, ex\<lparr>ex_store := st\<rparr>))
      | Inl err \<Rightarrow>
          map_prod Inl id (commit_worker_error env (ae_attempt a) err (is_write (ae_request a))
            (abandon_flight (ae_attempt a) ex)))"

definition execute_effect ::
  "'w effect_env \<Rightarrow> admitted_effect \<Rightarrow> 'w executor \<Rightarrow> (executor_error + effect_outcome) \<times> 'w executor" where
  "execute_effect env a ex =
     (case execute_gates env a ex of
        (Inl e, ex1) \<Rightarrow> (Inl e, ex1)
      | (Inr _, ex1) \<Rightarrow> (case perform_effect env a ex1 of (effect, ex2) \<Rightarrow> settle_effect env a effect ex2))"

subsection \<open>Other entries\<close>

text \<open>\<open>execute_unconfirmed\<close>: a read whose receipt is lost.\<close>

definition execute_unconfirmed ::
  "'w effect_env \<Rightarrow> admitted_effect \<Rightarrow> 'w executor \<Rightarrow> (executor_error + read_observation) \<times> 'w executor" where
  "execute_unconfirmed env a ex =
     (case ae_request a of
        ReadRequest g p \<Rightarrow>
          (case execute_gates env a ex of
             (Inl e, ex1) \<Rightarrow> (Inl e, ex1)
           | (Inr _, ex1) \<Rightarrow>
               (case read_member env a p ex1 of
                  (Inl e, ex2) \<Rightarrow> (Inl (WorkerFailed e), ex2)
                | (Inr obs, ex2) \<Rightarrow>
                    (case set_attempt_state (ae_attempt a) ''unknown''
                            (Some (''read-performed sha256='' @ ro_digest obs @ ''; receipt lost after dispatch'')) (ex_store ex2) of
                       Inl se \<Rightarrow> (Inl (StoreRefusal se), ex2)
                     | Inr st \<Rightarrow> (Inr obs, ex2\<lparr>ex_store := st\<rparr>))))
      | _ \<Rightarrow> (Inl (EffectReadonly (request_class (ae_request a))), ex))"

definition submit_preview ::
  "'w effect_env \<Rightarrow> string \<Rightarrow> task_id \<Rightarrow> effect_request \<Rightarrow> admission_context \<Rightarrow> 'w executor \<Rightarrow>
     (executor_error + mode_decision) \<times> 'w executor" where
  "submit_preview env aid task request ctx ex =
     (let d = decide (ee_paths env) (ex_policy ex) (target_path request) (request_class request) (ctx\<lparr>dry_run := True\<rparr>)
      in case plan_attempt aid task (request_class request) (describe_request request) (ex_store ex) of
           Inl se \<Rightarrow> (Inl (StoreRefusal se), ex)
         | Inr st \<Rightarrow>
             (case attempt_rejected aid ''dry run: preview only, no effect'' st of
                Inl se \<Rightarrow> (Inl (StoreRefusal se), ex\<lparr>ex_store := st\<rparr>)
              | Inr st' \<Rightarrow> (Inr d, ex\<lparr>ex_store := st'\<rparr>)))"

text \<open>Managed control writes are admitted by the read right of their grant.\<close>

record admitted_managed_write =
  mw_task :: task_id
  mw_attempt :: string
  mw_grant :: string
  mw_scope_root :: bytes
  mw_path :: bytes
  mw_bytes :: bytes
  mw_identity :: write_identity

definition admit_managed_write ::
  "'w effect_env \<Rightarrow> string \<Rightarrow> task_id \<Rightarrow> effect_request \<Rightarrow> 'w executor \<Rightarrow>
     (executor_error + admitted_managed_write) \<times> 'w executor" where
  "admit_managed_write env aid task request ex =
     (case request of
        WriteRequest gid p bs \<Rightarrow>
          (case admit (ex_policy ex) gid ReadEffect of
             Inl e \<Rightarrow> (Inl (PolicyRefusal e), ex)
           | Inr g \<Rightarrow>
               (case ee_write_identity env (scope_root g) p of
                  Inl e \<Rightarrow> (Inl (WorkerFailed e), ex)
                | Inr expected \<Rightarrow>
                    (case plan_attempt aid task WriteEffect (describe_request request) (ex_store ex) of
                       Inl se \<Rightarrow> (Inl (StoreRefusal se), ex)
                     | Inr st \<Rightarrow>
                         (Inr \<lparr>mw_task = task, mw_attempt = aid, mw_grant = gid, mw_scope_root = scope_root g, mw_path = p,
                               mw_bytes = bs, mw_identity = expected\<rparr>,
                          ex\<lparr>ex_store := st\<rparr>))))
      | _ \<Rightarrow> (Inl (EffectReadonly (request_class request)), ex))"

definition refuse_managed ::
  "string \<Rightarrow> string \<Rightarrow> executor_error \<Rightarrow> 'w executor \<Rightarrow> (executor_error + unit) \<times> 'w executor" where
  "refuse_managed aid reason err ex =
     (case attempt_rejected aid reason (ex_store ex) of
        Inl se \<Rightarrow> (Inl (StoreRefusal se), ex)
      | Inr st \<Rightarrow> (Inl err, ex\<lparr>ex_store := st\<rparr>))"

definition execute_managed_write ::
  "'w effect_env \<Rightarrow> admitted_managed_write \<Rightarrow> 'w executor \<Rightarrow> (executor_error + unit) \<times> 'w executor" where
  "execute_managed_write env a ex =
     (case admit_settled env (mw_attempt a) (mw_grant a) ReadEffect ex of
        (Inl e, ex1) \<Rightarrow> (Inl e, ex1)
      | (Inr root, ex1) \<Rightarrow>
          if root \<noteq> mw_scope_root a then refuse_managed (mw_attempt a) ''grant changed'' EffectPolicyDenied ex1
          else
            (case store_task_cancelled (ex_store ex1) (mw_task a) of
               Inl se \<Rightarrow> (Inl (StoreRefusal se), ex1)
             | Inr True \<Rightarrow> refuse_managed (mw_attempt a) ''task cancelled'' EffectCancelled ex1
             | Inr False \<Rightarrow>
                 if covers (ee_paths env) (ex_policy ex1) (mw_path a)
                 then refuse_managed (mw_attempt a) ''policy deny'' EffectPolicyDenied ex1
                 else
                   (case attempt_running (mw_attempt a) (ex_store ex1) of
                      Inl se \<Rightarrow> (Inl (StoreRefusal se), ex1)
                    | Inr st \<Rightarrow>
                        (case ee_write_once env (mw_scope_root a) (mw_path a) (mw_identity a) (mw_bytes a) (ex_world ex1) of
                           (Inl err, w) \<Rightarrow>
                             map_prod Inl id (commit_worker_error env (mw_attempt a) err True (ex1\<lparr>ex_store := st, ex_world := w\<rparr>))
                         | (Inr _, w) \<Rightarrow>
                             (case attempt_confirmed (mw_attempt a) st of
                                Inl se \<Rightarrow> (Inl (StoreRefusal se), ex1\<lparr>ex_store := st, ex_world := w\<rparr>)
                              | Inr st' \<Rightarrow> (Inr (), ex1\<lparr>ex_store := st', ex_world := w\<rparr>))))))"

end
