(* ===== verification/Procedure.thy ===== *)
theory Procedure
  imports Effects
begin

text \<open>
  Saved procedure segments (\<open>src/src/procedure.rs\<close>), their runs and steps in the store
  (\<open>src/src/state/learning.rs\<close> with the statements of \<open>src/src/state/sql/mod.rs\<close>), the executor's
  \<open>run_segment_step\<close> and the controller's \<open>run_procedure_step\<close> with the driver around it.

  Tables are lists in rowid order. Columns that this build writes from a typed value (the JSON of steps
  and snapshots, the spellings of run states and stop conditions) are kept decoded; the spellings have
  their own definitions. Revisions, positions and cursors are naturals: a stored one is below \<open>2 ^ 63\<close>,
  so \<open>cursor + 1\<close> does not wrap, and the range check of \<open>stored_u64\<close> is written out. Generated ids are
  arguments; a primary key refuses one that is taken. The name of the effect backend depends on the
  platform of the build and is an argument too.
\<close>

subsection \<open>Stop conditions\<close>

datatype stop_trigger = UnknownEffect | RevokedRight | NewMaterialChoice

definition stop_conditions :: "stop_trigger list" where
  "stop_conditions = [NewMaterialChoice, RevokedRight, UnknownEffect]"

fun stop_trigger_as_str :: "stop_trigger \<Rightarrow> string" where
  "stop_trigger_as_str UnknownEffect = ''unknown_effect''"
| "stop_trigger_as_str RevokedRight = ''revoked_right''"
| "stop_trigger_as_str NewMaterialChoice = ''new_material_choice''"

definition stop_trigger_parse :: "string \<Rightarrow> stop_trigger option" where
  "stop_trigger_parse raw = find (\<lambda>t. stop_trigger_as_str t = raw) stop_conditions"

datatype run_state = RunRunning | RunCompleted | RunStopped

fun run_state_as_str :: "run_state \<Rightarrow> string" where
  "run_state_as_str RunRunning = ''running''"
| "run_state_as_str RunCompleted = ''completed''"
| "run_state_as_str RunStopped = ''stopped''"

definition run_state_parse :: "string \<Rightarrow> run_state option" where
  "run_state_parse raw = find (\<lambda>s. run_state_as_str s = raw) [RunRunning, RunCompleted, RunStopped]"

subsection \<open>Errors\<close>

datatype procedure_store_error =
    AttemptStore effect_store_error
  | CorruptColumn string string
  | DuplicateRun string

datatype procedure_error =
    PlanMissing string
  | PlanSuperseded nat nat
  | NoExecutedSteps string
  | SchemaChanged nat nat
  | ToolChanged string string
  | UnboundParameter nat
  | CursorPastSteps string nat nat
  | SegmentMissing string
  | RunMissing string
  | StepOutOfOrder string nat nat
  | RunNotOpen string string
  | AlreadyCompleted string string
  | ProcedureStore procedure_store_error

definition stored_u64 :: "nat \<Rightarrow> procedure_store_error + nat" where
  "stored_u64 n = (if n < 2 ^ 63 then Inr n else Inl (CorruptColumn ''revision'' (show_nat n)))"

fun join_with :: "string \<Rightarrow> string list \<Rightarrow> string" where
  "join_with sep [] = []"
| "join_with sep [x] = x"
| "join_with sep (x # y # ys) = x @ sep @ join_with sep (y # ys)"

definition stop_conditions_stored :: "stop_trigger list \<Rightarrow> string" where
  "stop_conditions_stored ts = join_with '','' (map stop_trigger_as_str ts)"

fun collect_triggers :: "string list \<Rightarrow> procedure_store_error + stop_trigger list" where
  "collect_triggers [] = Inr []"
| "collect_triggers (name # names) =
     (case stop_trigger_parse name of
        None \<Rightarrow> Inl (CorruptColumn ''stop condition'' name)
      | Some t \<Rightarrow> (case collect_triggers names of Inl e \<Rightarrow> Inl e | Inr ts \<Rightarrow> Inr (t # ts)))"

definition stop_conditions_read :: "string \<Rightarrow> procedure_store_error + stop_trigger list" where
  "stop_conditions_read raw = collect_triggers (str_split (CHR '','') raw)"

subsection \<open>Templates\<close>

record segment_step =
  ss_position :: nat
  ss_tool :: string
  ss_expected_output :: string

record segment_template =
  sg_procedure_id :: string
  sg_version :: nat
  sg_task_id :: string
  sg_selection_revision :: nat
  sg_plan_revision :: nat
  sg_schema_version :: nat
  sg_tool_version :: string
  sg_stop_conditions :: "stop_trigger list"
  sg_steps :: "segment_step list"

text \<open>The columns of the plan tables that the derivation reads.\<close>

record plan_revision_record =
  pr_revision :: nat
  pr_selection_revision :: nat

record plan_obligation_record =
  po_capability :: string
  po_execution :: obligation_execution
  po_outcome_json :: "string option"

definition procedure_schema_version :: nat where
  "procedure_schema_version = 1"

definition procedure_id_for :: "task_id \<Rightarrow> nat \<Rightarrow> string" where
  "procedure_id_for task plan_revision = ''procedure:'' @ task_text task @ '':'' @ show_nat plan_revision"

fun executed_steps :: "nat \<Rightarrow> plan_obligation_record list \<Rightarrow> segment_step list" where
  "executed_steps pos [] = []"
| "executed_steps pos (row # rows) =
     (if po_execution row \<noteq> ObligationSatisfied then executed_steps pos rows
      else (case po_outcome_json row of
              None \<Rightarrow> executed_steps pos rows
            | Some expected \<Rightarrow>
                \<lparr>ss_position = pos + 1, ss_tool = po_capability row, ss_expected_output = expected\<rparr> #
                executed_steps (pos + 1) rows))"

definition segment_derive ::
  "task_id \<Rightarrow> nat \<Rightarrow> plan_revision_record \<Rightarrow> plan_obligation_record list \<Rightarrow> string \<Rightarrow>
     procedure_error + segment_template" where
  "segment_derive task selection_revision plan rows tool_version =
     (if pr_selection_revision plan \<noteq> selection_revision
      then Inl (PlanSuperseded (pr_selection_revision plan) selection_revision)
      else
        (let steps = executed_steps 0 rows
         in if steps = [] then Inl (NoExecutedSteps (task_text task))
            else Inr \<lparr>sg_procedure_id = procedure_id_for task (pr_revision plan), sg_version = 1,
                      sg_task_id = task_text task, sg_selection_revision = selection_revision,
                      sg_plan_revision = pr_revision plan, sg_schema_version = procedure_schema_version,
                      sg_tool_version = tool_version, sg_stop_conditions = stop_conditions, sg_steps = steps\<rparr>))"

definition segment_step_at :: "segment_template \<Rightarrow> nat \<Rightarrow> segment_step option" where
  "segment_step_at sg pos = find (\<lambda>s. ss_position s = pos) (sg_steps sg)"

definition remainder_after :: "segment_template \<Rightarrow> nat \<Rightarrow> segment_step list" where
  "remainder_after sg cursor = filter (\<lambda>s. ss_position s > cursor) (sg_steps sg)"

record pending_fork =
  pf_question_id :: question_id
  pf_revision :: nat

record segment_snapshot =
  sn_selection_revision :: nat
  sn_plan_revision :: nat
  sn_tool_version :: string
  sn_pending :: "pending_fork option"

definition segment_prepare :: "segment_template \<Rightarrow> segment_snapshot \<Rightarrow> procedure_error + unit" where
  "segment_prepare sg snap =
     (if sg_schema_version sg \<noteq> procedure_schema_version
      then Inl (SchemaChanged (sg_schema_version sg) procedure_schema_version)
      else if sg_tool_version sg \<noteq> sn_tool_version snap
      then Inl (ToolChanged (sg_tool_version sg) (sn_tool_version snap))
      else if sn_selection_revision snap \<noteq> sg_selection_revision sg \<or> sn_plan_revision snap \<noteq> sg_plan_revision sg
      then Inl (PlanSuperseded (sg_selection_revision sg) (sn_selection_revision snap))
      else Inr ())"

subsection \<open>Outcomes and stops\<close>

datatype step_standing = NotStarted | Landed | Unresolved

definition step_standing_parse :: "string option \<Rightarrow> step_standing option" where
  "step_standing_parse state =
     (case state of
        None \<Rightarrow> Some NotStarted
      | Some s \<Rightarrow>
          if s = ''planned'' \<or> s = ''rejected'' then Some NotStarted
          else if s = ''confirmed'' then Some Landed
          else if s = ''running'' \<or> s = ''unknown'' then Some Unresolved
          else None)"

record settled_step =
  se_position :: nat
  se_tool :: string
  se_attempt_id :: string
  se_result :: string

record prepared_step =
  pp_position :: nat
  pp_tool :: string
  pp_attempt_id :: string
  pp_standing :: step_standing
  pp_result :: "string option"

definition settled_result :: "string \<Rightarrow> string option \<Rightarrow> string" where
  "settled_result tool detail = (case detail of None \<Rightarrow> tool @ '' settled'' | Some d \<Rightarrow> d)"

definition prepared_settlement :: "prepared_step \<Rightarrow> settled_step" where
  "prepared_settlement p =
     \<lparr>se_position = pp_position p, se_tool = pp_tool p, se_attempt_id = pp_attempt_id p,
      se_result = settled_result (pp_tool p) (pp_result p)\<rparr>"

datatype stop_cause =
    CauseUnknownEffect string
  | CausePreparedStep nat string
  | CauseRevokedRight string
  | CauseNewMaterialChoice "pending_fork option"

datatype segment_outcome = StepSettled string string | StepStopped stop_cause

record stop_decision =
  sd_trigger :: stop_trigger
  sd_detail :: string

fun stop_decision_of :: "stop_cause \<Rightarrow> stop_decision" where
  "stop_decision_of (CauseUnknownEffect aid) =
     \<lparr>sd_trigger = UnknownEffect,
      sd_detail = ''attempt '' @ aid @ '' has no settled outcome; the remainder is not run''\<rparr>"
| "stop_decision_of (CausePreparedStep pos aid) =
     \<lparr>sd_trigger = UnknownEffect,
      sd_detail = ''step '' @ show_nat pos @ '' was prepared and never settled; the remainder is not run''\<rparr>"
| "stop_decision_of (CauseRevokedRight g) =
     \<lparr>sd_trigger = RevokedRight, sd_detail = ''right '' @ g @ '' is revoked; the remainder is not run''\<rparr>"
| "stop_decision_of (CauseNewMaterialChoice (Some fork)) =
     \<lparr>sd_trigger = NewMaterialChoice,
      sd_detail = ''fork '' @ question_raw (pf_question_id fork) @ '' revision '' @ show_nat (pf_revision fork) @
        '' is not the snapshot the segment started under; the remainder is not run''\<rparr>"
| "stop_decision_of (CauseNewMaterialChoice None) =
     \<lparr>sd_trigger = NewMaterialChoice,
      sd_detail = ''the fork the segment started under was decided; the remainder needs the new choice''\<rparr>"

datatype run_start = ResumeRun | FreshRun

type_synonym segment_binding = "nat \<rightharpoonup> effect_request"

definition binding_bind :: "nat \<Rightarrow> effect_request \<Rightarrow> segment_binding \<Rightarrow> segment_binding" where
  "binding_bind pos request b = b(pos \<mapsto> request)"

definition binding_request :: "segment_binding \<Rightarrow> nat \<Rightarrow> effect_request option" where
  "binding_request b pos = b pos"

record procedure_run =
  pn_run_id :: string
  pn_procedure_id :: string
  pn_procedure_version :: nat
  pn_task_id :: string
  pn_snapshot :: segment_snapshot
  pn_cursor :: nat
  pn_state :: run_state
  pn_stop :: "stop_decision option"

definition run_remainder :: "procedure_run \<Rightarrow> segment_template \<Rightarrow> segment_step list" where
  "run_remainder run sg = remainder_after sg (pn_cursor run)"

end
