(* ===== verification/Procedure_Store.thy ===== *)
theory Procedure_Store
  imports Procedure
begin

text \<open>
  The store's side of procedure segments: the three tables, every statement on them and the operations
  that issue them. A transaction that fails leaves the tables as they were.
\<close>

subsection \<open>Tables\<close>

record run_row =
  rw_run :: procedure_run
  rw_step_count :: nat

record step_row =
  sw_run_id :: string
  sw_position :: nat
  sw_tool :: string
  sw_settled :: bool
  sw_attempt_id :: string
  sw_result :: string

text \<open>
  The controller's view of the store: the effect path's state, the segment tables, and what the plan
  and question tables answer for a task (the current selection, the plan revisions oldest first, the
  plan rows, the pending question).
\<close>

record 'w proc_state =
  pc_exec :: "'w executor"
  pc_segments :: "segment_template list"
  pc_runs :: "run_row list"
  pc_steps :: "step_row list"
  pc_selection :: "string \<rightharpoonup> nat"
  pc_plans :: "string \<Rightarrow> plan_revision_record list"
  pc_plan_rows :: "string \<Rightarrow> plan_obligation_record list"
  pc_question :: "string \<rightharpoonup> pending_fork"

abbreviation pc_store :: "'w proc_state \<Rightarrow> effect_store" where
  "pc_store s \<equiv> ex_store (pc_exec s)"

definition row_run_id :: "run_row \<Rightarrow> string" where
  "row_run_id r = pn_run_id (rw_run r)"

definition row_state :: "run_row \<Rightarrow> run_state" where
  "row_state r = pn_state (rw_run r)"

text \<open>One \<open>UPDATE procedure_runs \<dots> WHERE run_id = ?1 AND \<dots>\<close>.\<close>

definition upd_run :: "string \<Rightarrow> (run_row \<Rightarrow> bool) \<Rightarrow> (procedure_run \<Rightarrow> procedure_run) \<Rightarrow> run_row list \<Rightarrow> run_row list" where
  "upd_run rid guard f = map (\<lambda>r. if row_run_id r = rid \<and> guard r then r\<lparr>rw_run := f (rw_run r)\<rparr> else r)"

subsection \<open>Retention\<close>

definition procedure_segment_retention :: nat where
  "procedure_segment_retention = 32"

definition procedure_run_retention :: nat where
  "procedure_run_retention = 16"

definition drop_runs :: "string set \<Rightarrow> 'w proc_state \<Rightarrow> 'w proc_state" where
  "drop_runs gone s =
     s\<lparr>pc_steps := filter (\<lambda>w. sw_run_id w \<notin> gone) (pc_steps s),
       pc_runs := filter (\<lambda>r. row_run_id r \<notin> gone) (pc_runs s)\<rparr>"

definition prune_procedure_runs :: "nat \<Rightarrow> 'w proc_state \<Rightarrow> 'w proc_state" where
  "prune_procedure_runs keep s =
     drop_runs (set (map row_run_id (drop keep (rev (filter (\<lambda>r. row_state r \<noteq> RunRunning) (pc_runs s)))))) s"

definition prune_procedure_segments :: "nat \<Rightarrow> 'w proc_state \<Rightarrow> 'w proc_state" where
  "prune_procedure_segments keep s =
     (let gone = set (map sg_procedure_id (drop keep (rev (pc_segments s))))
      in (drop_runs (set (map row_run_id (filter (\<lambda>r. pn_procedure_id (rw_run r) \<in> gone) (pc_runs s)))) s)
           \<lparr>pc_segments := filter (\<lambda>g. sg_procedure_id g \<notin> gone) (pc_segments s)\<rparr>)"

subsection \<open>Segments\<close>

definition procedure_segment :: "'w proc_state \<Rightarrow> string \<Rightarrow> procedure_error + segment_template" where
  "procedure_segment s pid =
     (case find (\<lambda>g. sg_procedure_id g = pid) (pc_segments s) of
        None \<Rightarrow> Inl (SegmentMissing pid) | Some g \<Rightarrow> Inr g)"

definition insert_segment :: "segment_template \<Rightarrow> 'w proc_state \<Rightarrow> 'w proc_state" where
  "insert_segment g s =
     (if sg_procedure_id g \<in> sg_procedure_id ` set (pc_segments s) then s
      else s\<lparr>pc_segments := pc_segments s @ [g]\<rparr>)"

fun stored_all :: "nat list \<Rightarrow> procedure_store_error + unit" where
  "stored_all [] = Inr ()"
| "stored_all (n # ns) = (case stored_u64 n of Inl e \<Rightarrow> Inl e | Inr _ \<Rightarrow> stored_all ns)"

definition record_procedure_segment ::
  "string \<Rightarrow> task_id \<Rightarrow> 'w proc_state \<Rightarrow> (procedure_error + segment_template) \<times> 'w proc_state" where
  "record_procedure_segment backend task s =
     (case pc_selection s (task_text task) of
        None \<Rightarrow> (Inl (PlanMissing (task_text task)), s)
      | Some selection \<Rightarrow>
          (case pc_plans s (task_text task) of
             [] \<Rightarrow> (Inl (PlanMissing (task_text task)), s)
           | plan # plans \<Rightarrow>
               (case segment_derive task selection (last (plan # plans)) (pc_plan_rows s (task_text task)) backend of
                  Inl e \<Rightarrow> (Inl e, s)
                | Inr g \<Rightarrow>
                    (case stored_all [sg_version g, sg_selection_revision g, sg_plan_revision g, sg_schema_version g] of
                       Inl e \<Rightarrow> (Inl (ProcedureStore e), s)
                     | Inr _ \<Rightarrow>
                         (let s' = prune_procedure_segments procedure_segment_retention (insert_segment g s)
                          in (procedure_segment s' (sg_procedure_id g), s'))))))"

subsection \<open>Runs\<close>

definition procedure_run_of :: "'w proc_state \<Rightarrow> string \<Rightarrow> procedure_error + procedure_run" where
  "procedure_run_of s rid =
     (case find (\<lambda>r. row_run_id r = rid) (pc_runs s) of
        None \<Rightarrow> Inl (RunMissing rid) | Some r \<Rightarrow> Inr (rw_run r))"

definition run_of_version :: "string \<Rightarrow> nat \<Rightarrow> run_row \<Rightarrow> bool" where
  "run_of_version pid version r \<longleftrightarrow> pn_procedure_id (rw_run r) = pid \<and> pn_procedure_version (rw_run r) = version"

definition resumable_procedure_run :: "'w proc_state \<Rightarrow> string \<Rightarrow> nat \<Rightarrow> procedure_error + procedure_run option" where
  "resumable_procedure_run s pid version =
     (case stored_u64 version of
        Inl e \<Rightarrow> Inl (ProcedureStore e)
      | Inr _ \<Rightarrow> Inr (map_option rw_run
          (find (\<lambda>r. run_of_version pid version r \<and> row_state r \<noteq> RunCompleted) (rev (pc_runs s)))))"

definition completed_procedure_run :: "'w proc_state \<Rightarrow> string \<Rightarrow> nat \<Rightarrow> procedure_error + string option" where
  "completed_procedure_run s pid version =
     (case stored_u64 version of
        Inl e \<Rightarrow> Inl (ProcedureStore e)
      | Inr _ \<Rightarrow> Inr (map_option row_run_id
          (find (\<lambda>r. run_of_version pid version r \<and> row_state r = RunCompleted) (rev (pc_runs s)))))"

definition reopen_procedure_run ::
  "procedure_run \<Rightarrow> 'w proc_state \<Rightarrow> (procedure_error + procedure_run) \<times> 'w proc_state" where
  "reopen_procedure_run run s =
     (if pn_state run \<noteq> RunStopped then (Inr run, s)
      else
        (let s' = s\<lparr>pc_runs := upd_run (pn_run_id run) (\<lambda>r. row_state r = RunStopped)
                      (\<lambda>r. r\<lparr>pn_state := RunRunning, pn_stop := None\<rparr>) (pc_runs s)\<rparr>
         in (procedure_run_of s' (pn_run_id run), s')))"

definition new_run :: "string \<Rightarrow> segment_template \<Rightarrow> segment_snapshot \<Rightarrow> run_row" where
  "new_run rid g snap =
     \<lparr>rw_run = \<lparr>pn_run_id = rid, pn_procedure_id = sg_procedure_id g, pn_procedure_version = sg_version g,
                pn_task_id = sg_task_id g, pn_snapshot = snap, pn_cursor = 0, pn_state = RunRunning, pn_stop = None\<rparr>,
      rw_step_count = length (sg_steps g)\<rparr>"

definition insert_procedure_run ::
  "string \<Rightarrow> segment_template \<Rightarrow> segment_snapshot \<Rightarrow> 'w proc_state \<Rightarrow> (procedure_error + procedure_run) \<times> 'w proc_state" where
  "insert_procedure_run rid g snap s =
     (case stored_all [sg_version g, length (sg_steps g)] of
        Inl e \<Rightarrow> (Inl (ProcedureStore e), s)
      | Inr _ \<Rightarrow>
          if rid \<in> row_run_id ` set (pc_runs s) then (Inl (ProcedureStore (DuplicateRun rid)), s)
          else
            (let s' = prune_procedure_runs procedure_run_retention (s\<lparr>pc_runs := pc_runs s @ [new_run rid g snap]\<rparr>)
             in (procedure_run_of s' rid, s')))"

definition start_procedure_run ::
  "string \<Rightarrow> segment_template \<Rightarrow> segment_snapshot \<Rightarrow> run_start \<Rightarrow> 'w proc_state \<Rightarrow>
     (procedure_error + procedure_run) \<times> 'w proc_state" where
  "start_procedure_run rid g snap open s =
     (case segment_prepare g snap of
        Inl e \<Rightarrow> (Inl e, s)
      | Inr _ \<Rightarrow>
          (case resumable_procedure_run s (sg_procedure_id g) (sg_version g) of
             Inl e \<Rightarrow> (Inl e, s)
           | Inr (Some run) \<Rightarrow> reopen_procedure_run run s
           | Inr None \<Rightarrow>
               (case (if open = ResumeRun then completed_procedure_run s (sg_procedure_id g) (sg_version g) else Inr None) of
                  Inl e \<Rightarrow> (Inl e, s)
                | Inr (Some done_id) \<Rightarrow> (Inl (AlreadyCompleted (sg_procedure_id g) done_id), s)
                | Inr None \<Rightarrow> insert_procedure_run rid g snap s)))"

definition run_transition ::
  "string \<Rightarrow> (run_row \<Rightarrow> bool) \<Rightarrow> (procedure_run \<Rightarrow> procedure_run) \<Rightarrow> 'w proc_state \<Rightarrow>
     (procedure_error + procedure_run) \<times> 'w proc_state" where
  "run_transition rid guard f s =
     (if list_ex (\<lambda>r. row_run_id r = rid \<and> guard r) (pc_runs s)
      then (let s' = s\<lparr>pc_runs := upd_run rid guard f (pc_runs s)\<rparr>
            in (procedure_run_of s' rid, s'))
      else (case procedure_run_of s rid of
              Inl e \<Rightarrow> (Inl e, s)
            | Inr run \<Rightarrow> (Inl (RunNotOpen rid (run_state_as_str (pn_state run))), s)))"

definition complete_procedure_run ::
  "string \<Rightarrow> 'w proc_state \<Rightarrow> (procedure_error + procedure_run) \<times> 'w proc_state" where
  "complete_procedure_run rid =
     run_transition rid (\<lambda>r. row_state r = RunRunning \<and> pn_cursor (rw_run r) = rw_step_count r)
       (\<lambda>r. r\<lparr>pn_state := RunCompleted\<rparr>)"

definition stop_procedure_run ::
  "string \<Rightarrow> stop_decision \<Rightarrow> 'w proc_state \<Rightarrow> (procedure_error + procedure_run) \<times> 'w proc_state" where
  "stop_procedure_run rid stop =
     run_transition rid (\<lambda>r. row_state r \<noteq> RunCompleted) (\<lambda>r. r\<lparr>pn_state := RunStopped, pn_stop := Some stop\<rparr>)"

subsection \<open>Steps\<close>

definition step_exists :: "'w proc_state \<Rightarrow> string \<Rightarrow> nat \<Rightarrow> bool" where
  "step_exists s rid pos \<longleftrightarrow> list_ex (\<lambda>w. sw_run_id w = rid \<and> sw_position w = pos) (pc_steps s)"

definition prepare_procedure_step ::
  "procedure_run \<Rightarrow> nat \<Rightarrow> string \<Rightarrow> string \<Rightarrow> 'w proc_state \<Rightarrow> (procedure_error + unit) \<times> 'w proc_state" where
  "prepare_procedure_step run pos tool aid s =
     (let refusal = StepOutOfOrder (pn_run_id run) pos (pn_cursor run)
      in if pn_state run \<noteq> RunRunning \<or> pos \<noteq> pn_cursor run + 1 then (Inl refusal, s)
         else (case stored_u64 pos of
                 Inl e \<Rightarrow> (Inl (ProcedureStore e), s)
               | Inr _ \<Rightarrow>
                   if step_exists s (pn_run_id run) pos then (Inl refusal, s)
                   else (Inr (), s\<lparr>pc_steps := pc_steps s @
                          [\<lparr>sw_run_id = pn_run_id run, sw_position = pos, sw_tool = tool, sw_settled = False,
                            sw_attempt_id = aid, sw_result = []\<rparr>]\<rparr>)))"

definition prepared_procedure_step :: "'w proc_state \<Rightarrow> string \<Rightarrow> procedure_error + prepared_step option" where
  "prepared_procedure_step s rid =
     (case sort_key sw_position (filter (\<lambda>w. sw_run_id w = rid \<and> \<not> sw_settled w) (pc_steps s)) of
        [] \<Rightarrow> Inr None
      | w # _ \<Rightarrow>
          (let joined = attempt_record (pc_store s) (sw_attempt_id w);
               state = map_option (\<lambda>(_, st, _). st) joined
           in case step_standing_parse state of
                None \<Rightarrow> Inl (ProcedureStore (CorruptColumn ''attempt state'' (case state of None \<Rightarrow> [] | Some st \<Rightarrow> st)))
              | Some standing \<Rightarrow>
                  Inr (Some \<lparr>pp_position = sw_position w, pp_tool = sw_tool w, pp_attempt_id = sw_attempt_id w,
                             pp_standing = standing, pp_result = Option.bind joined (\<lambda>(_, _, d). d)\<rparr>)))"

definition delete_prepared :: "string \<Rightarrow> nat \<Rightarrow> 'w proc_state \<Rightarrow> 'w proc_state" where
  "delete_prepared rid pos s =
     s\<lparr>pc_steps := filter (\<lambda>w. \<not> (sw_run_id w = rid \<and> sw_position w = pos \<and> \<not> sw_settled w)) (pc_steps s)\<rparr>"

definition release_unstarted_procedure_step ::
  "string \<Rightarrow> nat \<Rightarrow> 'w proc_state \<Rightarrow> (procedure_error + bool) \<times> 'w proc_state" where
  "release_unstarted_procedure_step rid pos s =
     (case prepared_procedure_step s rid of
        Inl e \<Rightarrow> (Inl e, s)
      | Inr None \<Rightarrow> (Inr False, s)
      | Inr (Some p) \<Rightarrow>
          if pp_position p \<noteq> pos \<or> pp_standing p \<noteq> NotStarted then (Inr False, s)
          else (case stored_u64 pos of
                  Inl e \<Rightarrow> (Inl (ProcedureStore e), s)
                | Inr _ \<Rightarrow>
                    (Inr (list_ex (\<lambda>w. sw_run_id w = rid \<and> sw_position w = pos \<and> \<not> sw_settled w) (pc_steps s)),
                     delete_prepared rid pos s)))"

definition settle_procedure_step ::
  "string \<Rightarrow> settled_step \<Rightarrow> 'w proc_state \<Rightarrow> (procedure_error + procedure_run) \<times> 'w proc_state" where
  "settle_procedure_step rid step s =
     (case procedure_run_of s rid of
        Inl e \<Rightarrow> (Inl e, s)
      | Inr run \<Rightarrow>
          (case stored_all [se_position step, pn_cursor run] of
             Inl e \<Rightarrow> (Inl (ProcedureStore e), s)
           | Inr _ \<Rightarrow>
               (let target = (\<lambda>w. sw_run_id w = rid \<and> sw_position w = se_position step \<and> \<not> sw_settled w);
                    movable = (\<lambda>r. pn_cursor (rw_run r) = pn_cursor run \<and> row_state r = RunRunning)
                in if \<not> list_ex target (pc_steps s) \<or> \<not> list_ex (\<lambda>r. row_run_id r = rid \<and> movable r) (pc_runs s)
                   then (Inl (StepOutOfOrder rid (se_position step) (pn_cursor run)), s)
                   else
                     (let s' = s\<lparr>pc_steps := map (\<lambda>w. if target w
                                    then w\<lparr>sw_settled := True, sw_attempt_id := se_attempt_id step, sw_result := se_result step\<rparr>
                                    else w) (pc_steps s),
                                 pc_runs := upd_run rid movable (\<lambda>r. r\<lparr>pn_cursor := se_position step\<rparr>) (pc_runs s)\<rparr>
                      in (procedure_run_of s' rid, s')))))"

definition procedure_run_steps :: "'w proc_state \<Rightarrow> string \<Rightarrow> settled_step list" where
  "procedure_run_steps s rid =
     map (\<lambda>w. \<lparr>se_position = sw_position w, se_tool = sw_tool w, se_attempt_id = sw_attempt_id w, se_result = sw_result w\<rparr>)
       (sort_key sw_position (filter (\<lambda>w. sw_run_id w = rid \<and> sw_settled w) (pc_steps s)))"

subsection \<open>The task around a run\<close>

definition mark_outcome_unknown :: "task_id \<Rightarrow> 'w proc_state \<Rightarrow> 'w proc_state" where
  "mark_outcome_unknown task s =
     (case es_lifecycle (pc_store s) (task_text task) of
        None \<Rightarrow> s
      | Some l \<Rightarrow>
          if lifecycle_is_terminal l then s
          else s\<lparr>pc_exec := (pc_exec s)\<lparr>ex_store := (pc_store s)
                 \<lparr>es_lifecycle := (es_lifecycle (pc_store s))(task_text task \<mapsto> LifecycleBlocked)\<rparr>\<rparr>\<rparr>)"

text \<open>The part of \<open>snapshot\<close> that is kept: the task's lifecycle.\<close>

definition task_snapshot :: "'w proc_state \<Rightarrow> task_id \<Rightarrow> effect_store_error + lifecycle" where
  "task_snapshot s task =
     (case es_lifecycle (pc_store s) (task_text task) of
        None \<Rightarrow> Inl (MissingTask (task_text task)) | Some l \<Rightarrow> Inr l)"

end
