(* ===== verification/Procedure_Control.thy ===== *)
theory Procedure_Control
  imports Procedure_Store
begin

text \<open>
  One step of a saved segment: \<open>run_segment_step\<close> of the executor and \<open>run_procedure_step\<close> of the
  controller, with the driver that repeats it (\<open>run_saved_segment\<close>) and the reconciliation of an unknown
  attempt.
\<close>

datatype segment_error = SegmentProcedure procedure_error | SegmentExecutor executor_error

datatype controller_error =
    ControllerStore effect_store_error
  | ControllerProcedure procedure_error
  | ControllerExecutor segment_error
  | ReconcileMismatch string string string
  | ReconcileState string string
  | ReconcileMarker string

subsection \<open>The executor's step\<close>

definition revoked_cause :: "executor_error \<Rightarrow> string option" where
  "revoked_cause e = (case e of PolicyRefusal (GrantRevoked g) \<Rightarrow> Some g | _ \<Rightarrow> None)"

text \<open>The answer the ledger gives once the effect returned.\<close>

definition step_answer ::
  "string \<Rightarrow> string \<Rightarrow> executor_error + effect_outcome \<Rightarrow> string \<Rightarrow> string option \<Rightarrow> segment_error + segment_outcome" where
  "step_answer tool aid effect state detail =
     (case step_standing_parse (Some state) of
        Some Unresolved \<Rightarrow> Inr (StepStopped (CauseUnknownEffect aid))
      | Some NotStarted \<Rightarrow>
          (case effect of
             Inl e \<Rightarrow> (case revoked_cause e of
                         Some g \<Rightarrow> Inr (StepStopped (CauseRevokedRight g)) | None \<Rightarrow> Inl (SegmentExecutor e))
           | Inr _ \<Rightarrow> Inr (StepStopped (CauseUnknownEffect aid)))
      | Some Landed \<Rightarrow>
          (case effect of Inl e \<Rightarrow> Inl (SegmentExecutor e) | Inr _ \<Rightarrow> Inr (StepSettled aid (settled_result tool detail)))
      | None \<Rightarrow> Inr (StepStopped (CauseUnknownEffect aid)))"

definition run_segment_step ::
  "'w effect_env \<Rightarrow> string \<Rightarrow> task_id \<Rightarrow> segment_template \<Rightarrow> procedure_run \<Rightarrow> segment_binding \<Rightarrow> permission_mode \<Rightarrow>
     'w proc_state \<Rightarrow> (segment_error + segment_outcome) \<times> 'w proc_state" where
  "run_segment_step env aid task g run binding m s =
     (let pos = pn_cursor run + 1
      in case segment_step_at g pos of
           None \<Rightarrow> (Inl (SegmentProcedure (CursorPastSteps (sg_procedure_id g) (pn_cursor run) (length (sg_steps g)))), s)
         | Some step \<Rightarrow>
             (case binding_request binding pos of
                None \<Rightarrow> (Inl (SegmentProcedure (UnboundParameter pos)), s)
              | Some request \<Rightarrow>
                  (case admit_effect env aid task request m (pc_exec s) of
                     (Inl e, ex) \<Rightarrow>
                       (case revoked_cause e of
                          Some gid \<Rightarrow> (Inr (StepStopped (CauseRevokedRight gid)), s\<lparr>pc_exec := ex\<rparr>)
                        | None \<Rightarrow> (Inl (SegmentExecutor e), s\<lparr>pc_exec := ex\<rparr>))
                   | (Inr a, ex) \<Rightarrow>
                       (case prepare_procedure_step run pos (ss_tool step) (ae_attempt a) (s\<lparr>pc_exec := ex\<rparr>) of
                          (Inl e, s1) \<Rightarrow> (Inl (SegmentProcedure e), s1)
                        | (Inr _, s1) \<Rightarrow>
                            (case execute_effect env a (pc_exec s1) of
                               (effect, ex') \<Rightarrow>
                                 (case attempt_record (ex_store ex') (ae_attempt a) of
                                    None \<Rightarrow> (Inl (SegmentExecutor (StoreRefusal (MissingAttempt (ae_attempt a)))), s1\<lparr>pc_exec := ex'\<rparr>)
                                  | Some (_, state, detail) \<Rightarrow>
                                      (step_answer (ss_tool step) (ae_attempt a) effect state detail, s1\<lparr>pc_exec := ex'\<rparr>)))))))"

subsection \<open>The controller's step\<close>

datatype segment_step_outcome =
    SegmentStepped procedure_run settled_step
  | SegmentStopped procedure_run lifecycle stop_cause
  | SegmentCompleted procedure_run lifecycle

definition live_segment_snapshot :: "string \<Rightarrow> 'w proc_state \<Rightarrow> task_id \<Rightarrow> procedure_error + segment_snapshot" where
  "live_segment_snapshot backend s task =
     (case pc_selection s (task_text task) of
        None \<Rightarrow> Inl (PlanMissing (task_text task))
      | Some selection \<Rightarrow>
          Inr \<lparr>sn_selection_revision = selection,
               sn_plan_revision = (case pc_plans s (task_text task) of [] \<Rightarrow> 0 | p # ps \<Rightarrow> pr_revision (last (p # ps))),
               sn_tool_version = backend, sn_pending = pc_question s (task_text task)\<rparr>)"

fun blocks_task :: "stop_cause \<Rightarrow> bool" where
  "blocks_task (CauseUnknownEffect aid) = True"
| "blocks_task (CausePreparedStep pos aid) = True"
| "blocks_task cause = False"

definition stop_segment ::
  "task_id \<Rightarrow> procedure_run \<Rightarrow> stop_cause \<Rightarrow> 'w proc_state \<Rightarrow> (controller_error + segment_step_outcome) \<times> 'w proc_state" where
  "stop_segment task run cause s =
     (let s1 = (if blocks_task cause then mark_outcome_unknown task s else s)
      in case stop_procedure_run (pn_run_id run) (stop_decision_of cause) s1 of
           (Inl e, s2) \<Rightarrow> (Inl (ControllerProcedure e), s2)
         | (Inr run', s2) \<Rightarrow>
             (case task_snapshot s2 task of
                Inl e \<Rightarrow> (Inl (ControllerStore e), s2)
              | Inr snapshot \<Rightarrow> (Inr (SegmentStopped run' snapshot cause), s2)))"

definition complete_segment ::
  "task_id \<Rightarrow> procedure_run \<Rightarrow> 'w proc_state \<Rightarrow> (controller_error + segment_step_outcome) \<times> 'w proc_state" where
  "complete_segment task run s =
     (case complete_procedure_run (pn_run_id run) s of
        (Inl e, s1) \<Rightarrow> (Inl (ControllerProcedure e), s1)
      | (Inr run', s1) \<Rightarrow>
          (case task_snapshot s1 task of
             Inl e \<Rightarrow> (Inl (ControllerStore e), s1)
           | Inr snapshot \<Rightarrow> (Inr (SegmentCompleted run' snapshot), s1)))"

text \<open>
  What an earlier call left prepared: released, settled from the ledger, or the cause to stop on.
\<close>

definition answer_prepared ::
  "procedure_run \<Rightarrow> 'w proc_state \<Rightarrow> (procedure_error + procedure_run \<times> stop_cause option) \<times> 'w proc_state" where
  "answer_prepared run s =
     (case prepared_procedure_step s (pn_run_id run) of
        Inl e \<Rightarrow> (Inl e, s)
      | Inr None \<Rightarrow> (Inr (run, None), s)
      | Inr (Some p) \<Rightarrow>
          (case pp_standing p of
             NotStarted \<Rightarrow>
               (case release_unstarted_procedure_step (pn_run_id run) (pp_position p) s of
                  (Inl e, s1) \<Rightarrow> (Inl e, s1) | (Inr _, s1) \<Rightarrow> (Inr (run, None), s1))
           | Landed \<Rightarrow>
               (case settle_procedure_step (pn_run_id run) (prepared_settlement p) s of
                  (Inl e, s1) \<Rightarrow> (Inl e, s1) | (Inr run', s1) \<Rightarrow> (Inr (run', None), s1))
           | Unresolved \<Rightarrow> (Inr (run, Some (CausePreparedStep (pp_position p) (pp_attempt_id p))), s)))"

text \<open>The step itself, once every check before it passed, and what follows its outcome.\<close>

definition perform_segment_step ::
  "'w effect_env \<Rightarrow> string \<Rightarrow> task_id \<Rightarrow> segment_template \<Rightarrow> procedure_run \<Rightarrow> segment_binding \<Rightarrow> permission_mode \<Rightarrow>
     'w proc_state \<Rightarrow> (controller_error + segment_step_outcome) \<times> 'w proc_state" where
  "perform_segment_step env aid task g run binding m s =
     (case segment_step_at g (pn_cursor run + 1) of
        None \<Rightarrow> (Inl (ControllerProcedure (CursorPastSteps (sg_procedure_id g) (pn_cursor run) (length (sg_steps g)))), s)
      | Some step \<Rightarrow>
          (case run_segment_step env aid task g run binding m s of
             (Inl error, s1) \<Rightarrow>
               (case release_unstarted_procedure_step (pn_run_id run) (ss_position step) s1 of
                  (Inl e, s2) \<Rightarrow> (Inl (ControllerProcedure e), s2)
                | (Inr _, s2) \<Rightarrow> (Inl (ControllerExecutor error), s2))
           | (Inr (StepStopped cause), s1) \<Rightarrow>
               (case release_unstarted_procedure_step (pn_run_id run) (ss_position step) s1 of
                  (Inl e, s2) \<Rightarrow> (Inl (ControllerProcedure e), s2)
                | (Inr _, s2) \<Rightarrow> stop_segment task run cause s2)
           | (Inr (StepSettled attempt result), s1) \<Rightarrow>
               (let settled = \<lparr>se_position = ss_position step, se_tool = ss_tool step, se_attempt_id = attempt, se_result = result\<rparr>
                in case settle_procedure_step (pn_run_id run) settled s1 of
                     (Inl e, s2) \<Rightarrow> (Inl (ControllerProcedure e), s2)
                   | (Inr run', s2) \<Rightarrow>
                       if run_remainder run' g = [] then complete_segment task run' s2
                       else (Inr (SegmentStepped run' settled), s2))))"

definition run_procedure_step ::
  "'w effect_env \<Rightarrow> string \<Rightarrow> string \<Rightarrow> string \<Rightarrow> task_id \<Rightarrow> string \<Rightarrow> segment_binding \<Rightarrow> permission_mode \<Rightarrow> run_start \<Rightarrow>
     'w proc_state \<Rightarrow> (controller_error + segment_step_outcome) \<times> 'w proc_state" where
  "run_procedure_step env backend rid aid task pid binding m open s =
     (case procedure_segment s pid of
        Inl e \<Rightarrow> (Inl (ControllerProcedure e), s)
      | Inr g \<Rightarrow>
          (case live_segment_snapshot backend s task of
             Inl e \<Rightarrow> (Inl (ControllerProcedure e), s)
           | Inr live \<Rightarrow>
               (case start_procedure_run rid g live open s of
                  (Inl e, s1) \<Rightarrow> (Inl (ControllerProcedure e), s1)
                | (Inr run0, s1) \<Rightarrow>
                    (case answer_prepared run0 s1 of
                       (Inl e, s2) \<Rightarrow> (Inl (ControllerProcedure e), s2)
                     | (Inr (run, Some cause), s2) \<Rightarrow> stop_segment task run cause s2
                     | (Inr (run, None), s2) \<Rightarrow>
                         if sn_pending live \<noteq> sn_pending (pn_snapshot run)
                         then stop_segment task run (CauseNewMaterialChoice (sn_pending live)) s2
                         else (case latest_unresolved_attempt (pc_store s2) task of
                                 Some unresolved \<Rightarrow> stop_segment task run (CauseUnknownEffect unresolved) s2
                               | None \<Rightarrow>
                                   if run_remainder run g = [] then complete_segment task run s2
                                   else perform_segment_step env aid task g run binding m s2)))))"

subsection \<open>The driver\<close>

definition saved_segment :: "string \<Rightarrow> 'w proc_state \<Rightarrow> task_id \<Rightarrow> controller_error + segment_template option" where
  "saved_segment backend s task =
     (case pc_plans s (task_text task) of
        [] \<Rightarrow> Inr None
      | p # ps \<Rightarrow>
          (case procedure_segment s (procedure_id_for task (pr_revision (last (p # ps)))) of
             Inl (SegmentMissing _) \<Rightarrow> Inr None
           | Inl e \<Rightarrow> Inl (ControllerProcedure e)
           | Inr g \<Rightarrow>
               (case live_segment_snapshot backend s task of
                  Inl e \<Rightarrow> Inl (ControllerProcedure e)
                | Inr live \<Rightarrow> (case segment_prepare g live of Inr _ \<Rightarrow> Inr (Some g) | Inl _ \<Rightarrow> Inr None))))"

definition segment_binding_of :: "bytes \<Rightarrow> segment_template \<Rightarrow> string \<Rightarrow> segment_binding" where
  "segment_binding_of scoped_file g gid =
     fold (\<lambda>step. binding_bind (ss_position step) (ReadRequest gid scoped_file)) (sg_steps g) Map.empty"

datatype segment_pass =
    PassStopped stop_cause lifecycle
  | PassFinished

text \<open>
  The loop of \<open>run_saved_segment\<close> up to the completion guard of the task. Every turn mints its ids, so
  the loop takes the stream of generated run and attempt ids; it may not end, hence the partial function.
\<close>

partial_function (option) segment_loop ::
  "'w effect_env \<Rightarrow> string \<Rightarrow> (nat \<Rightarrow> string) \<Rightarrow> (nat \<Rightarrow> string) \<Rightarrow> nat \<Rightarrow> task_id \<Rightarrow> string \<Rightarrow> segment_binding \<Rightarrow>
     'w proc_state \<Rightarrow> ((controller_error + segment_pass) \<times> 'w proc_state) option" where
  "segment_loop env backend rids aids turn task pid binding s =
     (case run_procedure_step env backend (rids turn) (aids turn) task pid binding Manual ResumeRun s of
        (Inr (SegmentStepped _ _), s') \<Rightarrow> segment_loop env backend rids aids (Suc turn) task pid binding s'
      | (Inr (SegmentStopped _ snapshot cause), s') \<Rightarrow> Some (Inr (PassStopped cause snapshot), s')
      | (Inr (SegmentCompleted _ _), s') \<Rightarrow> Some (Inr PassFinished, s')
      | (Inl (ControllerProcedure (AlreadyCompleted _ _)), s') \<Rightarrow> Some (Inr PassFinished, s')
      | (Inl e, s') \<Rightarrow> Some (Inl e, s'))"

definition run_saved_segment ::
  "'w effect_env \<Rightarrow> string \<Rightarrow> (nat \<Rightarrow> string) \<Rightarrow> (nat \<Rightarrow> string) \<Rightarrow> bytes \<Rightarrow> task_id \<Rightarrow> string \<Rightarrow> segment_template \<Rightarrow>
     'w proc_state \<Rightarrow> ((controller_error + segment_pass) \<times> 'w proc_state) option" where
  "run_saved_segment env backend rids aids scoped_file task gid g s =
     segment_loop env backend rids aids 0 task (sg_procedure_id g) (segment_binding_of scoped_file g gid) s"

subsection \<open>Reconciliation\<close>

text \<open>
  The checks of \<open>reconcile_unknown\<close> and its write to the attempt ledger; the retained record, the
  evidence row and the completion guard around it are not kept.
\<close>

definition is_lower_hex :: "byte \<Rightarrow> bool" where
  "is_lower_hex c \<longleftrightarrow> is_ascii_digit c \<or> (97 \<le> byte_val c \<and> byte_val c \<le> 102)"

definition read_performed_digest :: "string \<Rightarrow> string option" where
  "read_performed_digest detail =
     (case strip_prefix ''read-performed sha256='' detail of
        None \<Rightarrow> None
      | Some rest \<Rightarrow> (let digest = takeWhile is_lower_hex rest in if length digest = 64 then Some digest else None))"

definition reconcile_ledger ::
  "task_id \<Rightarrow> string \<Rightarrow> 'w proc_state \<Rightarrow> (controller_error + string) \<times> 'w proc_state" where
  "reconcile_ledger task aid s =
     (case attempt_record (pc_store s) aid of
        None \<Rightarrow> (Inl (ControllerStore (MissingAttempt aid)), s)
      | Some (owner_task, state, detail) \<Rightarrow>
          if owner_task \<noteq> task_text task then (Inl (ReconcileMismatch aid owner_task (task_text task)), s)
          else if state \<noteq> ''unknown'' then (Inl (ReconcileState aid state), s)
          else (case Option.bind detail read_performed_digest of
                  None \<Rightarrow> (Inl (ReconcileMarker aid), s)
                | Some marker \<Rightarrow>
                    (case set_attempt_state aid ''confirmed'' (Some (''read-performed sha256='' @ marker)) (pc_store s) of
                       Inl e \<Rightarrow> (Inl (ControllerStore e), s)
                     | Inr st \<Rightarrow> (Inr marker, s\<lparr>pc_exec := (pc_exec s)\<lparr>ex_store := st\<rparr>\<rparr>))))"

end
