(* ===== verification/Effects_Theorems.thy ===== *)
theory Effects_Theorems
  imports Effects Policy_Theorems
begin

text \<open>
  What the effect path guarantees: the worker is reached only through every gate, the ledger carries a
  durable trace of every effect at every point where the process may stop, a revocation takes effect
  between admission and execution, and members of one read flight share one physical read.
\<close>

section \<open>The attempt ledger\<close>

definition attempt_of :: "effect_store \<Rightarrow> string \<Rightarrow> attempt_row option" where
  "attempt_of st aid = find (\<lambda>r. at_id r = aid) (es_attempts st)"

lemma attempt_state_of_row: "attempt_state_of st aid = map_option at_state (attempt_of st aid)"
  by (simp add: attempt_state_of_def attempt_of_def)

lemma attempt_record_row: "attempt_record st aid = map_option (\<lambda>r. (at_task r, at_state r, at_detail r)) (attempt_of st aid)"
  by (simp add: attempt_record_def attempt_of_def)

lemma attempt_of_None: "attempt_of st aid = None \<longleftrightarrow> aid \<notin> at_id ` set (es_attempts st)"
  by (auto simp: attempt_of_def find_None_iff)

lemma attempt_of_SomeD: "attempt_of st aid = Some r \<Longrightarrow> r \<in> set (es_attempts st) \<and> at_id r = aid"
  by (auto simp: attempt_of_def find_Some_iff)

definition stamped :: "string \<Rightarrow> string option \<Rightarrow> attempt_row \<Rightarrow> attempt_row" where
  "stamped state detail r = r\<lparr>at_state := state, at_detail := detail\<rparr>"

lemma stamped_sel [simp]:
  "at_id (stamped s d r) = at_id r" "at_task (stamped s d r) = at_task r"
  "at_state (stamped s d r) = s" "at_detail (stamped s d r) = d"
  by (simp_all add: stamped_def)

lemma find_stamped:
  "find (\<lambda>r. at_id r = b) (map (\<lambda>r. if at_id r = aid then stamped s d r else r) rows) =
     (if b = aid then map_option (stamped s d) (find (\<lambda>r. at_id r = b) rows) else find (\<lambda>r. at_id r = b) rows)"
  by (induction rows) auto

lemma set_attempt_state_cases:
  obtains (missing) "attempt_of st aid = None" "set_attempt_state aid s d st = Inl (MissingAttempt aid)"
  | (found) r st' where "attempt_of st aid = Some r" "set_attempt_state aid s d st = Inr st'"
      "attempt_of st' aid = Some (stamped s d r)" "\<And>b. b \<noteq> aid \<Longrightarrow> attempt_of st' b = attempt_of st b"
      "es_lifecycle st' = es_lifecycle st" "es_ledger st' = es_ledger st"
      "map at_id (es_attempts st') = map at_id (es_attempts st)"
proof (cases "attempt_of st aid")
  case None
  then show thesis using missing attempt_of_None[of st aid] by (simp add: set_attempt_state_def)
next
  case (Some r)
  let ?st = "st\<lparr>es_attempts := map (\<lambda>r. if at_id r = aid then stamped s d r else r) (es_attempts st)\<rparr>"
  have "set_attempt_state aid s d st = Inr ?st"
    using Some attempt_of_None[of st aid] by (simp add: set_attempt_state_def stamped_def)
  moreover have "attempt_of ?st b = (if b = aid then map_option (stamped s d) (attempt_of st b) else attempt_of st b)" for b
    by (simp add: attempt_of_def find_stamped)
  ultimately show thesis using Some by (intro found[of r ?st]) (auto simp: comp_def)
qed

lemma set_attempt_state_found: "attempt_of st aid = Some r \<Longrightarrow> \<exists>st'. set_attempt_state aid s d st = Inr st'"
  by (rule set_attempt_state_cases[of st aid s d]) auto

lemmas attempt_moves = attempt_rejected_def attempt_running_def attempt_unknown_def attempt_confirmed_def

text \<open>How one call may change the ledger: only the row of the attempt, and only to the given states.\<close>

definition ledger_moves :: "string \<Rightarrow> string set \<Rightarrow> effect_store \<Rightarrow> effect_store \<Rightarrow> bool" where
  "ledger_moves aid states st st' \<longleftrightarrow>
     (\<forall>b. b \<noteq> aid \<longrightarrow> attempt_of st' b = attempt_of st b) \<and>
     (attempt_of st' aid = attempt_of st aid \<or>
      (\<exists>r s d. attempt_of st aid = Some r \<and> s \<in> states \<and> attempt_of st' aid = Some (stamped s d r))) \<and>
     es_lifecycle st' = es_lifecycle st \<and> es_ledger st' = es_ledger st \<and> map at_id (es_attempts st') = map at_id (es_attempts st)"

lemma ledger_moves_refl [simp]: "ledger_moves aid states st st"
  by (simp add: ledger_moves_def)

lemma ledger_moves_mono: "ledger_moves aid states st st' \<Longrightarrow> states \<subseteq> states' \<Longrightarrow> ledger_moves aid states' st st'"
  unfolding ledger_moves_def by blast

lemma ledger_moves_trans:
  assumes "ledger_moves aid A st st1" "ledger_moves aid B st1 st2" "A \<union> B \<subseteq> C"
  shows "ledger_moves aid C st st2"
proof -
  have again: "stamped s d (stamped s' d' r) = stamped s d r" for s d s' d' r by (simp add: stamped_def)
  have own: "attempt_of st2 aid = attempt_of st aid \<or>
      (\<exists>r s d. attempt_of st aid = Some r \<and> s \<in> C \<and> attempt_of st2 aid = Some (stamped s d r))"
    if first: "attempt_of st1 aid = attempt_of st aid \<or>
        (\<exists>r s d. attempt_of st aid = Some r \<and> s \<in> A \<and> attempt_of st1 aid = Some (stamped s d r))"
      and second: "attempt_of st2 aid = attempt_of st1 aid \<or>
        (\<exists>r s d. attempt_of st1 aid = Some r \<and> s \<in> B \<and> attempt_of st2 aid = Some (stamped s d r))"
    using first
  proof (elim disjE exE conjE)
    fix r s d assume one: "attempt_of st aid = Some r" "s \<in> A" "attempt_of st1 aid = Some (stamped s d r)"
    from second show ?thesis
    proof (elim disjE exE conjE)
      fix r' s' d' assume "attempt_of st1 aid = Some r'" "s' \<in> B" "attempt_of st2 aid = Some (stamped s' d' r')"
      then have "attempt_of st2 aid = Some (stamped s' d' r)" "s' \<in> C" using one assms(3) by (auto simp: again)
      then show ?thesis using one(1) by blast
    qed (use one assms(3) in \<open>metis le_supE subsetD\<close>)
  qed (use second assms(3) in \<open>metis le_supE subsetD\<close>)
  show ?thesis using assms(1,2) own unfolding ledger_moves_def by (elim conjE, intro conjI) simp_all
qed

lemma set_attempt_state_moves: "set_attempt_state aid s d st = Inr st' \<Longrightarrow> s \<in> states \<Longrightarrow> ledger_moves aid states st st'"
  by (rule set_attempt_state_cases[of st aid s d]) (auto simp: ledger_moves_def)

lemma attempt_rejected_moves: "attempt_rejected aid d st = Inr st' \<Longrightarrow> ledger_moves aid {''rejected''} st st'"
  by (auto simp: attempt_moves intro: set_attempt_state_moves)

section \<open>The gates\<close>

lemma reject_mode_moves: "reject_mode aid d st = (e, st') \<Longrightarrow> ledger_moves aid {''rejected''} st st'"
  by (auto simp: reject_mode_def split: sum.splits dest: attempt_rejected_moves)

lemma admit_settled_refused:
  assumes "admit_settled env aid gid cls ex = (Inl e, ex')"
  shows "ledger_moves aid {''rejected''} (ex_store ex) (ex_store ex') \<and> ex_world ex' = ex_world ex \<and>
    ex_policy ex' = ex_policy ex \<and> ex_flights ex' = ex_flights ex"
  using assms by (auto simp: admit_settled_def split: sum.splits dest: attempt_rejected_moves)

lemma mode_gate_refused:
  assumes "mode_gate env a ex = (Inl e, ex')"
  shows "ledger_moves (ae_attempt a) {''rejected''} (ex_store ex) (ex_store ex') \<and> ex_world ex' = ex_world ex \<and>
    ex_policy ex' = ex_policy ex"
  using assms
  by (auto simp: mode_gate_def reconsult_context_def Let_def split: sum.splits prod.splits if_splits
      dest: attempt_rejected_moves reject_mode_moves)

lemma mode_gate_passed:
  assumes "mode_gate env a ex = (Inr u, ex')"
  shows "ex' = ex \<and> (\<exists>ctx. admission_context_of env (ex_store ex) (ae_mode a) (request_class (ae_request a))
      (request_grant (ae_request a)) (ae_scope_root a) (target_path (ae_request a)) = Inr ctx \<and>
    decide (ee_paths env) (ex_policy ex) (target_path (ae_request a)) (request_class (ae_request a)) ctx = Allow)"
  using assms by (auto simp: mode_gate_def reconsult_context_def Let_def split: sum.splits prod.splits if_splits)

text \<open>What every gate saw.\<close>

definition gates_hold :: "'w effect_env \<Rightarrow> admitted_effect \<Rightarrow> 'w executor \<Rightarrow> bool" where
  "gates_hold env a ex \<longleftrightarrow>
     (\<exists>g. admit (ex_policy ex) (request_grant (ae_request a)) (request_class (ae_request a)) = Inr g) \<and>
     store_task_cancelled (ex_store ex) (ae_task a) = Inr False \<and>
     (\<exists>ctx. admission_context_of env (ex_store ex) (ae_mode a) (request_class (ae_request a))
        (request_grant (ae_request a)) (ae_scope_root a) (target_path (ae_request a)) = Inr ctx \<and>
      decide (ee_paths env) (ex_policy ex) (target_path (ae_request a)) (request_class (ae_request a)) ctx = Allow)"

lemma abandon_flight_sel [simp]:
  "ex_store (abandon_flight aid ex) = ex_store ex" "ex_world (abandon_flight aid ex) = ex_world ex"
  "ex_policy (abandon_flight aid ex) = ex_policy ex"
  by (simp_all add: abandon_flight_def)

lemma execute_gates_refused:
  assumes "execute_gates env a ex = (Inl e, ex')"
  shows "ledger_moves (ae_attempt a) {''rejected''} (ex_store ex) (ex_store ex') \<and> ex_world ex' = ex_world ex \<and>
    ex_policy ex' = ex_policy ex"
  using assms
  by (auto simp: execute_gates_def admit_settled_def split: sum.splits prod.splits bool.splits
      dest: attempt_rejected_moves mode_gate_refused mode_gate_passed)

lemma execute_gates_passed:
  assumes "execute_gates env a ex = (Inr u, ex')"
  shows "gates_hold env a ex \<and> (\<exists>st r. ex' = ex\<lparr>ex_store := st\<rparr> \<and> attempt_of (ex_store ex) (ae_attempt a) = Some r \<and>
    attempt_of st (ae_attempt a) = Some (stamped ''running'' None r) \<and>
    ledger_moves (ae_attempt a) {''running''} (ex_store ex) st)"
proof -
  obtain st where *: "gates_hold env a ex" "attempt_running (ae_attempt a) (ex_store ex) = Inr st" "ex' = ex\<lparr>ex_store := st\<rparr>"
    using assms
    by (auto simp: execute_gates_def admit_settled_def gates_hold_def split: sum.splits prod.splits bool.splits
        dest!: mode_gate_passed)
  have "\<exists>r. attempt_of (ex_store ex) (ae_attempt a) = Some r \<and> attempt_of st (ae_attempt a) = Some (stamped ''running'' None r)"
    using *(2) by (rule_tac set_attempt_state_cases[of "ex_store ex" "ae_attempt a" "''running''" None]) (auto simp: attempt_moves)
  moreover have "ledger_moves (ae_attempt a) {''running''} (ex_store ex) st"
    using *(2) by (auto simp: attempt_moves intro: set_attempt_state_moves)
  ultimately show ?thesis using * by blast
qed


section \<open>Execution\<close>

lemma read_member_frame:
  assumes "read_member env a p ex = (r, ex')"
  shows "ex_store ex' = ex_store ex \<and> ex_policy ex' = ex_policy ex"
  using assms by (auto simp: read_member_def Let_def split: prod.splits option.splits sum.splits)

lemma perform_effect_frame:
  assumes "perform_effect env a ex = (r, ex')"
  shows "ex_store ex' = ex_store ex \<and> ex_policy ex' = ex_policy ex"
proof (cases "ae_request a")
  case (ReadRequest g p)
  obtain r0 ex0 where rm: "read_member env a p ex = (r0, ex0)" by fastforce
  then have "ex' = ex0" using assms ReadRequest by (simp add: perform_effect_def)
  then show ?thesis using read_member_frame[OF rm] by simp
qed (use assms in \<open>auto simp: perform_effect_def split: option.splits prod.splits\<close>)

lemma map_sum_Inr: "Inr y = map_sum f g x \<longleftrightarrow> (\<exists>z. x = Inr z \<and> y = g z)" "map_sum f g x = Inr y \<longleftrightarrow> (\<exists>z. x = Inr z \<and> y = g z)"
  by (cases x; auto)+


text \<open>The state a failed worker call leaves the attempt in.\<close>

definition failed_state :: "effect_request \<Rightarrow> worker_error \<Rightarrow> string" where
  "failed_state req err = (if is_write_mutation err \<or> is_write req \<and> mutation_unknown err then ''unknown'' else ''rejected'')"

definition worker_answer :: "effect_request \<Rightarrow> worker_error \<Rightarrow> executor_error" where
  "worker_answer req err = (if is_write req \<and> is_unproven err then WorkerUnproven err else WorkerFailed err)"

lemma settle_effect_result:
  assumes "settle_effect env a effect ex = (r, ex')" "attempt_of (ex_store ex) (ae_attempt a) = Some row"
  shows "ex_world ex' = ex_world ex \<and> ex_policy ex' = ex_policy ex \<and>
    (case effect of
       Inr (res, detail) \<Rightarrow> r = Inr res \<and> attempt_of (ex_store ex') (ae_attempt a) = Some (stamped ''confirmed'' (Some detail) row)
     | Inl err \<Rightarrow> r = Inl (worker_answer (ae_request a) err) \<and>
         attempt_of (ex_store ex') (ae_attempt a) = Some (stamped (failed_state (ae_request a) err) (Some (ee_worker_text env err)) row)) \<and>
    ledger_moves (ae_attempt a) {''confirmed'', ''rejected'', ''unknown''} (ex_store ex) (ex_store ex')"
proof -
  obtain state detail st where st: "set_attempt_state (ae_attempt a) state (Some detail) (ex_store ex) = Inr st"
    "ex_store ex' = st" "ex_world ex' = ex_world ex" "ex_policy ex' = ex_policy ex"
    "state \<in> {''confirmed'', ''rejected'', ''unknown''}"
    "case effect of Inr (res, d) \<Rightarrow> r = Inr res \<and> state = ''confirmed'' \<and> detail = d
     | Inl err \<Rightarrow> r = Inl (worker_answer (ae_request a) err) \<and> state = failed_state (ae_request a) err \<and> detail = ee_worker_text env err"
  proof (cases effect)
    case (Inr p)
    obtain res d where p: "p = (res, d)" by fastforce
    show thesis
      by (rule set_attempt_state_cases[of "ex_store ex" "ae_attempt a" "''confirmed''" "Some d"])
        (use assms Inr p that in \<open>auto simp: settle_effect_def\<close>)
  next
    case (Inl err)
    show thesis
      by (rule set_attempt_state_cases[of "ex_store ex" "ae_attempt a" "failed_state (ae_request a) err" "Some (ee_worker_text env err)"])
        (use assms Inl that in \<open>auto simp: settle_effect_def commit_worker_error_def attempt_moves failed_state_def worker_answer_def Let_def split: if_splits\<close>)
  qed
  then have "attempt_of (ex_store ex') (ae_attempt a) = Some (stamped state (Some detail) row)"
    using assms(2) by (rule_tac set_attempt_state_cases[of "ex_store ex" "ae_attempt a" state "Some detail"]) auto
  then show ?thesis using st set_attempt_state_moves[OF st(1) st(5)] by (auto split: sum.splits)
qed

text \<open>The three ways an execution goes.\<close>

lemma execute_effect_cases:
  assumes "execute_effect env a ex = (r, ex')"
  obtains (refused) e where "execute_gates env a ex = (Inl e, ex')" "r = Inl e" "ex_world ex' = ex_world ex"
      "ex_policy ex' = ex_policy ex" "ledger_moves (ae_attempt a) {''rejected''} (ex_store ex) (ex_store ex')"
  | (ran) ex1 ex2 effect row where "gates_hold env a ex" "execute_gates env a ex = (Inr (), ex1)"
      "perform_effect env a ex1 = (effect, ex2)" "settle_effect env a effect ex2 = (r, ex')"
      "attempt_of (ex_store ex1) (ae_attempt a) = Some (stamped ''running'' None row)"
      "attempt_of (ex_store ex2) (ae_attempt a) = Some (stamped ''running'' None row)"
      "attempt_of (ex_store ex) (ae_attempt a) = Some row"
      "ledger_moves (ae_attempt a) {''running''} (ex_store ex) (ex_store ex1)" "ex_store ex2 = ex_store ex1"
      "ex_policy ex2 = ex_policy ex" "ex_world ex1 = ex_world ex" "ex_flights ex1 = ex_flights ex"
proof -
  obtain g ex1 where gates: "execute_gates env a ex = (g, ex1)" by fastforce
  show thesis
  proof (cases g)
    case (Inl e)
    then show thesis using refused[of e] gates assms execute_gates_refused[of env a ex e ex1] by (simp add: execute_effect_def)
  next
    case (Inr u)
    obtain effect ex2 where perf: "perform_effect env a ex1 = (effect, ex2)" by fastforce
    obtain st row where "gates_hold env a ex" "ex1 = ex\<lparr>ex_store := st\<rparr>" "attempt_of (ex_store ex) (ae_attempt a) = Some row"
      "attempt_of st (ae_attempt a) = Some (stamped ''running'' None row)"
      "ledger_moves (ae_attempt a) {''running''} (ex_store ex) st"
      using execute_gates_passed[of env a ex u ex1] gates Inr by blast
    then show thesis
      using gates Inr perf assms perform_effect_frame[OF perf]
      by (intro ran[of ex1 effect ex2 row]) (auto simp: execute_effect_def)
  qed
qed

lemma execute_effect_frame:
  assumes "execute_effect env a ex = (r, ex')"
  shows "ex_policy ex' = ex_policy ex \<and>
    ledger_moves (ae_attempt a) {''running'', ''confirmed'', ''rejected'', ''unknown''} (ex_store ex) (ex_store ex')"
  using assms
proof (cases rule: execute_effect_cases)
  case (refused e)
  then show ?thesis by (auto intro: ledger_moves_mono)
next
  case (ran ex1 ex2 effect row)
  then show ?thesis using settle_effect_result[OF ran(4,6)] ran(8-10) by (auto intro: ledger_moves_trans)
qed










lemma gates_unsettled:
  assumes "execute_gates env a ex = (Inl e, ex')" "attempt_of (ex_store ex) (ae_attempt a) = Some row"
  shows "(\<exists>t. e = StoreRefusal (MissingTask t)) \<or> attempt_state_of (ex_store ex') (ae_attempt a) = Some ''rejected''"
proof -
  have rej: "\<exists>st. attempt_rejected (ae_attempt a) d (ex_store ex) = Inr st \<and> attempt_state_of st (ae_attempt a) = Some ''rejected''" for d
    using assms(2) by (rule_tac set_attempt_state_cases[of "ex_store ex" "ae_attempt a" "''rejected''" "Some d"])
      (auto simp: attempt_moves attempt_state_of_row)
  have run: "\<exists>st. attempt_running (ae_attempt a) (ex_store ex) = Inr st"
    using assms(2) by (rule_tac set_attempt_state_cases[of "ex_store ex" "ae_attempt a" "''running''" None]) (auto simp: attempt_moves)
  have mode: "attempt_state_of (ex_store ex'') (ae_attempt a) = Some ''rejected''" if gate: "mode_gate env a ex = (Inl e', ex'')" for e' ex''
  proof (cases "admission_context_of env (ex_store ex) (ae_mode a) (request_class (ae_request a))
      (request_grant (ae_request a)) (ae_scope_root a) (target_path (ae_request a))")
    case (Inl err)
    then show ?thesis using gate rej[of "ee_error_text env err"] by (auto simp: mode_gate_def reconsult_context_def)
  next
    case (Inr ctx)
    then show ?thesis
      using gate rej[of "mode_reason (decide (ee_paths env) (ex_policy ex) (target_path (ae_request a)) (request_class (ae_request a)) ctx)"]
      by (auto simp: mode_gate_def reconsult_context_def reject_mode_def Let_def split: if_splits)
  qed
  show ?thesis
  proof (cases "admit (ex_policy ex) (request_grant (ae_request a)) (request_class (ae_request a))")
    case (Inl err)
    then show ?thesis using assms(1) rej[of "ee_error_text env (PolicyRefusal err)"] by (auto simp: execute_gates_def admit_settled_def)
  next
    case (Inr g)
    then have ok: "admit_settled env (ae_attempt a) (request_grant (ae_request a)) (request_class (ae_request a)) ex = (Inr (scope_root g), ex)"
      by (simp add: admit_settled_def)
    show ?thesis
      using assms(1) rej[of "''task cancelled''"] run mode
      by (auto simp: execute_gates_def ok store_task_cancelled_def split: sum.splits prod.splits bool.splits option.splits
          dest!: mode_gate_passed)
  qed
qed

text \<open>
  The ledger answers for every call: an execution that returns a result leaves its attempt
  confirmed with the result's own observation, and one that returns an error leaves it rejected, or
  unknown when a write may have landed (or as it was, when the task row itself is missing); no other
  attempt and no task moves.
\<close>

theorem execution_recorded:
  assumes "execute_effect env a ex = (r, ex')" "attempt_of (ex_store ex) (ae_attempt a) = Some row"
  shows "(case r of
      Inr res \<Rightarrow> \<exists>detail. attempt_record (ex_store ex') (ae_attempt a) = Some (at_task row, ''confirmed'', Some detail) \<and>
        (case res of EffectRead bs dg \<Rightarrow> detail = ''read-performed sha256='' @ dg | EffectExecuted d \<Rightarrow> detail = d | EffectDenied why \<Rightarrow> False)
    | Inl e \<Rightarrow> (\<exists>t. e = StoreRefusal (MissingTask t)) \<or> attempt_state_of (ex_store ex') (ae_attempt a) = Some ''rejected'' \<or>
        is_write (ae_request a) \<and> attempt_state_of (ex_store ex') (ae_attempt a) = Some ''unknown'' \<or>
        attempt_state_of (ex_store ex') (ae_attempt a) = Some ''unknown'' \<and> (\<exists>cause. e = WorkerFailed (WriteMutationFailed cause))) \<and>
    (\<forall>b. b \<noteq> ae_attempt a \<longrightarrow> attempt_record (ex_store ex') b = attempt_record (ex_store ex) b) \<and>
    es_lifecycle (ex_store ex') = es_lifecycle (ex_store ex)"
  using assms(1)
proof (cases rule: execute_effect_cases)
  case (refused e)
  then show ?thesis using gates_unsettled[OF refused(1) assms(2)] by (auto simp: ledger_moves_def attempt_record_row)
next
  case (ran ex1 ex2 effect row')
  have row: "row' = row" using ran(7) assms(2) by simp
  note res = settle_effect_result[OF ran(4,6)]
  have frame: "(\<forall>b. b \<noteq> ae_attempt a \<longrightarrow> attempt_record (ex_store ex') b = attempt_record (ex_store ex) b) \<and>
      es_lifecycle (ex_store ex') = es_lifecycle (ex_store ex)"
    using res ran(8,9) by (auto simp: ledger_moves_def attempt_record_row)
  show ?thesis
  proof (cases effect)
    case (Inl err)
    have "\<exists>cause. err = WriteMutationFailed cause" if "is_write_mutation err" using that by (cases err) auto
    then show ?thesis
      using res frame Inl by (auto simp: attempt_state_of_row failed_state_def worker_answer_def split: if_splits)
  next
    case (Inr p)
    have "case fst p of EffectRead bs dg \<Rightarrow> snd p = ''read-performed sha256='' @ dg | EffectExecuted d \<Rightarrow> snd p = d | EffectDenied why \<Rightarrow> False"
      using ran(3) Inr
      by (auto simp: perform_effect_def read_result_def executed_def map_prod_def map_sum_Inr
          split: effect_request.splits option.splits prod.splits)
    then show ?thesis using res frame Inr row by (auto simp: attempt_record_row split: prod.splits effect_outcome.splits)
  qed
qed

section \<open>Composition with the policy and the flights\<close>

text \<open>
  C31. Revocation reaches effects that are already admitted: once a grant was revoked, whatever the
  policy did since, executing an admitted effect of that grant is refused as revoked, the worker is
  not called and the attempt is rejected.
\<close>

theorem revoked_before_execution:
  assumes "policy_reachable p" "grants p g = Some gr" "policy_step\<^sup>*\<^sup>* (revoke g p) (ex_policy ex)"
    and "request_grant (ae_request a) = g" "attempt_of (ex_store ex) (ae_attempt a) = Some row"
  shows "\<exists>ex'. execute_effect env a ex = (Inl (PolicyRefusal (GrantRevoked g)), ex') \<and> ex_world ex' = ex_world ex \<and>
    attempt_state_of (ex_store ex') (ae_attempt a) = Some ''rejected''"
proof -
  have revoked: "admit (ex_policy ex) g (request_class (ae_request a)) = Inl (GrantRevoked g)"
    by (rule revoked_stays[OF assms(1-3)])
  have "\<exists>st. attempt_rejected (ae_attempt a) (ee_error_text env (PolicyRefusal (GrantRevoked g))) (ex_store ex) = Inr st"
    unfolding attempt_moves by (rule set_attempt_state_found[OF assms(5)])
  then obtain ex' where gates: "execute_gates env a ex = (Inl (PolicyRefusal (GrantRevoked g)), ex')"
    using revoked assms(4) by (auto simp: execute_gates_def admit_settled_def)
  then have "execute_effect env a ex = (Inl (PolicyRefusal (GrantRevoked g)), ex')" by (simp add: execute_effect_def)
  then show ?thesis using gates_unsettled[OF gates assms(5)] execute_gates_refused[OF gates] by blast
qed

lemma execute_read:
  assumes "execute_gates env a ex = (Inr (), ex1)" "ae_request a = ReadRequest g p"
    and "read_member env a p ex1 = (Inr obs, ex2)"
  shows "\<exists>ex3. execute_effect env a ex = (Inr (EffectRead (ro_bytes obs) (ro_digest obs)), ex3) \<and>
    ex_world ex3 = ex_world ex2 \<and> ex_flights ex3 = ex_flights ex2"
proof -
  obtain st row where st: "ex1 = ex\<lparr>ex_store := st\<rparr>" "attempt_of st (ae_attempt a) = Some row"
    using execute_gates_passed[OF assms(1)] by auto
  then have "ex_store ex2 = st" using read_member_frame[OF assms(3)] by simp
  then obtain st' where "set_attempt_state (ae_attempt a) ''confirmed'' (Some (''read-performed sha256='' @ ro_digest obs)) (ex_store ex2) = Inr st'"
    using set_attempt_state_found st(2) by blast
  then show ?thesis
    using assms by (simp add: execute_effect_def perform_effect_def settle_effect_def read_result_def)
qed

text \<open>
  C32. Identical reads are performed once: when two admitted reads sit in one flight and the first is
  executed by its physical read, executing the second (its own gates passing) returns the same bytes
  and digest and does not reach the worker.
\<close>

theorem flight_reads_once:
  assumes "ex_flights ex = Some r" "flights_reachable r" "same_flight r (ae_attempt a) (ae_attempt b)"
    and "ae_attempt a \<noteq> ae_attempt b" "fst (take_shared (ae_attempt a) r) = None"
    and "ae_request a = ReadRequest g p" "ae_request b = ReadRequest g' p'"
    and "execute_effect env a ex = (Inr (EffectRead bs dg), ex1)" "execute_gates env' b ex1 = (Inr (), ex2)"
  shows "\<exists>ex3. execute_effect env' b ex1 = (Inr (EffectRead bs dg), ex3) \<and> ex_world ex3 = ex_world ex1"
proof -
  obtain exg where gates: "execute_gates env a ex = (Inr (), exg)" "ex_flights exg = Some r" "ex_world exg = ex_world ex"
    using assms(8) by (cases rule: execute_effect_cases) (use assms(1) in auto)
  obtain q exm where q: "read_member env a p exg = (q, exm)" by fastforce
  obtain obs where "q = Inr obs"
    using assms(8) gates(1) assms(6) q
    by (cases q) (auto simp: execute_effect_def perform_effect_def settle_effect_def map_prod_def split: prod.splits)
  then have rm: "read_member env a p exg = (Inr obs, exm)" using q by simp
  have obs: "bs = ro_bytes obs" "dg = ro_digest obs" and fl: "ex_flights ex1 = ex_flights exm"
    using execute_read[OF gates(1) assms(6) rm] assms(8) by auto
  have "take_shared (ae_attempt a) r = (None, r)"
    using assms(5) by (auto simp: take_shared_def split: option.splits prod.splits)
  then have "ex_flights exm = Some (flight_settle (ae_attempt a) obs r)"
    using rm gates(2) by (auto simp: read_member_def Let_def split: prod.splits sum.splits)
  then have fl1: "ex_flights ex1 = Some (flight_settle (ae_attempt a) obs r)" using fl by simp
  obtain st where ex2: "ex2 = ex1\<lparr>ex_store := st\<rparr>" using execute_gates_passed[OF assms(9)] by blast
  have "fst (take_shared (ae_attempt b) (flight_settle (ae_attempt a) obs r)) = Some obs"
    using settled_flight_shares[OF assms(2,3,4)] by blast
  then obtain r' where "take_shared (ae_attempt b) (flight_settle (ae_attempt a) obs r) = (Some obs, r')"
    by (metis prod.collapse)
  then have "read_member env' b p' ex2 = (Inr obs, ex2\<lparr>ex_flights := Some r'\<rparr>)"
    using fl1 ex2 by (simp add: read_member_def)
  from execute_read[OF assms(9,7) this] show ?thesis using obs ex2 by auto
qed

subsection \<open>A concrete executor\<close>

text \<open>The world counts physical reads.\<close>

definition demo_effect_env :: "nat effect_env" where
  "demo_effect_env = \<lparr>ee_paths = demo_env, ee_canonicalize = Some, ee_hook = None,
     ee_target_identity = (\<lambda>_ _. Inr (1, 2)), ee_write_identity = (\<lambda>_ _. Inl WriteUnavailable),
     ee_read_once = (\<lambda>_ _ w. (Inr \<lparr>ro_bytes = ''hi'', ro_digest = ''d''\<rparr>, Suc w)),
     ee_write_once = (\<lambda>_ _ _ _ w. (Inl WriteUnavailable, w)), ee_exec_once = (\<lambda>_ _ w. (Inl ExecUnavailable, w)),
     ee_egress_once = (\<lambda>_ w. (Inl EgressUnavailable, w)), ee_sha256_hex = id,
     ee_error_text = (\<lambda>_. ''refused''), ee_worker_text = (\<lambda>_. ''failed'')\<rparr>"

definition demo_attempt :: "string \<Rightarrow> attempt_row" where
  "demo_attempt aid = \<lparr>at_id = aid, at_task = ''t'', at_action = ''action-'' @ aid, at_class = ''read'',
     at_describe = ''read /etc'', at_state = ''planned'', at_detail = None\<rparr>"

definition demo_policy :: policy where
  "demo_policy = snd (grant_classes ''/'' [ReadEffect] policy0)"

definition demo_executor :: "nat executor" where
  "demo_executor = \<lparr>ex_policy = demo_policy,
     ex_store = \<lparr>es_attempts = [demo_attempt ''x'', demo_attempt ''y''], es_lifecycle = (\<lambda>_. Some LifecycleRunning),
       es_ledger = ledger_empty, es_retained = {}, es_preapproved = {}\<rparr>,
     ex_flights = Some demo_flights, ex_world = 0\<rparr>"

definition demo_admitted :: "string \<Rightarrow> admitted_effect" where
  "demo_admitted aid = \<lparr>ae_task = TaskId ''t'', ae_attempt = aid, ae_request = ReadRequest ''grant-1'' ''/etc'', ae_mode = Yolo,
     ae_identity = None, ae_scope_root = ''/''\<rparr>"

lemma demo_admitted_sel [simp]:
  "ae_task (demo_admitted aid) = TaskId ''t''" "ae_attempt (demo_admitted aid) = aid"
  "ae_request (demo_admitted aid) = ReadRequest ''grant-1'' ''/etc''" "ae_mode (demo_admitted aid) = Yolo"
  "ae_scope_root (demo_admitted aid) = ''/''"
  by (simp_all add: demo_admitted_def)

lemma demo_policy_grants:
  "grants demo_policy ''grant-1'' = Some \<lparr>grant_id = ''grant-1'', scope_root = ''/'', classes = [ReadEffect], revoked = False\<rparr>"
  "denies demo_policy = []"
  by (simp_all add: demo_policy_def grant_classes_def policy_default_def show_nat.simps[of "Suc 0"] char_of_def bit_0 Let_def)

lemma demo_context:
  "es_ledger st = ledger_empty \<Longrightarrow>
     \<exists>ctx. admission_context_of demo_effect_env st Yolo ReadEffect ''grant-1'' ''/'' ''/etc'' = Inr ctx \<and> mode ctx = Yolo"
  by (simp add: admission_context_of_def derive_in_grant_scope_def demo_effect_env_def path_starts_with_def path_components_def
      budget_has_remaining_def budget_status_of_def ledger_empty_def Let_def utf8_path_def)

lemma demo_gates:
  assumes "ex_policy ex = demo_policy" "es_lifecycle (ex_store ex) = (\<lambda>_. Some LifecycleRunning)"
    and "es_ledger (ex_store ex) = ledger_empty" "attempt_of (ex_store ex) aid = Some r"
  shows "\<exists>ex1. execute_gates demo_effect_env (demo_admitted aid) ex = (Inr (), ex1)"
proof -
  obtain ctx where ctx: "admission_context_of demo_effect_env (ex_store ex) Yolo ReadEffect ''grant-1'' ''/'' ''/etc'' = Inr ctx"
    "mode ctx = Yolo" using demo_context[OF assms(3)] by blast
  have "covers (ee_paths demo_effect_env) demo_policy ''/etc'' = False"
    using demo_canonical by (simp add: covers_def covers_report_def demo_effect_env_def demo_policy_grants)
  then have "decide (ee_paths demo_effect_env) demo_policy ''/etc'' ReadEffect ctx = Allow"
    using ctx(2) by (simp add: decide_def target_denied_def)
  then show ?thesis
    using assms ctx(1) set_attempt_state_found[OF assms(4), of "''running''" None]
    by (auto simp: execute_gates_def admit_settled_def admit_def demo_policy_grants store_task_cancelled_def mode_gate_def
        reconsult_context_def attempt_running_def)
qed

lemma demo_attempts: "attempt_of (ex_store demo_executor) ''x'' = Some (demo_attempt ''x'')"
  "attempt_of (ex_store demo_executor) ''y'' = Some (demo_attempt ''y'')"
  by (simp_all add: attempt_of_def demo_executor_def demo_attempt_def)

lemma demo_flight_facts:
  "flights_reachable demo_flights" "same_flight demo_flights ''x'' ''y''" "fst (take_shared ''x'' demo_flights) = None"
  by (rule demo_flights_reachable, rule demo_same_flight)
    (simp add: demo_flights_def take_shared_def flight_index_def flight_subscribe_def flights_at_def flights_new_def Let_def)

lemma demo_execute:
  obtains ex1 where "execute_effect demo_effect_env (demo_admitted ''x'') demo_executor = (Inr (EffectRead ''hi'' ''d''), ex1)"
    "ex_world ex1 = 1"
proof -
  obtain exg where gates: "execute_gates demo_effect_env (demo_admitted ''x'') demo_executor = (Inr (), exg)"
    using demo_gates[OF _ _ _ demo_attempts(1)] by (auto simp: demo_executor_def)
  then have exg: "ex_flights exg = Some demo_flights" "ex_world exg = 0"
    using execute_gates_passed[OF gates] by (auto simp: demo_executor_def)
  obtain r' where "take_shared ''x'' demo_flights = (None, r')" using demo_flight_facts(3) by (metis prod.collapse)
  then obtain exm where rm: "read_member demo_effect_env (demo_admitted ''x'') ''/etc'' exg =
      (Inr \<lparr>ro_bytes = ''hi'', ro_digest = ''d''\<rparr>, exm)" "ex_world exm = 1"
    using exg by (simp add: read_member_def demo_effect_env_def)
  show thesis using execute_read[OF gates _ rm(1)] rm(2) that by auto
qed



theorem execution_recorded_witness:
  "\<exists>ex1. execute_effect demo_effect_env (demo_admitted ''x'') demo_executor = (Inr (EffectRead ''hi'' ''d''), ex1) \<and>
     attempt_record (ex_store ex1) ''x'' = Some (''t'', ''confirmed'', Some ''read-performed sha256=d'')"
proof -
  obtain ex1 where run: "execute_effect demo_effect_env (demo_admitted ''x'') demo_executor = (Inr (EffectRead ''hi'' ''d''), ex1)"
    by (rule demo_execute)
  from execution_recorded[OF this, of "demo_attempt ''x''"] demo_attempts(1) run show ?thesis by (auto simp: demo_attempt_def)
qed

theorem revoked_before_execution_witness:
  "\<exists>ex'. execute_effect demo_effect_env (demo_admitted ''x'') (demo_executor\<lparr>ex_policy := revoke ''grant-1'' demo_policy\<rparr>) =
     (Inl (PolicyRefusal (GrantRevoked ''grant-1'')), ex') \<and> ex_world ex' = 0"
proof -
  have "policy_reachable demo_policy"
    unfolding demo_policy_def by (rule pr_step[OF pr_new], rule ps_grant) (rule prod.collapse[symmetric])
  from revoked_before_execution[OF this demo_policy_grants(1), of "demo_executor\<lparr>ex_policy := revoke ''grant-1'' demo_policy\<rparr>"
      "demo_admitted ''x''" "demo_attempt ''x''" demo_effect_env]
  show ?thesis using demo_attempts(1) by (auto simp: demo_executor_def)
qed

theorem flight_reads_once_witness:
  "\<exists>ex1 ex3. execute_effect demo_effect_env (demo_admitted ''x'') demo_executor = (Inr (EffectRead ''hi'' ''d''), ex1) \<and>
     execute_effect demo_effect_env (demo_admitted ''y'') ex1 = (Inr (EffectRead ''hi'' ''d''), ex3) \<and> ex_world ex3 = 1"
proof -
  obtain ex1 where run: "execute_effect demo_effect_env (demo_admitted ''x'') demo_executor = (Inr (EffectRead ''hi'' ''d''), ex1)"
    "ex_world ex1 = 1" by (rule demo_execute)
  obtain ex2 where gates: "execute_gates demo_effect_env (demo_admitted ''y'') ex1 = (Inr (), ex2)"
  proof -
    have "ex_policy ex1 = demo_policy" "es_lifecycle (ex_store ex1) = (\<lambda>_. Some LifecycleRunning)"
      "es_ledger (ex_store ex1) = ledger_empty" "attempt_of (ex_store ex1) ''y'' = Some (demo_attempt ''y'')"
      using execute_effect_frame[OF run(1)] demo_attempts(2) by (auto simp: ledger_moves_def demo_executor_def)
    then show thesis using demo_gates[of ex1 "''y''"] that by blast
  qed
  have "ex_flights demo_executor = Some demo_flights" by (simp add: demo_executor_def)
  from flight_reads_once[OF this demo_flight_facts(1), of "demo_admitted ''x''" "demo_admitted ''y''"] run gates demo_flight_facts
  show ?thesis by force
qed

end
