(* ===== verification/Procedure_Inv.thy ===== *)
theory Procedure_Inv
  imports Procedure_Control Effects_Theorems State_Machine
begin

text \<open>
  The durable writes of procedure segments as a step relation, and the invariant they keep. A state is
  paired with the history of issued effects: which attempt was about to reach the worker for which step
  of which run. One rule is one durable write, so a process that stops between two of them is a state of
  the relation as well.
\<close>

type_synonym issue = "string \<times> nat \<times> string"

abbreviation astate :: "'w proc_state \<Rightarrow> string \<Rightarrow> string option" where
  "astate s aid \<equiv> attempt_state_of (pc_store s) aid"

abbreviation step_key :: "step_row \<Rightarrow> string \<times> nat" where
  "step_key w \<equiv> (sw_run_id w, sw_position w)"

definition step_issue :: "step_row \<Rightarrow> issue" where
  "step_issue w = (sw_run_id w, sw_position w, sw_attempt_id w)"

text \<open>
  One rule per durable write of the procedure path. Other writers of the attempt table (the calls of
  \<open>mcp.rs\<close>, the claim of a check attempt in \<open>state.rs\<close>) move only attempts that no step row names; they have
  no rule here, and an attempt of a step is written by the rules below alone.
\<close>

inductive proc_step ::
  "'w effect_env \<Rightarrow> string \<Rightarrow> issue list \<times> 'w proc_state \<Rightarrow> issue list \<times> 'w proc_state \<Rightarrow> bool"
  for env backend where
  ps_segment: "record_procedure_segment backend task s = (r, s') \<Longrightarrow> proc_step env backend (H, s) (H, s')"
| ps_start: "start_procedure_run rid g snap open s = (r, s') \<Longrightarrow> rid \<notin> fst ` set H \<Longrightarrow>
    proc_step env backend (H, s) (H, s')"
| ps_admit: "admit_effect env aid task request m (pc_exec s) = (r, ex) \<Longrightarrow>
    proc_step env backend (H, s) (H, s\<lparr>pc_exec := ex\<rparr>)"
| ps_prepare: "procedure_run_of s (pn_run_id run) = Inr run \<Longrightarrow> astate s aid = Some ''planned'' \<Longrightarrow>
    aid \<notin> sw_attempt_id ` set (pc_steps s) \<Longrightarrow> prepare_procedure_step run pos tool aid s = (r, s') \<Longrightarrow>
    proc_step env backend (H, s) (H, s')"
| ps_issue: "w \<in> set (pc_steps s) \<Longrightarrow> \<not> sw_settled w \<Longrightarrow> sw_attempt_id w = ae_attempt a \<Longrightarrow>
    astate s (ae_attempt a) = Some ''planned'' \<Longrightarrow> execute_gates env a (pc_exec s) = (Inr u, ex) \<Longrightarrow>
    proc_step env backend (H, s) (H @ [step_issue w], s\<lparr>pc_exec := ex\<rparr>)"
| ps_refuse: "astate s (ae_attempt a) = Some ''planned'' \<Longrightarrow> execute_gates env a (pc_exec s) = (Inl e, ex) \<Longrightarrow>
    proc_step env backend (H, s) (H, s\<lparr>pc_exec := ex\<rparr>)"
| ps_other: "ae_attempt a \<notin> sw_attempt_id ` set (pc_steps s) \<Longrightarrow> astate s (ae_attempt a) = Some ''planned'' \<Longrightarrow>
    execute_gates env a (pc_exec s) = (Inr u, ex) \<Longrightarrow> proc_step env backend (H, s) (H, s\<lparr>pc_exec := ex\<rparr>)"
| ps_effect: "astate s (ae_attempt a) = Some ''running'' \<Longrightarrow> perform_effect env a (pc_exec s) = (eff, ex) \<Longrightarrow>
    settle_effect env a eff ex = (r, ex') \<Longrightarrow> proc_step env backend (H, s) (H, s\<lparr>pc_exec := ex'\<rparr>)"
| ps_release: "release_unstarted_procedure_step rid pos s = (r, s') \<Longrightarrow> proc_step env backend (H, s) (H, s')"
| ps_settle: "w \<in> set (pc_steps s) \<Longrightarrow> \<not> sw_settled w \<Longrightarrow> sw_run_id w = rid \<Longrightarrow> sw_position w = se_position step \<Longrightarrow>
    sw_attempt_id w = se_attempt_id step \<Longrightarrow> astate s (se_attempt_id step) = Some ''confirmed'' \<Longrightarrow>
    settle_procedure_step rid step s = (r, s') \<Longrightarrow> proc_step env backend (H, s) (H, s')"
| ps_complete: "complete_procedure_run rid s = (r, s') \<Longrightarrow> proc_step env backend (H, s) (H, s')"
| ps_stop: "stop_procedure_run rid stop s = (r, s') \<Longrightarrow> proc_step env backend (H, s) (H, s')"
| ps_reconcile: "reconcile_ledger task aid s = (r, s') \<Longrightarrow> proc_step env backend (H, s) (H, s')"
| ps_outside: "pc_runs s' = pc_runs s \<Longrightarrow> pc_steps s' = pc_steps s \<Longrightarrow>
    es_attempts (pc_store s') = es_attempts (pc_store s) \<Longrightarrow> proc_step env backend (H, s) (H, s')"

section \<open>The invariant\<close>

definition settled_positions :: "step_row list \<Rightarrow> string \<Rightarrow> nat set" where
  "settled_positions ws rid = sw_position ` {w \<in> set ws. sw_run_id w = rid \<and> sw_settled w}"

definition prepared_positions :: "step_row list \<Rightarrow> string \<Rightarrow> nat set" where
  "prepared_positions ws rid = sw_position ` {w \<in> set ws. sw_run_id w = rid \<and> \<not> sw_settled w}"

definition run_ok :: "step_row list \<Rightarrow> run_row \<Rightarrow> bool" where
  "run_ok ws r \<longleftrightarrow>
     settled_positions ws (row_run_id r) = {1..pn_cursor (rw_run r)} \<and>
     prepared_positions ws (row_run_id r) \<subseteq> {pn_cursor (rw_run r) + 1} \<and>
     (row_state r = RunCompleted \<longrightarrow> pn_cursor (rw_run r) = rw_step_count r)"

definition tables_ok :: "'w proc_state \<Rightarrow> bool" where
  "tables_ok s \<longleftrightarrow>
     distinct (map row_run_id (pc_runs s)) \<and> distinct (map step_key (pc_steps s)) \<and>
     sw_run_id ` set (pc_steps s) \<subseteq> row_run_id ` set (pc_runs s) \<and> list_all (run_ok (pc_steps s)) (pc_runs s)"

text \<open>What a step row says of its attempt, and what the history says of an issued one.\<close>

definition step_row_ok :: "issue list \<Rightarrow> 'w proc_state \<Rightarrow> step_row \<Rightarrow> bool" where
  "step_row_ok H s w \<longleftrightarrow>
     astate s (sw_attempt_id w) \<noteq> None \<and>
     (astate s (sw_attempt_id w) \<in> {Some ''planned'', Some ''rejected''} \<or> step_issue w \<in> set H) \<and>
     (sw_settled w \<longrightarrow> astate s (sw_attempt_id w) = Some ''confirmed'')"

fun issue_ok :: "'w proc_state \<Rightarrow> issue \<Rightarrow> bool" where
  "issue_ok s (rid, pos, aid) \<longleftrightarrow>
     astate s aid \<notin> {None, Some ''planned''} \<and>
     (astate s aid = Some ''rejected'' \<or> rid \<notin> row_run_id ` set (pc_runs s) \<or>
      (rid, pos, aid) \<in> step_issue ` set (pc_steps s))"

fun issue_before :: "'w proc_state \<Rightarrow> issue \<Rightarrow> issue \<Rightarrow> bool" where
  "issue_before s (rid, pos, aid) (rid', pos', aid') \<longleftrightarrow>
     (rid = rid' \<and> pos = pos' \<longrightarrow> astate s aid = Some ''rejected'')"

fun proc_inv :: "issue list \<times> 'w proc_state \<Rightarrow> bool" where
  "proc_inv (H, s) \<longleftrightarrow>
     tables_ok s \<and> distinct (map sw_attempt_id (pc_steps s)) \<and> list_all (step_row_ok H s) (pc_steps s) \<and>
     list_all (issue_ok s) H \<and> sorted_wrt (issue_before s) H"

fun proc_initial :: "issue list \<times> 'w proc_state \<Rightarrow> bool" where
  "proc_initial (H, s) \<longleftrightarrow> H = [] \<and> pc_runs s = [] \<and> pc_steps s = []"

lemma proc_initial_inv: "proc_initial x \<Longrightarrow> proc_inv x"
  by (cases x) (simp add: tables_ok_def)

section \<open>Writes to the attempt ledger\<close>

text \<open>Settled attempts keep their state and no attempt returns to \<open>planned\<close>.\<close>

definition ledger_advances :: "'w proc_state \<Rightarrow> 'w proc_state \<Rightarrow> bool" where
  "ledger_advances s s' \<longleftrightarrow>
     (\<forall>aid x. astate s aid = Some x \<longrightarrow>
        (\<exists>y. astate s' aid = Some y \<and> (x \<in> {''confirmed'', ''rejected''} \<longrightarrow> y = x) \<and> (x \<noteq> ''planned'' \<longrightarrow> y \<noteq> ''planned'')))"

lemma ledger_advancesE:
  assumes "ledger_advances s s'" "astate s aid = Some x"
  obtains y where "astate s' aid = Some y" "x \<in> {''confirmed'', ''rejected''} \<longrightarrow> y = x" "x \<noteq> ''planned'' \<longrightarrow> y \<noteq> ''planned''"
  using assms unfolding ledger_advances_def by blast

lemma tables_ok_cong: "pc_runs s' = pc_runs s \<Longrightarrow> pc_steps s' = pc_steps s \<Longrightarrow> tables_ok s' = tables_ok s"
  by (simp add: tables_ok_def)

lemma issue_ok_advances:
  assumes "issue_ok s i" "ledger_advances s s'" "pc_runs s' = pc_runs s" "pc_steps s' = pc_steps s"
  shows "issue_ok s' i"
proof (cases i)
  case (fields rid pos aid)
  then obtain x where x: "astate s aid = Some x" "x \<noteq> ''planned''" using assms(1) by auto
  obtain y where "astate s' aid = Some y" "x \<in> {''confirmed'', ''rejected''} \<longrightarrow> y = x" "x \<noteq> ''planned'' \<longrightarrow> y \<noteq> ''planned''"
    by (rule ledger_advancesE[OF assms(2) x(1)])
  then show ?thesis using assms(1,3,4) fields x by auto
qed

lemma issue_before_advances: "issue_before s i j \<Longrightarrow> ledger_advances s s' \<Longrightarrow> issue_before s' i j"
proof (cases i; cases j)
  fix rid pos aid rid' pos' aid'
  assume *: "issue_before s i j" "ledger_advances s s'" "i = (rid, pos, aid)" "j = (rid', pos', aid')"
  have "astate s' aid = Some ''rejected''" if "astate s aid = Some ''rejected''"
    by (rule ledger_advancesE[OF *(2) that]) simp
  then show ?thesis using * by simp
qed

lemma history_advances:
  assumes "list_all (issue_ok s) H" "sorted_wrt (issue_before s) H" "ledger_advances s s'"
    "pc_runs s' = pc_runs s" "pc_steps s' = pc_steps s"
  shows "list_all (issue_ok s') H \<and> sorted_wrt (issue_before s') H"
  using assms issue_ok_advances issue_before_advances
  by (metis (no_types, lifting) list.pred_mono_strong sorted_wrt_mono_rel)

text \<open>A change of the ledger alone keeps the invariant when no step row's attempt starts unnoticed.\<close>

lemma proc_inv_ledger:
  assumes "proc_inv (H, s)" "ledger_advances s s'" "pc_runs s' = pc_runs s" "pc_steps s' = pc_steps s"
    and quiet: "\<And>w. w \<in> set (pc_steps s) \<Longrightarrow> astate s (sw_attempt_id w) = Some ''planned'' \<Longrightarrow>
      astate s' (sw_attempt_id w) \<in> {Some ''planned'', Some ''rejected''}"
  shows "proc_inv (H, s')"
proof -
  have "step_row_ok H s' w" if w: "w \<in> set (pc_steps s)" for w
  proof -
    have ok: "step_row_ok H s w" using assms(1) w by (auto simp: list_all_iff)
    then obtain x where x: "astate s (sw_attempt_id w) = Some x" by (auto simp: step_row_ok_def)
    obtain y where "astate s' (sw_attempt_id w) = Some y" "x \<in> {''confirmed'', ''rejected''} \<longrightarrow> y = x"
      "x \<noteq> ''planned'' \<longrightarrow> y \<noteq> ''planned''"
      by (rule ledger_advancesE[OF assms(2) x])
    then show ?thesis using ok x quiet[OF w] by (cases "x = ''planned''") (simp_all add: step_row_ok_def, blast)
  qed
  then have "list_all (step_row_ok H s') (pc_steps s')" using assms(4) by (simp add: list_all_iff)
  moreover have "tables_ok s'" using assms tables_ok_cong by auto
  ultimately show ?thesis using assms(1,3,4) history_advances[of s H s', OF _ _ assms(2)] by simp
qed

lemma ledger_moves_state:
  assumes "ledger_moves aid S st st'"
  shows "b \<noteq> aid \<Longrightarrow> attempt_state_of st' b = attempt_state_of st b"
    "attempt_state_of st' aid = attempt_state_of st aid \<or> (\<exists>y\<in>S. attempt_state_of st' aid = Some y)"
  using assms by (auto simp: ledger_moves_def attempt_state_of_row)

lemma moves_advance:
  assumes "ledger_moves aid S (pc_store s) (pc_store s')" "astate s aid = Some x" "x \<notin> {''confirmed'', ''rejected''}"
    "''planned'' \<notin> S"
  shows "ledger_advances s s'"
  unfolding ledger_advances_def
proof (intro allI impI)
  fix b z assume z: "astate s b = Some z"
  show "\<exists>y. astate s' b = Some y \<and> (z \<in> {''confirmed'', ''rejected''} \<longrightarrow> y = z) \<and> (z \<noteq> ''planned'' \<longrightarrow> y \<noteq> ''planned'')"
  proof (cases "b = aid")
    case True
    then have "z = x" using assms(2) z by simp
    with ledger_moves_state(2)[OF assms(1)] show ?thesis
      using True assms(2,3,4) by (elim disjE bexE) auto
  next
    case False
    then show ?thesis using z ledger_moves_state(1)[OF assms(1)] by simp
  qed
qed

lemma proc_inv_moves:
  assumes "proc_inv (H, s)" "ledger_moves aid S (pc_store s) (ex_store ex)" "astate s aid = Some x"
    "x \<notin> {''confirmed'', ''rejected''}" "''planned'' \<notin> S"
    and quiet: "x \<noteq> ''planned'' \<or> S = {''rejected''} \<or> aid \<notin> sw_attempt_id ` set (pc_steps s)"
  shows "proc_inv (H, s\<lparr>pc_exec := ex\<rparr>)"
proof (rule proc_inv_ledger[OF assms(1)])
  show "ledger_advances s (s\<lparr>pc_exec := ex\<rparr>)" using assms(2-5) by (intro moves_advance[of aid S]) simp_all
  fix w assume w: "w \<in> set (pc_steps s)" "astate s (sw_attempt_id w) = Some ''planned''"
  show "astate (s\<lparr>pc_exec := ex\<rparr>) (sw_attempt_id w) \<in> {Some ''planned'', Some ''rejected''}"
  proof (cases "sw_attempt_id w = aid")
    case True
    then have "S = {''rejected''}" using quiet w assms(3) by auto
    then show ?thesis using ledger_moves_state(2)[OF assms(2)] w(2) True by auto
  next
    case False
    then show ?thesis using w(2) ledger_moves_state(1)[OF assms(2)] by simp
  qed
qed simp_all

lemma find_snoc: "find P (xs @ [x]) = (case find P xs of Some y \<Rightarrow> Some y | None \<Rightarrow> if P x then Some x else None)"
  by (induction xs) auto

lemma admit_effect_ledger:
  assumes "admit_effect env aid task request m ex = (r, ex')" "attempt_of (ex_store ex) b \<noteq> None"
  shows "attempt_of (ex_store ex') b = attempt_of (ex_store ex) b"
proof -
  have planned: "attempt_of st b = attempt_of (ex_store ex) b \<and> b \<noteq> aid" if "plan_attempt aid t c d (ex_store ex) = Inr st" for t c d st
    using that assms(2) attempt_of_None[of "ex_store ex" b]
    by (auto simp: plan_attempt_def attempt_of_def find_snoc split: if_splits option.splits)
  have rejected: "attempt_of st' b = attempt_of st b" if "attempt_rejected aid d st = Inr st'" "b \<noteq> aid" for d st st'
    using attempt_rejected_moves[OF that(1)] that(2) by (simp add: ledger_moves_def)
  show ?thesis
    using assms(1) planned rejected
    by (auto simp: admit_effect_def reject_mode_def Let_def split: sum.splits prod.splits option.splits if_splits)
qed


lemma proc_inv_admit:
  assumes "proc_inv (H, s)" "admit_effect env aid task request m (pc_exec s) = (r, ex)"
  shows "proc_inv (H, s\<lparr>pc_exec := ex\<rparr>)"
proof (rule proc_inv_ledger[OF assms(1)])
  have same: "astate (s\<lparr>pc_exec := ex\<rparr>) b = astate s b" if "astate s b \<noteq> None" for b
    using admit_effect_ledger[OF assms(2), of b] that by (simp add: attempt_state_of_row)
  then show "ledger_advances s (s\<lparr>pc_exec := ex\<rparr>)" by (simp add: ledger_advances_def)
  show "astate (s\<lparr>pc_exec := ex\<rparr>) (sw_attempt_id w) \<in> {Some ''planned'', Some ''rejected''}"
    if "astate s (sw_attempt_id w) = Some ''planned''" for w using same that by simp
qed simp_all

lemma settle_effect_moves:
  assumes "settle_effect env a eff ex = (r, ex')"
  shows "ledger_moves (ae_attempt a) {''confirmed'', ''unknown'', ''rejected''} (ex_store ex) (ex_store ex')"
proof (cases eff)
  case (Inl err)
  then show ?thesis using assms
    by (auto simp: settle_effect_def commit_worker_error_def Let_def attempt_moves map_prod_def
        split: sum.splits prod.splits if_splits intro: set_attempt_state_moves)
next
  case (Inr z)
  then show ?thesis using assms
    by (auto simp: settle_effect_def split: sum.splits prod.splits intro: set_attempt_state_moves)
qed

lemma proc_inv_effect:
  assumes "proc_inv (H, s)" "astate s (ae_attempt a) = Some ''running''"
    "perform_effect env a (pc_exec s) = (eff, ex)" "settle_effect env a eff ex = (r, ex')"
  shows "proc_inv (H, s\<lparr>pc_exec := ex'\<rparr>)"
  using assms(1) settle_effect_moves[OF assms(4)] assms(2) perform_effect_frame[OF assms(3)]
  by (intro proc_inv_moves[where aid = "ae_attempt a" and S = "{''confirmed'', ''unknown'', ''rejected''}" and x = "''running''"])
    simp_all

lemma proc_inv_reconcile:
  assumes "proc_inv (H, s)" "reconcile_ledger task aid s = (r, s')"
  shows "proc_inv (H, s')"
proof (cases "s' = s")
  case False
  then obtain owner detail st where *: "attempt_record (pc_store s) aid = Some (owner, ''unknown'', detail)"
    "ledger_moves aid {''confirmed''} (pc_store s) st" "s' = s\<lparr>pc_exec := (pc_exec s)\<lparr>ex_store := st\<rparr>\<rparr>"
    using assms(2) set_attempt_state_moves
    by (auto simp: reconcile_ledger_def split: option.splits prod.splits sum.splits if_splits) blast
  then have "astate s aid = Some ''unknown''" by (auto simp: attempt_record_row attempt_state_of_row)
  then show ?thesis unfolding *(3) using assms(1) *(2)
    by (intro proc_inv_moves[where aid = aid and S = "{''confirmed''}" and x = "''unknown''"]) simp_all
qed (use assms in simp)

text \<open>The attempt of a prepared step starts: the one write that extends the history.\<close>

lemma proc_inv_issue:
  assumes inv: "proc_inv (H, s)" and w: "w \<in> set (pc_steps s)" "\<not> sw_settled w" "sw_attempt_id w = aid"
    and planned: "astate s aid = Some ''planned''"
    and moves: "ledger_moves aid {''running''} (pc_store s) (ex_store ex)"
    and running: "attempt_state_of (ex_store ex) aid = Some ''running''"
  shows "proc_inv (H @ [step_issue w], s\<lparr>pc_exec := ex\<rparr>)"
proof -
  let ?s = "s\<lparr>pc_exec := ex\<rparr>"
  have adv: "ledger_advances s ?s" using moves planned by (intro moves_advance[where aid = aid and S = "{''running''}" and x = "''planned''"]) simp_all
  have hist: "list_all (issue_ok ?s) H" "sorted_wrt (issue_before ?s) H"
    using history_advances[OF _ _ adv, of H] inv by simp_all
  have fresh: "astate s b = Some ''rejected''" if "(sw_run_id w, sw_position w, b) \<in> set H" for b
  proof -
    have ok: "issue_ok s (sw_run_id w, sw_position w, b)" using inv that by (auto simp: list_all_iff)
    have "sw_run_id w \<in> row_run_id ` set (pc_runs s)" using inv w(1) by (auto simp: tables_ok_def)
    moreover have "(sw_run_id w, sw_position w, b) \<notin> step_issue ` set (pc_steps s)"
    proof
      assume "(sw_run_id w, sw_position w, b) \<in> step_issue ` set (pc_steps s)"
      then obtain v where that: "v \<in> set (pc_steps s)" "step_issue v = (sw_run_id w, sw_position w, b)" by auto
      have "v = w" using inv w(1) that by (auto simp: tables_ok_def distinct_map step_issue_def dest: inj_onD)
      then have "b = aid" using that(2) w(3) by (simp add: step_issue_def)
      then show False using ok planned by simp
    qed
    ultimately show ?thesis using ok by simp
  qed
  have rows: "step_row_ok (H @ [step_issue w]) ?s v" if v: "v \<in> set (pc_steps s)" for v
  proof (cases "v = w")
    case True
    then show ?thesis using w running by (simp add: step_row_ok_def)
  next
    case False
    then have "sw_attempt_id v \<noteq> aid" using inv v w by (auto simp: distinct_map dest: inj_onD)
    then have "astate ?s (sw_attempt_id v) = astate s (sw_attempt_id v)" using ledger_moves_state(1)[OF moves] by simp
    then show ?thesis using inv v by (auto simp: step_row_ok_def list_all_iff)
  qed
  have last: "issue_before ?s i (step_issue w)" if "i \<in> set H" for i
  proof (cases i)
    case (fields rid pos b)
    have "astate ?s b = Some ''rejected''" if "rid = sw_run_id w" "pos = sw_position w"
      using ledger_advancesE[OF adv fresh[of b]] \<open>i \<in> set H\<close> fields that by (metis insertI1 insertI2)
    then show ?thesis using fields by (simp add: step_issue_def)
  qed
  have new: "issue_ok ?s (step_issue w)" using running w(1,3) by (auto simp: step_issue_def)
  show ?thesis using inv rows hist last new by (simp add: list_all_iff sorted_wrt_append tables_ok_def)
qed

section \<open>Writes to the run and step tables\<close>

lemma run_ok_cong:
  assumes "\<And>w. sw_run_id w = row_run_id r \<Longrightarrow> w \<in> set ws' \<longleftrightarrow> w \<in> set ws"
  shows "run_ok ws' r = run_ok ws r"
proof -
  have "{w \<in> set ws'. sw_run_id w = row_run_id r \<and> P w} = {w \<in> set ws. sw_run_id w = row_run_id r \<and> P w}" for P
    using assms by auto
  then show ?thesis by (simp add: run_ok_def settled_positions_def prepared_positions_def)
qed

lemma step_row_ok_cong: "pc_store s' = pc_store s \<Longrightarrow> step_row_ok H s' = step_row_ok H s"
  by (simp add: step_row_ok_def fun_eq_iff)

lemma issue_before_cong: "pc_store s' = pc_store s \<Longrightarrow> issue_before s' = issue_before s"
  by (auto simp: fun_eq_iff)

text \<open>A write to the tables keeps what the ledger says; the rows that leave are those of runs that
  leave, or rows whose attempt never started.\<close>

lemma proc_inv_tables:
  assumes inv: "proc_inv (H, s)" and store: "pc_store s' = pc_store s" and tables: "tables_ok s'"
    and attempts: "distinct (map sw_attempt_id (pc_steps s'))"
    and rows: "\<And>w. w \<in> set (pc_steps s') \<Longrightarrow> step_row_ok H s w"
    and kept: "\<And>w. w \<in> set (pc_steps s) \<Longrightarrow> step_issue w \<in> set H \<Longrightarrow> astate s (sw_attempt_id w) \<noteq> Some ''rejected'' \<Longrightarrow>
      sw_run_id w \<in> row_run_id ` set (pc_runs s') \<Longrightarrow> step_issue w \<in> step_issue ` set (pc_steps s')"
    and runs: "row_run_id ` set (pc_runs s') \<inter> fst ` set H \<subseteq> row_run_id ` set (pc_runs s)"
  shows "proc_inv (H, s')"
proof -
  have "issue_ok s' i" if i: "i \<in> set H" for i
  proof (cases i)
    case (fields rid pos aid)
    have ok: "issue_ok s i" using inv i by (auto simp: list_all_iff)
    have "(rid, pos, aid) \<in> step_issue ` set (pc_steps s')"
      if *: "astate s aid \<noteq> Some ''rejected''" "rid \<in> row_run_id ` set (pc_runs s')"
    proof -
      have "rid \<in> row_run_id ` set (pc_runs s)" using runs *(2) i fields by force
      then obtain w where w: "w \<in> set (pc_steps s)" "(rid, pos, aid) = step_issue w" using ok fields *(1) by auto
      then show ?thesis using kept[OF w(1)] i fields * by (simp add: step_issue_def)
    qed
    then show ?thesis using ok fields store by auto
  qed
  then show ?thesis using inv tables attempts rows step_row_ok_cong[OF store] issue_before_cong[OF store]
    by (simp add: list_all_iff)
qed

lemma proc_inv_drop_runs:
  assumes "proc_inv (H, s)"
  shows "proc_inv (H, drop_runs gone s)"
proof (rule proc_inv_tables[OF assms])
  have *: "run_ok (filter (\<lambda>w. sw_run_id w \<notin> gone) (pc_steps s)) r" if "r \<in> set (pc_runs s)" "row_run_id r \<notin> gone" for r
    using assms that by (subst run_ok_cong[of r _ "pc_steps s"]) (auto simp: tables_ok_def list_all_iff)
  show "tables_ok (drop_runs gone s)"
    using assms * by (auto simp: tables_ok_def drop_runs_def list_all_iff distinct_map_filter)
  show "distinct (map sw_attempt_id (pc_steps (drop_runs gone s)))"
    using assms by (simp add: drop_runs_def distinct_map_filter)
qed (use assms in \<open>auto simp: drop_runs_def list_all_iff\<close>)

lemma upd_run_ids: "(\<And>r. pn_run_id (f r) = pn_run_id r) \<Longrightarrow> map row_run_id (upd_run rid guard f rs) = map row_run_id rs"
  by (auto simp: upd_run_def row_run_id_def)

lemma proc_inv_upd_run:
  assumes inv: "proc_inv (H, s)" and keeps: "\<And>r. pn_run_id (f r) = pn_run_id r" "\<And>r. pn_cursor (f r) = pn_cursor r"
    and completed: "\<And>r. guard r \<Longrightarrow> pn_state (f (rw_run r)) = RunCompleted \<Longrightarrow> pn_cursor (rw_run r) = rw_step_count r"
  shows "proc_inv (H, s\<lparr>pc_runs := upd_run rid guard f (pc_runs s)\<rparr>)"
proof (rule proc_inv_tables[OF inv])
  let ?s = "s\<lparr>pc_runs := upd_run rid guard f (pc_runs s)\<rparr>"
  have ids: "map row_run_id (pc_runs ?s) = map row_run_id (pc_runs s)" using upd_run_ids[of f, OF keeps(1)] by simp
  have idset: "row_run_id ` set (pc_runs ?s) = row_run_id ` set (pc_runs s)" using arg_cong[OF ids, of set] by simp
  have "run_ok (pc_steps s) r'" if r': "r' \<in> set (pc_runs ?s)" for r'
  proof -
    obtain r where r: "r \<in> set (pc_runs s)"
      and r': "r' = (if row_run_id r = rid \<and> guard r then r\<lparr>rw_run := f (rw_run r)\<rparr> else r)"
      using r' by (auto simp: upd_run_def)
    have "run_ok (pc_steps s) r" using inv r by (auto simp: tables_ok_def list_all_iff)
    then show ?thesis using r' keeps completed[of r] by (auto simp: run_ok_def row_run_id_def row_state_def)
  qed
  then show "tables_ok ?s" using inv ids idset by (simp add: tables_ok_def list_all_iff)
  show "row_run_id ` set (pc_runs ?s) \<inter> fst ` set H \<subseteq> row_run_id ` set (pc_runs s)" using idset by simp
qed (use inv in \<open>auto simp: list_all_iff\<close>)

lemma run_transition_inv:
  assumes "proc_inv (H, s)" "run_transition rid guard f s = (r, s')"
    and "\<And>r. pn_run_id (f r) = pn_run_id r" "\<And>r. pn_cursor (f r) = pn_cursor r"
    "\<And>r. guard r \<Longrightarrow> pn_state (f (rw_run r)) = RunCompleted \<Longrightarrow> pn_cursor (rw_run r) = rw_step_count r"
  shows "proc_inv (H, s')"
  using assms(2) assms(1) proc_inv_upd_run[OF assms(1,3,4,5), of guard rid]
  by (auto simp: run_transition_def Let_def simp del: proc_inv.simps split: if_splits sum.splits)

lemma complete_inv_run: "proc_inv (H, s) \<Longrightarrow> complete_procedure_run rid s = (r, s') \<Longrightarrow> proc_inv (H, s')"
  unfolding complete_procedure_run_def by (erule (1) run_transition_inv) auto

lemma stop_inv_run: "proc_inv (H, s) \<Longrightarrow> stop_procedure_run rid stop s = (r, s') \<Longrightarrow> proc_inv (H, s')"
  unfolding stop_procedure_run_def by (erule (1) run_transition_inv) auto

lemma reopen_inv: "proc_inv (H, s) \<Longrightarrow> reopen_procedure_run run s = (r, s') \<Longrightarrow> proc_inv (H, s')"
  using proc_inv_upd_run[of H s "\<lambda>r. r\<lparr>pn_state := RunRunning, pn_stop := None\<rparr>" "\<lambda>r. row_state r = RunStopped" "pn_run_id run"]
  by (auto simp: reopen_procedure_run_def Let_def simp del: proc_inv.simps split: if_splits)

lemma new_run_sel [simp]:
  "row_run_id (new_run rid g snap) = rid" "pn_cursor (rw_run (new_run rid g snap)) = 0"
  "row_state (new_run rid g snap) = RunRunning" "rw_step_count (new_run rid g snap) = length (sg_steps g)"
  by (simp_all add: new_run_def row_run_id_def row_state_def)

lemma insert_run_inv:
  assumes inv: "proc_inv (H, s)" and ins: "insert_procedure_run rid g snap s = (r, s')" and fresh: "rid \<notin> fst ` set H"
  shows "proc_inv (H, s')"
proof (cases "s' = s")
  case False
  then have new: "rid \<notin> row_run_id ` set (pc_runs s)"
    and s': "s' = prune_procedure_runs procedure_run_retention (s\<lparr>pc_runs := pc_runs s @ [new_run rid g snap]\<rparr>)"
    using ins by (auto simp: insert_procedure_run_def Let_def split: sum.splits if_splits)
  have none: "w \<notin> set (pc_steps s)" if "sw_run_id w = rid" for w
    using inv new that by (auto simp: tables_ok_def)
  have "proc_inv (H, s\<lparr>pc_runs := pc_runs s @ [new_run rid g snap]\<rparr>)"
  proof (rule proc_inv_tables[OF inv])
    have "run_ok (pc_steps s) (new_run rid g snap)"
      using none by (auto simp: run_ok_def settled_positions_def prepared_positions_def)
    then show "tables_ok (s\<lparr>pc_runs := pc_runs s @ [new_run rid g snap]\<rparr>)"
      using inv new by (auto simp: tables_ok_def)
    show "row_run_id ` set (pc_runs (s\<lparr>pc_runs := pc_runs s @ [new_run rid g snap]\<rparr>)) \<inter> fst ` set H \<subseteq>
        row_run_id ` set (pc_runs s)"
      using fresh by auto
  qed (use inv in \<open>auto simp: list_all_iff\<close>)
  then show ?thesis unfolding s' prune_procedure_runs_def by (rule proc_inv_drop_runs)
qed (use inv in simp)

lemma start_procedure_run_cases:
  assumes "start_procedure_run rid g snap open s = (r, s')"
  obtains (refused) e where "r = Inl e" "s' = s"
  | (resumed) run where "resumable_procedure_run s (sg_procedure_id g) (sg_version g) = Inr (Some run)"
      "reopen_procedure_run run s = (r, s')"
  | (opened) "resumable_procedure_run s (sg_procedure_id g) (sg_version g) = Inr None" "insert_procedure_run rid g snap s = (r, s')"
proof (cases "resumable_procedure_run s (sg_procedure_id g) (sg_version g)")
  case (Inl e)
  then show thesis using assms refused by (auto simp: start_procedure_run_def split: sum.splits)
next
  case (Inr found)
  then show thesis
    using assms refused resumed opened
    by (cases found) (auto simp: start_procedure_run_def split: sum.splits option.splits)
qed

lemma start_inv:
  assumes "proc_inv (H, s)" "start_procedure_run rid g snap open s = (r, s')" "rid \<notin> fst ` set H"
  shows "proc_inv (H, s')"
  using assms(2)
proof (cases rule: start_procedure_run_cases)
  case (resumed run)
  then show ?thesis using assms(1) reopen_inv by blast
next
  case opened
  then show ?thesis using assms insert_run_inv by blast
qed (use assms in simp)

lemma proc_inv_same:
  fixes s s' :: "'w proc_state"
  assumes "proc_inv (H, s)" "pc_runs s' = pc_runs s" "pc_steps s' = pc_steps s" "es_attempts (pc_store s') = es_attempts (pc_store s)"
  shows "proc_inv (H, s')"
proof (rule proc_inv_ledger[OF assms(1) _ assms(2,3)])
  have same: "astate s' aid = astate s aid" for aid using assms(4) by (simp add: attempt_state_of_def)
  then show "ledger_advances s s'" by (simp add: ledger_advances_def)
  show "astate s' (sw_attempt_id w) \<in> {Some ''planned'', Some ''rejected''}" if "astate s (sw_attempt_id w) = Some ''planned''" for w
    using same that by simp
qed

lemma segment_inv:
  assumes "proc_inv (H, s)" "record_procedure_segment backend task s = (r, s')"
  shows "proc_inv (H, s')"
proof -
  have one: "proc_inv (H, insert_segment g s)" for g
    by (rule proc_inv_same[OF assms(1)]) (simp_all add: insert_segment_def)
  have two: "proc_inv (H, prune_procedure_segments keep t)" if "proc_inv (H, t)" for keep t
    unfolding prune_procedure_segments_def Let_def
    by (rule proc_inv_same[OF proc_inv_drop_runs[OF that]]) simp_all
  show ?thesis using assms two[OF one]
    by (auto simp: record_procedure_segment_def Let_def simp del: proc_inv.simps split: option.splits list.splits sum.splits)
qed

lemma procedure_run_ofD: "procedure_run_of s rid = Inr run \<Longrightarrow> \<exists>r\<in>set (pc_runs s). rw_run r = run \<and> row_run_id r = rid"
  by (auto simp: procedure_run_of_def find_Some_iff split: option.splits)

lemma proc_invD:
  assumes "proc_inv (H, s)"
  shows "\<And>r. r \<in> set (pc_runs s) \<Longrightarrow> run_ok (pc_steps s) r" "\<And>w. w \<in> set (pc_steps s) \<Longrightarrow> step_row_ok H s w"
    "\<And>i. i \<in> set H \<Longrightarrow> issue_ok s i"
    "\<And>r r'. r \<in> set (pc_runs s) \<Longrightarrow> r' \<in> set (pc_runs s) \<Longrightarrow> row_run_id r = row_run_id r' \<Longrightarrow> r = r'"
    "\<And>w w'. w \<in> set (pc_steps s) \<Longrightarrow> w' \<in> set (pc_steps s) \<Longrightarrow> step_key w = step_key w' \<Longrightarrow> w = w'"
    "\<And>w. w \<in> set (pc_steps s) \<Longrightarrow> sw_run_id w \<in> row_run_id ` set (pc_runs s)"
  using assms by (auto simp: tables_ok_def list_all_iff distinct_map dest: inj_onD)

lemma prepare_inv:
  assumes inv: "proc_inv (H, s)" and run: "procedure_run_of s (pn_run_id run) = Inr run"
    and planned: "astate s aid = Some ''planned''" and free: "aid \<notin> sw_attempt_id ` set (pc_steps s)"
    and prep: "prepare_procedure_step run pos tool aid s = (r, s')"
  shows "proc_inv (H, s')"
proof (cases "s' = s")
  case False
  define w where "w = \<lparr>sw_run_id = pn_run_id run, sw_position = pos, sw_tool = tool, sw_settled = False, sw_attempt_id = aid, sw_result = []\<rparr>"
  have pos: "pos = pn_cursor run + 1" and new: "\<not> step_exists s (pn_run_id run) pos" and s': "s' = s\<lparr>pc_steps := pc_steps s @ [w]\<rparr>"
    using prep False by (auto simp: prepare_procedure_step_def Let_def w_def split: if_splits sum.splits)
  obtain r0 where r0: "r0 \<in> set (pc_runs s)" "rw_run r0 = run" "row_run_id r0 = pn_run_id run"
    using procedure_run_ofD[OF run] by auto
  show ?thesis unfolding s'
  proof (rule proc_inv_tables[OF inv])
    have "run_ok (pc_steps s @ [w]) r1" if r1: "r1 \<in> set (pc_runs s)" for r1
    proof (cases "row_run_id r1 = pn_run_id run")
      case True
      then have "rw_run r1 = run" using proc_invD(4)[OF inv r1 r0(1)] r0 by simp
      moreover have "settled_positions (pc_steps s @ [w]) rid = settled_positions (pc_steps s) rid"
        "prepared_positions (pc_steps s @ [w]) rid \<subseteq> prepared_positions (pc_steps s) rid \<union> {pos}" for rid
        by (auto simp: settled_positions_def prepared_positions_def w_def)
      ultimately show ?thesis using proc_invD(1)[OF inv r1] pos by (fastforce simp: run_ok_def)
    next
      case False
      then have "run_ok (pc_steps s @ [w]) r1 = run_ok (pc_steps s) r1"
        by (intro run_ok_cong) (auto simp: w_def)
      then show ?thesis using proc_invD(1)[OF inv r1] by simp
    qed
    moreover have "step_key w \<notin> step_key ` set (pc_steps s)"
      using new by (auto simp: step_exists_def list_ex_iff w_def)
    moreover have "sw_run_id w \<in> row_run_id ` set (pc_runs s)" using r0 by (force simp: w_def)
    ultimately show "tables_ok (s\<lparr>pc_steps := pc_steps s @ [w]\<rparr>)"
      using inv by (simp add: tables_ok_def list_all_iff)
    show "distinct (map sw_attempt_id (pc_steps (s\<lparr>pc_steps := pc_steps s @ [w]\<rparr>)))"
      using inv free by (auto simp: w_def)
    show "step_row_ok H s v" if "v \<in> set (pc_steps (s\<lparr>pc_steps := pc_steps s @ [w]\<rparr>))" for v
      using that proc_invD(2)[OF inv] planned by (auto simp: step_row_ok_def w_def)
  qed auto
qed (use inv in simp)

lemma prepared_SomeD:
  assumes "prepared_procedure_step s rid = Inr (Some p)"
  shows "\<exists>w\<in>set (pc_steps s). sw_run_id w = rid \<and> \<not> sw_settled w \<and> sw_position w = pp_position p \<and>
    sw_attempt_id w = pp_attempt_id p \<and> step_standing_parse (astate s (pp_attempt_id p)) = Some (pp_standing p)"
proof -
  let ?ws = "sort_key sw_position (filter (\<lambda>w. sw_run_id w = rid \<and> \<not> sw_settled w) (pc_steps s))"
  obtain w ws where ws: "?ws = w # ws" using assms by (auto simp: prepared_procedure_step_def split: list.splits)
  then have "w \<in> set ?ws" by (metis list.set_intros(1))
  then have "w \<in> set (pc_steps s) \<and> sw_run_id w = rid \<and> \<not> sw_settled w" by simp
  moreover have "map_option (\<lambda>(_, st, _). st) (attempt_record (pc_store s) aid) = astate s aid" for aid
    by (simp add: attempt_record_row attempt_state_of_row option.map_comp comp_def)
  ultimately show ?thesis using assms ws
    by (intro bexI[of _ w]) (auto simp: prepared_procedure_step_def Let_def split: option.splits)
qed

lemma standing_not_started: "step_standing_parse x = Some NotStarted \<Longrightarrow> x \<in> {None, Some ''planned'', Some ''rejected''}"
  by (auto simp: step_standing_parse_def split: option.splits if_splits)

lemma standing_landed: "step_standing_parse x = Some Landed \<Longrightarrow> x = Some ''confirmed''"
  by (auto simp: step_standing_parse_def split: option.splits if_splits)

lemma release_inv:
  assumes inv: "proc_inv (H, s)" and rel: "release_unstarted_procedure_step rid pos s = (r, s')"
  shows "proc_inv (H, s')"
proof (cases "s' = s")
  case False
  then obtain p where p: "prepared_procedure_step s rid = Inr (Some p)" "pp_position p = pos" "pp_standing p = NotStarted"
    and s': "s' = delete_prepared rid pos s"
    using rel by (auto simp: release_unstarted_procedure_step_def split: sum.splits option.splits if_splits)
  obtain w0 where w0: "w0 \<in> set (pc_steps s)" "step_key w0 = (rid, pos)" "\<not> sw_settled w0"
    "astate s (sw_attempt_id w0) \<in> {None, Some ''planned'', Some ''rejected''}"
    using prepared_SomeD[OF p(1)] p(2,3) standing_not_started by metis
  let ?ws = "filter (\<lambda>w. \<not> (sw_run_id w = rid \<and> sw_position w = pos \<and> \<not> sw_settled w)) (pc_steps s)"
  have gone: "w = w0" if "w \<in> set (pc_steps s)" "w \<notin> set ?ws" for w
    using proc_invD(5)[OF inv that(1) w0(1)] w0 that by auto
  show ?thesis unfolding s'
  proof (rule proc_inv_tables[OF inv])
    have "run_ok ?ws r1" if "r1 \<in> set (pc_runs s)" for r1
    proof -
      have "settled_positions ?ws (row_run_id r1) = settled_positions (pc_steps s) (row_run_id r1)"
        "prepared_positions ?ws (row_run_id r1) \<subseteq> prepared_positions (pc_steps s) (row_run_id r1)"
        by (auto simp: settled_positions_def prepared_positions_def)
      then show ?thesis using proc_invD(1)[OF inv that] by (auto simp: run_ok_def)
    qed
    then show "tables_ok (delete_prepared rid pos s)"
      using inv by (auto simp: tables_ok_def list_all_iff delete_prepared_def distinct_map_filter)
    show "distinct (map sw_attempt_id (pc_steps (delete_prepared rid pos s)))"
      using inv by (simp add: delete_prepared_def distinct_map_filter)
    fix w assume w: "w \<in> set (pc_steps s)" "step_issue w \<in> set H" "astate s (sw_attempt_id w) \<noteq> Some ''rejected''"
    have "w \<noteq> w0" using proc_invD(3)[OF inv w(2)] w(3) w0(4) by (auto simp: step_issue_def)
    then have "w \<in> set ?ws" using gone w(1) by blast
    then show "step_issue w \<in> step_issue ` set (pc_steps (delete_prepared rid pos s))" by (auto simp: delete_prepared_def)
  qed (use proc_invD(2)[OF inv] in \<open>auto simp: delete_prepared_def\<close>)
qed (use inv in simp)

definition settle_row_in :: "string \<Rightarrow> settled_step \<Rightarrow> step_row \<Rightarrow> step_row" where
  "settle_row_in rid step w =
     (if sw_run_id w = rid \<and> sw_position w = se_position step \<and> \<not> sw_settled w
      then w\<lparr>sw_settled := True, sw_attempt_id := se_attempt_id step, sw_result := se_result step\<rparr> else w)"

lemma settle_procedure_step_cases:
  assumes "settle_procedure_step rid step s = (r, s')"
  obtains (refused) e where "r = Inl e" "s' = s"
  | (moved) run r0 where "procedure_run_of s rid = Inr run" "r = procedure_run_of s' rid"
      "r0 \<in> set (pc_runs s)" "row_run_id r0 = rid" "pn_cursor (rw_run r0) = pn_cursor run" "row_state r0 = RunRunning"
      "s' = s\<lparr>pc_steps := map (settle_row_in rid step) (pc_steps s),
               pc_runs := upd_run rid (\<lambda>r. pn_cursor (rw_run r) = pn_cursor run \<and> row_state r = RunRunning)
                   (\<lambda>r. r\<lparr>pn_cursor := se_position step\<rparr>) (pc_runs s)\<rparr>"
proof (cases "procedure_run_of s rid")
  case (Inl e)
  then show thesis using assms by (intro refused[of e]) (simp_all add: settle_procedure_step_def)
next
  case (Inr run)
  let ?target = "\<lambda>w. sw_run_id w = rid \<and> sw_position w = se_position step \<and> \<not> sw_settled w"
  let ?movable = "\<lambda>r. pn_cursor (rw_run r) = pn_cursor run \<and> row_state r = RunRunning"
  note unfold = settle_procedure_step_def Let_def settle_row_in_def[abs_def]
  show thesis
  proof (cases "(\<exists>e. stored_all [se_position step, pn_cursor run] = Inl e) \<or> \<not> list_ex ?target (pc_steps s) \<or>
      \<not> list_ex (\<lambda>r. row_run_id r = rid \<and> ?movable r) (pc_runs s)")
    case True
    then have "(\<exists>e. r = Inl e) \<and> s' = s"
      using assms Inr by (auto simp: unfold simp del: stored_all.simps split: sum.splits if_splits)
    then show thesis using refused by blast
  next
    case False
    then obtain r0 where r0: "r0 \<in> set (pc_runs s)" "row_run_id r0 = rid" "?movable r0" by (auto simp: list_ex_iff)
    have "s' = s\<lparr>pc_steps := map (settle_row_in rid step) (pc_steps s),
        pc_runs := upd_run rid ?movable (\<lambda>r. r\<lparr>pn_cursor := se_position step\<rparr>) (pc_runs s)\<rparr>" "r = procedure_run_of s' rid"
      using assms Inr False by (auto simp: unfold simp del: stored_all.simps split: sum.splits)
    with r0 show thesis by (intro moved[OF Inr, of r0]) simp_all
  qed
qed

lemma settle_row_in_sel [simp]: "sw_run_id (settle_row_in rid step w) = sw_run_id w" "sw_position (settle_row_in rid step w) = sw_position w"
  by (simp_all add: settle_row_in_def)

text \<open>The prepared row \<open>w\<close> that a settled step closes.\<close>

definition closes :: "'w proc_state \<Rightarrow> string \<Rightarrow> settled_step \<Rightarrow> step_row \<Rightarrow> bool" where
  "closes s rid step w \<longleftrightarrow> w \<in> set (pc_steps s) \<and> \<not> sw_settled w \<and> sw_run_id w = rid \<and> sw_position w = se_position step \<and>
     sw_attempt_id w = se_attempt_id step"

lemma settle_row_in_eq:
  assumes inv: "proc_inv (H, s)" and w: "closes s rid step w" and v: "v \<in> set (pc_steps s)"
  shows "settle_row_in rid step v =
    (if v = w then w\<lparr>sw_settled := True, sw_attempt_id := se_attempt_id step, sw_result := se_result step\<rparr> else v)"
proof (cases "v = w")
  case False
  then have "step_key v \<noteq> step_key w" using proc_invD(5)[OF inv v] w by (auto simp: closes_def)
  then show ?thesis using w False by (simp add: settle_row_in_def closes_def) blast
qed (use w in \<open>simp add: settle_row_in_def closes_def\<close>)

lemma settle_positions:
  assumes inv: "proc_inv (H, s)" and w: "closes s rid step w" and r0: "r0 \<in> set (pc_runs s)" "row_run_id r0 = rid"
  shows "settled_positions (map (settle_row_in rid step) (pc_steps s)) rid = {1..se_position step}"
    "prepared_positions (map (settle_row_in rid step) (pc_steps s)) rid = {}"
proof -
  have ok: "settled_positions (pc_steps s) rid = {1..pn_cursor (rw_run r0)}" "prepared_positions (pc_steps s) rid \<subseteq> {pn_cursor (rw_run r0) + 1}"
    using proc_invD(1)[OF inv r0(1)] r0(2) by (auto simp: run_ok_def)
  have "se_position step \<in> prepared_positions (pc_steps s) rid"
    unfolding prepared_positions_def using w by (intro image_eqI[of _ _ w]) (auto simp: closes_def)
  then have next_pos: "se_position step = pn_cursor (rw_run r0) + 1" using ok by auto
  have "settled_positions (map (settle_row_in rid step) (pc_steps s)) rid = insert (se_position step) (settled_positions (pc_steps s) rid)"
    unfolding settled_positions_def using settle_row_in_eq[OF inv w] w by (force simp: image_iff closes_def)
  then show "settled_positions (map (settle_row_in rid step) (pc_steps s)) rid = {1..se_position step}" using ok next_pos by auto
  have "sw_settled (settle_row_in rid step v)" if v: "v \<in> set (pc_steps s)" "sw_run_id v = rid" for v
  proof (cases "sw_settled v")
    case False
    then have "sw_position v = se_position step" using ok(2) next_pos v by (auto simp: prepared_positions_def)
    then show ?thesis using v False by (simp add: settle_row_in_def)
  qed (simp add: settle_row_in_def)
  moreover have "\<exists>u\<in>set (pc_steps s). v = settle_row_in rid step u" if "v \<in> set (map (settle_row_in rid step) (pc_steps s))" for v
    using that by auto
  ultimately have "sw_settled v" if "v \<in> set (map (settle_row_in rid step) (pc_steps s))" "sw_run_id v = rid" for v
    using that by (metis settle_row_in_sel(1))
  then show "prepared_positions (map (settle_row_in rid step) (pc_steps s)) rid = {}" unfolding prepared_positions_def by auto
qed

lemma settle_run_ok:
  assumes inv: "proc_inv (H, s)" and w: "closes s rid step w" and r0: "r0 \<in> set (pc_runs s)" "row_run_id r0 = rid" "guard r0"
      "row_state r0 = RunRunning"
    and r1: "r1 \<in> set (upd_run rid guard (\<lambda>r. r\<lparr>pn_cursor := se_position step\<rparr>) (pc_runs s))"
  shows "run_ok (map (settle_row_in rid step) (pc_steps s)) r1"
proof (cases "row_run_id r1 = rid")
  case True
  obtain r2 where r2: "r2 \<in> set (pc_runs s)" "row_run_id r2 = row_run_id r1"
    and r1': "r1 = (if row_run_id r2 = rid \<and> guard r2 then r2\<lparr>rw_run := rw_run r2\<lparr>pn_cursor := se_position step\<rparr>\<rparr> else r2)"
    using r1 by (auto simp: upd_run_def row_run_id_def)
  have "r2 = r0" using proc_invD(4)[OF inv r2(1) r0(1)] r2(2) True r0(2) by simp
  then have "pn_cursor (rw_run r1) = se_position step" "row_state r1 = RunRunning" using r1' r0 by (simp_all add: row_state_def)
  then show ?thesis using settle_positions[OF inv w r0(1,2)] True by (simp add: run_ok_def)
next
  case False
  then have "r1 \<in> set (pc_runs s)" using r1 by (auto simp: upd_run_def row_run_id_def split: if_splits)
  moreover have "run_ok (map (settle_row_in rid step) (pc_steps s)) r1 = run_ok (pc_steps s) r1"
    using False by (intro run_ok_cong) (force simp: settle_row_in_def image_iff)
  ultimately show ?thesis using proc_invD(1)[OF inv] by simp
qed

lemma settle_run_inv:
  assumes inv: "proc_inv (H, s)" and w: "closes s rid step w"
    and landed: "astate s (se_attempt_id step) = Some ''confirmed''" and settle: "settle_procedure_step rid step s = (r, s')"
  shows "proc_inv (H, s')"
  using settle
proof (cases rule: settle_procedure_step_cases)
  case (moved run r0)
  note act = settle_row_in_eq[OF inv w]
  have steps: "pc_steps s' = map (settle_row_in rid step) (pc_steps s)" using moved by simp
  have attempts: "map sw_attempt_id (pc_steps s') = map sw_attempt_id (pc_steps s)"
    and "map step_issue (pc_steps s') = map step_issue (pc_steps s)"
    unfolding steps using act w by (auto simp: step_issue_def closes_def)
  then have issues: "step_issue ` set (pc_steps s') = step_issue ` set (pc_steps s)" by (metis set_map)
  have ids: "map row_run_id (pc_runs s') = map row_run_id (pc_runs s)" using moved(7) by (simp add: upd_run_ids)
  have idset: "row_run_id ` set (pc_runs s') = row_run_id ` set (pc_runs s)" using arg_cong[OF ids, of set] by simp
  show ?thesis
  proof (rule proc_inv_tables[OF inv])
    show "pc_store s' = pc_store s" using moved(7) by simp
    have "run_ok (pc_steps s') r1" if "r1 \<in> set (pc_runs s')" for r1
      unfolding steps using that moved(5-7) by (intro settle_run_ok[OF inv w moved(3,4)]) auto
    then show "tables_ok s'" using inv ids idset by (auto simp: tables_ok_def list_all_iff steps comp_def)
    show "distinct (map sw_attempt_id (pc_steps s'))" using inv attempts by simp
    have "step_row_ok H s (w\<lparr>sw_settled := True, sw_attempt_id := se_attempt_id step, sw_result := se_result step\<rparr>)"
      using proc_invD(2)[OF inv, of w] landed w by (simp add: step_row_ok_def step_issue_def closes_def)
    then show "step_row_ok H s v" if "v \<in> set (pc_steps s')" for v
      using that act proc_invD(2)[OF inv] unfolding steps by (auto split: if_splits)
    show "step_issue v \<in> step_issue ` set (pc_steps s')" if "v \<in> set (pc_steps s)" for v using that issues by auto
    show "row_run_id ` set (pc_runs s') \<inter> fst ` set H \<subseteq> row_run_id ` set (pc_runs s)" using idset by simp
  qed
qed (use inv in simp)

section \<open>Every durable write keeps the invariant\<close>

lemma proc_step_inv: "proc_step env backend x y \<Longrightarrow> proc_inv x \<Longrightarrow> proc_inv y"
proof (induction rule: proc_step.induct)
  case (ps_settle w s rid step r s' H)
  then show ?case using settle_run_inv[of H s rid step w] by (simp add: closes_def del: proc_inv.simps)
next
  case (ps_issue w s a u ex H)
  then show ?case
    using execute_gates_passed[OF ps_issue(5)] by (auto intro!: proc_inv_issue simp: attempt_state_of_row simp del: proc_inv.simps)
next
  case (ps_refuse s a e ex H)
  then show ?case using execute_gates_refused[OF ps_refuse(2)]
    by (intro proc_inv_moves[where aid = "ae_attempt a" and S = "{''rejected''}" and x = "''planned''"]) simp_all
next
  case (ps_other a s u ex H)
  then show ?case using execute_gates_passed[OF ps_other(3)]
    by (intro proc_inv_moves[where aid = "ae_attempt a" and S = "{''running''}" and x = "''planned''"]) (auto simp del: proc_inv.simps)
qed (blast intro: segment_inv start_inv proc_inv_admit prepare_inv proc_inv_effect release_inv complete_inv_run
    stop_inv_run proc_inv_reconcile proc_inv_same)+

interpretation psm: state_machine proc_initial "proc_step env backend" proc_inv
  by unfold_locales (auto intro: proc_initial_inv proc_step_inv simp del: proc_inv.simps proc_initial.simps)

definition proc_reachable :: "'w effect_env \<Rightarrow> string \<Rightarrow> issue list \<times> 'w proc_state \<Rightarrow> bool" where
  "proc_reachable env backend x \<longleftrightarrow> (\<exists>x0. proc_initial x0 \<and> (proc_step env backend)\<^sup>*\<^sup>* x0 x)"

lemma proc_reachable_inv: "proc_reachable env backend x \<Longrightarrow> proc_inv x"
  unfolding proc_reachable_def using psm.run_inv by blast

end
