(* ===== verification/Procedure_Refine.thy ===== *)
theory Procedure_Refine
  imports Procedure_Inv
begin

text \<open>
  The controller's call \<open>run_procedure_step\<close> is a sequence of the durable writes of \<open>Procedure_Inv\<close>, of
  which at most one starts an effect; without it the worker is not reached.
\<close>

abbreviation world_of :: "'w proc_state \<Rightarrow> 'w" where
  "world_of s \<equiv> ex_world (pc_exec s)"

definition quiet_run :: "'w effect_env \<Rightarrow> string \<Rightarrow> issue list \<Rightarrow> 'w proc_state \<Rightarrow> 'w proc_state \<Rightarrow> bool" where
  "quiet_run env backend H s s' \<longleftrightarrow> (proc_step env backend)\<^sup>*\<^sup>* (H, s) (H, s') \<and> world_of s' = world_of s"

lemma quiet_refl [simp]: "quiet_run env backend H s s"
  by (simp add: quiet_run_def)

lemma quiet_trans: "quiet_run env backend H s t \<Longrightarrow> quiet_run env backend H t u \<Longrightarrow> quiet_run env backend H s u"
  by (auto simp: quiet_run_def)

lemma quiet_step: "proc_step env backend (H, s) (H, s') \<Longrightarrow> world_of s' = world_of s \<Longrightarrow> quiet_run env backend H s s'"
  by (simp add: quiet_run_def)

lemma quiet_inv: "quiet_run env backend H s s' \<Longrightarrow> proc_inv (H, s) \<Longrightarrow> proc_inv (H, s')"
  unfolding quiet_run_def using psm.run_keeps by blast

section \<open>Operations that leave the worker alone\<close>

lemma drop_runs_exec [simp]: "pc_exec (drop_runs gone s) = pc_exec s"
  by (simp add: drop_runs_def)

lemma start_exec: "start_procedure_run rid g snap open s = (r, s') \<Longrightarrow> pc_exec s' = pc_exec s"
  by (erule start_procedure_run_cases)
    (auto simp: reopen_procedure_run_def insert_procedure_run_def prune_procedure_runs_def Let_def split: if_splits sum.splits)

lemma run_transition_exec: "run_transition rid guard f s = (r, s') \<Longrightarrow> pc_exec s' = pc_exec s"
  by (auto simp: run_transition_def Let_def split: if_splits sum.splits)

lemma stop_exec: "stop_procedure_run rid stop s = (r, s') \<Longrightarrow> pc_exec s' = pc_exec s"
  by (simp add: stop_procedure_run_def run_transition_exec)

lemma complete_exec: "complete_procedure_run rid s = (r, s') \<Longrightarrow> pc_exec s' = pc_exec s"
  by (simp add: complete_procedure_run_def run_transition_exec)

lemma release_frame: "release_unstarted_procedure_step rid pos s = (r, s') \<Longrightarrow> pc_exec s' = pc_exec s \<and> pc_runs s' = pc_runs s"
  by (auto simp: release_unstarted_procedure_step_def delete_prepared_def split: sum.splits option.splits if_splits)

lemma settle_exec: "settle_procedure_step rid step s = (r, s') \<Longrightarrow> pc_exec s' = pc_exec s"
  by (erule settle_procedure_step_cases) auto

lemma quiet_release: "release_unstarted_procedure_step rid pos s = (r, s') \<Longrightarrow> quiet_run env backend H s s'"
  using release_frame by (fastforce intro!: quiet_step ps_release)

lemma mark_outcome_unknown_frame:
  "pc_runs (mark_outcome_unknown task s) = pc_runs s" "pc_steps (mark_outcome_unknown task s) = pc_steps s"
  "es_attempts (pc_store (mark_outcome_unknown task s)) = es_attempts (pc_store s)"
  "world_of (mark_outcome_unknown task s) = world_of s" "pc_segments (mark_outcome_unknown task s) = pc_segments s"
  by (simp_all add: mark_outcome_unknown_def split: option.splits)

lemma quiet_stop_segment:
  assumes "stop_segment task run cause s = (r, s')"
  shows "quiet_run env backend H s s'"
proof -
  let ?s = "if blocks_task cause then mark_outcome_unknown task s else s"
  have one: "quiet_run env backend H s ?s"
    using ps_outside[of "mark_outcome_unknown task s" s env backend H] by (auto intro!: quiet_step simp: mark_outcome_unknown_frame)
  obtain r2 where two: "stop_procedure_run (pn_run_id run) (stop_decision_of cause) ?s = (r2, s')"
    using assms by (auto simp: stop_segment_def Let_def split: prod.splits sum.splits)
  show ?thesis using one quiet_step[OF ps_stop[OF two]] stop_exec[OF two] quiet_trans by metis
qed

lemma quiet_complete_segment:
  assumes "complete_segment task run s = (r, s')"
  shows "quiet_run env backend H s s'"
proof -
  obtain r2 where two: "complete_procedure_run (pn_run_id run) s = (r2, s')"
    using assms by (auto simp: complete_segment_def split: prod.splits sum.splits)
  show ?thesis using quiet_step[OF ps_complete[OF two]] complete_exec[OF two] by metis
qed

section \<open>The run a call follows\<close>

text \<open>A call works on the run as it stands in the table.\<close>

definition run_stands :: "'w proc_state \<Rightarrow> procedure_run \<Rightarrow> bool" where
  "run_stands s run \<longleftrightarrow> procedure_run_of s (pn_run_id run) = Inr run"

lemma procedure_run_of_id: "procedure_run_of s rid = Inr run \<Longrightarrow> pn_run_id run = rid"
  by (auto simp: row_run_id_def dest!: procedure_run_ofD)

lemma run_standsI: "procedure_run_of s rid = Inr run \<Longrightarrow> run_stands s run"
  using procedure_run_of_id run_stands_def by metis

lemma run_stands_cong: "pc_runs s' = pc_runs s \<Longrightarrow> run_stands s' run = run_stands s run"
  by (simp add: run_stands_def procedure_run_of_def)

lemma run_stands_row:
  assumes "distinct (map row_run_id (pc_runs s))" "r \<in> set (pc_runs s)"
  shows "run_stands s (rw_run r)"
proof (cases "find (\<lambda>r'. row_run_id r' = row_run_id r) (pc_runs s)")
  case None
  then show ?thesis using assms(2) by (auto simp: find_None_iff)
next
  case (Some r')
  then have "r' \<in> set (pc_runs s)" "row_run_id r' = row_run_id r" by (auto simp: find_Some_iff)
  then have "r' = r" using assms by (auto simp: distinct_map dest: inj_onD)
  then show ?thesis using Some by (simp add: run_stands_def procedure_run_of_def row_run_id_def)
qed

lemma resumableD:
  assumes "resumable_procedure_run s pid version = Inr (Some run)"
  shows "\<exists>r\<in>set (pc_runs s). rw_run r = run \<and> run_of_version pid version r \<and> row_state r \<noteq> RunCompleted"
  using assms by (auto simp: resumable_procedure_run_def split: sum.splits dest!: find_SomeD)

lemma start_stands:
  assumes "proc_inv (H, s)" "start_procedure_run rid g snap open s = (Inr run, s')"
  shows "run_stands s' run"
  using assms(2)
proof (cases rule: start_procedure_run_cases)
  case (resumed run0)
  then obtain r where "r \<in> set (pc_runs s)" "rw_run r = run0" using resumableD by blast
  then have "run_stands s run0" using run_stands_row assms(1) by (auto simp: tables_ok_def)
  then show ?thesis
    using resumed(2) run_standsI by (auto simp: reopen_procedure_run_def Let_def split: if_splits)
next
  case opened
  then show ?thesis using run_standsI by (auto simp: insert_procedure_run_def Let_def split: sum.splits if_splits)
qed simp

lemma settle_stands: "settle_procedure_step rid step s = (Inr run, s') \<Longrightarrow> run_stands s' run"
  by (erule settle_procedure_step_cases) (auto intro: run_standsI)

lemma quiet_answer_prepared:
  assumes inv: "proc_inv (H, s)" and run: "run_stands s run" and ans: "answer_prepared run s = (r, s')"
  shows "quiet_run env backend H s s' \<and> (\<forall>run' c. r = Inr (run', c) \<longrightarrow> run_stands s' run')"
proof (cases "prepared_procedure_step s (pn_run_id run)")
  case (Inl e)
  then show ?thesis using ans by (auto simp: answer_prepared_def)
next
  case (Inr found)
  show ?thesis
  proof (cases found)
    case None
    then show ?thesis using Inr ans run by (auto simp: answer_prepared_def)
  next
    case (Some p)
    note p = Inr[unfolded Some]
    show ?thesis
    proof (cases "pp_standing p")
      case NotStarted
      then obtain b where rel: "release_unstarted_procedure_step (pn_run_id run) (pp_position p) s = (b, s')"
        and r: "\<forall>run' c. r = Inr (run', c) \<longrightarrow> run' = run"
        using ans p by (auto simp: answer_prepared_def split: prod.splits sum.splits)
      then show ?thesis using quiet_release[OF rel] run_stands_cong[of s' s] release_frame[OF rel] run by auto
    next
      case Landed
      then obtain b where st: "settle_procedure_step (pn_run_id run) (prepared_settlement p) s = (b, s')"
        and r: "\<forall>run' c. r = Inr (run', c) \<longrightarrow> b = Inr run'"
        using ans p by (auto simp: answer_prepared_def split: prod.splits sum.splits)
      obtain w where w: "w \<in> set (pc_steps s)" "sw_run_id w = pn_run_id run" "\<not> sw_settled w"
        "sw_position w = pp_position p" "sw_attempt_id w = pp_attempt_id p" "astate s (pp_attempt_id p) = Some ''confirmed''"
        using prepared_SomeD[OF p] Landed standing_landed by auto
      have "proc_step env backend (H, s) (H, s')"
        using w st by (intro ps_settle[where w = w and step = "prepared_settlement p"]) (auto simp: prepared_settlement_def)
      then have "quiet_run env backend H s s'" using settle_exec[OF st] by (simp add: quiet_step)
      then show ?thesis using r st settle_stands by auto
    next
      case Unresolved
      then show ?thesis using ans p run by (auto simp: answer_prepared_def)
    qed
  qed
qed

section \<open>The step that may reach the worker\<close>

lemma admit_effect_admitted:
  assumes "admit_effect env aid task request m ex = (Inr a, ex')"
  shows "ae_attempt a = aid \<and> attempt_of (ex_store ex) aid = None \<and> attempt_state_of (ex_store ex') aid = Some ''planned''"
proof -
  obtain st t c d where st: "plan_attempt aid t c d (ex_store ex) = Inr st" "ex_store ex' = st" "ae_attempt a = aid"
    using assms by (auto simp: admit_effect_def reject_mode_def Let_def split: sum.splits prod.splits option.splits if_splits)
  then have none: "attempt_of (ex_store ex) aid = None" by (auto simp: plan_attempt_def attempt_of_None split: if_splits)
  then have "attempt_state_of st aid = Some ''planned''"
    using st(1) by (auto simp: plan_attempt_def attempt_state_of_def attempt_of_def find_snoc split: if_splits)
  then show ?thesis using st none by simp
qed

lemma admit_effect_world: "admit_effect env aid task request m ex = (r, ex') \<Longrightarrow> ex_world ex' = ex_world ex"
  by (auto simp: admit_effect_def reject_mode_def Let_def split: sum.splits prod.splits option.splits if_splits)

text \<open>A call that issues at most one effect.\<close>

definition call_run :: "'w effect_env \<Rightarrow> string \<Rightarrow> issue list \<Rightarrow> 'w proc_state \<Rightarrow> issue list \<Rightarrow> 'w proc_state \<Rightarrow> bool" where
  "call_run env backend H s H' s' \<longleftrightarrow>
     (proc_step env backend)\<^sup>*\<^sup>* (H, s) (H @ H', s') \<and> length H' \<le> 1 \<and> (H' = [] \<longrightarrow> world_of s' = world_of s)"

lemma call_quiet: "quiet_run env backend H s s' \<Longrightarrow> call_run env backend H s [] s'"
  by (simp add: call_run_def quiet_run_def)

lemma quiet_call: "quiet_run env backend H s t \<Longrightarrow> call_run env backend H t H' u \<Longrightarrow> call_run env backend H s H' u"
  by (auto simp: call_run_def quiet_run_def)

lemma call_then_quiet: "call_run env backend H s H' t \<Longrightarrow> quiet_run env backend (H @ H') t u \<Longrightarrow> call_run env backend H s H' u"
  by (auto simp: call_run_def quiet_run_def)

lemma call_inv: "call_run env backend H s H' s' \<Longrightarrow> proc_inv (H, s) \<Longrightarrow> proc_inv (H @ H', s')"
  unfolding call_run_def using psm.run_keeps by blast

text \<open>The executed effect of a prepared step.\<close>

lemma call_execute:
  assumes w: "w \<in> set (pc_steps s)" "\<not> sw_settled w" "sw_attempt_id w = ae_attempt a"
    and planned: "astate s (ae_attempt a) = Some ''planned''"
    and exe: "execute_effect env a (pc_exec s) = (r, ex)"
  shows "\<exists>H'. call_run env backend H s H' (s\<lparr>pc_exec := ex\<rparr>)"
proof (cases "execute_gates env a (pc_exec s)")
  case (Pair g ex1)
  show ?thesis
  proof (cases g)
    case (Inl e)
    then have "ex = ex1" using exe Pair by (simp add: execute_effect_def)
    then have "quiet_run env backend H s (s\<lparr>pc_exec := ex\<rparr>)"
      using ps_refuse[OF planned Pair[unfolded Inl]] execute_gates_refused[OF Pair[unfolded Inl]] by (intro quiet_step) simp_all
    then show ?thesis using call_quiet by blast
  next
    case (Inr u)
    note gates = Pair[unfolded Inr]
    let ?s1 = "s\<lparr>pc_exec := ex1\<rparr>"
    obtain eff ex2 where eff: "perform_effect env a ex1 = (eff, ex2)" by fastforce
    then have set: "settle_effect env a eff ex2 = (r, ex)" using exe gates by (simp add: execute_effect_def)
    have "astate ?s1 (ae_attempt a) = Some ''running''"
      using execute_gates_passed[OF gates] by (auto simp: attempt_state_of_row)
    then have "proc_step env backend (H @ [step_issue w], ?s1) (H @ [step_issue w], ?s1\<lparr>pc_exec := ex\<rparr>)"
      using eff set by (intro ps_effect[where a = a and eff = eff and ex = ex2]) simp_all
    then have "(proc_step env backend)\<^sup>*\<^sup>* (H, s) (H @ [step_issue w], s\<lparr>pc_exec := ex\<rparr>)"
      using ps_issue[OF w planned gates, where backend = backend and H = H] by (auto intro: converse_rtranclp_into_rtranclp)
    then show ?thesis by (intro exI[of _ "[step_issue w]"]) (simp add: call_run_def)
  qed
qed

text \<open>The standing of a settled step, as \<open>run_segment_step\<close> reports it.\<close>

definition step_landed :: "'w proc_state \<Rightarrow> procedure_run \<Rightarrow> string \<Rightarrow> bool" where
  "step_landed s run attempt \<longleftrightarrow>
     (\<exists>w\<in>set (pc_steps s). \<not> sw_settled w \<and> sw_run_id w = pn_run_id run \<and> sw_position w = pn_cursor run + 1 \<and>
        sw_attempt_id w = attempt) \<and> astate s attempt = Some ''confirmed''"

lemma step_answer_settled:
  assumes "step_answer tool aid effect state detail = Inr (StepSettled attempt result)"
  shows "attempt = aid \<and> state = ''confirmed''"
  using assms standing_landed[of "Some state"]
  by (auto simp: step_answer_def split: option.splits step_standing.splits sum.splits)

lemma run_segment_step_cases:
  assumes "run_segment_step env aid task g run binding m s = (r, s')"
  obtains (unbound) "s' = s" "\<forall>attempt result. r \<noteq> Inr (StepSettled attempt result)"
  | (refused) request e ex where "admit_effect env aid task request m (pc_exec s) = (Inl e, ex)" "s' = s\<lparr>pc_exec := ex\<rparr>"
      "\<forall>attempt result. r \<noteq> Inr (StepSettled attempt result)"
  | (unprepared) request a ex tool e where "admit_effect env aid task request m (pc_exec s) = (Inr a, ex)"
      "prepare_procedure_step run (pn_cursor run + 1) tool (ae_attempt a) (s\<lparr>pc_exec := ex\<rparr>) = (Inl e, s')"
      "\<forall>attempt result. r \<noteq> Inr (StepSettled attempt result)"
  | (executed) request a ex tool u s2 eff ex' where "admit_effect env aid task request m (pc_exec s) = (Inr a, ex)"
      "prepare_procedure_step run (pn_cursor run + 1) tool (ae_attempt a) (s\<lparr>pc_exec := ex\<rparr>) = (Inr u, s2)"
      "execute_effect env a (pc_exec s2) = (eff, ex')" "s' = s2\<lparr>pc_exec := ex'\<rparr>"
      "\<forall>attempt result. r = Inr (StepSettled attempt result) \<longrightarrow>
         attempt = ae_attempt a \<and> attempt_state_of (ex_store ex') attempt = Some ''confirmed''"
proof (cases "\<exists>step request. segment_step_at g (pn_cursor run + 1) = Some step \<and> binding_request binding (pn_cursor run + 1) = Some request")
  case False
  then show thesis using assms by (intro unbound) (auto simp: run_segment_step_def Let_def split: option.splits)
next
  case True
  then obtain step request where found: "segment_step_at g (pn_cursor run + 1) = Some step"
    "binding_request binding (pn_cursor run + 1) = Some request" by blast
  obtain adm ex where adm: "admit_effect env aid task request m (pc_exec s) = (adm, ex)" by fastforce
  note call = assms[unfolded run_segment_step_def Let_def found option.case adm prod.case]
  show thesis
  proof (cases adm)
    case (Inl e)
    then show thesis using call adm by (intro refused[of request e ex]) (auto split: option.splits)
  next
    case (Inr a)
    obtain pr s2 where prep: "prepare_procedure_step run (pn_cursor run + 1) (ss_tool step) (ae_attempt a) (s\<lparr>pc_exec := ex\<rparr>) = (pr, s2)"
      by fastforce
    show thesis
    proof (cases pr)
      case prep_no: (Inl e)
      then show thesis using call adm Inr prep by (intro unprepared[of request a ex "ss_tool step" e]) auto
    next
      case prep_ok: (Inr u)
      obtain eff ex' where exe: "execute_effect env a (pc_exec s2) = (eff, ex')" by fastforce
      have "s' = s2\<lparr>pc_exec := ex'\<rparr>" "\<forall>attempt result. r = Inr (StepSettled attempt result) \<longrightarrow>
         attempt = ae_attempt a \<and> attempt_state_of (ex_store ex') attempt = Some ''confirmed''"
        using call[unfolded Inr sum.case prep prep_ok prod.case exe]
        by (auto simp: attempt_record_row attempt_state_of_row split: option.splits prod.splits dest!: step_answer_settled)
      then show thesis using adm Inr prep prep_ok exe by (intro executed[of request a ex "ss_tool step" u s2 eff ex']) auto
    qed
  qed
qed

lemma step_row_recorded: "proc_inv (H, s) \<Longrightarrow> aid \<in> sw_attempt_id ` set (pc_steps s) \<Longrightarrow> attempt_of (pc_store s) aid \<noteq> None"
  using proc_invD(2)[of H s] by (force simp: step_row_ok_def attempt_state_of_row)

lemma quiet_admit:
  assumes "admit_effect env aid task request m (pc_exec s) = (adm, ex)" "run_stands s run"
  shows "quiet_run env backend H s (s\<lparr>pc_exec := ex\<rparr>)" "run_stands (s\<lparr>pc_exec := ex\<rparr>) run"
  using ps_admit[OF assms(1)] admit_effect_world[OF assms(1)] assms(2) run_stands_cong[of "s\<lparr>pc_exec := ex\<rparr>" s]
  by (auto intro: quiet_step)

lemma quiet_prepare:
  assumes inv: "proc_inv (H, s)" and run: "run_stands s run"
    and adm: "admit_effect env aid task request m (pc_exec s) = (Inr a, ex)"
    and prep: "prepare_procedure_step run pos tool (ae_attempt a) (s\<lparr>pc_exec := ex\<rparr>) = (r, s')"
  shows "quiet_run env backend H s s'" "run_stands s' run" "astate s' (ae_attempt a) = Some ''planned''"
proof -
  let ?s1 = "s\<lparr>pc_exec := ex\<rparr>"
  have frame: "pc_exec s' = ex" "pc_runs s' = pc_runs s"
    using prep by (auto simp: prepare_procedure_step_def Let_def split: if_splits sum.splits)
  have a: "ae_attempt a = aid" "attempt_of (pc_store s) aid = None" "astate ?s1 (ae_attempt a) = Some ''planned''"
    using admit_effect_admitted[OF adm] by simp_all
  then have "ae_attempt a \<notin> sw_attempt_id ` set (pc_steps ?s1)" using step_row_recorded[OF inv, of "ae_attempt a"] by fastforce
  then have "proc_step env backend (H, ?s1) (H, s')"
    using ps_prepare[OF quiet_admit(2)[OF adm run, unfolded run_stands_def] a(3) _ prep] by blast
  then show "quiet_run env backend H s s'"
    using quiet_trans[OF quiet_admit(1)[OF adm run] quiet_step] frame(1) by simp
  show "run_stands s' run" using run run_stands_cong[OF frame(2)] by simp
  show "astate s' (ae_attempt a) = Some ''planned''" using a(3) frame(1) by simp
qed

lemma prepared_row:
  assumes "prepare_procedure_step run pos tool aid s = (Inr u, s')"
  shows "\<exists>w\<in>set (pc_steps s'). \<not> sw_settled w \<and> sw_run_id w = pn_run_id run \<and> sw_position w = pos \<and> sw_attempt_id w = aid"
  using assms
  by (intro bexI[of _ "\<lparr>sw_run_id = pn_run_id run, sw_position = pos, sw_tool = tool, sw_settled = False,
      sw_attempt_id = aid, sw_result = []\<rparr>"]) (auto simp: prepare_procedure_step_def Let_def split: if_splits sum.splits)

lemma call_run_segment_step:
  assumes inv: "proc_inv (H, s)" and run: "run_stands s run"
    and call: "run_segment_step env aid task g run binding m s = (r, s')"
  shows "\<exists>H'. call_run env backend H s H' s' \<and> run_stands s' run \<and>
    (\<forall>attempt result. r = Inr (StepSettled attempt result) \<longrightarrow> step_landed s' run attempt)"
  using call
proof (cases rule: run_segment_step_cases)
  case unbound
  then show ?thesis using call_quiet[of env backend H s s] run by auto
next
  case (refused request e ex)
  then show ?thesis
    using call_quiet[OF quiet_admit(1)[OF refused(1) run], of backend H] quiet_admit(2)[OF refused(1) run] by blast
next
  case (unprepared request a ex tool e)
  note q = quiet_prepare[OF inv run unprepared(1,2)]
  show ?thesis using call_quiet[OF q(1)[of backend]] q(2) unprepared(3) by auto
next
  case (executed request a ex tool u s2 eff ex')
  note q = quiet_prepare[OF inv run executed(1,2)]
  obtain w where w: "w \<in> set (pc_steps s2)" "\<not> sw_settled w" "sw_run_id w = pn_run_id run"
    "sw_position w = pn_cursor run + 1" "sw_attempt_id w = ae_attempt a"
    using prepared_row[OF executed(2)] by blast
  obtain H' where "call_run env backend H s2 H' s'" using call_execute[OF w(1,2,5) q(3) executed(3), of backend H] executed(4) by auto
  moreover have "run_stands s' run" using q(2) run_stands_cong[of s' s2] executed(4) by simp
  moreover have "step_landed s' run attempt" if "r = Inr (StepSettled attempt result)" for attempt result
    using that executed(4,5) w by (auto simp: step_landed_def)
  ultimately show ?thesis using quiet_call[OF q(1)[of backend]] by blast
qed

section \<open>The controller's call\<close>

lemma segment_step_at_position: "segment_step_at g pos = Some step \<Longrightarrow> ss_position step = pos"
  by (auto simp: segment_step_at_def dest: find_SomeD)

lemma call_perform_segment_step:
  assumes inv: "proc_inv (H, s)" and run: "run_stands s run"
    and call: "perform_segment_step env aid task g run binding m s = (r, s')"
  shows "\<exists>H'. call_run env backend H s H' s'"
proof (cases "segment_step_at g (pn_cursor run + 1)")
  case None
  then show ?thesis using call call_quiet[of env backend H s s] by (auto simp: perform_segment_step_def)
next
  case (Some step)
  obtain r1 s1 where seg: "run_segment_step env aid task g run binding m s = (r1, s1)" by fastforce
  obtain H' where H': "call_run env backend H s H' s1"
    and landed: "\<And>attempt result. r1 = Inr (StepSettled attempt result) \<Longrightarrow> step_landed s1 run attempt"
    using call_run_segment_step[OF inv run seg] by blast
  have "quiet_run env backend (H @ H') s1 s'"
  proof (cases "\<exists>attempt result. r1 = Inr (StepSettled attempt result)")
    case True
    then obtain attempt result where r1: "r1 = Inr (StepSettled attempt result)" by blast
    let ?st = "\<lparr>se_position = ss_position step, se_tool = ss_tool step, se_attempt_id = attempt, se_result = result\<rparr>"
    obtain r2 s2 where st: "settle_procedure_step (pn_run_id run) ?st s1 = (r2, s2)" by fastforce
    have "proc_step env backend (H @ H', s1) (H @ H', s2)"
      using landed[OF r1] segment_step_at_position[OF Some] st unfolding step_landed_def
      by (auto intro!: ps_settle[where step = ?st])
    then have one: "quiet_run env backend (H @ H') s1 s2" using settle_exec[OF st] by (simp add: quiet_step)
    have "quiet_run env backend (H @ H') s2 s'"
      using call seg r1 st Some
      by (auto simp: perform_segment_step_def Let_def split: sum.splits if_splits intro: quiet_complete_segment)
    then show ?thesis using one quiet_trans by blast
  next
    case False
    obtain r2 s2 where rel: "release_unstarted_procedure_step (pn_run_id run) (ss_position step) s1 = (r2, s2)" by fastforce
    have "s' = s2 \<or> (\<exists>cause. stop_segment task run cause s2 = (r, s'))"
      using call seg Some rel False
      by (auto simp: perform_segment_step_def Let_def split: sum.splits segment_outcome.splits)
    then show ?thesis using quiet_release[OF rel] quiet_stop_segment quiet_trans by metis
  qed
  then show ?thesis using call_then_quiet[OF H'] by blast
qed

lemma run_procedure_step_cases:
  assumes "run_procedure_step env backend rid aid task pid binding m open s = (r, s')"
  obtains (absent) e where "r = Inl e" "s' = s"
  | (unstarted) g live e where "start_procedure_run rid g live open s = (Inl e, s')" "r = Inl (ControllerProcedure e)"
  | (unanswered) g live run0 s1 e where "start_procedure_run rid g live open s = (Inr run0, s1)"
      "answer_prepared run0 s1 = (Inl e, s')" "r = Inl (ControllerProcedure e)"
  | (stopped) g live run0 s1 run c s2 cause where "start_procedure_run rid g live open s = (Inr run0, s1)"
      "answer_prepared run0 s1 = (Inr (run, c), s2)" "stop_segment task run cause s2 = (r, s')"
  | (finished) g live run0 s1 run s2 where "start_procedure_run rid g live open s = (Inr run0, s1)"
      "answer_prepared run0 s1 = (Inr (run, None), s2)" "complete_segment task run s2 = (r, s')"
  | (performed) g live run0 s1 run s2 where "procedure_segment s pid = Inr g" "start_procedure_run rid g live open s = (Inr run0, s1)"
      "answer_prepared run0 s1 = (Inr (run, None), s2)" "run_remainder run g \<noteq> []"
      "perform_segment_step env aid task g run binding m s2 = (r, s')"
proof -
  consider (no) "(\<exists>e. procedure_segment s pid = Inl e) \<or> (\<exists>e. live_segment_snapshot backend s task = Inl e)"
    | (yes) g live where "procedure_segment s pid = Inr g" "live_segment_snapshot backend s task = Inr live"
    by (metis sum.exhaust)
  then show thesis
  proof cases
    case no
    then show thesis using assms absent by (auto simp: run_procedure_step_def split: sum.splits)
  next
    case yes
    obtain st s1 where st: "start_procedure_run rid g live open s = (st, s1)" by fastforce
    show thesis
    proof (cases st)
      case (Inl e)
      then show thesis using assms yes st unstarted by (auto simp: run_procedure_step_def)
    next
      case (Inr run0)
      obtain an s2 where an: "answer_prepared run0 s1 = (an, s2)" by fastforce
      show thesis
      proof (cases an)
        case ans_no: (Inl e)
        then show thesis using assms yes st Inr an unanswered by (auto simp: run_procedure_step_def)
      next
        case ans: (Inr rc)
        obtain run c where rc: "rc = (run, c)" by fastforce
        note call = assms[unfolded run_procedure_step_def yes sum.case st Inr an ans rc prod.case]
        note st' = st[unfolded Inr] and an' = an[unfolded ans rc]
        show thesis
          using call st' an' yes stopped[OF st' an'] finished[OF st', of run s2] performed[OF yes(1) st', of run s2]
          by (cases c) (auto split: if_splits option.splits)
      qed
    qed
  qed
qed

text \<open>The whole call, from any state the invariant holds in.\<close>

lemma call_run_procedure_step:
  assumes inv: "proc_inv (H, s)" and fresh: "rid \<notin> fst ` set H"
    and call: "run_procedure_step env backend rid aid task pid binding m open s = (r, s')"
  shows "\<exists>H'. call_run env backend H s H' s'"
proof -
  have started: "quiet_run env backend H s s1" if "start_procedure_run rid g live open s = (x, s1)" for g live x s1
    using ps_start[OF that fresh] start_exec[OF that] by (intro quiet_step) simp_all
  have answered: "quiet_run env backend H s s2 \<and> (\<forall>run c. a = Inr (run, c) \<longrightarrow> run_stands s2 run)"
    if st: "start_procedure_run rid g live open s = (Inr run0, s1)" and an: "answer_prepared run0 s1 = (a, s2)" for g live run0 s1 a s2
    using quiet_answer_prepared[OF start_inv[OF inv st fresh] start_stands[OF inv st] an, of env backend] quiet_trans[OF started[OF st]]
    by blast
  show ?thesis using call
  proof (cases rule: run_procedure_step_cases)
    case absent
    then show ?thesis using call_quiet[of env backend H s s] by auto
  next
    case (unstarted g live e)
    then show ?thesis using call_quiet started by blast
  next
    case (unanswered g live run0 s1 e)
    then show ?thesis using call_quiet answered by blast
  next
    case (stopped g live run0 s1 run c s2 cause)
    then show ?thesis using call_quiet[OF quiet_trans[OF _ quiet_stop_segment[OF stopped(3)]]] answered[OF stopped(1,2)] by blast
  next
    case (finished g live run0 s1 run s2)
    then show ?thesis using call_quiet[OF quiet_trans[OF _ quiet_complete_segment[OF finished(3)]]] answered[OF finished(1,2)] by blast
  next
    case (performed g live run0 s1 run s2)
    then have "quiet_run env backend H s s2" "run_stands s2 run" using answered by blast+
    then obtain H' where "call_run env backend H s2 H' s'"
      using call_perform_segment_step[OF quiet_inv[OF _ inv] _ performed(5)] by blast
    then show ?thesis using quiet_call[OF \<open>quiet_run env backend H s s2\<close>] by blast
  qed
qed

end
