(* ===== verification/Procedure_Driver.thy ===== *)
theory Procedure_Driver
  imports Procedure_Refine
begin

text \<open>
  The driver's loop ends. While it steps, it follows the newest unfinished run of the segment; every turn
  either settles a step that an earlier call left prepared or leaves fewer steps ahead of the cursor.
\<close>

lemma find_map: "find P (map f xs) = map_option f (find (P \<circ> f) xs)"
  by (induction xs) auto

definition newest :: "string \<Rightarrow> nat \<Rightarrow> run_row list \<Rightarrow> run_row option" where
  "newest pid version rs = find (\<lambda>r. run_of_version pid version r \<and> row_state r \<noteq> RunCompleted) (rev rs)"

lemma newest_SomeD: "newest pid version rs = Some r \<Longrightarrow> r \<in> set rs \<and> run_of_version pid version r \<and> row_state r \<noteq> RunCompleted"
  by (auto simp: newest_def dest!: find_SomeD)

text \<open>The run that a start of the segment resumes, when the run is running.\<close>

definition follows :: "segment_template \<Rightarrow> 'w proc_state \<Rightarrow> procedure_run \<Rightarrow> bool" where
  "follows g s run \<longleftrightarrow>
     distinct (map row_run_id (pc_runs s)) \<and> pn_state run = RunRunning \<and>
     (\<exists>r. newest (sg_procedure_id g) (sg_version g) (pc_runs s) = Some r \<and> rw_run r = run)"

lemma followsD:
  assumes "follows g s run"
  shows "\<exists>r\<in>set (pc_runs s). rw_run r = run \<and> run_of_version (sg_procedure_id g) (sg_version g) r" "run_stands s run"
  using assms run_stands_row[of s] by (auto simp: follows_def dest!: newest_SomeD)

lemma newest_upd_run:
  assumes "\<And>r. pn_procedure_id (f r) = pn_procedure_id r" "\<And>r. pn_procedure_version (f r) = pn_procedure_version r"
    "\<And>r. guard r \<Longrightarrow> (pn_state (f (rw_run r)) = RunCompleted) = (row_state r = RunCompleted)"
  shows "newest pid version (upd_run rid guard f rs) =
    map_option (\<lambda>r. if row_run_id r = rid \<and> guard r then r\<lparr>rw_run := f (rw_run r)\<rparr> else r) (newest pid version rs)"
proof -
  let ?h = "\<lambda>r. if row_run_id r = rid \<and> guard r then r\<lparr>rw_run := f (rw_run r)\<rparr> else r"
  have "(\<lambda>r. run_of_version pid version r \<and> row_state r \<noteq> RunCompleted) \<circ> ?h =
      (\<lambda>r. run_of_version pid version r \<and> row_state r \<noteq> RunCompleted)"
    using assms by (auto simp: run_of_version_def row_state_def fun_eq_iff)
  then show ?thesis by (simp add: newest_def upd_run_def rev_map find_map)
qed

lemma run_stands_unique: "run_stands s run \<Longrightarrow> run_stands s run' \<Longrightarrow> pn_run_id run = pn_run_id run' \<Longrightarrow> run = run'"
  by (simp add: run_stands_def)

section \<open>Starting\<close>

lemma start_follows:
  assumes dist: "distinct (map row_run_id (pc_runs s))" and start: "start_procedure_run rid g snap open s = (Inr run, s')"
  shows "follows g s' run"
  using start
proof (cases rule: start_procedure_run_cases)
  case (resumed run0)
  then obtain r where r: "newest (sg_procedure_id g) (sg_version g) (pc_runs s) = Some r" "rw_run r = run0"
    by (auto simp: resumable_procedure_run_def newest_def split: sum.splits)
  then have mem: "r \<in> set (pc_runs s)" "row_state r \<noteq> RunCompleted" by (auto simp: newest_def dest!: find_SomeD)
  show ?thesis
  proof (cases "pn_state run0 = RunStopped")
    case False
    then have "run = run0" "s' = s" using resumed(2) by (simp_all add: reopen_procedure_run_def)
    then show ?thesis using r dist mem(2) False by (cases "pn_state run0") (auto simp: follows_def row_state_def)
  next
    case True
    let ?f = "\<lambda>r. r\<lparr>pn_state := RunRunning, pn_stop := None\<rparr>"
    let ?h = "\<lambda>r. if row_run_id r = pn_run_id run0 \<and> row_state r = RunStopped then r\<lparr>rw_run := ?f (rw_run r)\<rparr> else r"
    have s': "s' = s\<lparr>pc_runs := upd_run (pn_run_id run0) (\<lambda>r. row_state r = RunStopped) ?f (pc_runs s)\<rparr>"
      and run: "procedure_run_of s' (pn_run_id run0) = Inr run"
      using resumed(2) True by (auto simp: reopen_procedure_run_def Let_def)
    have dist': "distinct (map row_run_id (pc_runs s'))" using dist s' by (simp add: upd_run_ids)
    have hr: "rw_run (?h r) = ?f run0" using r(2) True by (simp add: row_run_id_def row_state_def)
    have "?h r \<in> set (pc_runs s')" using s' mem(1) by (auto simp: upd_run_def)
    then have "run_stands s' (?f run0)" using run_stands_row[OF dist', of "?h r"] hr by simp
    then have eq: "run = ?f run0"
      using run_stands_unique[OF run_standsI[OF run]] procedure_run_of_id[OF run] by simp
    have "newest (sg_procedure_id g) (sg_version g) (pc_runs s') = Some (?h r)"
      using r(1) s' newest_upd_run[where f = ?f and guard = "\<lambda>r. row_state r = RunStopped"] by (simp add: row_state_def)
    then show ?thesis using dist' eq hr by (auto simp: follows_def)
  qed
next
  case opened
  let ?t = "s\<lparr>pc_runs := pc_runs s @ [new_run rid g snap]\<rparr>"
  let ?gone = "set (map row_run_id (drop procedure_run_retention (rev (filter (\<lambda>r. row_state r \<noteq> RunRunning) (pc_runs ?t)))))"
  have new: "rid \<notin> row_run_id ` set (pc_runs s)" and s': "s' = drop_runs ?gone ?t" and run: "procedure_run_of s' rid = Inr run"
    using opened(2) by (auto simp: insert_procedure_run_def prune_procedure_runs_def Let_def split: sum.splits if_splits)
  have "rid \<notin> ?gone" using new by (auto dest!: in_set_dropD)
  then have runs: "\<exists>rs. pc_runs s' = rs @ [new_run rid g snap]" unfolding s' by (simp add: drop_runs_def)
  have dist': "distinct (map row_run_id (pc_runs s'))" using dist new unfolding s' by (auto simp: drop_runs_def distinct_map_filter)
  have "run_stands s' (rw_run (new_run rid g snap))" using run_stands_row[OF dist', of "new_run rid g snap"] runs by auto
  then have "rw_run (new_run rid g snap) = run" using run by (simp add: run_stands_def new_run_def)
  moreover have "newest (sg_procedure_id g) (sg_version g) (pc_runs s') = Some (new_run rid g snap)"
    using runs by (auto simp: newest_def run_of_version_def new_run_def row_state_def)
  ultimately show ?thesis using dist' by (auto simp: follows_def new_run_def)
qed simp

section \<open>Settling\<close>

definition prepared_count :: "'w proc_state \<Rightarrow> string \<Rightarrow> nat" where
  "prepared_count s rid = length (filter (\<lambda>w. sw_run_id w = rid \<and> \<not> sw_settled w) (pc_steps s))"

lemma settle_follows:
  assumes follows: "follows g s run" and settle: "settle_procedure_step (pn_run_id run) step s = (Inr run', s')"
  shows "follows g s' run' \<and> run' = run\<lparr>pn_cursor := se_position step\<rparr> \<and>
    pc_steps s' = map (settle_row_in (pn_run_id run) step) (pc_steps s) \<and> pc_segments s' = pc_segments s"
  using settle
proof (cases rule: settle_procedure_step_cases)
  case (moved run1 r0)
  obtain r where r: "newest (sg_procedure_id g) (sg_version g) (pc_runs s) = Some r" "rw_run r = run" "r \<in> set (pc_runs s)"
    and dist: "distinct (map row_run_id (pc_runs s))" and state: "pn_state run = RunRunning"
    using follows newest_SomeD unfolding follows_def by blast
  have run1: "run1 = run" using moved(1) followsD(2)[OF follows] by (simp add: run_stands_def)
  let ?f = "\<lambda>r. r\<lparr>pn_cursor := se_position step\<rparr>"
  let ?guard = "\<lambda>r. pn_cursor (rw_run r) = pn_cursor run \<and> row_state r = RunRunning"
  let ?r = "r\<lparr>rw_run := ?f run\<rparr>"
  have s': "pc_runs s' = upd_run (pn_run_id run) ?guard ?f (pc_runs s)" using moved(7) run1 by simp
  have dist': "distinct (map row_run_id (pc_runs s'))" using dist s' by (simp add: upd_run_ids)
  have hit: "row_run_id r = pn_run_id run \<and> ?guard r" using r(2) state by (simp add: row_run_id_def row_state_def)
  have new: "newest (sg_procedure_id g) (sg_version g) (pc_runs s') = Some ?r"
    unfolding s' using r(1,2) hit newest_upd_run[where f = ?f and guard = ?guard] by (simp add: row_state_def)
  then have "?r \<in> set (pc_runs s')" by (auto simp: newest_def dest!: find_SomeD)
  then have "run_stands s' (?f run)" using run_stands_row[OF dist', of ?r] by simp
  moreover have "procedure_run_of s' (pn_run_id run) = Inr run'" using moved(2) by simp
  ultimately have "run' = ?f run" by (simp add: run_stands_def)
  then show ?thesis using dist' new state moved(7) by (auto simp: follows_def)
qed simp

lemma prepared_count_settle:
  assumes "pc_steps s' = map (settle_row_in rid step) (pc_steps s)"
  shows "prepared_count s' rid = length (filter (\<lambda>w. sw_run_id w = rid \<and> \<not> sw_settled w \<and> sw_position w \<noteq> se_position step) (pc_steps s))"
proof -
  have "(\<lambda>w. sw_run_id w = rid \<and> \<not> sw_settled w) \<circ> settle_row_in rid step =
      (\<lambda>w. sw_run_id w = rid \<and> \<not> sw_settled w \<and> sw_position w \<noteq> se_position step)"
    by (auto simp: settle_row_in_def fun_eq_iff)
  then show ?thesis by (simp add: prepared_count_def assms filter_map)
qed

lemma filter_length_less: "x \<in> set xs \<Longrightarrow> P x \<Longrightarrow> \<not> Q x \<Longrightarrow> (\<And>y. Q y \<Longrightarrow> P y) \<Longrightarrow> length (filter Q xs) < length (filter P xs)"
  using length_filter_less[of x "filter P xs" Q] by (simp add: filter_filter) (metis (no_types, lifting) filter_cong)

lemma length_filter_conj_le: "(\<And>y. Q y \<Longrightarrow> P y) \<Longrightarrow> length (filter Q xs) \<le> length (filter P xs)"
  by (induction xs) (auto intro: le_SucI)

section \<open>One turn\<close>

lemma follows_cong: "pc_runs s' = pc_runs s \<Longrightarrow> follows g s' run = follows g s run"
  by (simp add: follows_def)

lemma answer_follows:
  assumes follows: "follows g s run" and ans: "answer_prepared run s = (Inr (run', None), s')"
  shows "follows g s' run' \<and> pn_run_id run' = pn_run_id run \<and> pc_segments s' = pc_segments s \<and>
    (prepared_count s' (pn_run_id run) < prepared_count s (pn_run_id run) \<or>
     run' = run \<and> prepared_count s' (pn_run_id run) \<le> prepared_count s (pn_run_id run))"
proof (cases "prepared_procedure_step s (pn_run_id run)")
  case (Inr found)
  show ?thesis
  proof (cases found)
    case None
    then show ?thesis using Inr ans follows by (simp add: answer_prepared_def)
  next
    case (Some p)
    note p = Inr[unfolded Some]
    show ?thesis
    proof (cases "pp_standing p")
      case NotStarted
      then obtain b where rel: "release_unstarted_procedure_step (pn_run_id run) (pp_position p) s = (b, s')" and run': "run' = run"
        using ans p by (auto simp: answer_prepared_def split: prod.splits sum.splits)
      then have "s' = s \<or> s' = delete_prepared (pn_run_id run) (pp_position p) s"
        by (auto simp: release_unstarted_procedure_step_def split: sum.splits option.splits if_splits)
      then have "pc_segments s' = pc_segments s \<and> prepared_count s' (pn_run_id run) \<le> prepared_count s (pn_run_id run)"
        by (auto simp: delete_prepared_def prepared_count_def intro!: length_filter_conj_le)
      then show ?thesis using follows_cong[of s' s] release_frame[OF rel] follows run' by simp
    next
      case Landed
      then have st: "settle_procedure_step (pn_run_id run) (prepared_settlement p) s = (Inr run', s')"
        using ans p by (auto simp: answer_prepared_def split: prod.splits sum.splits)
      note sf = settle_follows[OF follows st]
      obtain w where "w \<in> set (pc_steps s)" "sw_run_id w = pn_run_id run" "\<not> sw_settled w" "sw_position w = pp_position p"
        using prepared_SomeD[OF p] by auto
      then have "prepared_count s' (pn_run_id run) < prepared_count s (pn_run_id run)"
        unfolding prepared_count_settle[OF conjunct1[OF conjunct2[OF conjunct2[OF sf]]]] unfolding prepared_count_def
        by (intro filter_length_less[of w]) (auto simp: prepared_settlement_def)
      then show ?thesis using sf by auto
    qed (use ans p in \<open>simp add: answer_prepared_def\<close>)
  qed
qed (use ans in \<open>simp add: answer_prepared_def\<close>)

lemma stop_not_stepped: "stop_segment task run cause s \<noteq> (Inr (SegmentStepped run' st), s')"
  by (auto simp: stop_segment_def Let_def split: prod.splits sum.splits)

lemma complete_not_stepped: "complete_segment task run s \<noteq> (Inr (SegmentStepped run' st), s')"
  by (auto simp: complete_segment_def split: prod.splits sum.splits)

lemma perform_stepped:
  assumes call: "perform_segment_step env aid task g run binding m s = (Inr (SegmentStepped run' st), s')"
  obtains step attempt result s1 where "segment_step_at g (pn_cursor run + 1) = Some step"
    "run_segment_step env aid task g run binding m s = (Inr (StepSettled attempt result), s1)"
    "settle_procedure_step (pn_run_id run) st s1 = (Inr run', s')" "se_position st = ss_position step"
proof -
  obtain step where step: "segment_step_at g (pn_cursor run + 1) = Some step"
    using call by (auto simp: perform_segment_step_def split: option.splits)
  obtain r1 s1 where seg: "run_segment_step env aid task g run binding m s = (r1, s1)" by fastforce
  note call' = call[unfolded perform_segment_step_def step option.case seg prod.case]
  obtain attempt result where r1: "r1 = Inr (StepSettled attempt result)"
    using call' by (cases r1) (auto simp: stop_not_stepped split: segment_outcome.splits prod.splits sum.splits)
  let ?st = "\<lparr>se_position = ss_position step, se_tool = ss_tool step, se_attempt_id = attempt, se_result = result\<rparr>"
  obtain r2 s2 where st: "settle_procedure_step (pn_run_id run) ?st s1 = (r2, s2)" by fastforce
  have "r2 = Inr run' \<and> st = ?st \<and> s2 = s'"
    using call'[unfolded r1 sum.case segment_outcome.case Let_def st prod.case]
    by (cases r2) (auto simp: complete_not_stepped split: if_splits)
  then show thesis using that step seg r1 st by auto
qed

lemma perform_follows:
  assumes follows: "follows g s run"
    and call: "perform_segment_step env aid task g run binding m s = (Inr (SegmentStepped run' st), s')"
  shows "follows g s' run' \<and> pn_run_id run' = pn_run_id run \<and> pc_segments s' = pc_segments s \<and>
    prepared_count s' (pn_run_id run) \<le> prepared_count s (pn_run_id run) \<and>
    length (run_remainder run' g) < length (run_remainder run g)"
proof -
  obtain step attempt result s1 where step: "segment_step_at g (pn_cursor run + 1) = Some step"
    and seg: "run_segment_step env aid task g run binding m s = (Inr (StepSettled attempt result), s1)"
    and st: "settle_procedure_step (pn_run_id run) st s1 = (Inr run', s')" "se_position st = ss_position step"
    by (rule perform_stepped[OF call])
  have pos: "ss_position step = pn_cursor run + 1" "step \<in> set (sg_steps g)"
    using segment_step_at_position[OF step] find_SomeD[OF step[unfolded segment_step_at_def]] by simp_all
  obtain w where w: "pc_steps s1 = pc_steps s @ [w]" "sw_position w = pn_cursor run + 1"
      "\<not> step_exists s (pn_run_id run) (pn_cursor run + 1)"
    and runs: "pc_runs s1 = pc_runs s" "pc_segments s1 = pc_segments s"
    using seg
  proof (cases rule: run_segment_step_cases)
    case (executed request a ex tool u s2 eff ex')
    show thesis using executed(2,4)
      by (intro that[of "\<lparr>sw_run_id = pn_run_id run, sw_position = pn_cursor run + 1, sw_tool = tool, sw_settled = False,
          sw_attempt_id = ae_attempt a, sw_result = []\<rparr>"])
        (auto simp: prepare_procedure_step_def step_exists_def Let_def split: if_splits sum.splits)
  qed simp_all
  have "follows g s1 run" using follows follows_cong[OF runs(1)] by simp
  note sf = settle_follows[OF this st(1)]
  have "prepared_count s' (pn_run_id run) \<le> prepared_count s (pn_run_id run)"
    unfolding prepared_count_settle[OF conjunct1[OF conjunct2[OF conjunct2[OF sf]]]] w(1) st(2) pos(1)
    using w(2) by (auto simp: prepared_count_def intro!: length_filter_conj_le)
  moreover have "length (run_remainder run' g) < length (run_remainder run g)"
    using sf st(2) pos unfolding run_remainder_def remainder_after_def by (intro filter_length_less[of step]) auto
  ultimately show ?thesis using sf runs by auto
qed

lemma start_followed:
  assumes "follows g s run" "start_procedure_run rid g snap open s = (Inr run0, s1)"
  shows "run0 = run \<and> s1 = s"
  using assms(2)
proof (cases rule: start_procedure_run_cases)
  case (resumed run1)
  then have "run1 = run" using assms(1) by (auto simp: follows_def resumable_procedure_run_def newest_def split: sum.splits)
  then show ?thesis using resumed(2) assms(1) by (auto simp: reopen_procedure_run_def follows_def)
next
  case opened
  then show ?thesis using assms(1) by (auto simp: follows_def resumable_procedure_run_def newest_def split: sum.splits)
qed simp

lemma start_segments:
  assumes "start_procedure_run rid g snap open s = (r, s')"
  shows "pc_segments s' = pc_segments s"
  using assms
proof (cases rule: start_procedure_run_cases)
  case (resumed run)
  then show ?thesis by (auto simp: reopen_procedure_run_def Let_def split: if_splits)
next
  case opened
  then show ?thesis by (auto simp: insert_procedure_run_def prune_procedure_runs_def drop_runs_def Let_def split: if_splits sum.splits)
qed simp

definition turns_left :: "segment_template \<Rightarrow> 'w proc_state \<Rightarrow> procedure_run \<Rightarrow> nat \<times> nat" where
  "turns_left g s run = (prepared_count s (pn_run_id run), length (run_remainder run g))"

lemma turn_follows:
  assumes dist: "distinct (map row_run_id (pc_runs s))"
    and call: "run_procedure_step env backend rid aid task pid binding m open s = (Inr (SegmentStepped run' st), s')"
  shows "\<exists>g. procedure_segment s pid = Inr g \<and> pc_segments s' = pc_segments s \<and> follows g s' run' \<and>
    (\<forall>run. follows g s run \<longrightarrow> (turns_left g s' run', turns_left g s run) \<in> less_than <*lex*> less_than)"
  using call
proof (cases rule: run_procedure_step_cases)
  case (performed g live run0 s1 run s2)
  note f1 = start_follows[OF dist performed(2)]
  note f2 = answer_follows[OF f1 performed(3)]
  note f3 = perform_follows[OF conjunct1[OF f2] performed(5)]
  have "(turns_left g s' run', turns_left g s run1) \<in> less_than <*lex*> less_than" if "follows g s run1" for run1
    using start_followed[OF that performed(2)] f2 f3 by (auto simp: turns_left_def)
  then show ?thesis using performed(1) f2 f3 start_segments[OF performed(2)] by auto
qed (simp_all add: stop_not_stepped complete_not_stepped)

section \<open>The loop\<close>

lemma segment_loop_follows:
  assumes "procedure_segment s pid = Inr g" "follows g s run"
  shows "\<exists>res. segment_loop env backend rids aids turn task pid binding s = Some res"
  using assms
proof (induction "turns_left g s run" arbitrary: s run turn rule: wf_induct_rule[OF wf_lex_prod[OF wf_less_than wf_less_than]])
  case (1 s run turn)
  obtain r s' where call: "run_procedure_step env backend (rids turn) (aids turn) task pid binding Manual ResumeRun s = (r, s')"
    by fastforce
  show ?case
  proof (cases "\<exists>run' st. r = Inr (SegmentStepped run' st)")
    case True
    then obtain run' st where r: "r = Inr (SegmentStepped run' st)" by blast
    have dist: "distinct (map row_run_id (pc_runs s))" using 1(3) by (simp add: follows_def)
    from turn_follows[OF dist call[unfolded r]] 1(2,3)
    have next_turn: "pc_segments s' = pc_segments s" "follows g s' run'"
      "(turns_left g s' run', turns_left g s run) \<in> less_than <*lex*> less_than"
      by auto
    have "procedure_segment s' pid = Inr g" using 1(2) next_turn(1) by (simp add: procedure_segment_def)
    from 1(1)[OF next_turn(3) this next_turn(2), of "Suc turn"] show ?thesis
      by (subst segment_loop.simps) (simp add: call r)
  next
    case False
    then show ?thesis
      by (subst segment_loop.simps)
        (auto simp: call split: sum.splits segment_step_outcome.splits controller_error.splits procedure_error.splits)
  qed
qed

end
