(* ===== verification/Procedure_Theorems.thy ===== *)
theory Procedure_Theorems
  imports Procedure_Driver
begin

text \<open>
  What procedure segments guarantee: well-formed tables, no step issued again unless its earlier attempt
  was rejected, a completed run is one in which every step landed, the controller's call is made of the
  durable writes, and the driver's loop ends.
\<close>

section \<open>The stored spellings\<close>

lemma stop_trigger_roundtrip: "stop_trigger_parse (stop_trigger_as_str t) = Some t"
  by (cases t) (simp_all add: stop_trigger_parse_def stop_conditions_def)

lemma run_state_roundtrip: "run_state_parse (run_state_as_str st) = Some st"
  by (cases st) (simp_all add: run_state_parse_def)

lemma trigger_no_comma: "CHR '','' \<notin> set (stop_trigger_as_str t)"
  by (cases t) simp_all

lemma str_split_join: "xs \<noteq> [] \<Longrightarrow> \<forall>x\<in>set xs. c \<notin> set x \<Longrightarrow> str_split c (join_with [c] xs) = xs"
proof (induction "[c]" xs rule: join_with.induct)
  case (3 x y ys)
  have "str_split c (x @ c # r) = x # str_split c r" if "c \<notin> set x" for r
    using that by (induction x) auto
  then show ?case using 3 by simp
qed (auto intro: str_split_single)

text \<open>The comma-separated column of stop conditions reads back.\<close>

lemma stop_conditions_roundtrip: "ts \<noteq> [] \<Longrightarrow> stop_conditions_read (stop_conditions_stored ts) = Inr ts"
proof -
  have "collect_triggers (map stop_trigger_as_str ts) = Inr ts" for ts
    by (induction ts) (simp_all add: stop_trigger_roundtrip)
  moreover assume "ts \<noteq> []"
  ultimately show ?thesis
    using str_split_join[of "map stop_trigger_as_str ts" "CHR '',''"] trigger_no_comma
    by (simp add: stop_conditions_read_def stop_conditions_stored_def)
qed

section \<open>The properties\<close>

lemma reachable_initial: "pc_runs s = [] \<Longrightarrow> pc_steps s = [] \<Longrightarrow> proc_reachable env backend ([], s)"
  by (auto simp: proc_reachable_def intro!: exI[of _ "([], s)"])

lemma reachable_call: "proc_reachable env backend (H, s) \<Longrightarrow> call_run env backend H s H' s' \<Longrightarrow> proc_reachable env backend (H @ H', s')"
  unfolding proc_reachable_def call_run_def by (meson rtranclp_trans)

lemma reachable_step: "proc_reachable env backend x \<Longrightarrow> proc_step env backend x y \<Longrightarrow> proc_reachable env backend y"
  unfolding proc_reachable_def by (meson rtranclp.rtrancl_into_rtrancl)

text \<open>
  C33. The segment tables stay well formed under every durable write, whatever call issued it and wherever a
  call was cut off: run ids and (run, position) keys are unique, every step row belongs to a stored run, the
  settled positions of a run are exactly 1 to its cursor, at most the position after the cursor is prepared,
  and a completed run has settled all of its steps.
\<close>

theorem segment_tables_ok:
  assumes "proc_reachable env backend (H, s)"
  shows "tables_ok s"
  using proc_reachable_inv[OF assms] by simp

text \<open>
  C4. No effect is repeated: when a step of a run is issued again, to attempt \<open>a\<close>, every attempt \<open>b\<close> that was
  issued for the same step before is rejected in the ledger: it never landed and no later write changes that.
\<close>

theorem step_never_reissued:
  assumes "proc_reachable env backend (H1 @ (rid, pos, a) # H2, s)" "(rid, pos, b) \<in> set H1"
  shows "attempt_state_of (ex_store (pc_exec s)) b = Some ''rejected''"
proof -
  have "sorted_wrt (issue_before s) (H1 @ (rid, pos, a) # H2)" using proc_reachable_inv[OF assms(1)] by simp
  then have "issue_before s (rid, pos, b) (rid, pos, a)" using assms(2) unfolding sorted_wrt_append by auto
  then show ?thesis by simp
qed

text \<open>
  C12. A completed run landed: each of its steps has its row, settled from an attempt that the ledger confirms
  and that was issued for this step of this run.
\<close>

theorem completed_run_landed:
  assumes "proc_reachable env backend (H, s)" "r \<in> set (pc_runs s)" "row_state r = RunCompleted" "1 \<le> k" "k \<le> rw_step_count r"
  shows "\<exists>w\<in>set (pc_steps s). sw_run_id w = row_run_id r \<and> sw_position w = k \<and> sw_settled w \<and>
    attempt_state_of (ex_store (pc_exec s)) (sw_attempt_id w) = Some ''confirmed'' \<and> (row_run_id r, k, sw_attempt_id w) \<in> set H"
proof -
  note inv = proc_reachable_inv[OF assms(1)]
  have "k \<in> settled_positions (pc_steps s) (row_run_id r)"
    using proc_invD(1)[OF inv assms(2)] assms(3-5) by (auto simp: run_ok_def)
  then obtain w where w: "w \<in> set (pc_steps s)" "sw_run_id w = row_run_id r" "sw_position w = k" "sw_settled w"
    by (auto simp: settled_positions_def)
  have "step_row_ok H s w" using proc_invD(2)[OF inv w(1)] .
  then show ?thesis using w by (intro bexI[of _ w]) (auto simp: step_row_ok_def step_issue_def)
qed

text \<open>
  C8. A call of \<open>run_procedure_step\<close>, whatever it answers, is made of the durable writes: from a reachable
  state it ends in a reachable state, it issues at most one effect, and when it issues none the worker was
  not reached.
\<close>

theorem segment_call_refines:
  assumes "proc_reachable env backend (H, s)" "rid \<notin> fst ` set H"
    "run_procedure_step env backend rid aid task pid binding m open s = (r, s')"
  shows "\<exists>H'. proc_reachable env backend (H @ H', s') \<and> length H' \<le> 1 \<and>
    (H' = [] \<longrightarrow> ex_world (pc_exec s') = ex_world (pc_exec s))"
  using call_run_procedure_step[OF proc_reachable_inv[OF assms(1)] assms(2,3)] reachable_call[OF assms(1)]
  by (auto simp: call_run_def)

text \<open>
  C34. The driver's loop ends on every store whose run ids are unique (the table's primary key), whatever the
  worker does, whatever ids are generated and whatever earlier calls left behind.
\<close>

theorem saved_segment_returns:
  assumes "distinct (map row_run_id (pc_runs s))"
  shows "\<exists>res. run_saved_segment env backend rids aids scoped_file task gid g s = Some res"
proof -
  let ?b = "segment_binding_of scoped_file g gid" and ?pid = "sg_procedure_id g"
  obtain r s' where call: "run_procedure_step env backend (rids 0) (aids 0) task ?pid ?b Manual ResumeRun s = (r, s')" by fastforce
  have "\<exists>res. segment_loop env backend rids aids 0 task ?pid ?b s = Some res"
  proof (cases "\<exists>run' st. r = Inr (SegmentStepped run' st)")
    case True
    then obtain run' st where r: "r = Inr (SegmentStepped run' st)" by blast
    obtain g' where "procedure_segment s' ?pid = Inr g'" "follows g' s' run'"
      using turn_follows[OF assms call[unfolded r]] by (auto simp: procedure_segment_def)
    then show ?thesis
      using segment_loop_follows[of s' ?pid g' run' env backend rids aids "Suc 0" task ?b]
      by (subst segment_loop.simps) (simp add: call r)
  next
    case False
    then show ?thesis
      by (subst segment_loop.simps)
        (auto simp: call split: sum.splits segment_step_outcome.splits controller_error.splits procedure_error.splits)
  qed
  then show ?thesis by (simp add: run_saved_segment_def)
qed

section \<open>Witnesses\<close>

definition demo_segment :: segment_template where
  "demo_segment = \<lparr>sg_procedure_id = ''p'', sg_version = 1, sg_task_id = ''t'', sg_selection_revision = 1, sg_plan_revision = 1,
     sg_schema_version = 1, sg_tool_version = ''b'', sg_stop_conditions = stop_conditions,
     sg_steps = [\<lparr>ss_position = 1, ss_tool = ''read'', ss_expected_output = ''o''\<rparr>]\<rparr>"

definition demo_proc :: "nat proc_state" where
  "demo_proc = \<lparr>pc_exec = demo_executor\<lparr>ex_flights := None\<rparr>, pc_segments = [demo_segment], pc_runs = [], pc_steps = [],
     pc_selection = (\<lambda>_. Some 1), pc_plans = (\<lambda>_. [\<lparr>pr_revision = 1, pr_selection_revision = 1\<rparr>]),
     pc_plan_rows = (\<lambda>_. []), pc_question = Map.empty\<rparr>"

definition demo_binding :: segment_binding where
  "demo_binding = [1 \<mapsto> ReadRequest ''grant-1'' ''/etc'']"

definition demo_snapshot :: segment_snapshot where
  "demo_snapshot = \<lparr>sn_selection_revision = 1, sn_plan_revision = 1, sn_tool_version = ''b'', sn_pending = None\<rparr>"

abbreviation demo_started :: "nat proc_state" where
  "demo_started \<equiv> demo_proc\<lparr>pc_runs := [new_run ''r1'' demo_segment demo_snapshot]\<rparr>"

lemma demo_start:
  "start_procedure_run ''r1'' demo_segment demo_snapshot open demo_proc =
     (Inr (rw_run (new_run ''r1'' demo_segment demo_snapshot)), demo_started)"
proof -
  have "prune_procedure_runs procedure_run_retention demo_started = demo_started"
    by (simp add: prune_procedure_runs_def drop_runs_def demo_proc_def procedure_run_retention_def)
  then have "insert_procedure_run ''r1'' demo_segment demo_snapshot demo_proc =
      (Inr (rw_run (new_run ''r1'' demo_segment demo_snapshot)), demo_started)"
    by (simp add: insert_procedure_run_def procedure_run_of_def demo_proc_def demo_segment_def stored_u64_def)
  moreover have "segment_prepare demo_segment demo_snapshot = Inr ()"
    by (simp add: segment_prepare_def demo_segment_def demo_snapshot_def procedure_schema_version_def)
  moreover have "resumable_procedure_run demo_proc ''p'' 1 = Inr None" "completed_procedure_run demo_proc ''p'' 1 = Inr None"
    by (simp_all add: resumable_procedure_run_def completed_procedure_run_def demo_proc_def stored_u64_def)
  ultimately show ?thesis by (simp add: start_procedure_run_def demo_segment_def)
qed

lemma demo_decide:
  assumes "es_ledger st = ledger_empty"
  obtains ctx where "admission_context_of demo_effect_env st Yolo ReadEffect ''grant-1'' ''/'' ''/etc'' = Inr ctx"
    "decide (ee_paths demo_effect_env) demo_policy ''/etc'' ReadEffect ctx = Allow"
proof -
  obtain ctx where ctx: "admission_context_of demo_effect_env st Yolo ReadEffect ''grant-1'' ''/'' ''/etc'' = Inr ctx"
    "mode ctx = Yolo" using demo_context[OF assms] by blast
  have "covers (ee_paths demo_effect_env) demo_policy ''/etc'' = False"
    using demo_canonical by (simp add: covers_def covers_report_def demo_effect_env_def demo_policy_grants)
  then show thesis using that ctx by (simp add: decide_def target_denied_def)
qed

text \<open>An admission on the sample system, and the whole execution that follows it.\<close>

lemma demo_segment_admit:
  assumes "ex_policy ex = demo_policy" "es_ledger (ex_store ex) = ledger_empty" "ex_flights ex = None" "attempt_of (ex_store ex) aid = None"
  shows "\<exists>st. plan_attempt aid (TaskId ''t'') ReadEffect ''read /etc'' (ex_store ex) = Inr st \<and>
    admit_effect demo_effect_env aid (TaskId ''t'') (ReadRequest ''grant-1'' ''/etc'') Yolo ex = (Inr (demo_admitted aid), ex\<lparr>ex_store := st\<rparr>)"
proof -
  obtain ctx where ctx: "admission_context_of demo_effect_env (ex_store ex) Yolo ReadEffect ''grant-1'' ''/'' ''/etc'' = Inr ctx"
    "decide (ee_paths demo_effect_env) demo_policy ''/etc'' ReadEffect ctx = Allow" by (rule demo_decide[OF assms(2)])
  have desc: "describe_request (ReadRequest ''grant-1'' ''/etc'') = ''read /etc''"
    using from_utf8_lossy_id[OF utf8_valid_ascii, of "''/etc''"] by (simp add: byte_val_def)
  have "\<exists>st. plan_attempt aid (TaskId ''t'') ReadEffect ''read /etc'' (ex_store ex) = Inr st"
    using assms(4) by (simp add: plan_attempt_def attempt_of_None)
  then show ?thesis
    using assms(1,3) ctx desc
    by (auto simp: admit_effect_def hook_transform_def admit_def demo_policy_grants pin_write_def join_flight_def
        demo_admitted_def demo_effect_env_def[THEN arg_cong[where f = ee_hook]] Let_def simp del: describe_request.simps)
qed

lemma demo_execute_plain:
  assumes "ex_policy ex = demo_policy" "es_lifecycle (ex_store ex) = (\<lambda>_. Some LifecycleRunning)"
    "es_ledger (ex_store ex) = ledger_empty" "ex_flights ex = None" "attempt_of (ex_store ex) aid = Some r"
  obtains ex1 where "execute_effect demo_effect_env (demo_admitted aid) ex = (Inr (EffectRead ''hi'' ''d''), ex1)"
    "attempt_of (ex_store ex1) aid = Some (stamped ''confirmed'' (Some ''read-performed sha256=d'') r)"
    "es_lifecycle (ex_store ex1) = (\<lambda>_. Some LifecycleRunning)"
proof -
  obtain exg where gates: "execute_gates demo_effect_env (demo_admitted aid) ex = (Inr (), exg)"
    using demo_gates[OF assms(1,2,3,5)] by blast
  obtain st where st: "exg = ex\<lparr>ex_store := st\<rparr>" "attempt_of st aid = Some (stamped ''running'' None r)"
    "es_lifecycle st = (\<lambda>_. Some LifecycleRunning)"
    using execute_gates_passed[OF gates] assms(2,5) by (auto simp: ledger_moves_def)
  obtain st' where st': "set_attempt_state aid ''confirmed'' (Some ''read-performed sha256=d'') st = Inr st'"
    "attempt_of st' aid = Some (stamped ''confirmed'' (Some ''read-performed sha256=d'') (stamped ''running'' None r))"
    "es_lifecycle st' = es_lifecycle st"
    using st(2) by (rule_tac set_attempt_state_cases[of st aid "''confirmed''" "Some ''read-performed sha256=d''"]) auto
  have "execute_effect demo_effect_env (demo_admitted aid) ex =
      (Inr (EffectRead ''hi'' ''d''), ex\<lparr>ex_flights := None, ex_world := Suc (ex_world ex), ex_store := st'\<rparr>)"
    using gates st(1) st'(1) assms(4)
    by (simp add: execute_effect_def perform_effect_def read_member_def settle_effect_def read_result_def demo_effect_env_def)
  then show thesis using that st st' by (simp add: stamped_def)
qed

definition demo_row :: "string \<Rightarrow> step_row" where
  "demo_row aid = \<lparr>sw_run_id = ''r1'', sw_position = 1, sw_tool = ''read'', sw_settled = False, sw_attempt_id = aid, sw_result = []\<rparr>"

lemma demo_segment_prepare:
  assumes "pc_runs s = [new_run ''r1'' demo_segment demo_snapshot]" "pc_steps s = []"
  shows "prepare_procedure_step (rw_run (new_run ''r1'' demo_segment demo_snapshot)) 1 ''read'' aid s = (Inr (), s\<lparr>pc_steps := [demo_row aid]\<rparr>)"
  using assms by (simp add: prepare_procedure_step_def step_exists_def new_run_def stored_u64_def demo_row_def)

text \<open>The step is settled and completes the run.\<close>

lemma demo_segment_finish:
  assumes "pc_runs s = [new_run ''r1'' demo_segment demo_snapshot]" "pc_steps s = [demo_row aid]"
    "es_lifecycle (pc_store s) = (\<lambda>_. Some LifecycleRunning)"
  obtains run s1 s2 where "settle_procedure_step ''r1'' \<lparr>se_position = 1, se_tool = ''read'', se_attempt_id = aid, se_result = res\<rparr> s = (Inr run, s1)"
    "run_remainder run demo_segment = []" "complete_segment (TaskId ''t'') run s1 =
       (Inr (SegmentCompleted (run\<lparr>pn_state := RunCompleted\<rparr>) LifecycleRunning), s2)"
    "pc_runs s2 = [\<lparr>rw_run = run\<lparr>pn_state := RunCompleted\<rparr>, rw_step_count = 1\<rparr>]" "pn_run_id run = ''r1''"
proof -
  let ?run = "(rw_run (new_run ''r1'' demo_segment demo_snapshot))\<lparr>pn_cursor := 1\<rparr>"
  let ?step = "\<lparr>se_position = 1, se_tool = ''read'', se_attempt_id = aid, se_result = res\<rparr>"
  let ?s1 = "s\<lparr>pc_steps := [settle_row_in ''r1'' ?step (demo_row aid)], pc_runs := [\<lparr>rw_run = ?run, rw_step_count = 1\<rparr>]\<rparr>"
  have one: "settle_procedure_step ''r1'' ?step s = (Inr ?run, ?s1)"
    using assms by (simp add: settle_procedure_step_def procedure_run_of_def new_run_def row_run_id_def row_state_def stored_u64_def
        upd_run_def settle_row_in_def demo_row_def demo_segment_def Let_def)
  have two: "run_remainder ?run demo_segment = []" by (simp add: run_remainder_def remainder_after_def demo_segment_def)
  show thesis
    using one two assms(3)
    by (intro that[of ?run ?s1 "?s1\<lparr>pc_runs := [\<lparr>rw_run = ?run\<lparr>pn_state := RunCompleted\<rparr>, rw_step_count = 1\<rparr>]\<rparr>"])
      (simp_all add: complete_segment_def complete_procedure_run_def run_transition_def procedure_run_of_def new_run_def
        row_run_id_def row_state_def upd_run_def task_snapshot_def)
qed

lemma demo_attempt_z: "attempt_of (pc_store demo_proc) ''z'' = None"
  by (simp add: attempt_of_def demo_proc_def demo_executor_def demo_attempt_def)

lemma demo_first_step:
  "segment_step_at demo_segment (pn_cursor (rw_run (new_run ''r1'' demo_segment demo_snapshot)) + 1) =
     Some \<lparr>ss_position = 1, ss_tool = ''read'', ss_expected_output = ''o''\<rparr>"
  by (simp add: segment_step_at_def demo_segment_def)

lemma demo_segment_runs:
  obtains s2 where "run_segment_step demo_effect_env ''z'' (TaskId ''t'') demo_segment (rw_run (new_run ''r1'' demo_segment demo_snapshot))
      demo_binding Yolo demo_started = (Inr (StepSettled ''z'' ''read-performed sha256=d''), s2)"
    "pc_runs s2 = [new_run ''r1'' demo_segment demo_snapshot]" "pc_steps s2 = [demo_row ''z'']"
    "es_lifecycle (pc_store s2) = (\<lambda>_. Some LifecycleRunning)"
proof -
  let ?run = "rw_run (new_run ''r1'' demo_segment demo_snapshot)"
  have exec: "ex_policy (pc_exec demo_proc) = demo_policy" "es_ledger (pc_store demo_proc) = ledger_empty" "ex_flights (pc_exec demo_proc) = None"
    "es_lifecycle (pc_store demo_proc) = (\<lambda>_. Some LifecycleRunning)"
    by (simp_all add: demo_proc_def demo_executor_def)
  obtain st where st: "plan_attempt ''z'' (TaskId ''t'') ReadEffect ''read /etc'' (pc_store demo_proc) = Inr st"
    and adm: "admit_effect demo_effect_env ''z'' (TaskId ''t'') (ReadRequest ''grant-1'' ''/etc'') Yolo (pc_exec demo_proc) =
      (Inr (demo_admitted ''z''), (pc_exec demo_proc)\<lparr>ex_store := st\<rparr>)"
    using demo_segment_admit[OF exec(1-3) demo_attempt_z] by blast
  have keeps: "es_ledger st = ledger_empty" "es_lifecycle st = (\<lambda>_. Some LifecycleRunning)"
    using st exec by (auto simp: plan_attempt_def split: if_splits)
  obtain r where r: "attempt_of st ''z'' = Some r" using admit_effect_admitted[OF adm] by (auto simp: attempt_state_of_row)
  let ?s2 = "demo_started\<lparr>pc_exec := (pc_exec demo_proc)\<lparr>ex_store := st\<rparr>, pc_steps := [demo_row ''z'']\<rparr>"
  obtain ex1 where exe: "execute_effect demo_effect_env (demo_admitted ''z'') (pc_exec ?s2) = (Inr (EffectRead ''hi'' ''d''), ex1)"
    and landed: "attempt_of (ex_store ex1) ''z'' = Some (stamped ''confirmed'' (Some ''read-performed sha256=d'') r)"
    and life: "es_lifecycle (ex_store ex1) = (\<lambda>_. Some LifecycleRunning)"
    by (rule demo_execute_plain[of "pc_exec ?s2" "''z''" r]) (use exec keeps r in auto)
  have prep: "prepare_procedure_step ?run 1 ''read'' ''z'' (demo_started\<lparr>pc_exec := (pc_exec demo_proc)\<lparr>ex_store := st\<rparr>\<rparr>) = (Inr (), ?s2)"
    using demo_segment_prepare[of "demo_started\<lparr>pc_exec := (pc_exec demo_proc)\<lparr>ex_store := st\<rparr>\<rparr>" "''z''"] by (simp add: demo_proc_def)
  have "run_segment_step demo_effect_env ''z'' (TaskId ''t'') demo_segment ?run demo_binding Yolo demo_started =
      (Inr (StepSettled ''z'' ''read-performed sha256=d''), ?s2\<lparr>pc_exec := ex1\<rparr>)"
    using adm exe landed demo_first_step prep
    by (simp add: run_segment_step_def binding_request_def demo_binding_def attempt_record_row step_answer_def step_standing_parse_def
        settled_result_def)
  then show thesis by (rule that) (use life in simp_all)
qed

lemma demo_call:
  obtains run s' where "run_procedure_step demo_effect_env ''b'' ''r1'' ''z'' (TaskId ''t'') ''p'' demo_binding Yolo ResumeRun demo_proc =
      (Inr (SegmentCompleted run LifecycleRunning), s')"
    "pc_runs s' = [\<lparr>rw_run = run, rw_step_count = 1\<rparr>]" "pn_state run = RunCompleted" "pn_run_id run = ''r1''"
proof -
  let ?run = "rw_run (new_run ''r1'' demo_segment demo_snapshot)"
  obtain s2 where seg: "run_segment_step demo_effect_env ''z'' (TaskId ''t'') demo_segment ?run demo_binding Yolo demo_started =
      (Inr (StepSettled ''z'' ''read-performed sha256=d''), s2)"
    and s2: "pc_runs s2 = [new_run ''r1'' demo_segment demo_snapshot]" "pc_steps s2 = [demo_row ''z'']"
      "es_lifecycle (pc_store s2) = (\<lambda>_. Some LifecycleRunning)" by (rule demo_segment_runs)
  obtain run s1 s3 where fin: "settle_procedure_step ''r1'' \<lparr>se_position = 1, se_tool = ''read'', se_attempt_id = ''z'',
      se_result = ''read-performed sha256=d''\<rparr> s2 = (Inr run, s1)"
    "run_remainder run demo_segment = []" "complete_segment (TaskId ''t'') run s1 =
       (Inr (SegmentCompleted (run\<lparr>pn_state := RunCompleted\<rparr>) LifecycleRunning), s3)"
    "pc_runs s3 = [\<lparr>rw_run = run\<lparr>pn_state := RunCompleted\<rparr>, rw_step_count = 1\<rparr>]" "pn_run_id run = ''r1''"
    by (rule demo_segment_finish[OF s2])
  have per: "perform_segment_step demo_effect_env ''z'' (TaskId ''t'') demo_segment ?run demo_binding Yolo demo_started =
      (Inr (SegmentCompleted (run\<lparr>pn_state := RunCompleted\<rparr>) LifecycleRunning), s3)"
    using demo_first_step seg fin(1-3) by (simp add: perform_segment_step_def new_run_def)
  have "answer_prepared ?run demo_started = (Inr (?run, None), demo_started)"
    by (simp add: answer_prepared_def prepared_procedure_step_def demo_proc_def)
  moreover have "procedure_segment demo_proc ''p'' = Inr demo_segment" "live_segment_snapshot ''b'' demo_proc (TaskId ''t'') = Inr demo_snapshot"
    by (simp_all add: procedure_segment_def live_segment_snapshot_def demo_proc_def demo_segment_def demo_snapshot_def)
  moreover have "latest_unresolved_attempt (pc_store demo_started) (TaskId ''t'') = None"
    by (simp add: latest_unresolved_attempt_def demo_proc_def demo_executor_def demo_attempt_def)
  moreover have "run_remainder ?run demo_segment \<noteq> []"
    by (simp add: run_remainder_def remainder_after_def demo_segment_def)
  moreover have "pn_snapshot ?run = demo_snapshot" by (simp add: new_run_def)
  ultimately show thesis
    using that[of "run\<lparr>pn_state := RunCompleted\<rparr>" s3] per fin(4,5) by (simp add: run_procedure_step_def demo_start)
qed

lemma demo_proc_reachable: "proc_reachable env backend ([], demo_proc)"
  by (rule reachable_initial) (simp_all add: demo_proc_def)

lemma demo_call_reachable:
  obtains H run s' where "proc_reachable demo_effect_env ''b'' (H, s')" "pc_runs s' = [\<lparr>rw_run = run, rw_step_count = 1\<rparr>]"
    "pn_state run = RunCompleted" "pn_run_id run = ''r1''"
proof -
  obtain run s' where call: "run_procedure_step demo_effect_env ''b'' ''r1'' ''z'' (TaskId ''t'') ''p'' demo_binding Yolo ResumeRun demo_proc =
      (Inr (SegmentCompleted run LifecycleRunning), s')"
    and *: "pc_runs s' = [\<lparr>rw_run = run, rw_step_count = 1\<rparr>]" "pn_state run = RunCompleted" "pn_run_id run = ''r1''" by (rule demo_call)
  note start = demo_proc_reachable[of demo_effect_env "''b''"]
  obtain H' where "call_run demo_effect_env ''b'' [] demo_proc H' s'"
    using call_run_procedure_step[OF proc_reachable_inv[OF start] _ call] by auto
  then show thesis using that[OF reachable_call[OF start]] * by simp
qed

theorem segment_tables_ok_witness: "\<exists>s :: nat proc_state. length (pc_runs s) = 1 \<and> tables_ok s"
  by (rule demo_call_reachable) (use segment_tables_ok in force)

theorem completed_run_landed_witness:
  "\<exists>(s :: nat proc_state) H. proc_reachable demo_effect_env ''b'' (H, s) \<and> (\<exists>w\<in>set (pc_steps s). sw_run_id w = ''r1'' \<and> sw_position w = 1 \<and>
     sw_settled w \<and> attempt_state_of (ex_store (pc_exec s)) (sw_attempt_id w) = Some ''confirmed'')"
proof -
  obtain H run s where *: "proc_reachable demo_effect_env ''b'' (H, s)" "pc_runs s = [\<lparr>rw_run = run, rw_step_count = 1\<rparr>]"
    "pn_state run = RunCompleted" "pn_run_id run = ''r1''" by (rule demo_call_reachable)
  from completed_run_landed[OF *(1), of "\<lparr>rw_run = run, rw_step_count = 1\<rparr>" 1] *(2-4)
  have "\<exists>w\<in>set (pc_steps s). sw_run_id w = ''r1'' \<and> sw_position w = 1 \<and> sw_settled w \<and>
      attempt_state_of (ex_store (pc_exec s)) (sw_attempt_id w) = Some ''confirmed''"
    by (auto simp: row_run_id_def row_state_def)
  then show ?thesis using *(1) by blast
qed

theorem segment_call_refines_witness:
  "\<exists>run s' H'. run_procedure_step demo_effect_env ''b'' ''r1'' ''z'' (TaskId ''t'') ''p'' demo_binding Yolo ResumeRun demo_proc =
     (Inr (SegmentCompleted run LifecycleRunning), s') \<and> proc_reachable demo_effect_env ''b'' (H', s') \<and> length H' \<le> 1"
proof -
  obtain run s' where call: "run_procedure_step demo_effect_env ''b'' ''r1'' ''z'' (TaskId ''t'') ''p'' demo_binding Yolo ResumeRun demo_proc =
      (Inr (SegmentCompleted run LifecycleRunning), s')" by (rule demo_call)
  from segment_call_refines[OF demo_proc_reachable _ call] call show ?thesis by auto
qed

theorem saved_segment_returns_witness:
  "distinct (map row_run_id (pc_runs demo_proc)) \<and>
   (\<exists>res. run_saved_segment demo_effect_env ''b'' (\<lambda>_. ''r1'') (\<lambda>_. ''z'') ''/etc'' (TaskId ''t'') ''grant-1'' demo_segment demo_proc = Some res)"
proof -
  have "distinct (map row_run_id (pc_runs demo_proc))" by (simp add: demo_proc_def)
  with saved_segment_returns[OF this] show ?thesis by blast
qed

text \<open>A system whose reads fail: the first attempt of a step is rejected and a second one takes the step.\<close>

definition demo_failing_env :: "nat effect_env" where
  "demo_failing_env = demo_effect_env\<lparr>ee_read_once := (\<lambda>_ _ w. (Inl (ReadFailed ''io''), Suc w))\<rparr>"

lemma demo_failing_sel:
  "ee_paths demo_failing_env = ee_paths demo_effect_env" "ee_canonicalize demo_failing_env = ee_canonicalize demo_effect_env"
  "ee_error_text demo_failing_env = ee_error_text demo_effect_env"
  by (simp_all add: demo_failing_env_def)

lemma demo_failing_gates: "execute_gates demo_failing_env a ex = execute_gates demo_effect_env a ex"
  unfolding execute_gates_def mode_gate_def reconsult_context_def admission_context_of_def derive_in_grant_scope_def
    admit_settled_def demo_failing_sel ..

text \<open>A planned attempt with its step row is issued, fails and is released: the row leaves, the attempt is rejected.\<close>

lemma demo_segment_issue:
  assumes "pc_steps s = [demo_row aid]" "ex_policy (pc_exec s) = demo_policy" "es_lifecycle (pc_store s) = (\<lambda>_. Some LifecycleRunning)"
    "es_ledger (pc_store s) = ledger_empty" "attempt_of (pc_store s) aid = Some r" "at_state r = ''planned''"
  obtains st where "proc_step demo_failing_env ''b'' (H, s) (H @ [(''r1'', 1, aid)], s\<lparr>pc_exec := (pc_exec s)\<lparr>ex_store := st\<rparr>\<rparr>)"
    "ledger_moves aid {''running''} (pc_store s) st" "attempt_of st aid = Some (stamped ''running'' None r)"
proof -
  obtain exg where "execute_gates demo_effect_env (demo_admitted aid) (pc_exec s) = (Inr (), exg)"
    using demo_gates[OF assms(2-5)] by blast
  then have gates: "execute_gates demo_failing_env (demo_admitted aid) (pc_exec s) = (Inr (), exg)" by (simp add: demo_failing_gates)
  obtain st where st: "exg = (pc_exec s)\<lparr>ex_store := st\<rparr>" "ledger_moves aid {''running''} (pc_store s) st"
    "attempt_of st aid = Some (stamped ''running'' None r)"
    using execute_gates_passed[OF gates] assms(5) by auto
  have "proc_step demo_failing_env ''b'' (H, s) (H @ [step_issue (demo_row aid)], s\<lparr>pc_exec := exg\<rparr>)"
    using assms gates by (intro ps_issue[where a = "demo_admitted aid"]) (auto simp: demo_row_def attempt_state_of_row)
  then show thesis using that st by (simp add: step_issue_def demo_row_def)
qed

lemma demo_fails:
  assumes "attempt_of (pc_store s) aid = Some r" "at_state r = ''running''" "ex_flights (pc_exec s) = None"
  obtains ex where "proc_step demo_failing_env ''b'' (H, s) (H, s\<lparr>pc_exec := ex\<rparr>)" "ex_policy ex = ex_policy (pc_exec s)"
    "ledger_moves aid {''rejected''} (pc_store s) (ex_store ex)" "attempt_state_of (ex_store ex) aid = Some ''rejected''" "ex_flights ex = None"
proof -
  let ?ex = "(pc_exec s)\<lparr>ex_flights := None, ex_world := Suc (ex_world (pc_exec s))\<rparr>"
  obtain st where st: "attempt_rejected aid ''failed'' (pc_store s) = Inr st" "attempt_of st aid = Some (stamped ''rejected'' (Some ''failed'') r)"
    using assms(1) by (rule_tac set_attempt_state_cases[of "pc_store s" aid "''rejected''" "Some ''failed''"]) (auto simp: attempt_rejected_def)
  have "perform_effect demo_failing_env (demo_admitted aid) (pc_exec s) = (Inl (ReadFailed ''io''), ?ex)"
    using assms(3) by (simp add: perform_effect_def read_member_def demo_failing_env_def)
  moreover have "settle_effect demo_failing_env (demo_admitted aid) (Inl (ReadFailed ''io'')) ?ex =
      (Inl (WorkerFailed (ReadFailed ''io'')), ?ex\<lparr>ex_store := st\<rparr>)"
    using st(1) by (simp add: settle_effect_def commit_worker_error_def abandon_flight_def demo_failing_env_def demo_effect_env_def Let_def)
  ultimately have "proc_step demo_failing_env ''b'' (H, s) (H, s\<lparr>pc_exec := ?ex\<lparr>ex_store := st\<rparr>\<rparr>)"
    using assms(1,2) by (intro ps_effect[where a = "demo_admitted aid"]) (auto simp: attempt_state_of_row)
  then show thesis using that st attempt_rejected_moves[OF st(1)] by (auto simp: attempt_state_of_row)
qed

lemma demo_release:
  assumes "pc_steps s = [demo_row aid]" "astate s aid = Some ''rejected''"
  shows "proc_step env backend (H, s) (H, s\<lparr>pc_steps := []\<rparr>)"
proof -
  have "attempt_record (pc_store s) aid \<noteq> None \<and> map_option (\<lambda>(_, st, _). st) (attempt_record (pc_store s) aid) = Some ''rejected''"
    using assms(2) by (auto simp: attempt_record_row attempt_state_of_row)
  then have "release_unstarted_procedure_step ''r1'' 1 s = (Inr True, s\<lparr>pc_steps := []\<rparr>)"
    using assms(1) by (auto simp: release_unstarted_procedure_step_def prepared_procedure_step_def demo_row_def step_standing_parse_def
        delete_prepared_def stored_u64_def Let_def)
  then show ?thesis by (rule ps_release)
qed

lemma demo_prepare_step:
  assumes "pc_runs s = [new_run ''r1'' demo_segment demo_snapshot]" "pc_steps s = []" "astate s aid = Some ''planned''"
  shows "proc_step env backend (H, s) (H, s\<lparr>pc_steps := [demo_row aid]\<rparr>)"
  using assms demo_segment_prepare[OF assms(1,2), of aid]
  by (intro ps_prepare[where run = "rw_run (new_run ''r1'' demo_segment demo_snapshot)" and aid = aid and pos = 1 and tool = "''read''"])
    (auto simp: procedure_run_of_def new_run_def row_run_id_def)

theorem step_never_reissued_witness:
  "\<exists>s :: nat proc_state. proc_reachable demo_failing_env ''b'' ([(''r1'', 1, ''x''), (''r1'', 1, ''y'')], s) \<and>
     attempt_state_of (ex_store (pc_exec s)) ''x'' = Some ''rejected''"
proof -
  let ?R = "proc_reachable demo_failing_env ''b''"
  have sel: "pc_exec demo_proc = demo_executor\<lparr>ex_flights := None\<rparr>" "pc_steps demo_proc = []" by (simp_all add: demo_proc_def)
  have exe: "ex_policy demo_executor = demo_policy" "es_lifecycle (ex_store demo_executor) = (\<lambda>_. Some LifecycleRunning)"
    "es_ledger (ex_store demo_executor) = ledger_empty" by (simp_all add: demo_executor_def)
  have planned: "at_state (demo_attempt a) = ''planned''" for a by (simp add: demo_attempt_def)
  have "?R ([], demo_started)"
    by (rule reachable_step[OF demo_proc_reachable ps_start[OF demo_start]]) simp
  then have r2: "?R ([], demo_started\<lparr>pc_steps := [demo_row ''x'']\<rparr>)"
    by (rule reachable_step) (intro demo_prepare_step; simp add: sel attempt_state_of_row demo_attempts planned)
  let ?s2 = "demo_started\<lparr>pc_steps := [demo_row ''x'']\<rparr>"
  obtain st where st: "proc_step demo_failing_env ''b'' ([], ?s2) ([(''r1'', 1, ''x'')], ?s2\<lparr>pc_exec := (pc_exec ?s2)\<lparr>ex_store := st\<rparr>\<rparr>)"
    "ledger_moves ''x'' {''running''} (pc_store ?s2) st" "attempt_of st ''x'' = Some (stamped ''running'' None (demo_attempt ''x''))"
    by (rule demo_segment_issue[of ?s2 "''x''" "demo_attempt ''x''" "[]"]) (use sel exe demo_attempts planned in auto)
  let ?s3 = "?s2\<lparr>pc_exec := (pc_exec ?s2)\<lparr>ex_store := st\<rparr>\<rparr>"
  obtain ex where ex: "proc_step demo_failing_env ''b'' ([(''r1'', 1, ''x'')], ?s3) ([(''r1'', 1, ''x'')], ?s3\<lparr>pc_exec := ex\<rparr>)"
    "ex_policy ex = ex_policy (pc_exec ?s3)" "ledger_moves ''x'' {''rejected''} (pc_store ?s3) (ex_store ex)"
    "attempt_state_of (ex_store ex) ''x'' = Some ''rejected''" "ex_flights ex = None"
    by (rule demo_fails[of ?s3 "''x''" "stamped ''running'' None (demo_attempt ''x'')" "[(''r1'', 1, ''x'')]"]) (use st sel in auto)
  let ?s4 = "?s3\<lparr>pc_exec := ex\<rparr>" let ?s5 = "?s4\<lparr>pc_steps := []\<rparr>" let ?s6 = "?s5\<lparr>pc_steps := [demo_row ''y'']\<rparr>"
  have y: "attempt_of (ex_store ex) ''y'' = Some (demo_attempt ''y'')" "es_lifecycle (ex_store ex) = (\<lambda>_. Some LifecycleRunning)"
    "es_ledger (ex_store ex) = ledger_empty" "ex_policy ex = demo_policy"
    using st(2) ex(2,3) demo_attempts(2) sel exe by (auto simp: ledger_moves_def)
  have "?R ([(''r1'', 1, ''x'')], ?s4)" using reachable_step[OF reachable_step[OF r2 st(1)] ex(1)] .
  then have "?R ([(''r1'', 1, ''x'')], ?s5)" by (rule reachable_step) (rule demo_release[of _ "''x''"]; use ex(4) in simp)
  then have r6: "?R ([(''r1'', 1, ''x'')], ?s6)"
    by (rule reachable_step) (intro demo_prepare_step; simp add: attempt_state_of_row y planned)
  obtain st6 where "proc_step demo_failing_env ''b'' ([(''r1'', 1, ''x'')], ?s6)
      ([(''r1'', 1, ''x'')] @ [(''r1'', 1, ''y'')], ?s6\<lparr>pc_exec := (pc_exec ?s6)\<lparr>ex_store := st6\<rparr>\<rparr>)"
    by (rule demo_segment_issue[of ?s6 "''y''" "demo_attempt ''y''" "[(''r1'', 1, ''x'')]"]) (use y planned in auto)
  then have "?R ([(''r1'', 1, ''x'')] @ (''r1'', 1, ''y'') # [], ?s6\<lparr>pc_exec := (pc_exec ?s6)\<lparr>ex_store := st6\<rparr>\<rparr>)"
    using reachable_step[OF r6] by simp
  from step_never_reissued[OF this, of "''x''"] this show ?thesis by auto
qed

end
