(* ===== verification/Catalog.thy ===== *)
theory Catalog
  imports Policy Text_Std
begin

text \<open>
  The vocabulary that planning and learning share, from \<open>src/src/actions.rs\<close>: the surfaces a request
  touches and the impact scan over them, the capability names, the plan stages, the capabilities that the
  selection weighs, and the nominal ids of plan parts, options and checks. A \<open>BTreeSet\<close> of surfaces is a
  set; where the code iterates over it, the order is the declaration order of the surfaces.

  \<open>str::trim\<close> removes the characters of the Unicode property \<open>White_Space\<close>; the sources only ask whether
  anything is left, so \<open>is_blank\<close> decides that on the UTF-8 bytes.
\<close>

section \<open>Blank text\<close>

text \<open>How many bytes the white-space character at the front takes; 0 when there is none.\<close>

fun space_width :: "nat list \<Rightarrow> nat" where
  "space_width (a # bs) =
     (if (9 \<le> a \<and> a \<le> 13) \<or> a = 32 then 1
      else if a = 194 then (case bs of b # _ \<Rightarrow> if b = 133 \<or> b = 160 then 2 else 0 | [] \<Rightarrow> 0)
      else (case bs of
              b # c # _ \<Rightarrow>
                if (a = 225 \<and> b = 154 \<and> c = 128) \<or>
                   (a = 226 \<and> b = 128 \<and> ((128 \<le> c \<and> c \<le> 138) \<or> c = 168 \<or> c = 169 \<or> c = 175)) \<or>
                   (a = 226 \<and> b = 129 \<and> c = 159) \<or> (a = 227 \<and> b = 128 \<and> c = 128)
                then 3 else 0
            | _ \<Rightarrow> 0))"
| "space_width [] = 0"

function blank_bytes :: "nat list \<Rightarrow> bool" where
  "blank_bytes bs =
     (if bs = [] then True
      else if space_width bs = 0 then False
      else blank_bytes (drop (space_width bs) bs))"
  by pat_completeness auto
termination
  by (relation "measure length") auto

declare blank_bytes.simps [simp del]

definition is_blank :: "string \<Rightarrow> bool" where
  "is_blank s = blank_bytes (map byte_val s)"

lemma is_blank_Nil [simp]: "is_blank []"
  by (simp add: is_blank_def blank_bytes.simps[of "[]"])

section \<open>Surfaces\<close>

datatype surface =
    SurfLocal | SurfAuth | SurfPublicApi | SurfMigration | SurfPermissions | SurfSecrets | SurfTrust
  | SurfUntrustedInput | SurfIsolation | SurfDependencies | SurfPrivateData

definition all_surfaces :: "surface list" where
  "all_surfaces = [SurfLocal, SurfAuth, SurfPublicApi, SurfMigration, SurfPermissions, SurfSecrets, SurfTrust,
     SurfUntrustedInput, SurfIsolation, SurfDependencies, SurfPrivateData]"

lemma set_all_surfaces [simp]: "set all_surfaces = UNIV"
  using surface.exhaust by (auto simp: all_surfaces_def)

instance surface :: finite
  by standard (metis List.finite_set set_all_surfaces)

fun surface_as_str :: "surface \<Rightarrow> string" where
  "surface_as_str SurfLocal = ''local''"
| "surface_as_str SurfAuth = ''auth''"
| "surface_as_str SurfPublicApi = ''public_api''"
| "surface_as_str SurfMigration = ''migration''"
| "surface_as_str SurfPermissions = ''permissions''"
| "surface_as_str SurfSecrets = ''secrets''"
| "surface_as_str SurfTrust = ''trust''"
| "surface_as_str SurfUntrustedInput = ''untrusted_input''"
| "surface_as_str SurfIsolation = ''isolation''"
| "surface_as_str SurfDependencies = ''dependencies''"
| "surface_as_str SurfPrivateData = ''private_data''"

definition surface_parse :: "string \<Rightarrow> surface option" where
  "surface_parse label = find (\<lambda>s. surface_as_str s = label) all_surfaces"

definition surface_is_risk :: "surface \<Rightarrow> bool" where
  "surface_is_risk s \<longleftrightarrow> s \<noteq> SurfLocal"

definition triggers_security :: "surface \<Rightarrow> bool" where
  "triggers_security s \<longleftrightarrow> s \<in> {SurfAuth, SurfPermissions, SurfSecrets, SurfTrust, SurfUntrustedInput,
     SurfIsolation, SurfDependencies, SurfPrivateData}"

datatype surface_scan = ScanKnown "surface set" | ScanUnknown

fun scan_labels :: "surface set \<Rightarrow> string list \<Rightarrow> surface_scan" where
  "scan_labels seen [] = (if seen = {} then ScanUnknown else ScanKnown seen)"
| "scan_labels seen (label # rest) =
     (case surface_parse label of
        Some s \<Rightarrow> scan_labels (insert s seen) rest
      | None \<Rightarrow> ScanUnknown)"

definition scan_from_labels :: "string list \<Rightarrow> surface_scan" where
  "scan_from_labels labels = scan_labels {} labels"

fun decided :: "surface_scan \<Rightarrow> surface set option" where
  "decided (ScanKnown ss) = (if ss \<noteq> {} then Some ss else None)"
| "decided ScanUnknown = None"

lemma surface_roundtrip: "surface_parse (surface_as_str s) = Some s"
  by (cases s) (simp_all add: surface_parse_def all_surfaces_def)

lemma scan_labels_decided: "decided (scan_labels seen (map surface_as_str ss)) =
    (if seen \<union> set ss = {} then None else Some (seen \<union> set ss))"
  by (induction ss arbitrary: seen) (simp_all add: surface_roundtrip)

section \<open>Capabilities\<close>

abbreviation (input) frame_goal_id :: string where "frame_goal_id \<equiv> ''frame_goal''"
abbreviation (input) challenge_direction_id :: string where "challenge_direction_id \<equiv> ''challenge_direction''"
abbreviation (input) design_contracts_id :: string where "design_contracts_id \<equiv> ''design_contracts''"
abbreviation (input) plan_work_id :: string where "plan_work_id \<equiv> ''plan_work''"
abbreviation (input) assess_plan_id :: string where "assess_plan_id \<equiv> ''assess_plan''"
abbreviation (input) inspect_system_id :: string where "inspect_system_id \<equiv> ''inspect_system''"
abbreviation (input) assess_security_id :: string where "assess_security_id \<equiv> ''assess_security''"
abbreviation (input) audit_tests_id :: string where "audit_tests_id \<equiv> ''audit_tests''"
abbreviation (input) implement_change_id :: string where "implement_change_id \<equiv> ''implement_change''"
abbreviation (input) deliver_change_id :: string where "deliver_change_id \<equiv> ''deliver_change''"
abbreviation (input) review_change_id :: string where "review_change_id \<equiv> ''review_change''"
abbreviation (input) diagnose_issue_id :: string where "diagnose_issue_id \<equiv> ''diagnose_issue''"
abbreviation (input) assess_readiness_id :: string where "assess_readiness_id \<equiv> ''assess_readiness''"
abbreviation (input) resolve_decision_id :: string where "resolve_decision_id \<equiv> ''resolve_decision''"
abbreviation (input) test_assumption_id :: string where "test_assumption_id \<equiv> ''test_assumption''"
abbreviation (input) prepare_environment_id :: string where "prepare_environment_id \<equiv> ''prepare_environment''"

definition plan_stages :: "string list" where
  "plan_stages = [frame_goal_id, challenge_direction_id, design_contracts_id, plan_work_id, assess_plan_id]"

definition selection_capabilities :: "string list" where
  "selection_capabilities = [frame_goal_id, challenge_direction_id, design_contracts_id, plan_work_id, assess_plan_id,
     inspect_system_id, assess_security_id, audit_tests_id, implement_change_id, deliver_change_id, review_change_id,
     diagnose_issue_id, assess_readiness_id]"

definition weighed_capability :: "string \<Rightarrow> bool" where
  "weighed_capability capability \<longleftrightarrow> capability \<in> set selection_capabilities"

section \<open>Bounds and nominal ids\<close>

definition text_max_bytes :: nat where "text_max_bytes = 65536"

definition array_max_items :: nat where "array_max_items = 200"

definition legal_id :: "string \<Rightarrow> bool" where
  "legal_id raw \<longleftrightarrow> raw \<noteq> [] \<and> length raw \<le> 64 \<and>
     list_all (\<lambda>b. is_ascii_alphanumeric b \<or> b \<in> {CHR ''.'', CHR ''_'', CHR ''-''}) raw"

end
