(* ===== verification/Learning.thy ===== *)
theory Learning
  imports Catalog "HOL-Library.AList"
begin

text \<open>
  Learned definitions, \<open>src/src/learning.rs\<close>: the change a delta makes (instruction text for a request
  part, or an override of one capability), the facts its condition reads, the validation of a candidate,
  the composed definition with its assembled part and the size it can reach, the corpus verdicts. The
  module is pure; the store is \<open>Learning_Store\<close> and the feedback rows are in \<open>Feedback\<close>.
\<close>

definition delta_instruction_max_bytes :: nat where "delta_instruction_max_bytes = 2 * 1024"
definition definition_max_bytes :: nat where "definition_max_bytes = 3 * 1024"
definition corpus_case_limit :: nat where "corpus_case_limit = 3"

datatype delta_scope = ScopeInstruction | ScopeApplicability

datatype delta_state = DeltaInactive | DeltaActive | DeltaRolledBack

fun delta_state_as_str :: "delta_state \<Rightarrow> string" where
  "delta_state_as_str DeltaInactive = ''inactive''"
| "delta_state_as_str DeltaActive = ''active''"
| "delta_state_as_str DeltaRolledBack = ''rolled_back''"

definition delta_state_parse :: "string \<Rightarrow> delta_state option" where
  "delta_state_parse raw = find (\<lambda>s. delta_state_as_str s = raw) [DeltaInactive, DeltaActive, DeltaRolledBack]"

datatype predicate_effect = EffectRequire | EffectDecline

fun predicate_effect_as_str :: "predicate_effect \<Rightarrow> string" where
  "predicate_effect_as_str EffectRequire = ''require''"
| "predicate_effect_as_str EffectDecline = ''decline''"

section \<open>Conditions\<close>

datatype condition_fact = FactPurpose string | FactKind request_kind | FactSurface surface

fun condition_fact_as_str :: "condition_fact \<Rightarrow> string" where
  "condition_fact_as_str (FactPurpose _) = ''purpose''"
| "condition_fact_as_str (FactKind _) = ''kind''"
| "condition_fact_as_str (FactSurface _) = ''surface''"

record condition_facts =
  cf_purpose :: "string option"
  cf_kind :: "request_kind option"
  cf_surfaces :: "surface set option"

fun fact_holds :: "condition_fact \<Rightarrow> condition_facts \<Rightarrow> bool" where
  "fact_holds (FactPurpose purpose) facts \<longleftrightarrow> cf_purpose facts = Some purpose"
| "fact_holds (FactKind kind) facts \<longleftrightarrow> cf_kind facts = Some kind"
| "fact_holds (FactSurface s) facts \<longleftrightarrow> (case cf_surfaces facts of Some ss \<Rightarrow> s \<in> ss | None \<Rightarrow> False)"

definition facts_for_purpose :: "string \<Rightarrow> condition_facts" where
  "facts_for_purpose purpose = \<lparr>cf_purpose = Some purpose, cf_kind = None, cf_surfaces = None\<rparr>"

definition facts_for_selection :: "request_kind \<Rightarrow> surface set option \<Rightarrow> condition_facts" where
  "facts_for_selection kind surfaces = \<lparr>cf_purpose = None, cf_kind = Some kind, cf_surfaces = surfaces\<rparr>"

section \<open>Changes and their validation\<close>

datatype delta_payload = PayloadInstruction string | PayloadApplicability string predicate_effect

fun payload_scope :: "delta_payload \<Rightarrow> delta_scope" where
  "payload_scope (PayloadInstruction _) = ScopeInstruction"
| "payload_scope (PayloadApplicability _ _) = ScopeApplicability"

record delta_change =
  dc_payload :: delta_payload
  dc_when :: "condition_fact option"

definition change_instruction :: "delta_change \<Rightarrow> string option" where
  "change_instruction c = (case dc_payload c of PayloadInstruction t \<Rightarrow> Some t | PayloadApplicability _ _ \<Rightarrow> None)"

definition change_applies :: "delta_change \<Rightarrow> condition_facts \<Rightarrow> bool" where
  "change_applies c facts = (case dc_when c of None \<Rightarrow> True | Some f \<Rightarrow> fact_holds f facts)"

datatype corpus_case_kind = CaseTransfer | CaseComposition | CaseNegativeControl

fun corpus_case_kind_as_str :: "corpus_case_kind \<Rightarrow> string" where
  "corpus_case_kind_as_str CaseTransfer = ''transfer''"
| "corpus_case_kind_as_str CaseComposition = ''composition''"
| "corpus_case_kind_as_str CaseNegativeControl = ''negative_control''"

text \<open>The refusals; a feedback refusal carries the attempt and the field it names.\<close>

datatype delta_error =
    CredentialReference string
  | EmptyBody string
  | EmptyPurpose string
  | TooLarge string nat nat
  | UnknownCapability string string
  | OutOfScope string delta_scope string
  | Unconditional string
  | DeltaAlreadyRecorded string
  | MissingEvidence string
  | DuplicateCase string string
  | TooManyCases string nat nat
  | SelfControl string
  | UnknownControl string string
  | ActivationRefused string delta_state nat nat
  | RollbackRefused string delta_state nat nat
  | CorpusMissing string string nat
  | CorpusRejected string string string string
  | DeltaCompositionExceeded string nat nat
  | FeedbackEmptyAttempt
  | FeedbackEmptyField string string
  | FeedbackCredentialReference string
  | FeedbackObservationMismatch string string string
  | FeedbackRepairAttribution string
  | FeedbackUnobservedOutcome string string
  | FeedbackMissing string
  | FeedbackAlreadyRecorded string

fun delta_error_code :: "delta_error \<Rightarrow> error_code" where
  "delta_error_code (FeedbackMissing _) = NotFound"
| "delta_error_code (DeltaAlreadyRecorded _) = Conflict"
| "delta_error_code (ActivationRefused _ _ _ _) = Conflict"
| "delta_error_code (RollbackRefused _ _ _ _) = Conflict"
| "delta_error_code (CorpusMissing _ _ _) = Conflict"
| "delta_error_code (CorpusRejected _ _ _ _) = Conflict"
| "delta_error_code (DeltaCompositionExceeded _ _ _) = Conflict"
| "delta_error_code (FeedbackAlreadyRecorded _) = Conflict"
| "delta_error_code _ = InvalidInput"

fun str_contains :: "string \<Rightarrow> string \<Rightarrow> bool" where
  "str_contains needle [] \<longleftrightarrow> needle = []"
| "str_contains needle (c # rest) \<longleftrightarrow> starts_with needle (c # rest) \<or> str_contains needle rest"

definition carries_credential_reference :: "string \<Rightarrow> bool" where
  "carries_credential_reference body = str_contains ''keyring:'' (to_ascii_lowercase body)"

definition change_validate :: "string \<Rightarrow> delta_change \<Rightarrow> delta_error + unit" where
  "change_validate delta_id c =
     (case dc_payload c of
        PayloadInstruction body \<Rightarrow>
          if is_blank body then Inl (EmptyBody delta_id)
          else if length body > delta_instruction_max_bytes
          then Inl (TooLarge delta_id (length body) delta_instruction_max_bytes)
          else if carries_credential_reference body then Inl (CredentialReference delta_id)
          else (case dc_when c of
                  None \<Rightarrow> Inr ()
                | Some (FactPurpose purpose) \<Rightarrow>
                    if \<not> is_blank purpose then Inr () else Inl (EmptyPurpose delta_id)
                | Some other \<Rightarrow> Inl (OutOfScope delta_id ScopeInstruction (condition_fact_as_str other)))
      | PayloadApplicability capability _ \<Rightarrow>
          if \<not> weighed_capability capability then Inl (UnknownCapability delta_id capability)
          else (case dc_when c of
                  Some (FactKind _) \<Rightarrow> Inr ()
                | Some (FactSurface _) \<Rightarrow> Inr ()
                | Some other \<Rightarrow> Inl (OutOfScope delta_id ScopeApplicability (condition_fact_as_str other))
                | None \<Rightarrow> Inl (Unconditional delta_id)))"

record delta_candidate =
  cn_delta_id :: string
  cn_base_version :: nat
  cn_change :: delta_change
  cn_evidence :: string

definition candidate_validate :: "delta_candidate \<Rightarrow> delta_error + unit" where
  "candidate_validate c =
     (case change_validate (cn_delta_id c) (cn_change c) of
        Inl e \<Rightarrow> Inl e
      | Inr _ \<Rightarrow>
          if is_blank (cn_evidence c) then Inl (MissingEvidence (cn_delta_id c))
          else if carries_credential_reference (cn_evidence c) then Inl (CredentialReference (cn_delta_id c))
          else Inr ())"

section \<open>The composed definition\<close>

record learning_delta =
  ld_id :: string
  ld_version :: nat
  ld_change :: delta_change

type_synonym learning_definition = "learning_delta list"

definition appended_bytes :: "learning_delta \<Rightarrow> nat option" where
  "appended_bytes d = map_option (\<lambda>t. length t + 1) (change_instruction (ld_change d))"

definition composed_with :: "learning_definition \<Rightarrow> learning_delta \<Rightarrow> learning_definition" where
  "composed_with ds d = ds @ [d]"

fun append_instructions :: "condition_facts \<Rightarrow> learning_definition \<Rightarrow> string \<Rightarrow> string" where
  "append_instructions facts [] part = part"
| "append_instructions facts (d # ds) part =
     (case change_instruction (ld_change d) of
        None \<Rightarrow> append_instructions facts ds part
      | Some body \<Rightarrow>
          if \<not> change_applies (ld_change d) facts then append_instructions facts ds part
          else append_instructions facts ds (part @ CHR 0x0A # body))"

definition instruction_part :: "learning_definition \<Rightarrow> string \<Rightarrow> string \<Rightarrow> string" where
  "instruction_part ds purpose base = append_instructions (facts_for_purpose purpose) ds base"

text \<open>The loop of \<open>max_instruction_bytes\<close>: the map of weights per purpose and the unconditional weight.\<close>

fun weigh_deltas :: "learning_definition \<Rightarrow> (string \<times> nat) list \<Rightarrow> nat \<Rightarrow> (string \<times> nat) list \<times> nat" where
  "weigh_deltas [] heaviest unconditional = (heaviest, unconditional)"
| "weigh_deltas (d # ds) heaviest unconditional =
     (case appended_bytes d of
        None \<Rightarrow> weigh_deltas ds heaviest unconditional
      | Some appended \<Rightarrow>
          (case dc_when (ld_change d) of
             Some (FactPurpose purpose) \<Rightarrow>
               weigh_deltas ds (AList.map_default purpose appended (\<lambda>w. w + appended) heaviest) unconditional
           | Some _ \<Rightarrow> weigh_deltas ds heaviest unconditional
           | None \<Rightarrow> weigh_deltas ds heaviest (unconditional + appended)))"

definition max_instruction_bytes :: "learning_definition \<Rightarrow> string \<Rightarrow> nat" where
  "max_instruction_bytes ds base =
     (case weigh_deltas ds [] 0 of
        (heaviest, unconditional) \<Rightarrow>
          length base + unconditional + (if heaviest = [] then 0 else Max (snd ` set heaviest)))"

fun applicability_from :: "predicate_effect option \<Rightarrow> learning_definition \<Rightarrow> string \<Rightarrow> condition_facts \<Rightarrow> predicate_effect option" where
  "applicability_from effect [] capability facts = effect"
| "applicability_from effect (d # ds) capability facts =
     (case dc_payload (ld_change d) of
        PayloadInstruction _ \<Rightarrow> applicability_from effect ds capability facts
      | PayloadApplicability named decided_effect \<Rightarrow>
          if named \<noteq> capability \<or> \<not> change_applies (ld_change d) facts
          then applicability_from effect ds capability facts
          else applicability_from (Some decided_effect) ds capability facts)"

definition applicability :: "learning_definition \<Rightarrow> string \<Rightarrow> condition_facts \<Rightarrow> predicate_effect option" where
  "applicability ds capability facts = applicability_from None ds capability facts"

section \<open>Corpus verdicts\<close>

datatype corpus_case =
    TransferCase condition_facts
  | CompositionCase condition_facts
  | NegativeControlCase condition_facts string

fun corpus_case_kind_of :: "corpus_case \<Rightarrow> corpus_case_kind" where
  "corpus_case_kind_of (TransferCase _) = CaseTransfer"
| "corpus_case_kind_of (CompositionCase _) = CaseComposition"
| "corpus_case_kind_of (NegativeControlCase _ _) = CaseNegativeControl"

record corpus_verdict =
  cv_delta_id :: string
  cv_version :: nat
  cv_kind :: corpus_case_kind
  cv_expected :: string
  cv_observed :: string
  cv_passed :: bool

record corpus_candidate =
  cc_delta_id :: string
  cc_version :: nat
  cc_change :: delta_change

definition applies_text :: "bool \<Rightarrow> string" where
  "applies_text b = (if b then ''applies'' else ''does not apply'')"

definition judge_case ::
  "corpus_candidate \<Rightarrow> learning_definition \<Rightarrow> learning_delta option \<Rightarrow> corpus_case \<Rightarrow> string \<Rightarrow> string \<times> string \<times> bool" where
  "judge_case cand active control cs base =
     (let delta_id = cc_delta_id cand in
      case cs of
        TransferCase facts \<Rightarrow>
          (let applies = change_applies (cc_change cand) facts in
           (''delta '' @ delta_id @ '' applies to the case facts'',
            ''delta '' @ delta_id @ '' '' @ applies_text applies, applies))
      | CompositionCase facts \<Rightarrow>
          (let composed = composed_with active
                 \<lparr>ld_id = delta_id, ld_version = cc_version cand, ld_change = cc_change cand\<rparr>;
               size = max_instruction_bytes composed base;
               within = size \<le> definition_max_bytes;
               limit = show_nat definition_max_bytes in
           case dc_payload (cc_change cand) of
             PayloadInstruction _ \<Rightarrow>
               (''the composed instruction part stays within '' @ limit @ '' bytes'',
                ''the heaviest composed instruction part is '' @ show_nat size @ '' bytes'', within)
           | PayloadApplicability capability effect \<Rightarrow>
               (let answer = applicability composed capability facts in
                (''the composed definition decides '' @ capability @ '' as '' @ predicate_effect_as_str effect @
                   '' within '' @ limit @ '' bytes'',
                 ''the composed definition decides '' @ capability @ '' as '' @
                   (case answer of None \<Rightarrow> ''nothing'' | Some e \<Rightarrow> predicate_effect_as_str e) @
                   '' in '' @ show_nat size @ '' bytes'',
                 answer = Some effect \<and> within)))
      | NegativeControlCase facts control_id \<Rightarrow>
          (let control_applies = (case control of Some d \<Rightarrow> change_applies (ld_change d) facts | None \<Rightarrow> False);
               candidate_applies = change_applies (cc_change cand) facts in
           (''delta '' @ control_id @ '' applies and delta '' @ delta_id @ '' does not'',
            ''delta '' @ control_id @ '' '' @ applies_text control_applies @ '', delta '' @ delta_id @ '' '' @
              applies_text candidate_applies,
            control_applies \<and> \<not> candidate_applies)))"

definition corpus_verdict_of ::
  "corpus_candidate \<Rightarrow> learning_definition \<Rightarrow> learning_delta option \<Rightarrow> corpus_case \<Rightarrow> string \<Rightarrow> corpus_verdict" where
  "corpus_verdict_of cand active control cs base =
     (case judge_case cand active control cs base of
        (expected, observed, passed) \<Rightarrow>
          \<lparr>cv_delta_id = cc_delta_id cand, cv_version = cc_version cand, cv_kind = corpus_case_kind_of cs,
           cv_expected = expected, cv_observed = observed, cv_passed = passed\<rparr>)"

end
