(* ===== verification/Identity.thy ===== *)
theory Identity
  imports Catalog
begin

text \<open>
  Identity migration, \<open>src/src/identity.rs\<close>: the versioned rules \<open>old_id \<rightarrow> new_id\<close> that a base is
  released with, their validation, the rule set with its ambiguity check, and where a rule set places a
  subject. The store's part, recording rules and rebinding the learned deltas, is in \<open>Learning_Store\<close>.
\<close>

definition personal_namespace :: string where "personal_namespace = ''personal''"

definition claims_personal_namespace :: "string \<Rightarrow> bool" where
  "claims_personal_namespace ident =
     (let segments = str_split (CHR '':'') ident in
      length segments > 1 \<and> list_ex (\<lambda>seg. eq_ignore_ascii_case seg personal_namespace) segments)"

datatype identity_kind = KindAction | KindRole

datatype migration_rule = RuleRename | RuleSplit | RuleMerge

record identity_migration =
  im_base_version :: nat
  im_kind :: identity_kind
  im_old_id :: string
  im_new_id :: string
  im_rule :: migration_rule
  im_subject :: "string option"

datatype malformed_detail =
    EmptyId | SameId | EmptySubject | ForeignSubject | MissingSubject | UnexpectedSubject

datatype identity_error =
    UnknownBase nat nat
  | PersonalNamespace string
  | Ambiguous identity_kind string string string
  | Malformed string string malformed_detail
  | UnknownTarget string string identity_kind
  | Conflicting string string migration_rule
  | ConflictingBindings identity_kind string string string
  | CompositionExceeded nat nat nat
  | MovedBinding string
  | CorruptRule string
  | VersionRange nat

fun identity_error_code :: "identity_error \<Rightarrow> error_code" where
  "identity_error_code (PersonalNamespace _) = InvalidInput"
| "identity_error_code (Malformed _ _ _) = InvalidInput"
| "identity_error_code (UnknownTarget _ _ _) = InvalidInput"
| "identity_error_code (MovedBinding _) = StorageUnavailable"
| "identity_error_code (CorruptRule _) = StorageUnavailable"
| "identity_error_code (VersionRange _) = StorageUnavailable"
| "identity_error_code _ = Conflict"

definition migration_validate :: "identity_migration \<Rightarrow> identity_error + unit" where
  "migration_validate m =
     (let malformed = (\<lambda>detail. Inl (Malformed (im_old_id m) (im_new_id m) detail)) in
      if claims_personal_namespace (im_old_id m) then Inl (PersonalNamespace (im_old_id m))
      else if claims_personal_namespace (im_new_id m) then Inl (PersonalNamespace (im_new_id m))
      else if is_blank (im_old_id m) \<or> is_blank (im_new_id m) then malformed EmptyId
      else if im_old_id m = im_new_id m then malformed SameId
      else
        (case (case (im_rule m, im_subject m) of
                 (RuleSplit, Some subj) \<Rightarrow>
                   if claims_personal_namespace subj then Inl (PersonalNamespace subj)
                   else if is_blank subj then malformed EmptySubject
                   else if subj \<noteq> im_old_id m then malformed ForeignSubject
                   else Inr ()
               | (RuleSplit, None) \<Rightarrow> malformed MissingSubject
               | (_, Some _) \<Rightarrow> malformed UnexpectedSubject
               | (_, None) \<Rightarrow> Inr ()) of
           Inl e \<Rightarrow> Inl e
         | Inr _ \<Rightarrow>
             if im_kind m = KindAction \<and> \<not> weighed_capability (im_new_id m)
             then Inl (UnknownTarget (im_old_id m) (im_new_id m) (im_kind m))
             else Inr ()))"

datatype placement = Rebound string | Unassigned

record identity_rules =
  ir_base_version :: nat
  ir_migrations :: "identity_migration list"

text \<open>The subject a rule claims: the inherited one of a split, else the whole source id.\<close>

definition claimed_subject :: "identity_migration \<Rightarrow> string" where
  "claimed_subject m = (case im_subject m of Some subj \<Rightarrow> subj | None \<Rightarrow> im_old_id m)"

fun check_claims ::
  "nat \<Rightarrow> (identity_kind \<times> string \<times> string) list \<Rightarrow> identity_migration list \<Rightarrow> identity_error + unit" where
  "check_claims base claimed [] = Inr ()"
| "check_claims base claimed (m # ms) =
     (if im_base_version m \<noteq> base then Inl (UnknownBase (im_base_version m) base)
      else
        (case migration_validate m of
           Inl e \<Rightarrow> Inl e
         | Inr _ \<Rightarrow>
             (let subj = claimed_subject m in
              case find (\<lambda>(kind, s, _). kind = im_kind m \<and> s = subj) claimed of
                Some (_, _, first) \<Rightarrow>
                  if first = im_new_id m then check_claims base claimed ms
                  else Inl (Ambiguous (im_kind m) subj first (im_new_id m))
              | None \<Rightarrow> check_claims base (claimed @ [(im_kind m, subj, im_new_id m)]) ms)))"

definition identity_rules_new :: "nat \<Rightarrow> identity_migration list \<Rightarrow> identity_error + identity_rules" where
  "identity_rules_new base migrations =
     (case check_claims base [] migrations of
        Inl e \<Rightarrow> Inl e
      | Inr _ \<Rightarrow> Inr \<lparr>ir_base_version = base, ir_migrations = migrations\<rparr>)"

definition place :: "identity_rules \<Rightarrow> identity_kind \<Rightarrow> string \<Rightarrow> placement" where
  "place rules kind subj =
     (case find (\<lambda>m. im_kind m = kind \<and> im_old_id m = subj) (ir_migrations rules) of
        None \<Rightarrow> Unassigned
      | Some m \<Rightarrow> Rebound (im_new_id m))"

section \<open>What a rule set guarantees\<close>

lemma migration_validate_ok:
  assumes "migration_validate m = Inr u"
  shows "claimed_subject m = im_old_id m" "\<not> claims_personal_namespace (im_old_id m)" "\<not> claims_personal_namespace (im_new_id m)"
    "\<not> is_blank (im_new_id m)" "im_old_id m \<noteq> im_new_id m" "im_kind m = KindAction \<Longrightarrow> weighed_capability (im_new_id m)"
  using assms
  by (auto simp: migration_validate_def claimed_subject_def Let_def
      split: if_splits option.splits migration_rule.splits sum.splits)

lemma check_claims_ok:
  assumes "check_claims base claimed ms = Inr u" "m \<in> set ms"
  shows "im_base_version m = base" "migration_validate m = Inr ()"
  using assms by (induction base claimed ms rule: check_claims.induct)
    (auto simp: Let_def split: if_splits sum.splits option.splits)

text \<open>The claims of an accepted set, with the earlier ones, give every subject of a kind one target.\<close>

definition claim_of :: "identity_migration \<Rightarrow> (identity_kind \<times> string) \<times> string" where
  "claim_of m = ((im_kind m, claimed_subject m), im_new_id m)"

abbreviation keyed :: "(identity_kind \<times> string \<times> string) list \<Rightarrow> ((identity_kind \<times> string) \<times> string) set" where
  "keyed claimed \<equiv> (\<lambda>(k, s, t). ((k, s), t)) ` set claimed"

lemma check_claims_single:
  assumes "check_claims base claimed ms = Inr u" "single_valued (keyed claimed)"
  shows "single_valued (keyed claimed \<union> claim_of ` set ms)"
  using assms
proof (induction ms arbitrary: claimed)
  case (Cons m ms)
  let ?P = "\<lambda>(kind, s, _). kind = im_kind m \<and> s = claimed_subject m"
  obtain claimed' where "check_claims base claimed' ms = Inr u" "keyed claimed' = insert (claim_of m) (keyed claimed)"
    "single_valued (keyed claimed')"
  proof (cases "find ?P claimed")
    case None
    then have "((im_kind m, claimed_subject m), t) \<notin> keyed claimed" for t by (auto simp: find_None_iff)
    then have "single_valued (insert (claim_of m) (keyed claimed))"
      using Cons.prems(2) unfolding single_valued_def claim_of_def by (metis insert_iff prod.inject)
    then show thesis
      using that[of "claimed @ [(im_kind m, claimed_subject m, im_new_id m)]"] Cons.prems(1) None
      by (auto simp: Let_def claim_of_def split: if_splits sum.splits)
  next
    case (Some c)
    obtain first where c: "c = (im_kind m, claimed_subject m, first)" "c \<in> set claimed"
      using find_SomeD[OF Some] by (cases c) auto
    have "first = im_new_id m" "check_claims base claimed ms = Inr u"
      using Cons.prems(1) Some c by (auto simp: Let_def split: if_splits sum.splits)
    moreover from this(1) have "claim_of m \<in> keyed claimed" using c by (intro image_eqI[of _ _ c]) (simp_all add: claim_of_def)
    ultimately show thesis using that[of claimed] Cons.prems(2) by (simp add: insert_absorb)
  qed
  then show ?case using Cons.IH[of claimed'] by simp
qed simp

text \<open>An accepted rule set is a function of the subject: the placement of a rule's source is that rule's target.\<close>

lemma place_exact:
  assumes "identity_rules_new base ms = Inr rules"
  shows "place rules kind subj = Rebound to \<longleftrightarrow> (\<exists>m\<in>set ms. im_kind m = kind \<and> im_old_id m = subj \<and> im_new_id m = to)"
proof -
  have ok: "check_claims base [] ms = Inr ()" "ir_migrations rules = ms"
    using assms by (auto simp: identity_rules_new_def split: sum.splits)
  have claims: "claimed_subject m = im_old_id m" if "m \<in> set ms" for m
    using migration_validate_ok(1) check_claims_ok(2)[OF ok(1) that] by blast
  have "single_valued (claim_of ` set ms)" using check_claims_single[OF ok(1)] by simp
  have agree: "im_new_id m = im_new_id m'"
    if "m \<in> set ms" "m' \<in> set ms" "im_kind m = im_kind m'" "im_old_id m = im_old_id m'" for m m'
  proof -
    have "((im_kind m, im_old_id m), im_new_id m) \<in> claim_of ` set ms" "((im_kind m, im_old_id m), im_new_id m') \<in> claim_of ` set ms"
      using that claims by (auto simp: claim_of_def intro: rev_image_eqI)
    then show ?thesis using \<open>single_valued (claim_of ` set ms)\<close> by (rule_tac single_valuedD)
  qed
  show ?thesis
  proof (cases "find (\<lambda>m. im_kind m = kind \<and> im_old_id m = subj) ms")
    case None
    then have "\<not> (\<exists>m\<in>set ms. im_kind m = kind \<and> im_old_id m = subj)" by (auto simp: find_None_iff)
    then show ?thesis using None by (auto simp: place_def ok(2))
  next
    case (Some m)
    then have m: "m \<in> set ms" "im_kind m = kind" "im_old_id m = subj" using find_SomeD[OF Some] by simp_all
    have "place rules kind subj = Rebound (im_new_id m)" using Some by (simp add: place_def ok(2))
    then show ?thesis using agree[OF m(1)] m by (metis placement.inject)
  qed
qed

end
