(* ===== verification/Learning_Store.thy ===== *)
theory Learning_Store
  imports Learning Identity "HOL-Library.List_Lexorder" "HOL-Library.Char_ord"
begin

text \<open>
  The learning tables of the store, \<open>src/src/state/learning.rs\<close> with the statements of
  \<open>src/src/state/sql/mod.rs\<close>: recording a candidate and its retention, the corpus run, activation and
  rollback, the effective definition, the identity rules of a base and the pass that rebinds the stored
  deltas. A table is a list in record order; a statement that fails or an early return rolls its
  transaction back. Columns hold typed values: the condition's JSON text is the fact it encodes, and the
  decoding errors of columns no statement writes are left out. Versions are natural numbers with the range
  check of \<open>stored_u64\<close> where the code makes it. The serving base comes from the base ledger, which is not
  modelled: it is a field that other operations may change.
\<close>

section \<open>Tables\<close>

record delta_record =
  dr_id :: string
  dr_base_version :: nat
  dr_change :: delta_change
  dr_evidence :: string
  dr_state :: delta_state
  dr_version :: nat

record learning_store =
  ls_deltas :: "delta_record list"
  ls_corpus :: "corpus_verdict list"
  ls_rules :: "identity_migration list"
  ls_base :: nat

datatype learning_error = LearnDelta delta_error | LearnMissing string | LearnRange nat

definition stored_version :: "nat \<Rightarrow> learning_error + nat" where
  "stored_version n = (if n < 2 ^ 63 then Inr n else Inl (LearnRange n))"

definition delta_record_on :: "learning_store \<Rightarrow> string \<Rightarrow> delta_record option" where
  "delta_record_on s delta_id = find (\<lambda>r. dr_id r = delta_id) (ls_deltas s)"

definition learning_delta_of :: "learning_store \<Rightarrow> string \<Rightarrow> learning_error + delta_record" where
  "learning_delta_of s delta_id = (case delta_record_on s delta_id of Some r \<Rightarrow> Inr r | None \<Rightarrow> Inl (LearnMissing delta_id))"

definition as_delta :: "delta_record \<Rightarrow> learning_delta" where
  "as_delta r = \<lparr>ld_id = dr_id r, ld_version = dr_version r, ld_change = dr_change r\<rparr>"

definition definition_on :: "learning_store \<Rightarrow> learning_definition" where
  "definition_on s = map as_delta (filter (\<lambda>r. dr_state r = DeltaActive) (ls_deltas s))"

text \<open>\<open>LEARNING_CORPUS_ROWS\<close>: the rows of a delta ordered by the name of their case.\<close>

definition corpus_on :: "learning_store \<Rightarrow> string \<Rightarrow> corpus_verdict list" where
  "corpus_on s delta_id =
     (let of_kind = (\<lambda>k. filter (\<lambda>v. cv_delta_id v = delta_id \<and> cv_kind v = k) (ls_corpus s)) in
      of_kind CaseComposition @ of_kind CaseNegativeControl @ of_kind CaseTransfer)"

section \<open>Instruction bases\<close>

definition mandatory_instructions :: string where
  "mandatory_instructions = ''You are the Rivect decision core. The only permitted action is one scoped file read; request it as `read <path>` on its own line.''"

definition challenge_instructions :: string where
  "challenge_instructions = ''You are the Rivect challenge_direction purpose. From the task, its criteria and its selected surfaces in the inputs, reply with exactly one JSON object {\"risks\":[{\"surface\":<selected surface>,\"text\":<risk>}]} naming every selected risky surface. A material choice the user must make adds \"fork\":{\"prompt\",\"options\":[five {\"id\",\"label\",\"consequences\",\"disabled_reason\"?}],\"recommended\",\"basis\"}. No other field and no tool call.''"

definition design_instructions :: string where
  "design_instructions = ''You are the Rivect design_contracts purpose. From the task, its criteria and its selected surfaces in the inputs, reply with exactly one JSON object {\"contracts\":[{\"surface\":<selected surface>,\"text\":<boundary contract>}]} covering every selected risky surface. A material choice the user must make adds \"fork\":{\"prompt\",\"options\":[five {\"id\",\"label\",\"consequences\",\"disabled_reason\"?}],\"recommended\",\"basis\"}. An applied fork answer arrives as fork_answer. No other field and no tool call.''"

definition assess_instructions :: string where
  "assess_instructions = ''You are the Rivect assess_plan purpose. Judge the stored plan revision in the inputs for feasibility, test design and risk against the task criteria and reply with exactly one JSON object {\"verdict\":\"pass\"|\"fail\",\"findings\":[<text>]}. No other field and no tool call.''"

definition longest_stage_instructions :: string where
  "longest_stage_instructions =
     (let longest = challenge_instructions;
          longest = (if length design_instructions > length longest then design_instructions else longest)
      in if length assess_instructions > length longest then assess_instructions else longest)"

definition largest_instruction_base :: string where
  "largest_instruction_base =
     (if length longest_stage_instructions > length mandatory_instructions then longest_stage_instructions
      else mandatory_instructions)"

definition definition_size_on :: "learning_store \<Rightarrow> nat" where
  "definition_size_on s = max_instruction_bytes (definition_on s) largest_instruction_base"

text \<open>
  \<open>Broker::assemble_instructions\<close> (\<open>src/src/model.rs\<close>): the base, the texts of the instruction files that
  were discovered, then the learned part.
\<close>

definition assemble_instructions :: "string list \<Rightarrow> learning_definition \<Rightarrow> string \<Rightarrow> string \<Rightarrow> string" where
  "assemble_instructions files ds purpose base =
     instruction_part ds purpose (base @ concat (map (\<lambda>entry. CHR 0x0A # entry) files))"

section \<open>Candidates\<close>

definition learning_delta_retention :: nat where "learning_delta_retention = 32"

definition prune_learning_candidates :: "nat \<Rightarrow> learning_store \<Rightarrow> learning_store" where
  "prune_learning_candidates keep s =
     (let inactive = filter (\<lambda>r. dr_state r = DeltaInactive) (ls_deltas s);
          evicted = set (map dr_id (take (length inactive - keep) inactive)) in
      s\<lparr>ls_corpus := filter (\<lambda>v. cv_delta_id v \<notin> evicted) (ls_corpus s),
        ls_deltas := filter (\<lambda>r. dr_id r \<notin> evicted) (ls_deltas s)\<rparr>)"

definition candidate_row :: "delta_candidate \<Rightarrow> delta_record" where
  "candidate_row c = \<lparr>dr_id = cn_delta_id c, dr_base_version = cn_base_version c, dr_change = cn_change c,
     dr_evidence = cn_evidence c, dr_state = DeltaInactive, dr_version = 1\<rparr>"

definition record_learning_delta ::
  "delta_candidate \<Rightarrow> learning_store \<Rightarrow> (learning_error + delta_record) \<times> learning_store" where
  "record_learning_delta c s =
     (case candidate_validate c of
        Inl e \<Rightarrow> (Inl (LearnDelta e), s)
      | Inr _ \<Rightarrow>
          (case stored_version (cn_base_version c) of
             Inl e \<Rightarrow> (Inl e, s)
           | Inr _ \<Rightarrow>
               if delta_record_on s (cn_delta_id c) \<noteq> None
               then (Inl (LearnDelta (DeltaAlreadyRecorded (cn_delta_id c))), s)
               else
                 (let s' = prune_learning_candidates learning_delta_retention
                        (s\<lparr>ls_deltas := ls_deltas s @ [candidate_row c]\<rparr>) in
                  (learning_delta_of s' (cn_delta_id c), s'))))"

section \<open>The corpus\<close>

fun first_duplicate_kind :: "corpus_case_kind list \<Rightarrow> corpus_case list \<Rightarrow> corpus_case_kind option" where
  "first_duplicate_kind seen [] = None"
| "first_duplicate_kind seen (c # cs) =
     (if corpus_case_kind_of c \<in> set seen then Some (corpus_case_kind_of c)
      else first_duplicate_kind (corpus_case_kind_of c # seen) cs)"

fun gather_controls :: "learning_store \<Rightarrow> string \<Rightarrow> corpus_case list \<Rightarrow> learning_error + learning_delta option list" where
  "gather_controls s delta_id [] = Inr []"
| "gather_controls s delta_id (NegativeControlCase facts control # cs) =
     (if control = delta_id then Inl (LearnDelta (SelfControl delta_id))
      else (case delta_record_on s control of
              None \<Rightarrow> Inl (LearnDelta (UnknownControl delta_id control))
            | Some held \<Rightarrow> map_sum id (\<lambda>rest. Some (as_delta held) # rest) (gather_controls s delta_id cs)))"
| "gather_controls s delta_id (_ # cs) = map_sum id (\<lambda>rest. None # rest) (gather_controls s delta_id cs)"

text \<open>\<open>INSERT OR REPLACE\<close> on the key of delta and case.\<close>

definition upsert_verdict :: "corpus_verdict \<Rightarrow> corpus_verdict list \<Rightarrow> corpus_verdict list" where
  "upsert_verdict v rows = filter (\<lambda>w. \<not> (cv_delta_id w = cv_delta_id v \<and> cv_kind w = cv_kind v)) rows @ [v]"

fun insert_verdicts ::
  "corpus_candidate \<Rightarrow> learning_definition \<Rightarrow> (corpus_case \<times> learning_delta option) list \<Rightarrow> corpus_verdict list \<Rightarrow>
   learning_error + corpus_verdict list" where
  "insert_verdicts cand active [] rows = Inr rows"
| "insert_verdicts cand active ((c, control) # rest) rows =
     (let verdict = corpus_verdict_of cand active control c largest_instruction_base in
      case stored_version (cv_version verdict) of
        Inl e \<Rightarrow> Inl e
      | Inr _ \<Rightarrow> insert_verdicts cand active rest (upsert_verdict verdict rows))"

definition record_learning_corpus ::
  "string \<Rightarrow> corpus_case list \<Rightarrow> learning_store \<Rightarrow> (learning_error + corpus_verdict list) \<times> learning_store" where
  "record_learning_corpus delta_id cases s =
     (case learning_delta_of s delta_id of
        Inl e \<Rightarrow> (Inl e, s)
      | Inr row \<Rightarrow>
          if length cases > corpus_case_limit
          then (Inl (LearnDelta (TooManyCases delta_id (length cases) corpus_case_limit)), s)
          else
            (case first_duplicate_kind [] cases of
               Some k \<Rightarrow> (Inl (LearnDelta (DuplicateCase delta_id (corpus_case_kind_as_str k))), s)
             | None \<Rightarrow>
                 (case gather_controls s delta_id cases of
                    Inl e \<Rightarrow> (Inl e, s)
                  | Inr controls \<Rightarrow>
                      (case insert_verdicts \<lparr>cc_delta_id = delta_id, cc_version = dr_version row, cc_change = dr_change row\<rparr>
                              (definition_on s) (zip cases controls) (ls_corpus s) of
                         Inl e \<Rightarrow> (Inl e, s)
                       | Inr rows \<Rightarrow> (let s' = s\<lparr>ls_corpus := rows\<rparr> in (Inr (corpus_on s' delta_id), s'))))))"

fun require_kinds :: "string \<Rightarrow> nat \<Rightarrow> corpus_verdict list \<Rightarrow> corpus_case_kind list \<Rightarrow> learning_error + unit" where
  "require_kinds delta_id version judged [] = Inr ()"
| "require_kinds delta_id version judged (k # ks) =
     (case find (\<lambda>v. cv_kind v = k) judged of
        None \<Rightarrow> Inl (LearnDelta (CorpusMissing delta_id (corpus_case_kind_as_str k) version))
      | Some v \<Rightarrow>
          if \<not> cv_passed v
          then Inl (LearnDelta (CorpusRejected delta_id (corpus_case_kind_as_str k) (cv_expected v) (cv_observed v)))
          else require_kinds delta_id version judged ks)"

definition require_corpus :: "string \<Rightarrow> nat \<Rightarrow> corpus_verdict list \<Rightarrow> learning_error + unit" where
  "require_corpus delta_id version verdicts =
     require_kinds delta_id version (filter (\<lambda>v. cv_version v = version) verdicts)
       [CaseTransfer, CaseComposition, CaseNegativeControl]"

section \<open>Activation and rollback\<close>

text \<open>The conditional statement that moves one row and its version.\<close>

definition move_state :: "string \<Rightarrow> delta_state \<Rightarrow> nat \<Rightarrow> delta_state \<Rightarrow> delta_record \<Rightarrow> delta_record" where
  "move_state delta_id from version to r =
     (if dr_id r = delta_id \<and> dr_state r = from \<and> dr_version r = version
      then r\<lparr>dr_state := to, dr_version := dr_version r + 1\<rparr> else r)"

definition pinned :: "string \<Rightarrow> delta_state \<Rightarrow> nat \<Rightarrow> learning_store \<Rightarrow> bool" where
  "pinned delta_id from version s \<longleftrightarrow>
     list_ex (\<lambda>r. dr_id r = delta_id \<and> dr_state r = from \<and> dr_version r = version) (ls_deltas s)"

definition activate_learning_delta ::
  "string \<Rightarrow> nat \<Rightarrow> learning_store \<Rightarrow> (learning_error + learning_definition) \<times> learning_store" where
  "activate_learning_delta delta_id expected s =
     (case delta_record_on s delta_id of
        None \<Rightarrow> (Inl (LearnMissing delta_id), s)
      | Some row \<Rightarrow>
          (case require_corpus delta_id expected (corpus_on s delta_id) of
             Inl e \<Rightarrow> (Inl e, s)
           | Inr _ \<Rightarrow>
               (case stored_version expected of
                  Inl e \<Rightarrow> (Inl e, s)
                | Inr _ \<Rightarrow>
                    if \<not> pinned delta_id DeltaInactive expected s
                    then (Inl (LearnDelta (ActivationRefused delta_id (dr_state row) (dr_version row) expected)), s)
                    else
                      (let s' = s\<lparr>ls_deltas := map (move_state delta_id DeltaInactive expected DeltaActive) (ls_deltas s)\<rparr>;
                           size = definition_size_on s' in
                       if size > definition_max_bytes
                       then (Inl (LearnDelta (DeltaCompositionExceeded delta_id size definition_max_bytes)), s)
                       else (Inr (definition_on s'), s')))))"

definition roll_back_learning_delta ::
  "string \<Rightarrow> nat \<Rightarrow> learning_store \<Rightarrow> (learning_error + learning_definition) \<times> learning_store" where
  "roll_back_learning_delta delta_id expected s =
     (case delta_record_on s delta_id of
        None \<Rightarrow> (Inl (LearnMissing delta_id), s)
      | Some row \<Rightarrow>
          (case stored_version expected of
             Inl e \<Rightarrow> (Inl e, s)
           | Inr _ \<Rightarrow>
               if \<not> pinned delta_id DeltaActive expected s
               then (Inl (LearnDelta (RollbackRefused delta_id (dr_state row) (dr_version row) expected)), s)
               else
                 (let s' = s\<lparr>ls_deltas := map (move_state delta_id DeltaActive expected DeltaRolledBack) (ls_deltas s)\<rparr> in
                  (Inr (definition_on s'), s'))))"

section \<open>Identity rules\<close>

definition identity_migrations_on :: "learning_store \<Rightarrow> nat \<Rightarrow> identity_migration list" where
  "identity_migrations_on s base = filter (\<lambda>m. im_base_version m = base) (ls_rules s)"

definition same_rule_key :: "identity_migration \<Rightarrow> identity_migration \<Rightarrow> bool" where
  "same_rule_key a b \<longleftrightarrow> im_kind a = im_kind b \<and> im_old_id a = im_old_id b \<and> im_new_id a = im_new_id b"

text \<open>\<open>INSERT OR IGNORE\<close> on the key of base, kind, source and target.\<close>

definition insert_rule :: "identity_migration \<Rightarrow> identity_migration list \<Rightarrow> identity_migration list" where
  "insert_rule m rules =
     (if list_ex (\<lambda>r. im_base_version r = im_base_version m \<and> same_rule_key r m) rules then rules else rules @ [m])"

definition record_migration_on ::
  "identity_migration \<Rightarrow> nat \<Rightarrow> learning_store \<Rightarrow> (identity_error + identity_migration) \<times> learning_store" where
  "record_migration_on m version s =
     (if im_base_version m \<noteq> version then (Inl (UnknownBase (im_base_version m) version), s)
      else if \<not> version < 2 ^ 63 then (Inl (VersionRange version), s)
      else
        (case identity_rules_new version (identity_migrations_on s version @ [m]) of
           Inl e \<Rightarrow> (Inl e, s)
         | Inr _ \<Rightarrow>
             (let s' = s\<lparr>ls_rules := insert_rule m (ls_rules s)\<rparr> in
              case find (\<lambda>r. same_rule_key r m) (identity_migrations_on s' version) of
                None \<Rightarrow> (Inl (CorruptRule (im_old_id m)), s)
              | Some stored \<Rightarrow>
                  if stored \<noteq> m then (Inl (Conflicting (im_old_id m) (im_new_id m) (im_rule m)), s)
                  else (Inr stored, s'))))"

definition record_identity_migration ::
  "identity_migration \<Rightarrow> learning_store \<Rightarrow> (identity_error + identity_migration) \<times> learning_store" where
  "record_identity_migration m s = record_migration_on m (ls_base s) s"

section \<open>Rebinding\<close>

record stored_binding =
  sb_delta_id :: string
  sb_kind :: identity_kind
  sb_subject :: string
  sb_state :: delta_state
  sb_applies_when :: "condition_fact option"
  sb_decision :: "predicate_effect option"

definition stored_binding_of :: "delta_record \<Rightarrow> stored_binding option" where
  "stored_binding_of r =
     (case dc_payload (dr_change r) of
        PayloadInstruction _ \<Rightarrow>
          (case dc_when (dr_change r) of
             Some (FactPurpose purpose) \<Rightarrow>
               Some \<lparr>sb_delta_id = dr_id r, sb_kind = KindRole, sb_subject = purpose, sb_state = dr_state r,
                     sb_applies_when = None, sb_decision = None\<rparr>
           | _ \<Rightarrow> None)
      | PayloadApplicability capability effect \<Rightarrow>
          Some \<lparr>sb_delta_id = dr_id r, sb_kind = KindAction, sb_subject = capability, sb_state = dr_state r,
                sb_applies_when = dc_when (dr_change r), sb_decision = Some effect\<rparr>)"

record conclusion =
  co_effect :: predicate_effect
  co_moved :: bool
  co_when :: "condition_fact option"

fun can_both_apply :: "condition_fact option \<Rightarrow> condition_fact option \<Rightarrow> bool" where
  "can_both_apply (Some (FactKind a)) (Some (FactKind b)) \<longleftrightarrow> a = b"
| "can_both_apply _ _ \<longleftrightarrow> True"

text \<open>Where a binding goes: the new subject when a rule moves it, and whether no rule names it.\<close>

definition binding_target :: "identity_rules \<Rightarrow> stored_binding \<Rightarrow> string option" where
  "binding_target rules b =
     (case place rules (sb_kind b) (sb_subject b) of
        Rebound to \<Rightarrow> if to \<noteq> sb_subject b then Some to else None
      | Unassigned \<Rightarrow> None)"

definition unassigned_subjects :: "identity_rules \<Rightarrow> stored_binding list \<Rightarrow> (identity_kind \<times> string) list" where
  "unassigned_subjects rules bs =
     rev (remdups (rev (map (\<lambda>b. (sb_kind b, sb_subject b))
       (filter (\<lambda>b. place rules (sb_kind b) (sb_subject b) = Unassigned) bs))))"

definition conclusions_on :: "(stored_binding \<times> string option) list \<Rightarrow> string \<Rightarrow> conclusion list" where
  "conclusions_on placed subj =
     concat (map (\<lambda>(b, to).
       case sb_decision b of
         None \<Rightarrow> []
       | Some effect \<Rightarrow>
           if sb_state b \<noteq> DeltaActive \<or> (case to of Some t \<Rightarrow> t | None \<Rightarrow> sb_subject b) \<noteq> subj then []
           else [\<lparr>co_effect = effect, co_moved = (to \<noteq> None), co_when = sb_applies_when b\<rparr>]) placed)"

definition disagree :: "conclusion \<Rightarrow> conclusion \<Rightarrow> bool" where
  "disagree a b \<longleftrightarrow> co_effect a \<noteq> co_effect b \<and> (co_moved a \<or> co_moved b) \<and> can_both_apply (co_when a) (co_when b)"

fun first_disagreement :: "conclusion list \<Rightarrow> (conclusion \<times> conclusion) option" where
  "first_disagreement [] = None"
| "first_disagreement (a # rest) =
     (case find (disagree a) rest of
        Some b \<Rightarrow> Some (a, b)
      | None \<Rightarrow> first_disagreement rest)"

text \<open>The map of conclusions is ordered by subject; every conclusion is of kind action.\<close>

definition decided_subjects :: "(stored_binding \<times> string option) list \<Rightarrow> string list" where
  "decided_subjects placed =
     sort (remdups (map (\<lambda>(b, to). case to of Some t \<Rightarrow> t | None \<Rightarrow> sb_subject b)
       (filter (\<lambda>(b, _). sb_decision b \<noteq> None \<and> sb_state b = DeltaActive) placed)))"

fun binding_conflict :: "(stored_binding \<times> string option) list \<Rightarrow> string list \<Rightarrow> identity_error option" where
  "binding_conflict placed [] = None"
| "binding_conflict placed (subj # rest) =
     (case first_disagreement (conclusions_on placed subj) of
        Some (a, b) \<Rightarrow>
          Some (ConflictingBindings KindAction subj (predicate_effect_as_str (co_effect a)) (predicate_effect_as_str (co_effect b)))
      | None \<Rightarrow> binding_conflict placed rest)"

text \<open>\<open>REBIND_DELTA_PURPOSE\<close> and \<open>REBIND_DELTA_CAPABILITY\<close>: the row must still hold the binding that was read.\<close>

definition rebind_matches :: "stored_binding \<Rightarrow> delta_record \<Rightarrow> bool" where
  "rebind_matches b r \<longleftrightarrow> dr_id r = sb_delta_id b \<and>
     (case sb_kind b of
        KindRole \<Rightarrow> dc_when (dr_change r) = Some (FactPurpose (sb_subject b))
      | KindAction \<Rightarrow> (case dc_payload (dr_change r) of PayloadApplicability c _ \<Rightarrow> c = sb_subject b | _ \<Rightarrow> False))"

definition rebound_change :: "stored_binding \<Rightarrow> string \<Rightarrow> delta_change \<Rightarrow> delta_change" where
  "rebound_change b to c =
     (case sb_kind b of
        KindRole \<Rightarrow> c\<lparr>dc_when := Some (FactPurpose to)\<rparr>
      | KindAction \<Rightarrow>
          (case dc_payload c of
             PayloadApplicability _ effect \<Rightarrow> c\<lparr>dc_payload := PayloadApplicability to effect\<rparr>
           | PayloadInstruction _ \<Rightarrow> c))"

definition rebind_row :: "stored_binding \<Rightarrow> string \<Rightarrow> delta_record \<Rightarrow> delta_record" where
  "rebind_row b to r =
     (if rebind_matches b r
      then r\<lparr>dr_change := rebound_change b to (dr_change r), dr_version := dr_version r + 1\<rparr> else r)"

record rebound_subject =
  rs_delta_id :: string
  rs_kind :: identity_kind
  rs_from :: string
  rs_to :: string

fun rebind_rows ::
  "(stored_binding \<times> string option) list \<Rightarrow> delta_record list \<Rightarrow> identity_error + rebound_subject list \<times> delta_record list" where
  "rebind_rows [] rows = Inr ([], rows)"
| "rebind_rows ((b, None) # rest) rows = rebind_rows rest rows"
| "rebind_rows ((b, Some to) # rest) rows =
     (if \<not> list_ex (rebind_matches b) rows then Inl (MovedBinding (sb_delta_id b))
      else
        (case rebind_rows rest (map (rebind_row b to) rows) of
           Inl e \<Rightarrow> Inl e
         | Inr (moved, rows') \<Rightarrow>
             Inr (\<lparr>rs_delta_id = sb_delta_id b, rs_kind = sb_kind b, rs_from = sb_subject b, rs_to = to\<rparr> # moved, rows')))"

record identity_rebind =
  rb_base_version :: nat
  rb_migrations :: "identity_migration list"
  rb_rebound :: "rebound_subject list"
  rb_unassigned :: "(identity_kind \<times> string) list"

definition placed_bindings :: "identity_rules \<Rightarrow> delta_record list \<Rightarrow> (stored_binding \<times> string option) list" where
  "placed_bindings rules rows = map (\<lambda>b. (b, binding_target rules b)) (List.map_filter stored_binding_of rows)"

definition rebind_learning_identities_on ::
  "learning_store \<Rightarrow> (identity_error + identity_rebind) \<times> learning_store" where
  "rebind_learning_identities_on s =
     (case identity_rules_new (ls_base s) (identity_migrations_on s (ls_base s)) of
        Inl e \<Rightarrow> (Inl e, s)
      | Inr rules \<Rightarrow>
          (let placed = placed_bindings rules (ls_deltas s) in
           case binding_conflict placed (decided_subjects placed) of
             Some e \<Rightarrow> (Inl e, s)
           | None \<Rightarrow>
               (case rebind_rows placed (ls_deltas s) of
                  Inl e \<Rightarrow> (Inl e, s)
                | Inr (moved, rows) \<Rightarrow>
                    (let s' = s\<lparr>ls_deltas := rows\<rparr>; size = definition_size_on s' in
                     if moved \<noteq> [] \<and> size > definition_max_bytes
                     then (Inl (CompositionExceeded (ls_base s) size definition_max_bytes), s)
                     else (Inr \<lparr>rb_base_version = ls_base s, rb_migrations = ir_migrations rules, rb_rebound = moved,
                                 rb_unassigned = unassigned_subjects rules (map fst placed)\<rparr>, s')))))"

end
