(* ===== verification/Learning_Props.thy ===== *)
theory Learning_Props
  imports Learning_Store State_Machine
begin

text \<open>
  The size a definition can reach, the durable steps of the learning tables as a transition system, and
  what every step keeps.
\<close>

section \<open>The heaviest part\<close>

definition delta_weight :: "learning_delta \<Rightarrow> nat" where
  "delta_weight d = (case appended_bytes d of None \<Rightarrow> 0 | Some n \<Rightarrow> n)"

definition common_weight :: "learning_definition \<Rightarrow> nat" where
  "common_weight ds = sum_list (map delta_weight (filter (\<lambda>d. dc_when (ld_change d) = None) ds))"

definition purpose_weight :: "learning_definition \<Rightarrow> string \<Rightarrow> nat" where
  "purpose_weight ds p = sum_list (map delta_weight (filter (\<lambda>d. dc_when (ld_change d) = Some (FactPurpose p)) ds))"

lemma weight_simps [simp]:
  "common_weight [] = 0" "purpose_weight [] p = 0"
  "common_weight (d # ds) = (if dc_when (ld_change d) = None then delta_weight d else 0) + common_weight ds"
  "purpose_weight (d # ds) p = (if dc_when (ld_change d) = Some (FactPurpose p) then delta_weight d else 0) + purpose_weight ds p"
  by (simp_all add: common_weight_def purpose_weight_def)

lemma fact_holds_purpose: "fact_holds f (facts_for_purpose p) \<longleftrightarrow> f = FactPurpose p"
  by (cases f) (auto simp: facts_for_purpose_def)

lemma length_instruction_part: "length (instruction_part ds p base) = length base + common_weight ds + purpose_weight ds p"
proof -
  have "length (append_instructions (facts_for_purpose p) ds part) = length part + common_weight ds + purpose_weight ds p" for part
    by (induction ds arbitrary: part)
      (auto simp: delta_weight_def appended_bytes_def change_applies_def fact_holds_purpose split: option.splits)
  then show ?thesis by (simp add: instruction_part_def)
qed

abbreviation weight_in :: "(string \<times> nat) list \<Rightarrow> string \<Rightarrow> nat" where
  "weight_in h p \<equiv> (case map_of h p of None \<Rightarrow> 0 | Some n \<Rightarrow> n)"

lemma weigh_deltas_exact:
  assumes "distinct (map fst h)"
  shows "case weigh_deltas ds h u of (h', u') \<Rightarrow>
    u' = u + common_weight ds \<and> distinct (map fst h') \<and> (\<forall>p. weight_in h' p = weight_in h p + purpose_weight ds p)"
  using assms
proof (induction ds arbitrary: h u)
  case (Cons d ds)
  show ?case
  proof (cases "appended_bytes d")
    case None
    then show ?thesis using Cons by (auto simp: delta_weight_def)
  next
    case (Some n)
    then have w: "delta_weight d = n" by (simp add: delta_weight_def)
    consider "dc_when (ld_change d) = None" | q where "dc_when (ld_change d) = Some (FactPurpose q)"
      | f where "dc_when (ld_change d) = Some f" "\<forall>q. f \<noteq> FactPurpose q" by (cases "dc_when (ld_change d)") auto
    then show ?thesis
    proof cases
      case 1
      then show ?thesis using Cons Some w by (auto simp: split_beta)
    next
      case 2
      let ?h = "AList.map_default q n (\<lambda>x. x + n) h"
      have "weight_in ?h p = weight_in h p + (if p = q then n else 0)" for p
        by (simp add: map_of_map_default split: option.splits)
      then show ?thesis using Cons.IH[OF distinct_map_default[OF Cons.prems]] 2 Some w by (auto simp: split_beta)
    next
      case 3
      then show ?thesis using Cons Some by (cases f) (auto simp: split_beta)
    qed
  qed
qed simp

text \<open>The computed size is the length of the longest part over all purposes.\<close>

lemma max_instruction_bytes_exact:
  "length (instruction_part ds p base) \<le> max_instruction_bytes ds base"
  "\<exists>q. length (instruction_part ds q base) = max_instruction_bytes ds base"
proof -
  obtain h u where hu: "weigh_deltas ds [] 0 = (h, u)" by fastforce
  have u: "u = common_weight ds" and dist: "distinct (map fst h)" and w: "weight_in h p = purpose_weight ds p" for p
    using weigh_deltas_exact[where h = "[]" and ds = ds and u = 0] by (auto simp: hu)
  have size: "max_instruction_bytes ds base = length base + common_weight ds + (if h = [] then 0 else Max (snd ` set h))"
    by (simp add: max_instruction_bytes_def hu u)
  have "purpose_weight ds p \<le> (if h = [] then 0 else Max (snd ` set h))"
  proof (cases "map_of h p")
    case (Some n)
    then have "(p, n) \<in> set h" by (rule map_of_SomeD)
    then have "n \<in> snd ` set h" "h \<noteq> []" by force+
    then show ?thesis using w[of p] Some by simp
  qed (use w[of p] in simp)
  then show "length (instruction_part ds p base) \<le> max_instruction_bytes ds base"
    by (simp add: length_instruction_part size)
  have "\<exists>q. purpose_weight ds q = (if h = [] then 0 else Max (snd ` set h))"
  proof (cases "h = []")
    case False
    then have "Max (snd ` set h) \<in> snd ` set h" by (intro Max_in) auto
    then obtain q where "(q, Max (snd ` set h)) \<in> set h" by auto
    then have "weight_in h q = Max (snd ` set h)" using dist by simp
    then show ?thesis using w False by auto
  qed (use w in auto)
  then show "\<exists>q. length (instruction_part ds q base) = max_instruction_bytes ds base"
    by (simp add: length_instruction_part size)
qed

lemma max_instruction_bytes_mono:
  assumes "length base \<le> length base'"
  shows "length (instruction_part ds p base) \<le> max_instruction_bytes ds base'"
  using max_instruction_bytes_exact(1)[of ds p base'] assms by (simp add: length_instruction_part)

section \<open>The durable steps\<close>

text \<open>
  One rule per committed operation. The base ledger may move to another base and drop the rules of bases
  it retires; neither touches a delta.
\<close>

inductive learn_step :: "learning_store \<Rightarrow> learning_store \<Rightarrow> bool" where
  ln_record: "record_learning_delta c s = (Inr r, s') \<Longrightarrow> learn_step s s'"
| ln_corpus: "record_learning_corpus i cases s = (Inr vs, s') \<Longrightarrow> learn_step s s'"
| ln_activate: "activate_learning_delta i v s = (Inr ds, s') \<Longrightarrow> learn_step s s'"
| ln_roll_back: "roll_back_learning_delta i v s = (Inr ds, s') \<Longrightarrow> learn_step s s'"
| ln_rule: "record_migration_on m base s = (Inr m', s') \<Longrightarrow> learn_step s s'"
| ln_rebind: "rebind_learning_identities_on s = (Inr res, s') \<Longrightarrow> learn_step s s'"
| ln_base: "learn_step s (s\<lparr>ls_base := base, ls_rules := filter P (ls_rules s)\<rparr>)"

definition learn_initial :: "learning_store \<Rightarrow> bool" where
  "learn_initial s \<longleftrightarrow> ls_deltas s = [] \<and> ls_corpus s = []"

text \<open>A verdict that was computed on the given row as it stands.\<close>

definition control_ok :: "string \<Rightarrow> corpus_case \<Rightarrow> learning_delta option \<Rightarrow> bool" where
  "control_ok i c control \<longleftrightarrow>
     (\<forall>facts other. c = NegativeControlCase facts other \<longrightarrow> other \<noteq> i \<and> (\<exists>d. control = Some d \<and> ld_id d = other))"

definition judged_on :: "delta_record \<Rightarrow> corpus_verdict \<Rightarrow> bool" where
  "judged_on r v \<longleftrightarrow>
     (\<exists>active control cs.
        v = corpus_verdict_of \<lparr>cc_delta_id = dr_id r, cc_version = dr_version r, cc_change = dr_change r\<rparr>
              active control cs largest_instruction_base \<and>
        control_ok (dr_id r) cs control)"

definition verdict_ok :: "delta_record list \<Rightarrow> corpus_verdict \<Rightarrow> bool" where
  "verdict_ok rows v \<longleftrightarrow>
     (\<exists>r\<in>set rows. dr_id r = cv_delta_id v \<and> cv_version v \<le> dr_version r \<and> (cv_version v = dr_version r \<longrightarrow> judged_on r v))"

definition row_learned_ok :: "delta_record \<Rightarrow> bool" where
  "row_learned_ok r \<longleftrightarrow> (dr_state r = DeltaInactive \<or> dc_when (dr_change r) \<noteq> None) \<and>
     (\<forall>body. dc_payload (dr_change r) = PayloadInstruction body \<longrightarrow> \<not> carries_credential_reference body)"

definition learn_inv :: "learning_store \<Rightarrow> bool" where
  "learn_inv s \<longleftrightarrow> distinct (map dr_id (ls_deltas s)) \<and> (\<forall>r\<in>set (ls_deltas s). row_learned_ok r) \<and>
     (\<forall>v\<in>set (ls_corpus s). verdict_ok (ls_deltas s) v) \<and> definition_size_on s \<le> definition_max_bytes"

lemma learn_invD:
  assumes "learn_inv s"
  shows "distinct (map dr_id (ls_deltas s))" "r \<in> set (ls_deltas s) \<Longrightarrow> row_learned_ok r"
    "v \<in> set (ls_corpus s) \<Longrightarrow> verdict_ok (ls_deltas s) v" "definition_size_on s \<le> definition_max_bytes"
  using assms by (auto simp: learn_inv_def)

lemma same_id: "distinct (map dr_id rows) \<Longrightarrow> r \<in> set rows \<Longrightarrow> r' \<in> set rows \<Longrightarrow> dr_id r = dr_id r' \<Longrightarrow> r = r'"
  by (metis distinct_map inj_on_def)

lemma delta_record_on_Some: "delta_record_on s i = Some r \<Longrightarrow> r \<in> set (ls_deltas s) \<and> dr_id r = i"
  unfolding delta_record_on_def by (drule find_SomeD) simp

subsection \<open>Operations that leave the deltas alone\<close>

lemma largest_base_length: "length largest_instruction_base \<le> definition_max_bytes"
  by (simp add: largest_instruction_base_def longest_stage_instructions_def Let_def definition_max_bytes_def
      challenge_instructions_def design_instructions_def assess_instructions_def mandatory_instructions_def)

lemma learn_initial_inv: "learn_initial s \<Longrightarrow> learn_inv s"
  using largest_base_length
  by (simp add: learn_initial_def learn_inv_def definition_size_on_def definition_on_def max_instruction_bytes_def)

lemma definition_on_cong: "ls_deltas s = ls_deltas s' \<Longrightarrow> definition_on s = definition_on s'"
  by (simp add: definition_on_def)

lemma learn_inv_cong: "learn_inv s \<Longrightarrow> ls_deltas s' = ls_deltas s \<Longrightarrow> ls_corpus s' = ls_corpus s \<Longrightarrow> learn_inv s'"
  using definition_on_cong[of s' s] by (simp add: learn_inv_def definition_size_on_def)

lemma gather_controls_named: "gather_controls s i cs = Inr controls \<Longrightarrow> list_all2 (control_ok i) cs controls"
proof (induction cs arbitrary: controls)
  case (Cons c cs)
  obtain control rest where *: "controls = control # rest" "gather_controls s i cs = Inr rest" "control_ok i c control"
    using Cons.prems
    by (cases c) (auto simp: map_sum_def control_ok_def as_delta_def dest: delta_record_on_Some split: if_splits option.splits sum.splits)
  then show ?case using Cons.IH by simp
qed simp

lemma insert_verdicts_ok:
  assumes "insert_verdicts cand active cs rows = Inr rows'" "\<forall>v\<in>set rows. P v"
    "\<forall>(c, control)\<in>set cs. P (corpus_verdict_of cand active control c largest_instruction_base)"
  shows "\<forall>v\<in>set rows'. P v"
  using assms
proof (induction cs arbitrary: rows)
  case (Cons x cs)
  obtain c control where x: "x = (c, control)" by (cases x)
  let ?v = "corpus_verdict_of cand active control c largest_instruction_base"
  have "insert_verdicts cand active cs (upsert_verdict ?v rows) = Inr rows'"
    using Cons.prems(1) by (simp add: x Let_def split: sum.splits)
  moreover have "\<forall>v\<in>set (upsert_verdict ?v rows). P v" using Cons.prems(2,3) by (auto simp: upsert_verdict_def x)
  ultimately show ?case using Cons.IH Cons.prems(3) by simp
qed simp

lemma corpus_verdict_of_sel [simp]:
  "cv_delta_id (corpus_verdict_of cand active control c base) = cc_delta_id cand"
  "cv_version (corpus_verdict_of cand active control c base) = cc_version cand"
  "cv_kind (corpus_verdict_of cand active control c base) = corpus_case_kind_of c"
  "cv_passed (corpus_verdict_of cand active control c base) = snd (snd (judge_case cand active control c base))"
  by (simp_all add: corpus_verdict_of_def split_beta)

lemma record_corpus_inv:
  assumes "learn_inv s" "record_learning_corpus i cases s = (Inr vs, s')"
  shows "learn_inv s'"
proof -
  obtain row controls rows where *: "delta_record_on s i = Some row" "gather_controls s i cases = Inr controls"
    "insert_verdicts \<lparr>cc_delta_id = i, cc_version = dr_version row, cc_change = dr_change row\<rparr> (definition_on s) (zip cases controls) (ls_corpus s) = Inr rows"
    "s' = s\<lparr>ls_corpus := rows\<rparr>"
    using assms(2) by (auto simp: record_learning_corpus_def learning_delta_of_def Let_def split: option.splits sum.splits if_splits)
  have row: "row \<in> set (ls_deltas s)" "dr_id row = i" using delta_record_on_Some[OF *(1)] by simp_all
  have "verdict_ok (ls_deltas s) (corpus_verdict_of \<lparr>cc_delta_id = i, cc_version = dr_version row, cc_change = dr_change row\<rparr>
      (definition_on s) control c largest_instruction_base)" if "(c, control) \<in> set (zip cases controls)" for c control
  proof -
    have "control_ok i c control" using gather_controls_named[OF *(2)] that by (auto simp: list_all2_iff)
    then show ?thesis unfolding verdict_ok_def judged_on_def using row by (intro bexI[of _ row]) auto
  qed
  then have "\<forall>v\<in>set rows. verdict_ok (ls_deltas s) v"
    using insert_verdicts_ok[OF *(3), of "verdict_ok (ls_deltas s)"] learn_invD(3)[OF assms(1)] by blast
  then show ?thesis using assms(1) *(4) definition_on_cong[of s' s] by (simp add: learn_inv_def definition_size_on_def)
qed

subsection \<open>Recording and retention\<close>

lemma change_validate_clean:
  "change_validate i c = Inr u \<Longrightarrow> dc_payload c = PayloadInstruction body \<Longrightarrow> \<not> carries_credential_reference body"
  by (auto simp: change_validate_def split: if_splits)

lemma max_instruction_bytes_filter:
  "max_instruction_bytes (filter P ds) base \<le> max_instruction_bytes ds base"
proof -
  obtain q where q: "length (instruction_part (filter P ds) q base) = max_instruction_bytes (filter P ds) base"
    using max_instruction_bytes_exact(2) by blast
  have "common_weight (filter P ds) \<le> common_weight ds" "purpose_weight (filter P ds) q \<le> purpose_weight ds q"
    by (induction ds) auto
  then show ?thesis using q max_instruction_bytes_exact(1)[of ds q base] by (simp add: length_instruction_part)
qed

text \<open>Dropping inactive rows with their verdicts keeps the invariant.\<close>

lemma drop_inactive_inv:
  assumes "learn_inv s" "\<And>r. r \<in> set (ls_deltas s) \<Longrightarrow> dr_id r \<in> E \<Longrightarrow> dr_state r = DeltaInactive"
  shows "learn_inv (s\<lparr>ls_corpus := filter (\<lambda>v. cv_delta_id v \<notin> E) (ls_corpus s), ls_deltas := filter (\<lambda>r. dr_id r \<notin> E) (ls_deltas s)\<rparr>)"
proof -
  have "filter (\<lambda>r. dr_state r = DeltaActive) (filter (\<lambda>r. dr_id r \<notin> E) (ls_deltas s)) = filter (\<lambda>r. dr_state r = DeltaActive) (ls_deltas s)"
    using assms(2) by (auto simp: filter_filter intro!: filter_cong)
  moreover have "verdict_ok (filter (\<lambda>r. dr_id r \<notin> E) (ls_deltas s)) v" if "v \<in> set (ls_corpus s)" "cv_delta_id v \<notin> E" for v
    using learn_invD(3)[OF assms(1) that(1)] that(2) by (auto simp: verdict_ok_def)
  moreover have "distinct (map dr_id (filter (\<lambda>r. dr_id r \<notin> E) (ls_deltas s)))"
    using learn_invD(1)[OF assms(1)] by (rule distinct_map_filter)
  ultimately show ?thesis using assms(1) by (auto simp: learn_inv_def definition_size_on_def definition_on_def)
qed

lemma prune_inv:
  assumes "learn_inv s"
  shows "learn_inv (prune_learning_candidates keep s)"
  unfolding prune_learning_candidates_def Let_def
proof (rule drop_inactive_inv[OF assms])
  fix r
  let ?inactive = "filter (\<lambda>r. dr_state r = DeltaInactive) (ls_deltas s)"
  assume r: "r \<in> set (ls_deltas s)" and "dr_id r \<in> set (map dr_id (take (length ?inactive - keep) ?inactive))"
  then obtain r' where r': "r' \<in> set ?inactive" "dr_id r' = dr_id r" by (auto dest!: in_set_takeD)
  then have "r = r'" using same_id[OF learn_invD(1)[OF assms] r] by simp
  then show "dr_state r = DeltaInactive" using r' by simp
qed

lemma record_delta_inv:
  assumes "learn_inv s" "record_learning_delta c s = (Inr r, s')"
  shows "learn_inv s'"
proof -
  have *: "candidate_validate c = Inr ()" "delta_record_on s (cn_delta_id c) = None"
    "s' = prune_learning_candidates learning_delta_retention (s\<lparr>ls_deltas := ls_deltas s @ [candidate_row c]\<rparr>)"
    using assms(2) by (auto simp: record_learning_delta_def Let_def split: sum.splits if_splits)
  have "change_validate (cn_delta_id c) (cn_change c) = Inr ()"
    using *(1) by (auto simp: candidate_validate_def split: sum.splits)
  then have "row_learned_ok (candidate_row c)" by (auto simp: row_learned_ok_def candidate_row_def dest: change_validate_clean)
  moreover have "cn_delta_id c \<notin> dr_id ` set (ls_deltas s)" using *(2) by (auto simp: delta_record_on_def find_None_iff)
  ultimately have "learn_inv (s\<lparr>ls_deltas := ls_deltas s @ [candidate_row c]\<rparr>)"
    using assms(1) by (auto simp: learn_inv_def definition_size_on_def definition_on_def verdict_ok_def candidate_row_def)
  then show ?thesis using prune_inv *(3) by simp
qed

subsection \<open>Activation\<close>

lemma require_kinds_ok:
  "require_kinds i v judged ks = Inr u \<Longrightarrow> k \<in> set ks \<Longrightarrow> \<exists>w\<in>set judged. cv_kind w = k \<and> cv_passed w"
  by (induction ks) (auto dest: find_SomeD split: option.splits if_splits)

text \<open>What an activation found: the row it moves and, for each kind of case, a passed verdict at its version.\<close>

lemma activation_found:
  assumes "activate_learning_delta i v s = (Inr ds, s')"
  obtains row where "row \<in> set (ls_deltas s)" "dr_id row = i" "dr_state row = DeltaInactive" "dr_version row = v"
    "\<And>k. \<exists>w\<in>set (corpus_on s i). cv_version w = v \<and> cv_kind w = k \<and> cv_passed w"
    "s' = s\<lparr>ls_deltas := map (move_state i DeltaInactive v DeltaActive) (ls_deltas s)\<rparr>" "ds = definition_on s'"
    "definition_size_on s' \<le> definition_max_bytes"
proof -
  have act: "require_corpus i v (corpus_on s i) = Inr ()" "pinned i DeltaInactive v s"
    "s' = s\<lparr>ls_deltas := map (move_state i DeltaInactive v DeltaActive) (ls_deltas s)\<rparr>" "ds = definition_on s'"
    "definition_size_on s' \<le> definition_max_bytes"
    using assms by (auto simp: activate_learning_delta_def Let_def split: option.splits sum.splits if_splits)
  have "\<exists>w\<in>set (corpus_on s i). cv_version w = v \<and> cv_kind w = k \<and> cv_passed w" for k
  proof -
    have "k \<in> set [CaseTransfer, CaseComposition, CaseNegativeControl]" by (cases k) auto
    then show ?thesis using require_kinds_ok[OF act(1)[unfolded require_corpus_def]] by auto
  qed
  then show thesis using that act unfolding pinned_def list_ex_iff by blast
qed

lemma activation_judged:
  assumes "learn_inv s" "activate_learning_delta i v s = (Inr ds, s')"
  obtains row where "row \<in> set (ls_deltas s)" "dr_id row = i" "dr_state row = DeltaInactive" "dr_version row = v"
    "\<And>k. \<exists>w. judged_on row w \<and> cv_kind w = k \<and> cv_passed w"
    "s' = s\<lparr>ls_deltas := map (move_state i DeltaInactive v DeltaActive) (ls_deltas s)\<rparr>" "ds = definition_on s'"
    "definition_size_on s' \<le> definition_max_bytes"
proof -
  obtain row where row: "row \<in> set (ls_deltas s)" "dr_id row = i" "dr_state row = DeltaInactive" "dr_version row = v"
    and found: "\<And>k. \<exists>w\<in>set (corpus_on s i). cv_version w = v \<and> cv_kind w = k \<and> cv_passed w"
    and act: "s' = s\<lparr>ls_deltas := map (move_state i DeltaInactive v DeltaActive) (ls_deltas s)\<rparr>" "ds = definition_on s'"
      "definition_size_on s' \<le> definition_max_bytes"
    using activation_found[OF assms(2)] by metis
  have "\<exists>w. judged_on row w \<and> cv_kind w = k \<and> cv_passed w" for k
  proof -
    obtain w where w: "w \<in> set (corpus_on s i)" "cv_version w = v" "cv_kind w = k" "cv_passed w" using found by blast
    have "w \<in> set (ls_corpus s)" "cv_delta_id w = i" using w(1) by (auto simp: corpus_on_def Let_def)
    then obtain r where "r \<in> set (ls_deltas s)" "dr_id r = i" "cv_version w = dr_version r \<longrightarrow> judged_on r w"
      using learn_invD(3)[OF assms(1)] by (auto simp: verdict_ok_def)
    then show ?thesis using same_id[OF learn_invD(1)[OF assms(1)] row(1), of r] row w by auto
  qed
  then show thesis using that row act by blast
qed

lemma judged_control:
  assumes "judged_on r w" "cv_kind w = CaseNegativeControl" "cv_passed w"
  shows "\<exists>facts (other :: learning_delta). ld_id other \<noteq> dr_id r \<and> change_applies (ld_change other) facts \<and> \<not> change_applies (dr_change r) facts"
  using assms
  by (auto simp: judged_on_def judge_case_def Let_def control_ok_def elim!: corpus_case_kind_of.elims) blast

text \<open>A map of the rows that keeps their ids and raises the version of every row it changes.\<close>

lemma verdict_ok_map:
  assumes "verdict_ok rows v" "\<And>r. dr_id (f r) = dr_id r" "\<And>r. f r = r \<or> dr_version r < dr_version (f r)"
  shows "verdict_ok (map f rows) v"
proof -
  obtain r where r: "r \<in> set rows" "dr_id r = cv_delta_id v" "cv_version v \<le> dr_version r" "cv_version v = dr_version r \<longrightarrow> judged_on r v"
    using assms(1) by (auto simp: verdict_ok_def)
  have "cv_version v \<le> dr_version (f r)" "cv_version v = dr_version (f r) \<longrightarrow> judged_on (f r) v"
    using assms(3)[of r] r(3,4) by auto
  then show ?thesis unfolding verdict_ok_def using r(1,2) assms(2) by (intro bexI[of _ "f r"]) auto
qed

lemma map_rows_inv:
  assumes "learn_inv s" "\<And>r. dr_id (f r) = dr_id r" "\<And>r. f r = r \<or> dr_version r < dr_version (f r)"
    "\<And>r. r \<in> set (ls_deltas s) \<Longrightarrow> row_learned_ok (f r)"
    "definition_size_on (s\<lparr>ls_deltas := map f (ls_deltas s)\<rparr>) \<le> definition_max_bytes"
  shows "learn_inv (s\<lparr>ls_deltas := map f (ls_deltas s)\<rparr>)"
proof -
  have "dr_id \<circ> f = dr_id" using assms(2) by auto
  then show ?thesis
    using assms(1,4,5) verdict_ok_map[OF _ assms(2,3)] unfolding learn_inv_def by auto
qed

lemma move_state_simps: "dr_id (move_state i a v b r) = dr_id r" "move_state i a v b r = r \<or> dr_version r < dr_version (move_state i a v b r)"
  "dr_change (move_state i a v b r) = dr_change r"
  by (auto simp: move_state_def)

lemma activate_inv:
  assumes "learn_inv s" "activate_learning_delta i v s = (Inr ds, s')"
  shows "learn_inv s'"
proof -
  obtain row where row: "row \<in> set (ls_deltas s)" "dr_id row = i"
    and judged: "\<And>k. \<exists>w. judged_on row w \<and> cv_kind w = k \<and> cv_passed w"
    and s': "s' = s\<lparr>ls_deltas := map (move_state i DeltaInactive v DeltaActive) (ls_deltas s)\<rparr>"
      "definition_size_on s' \<le> definition_max_bytes"
    using activation_judged[OF assms] by metis
  have cond: "dc_when (dr_change row) \<noteq> None"
  proof -
    obtain w where "judged_on row w" "cv_kind w = CaseNegativeControl" "cv_passed w" using judged by blast
    from judged_control[OF this] obtain facts where "\<not> change_applies (dr_change row) facts" by blast
    then show ?thesis by (auto simp: change_applies_def split: option.splits)
  qed
  have "row_learned_ok (move_state i DeltaInactive v DeltaActive r)" if "r \<in> set (ls_deltas s)" for r
    using learn_invD(2)[OF assms(1) that] same_id[OF learn_invD(1)[OF assms(1)] that row(1)] row(2) cond
    by (auto simp: move_state_def row_learned_ok_def)
  then show ?thesis
    using s'(2) unfolding s'(1) by (intro map_rows_inv[OF assms(1)]) (simp_all add: move_state_simps)
qed

lemma roll_back_inv:
  assumes "learn_inv s" "roll_back_learning_delta i v s = (Inr ds, s')"
  shows "learn_inv s'"
proof -
  let ?f = "move_state i DeltaActive v DeltaRolledBack"
  have s': "s' = s\<lparr>ls_deltas := map ?f (ls_deltas s)\<rparr>"
    using assms(2) by (auto simp: roll_back_learning_delta_def Let_def split: option.splits sum.splits if_splits)
  have "map as_delta (filter (\<lambda>r. dr_state r = DeltaActive) (map ?f rows)) =
      filter (\<lambda>d. \<not> (ld_id d = i \<and> ld_version d = v)) (map as_delta (filter (\<lambda>r. dr_state r = DeltaActive) rows))" for rows
    by (induction rows) (auto simp: move_state_def as_delta_def)
  then have "definition_size_on s' \<le> definition_max_bytes"
    using learn_invD(4)[OF assms(1)] max_instruction_bytes_filter le_trans unfolding s' definition_size_on_def definition_on_def
    by (metis (no_types, lifting) learning_store.select_convs(1) learning_store.surjective learning_store.update_convs(1))
  moreover have "row_learned_ok (?f r)" if "r \<in> set (ls_deltas s)" for r
    using learn_invD(2)[OF assms(1) that] by (auto simp: move_state_def row_learned_ok_def)
  ultimately show ?thesis
    unfolding s' by (intro map_rows_inv[OF assms(1)]) (simp_all add: move_state_simps)
qed

subsection \<open>Rebinding\<close>

text \<open>The pass maps every row: a row whose subject a rule moves is rebound, every other row stays.\<close>

definition rebound_row :: "identity_rules \<Rightarrow> delta_record \<Rightarrow> delta_record" where
  "rebound_row rules r =
     (case stored_binding_of r of
        None \<Rightarrow> r
      | Some b \<Rightarrow> (case binding_target rules b of None \<Rightarrow> r | Some to \<Rightarrow> rebind_row b to r))"

lemma stored_binding_matches: "stored_binding_of r = Some b \<Longrightarrow> rebind_matches b r"
  by (auto simp: stored_binding_of_def rebind_matches_def split: delta_payload.splits option.splits condition_fact.splits)

lemma rebound_row_id [simp]: "dr_id (rebound_row rules r) = dr_id r"
  by (simp add: rebound_row_def rebind_row_def split: option.splits)

lemma rebound_row_version: "rebound_row rules r = r \<or> dr_version r < dr_version (rebound_row rules r)"
  by (auto simp: rebound_row_def rebind_row_def split: option.splits)

lemma rebind_row_other: "dr_id r \<noteq> sb_delta_id b \<Longrightarrow> rebind_row b to r = r"
  by (simp add: rebind_row_def rebind_matches_def)

lemma stored_binding_id: "stored_binding_of r = Some b \<Longrightarrow> sb_delta_id b = dr_id r"
  by (auto simp: stored_binding_of_def split: delta_payload.splits option.splits condition_fact.splits)

lemma rebind_rows_map:
  assumes "distinct (map dr_id (rs1 @ rs2))"
  shows "\<exists>moved. rebind_rows (placed_bindings rules rs2) (map (rebound_row rules) rs1 @ rs2) =
      Inr (moved, map (rebound_row rules) (rs1 @ rs2)) \<and> (moved = [] \<longrightarrow> map (rebound_row rules) rs2 = rs2)"
  using assms
proof (induction rs2 arbitrary: rs1)
  case (Cons r rs2)
  have dist: "distinct (map dr_id ((rs1 @ [r]) @ rs2))" using Cons.prems by simp
  obtain moved where IH: "rebind_rows (placed_bindings rules rs2) (map (rebound_row rules) (rs1 @ [r]) @ rs2) =
      Inr (moved, map (rebound_row rules) ((rs1 @ [r]) @ rs2))" "moved = [] \<longrightarrow> map (rebound_row rules) rs2 = rs2"
    using Cons.IH[OF dist] by blast
  show ?case
  proof (cases "\<exists>b to. stored_binding_of r = Some b \<and> binding_target rules b = Some to")
    case False
    then have "rebound_row rules r = r" "rebind_rows (placed_bindings rules (r # rs2)) = rebind_rows (placed_bindings rules rs2)"
      by (auto simp: rebound_row_def placed_bindings_def List.map_filter_simps split: option.splits)
    then show ?thesis using IH by auto
  next
    case True
    then obtain b to where b: "stored_binding_of r = Some b" "binding_target rules b = Some to" by blast
    have row: "rebound_row rules r = rebind_row b to r" using b by (simp add: rebound_row_def)
    have "map (rebind_row b to) (map (rebound_row rules) rs1 @ r # rs2) = map (rebound_row rules) (rs1 @ [r]) @ rs2"
      using Cons.prems stored_binding_id[OF b(1)] row by (auto intro!: map_idI rebind_row_other simp: image_iff)
    moreover have "list_ex (rebind_matches b) (map (rebound_row rules) rs1 @ r # rs2)" using stored_binding_matches[OF b(1)] by simp
    moreover have "placed_bindings rules (r # rs2) = (b, Some to) # placed_bindings rules rs2"
      using b by (simp add: placed_bindings_def List.map_filter_simps)
    ultimately show ?thesis using IH(1) by (simp del: map_append)
  qed
qed (simp add: placed_bindings_def List.map_filter_simps)

lemma rebind_exact:
  assumes "distinct (map dr_id (ls_deltas s))" "rebind_learning_identities_on s = (Inr res, s')"
  obtains rules where "identity_rules_new (ls_base s) (identity_migrations_on s (ls_base s)) = Inr rules"
    "s' = s\<lparr>ls_deltas := map (rebound_row rules) (ls_deltas s)\<rparr>"
    "binding_conflict (placed_bindings rules (ls_deltas s)) (decided_subjects (placed_bindings rules (ls_deltas s))) = None"
    "definition_size_on s' \<le> definition_max_bytes \<or> ls_deltas s' = ls_deltas s"
proof -
  obtain rules where rules: "identity_rules_new (ls_base s) (identity_migrations_on s (ls_base s)) = Inr rules"
    using assms(2) by (auto simp: rebind_learning_identities_on_def split: sum.splits)
  obtain moved where "rebind_rows (placed_bindings rules (ls_deltas s)) (ls_deltas s) = Inr (moved, map (rebound_row rules) (ls_deltas s))"
    "moved = [] \<longrightarrow> map (rebound_row rules) (ls_deltas s) = ls_deltas s"
    using rebind_rows_map[of "[]" "ls_deltas s" rules] assms(1) by auto
  then show thesis using that[OF rules] assms(2) rules
    by (auto simp: rebind_learning_identities_on_def Let_def split: sum.splits option.splits if_splits)
qed

lemma rebind_row_ok: "row_learned_ok r \<Longrightarrow> row_learned_ok (rebound_row rules r)"
  by (auto simp: row_learned_ok_def rebound_row_def rebind_row_def rebound_change_def rebind_matches_def
      split: option.splits identity_kind.splits delta_payload.splits if_splits)

lemma rebind_inv:
  assumes "learn_inv s" "rebind_learning_identities_on s = (Inr res, s')"
  shows "learn_inv s'"
proof -
  obtain rules where s': "s' = s\<lparr>ls_deltas := map (rebound_row rules) (ls_deltas s)\<rparr>"
    "definition_size_on s' \<le> definition_max_bytes \<or> ls_deltas s' = ls_deltas s"
    using rebind_exact[OF learn_invD(1)[OF assms(1)] assms(2)] by metis
  show ?thesis
  proof (cases "ls_deltas s' = ls_deltas s")
    case True
    then show ?thesis using learn_inv_cong[OF assms(1)] s'(1) by simp
  next
    case False
    then show ?thesis
      using s'(2) rebind_row_ok[OF learn_invD(2)[OF assms(1)]] unfolding s'(1)
      by (intro map_rows_inv[OF assms(1)]) (simp_all add: rebound_row_version)
  qed
qed

subsection \<open>Reachable stores\<close>

lemma learn_step_inv: "learn_inv s \<Longrightarrow> learn_step s s' \<Longrightarrow> learn_inv s'"
proof (erule learn_step.cases)
  fix m base m' x x' assume inv: "learn_inv s" and eq: "s = x" "s' = x'" and step: "record_migration_on m base x = (Inr m', x')"
  then have "ls_deltas s' = ls_deltas s" "ls_corpus s' = ls_corpus s"
    by (auto simp: record_migration_on_def Let_def split: if_splits sum.splits option.splits)
  then show ?thesis using learn_inv_cong[OF inv] by simp
qed (auto intro: record_delta_inv record_corpus_inv activate_inv roll_back_inv rebind_inv elim: learn_inv_cong)

interpretation lsm: state_machine learn_initial learn_step learn_inv
  by unfold_locales (auto intro: learn_initial_inv learn_step_inv)

definition learn_reachable :: "learning_store \<Rightarrow> bool" where
  "learn_reachable s \<longleftrightarrow> (\<exists>s0. learn_initial s0 \<and> learn_step\<^sup>*\<^sup>* s0 s)"

lemma learn_reachable_initial: "learn_initial s \<Longrightarrow> learn_reachable s"
  by (auto simp: learn_reachable_def)

lemma learn_reachable_step: "learn_reachable s \<Longrightarrow> learn_step s s' \<Longrightarrow> learn_reachable s'"
  unfolding learn_reachable_def by (meson rtranclp.rtrancl_into_rtrancl)

lemma learn_reachable_inv: "learn_reachable s \<Longrightarrow> learn_inv s"
  unfolding learn_reachable_def using lsm.run_inv by blast

end
