(* ===== verification/Learning_Provenance.thy ===== *)
theory Learning_Provenance
  imports Learning_Props
begin

text \<open>
  Where the verdicts of the learning corpus come from. Every verdict a reachable store holds was written
  by a recording of the corpus on an earlier reachable store, and as long as the version it names is the
  version of its delta, it was computed on the change that delta carries.
\<close>

section \<open>Traced verdicts\<close>

text \<open>
  Where a verdict comes from: a recording of the corpus on an earlier reachable store, from which the
  store at hand was reached. The control of a negative case is a delta recorded there under another id.
\<close>

definition control_held :: "learning_store \<Rightarrow> string \<Rightarrow> corpus_case \<Rightarrow> learning_delta option \<Rightarrow> bool" where
  "control_held s i c control \<longleftrightarrow>
     (\<forall>facts other. c = NegativeControlCase facts other \<longrightarrow>
        other \<noteq> i \<and> (\<exists>r\<in>set (ls_deltas s). dr_id r = other \<and> control = Some (as_delta r)))"

definition verdict_from :: "learning_store \<Rightarrow> corpus_verdict \<Rightarrow> delta_change \<Rightarrow> bool" where
  "verdict_from s v change \<longleftrightarrow>
     (\<exists>s0 cases vs s1 c control. learn_reachable s0 \<and> record_learning_corpus (cv_delta_id v) cases s0 = (Inr vs, s1) \<and>
        v \<in> set vs \<and> learn_step\<^sup>*\<^sup>* s1 s \<and> c \<in> set cases \<and> control_held s0 (cv_delta_id v) c control \<and>
        v = corpus_verdict_of \<lparr>cc_delta_id = cv_delta_id v, cc_version = cv_version v, cc_change = change\<rparr>
              (definition_on s0) control c largest_instruction_base)"

definition verdicts_traced :: "learning_store \<Rightarrow> bool" where
  "verdicts_traced s \<longleftrightarrow>
     (\<forall>v\<in>set (ls_corpus s). \<exists>r\<in>set (ls_deltas s). dr_id r = cv_delta_id v \<and> cv_version v \<le> dr_version r \<and>
        (\<exists>change. verdict_from s v change \<and> (cv_version v = dr_version r \<longrightarrow> change = dr_change r)))"

lemma verdict_from_step: "verdict_from s v change \<Longrightarrow> learn_step s s' \<Longrightarrow> verdict_from s' v change"
  unfolding verdict_from_def by (meson rtranclp.rtrancl_into_rtrancl)

text \<open>Every step but a recording of the corpus keeps the row of each verdict it keeps, or raises its version.\<close>

definition rows_follow :: "learning_store \<Rightarrow> learning_store \<Rightarrow> bool" where
  "rows_follow s s' \<longleftrightarrow>
     (\<forall>v\<in>set (ls_corpus s'). v \<in> set (ls_corpus s) \<and>
        (\<forall>r\<in>set (ls_deltas s). dr_id r = cv_delta_id v \<longrightarrow>
           (\<exists>r'\<in>set (ls_deltas s'). dr_id r' = dr_id r \<and> (r' = r \<or> dr_version r < dr_version r'))))"

lemma rows_follow_same: "ls_deltas s' = ls_deltas s \<Longrightarrow> ls_corpus s' = ls_corpus s \<Longrightarrow> rows_follow s s'"
  unfolding rows_follow_def by auto

lemma rows_follow_map:
  assumes "\<And>r. dr_id (f r) = dr_id r" "\<And>r. f r = r \<or> dr_version r < dr_version (f r)"
  shows "rows_follow s (s\<lparr>ls_deltas := map f (ls_deltas s)\<rparr>)"
  unfolding rows_follow_def using assms by (auto intro: bexI[of _ "f _"])

lemma prune_rows:
  "\<exists>E. prune_learning_candidates keep s =
     s\<lparr>ls_corpus := filter (\<lambda>v. cv_delta_id v \<notin> E) (ls_corpus s), ls_deltas := filter (\<lambda>r. dr_id r \<notin> E) (ls_deltas s)\<rparr>"
  unfolding prune_learning_candidates_def Let_def by blast

lemma rows_follow_record:
  assumes "record_learning_delta c s = (Inr r, s')"
  shows "rows_follow s s'"
proof -
  have "s' = prune_learning_candidates learning_delta_retention (s\<lparr>ls_deltas := ls_deltas s @ [candidate_row c]\<rparr>)"
    using assms by (auto simp: record_learning_delta_def Let_def split: sum.splits if_splits)
  then obtain E where s': "s' = s\<lparr>ls_deltas := ls_deltas s @ [candidate_row c]\<rparr>
      \<lparr>ls_corpus := filter (\<lambda>v. cv_delta_id v \<notin> E) (ls_corpus s), ls_deltas := filter (\<lambda>r. dr_id r \<notin> E) (ls_deltas s @ [candidate_row c])\<rparr>"
    using prune_rows[of learning_delta_retention "s\<lparr>ls_deltas := ls_deltas s @ [candidate_row c]\<rparr>"] by auto
  show ?thesis unfolding rows_follow_def s' by auto
qed

lemma learn_step_follows:
  assumes "learn_inv s" "learn_step s s'"
  shows "rows_follow s s' \<or> (\<exists>i cases vs. record_learning_corpus i cases s = (Inr vs, s'))"
  using assms(2)
proof cases
  case (ln_activate i v ds)
  then have "s' = s\<lparr>ls_deltas := map (move_state i DeltaInactive v DeltaActive) (ls_deltas s)\<rparr>"
    by (auto simp: activate_learning_delta_def Let_def split: option.splits sum.splits if_splits)
  then show ?thesis using rows_follow_map[of "move_state i DeltaInactive v DeltaActive" s] move_state_simps by blast
next
  case (ln_roll_back i v ds)
  then have "s' = s\<lparr>ls_deltas := map (move_state i DeltaActive v DeltaRolledBack) (ls_deltas s)\<rparr>"
    by (auto simp: roll_back_learning_delta_def Let_def split: option.splits sum.splits if_splits)
  then show ?thesis using rows_follow_map[of "move_state i DeltaActive v DeltaRolledBack" s] move_state_simps by blast
next
  case (ln_rule m base m')
  then have "ls_deltas s' = ls_deltas s" "ls_corpus s' = ls_corpus s"
    by (auto simp: record_migration_on_def Let_def split: if_splits sum.splits option.splits)
  then show ?thesis using rows_follow_same by blast
next
  case (ln_rebind res)
  obtain rules where "s' = s\<lparr>ls_deltas := map (rebound_row rules) (ls_deltas s)\<rparr>"
    using rebind_exact[OF learn_invD(1)[OF assms(1)] ln_rebind] by metis
  then show ?thesis using rows_follow_map[of "rebound_row rules" s] rebound_row_version rebound_row_id by blast
qed (auto intro: rows_follow_record rows_follow_same)

lemma traced_follows:
  assumes "verdicts_traced s" "rows_follow s s'" "learn_step s s'"
  shows "verdicts_traced s'"
  unfolding verdicts_traced_def
proof
  fix v assume v: "v \<in> set (ls_corpus s')"
  then have "v \<in> set (ls_corpus s)" using assms(2) unfolding rows_follow_def by blast
  then obtain r change where r: "r \<in> set (ls_deltas s)" "dr_id r = cv_delta_id v" "cv_version v \<le> dr_version r"
    "verdict_from s v change" "cv_version v = dr_version r \<longrightarrow> change = dr_change r"
    using assms(1) unfolding verdicts_traced_def by blast
  obtain r' where r': "r' \<in> set (ls_deltas s')" "dr_id r' = dr_id r" "r' = r \<or> dr_version r < dr_version r'"
    using assms(2) v r(1,2) unfolding rows_follow_def by blast
  then have "cv_version v \<le> dr_version r'" "cv_version v = dr_version r' \<longrightarrow> change = dr_change r'" using r(3,5) by auto
  then show "\<exists>r\<in>set (ls_deltas s'). dr_id r = cv_delta_id v \<and> cv_version v \<le> dr_version r \<and>
      (\<exists>change. verdict_from s' v change \<and> (cv_version v = dr_version r \<longrightarrow> change = dr_change r))"
    using r' r(2) verdict_from_step[OF r(4) assms(3)] by (intro bexI[of _ r']) auto
qed

lemma gather_controls_held: "gather_controls s i cs = Inr controls \<Longrightarrow> list_all2 (control_held s i) cs controls"
proof (induction cs arbitrary: controls)
  case (Cons c cs)
  obtain control rest where *: "controls = control # rest" "gather_controls s i cs = Inr rest" "control_held s i c control"
    using Cons.prems
    by (cases c) (auto simp: map_sum_def control_held_def dest: delta_record_on_Some split: if_splits option.splits sum.splits)
  then show ?case using Cons.IH by simp
qed simp

lemma insert_verdicts_origin:
  assumes "insert_verdicts cand active cs rows = Inr rows'" "v \<in> set rows'"
  shows "v \<in> set rows \<or> (\<exists>(c, control)\<in>set cs. v = corpus_verdict_of cand active control c largest_instruction_base)"
  using insert_verdicts_ok[OF assms(1), of "\<lambda>v. v \<in> set rows \<or> (\<exists>(c, control)\<in>set cs. v = corpus_verdict_of cand active control c largest_instruction_base)"]
    assms(2) by blast

lemma traced_corpus:
  assumes "learn_reachable s" "verdicts_traced s" "record_learning_corpus i cases s = (Inr vs, s')"
  shows "verdicts_traced s'"
  unfolding verdicts_traced_def
proof
  have step: "learn_step s s'" by (rule ln_corpus[OF assms(3)])
  fix v assume v: "v \<in> set (ls_corpus s')"
  obtain row controls rows where *: "delta_record_on s i = Some row" "gather_controls s i cases = Inr controls"
    "insert_verdicts \<lparr>cc_delta_id = i, cc_version = dr_version row, cc_change = dr_change row\<rparr> (definition_on s) (zip cases controls) (ls_corpus s) = Inr rows"
    "s' = s\<lparr>ls_corpus := rows\<rparr>" "vs = corpus_on s' i"
    using assms(3) by (auto simp: record_learning_corpus_def learning_delta_of_def Let_def split: option.splits sum.splits if_splits)
  have row: "row \<in> set (ls_deltas s)" "dr_id row = i" using delta_record_on_Some[OF *(1)] by simp_all
  consider "v \<in> set (ls_corpus s)" | c control where "(c, control) \<in> set (zip cases controls)"
      "v = corpus_verdict_of \<lparr>cc_delta_id = i, cc_version = dr_version row, cc_change = dr_change row\<rparr> (definition_on s) control c largest_instruction_base"
    using insert_verdicts_origin[OF *(3), of v] v *(4) by auto
  then show "\<exists>r\<in>set (ls_deltas s'). dr_id r = cv_delta_id v \<and> cv_version v \<le> dr_version r \<and>
      (\<exists>change. verdict_from s' v change \<and> (cv_version v = dr_version r \<longrightarrow> change = dr_change r))"
  proof cases
    case 1
    then show ?thesis using assms(2) verdict_from_step[OF _ step] *(4) unfolding verdicts_traced_def by fastforce
  next
    case (2 c control)
    have "v \<in> set vs"
      using v 2 by (cases "cv_kind v") (auto simp: *(5) corpus_on_def Let_def)
    moreover have "control_held s i c control" "c \<in> set cases"
      using gather_controls_held[OF *(2)] 2(1) by (auto simp: list_all2_iff dest: set_zip_leftD)
    ultimately have "verdict_from s' v (dr_change row)"
      unfolding verdict_from_def using assms(1,3) 2(2) by (intro exI[of _ s] exI[of _ cases] exI[of _ vs] exI[of _ s'] exI[of _ c] exI[of _ control]) simp
    then show ?thesis using row 2(2) *(4) by (intro bexI[of _ row]) auto
  qed
qed

lemma reachable_traced: "learn_reachable s \<Longrightarrow> verdicts_traced s"
proof -
  assume "learn_reachable s"
  then obtain s0 where init: "learn_initial s0" and run: "learn_step\<^sup>*\<^sup>* s0 s" unfolding learn_reachable_def by blast
  from run show ?thesis
  proof (induction rule: rtranclp_induct)
    case base
    show ?case using init by (simp add: verdicts_traced_def learn_initial_def)
  next
    case (step x y)
    have "learn_reachable x" using init step(1) unfolding learn_reachable_def by blast
    then show ?case
      using learn_step_follows[OF learn_reachable_inv step(2)] traced_follows[OF step.IH _ step(2)] traced_corpus[OF _ step.IH] by blast
  qed
qed

section \<open>What a passed case says\<close>

text \<open>What it means for a case to hold of a change, on the store where it is judged.\<close>

definition case_holds :: "learning_store \<Rightarrow> string \<Rightarrow> nat \<Rightarrow> delta_change \<Rightarrow> corpus_case \<Rightarrow> bool" where
  "case_holds s i v change c =
     (case c of
        TransferCase facts \<Rightarrow> change_applies change facts
      | CompositionCase facts \<Rightarrow>
          (let composed = composed_with (definition_on s) \<lparr>ld_id = i, ld_version = v, ld_change = change\<rparr> in
           max_instruction_bytes composed largest_instruction_base \<le> definition_max_bytes \<and>
           (case dc_payload change of
              PayloadInstruction body \<Rightarrow> True
            | PayloadApplicability capability effect \<Rightarrow> applicability composed capability facts = Some effect))
      | NegativeControlCase facts other \<Rightarrow>
          other \<noteq> i \<and> \<not> change_applies change facts \<and>
          list_ex (\<lambda>r. dr_id r = other \<and> change_applies (dr_change r) facts) (ls_deltas s))"

lemma passed_holds:
  assumes "control_held s i c control"
    "cv_passed (corpus_verdict_of \<lparr>cc_delta_id = i, cc_version = v, cc_change = change\<rparr> (definition_on s) control c largest_instruction_base)"
  shows "case_holds s i v change c"
  using assms
  by (cases c) (auto simp: case_holds_def judge_case_def Let_def control_held_def as_delta_def list_ex_iff
      split: delta_payload.splits)

text \<open>A verdict at the version of its row was computed on the change of that row, by a case that held.\<close>

lemma verdict_on_row:
  assumes "learn_inv s" "verdicts_traced s" "row \<in> set (ls_deltas s)" "w \<in> set (ls_corpus s)"
    "cv_delta_id w = dr_id row" "cv_version w = dr_version row"
  shows "verdict_from s w (dr_change row)"
proof -
  obtain r change where r: "r \<in> set (ls_deltas s)" "dr_id r = cv_delta_id w" "verdict_from s w change"
    "cv_version w = dr_version r \<longrightarrow> change = dr_change r"
    using assms(2,4) unfolding verdicts_traced_def by blast
  then have "r = row" using same_id[OF learn_invD(1)[OF assms(1)] r(1) assms(3)] assms(5) by simp
  then show ?thesis using r(3,4) assms(6) by simp
qed

lemma recorded_case:
  assumes "verdict_from s w change" "cv_passed w"
  shows "\<exists>s0 cases vs s1 c. learn_reachable s0 \<and> record_learning_corpus (cv_delta_id w) cases s0 = (Inr vs, s1) \<and> w \<in> set vs \<and>
    learn_step\<^sup>*\<^sup>* s1 s \<and> c \<in> set cases \<and> corpus_case_kind_of c = cv_kind w \<and> case_holds s0 (cv_delta_id w) (cv_version w) change c"
proof -
  obtain s0 cases vs s1 c control where *: "learn_reachable s0" "record_learning_corpus (cv_delta_id w) cases s0 = (Inr vs, s1)"
    "w \<in> set vs" "learn_step\<^sup>*\<^sup>* s1 s" "c \<in> set cases" "control_held s0 (cv_delta_id w) c control"
    and w: "w = corpus_verdict_of \<lparr>cc_delta_id = cv_delta_id w, cc_version = cv_version w, cc_change = change\<rparr>
      (definition_on s0) control c largest_instruction_base"
    using assms(1) unfolding verdict_from_def by blast
  have "case_holds s0 (cv_delta_id w) (cv_version w) change c"
    by (rule passed_holds[OF *(6)]) (use assms(2) w in simp)
  moreover have "corpus_case_kind_of c = cv_kind w" using arg_cong[OF w, of cv_kind] by simp
  ultimately show ?thesis using * by blast
qed

end
