(* ===== verification/Learning_Theorems.thy ===== *)
theory Learning_Theorems
  imports Learning_Provenance
begin

text \<open>
  What learned definitions guarantee: the size check is exact and keeps every assembled part within its
  bound, a delta is activated only as it was judged, and rebinding never makes two conclusions disagree.
\<close>

section \<open>Conclusions that meet\<close>

lemma can_both_applyI:
  "fact_holds a (facts_for_selection kind surfaces) \<Longrightarrow> fact_holds b (facts_for_selection kind surfaces) \<Longrightarrow> can_both_apply (Some a) (Some b)"
  by (cases a; cases b) (auto simp: facts_for_selection_def)

lemma can_both_apply_None [simp]: "can_both_apply None b" "can_both_apply a None"
  by (cases a; simp)+

lemma can_both_apply_sym: "can_both_apply a b = can_both_apply b a"
  by (induction a b rule: can_both_apply.induct) auto

lemma changes_meet:
  "change_applies c (facts_for_selection kind surfaces) \<Longrightarrow> change_applies d (facts_for_selection kind surfaces) \<Longrightarrow>
   can_both_apply (dc_when c) (dc_when d)"
  by (auto simp: change_applies_def intro: can_both_applyI split: option.splits)

lemma disagree_sym: "disagree a b = disagree b a"
  using can_both_apply_sym by (auto simp: disagree_def)

lemma first_disagreement_None:
  "first_disagreement cs = None \<Longrightarrow> a \<in> set cs \<Longrightarrow> b \<in> set cs \<Longrightarrow> \<not> disagree a b"
proof (induction cs)
  case (Cons c cs)
  have none: "\<forall>b\<in>set cs. \<not> disagree c b" "first_disagreement cs = None"
    using Cons.prems(1) by (auto simp: find_None_iff split: option.splits)
  have "\<not> disagree c c" by (simp add: disagree_def)
  then show ?case using Cons none disagree_sym by auto
qed simp

lemma binding_conflict_None: "binding_conflict placed subs = None \<Longrightarrow> subj \<in> set subs \<Longrightarrow> first_disagreement (conclusions_on placed subj) = None"
  by (induction subs) (auto split: option.splits)

text \<open>The conclusion that a row of the result stands for.\<close>

lemma conclusion_of_row:
  assumes "r \<in> set rows" "dc_payload (dr_change (rebound_row rules r)) = PayloadApplicability c e" "dr_state (rebound_row rules r) = DeltaActive"
  shows "\<exists>m. \<lparr>co_effect = e, co_moved = m, co_when = dc_when (dr_change (rebound_row rules r))\<rparr> \<in> set (conclusions_on (placed_bindings rules rows) c) \<and>
    (\<not> m \<longrightarrow> rebound_row rules r = r)" "c \<in> set (decided_subjects (placed_bindings rules rows))"
proof -
  obtain b where b: "stored_binding_of r = Some b" "sb_kind b = KindAction" "sb_decision b = Some e" "sb_state b = DeltaActive"
    "sb_applies_when b = dc_when (dr_change (rebound_row rules r))" "(case binding_target rules b of Some t \<Rightarrow> t | None \<Rightarrow> sb_subject b) = c"
    using assms(2,3)
    by (auto simp: rebound_row_def rebind_row_def rebound_change_def rebind_matches_def stored_binding_of_def
        split: delta_payload.splits option.splits condition_fact.splits if_splits identity_kind.splits)
  have mem: "(b, binding_target rules b) \<in> set (placed_bindings rules rows)"
    using assms(1) b(1) by (auto simp: placed_bindings_def List.map_filter_def intro!: image_eqI[of _ _ b] image_eqI[of _ _ r])
  have "rebound_row rules r = r" if "binding_target rules b = None" using that b(1) by (simp add: rebound_row_def)
  moreover have "\<lparr>co_effect = e, co_moved = (binding_target rules b \<noteq> None), co_when = dc_when (dr_change (rebound_row rules r))\<rparr>
      \<in> set (conclusions_on (placed_bindings rules rows) c)"
    unfolding conclusions_on_def set_concat set_map
    by (rule UnionI[OF imageI[OF imageI[OF mem]]]) (use b in simp)
  ultimately show "\<exists>m. \<lparr>co_effect = e, co_moved = m, co_when = dc_when (dr_change (rebound_row rules r))\<rparr> \<in> set (conclusions_on (placed_bindings rules rows) c) \<and>
    (\<not> m \<longrightarrow> rebound_row rules r = r)" by blast
  show "c \<in> set (decided_subjects (placed_bindings rules rows))"
    unfolding decided_subjects_def using mem b by (force intro: rev_image_eqI[OF _])
qed

section \<open>The properties\<close>

text \<open>
  The size that activation checks is exact: no purpose assembles a longer part, and some purpose
  assembles a part of just that length.
\<close>

theorem learned_size_exact:
  "(\<forall>purpose. length (instruction_part ds purpose base) \<le> max_instruction_bytes ds base) \<and>
   (\<exists>purpose. length (instruction_part ds purpose base) = max_instruction_bytes ds base)"
  using max_instruction_bytes_exact by blast

text \<open>
  C35. Whatever was recorded, judged, activated, rolled back and rebound, a request part assembled for any
  purpose on a base no longer than the largest one stays within the bound, apart from the bytes of the
  instruction files that are put between the base and the learned text.
\<close>

theorem learned_part_fits:
  assumes "learn_reachable s" "length base \<le> length largest_instruction_base"
  shows "length (assemble_instructions files (definition_on s) purpose base) \<le>
    definition_max_bytes + sum_list (map (\<lambda>entry. Suc (length entry)) files)"
proof -
  have "length (instruction_part (definition_on s) purpose base) \<le> definition_max_bytes"
    using max_instruction_bytes_mono[OF assms(2)] learn_invD(4)[OF learn_reachable_inv[OF assms(1)]]
    unfolding definition_size_on_def by (rule le_trans)
  then show ?thesis by (simp add: assemble_instructions_def length_instruction_part length_concat comp_def)
qed

text \<open>
  C14. A delta is activated only as it was judged. The row it moves is inactive at the pinned version, and for
  each of the three kinds of case (transfer, composition, negative control) the corpus holds a passed
  verdict on this delta at this very version. Each was written by a recording of the corpus on an earlier
  reachable store, on a case of that kind which held there of the change the row carries now: a transfer
  case applies to its facts; a composition case fits the bound together with the definition then in force,
  which decides as the change says; a negative control applies to a delta recorded there under another id
  and not to this one. The definition returned is the one now stored, with the change in it.
\<close>

theorem activation_was_judged:
  assumes "learn_reachable s" "activate_learning_delta i v s = (Inr ds, s')"
  shows "ds = definition_on s' \<and>
    (\<exists>row\<in>set (ls_deltas s). dr_id row = i \<and> dr_state row = DeltaInactive \<and> dr_version row = v \<and>
       \<lparr>ld_id = i, ld_version = v + 1, ld_change = dr_change row\<rparr> \<in> set ds \<and>
       (\<forall>k. \<exists>w\<in>set (corpus_on s i). cv_version w = v \<and> cv_kind w = k \<and> cv_passed w \<and>
          (\<exists>s0 cases vs s1 c. learn_reachable s0 \<and> record_learning_corpus i cases s0 = (Inr vs, s1) \<and> w \<in> set vs \<and>
             learn_step\<^sup>*\<^sup>* s1 s \<and> c \<in> set cases \<and> corpus_case_kind_of c = k \<and> case_holds s0 i v (dr_change row) c)))"
proof -
  have inv: "learn_inv s" by (rule learn_reachable_inv[OF assms(1)])
  obtain row where row: "row \<in> set (ls_deltas s)" "dr_id row = i" "dr_state row = DeltaInactive" "dr_version row = v"
    and judged: "\<And>k. \<exists>w\<in>set (corpus_on s i). cv_version w = v \<and> cv_kind w = k \<and> cv_passed w"
    and s': "s' = s\<lparr>ls_deltas := map (move_state i DeltaInactive v DeltaActive) (ls_deltas s)\<rparr>" "ds = definition_on s'"
    using activation_found[OF assms(2)] by metis
  have "as_delta (move_state i DeltaInactive v DeltaActive row) \<in> set ds"
    using row by (auto simp: s' definition_on_def move_state_def intro!: imageI)
  then have "\<lparr>ld_id = i, ld_version = v + 1, ld_change = dr_change row\<rparr> \<in> set ds"
    using row by (simp add: move_state_def as_delta_def)
  moreover have "\<exists>w\<in>set (corpus_on s i). cv_version w = v \<and> cv_kind w = k \<and> cv_passed w \<and>
      (\<exists>s0 cases vs s1 c. learn_reachable s0 \<and> record_learning_corpus i cases s0 = (Inr vs, s1) \<and> w \<in> set vs \<and>
         learn_step\<^sup>*\<^sup>* s1 s \<and> c \<in> set cases \<and> corpus_case_kind_of c = k \<and> case_holds s0 i v (dr_change row) c)" for k
  proof -
    obtain w where w: "w \<in> set (corpus_on s i)" "cv_version w = v" "cv_kind w = k" "cv_passed w" using judged by blast
    then have "w \<in> set (ls_corpus s)" "cv_delta_id w = i" by (auto simp: corpus_on_def Let_def)
    then have "verdict_from s w (dr_change row)"
      using row w(2) by (intro verdict_on_row[OF inv reachable_traced[OF assms(1)]]) simp_all
    note recorded_case[OF this w(4), unfolded \<open>cv_delta_id w = i\<close> w(2,3)]
    then show ?thesis using w by blast
  qed
  ultimately show ?thesis using s'(2) row by blast
qed

text \<open>
  No delta without a condition is ever in force: every active delta names the fact it needs, although
  an instruction without a condition can be recorded. Its negative control cannot pass.
\<close>

theorem active_is_conditional:
  assumes "learn_reachable s" "d \<in> set (definition_on s)"
  shows "dc_when (ld_change d) \<noteq> None"
proof -
  obtain r where r: "r \<in> set (ls_deltas s)" "dr_state r = DeltaActive" "d = as_delta r"
    using assms(2) by (auto simp: definition_on_def)
  then show ?thesis
    using learn_invD(2)[OF learn_reachable_inv[OF assms(1)] r(1)] by (auto simp: as_delta_def row_learned_ok_def)
qed

text \<open>
  C15. A rebinding pass never makes two conclusions disagree: a row that the pass moved (or that it changed in
  any way) decides its capability like every active row that decides the same capability and applies to a
  common request.
\<close>

theorem rebind_keeps_agreement:
  assumes "learn_reachable s" "rebind_learning_identities_on s = (Inr res, s')"
    "r1 \<in> set (ls_deltas s')" "r2 \<in> set (ls_deltas s')" "dr_state r1 = DeltaActive" "dr_state r2 = DeltaActive"
    "dc_payload (dr_change r1) = PayloadApplicability c e1" "dc_payload (dr_change r2) = PayloadApplicability c e2"
    "change_applies (dr_change r1) (facts_for_selection kind surfaces)" "change_applies (dr_change r2) (facts_for_selection kind surfaces)"
    "r1 \<notin> set (ls_deltas s)"
  shows "e1 = e2"
proof -
  obtain rules where s': "s' = s\<lparr>ls_deltas := map (rebound_row rules) (ls_deltas s)\<rparr>"
    and none: "binding_conflict (placed_bindings rules (ls_deltas s)) (decided_subjects (placed_bindings rules (ls_deltas s))) = None"
    using rebind_exact[OF learn_invD(1)[OF learn_reachable_inv[OF assms(1)]] assms(2)] by metis
  obtain x1 x2 where x: "x1 \<in> set (ls_deltas s)" "r1 = rebound_row rules x1" "x2 \<in> set (ls_deltas s)" "r2 = rebound_row rules x2"
    using assms(3,4) by (auto simp: s')
  let ?p = "placed_bindings rules (ls_deltas s)"
  obtain m1 where m1: "\<lparr>co_effect = e1, co_moved = m1, co_when = dc_when (dr_change r1)\<rparr> \<in> set (conclusions_on ?p c)" "\<not> m1 \<longrightarrow> r1 = x1"
    using conclusion_of_row(1)[OF x(1)] assms(5,7) x(2) by blast
  obtain m2 where m2: "\<lparr>co_effect = e2, co_moved = m2, co_when = dc_when (dr_change r2)\<rparr> \<in> set (conclusions_on ?p c)" "\<not> m2 \<longrightarrow> r2 = x2"
    using conclusion_of_row(1)[OF x(3)] assms(6,8) x(4) by blast
  have "c \<in> set (decided_subjects ?p)" using conclusion_of_row(2)[OF x(1)] assms(5,7) x(2) by blast
  then have "\<not> disagree \<lparr>co_effect = e1, co_moved = m1, co_when = dc_when (dr_change r1)\<rparr> \<lparr>co_effect = e2, co_moved = m2, co_when = dc_when (dr_change r2)\<rparr>"
    using first_disagreement_None[OF binding_conflict_None[OF none] m1(1) m2(1)] by simp
  moreover have m1 using m1(2) x(1) assms(11) by auto
  ultimately show "e1 = e2" using changes_meet[OF assms(9,10)] by (auto simp: disagree_def)
qed

section \<open>Witnesses\<close>

text \<open>
  A store that learned: a control delta is recorded, then a candidate that is judged on three cases and
  activated.
\<close>

definition demo_change :: "request_kind \<Rightarrow> predicate_effect \<Rightarrow> delta_change" where
  "demo_change kind effect = \<lparr>dc_payload = PayloadApplicability ''audit_tests'' effect, dc_when = Some (FactKind kind)\<rparr>"

definition demo_candidate :: "string \<Rightarrow> request_kind \<Rightarrow> predicate_effect \<Rightarrow> delta_candidate" where
  "demo_candidate i kind effect = \<lparr>cn_delta_id = i, cn_base_version = 1, cn_change = demo_change kind effect, cn_evidence = ''e''\<rparr>"

definition demo_facts :: "request_kind \<Rightarrow> condition_facts" where
  "demo_facts kind = facts_for_selection kind None"

definition demo_cases :: "corpus_case list" where
  "demo_cases = [TransferCase (demo_facts KindAudit), CompositionCase (demo_facts KindAudit),
     NegativeControlCase (demo_facts KindChange) ''c'']"

definition demo_delta :: "string \<Rightarrow> request_kind \<Rightarrow> predicate_effect \<Rightarrow> delta_record" where
  "demo_delta i kind effect = candidate_row (demo_candidate i kind effect)"

abbreviation demo_deltas :: "delta_record list" where
  "demo_deltas \<equiv> [demo_delta ''c'' KindChange EffectDecline, demo_delta ''d'' KindAudit EffectRequire]"

definition demo_learning :: "delta_record list \<Rightarrow> corpus_verdict list \<Rightarrow> learning_store" where
  "demo_learning rows verdicts = \<lparr>ls_deltas = rows, ls_corpus = verdicts, ls_rules = [], ls_base = 1\<rparr>"

definition demo_verdict :: "corpus_case \<Rightarrow> corpus_verdict" where
  "demo_verdict c = corpus_verdict_of \<lparr>cc_delta_id = ''d'', cc_version = 1, cc_change = demo_change KindAudit EffectRequire\<rparr> []
     (if corpus_case_kind_of c = CaseNegativeControl then Some (as_delta (demo_delta ''c'' KindChange EffectDecline)) else None) c
     largest_instruction_base"

definition demo_verdicts :: "corpus_verdict list" where
  "demo_verdicts = map demo_verdict demo_cases"

lemma demo_learning_sel [simp]:
  "ls_deltas (demo_learning rows vs) = rows" "ls_corpus (demo_learning rows vs) = vs" "ls_rules (demo_learning rows vs) = []"
  "ls_base (demo_learning rows vs) = 1" "(demo_learning rows vs)\<lparr>ls_corpus := vs'\<rparr> = demo_learning rows vs'"
  "(demo_learning rows vs)\<lparr>ls_deltas := rows'\<rparr> = demo_learning rows' vs"
  by (simp_all add: demo_learning_def)

lemma demo_candidate_sel [simp]: "cn_delta_id (demo_candidate i k e) = i" "cn_base_version (demo_candidate i k e) = 1"
  by (simp_all add: demo_candidate_def)

lemma demo_delta_sel [simp]: "dr_id (demo_delta i k e) = i" "dr_state (demo_delta i k e) = DeltaInactive" "dr_version (demo_delta i k e) = 1"
  "dr_change (demo_delta i k e) = demo_change k e"
  by (simp_all add: demo_delta_def candidate_row_def demo_candidate_def)

lemma demo_valid: "candidate_validate (demo_candidate i kind effect) = Inr ()"
  by (simp add: candidate_validate_def change_validate_def demo_candidate_def demo_change_def weighed_capability_def
      selection_capabilities_def is_blank_def blank_bytes.simps[of "[_]"] byte_val_def carries_credential_reference_def
      to_ascii_lowercase_def ascii_lower_def starts_with_def)

lemma demo_record1:
  "record_learning_delta (demo_candidate ''c'' KindChange EffectDecline) (demo_learning [] []) =
     (Inr (demo_delta ''c'' KindChange EffectDecline), demo_learning [demo_delta ''c'' KindChange EffectDecline] [])"
  by (simp add: record_learning_delta_def demo_valid stored_version_def delta_record_on_def
      prune_learning_candidates_def learning_delta_of_def learning_delta_retention_def demo_delta_def[symmetric])

lemma demo_record2:
  "record_learning_delta (demo_candidate ''d'' KindAudit EffectRequire) (demo_learning [demo_delta ''c'' KindChange EffectDecline] []) =
     (Inr (demo_delta ''d'' KindAudit EffectRequire), demo_learning demo_deltas [])"
  by (simp add: record_learning_delta_def demo_valid stored_version_def delta_record_on_def
      prune_learning_candidates_def learning_delta_of_def learning_delta_retention_def demo_delta_def[symmetric])

lemma demo_definition: "definition_on (demo_learning demo_deltas vs) = []"
  by (simp add: definition_on_def)

lemma demo_corpus:
  "\<exists>vs. record_learning_corpus ''d'' demo_cases (demo_learning demo_deltas []) = (Inr vs, demo_learning demo_deltas demo_verdicts)"
proof -
  have found: "delta_record_on (demo_learning demo_deltas []) ''d'' = Some (demo_delta ''d'' KindAudit EffectRequire)"
    "delta_record_on (demo_learning demo_deltas []) ''c'' = Some (demo_delta ''c'' KindChange EffectDecline)"
    by (simp_all add: delta_record_on_def)
  have "insert_verdicts \<lparr>cc_delta_id = ''d'', cc_version = 1, cc_change = demo_change KindAudit EffectRequire\<rparr> []
      (zip demo_cases [None, None, Some (as_delta (demo_delta ''c'' KindChange EffectDecline))]) [] = Inr demo_verdicts"
    by (simp add: demo_cases_def demo_verdicts_def demo_verdict_def Let_def stored_version_def upsert_verdict_def)
  moreover have "gather_controls (demo_learning demo_deltas []) ''d'' demo_cases = Inr [None, None, Some (as_delta (demo_delta ''c'' KindChange EffectDecline))]"
    by (simp add: demo_cases_def found)
  moreover have "first_duplicate_kind [] demo_cases = None" "length demo_cases = 3" by (simp_all add: demo_cases_def)
  ultimately show ?thesis
    using found by (simp add: record_learning_corpus_def learning_delta_of_def corpus_case_limit_def demo_definition Let_def)
qed

lemma demo_verdict_sel:
  "cv_delta_id (demo_verdict c) = ''d''" "cv_version (demo_verdict c) = 1" "cv_kind (demo_verdict c) = corpus_case_kind_of c"
  by (simp_all add: demo_verdict_def)

lemma demo_passed: "c \<in> set demo_cases \<Longrightarrow> cv_passed (demo_verdict c)"
  using largest_base_length
  by (auto simp: demo_verdict_def demo_cases_def judge_case_def Let_def demo_facts_def facts_for_selection_def change_applies_def
      demo_change_def composed_with_def applicability_def max_instruction_bytes_def appended_bytes_def change_instruction_def as_delta_def)

definition demo_active :: delta_record where
  "demo_active = (demo_delta ''d'' KindAudit EffectRequire)\<lparr>dr_state := DeltaActive, dr_version := 2\<rparr>"

abbreviation demo_learned :: learning_store where
  "demo_learned \<equiv> demo_learning [demo_delta ''c'' KindChange EffectDecline, demo_active] demo_verdicts"

lemma demo_activate: "\<exists>ds. activate_learning_delta ''d'' 1 (demo_learning demo_deltas demo_verdicts) = (Inr ds, demo_learned)"
proof -
  let ?s = "demo_learning demo_deltas demo_verdicts"
  have "require_corpus ''d'' 1 (corpus_on ?s ''d'') = Inr ()"
    using demo_passed by (simp add: require_corpus_def corpus_on_def demo_verdicts_def demo_cases_def demo_verdict_sel)
  moreover have "delta_record_on ?s ''d'' = Some (demo_delta ''d'' KindAudit EffectRequire)" "pinned ''d'' DeltaInactive 1 ?s"
    by (simp_all add: delta_record_on_def pinned_def)
  moreover have "map (move_state ''d'' DeltaInactive 1 DeltaActive) demo_deltas = [demo_delta ''c'' KindChange EffectDecline, demo_active]"
    by (simp add: move_state_def demo_active_def)
  moreover have "definition_size_on demo_learned \<le> definition_max_bytes"
    using largest_base_length
    by (simp add: definition_size_on_def definition_on_def demo_active_def as_delta_def demo_change_def max_instruction_bytes_def
        appended_bytes_def change_instruction_def)
  ultimately show ?thesis by (simp add: activate_learning_delta_def stored_version_def Let_def)
qed

lemma demo_learn_reachable: "learn_reachable (demo_learning demo_deltas demo_verdicts)" "learn_reachable demo_learned"
proof -
  obtain vs where vs: "record_learning_corpus ''d'' demo_cases (demo_learning demo_deltas []) = (Inr vs, demo_learning demo_deltas demo_verdicts)"
    using demo_corpus by blast
  have "learn_reachable (demo_learning [] [])" by (rule learn_reachable_initial) (simp add: learn_initial_def)
  then have "learn_reachable (demo_learning [demo_delta ''c'' KindChange EffectDecline] [])"
    by (rule learn_reachable_step) (rule ln_record[OF demo_record1])
  then have "learn_reachable (demo_learning demo_deltas [])" by (rule learn_reachable_step) (rule ln_record[OF demo_record2])
  then show one: "learn_reachable (demo_learning demo_deltas demo_verdicts)" by (rule learn_reachable_step) (rule ln_corpus[OF vs])
  obtain ds where "activate_learning_delta ''d'' 1 (demo_learning demo_deltas demo_verdicts) = (Inr ds, demo_learned)"
    using demo_activate by blast
  from ln_activate[OF this] show "learn_reachable demo_learned" by (rule learn_reachable_step[OF one])
qed

theorem learned_part_fits_witness:
  "learn_reachable demo_learned \<and> length (assemble_instructions [] (definition_on demo_learned) ''p'' mandatory_instructions) \<le> definition_max_bytes"
proof -
  have "length mandatory_instructions \<le> length largest_instruction_base" by (simp add: largest_instruction_base_def)
  from learned_part_fits[OF demo_learn_reachable(2) this, of "[]" "''p''"] demo_learn_reachable(2) show ?thesis by simp
qed

theorem activation_was_judged_witness:
  "\<exists>ds. activate_learning_delta ''d'' 1 (demo_learning demo_deltas demo_verdicts) = (Inr ds, demo_learned) \<and> ds = definition_on demo_learned \<and>
     (\<exists>w\<in>set (corpus_on (demo_learning demo_deltas demo_verdicts) ''d''). cv_version w = 1 \<and> cv_kind w = CaseTransfer \<and> cv_passed w)"
proof -
  obtain ds where act: "activate_learning_delta ''d'' 1 (demo_learning demo_deltas demo_verdicts) = (Inr ds, demo_learned)"
    using demo_activate by blast
  from activation_was_judged[OF demo_learn_reachable(1) act] act show ?thesis by blast
qed

theorem active_is_conditional_witness:
  "as_delta demo_active \<in> set (definition_on demo_learned) \<and> dc_when (ld_change (as_delta demo_active)) \<noteq> None"
proof -
  have "as_delta demo_active \<in> set (definition_on demo_learned)" by (simp add: definition_on_def demo_active_def)
  with active_is_conditional[OF demo_learn_reachable(2) this] show ?thesis by blast
qed

text \<open>A release renames the capability: the rule is recorded and the pass moves both rows.\<close>

definition demo_rule :: identity_migration where
  "demo_rule = \<lparr>im_base_version = 1, im_kind = KindAction, im_old_id = ''audit_tests'', im_new_id = ''review_change'',
     im_rule = RuleRename, im_subject = None\<rparr>"

definition demo_moved :: "delta_record \<Rightarrow> predicate_effect \<Rightarrow> delta_record" where
  "demo_moved r effect = r\<lparr>dr_change := (dr_change r)\<lparr>dc_payload := PayloadApplicability ''review_change'' effect\<rparr>, dr_version := dr_version r + 1\<rparr>"

lemma demo_rules: "identity_rules_new 1 [demo_rule] = Inr \<lparr>ir_base_version = 1, ir_migrations = [demo_rule]\<rparr>"
proof -
  have "\<not> claims_personal_namespace ''audit_tests''" "\<not> claims_personal_namespace ''review_change''"
    by (simp_all add: claims_personal_namespace_def)
  moreover have "\<not> is_blank ''audit_tests''" "\<not> is_blank ''review_change''"
    by (simp_all add: is_blank_def blank_bytes.simps byte_val_def)
  ultimately show ?thesis
    by (simp add: identity_rules_new_def migration_validate_def demo_rule_def weighed_capability_def selection_capabilities_def)
qed

lemma demo_record_rule: "record_migration_on demo_rule 1 demo_learned = (Inr demo_rule, demo_learned\<lparr>ls_rules := [demo_rule]\<rparr>)"
  using demo_rules
  by (simp add: record_migration_on_def identity_migrations_on_def insert_rule_def same_rule_key_def demo_rule_def[THEN arg_cong[where f = im_base_version]])

lemma demo_rebind:
  "\<exists>res. rebind_learning_identities_on (demo_learned\<lparr>ls_rules := [demo_rule]\<rparr>) =
     (Inr res, demo_learned\<lparr>ls_rules := [demo_rule], ls_deltas := [demo_moved (demo_delta ''c'' KindChange EffectDecline) EffectDecline, demo_moved demo_active EffectRequire]\<rparr>)"
proof -
  let ?s = "demo_learned\<lparr>ls_rules := [demo_rule]\<rparr>"
  let ?rules = "\<lparr>ir_base_version = Suc 0, ir_migrations = [demo_rule]\<rparr>"
  let ?b = "\<lambda>i st k e. \<lparr>sb_delta_id = i, sb_kind = KindAction, sb_subject = ''audit_tests'', sb_state = st, sb_applies_when = Some (FactKind k), sb_decision = Some e\<rparr>"
  have bind: "stored_binding_of (demo_delta ''c'' KindChange EffectDecline) = Some (?b ''c'' DeltaInactive KindChange EffectDecline)"
    "stored_binding_of demo_active = Some (?b ''d'' DeltaActive KindAudit EffectRequire)"
    by (simp_all add: stored_binding_of_def demo_active_def demo_change_def)
  have target: "binding_target ?rules (?b i st k e) = Some ''review_change''" for i st k e
    by (simp add: binding_target_def place_def demo_rule_def)
  have placed: "placed_bindings ?rules [demo_delta ''c'' KindChange EffectDecline, demo_active] =
      [(?b ''c'' DeltaInactive KindChange EffectDecline, Some ''review_change''), (?b ''d'' DeltaActive KindAudit EffectRequire, Some ''review_change'')]"
    by (simp add: placed_bindings_def List.map_filter_simps bind target)
  have "decided_subjects (placed_bindings ?rules [demo_delta ''c'' KindChange EffectDecline, demo_active]) = [''review_change'']"
    by (simp add: placed decided_subjects_def)
  moreover have "conclusions_on (placed_bindings ?rules [demo_delta ''c'' KindChange EffectDecline, demo_active]) ''review_change'' =
      [\<lparr>co_effect = EffectRequire, co_moved = True, co_when = Some (FactKind KindAudit)\<rparr>]"
    by (simp add: placed conclusions_on_def)
  moreover have "rebound_row ?rules (demo_delta ''c'' KindChange EffectDecline) = demo_moved (demo_delta ''c'' KindChange EffectDecline) EffectDecline"
    "rebound_row ?rules demo_active = demo_moved demo_active EffectRequire"
    using bind target
    by (simp_all add: rebound_row_def rebind_row_def rebind_matches_def rebound_change_def demo_moved_def demo_active_def demo_change_def)
  moreover obtain moved where "rebind_rows (placed_bindings ?rules (ls_deltas ?s)) (ls_deltas ?s) = Inr (moved, map (rebound_row ?rules) (ls_deltas ?s))"
    using rebind_rows_map[of "[]" "ls_deltas ?s" ?rules] by (auto simp: demo_active_def)
  moreover have "definition_size_on (demo_learned\<lparr>ls_rules := [demo_rule], ls_deltas := [demo_moved (demo_delta ''c'' KindChange EffectDecline) EffectDecline,
      demo_moved demo_active EffectRequire]\<rparr>) \<le> definition_max_bytes"
    using largest_base_length
    by (simp add: definition_size_on_def definition_on_def demo_moved_def demo_active_def as_delta_def max_instruction_bytes_def
        appended_bytes_def change_instruction_def)
  ultimately show ?thesis
    using demo_rules by (simp add: rebind_learning_identities_on_def identity_migrations_on_def Let_def demo_rule_def[THEN arg_cong[where f = im_base_version]])
qed

theorem rebind_keeps_agreement_witness:
  "\<exists>res s'. rebind_learning_identities_on (demo_learned\<lparr>ls_rules := [demo_rule]\<rparr>) = (Inr res, s') \<and>
     demo_moved demo_active EffectRequire \<in> set (ls_deltas s') \<and>
     dc_payload (dr_change (demo_moved demo_active EffectRequire)) = PayloadApplicability ''review_change'' EffectRequire"
proof -
  let ?s' = "demo_learned\<lparr>ls_rules := [demo_rule], ls_deltas := [demo_moved (demo_delta ''c'' KindChange EffectDecline) EffectDecline, demo_moved demo_active EffectRequire]\<rparr>"
  let ?r = "demo_moved demo_active EffectRequire"
  obtain res where re: "rebind_learning_identities_on (demo_learned\<lparr>ls_rules := [demo_rule]\<rparr>) = (Inr res, ?s')" using demo_rebind by blast
  have reach: "learn_reachable (demo_learned\<lparr>ls_rules := [demo_rule]\<rparr>)"
    by (rule learn_reachable_step[OF demo_learn_reachable(2) ln_rule[OF demo_record_rule]])
  have r: "?r \<in> set (ls_deltas ?s')" "dr_state ?r = DeltaActive" "dc_payload (dr_change ?r) = PayloadApplicability ''review_change'' EffectRequire"
    "change_applies (dr_change ?r) (facts_for_selection KindAudit None)" "?r \<notin> set (ls_deltas (demo_learned\<lparr>ls_rules := [demo_rule]\<rparr>))"
    by (simp_all add: demo_moved_def demo_active_def demo_change_def change_applies_def facts_for_selection_def demo_delta_def candidate_row_def demo_candidate_def)
  from rebind_keeps_agreement[OF reach re r(1) r(1) r(2) r(2) r(3) r(3) r(4) r(4) r(5)] re r(1,3) show ?thesis by blast
qed

end
