(* ===== verification/Feedback.thy ===== *)
theory Feedback
  imports Learning
begin

text \<open>
  Routing feedback: the rows of \<open>src/src/learning.rs\<close> (outcome, cause, verdict and reward of an attempt, the
  version evidence it ran on) with their validation, and the append-only table of
  \<open>src/src/state/learning.rs\<close>. A stored row keeps the columns as text; the closed vocabularies are parsed
  when it is read. The evidence column is JSON text: the serializer and the parser are the arguments
  \<open>to_json\<close> and \<open>of_json\<close>.
\<close>

section \<open>Rows\<close>

datatype feedback_cause = CauseNone | CauseSdk | CauseDocs | CauseSetup | CauseRepair

fun feedback_cause_as_str :: "feedback_cause \<Rightarrow> string" where
  "feedback_cause_as_str CauseNone = ''none''"
| "feedback_cause_as_str CauseSdk = ''sdk''"
| "feedback_cause_as_str CauseDocs = ''docs''"
| "feedback_cause_as_str CauseSetup = ''setup''"
| "feedback_cause_as_str CauseRepair = ''repair''"

definition feedback_cause_parse :: "string \<Rightarrow> feedback_cause option" where
  "feedback_cause_parse raw =
     find (\<lambda>c. feedback_cause_as_str c = raw) [CauseNone, CauseSdk, CauseDocs, CauseSetup, CauseRepair]"

datatype feedback_outcome = OutcomePass | OutcomeFail | OutcomeUnknown

fun feedback_outcome_as_str :: "feedback_outcome \<Rightarrow> string" where
  "feedback_outcome_as_str OutcomePass = ''pass''"
| "feedback_outcome_as_str OutcomeFail = ''fail''"
| "feedback_outcome_as_str OutcomeUnknown = ''unknown''"

definition feedback_outcome_parse :: "string \<Rightarrow> feedback_outcome option" where
  "feedback_outcome_parse raw = find (\<lambda>c. feedback_outcome_as_str c = raw) [OutcomePass, OutcomeFail, OutcomeUnknown]"

datatype feedback_verdict = VerdictPass | VerdictFail | VerdictUnobserved

fun feedback_verdict_as_str :: "feedback_verdict \<Rightarrow> string" where
  "feedback_verdict_as_str VerdictPass = ''pass''"
| "feedback_verdict_as_str VerdictFail = ''fail''"
| "feedback_verdict_as_str VerdictUnobserved = ''unobserved''"

definition feedback_verdict_parse :: "string \<Rightarrow> feedback_verdict option" where
  "feedback_verdict_parse raw = find (\<lambda>c. feedback_verdict_as_str c = raw) [VerdictPass, VerdictFail, VerdictUnobserved]"

datatype feedback_reward = RewardNone | RewardRepair

fun feedback_reward_as_str :: "feedback_reward \<Rightarrow> string" where
  "feedback_reward_as_str RewardNone = ''none''"
| "feedback_reward_as_str RewardRepair = ''repair''"

definition feedback_reward_parse :: "string \<Rightarrow> feedback_reward option" where
  "feedback_reward_parse raw = find (\<lambda>c. feedback_reward_as_str c = raw) [RewardNone, RewardRepair]"

record version_evidence =
  ve_build :: string
  ve_policy_generation :: "string option"
  ve_base_version :: "nat option"
  ve_model :: "string option"
  ve_connection :: "string option"

definition evidence_fields :: "version_evidence \<Rightarrow> string list" where
  "evidence_fields e = List.map_filter id [Some (ve_build e), ve_policy_generation e, ve_model e, ve_connection e]"

definition evidence_validate :: "string \<Rightarrow> version_evidence \<Rightarrow> delta_error + unit" where
  "evidence_validate attempt_id e =
     (if is_blank (ve_build e) then Inl (FeedbackEmptyField attempt_id ''version evidence build'')
      else if list_ex carries_credential_reference (evidence_fields e) then Inl (FeedbackCredentialReference attempt_id)
      else Inr ())"

record feedback_record =
  fb_attempt_id :: string
  fb_parent_attempt_id :: "string option"
  fb_purpose :: string
  fb_connection :: string
  fb_model_id :: "string option"
  fb_outcome :: feedback_outcome
  fb_cause :: feedback_cause
  fb_version_evidence :: version_evidence
  fb_repair_of :: "string option"
  fb_verdict :: feedback_verdict
  fb_reward :: feedback_reward
  fb_observed :: bool

definition feedback_validate :: "feedback_record \<Rightarrow> delta_error + unit" where
  "feedback_validate r =
     (let attempt_id = fb_attempt_id r;
          mismatch = FeedbackObservationMismatch attempt_id (if fb_observed r then ''observed'' else ''unobserved'')
            (feedback_verdict_as_str (fb_verdict r));
          repair = (fb_reward r = RewardRepair); attributed = (fb_repair_of r \<noteq> None) in
      if is_blank attempt_id then Inl FeedbackEmptyAttempt
      else if is_blank (fb_purpose r) then Inl (FeedbackEmptyField attempt_id ''purpose'')
      else if is_blank (fb_connection r) then Inl (FeedbackEmptyField attempt_id ''connection'')
      else
        (case evidence_validate attempt_id (fb_version_evidence r) of
           Inl e \<Rightarrow> Inl e
         | Inr _ \<Rightarrow>
             if fb_observed r = (fb_verdict r = VerdictUnobserved) then Inl mismatch
             else if \<not> fb_observed r \<and> fb_outcome r \<noteq> OutcomeUnknown
             then Inl (FeedbackUnobservedOutcome attempt_id (feedback_outcome_as_str (fb_outcome r)))
             else if repair \<noteq> attributed \<or> (fb_cause r = CauseRepair) \<noteq> attributed
             then Inl (FeedbackRepairAttribution attempt_id)
             else if fb_repair_of r = Some attempt_id then Inl (FeedbackRepairAttribution attempt_id)
             else if \<not> fb_observed r \<and> fb_reward r \<noteq> RewardNone then Inl mismatch
             else Inr ()))"

section \<open>The table\<close>

record stored_feedback =
  sf_attempt_id :: string
  sf_parent_attempt_id :: "string option"
  sf_purpose :: string
  sf_connection :: string
  sf_model_id :: "string option"
  sf_outcome :: string
  sf_cause :: string
  sf_version_evidence :: string
  sf_repair_of :: "string option"
  sf_verdict :: string
  sf_reward :: string
  sf_observed :: int

datatype feedback_error = FeedbackRefused delta_error | CorruptColumn string string | EvidenceNotWritten

definition feedback_into_record :: "(string \<Rightarrow> version_evidence option) \<Rightarrow> stored_feedback \<Rightarrow> feedback_error + feedback_record" where
  "feedback_into_record of_json row =
     (case feedback_outcome_parse (sf_outcome row) of
        None \<Rightarrow> Inl (CorruptColumn ''routing feedback outcome'' (sf_outcome row))
      | Some out \<Rightarrow>
     (case feedback_cause_parse (sf_cause row) of
        None \<Rightarrow> Inl (CorruptColumn ''routing feedback cause'' (sf_cause row))
      | Some cause \<Rightarrow>
     (case feedback_verdict_parse (sf_verdict row) of
        None \<Rightarrow> Inl (CorruptColumn ''routing feedback verdict'' (sf_verdict row))
      | Some verdict \<Rightarrow>
     (case feedback_reward_parse (sf_reward row) of
        None \<Rightarrow> Inl (CorruptColumn ''routing feedback reward'' (sf_reward row))
      | Some reward \<Rightarrow>
     (case of_json (sf_version_evidence row) of
        None \<Rightarrow> Inl (CorruptColumn ''routing feedback version evidence'' (sf_version_evidence row))
      | Some evidence \<Rightarrow>
          Inr \<lparr>fb_attempt_id = sf_attempt_id row, fb_parent_attempt_id = sf_parent_attempt_id row,
               fb_purpose = sf_purpose row, fb_connection = sf_connection row, fb_model_id = sf_model_id row,
               fb_outcome = out, fb_cause = cause, fb_version_evidence = evidence, fb_repair_of = sf_repair_of row,
               fb_verdict = verdict, fb_reward = reward, fb_observed = (sf_observed row \<noteq> 0)\<rparr>)))))"

definition feedback_on :: "(string \<Rightarrow> version_evidence option) \<Rightarrow> stored_feedback list \<Rightarrow> string \<Rightarrow> feedback_error + feedback_record option" where
  "feedback_on of_json rows attempt_id =
     (case find (\<lambda>row. sf_attempt_id row = attempt_id) rows of
        None \<Rightarrow> Inr None
      | Some row \<Rightarrow> map_sum id Some (feedback_into_record of_json row))"

definition feedback_of :: "(string \<Rightarrow> version_evidence option) \<Rightarrow> stored_feedback list \<Rightarrow> string \<Rightarrow> feedback_error + feedback_record" where
  "feedback_of of_json rows attempt_id =
     (case feedback_on of_json rows attempt_id of
        Inl e \<Rightarrow> Inl e
      | Inr None \<Rightarrow> Inl (FeedbackRefused (FeedbackMissing attempt_id))
      | Inr (Some r) \<Rightarrow> Inr r)"

fun read_rows :: "(string \<Rightarrow> version_evidence option) \<Rightarrow> stored_feedback list \<Rightarrow> feedback_error + feedback_record list" where
  "read_rows of_json [] = Inr []"
| "read_rows of_json (row # rows) =
     (case feedback_into_record of_json row of
        Inl e \<Rightarrow> Inl e
      | Inr r \<Rightarrow> map_sum id (\<lambda>rs. r # rs) (read_rows of_json rows))"

definition feedback_repairs :: "(string \<Rightarrow> version_evidence option) \<Rightarrow> stored_feedback list \<Rightarrow> string \<Rightarrow> feedback_error + feedback_record list" where
  "feedback_repairs of_json rows attempt_id = read_rows of_json (filter (\<lambda>row. sf_repair_of row = Some attempt_id) rows)"

definition feedback_row :: "feedback_record \<Rightarrow> string \<Rightarrow> stored_feedback" where
  "feedback_row r evidence =
     \<lparr>sf_attempt_id = fb_attempt_id r, sf_parent_attempt_id = fb_parent_attempt_id r, sf_purpose = fb_purpose r,
      sf_connection = fb_connection r, sf_model_id = fb_model_id r, sf_outcome = feedback_outcome_as_str (fb_outcome r),
      sf_cause = feedback_cause_as_str (fb_cause r), sf_version_evidence = evidence, sf_repair_of = fb_repair_of r,
      sf_verdict = feedback_verdict_as_str (fb_verdict r), sf_reward = feedback_reward_as_str (fb_reward r),
      sf_observed = (if fb_observed r then 1 else 0)\<rparr>"

definition record_feedback ::
  "(version_evidence \<Rightarrow> string option) \<Rightarrow> (string \<Rightarrow> version_evidence option) \<Rightarrow> feedback_record \<Rightarrow> stored_feedback list \<Rightarrow>
   (feedback_error + feedback_record) \<times> stored_feedback list" where
  "record_feedback to_json of_json r rows =
     (case feedback_validate r of
        Inl e \<Rightarrow> (Inl (FeedbackRefused e), rows)
      | Inr _ \<Rightarrow>
          (case to_json (fb_version_evidence r) of
             None \<Rightarrow> (Inl EvidenceNotWritten, rows)
           | Some evidence \<Rightarrow>
               if list_ex (\<lambda>row. sf_attempt_id row = fb_attempt_id r) rows
               then (Inl (FeedbackRefused (FeedbackAlreadyRecorded (fb_attempt_id r))), rows)
               else (let rows' = rows @ [feedback_row r evidence] in (feedback_of of_json rows' (fb_attempt_id r), rows'))))"

section \<open>Reading back\<close>

lemma closed_vocabularies [simp]:
  "feedback_outcome_parse (feedback_outcome_as_str a) = Some a" "feedback_cause_parse (feedback_cause_as_str b) = Some b"
  "feedback_verdict_parse (feedback_verdict_as_str c) = Some c" "feedback_reward_parse (feedback_reward_as_str d) = Some d"
proof -
  show "feedback_outcome_parse (feedback_outcome_as_str a) = Some a" by (cases a) (simp_all add: feedback_outcome_parse_def)
  show "feedback_cause_parse (feedback_cause_as_str b) = Some b" by (cases b) (simp_all add: feedback_cause_parse_def)
  show "feedback_verdict_parse (feedback_verdict_as_str c) = Some c" by (cases c) (simp_all add: feedback_verdict_parse_def)
  show "feedback_reward_parse (feedback_reward_as_str d) = Some d" by (cases d) (simp_all add: feedback_reward_parse_def)
qed

lemma feedback_row_reads: "of_json j = Some (fb_version_evidence r) \<Longrightarrow> feedback_into_record of_json (feedback_row r j) = Inr r"
  by (simp add: feedback_into_record_def feedback_row_def)

lemma record_feedback_rows:
  "snd (record_feedback to_json of_json r rows) = rows \<or>
   (\<exists>j. snd (record_feedback to_json of_json r rows) = rows @ [feedback_row r j] \<and> to_json (fb_version_evidence r) = Some j \<and>
      feedback_validate r = Inr () \<and> (\<forall>row\<in>set rows. sf_attempt_id row \<noteq> fb_attempt_id r))"
  by (auto simp: record_feedback_def Let_def list_ex_iff split: sum.splits option.splits)

lemma feedback_on_append: "feedback_on of_json rows i = Inr (Some r) \<Longrightarrow> feedback_on of_json (rows @ more_rows) i = Inr (Some r)"
  by (auto simp: feedback_on_def find_append split: option.splits)

text \<open>Any number of further attempts to record, accepted or refused.\<close>

definition record_all ::
  "(version_evidence \<Rightarrow> string option) \<Rightarrow> (string \<Rightarrow> version_evidence option) \<Rightarrow> feedback_record list \<Rightarrow> stored_feedback list \<Rightarrow>
   stored_feedback list" where
  "record_all to_json of_json rs rows = fold (\<lambda>r rows. snd (record_feedback to_json of_json r rows)) rs rows"

lemma record_all_extends: "\<exists>new. record_all to_json of_json rs rows = rows @ new"
proof (induction rs arbitrary: rows)
  case (Cons r rs)
  obtain new where "snd (record_feedback to_json of_json r rows) = rows @ new" using record_feedback_rows[of to_json of_json r rows] by auto
  then show ?case using Cons.IH[of "rows @ new"] by (auto simp: record_all_def)
qed (simp add: record_all_def)

definition feedback_honest :: "feedback_record \<Rightarrow> bool" where
  "feedback_honest r \<longleftrightarrow>
     (fb_observed r \<or> fb_outcome r = OutcomeUnknown \<and> fb_verdict r = VerdictUnobserved \<and> fb_reward r = RewardNone \<and> fb_repair_of r = None) \<and>
     (fb_reward r = RewardRepair \<longleftrightarrow> fb_repair_of r \<noteq> None) \<and> fb_repair_of r \<noteq> Some (fb_attempt_id r) \<and>
     list_all (\<lambda>t. \<not> carries_credential_reference t) (evidence_fields (fb_version_evidence r))"

lemma validate_honest: "feedback_validate r = Inr () \<Longrightarrow> feedback_honest r"
  by (auto simp: feedback_validate_def evidence_validate_def feedback_honest_def Let_def list_ex_iff list_all_iff
      split: if_splits sum.splits)

lemma record_all_rows:
  assumes "row \<in> set (record_all to_json of_json rs rows)"
  shows "row \<in> set rows \<or> (\<exists>r\<in>set rs. \<exists>j. row = feedback_row r j \<and> to_json (fb_version_evidence r) = Some j \<and> feedback_validate r = Inr ())"
  using assms
proof (induction rs arbitrary: rows)
  case (Cons r rs)
  from Cons.IH[of "snd (record_feedback to_json of_json r rows)"] Cons.prems record_feedback_rows[of to_json of_json r rows]
  show ?case by (auto simp: record_all_def)
qed (simp add: record_all_def)

section \<open>The properties\<close>

text \<open>
  Feedback is append-only: when the evidence is parsed back as it was written, an accepted row is
  answered and read back field by field as it was given, after whatever else is recorded, and a second row
  for the attempt is refused.
\<close>

theorem feedback_append_only:
  assumes "\<forall>e j. to_json e = Some j \<longrightarrow> of_json j = Some e" "record_feedback to_json of_json r rows = (Inr got, rows')"
  shows "got = r \<and> feedback_of of_json (record_all to_json of_json rs rows') (fb_attempt_id r) = Inr r \<and>
    (\<forall>r2. fb_attempt_id r2 = fb_attempt_id r \<longrightarrow>
       snd (record_feedback to_json of_json r2 (record_all to_json of_json rs rows')) = record_all to_json of_json rs rows')"
proof -
  obtain j where j: "to_json (fb_version_evidence r) = Some j" "rows' = rows @ [feedback_row r j]" "feedback_of of_json rows' (fb_attempt_id r) = Inr got"
    and fresh: "\<not> list_ex (\<lambda>row. sf_attempt_id row = fb_attempt_id r) rows"
    using assms(2) by (auto simp: record_feedback_def Let_def split: sum.splits option.splits if_splits)
  have id: "sf_attempt_id (feedback_row r j) = fb_attempt_id r" by (simp add: feedback_row_def)
  have "find (\<lambda>row. sf_attempt_id row = fb_attempt_id r) rows = None" using fresh by (simp add: find_None_iff list_ex_iff)
  then have on: "feedback_on of_json rows' (fb_attempt_id r) = Inr (Some r)"
    using assms(1) j(1) feedback_row_reads by (simp add: feedback_on_def j(2) find_append id)
  obtain new where new: "record_all to_json of_json rs rows' = rows' @ new" using record_all_extends by blast
  have "list_ex (\<lambda>row. sf_attempt_id row = fb_attempt_id r) (record_all to_json of_json rs rows')" unfolding new by (simp add: j(2) id)
  then show ?thesis
    using j(3) on feedback_on_append[OF on, of new]
    by (auto simp: feedback_of_def new record_feedback_def split: sum.splits option.splits)
qed

text \<open>
  No row claims what it did not observe: after any sequence of recordings from an empty table, every row
  reads back as a record whose evidence carries no credential reference, which claims neither an outcome nor
  a reward unless it was observed, and which takes the reward of a repair only when it names another attempt
  as repaired.
\<close>

theorem feedback_rows_honest:
  assumes "\<forall>e j. to_json e = Some j \<longrightarrow> of_json j = Some e" "row \<in> set (record_all to_json of_json rs [])"
  shows "\<exists>r\<in>set rs. feedback_into_record of_json row = Inr r \<and> feedback_honest r"
  using record_all_rows[OF assms(2)] assms(1) feedback_row_reads validate_honest by fastforce

section \<open>Witnesses\<close>

definition demo_evidence :: version_evidence where
  "demo_evidence = \<lparr>ve_build = ''b'', ve_policy_generation = None, ve_base_version = None, ve_model = None, ve_connection = None\<rparr>"

definition demo_feedback :: feedback_record where
  "demo_feedback = \<lparr>fb_attempt_id = ''a'', fb_parent_attempt_id = None, fb_purpose = ''p'', fb_connection = ''c'', fb_model_id = None,
     fb_outcome = OutcomePass, fb_cause = CauseRepair, fb_version_evidence = demo_evidence, fb_repair_of = Some ''z'',
     fb_verdict = VerdictPass, fb_reward = RewardRepair, fb_observed = True\<rparr>"

definition demo_to_json :: "version_evidence \<Rightarrow> string option" where
  "demo_to_json e = (if e = demo_evidence then Some ''{}'' else None)"

definition demo_of_json :: "string \<Rightarrow> version_evidence option" where
  "demo_of_json j = Some demo_evidence"

lemma demo_codec: "\<forall>e j. demo_to_json e = Some j \<longrightarrow> demo_of_json j = Some e"
  by (simp add: demo_to_json_def demo_of_json_def)

lemma demo_feedback_valid: "feedback_validate demo_feedback = Inr ()"
  by (simp add: feedback_validate_def evidence_validate_def demo_feedback_def demo_evidence_def is_blank_def blank_bytes.simps[of "[_]"]
      byte_val_def carries_credential_reference_def to_ascii_lowercase_def ascii_lower_def starts_with_def evidence_fields_def
      List.map_filter_simps)

lemma demo_recorded: "record_feedback demo_to_json demo_of_json demo_feedback [] = (Inr demo_feedback, [feedback_row demo_feedback ''{}''])"
proof -
  have "feedback_into_record demo_of_json (feedback_row demo_feedback ''{}'') = Inr demo_feedback"
    by (rule feedback_row_reads) (simp add: demo_of_json_def demo_feedback_def)
  moreover have "sf_attempt_id (feedback_row demo_feedback ''{}'') = fb_attempt_id demo_feedback" by (simp add: feedback_row_def)
  moreover have "demo_to_json (fb_version_evidence demo_feedback) = Some ''{}''" by (simp add: demo_to_json_def demo_feedback_def)
  ultimately show ?thesis by (simp add: record_feedback_def demo_feedback_valid feedback_of_def feedback_on_def)
qed

theorem feedback_append_only_witness:
  "record_feedback demo_to_json demo_of_json demo_feedback [] = (Inr demo_feedback, [feedback_row demo_feedback ''{}'']) \<and>
   feedback_of demo_of_json (record_all demo_to_json demo_of_json [demo_feedback] [feedback_row demo_feedback ''{}'']) (fb_attempt_id demo_feedback) =
     Inr demo_feedback"
  using feedback_append_only[OF demo_codec demo_recorded, of "[demo_feedback]"] demo_recorded by blast

theorem feedback_rows_honest_witness:
  "feedback_row demo_feedback ''{}'' \<in> set (record_all demo_to_json demo_of_json [demo_feedback] []) \<and> feedback_honest demo_feedback"
proof -
  have "feedback_row demo_feedback ''{}'' \<in> set (record_all demo_to_json demo_of_json [demo_feedback] [])"
    by (simp add: record_all_def demo_recorded)
  with feedback_rows_honest[OF demo_codec this] show ?thesis by auto
qed

end
