(* ===== verification/Task_Store.thy ===== *)
theory Task_Store
  imports Catalog Contracts
begin

text \<open>
  The durable life of one task, \<open>src/src/state.rs\<close> with the statements of \<open>src/src/state/sql/mod.rs\<close>: its
  lifecycle, its questions and their answers, its criterion obligations with their evidence, and the plan
  (selection, plan rows, plan revisions, the gate and its hold, the block that the plan owns). The state is
  the rows of one task; statements on other tasks do not touch them. An operation is one immediate
  transaction: an error returns the state it began with, except where the code commits first.

  Columns hold typed values: a blocker, a question body and the output of a row are the values their JSON
  text encodes. Revisions are natural numbers. The number of attempts with an unknown outcome belongs to
  the effect ledger, so it is a field that other operations may change. Of an event, the aggregate, its
  revision, the type and the origin are kept.
\<close>

section \<open>Rows\<close>

datatype obligation_applicability = Required | NotApplicable | Unresolved

datatype resume_condition = Decision question_id nat | NoReadyAction | Dependency string | Reconciliation string

record blocker =
  bl_reason :: error_code
  bl_owner :: string
  bl_condition :: resume_condition

definition plan_blocker :: "error_code \<Rightarrow> string \<Rightarrow> blocker" where
  "plan_blocker reason action_id = \<lparr>bl_reason = reason, bl_owner = ''plan'', bl_condition = Dependency action_id\<rparr>"

datatype availability = Enabled | Disabled string

record question_option =
  qo_id :: option_id
  qo_label :: string
  qo_consequences :: string
  qo_availability :: availability

record question =
  qn_id :: question_id
  qn_revision :: nat
  qn_intent :: nat
  qn_prompt :: string
  qn_options :: "question_option list"
  qn_recommended :: option_id
  qn_basis :: string

datatype question_state = QuestionPending | QuestionAnswered | QuestionSuperseded

record question_row =
  qr_question :: question
  qr_state :: question_state
  qr_answer :: "(answer_selection \<times> string) option"

abbreviation qr_id :: "question_row \<Rightarrow> question_id" where "qr_id q \<equiv> qn_id (qr_question q)"

definition pending :: "question_row \<Rightarrow> bool" where
  "pending q \<longleftrightarrow> qr_state q = QuestionPending"

record answer_attempt =
  aa_question :: question_id
  aa_revision :: nat
  aa_selection :: answer_selection
  aa_author :: string
  aa_outcome :: answer_attempt_outcome
  aa_denial :: "string option"

record obligation_row =
  ob_id :: string
  ob_criterion :: string
  ob_applicability :: obligation_applicability
  ob_execution :: obligation_execution

record evidence_row =
  ev_id :: string
  ev_scope :: string
  ev_observation :: string
  ev_digest :: string
  ev_stale :: bool
  ev_obligation :: string

text \<open>The output of a row: the handler's text, or the identity of an answered fork.\<close>

datatype row_output = OutputText string | AnsweredFork question_id nat nat string

record plan_row =
  pl_capability :: string
  pl_applicability :: obligation_applicability
  pl_execution :: obligation_execution
  pl_stage :: bool
  pl_handler :: "string option"
  pl_blocker :: "blocker option"
  pl_output :: "row_output option"

record plan_selection =
  se_revision :: nat
  se_digest :: string
  se_kind :: request_kind

datatype plan_verdict = PlanPass | PlanFail

text \<open>A plan revision; its body and assessment are of the types the plan actions give them.\<close>

record ('p, 'a) plan_version =
  pv_revision :: nat
  pv_selection :: nat
  pv_body :: 'p
  pv_verdict :: "plan_verdict option"
  pv_assessment :: "'a option"

datatype plan_gate = GateUnassessed | GateOpen | GatePaused "string list" "string list"

datatype plan_gate_hold = HoldUnassessed | HoldPaused

fun plan_gate_hold_as_str :: "plan_gate_hold \<Rightarrow> string" where
  "plan_gate_hold_as_str HoldUnassessed = ''unassessed''"
| "plan_gate_hold_as_str HoldPaused = ''paused''"

definition hold_blocker :: "plan_gate_hold \<Rightarrow> blocker" where
  "hold_blocker h = plan_blocker DependencyBlocked (''plan_gate:'' @ plan_gate_hold_as_str h)"

record task_event =
  te_aggregate :: string
  te_revision :: nat
  te_type :: string
  te_origin :: string

record task_row =
  tr_lifecycle :: lifecycle
  tr_revision :: nat
  tr_intent :: nat
  tr_cursor :: nat

record ('p, 'a) task_store =
  ts_id :: string
  ts_task :: "task_row option"
  ts_criteria :: "string list"
  ts_questions :: "question_row list"
  ts_answers :: "answer_attempt list"
  ts_obligations :: "obligation_row list"
  ts_evidence :: "evidence_row list"
  ts_unknown :: nat
  ts_selection :: "plan_selection option"
  ts_rows :: "plan_row list"
  ts_plans :: "('p, 'a) plan_version list"
  ts_hold :: "plan_gate_hold option"
  ts_plan_block :: bool
  ts_events :: "task_event list"

datatype task_error =
    TaskMissing
  | AlreadyTerminal
  | TaskAlreadyTerminal
  | TerminalCannotReopen
  | StaleIntent nat nat
  | TaskRevision nat nat
  | QuestionOnLifecycle lifecycle
  | PendingQuestionExists
  | QuestionMissing
  | QuestionNotPending
  | QuestionRevision nat nat
  | UnknownOption
  | DisabledOption string
  | EmptyCustomAnswer
  | ObligationMissing
  | EvidenceMissing
  | CompletionOpen nat nat nat
  | CompletionStale nat
  | PlanSelectionMissing
  | PlanSelectionStale nat
  | PlanRowMissing string
  | PlanRowHandler string string
  | PlanRowUnresolved string
  | PlanNotAssessable nat
  | StorageFailed

section \<open>Statements\<close>

definition upd_task :: "(task_row \<Rightarrow> task_row) \<Rightarrow> ('p, 'a) task_store \<Rightarrow> ('p, 'a) task_store" where
  "upd_task f s = s\<lparr>ts_task := map_option f (ts_task s)\<rparr>"

definition lifecycle_of :: "('p, 'a) task_store \<Rightarrow> lifecycle option" where
  "lifecycle_of s = map_option tr_lifecycle (ts_task s)"

text \<open>A lifecycle write that also counts the revision and the event cursor, where its condition holds.\<close>

definition move_lifecycle :: "(lifecycle \<Rightarrow> bool) \<Rightarrow> lifecycle \<Rightarrow> ('p, 'a) task_store \<Rightarrow> ('p, 'a) task_store" where
  "move_lifecycle P l = upd_task (\<lambda>t. if P (tr_lifecycle t)
     then t\<lparr>tr_lifecycle := l, tr_revision := tr_revision t + 1, tr_cursor := tr_cursor t + 1\<rparr> else t)"

text \<open>A lifecycle write alone, where its condition holds.\<close>

definition set_lifecycle :: "(lifecycle \<Rightarrow> bool) \<Rightarrow> lifecycle \<Rightarrow> ('p, 'a) task_store \<Rightarrow> ('p, 'a) task_store" where
  "set_lifecycle P l = upd_task (\<lambda>t. if P (tr_lifecycle t) then t\<lparr>tr_lifecycle := l\<rparr> else t)"

definition append_event :: "string \<Rightarrow> nat \<Rightarrow> string \<Rightarrow> string \<Rightarrow> ('p, 'a) task_store \<Rightarrow> ('p, 'a) task_store" where
  "append_event agg ver type origin s =
     s\<lparr>ts_events := ts_events s @ [\<lparr>te_aggregate = agg, te_revision = ver, te_type = type, te_origin = origin\<rparr>]\<rparr>"

definition supersede_event :: "string \<Rightarrow> question_row \<Rightarrow> task_event" where
  "supersede_event origin q =
     \<lparr>te_aggregate = question_raw (qr_id q), te_revision = qn_revision (qr_question q),
      te_type = ''question.superseded'', te_origin = origin\<rparr>"

definition supersede_questions :: "(question_row \<Rightarrow> bool) \<Rightarrow> string \<Rightarrow> ('p, 'a) task_store \<Rightarrow> ('p, 'a) task_store" where
  "supersede_questions P origin s =
     s\<lparr>ts_questions := map (\<lambda>q. if pending q \<and> P q then q\<lparr>qr_state := QuestionSuperseded\<rparr> else q) (ts_questions s),
       ts_events := ts_events s @ map (supersede_event origin) (filter (\<lambda>q. pending q \<and> P q) (ts_questions s))\<rparr>"

definition supersede_pending_questions :: "nat \<Rightarrow> string \<Rightarrow> ('p, 'a) task_store \<Rightarrow> ('p, 'a) task_store" where
  "supersede_pending_questions live_intent origin =
     supersede_questions (\<lambda>q. qn_intent (qr_question q) \<noteq> live_intent) origin"

definition supersede_terminal_questions :: "string \<Rightarrow> ('p, 'a) task_store \<Rightarrow> ('p, 'a) task_store" where
  "supersede_terminal_questions origin = supersede_questions (\<lambda>_. True) origin"

text \<open>The fork a row waits on.\<close>

definition row_fork :: "plan_row \<Rightarrow> (question_id \<times> nat) option" where
  "row_fork r = (case pl_blocker r of
     Some b \<Rightarrow> (case bl_condition b of Decision q ver \<Rightarrow> Some (q, ver) | _ \<Rightarrow> None)
   | None \<Rightarrow> None)"

definition resume_waiting :: "('p, 'a) task_store \<Rightarrow> ('p, 'a) task_store" where
  "resume_waiting = set_lifecycle (\<lambda>l. l = LifecycleWaiting) LifecycleRunning"

fun supersede_forks :: "plan_row list \<Rightarrow> ('p, 'a) task_store \<Rightarrow> bool \<times> ('p, 'a) task_store" where
  "supersede_forks [] s = (False, s)"
| "supersede_forks (r # rs) s =
     (case row_fork r of
        None \<Rightarrow> supersede_forks rs s
      | Some (q, ver) \<Rightarrow>
          (let P = (\<lambda>w. qr_id w = q \<and> qn_revision (qr_question w) = ver) in
           if list_ex (\<lambda>w. pending w \<and> P w) (ts_questions s)
           then (True, snd (supersede_forks rs (supersede_questions P ''state'' s)))
           else supersede_forks rs s))"

definition supersede_plan_questions :: "('p, 'a) task_store \<Rightarrow> ('p, 'a) task_store" where
  "supersede_plan_questions s =
     (case supersede_forks (ts_rows s) s of (superseded, s') \<Rightarrow> if superseded then resume_waiting s' else s')"

definition require_open_task :: "('p, 'a) task_store \<Rightarrow> task_error + unit" where
  "require_open_task s =
     (case lifecycle_of s of
        None \<Rightarrow> Inl TaskMissing
      | Some l \<Rightarrow> if lifecycle_is_terminal l then Inl AlreadyTerminal else Inr ())"

definition check_plan_binding :: "nat \<Rightarrow> string \<Rightarrow> ('p, 'a) task_store \<Rightarrow> task_error + unit" where
  "check_plan_binding revision digest s =
     (case require_open_task s of
        Inl e \<Rightarrow> Inl e
      | Inr _ \<Rightarrow>
          (case ts_selection s of
             None \<Rightarrow> Inl PlanSelectionMissing
           | Some cur \<Rightarrow>
               if se_revision cur \<noteq> revision \<or> se_digest cur \<noteq> digest then Inl (PlanSelectionStale (se_revision cur))
               else Inr ()))"

section \<open>The gate\<close>

definition plan_revisions :: "('p, 'a) task_store \<Rightarrow> ('p, 'a) plan_version list" where
  "plan_revisions s = sort_key pv_revision (ts_plans s)"

definition latest_revision :: "nat \<Rightarrow> ('p, 'a) task_store \<Rightarrow> ('p, 'a) plan_version option" where
  "latest_revision selection s = find (\<lambda>p. pv_selection p = selection) (rev (plan_revisions s))"

definition gate_on :: "('p, 'a) task_store \<Rightarrow> plan_gate" where
  "gate_on s =
     (case ts_selection s of
        None \<Rightarrow> GateUnassessed
      | Some sel \<Rightarrow>
          (let unresolved = map pl_capability (filter (\<lambda>r. pl_applicability r = Unresolved) (ts_rows s));
               stages = map pl_capability (filter (\<lambda>r. pl_stage r \<and> pl_applicability r = Required \<and>
                 pl_execution r \<noteq> ObligationSatisfied) (ts_rows s));
               plan_required = list_ex (\<lambda>r. pl_capability r = plan_work_id \<and> pl_applicability r = Required) (ts_rows s);
               passed = (case latest_revision (se_revision sel) s of Some p \<Rightarrow> pv_verdict p = Some PlanPass | None \<Rightarrow> False);
               open_stages = (if plan_required \<and> \<not> passed \<and> assess_plan_id \<notin> set stages then stages @ [assess_plan_id] else stages) in
           if unresolved = [] \<and> open_stages = [] then GateOpen else GatePaused unresolved open_stages))"

definition holds_lifecycle :: "plan_row \<Rightarrow> bool" where
  "holds_lifecycle r =
     (if pl_applicability r = Unresolved then True
      else (case pl_blocker r of
              None \<Rightarrow> False
            | Some b \<Rightarrow>
                (case bl_condition b of
                   Decision _ _ \<Rightarrow> False
                 | _ \<Rightarrow> \<not> (\<not> pl_stage r \<and> pl_handler r = None \<and> pl_applicability r = Required \<and>
                          bl_reason b = CapabilityUnavailable))))"

definition plan_holds :: "('p, 'a) task_store \<Rightarrow> bool" where
  "plan_holds s \<longleftrightarrow> ts_hold s \<noteq> None \<or> list_ex holds_lifecycle (ts_rows s)"

definition blocking_sources :: "('p, 'a) task_store \<Rightarrow> nat" where
  "blocking_sources s =
     length (filter (\<lambda>b. ob_applicability b = Unresolved) (ts_obligations s)) + ts_unknown s +
     length (filter pending (ts_questions s))"

definition release_plan_owned_block :: "('p, 'a) task_store \<Rightarrow> ('p, 'a) task_store" where
  "release_plan_owned_block s =
     (if ts_plan_block s \<and> blocking_sources s = 0
      then (move_lifecycle (\<lambda>l. l = LifecycleBlocked) LifecycleRunning s)\<lparr>ts_plan_block := False\<rparr>
      else s)"

definition settle_plan_lifecycle :: "('p, 'a) task_store \<Rightarrow> ('p, 'a) task_store" where
  "settle_plan_lifecycle s =
     (if lifecycle_of s = Some LifecycleRunning \<and> plan_holds s
      then (move_lifecycle (\<lambda>l. l = LifecycleRunning) LifecycleBlocked s)\<lparr>ts_plan_block := True\<rparr>
      else if lifecycle_of s = Some LifecycleBlocked \<and> \<not> plan_holds s then release_plan_owned_block s
      else s)"

definition settle_hold :: "('p, 'a) task_store \<Rightarrow> ('p, 'a) task_store" where
  "settle_hold s =
     (case ts_hold s of
        None \<Rightarrow> s
      | Some h \<Rightarrow>
          (case gate_on s of
             GateOpen \<Rightarrow> s\<lparr>ts_hold := None\<rparr>
           | GateUnassessed \<Rightarrow> s\<lparr>ts_hold := Some HoldUnassessed\<rparr>
           | GatePaused _ _ \<Rightarrow> s\<lparr>ts_hold := Some HoldPaused\<rparr>))"

definition settle_plan_state :: "('p, 'a) task_store \<Rightarrow> ('p, 'a) task_store" where
  "settle_plan_state s = settle_plan_lifecycle (settle_hold s)"

definition hold_for_plan_gate :: "plan_gate_hold \<Rightarrow> ('p, 'a) task_store \<Rightarrow>
    (task_error + plan_gate_hold option) \<times> ('p, 'a) task_store" where
  "hold_for_plan_gate observed s =
     (case require_open_task s of
        Inl e \<Rightarrow> (Inl e, s)
      | Inr _ \<Rightarrow>
          (let s1 = (if gate_on s \<noteq> GateOpen then s\<lparr>ts_hold := Some observed\<rparr> else s);
               s2 = settle_plan_state s1 in
           (Inr (ts_hold s2), s2)))"

section \<open>The selection\<close>

record plan_row_write =
  rw_capability :: string
  rw_applicability :: obligation_applicability
  rw_stage :: bool
  rw_handler :: "string option"
  rw_blocker :: "blocker option"

definition new_plan_row :: "plan_row_write \<Rightarrow> plan_row" where
  "new_plan_row w = \<lparr>pl_capability = rw_capability w, pl_applicability = rw_applicability w,
     pl_execution = ObligationPending, pl_stage = rw_stage w, pl_handler = rw_handler w,
     pl_blocker = rw_blocker w, pl_output = None\<rparr>"

text \<open>The applicability an unresolved row takes back under identical facts.\<close>

definition recovered_row :: "plan_row_write list \<Rightarrow> plan_row \<Rightarrow> plan_row option" where
  "recovered_row derived r =
     (if pl_applicability r \<noteq> Unresolved then None
      else map_option (\<lambda>w. r\<lparr>pl_applicability := rw_applicability w\<rparr>)
        (find (\<lambda>w. rw_capability w = pl_capability r \<and> rw_applicability w \<noteq> Unresolved) derived))"

definition reset_recovered_plan_rows :: "plan_row_write list \<Rightarrow> ('p, 'a) task_store \<Rightarrow> bool \<times> ('p, 'a) task_store" where
  "reset_recovered_plan_rows derived s =
     (if list_ex (\<lambda>b. ob_applicability b = Unresolved) (ts_obligations s) then (False, s)
      else (list_ex (\<lambda>r. recovered_row derived r \<noteq> None) (ts_rows s),
            s\<lparr>ts_rows := map (\<lambda>r. case recovered_row derived r of Some r' \<Rightarrow> r' | None \<Rightarrow> r) (ts_rows s)\<rparr>))"

definition record_plan_selection ::
  "string \<Rightarrow> request_kind \<Rightarrow> plan_row_write list \<Rightarrow> ('p, 'a) task_store \<Rightarrow> (task_error + plan_selection) \<times> ('p, 'a) task_store" where
  "record_plan_selection digest kind rows s =
     (case require_open_task s of
        Inl e \<Rightarrow> (Inl e, s)
      | Inr _ \<Rightarrow>
          (let renew = (\<lambda>revision s1.
             (let sel = \<lparr>se_revision = revision, se_digest = digest, se_kind = kind\<rparr> in
              if \<not> revision < 2 ^ 63 \<or> \<not> distinct (map rw_capability rows) then (Inl StorageFailed, s)
              else (Inr sel, settle_plan_state (s1\<lparr>ts_selection := Some sel, ts_rows := map new_plan_row rows\<rparr>)))) in
           case ts_selection s of
             None \<Rightarrow> renew 1 s
           | Some cur \<Rightarrow>
               if se_digest cur = digest
               then (case reset_recovered_plan_rows rows s of
                       (reset, s') \<Rightarrow> (Inr cur, if reset then settle_plan_state s' else s))
               else renew (se_revision cur + 1) (supersede_plan_questions s)))"

section \<open>Plan rows and revisions\<close>

datatype plan_row_change = CloseRow obligation_execution row_output | BlockRow blocker

fun change_row :: "plan_row_change \<Rightarrow> plan_row \<Rightarrow> plan_row" where
  "change_row (CloseRow execution out) r = r\<lparr>pl_execution := execution, pl_output := Some out, pl_blocker := None\<rparr>"
| "change_row (BlockRow b) r = r\<lparr>pl_blocker := Some b\<rparr>"

definition apply_plan_row_change ::
  "string \<Rightarrow> string \<Rightarrow> plan_row_change \<Rightarrow> ('p, 'a) task_store \<Rightarrow> task_error + ('p, 'a) task_store" where
  "apply_plan_row_change capability handler change s =
     (case find (\<lambda>r. pl_capability r = capability) (ts_rows s) of
        None \<Rightarrow> Inl (PlanRowMissing capability)
      | Some r \<Rightarrow>
          if pl_handler r \<noteq> Some handler then Inl (PlanRowHandler capability handler)
          else if pl_applicability r = Unresolved then Inl (PlanRowUnresolved capability)
          else Inr (s\<lparr>ts_rows := map (\<lambda>r. if pl_capability r = capability then change_row change r else r) (ts_rows s)\<rparr>))"

definition update_plan_row ::
  "string \<Rightarrow> string \<Rightarrow> nat \<Rightarrow> string \<Rightarrow> plan_row_change \<Rightarrow> ('p, 'a) task_store \<Rightarrow> (task_error + unit) \<times> ('p, 'a) task_store" where
  "update_plan_row capability handler revision digest change s =
     (case check_plan_binding revision digest s of
        Inl e \<Rightarrow> (Inl e, s)
      | Inr _ \<Rightarrow>
          (case apply_plan_row_change capability handler change s of
             Inl e \<Rightarrow> (Inl e, s)
           | Inr s' \<Rightarrow> (Inr (), settle_plan_state s')))"

definition next_plan_revision :: "('p, 'a) task_store \<Rightarrow> nat" where
  "next_plan_revision s = foldr max (map pv_revision (ts_plans s)) 0 + 1"

definition reopen_row :: "string \<Rightarrow> plan_row \<Rightarrow> plan_row" where
  "reopen_row handler r =
     (if pl_handler r = Some handler \<and> pl_applicability r = Required
      then r\<lparr>pl_execution := ObligationPending, pl_output := None, pl_blocker := None\<rparr> else r)"

definition record_plan_revision ::
  "string \<Rightarrow> string \<Rightarrow> nat \<Rightarrow> string \<Rightarrow> 'p \<Rightarrow> ('p, 'a) task_store \<Rightarrow> (task_error + nat) \<times> ('p, 'a) task_store" where
  "record_plan_revision handler reopens revision digest body s =
     (case check_plan_binding revision digest s of
        Inl e \<Rightarrow> (Inl e, s)
      | Inr _ \<Rightarrow>
          (let next = next_plan_revision s;
               s1 = s\<lparr>ts_plans := ts_plans s @
                 [\<lparr>pv_revision = next, pv_selection = revision, pv_body = body, pv_verdict = None, pv_assessment = None\<rparr>]\<rparr> in
           case apply_plan_row_change handler handler
                  (CloseRow ObligationSatisfied (OutputText (''{\"revision\":'' @ show_nat next @ ''}''))) s1 of
             Inl e \<Rightarrow> (Inl e, s)
           | Inr s2 \<Rightarrow> (Inr next, settle_plan_state (s2\<lparr>ts_rows := map (reopen_row reopens) (ts_rows s2)\<rparr>))))"

fun apply_changes ::
  "string \<Rightarrow> (string \<times> plan_row_change) list \<Rightarrow> ('p, 'a) task_store \<Rightarrow> task_error + ('p, 'a) task_store" where
  "apply_changes handler [] s = Inr s"
| "apply_changes handler ((capability, change) # rest) s =
     (case apply_plan_row_change capability handler change s of
        Inl e \<Rightarrow> Inl e
      | Inr s' \<Rightarrow> apply_changes handler rest s')"

definition assessable :: "nat \<Rightarrow> nat \<Rightarrow> ('p, 'a) task_store \<Rightarrow> ('p, 'a) plan_version \<Rightarrow> bool" where
  "assessable plan_revision revision s p \<longleftrightarrow>
     pv_revision p = plan_revision \<and> pv_selection p = revision \<and> pv_verdict p = None \<and>
     pv_revision p = foldr max (map pv_revision (ts_plans s)) 0"

definition record_plan_assessment ::
  "string \<Rightarrow> nat \<Rightarrow> string \<Rightarrow> nat \<Rightarrow> plan_verdict \<Rightarrow> 'a \<Rightarrow> (string \<times> plan_row_change) list \<Rightarrow> ('p, 'a) task_store \<Rightarrow>
   (task_error + unit) \<times> ('p, 'a) task_store" where
  "record_plan_assessment handler revision digest plan_revision verdict assessment changes s =
     (case check_plan_binding revision digest s of
        Inl e \<Rightarrow> (Inl e, s)
      | Inr _ \<Rightarrow>
          if \<not> list_ex (assessable plan_revision revision s) (ts_plans s) then (Inl (PlanNotAssessable plan_revision), s)
          else
            (let s1 = s\<lparr>ts_plans := map (\<lambda>p. if assessable plan_revision revision s p
                   then p\<lparr>pv_verdict := Some verdict, pv_assessment := Some assessment\<rparr> else p) (ts_plans s)\<rparr> in
             case apply_changes handler changes s1 of
               Inl e \<Rightarrow> (Inl e, s)
             | Inr s2 \<Rightarrow> (Inr (), settle_plan_state s2)))"

section \<open>Questions\<close>

definition insert_question :: "question \<Rightarrow> ('p, 'a) task_store \<Rightarrow> task_error + ('p, 'a) task_store" where
  "insert_question q s =
     (case ts_task s of
        None \<Rightarrow> Inl TaskMissing
      | Some t \<Rightarrow>
          if tr_lifecycle t \<notin> {LifecycleRunning, LifecycleWaiting} then Inl (QuestionOnLifecycle (tr_lifecycle t))
          else if qn_intent q \<noteq> tr_intent t then Inl (StaleIntent (qn_intent q) (tr_intent t))
          else
            (let s1 = supersede_pending_questions (tr_intent t) ''state'' s in
             if list_ex pending (ts_questions s1) then Inl PendingQuestionExists
             else if qn_id q \<in> set (map qr_id (ts_questions s1)) then Inl StorageFailed
             else
               (let s2 = s1\<lparr>ts_questions := ts_questions s1 @ [\<lparr>qr_question = q, qr_state = QuestionPending, qr_answer = None\<rparr>]\<rparr>;
                    s3 = move_lifecycle (\<lambda>_. True) LifecycleWaiting s2 in
                Inr (append_event (ts_id s) (tr_revision t + 1) ''question.published'' ''state'' s3))))"

definition publish_question :: "question \<Rightarrow> ('p, 'a) task_store \<Rightarrow> (task_error + unit) \<times> ('p, 'a) task_store" where
  "publish_question q s = (case insert_question q s of Inl e \<Rightarrow> (Inl e, s) | Inr s' \<Rightarrow> (Inr (), s'))"

definition publish_plan_fork ::
  "question \<Rightarrow> string \<Rightarrow> string \<Rightarrow> nat \<Rightarrow> string \<Rightarrow> plan_row_change \<Rightarrow> ('p, 'a) task_store \<Rightarrow>
   (task_error + unit) \<times> ('p, 'a) task_store" where
  "publish_plan_fork q capability handler revision digest change s =
     (case check_plan_binding revision digest s of
        Inl e \<Rightarrow> (Inl e, s)
      | Inr _ \<Rightarrow>
          (let s1 = (if lifecycle_of s = Some LifecycleBlocked then release_plan_owned_block s else s) in
           case apply_plan_row_change capability handler change s1 of
             Inl e \<Rightarrow> (Inl e, s)
           | Inr s2 \<Rightarrow>
               (case insert_question q s2 of
                  Inl e \<Rightarrow> (Inl e, s)
                | Inr s3 \<Rightarrow> (Inr (), settle_plan_state s3))))"

definition current_question :: "('p, 'a) task_store \<Rightarrow> question option" where
  "current_question s =
     (case ts_task s of
        None \<Rightarrow> None
      | Some t \<Rightarrow>
          if lifecycle_is_terminal (tr_lifecycle t) then None
          else (case rev (sort_key (\<lambda>q. qn_revision (qr_question q)) (filter pending (ts_questions s))) of
                  [] \<Rightarrow> None
                | q # _ \<Rightarrow> if qn_intent (qr_question q) \<noteq> tr_intent t then None else Some (qr_question q)))"

fun check_selection :: "answer_selection \<Rightarrow> question \<Rightarrow> task_error + unit" where
  "check_selection (AnswerOption i) q =
     (case find (\<lambda>opt. qo_id opt = i) (qn_options q) of
        None \<Rightarrow> Inl UnknownOption
      | Some opt \<Rightarrow> (case qo_availability opt of Disabled reason \<Rightarrow> Inl (DisabledOption reason) | Enabled \<Rightarrow> Inr ()))"
| "check_selection (AnswerCustom body) q = (if is_blank body then Inl EmptyCustomAnswer else Inr ())"

definition retain_answered_plan_fork :: "question_id \<Rightarrow> nat \<Rightarrow> ('p, 'a) task_store \<Rightarrow> ('p, 'a) task_store" where
  "retain_answered_plan_fork q revision s =
     (case ts_selection s of
        None \<Rightarrow> s
      | Some sel \<Rightarrow>
          (case find (\<lambda>r. row_fork r = Some (q, revision)) (ts_rows s) of
             None \<Rightarrow> s
           | Some row \<Rightarrow>
               s\<lparr>ts_rows := map (\<lambda>r. if pl_capability r = pl_capability row
                   then r\<lparr>pl_output := Some (AnsweredFork q revision (se_revision sel) (se_digest sel))\<rparr> else r) (ts_rows s)\<rparr>))"

definition answer_question_commit ::
  "question_id \<Rightarrow> nat \<Rightarrow> answer_selection \<Rightarrow> string \<Rightarrow> ('p, 'a) task_store \<Rightarrow> task_error + ('p, 'a) task_store" where
  "answer_question_commit qid revision selection author s =
     (case ts_task s of
        None \<Rightarrow> Inl TaskMissing
      | Some t \<Rightarrow>
          if lifecycle_is_terminal (tr_lifecycle t) then Inl AlreadyTerminal
          else
            (case find (\<lambda>q. qr_id q = qid) (ts_questions s) of
               None \<Rightarrow> Inl QuestionMissing
             | Some row \<Rightarrow>
                 (let q = qr_question row in
                  if \<not> pending row
                  then Inl (if qn_intent q \<noteq> tr_intent t then StaleIntent (qn_intent q) (tr_intent t) else QuestionNotPending)
                  else if qn_revision q \<noteq> revision then Inl (QuestionRevision revision (qn_revision q))
                  else if qn_intent q \<noteq> tr_intent t then Inl (StaleIntent (qn_intent q) (tr_intent t))
                  else
                    (case check_selection selection q of
                       Inl e \<Rightarrow> Inl e
                     | Inr _ \<Rightarrow>
                         (let s1 = s\<lparr>ts_questions := map (\<lambda>w. if qr_id w = qid
                                then w\<lparr>qr_state := QuestionAnswered, qr_answer := Some (selection, author)\<rparr> else w) (ts_questions s)\<rparr>;
                              s2 = move_lifecycle (\<lambda>_. True) LifecycleRunning s1;
                              s3 = append_event (ts_id s) (tr_revision t + 1) ''question.answered'' author s2;
                              s4 = s3\<lparr>ts_answers := ts_answers s3 @ [\<lparr>aa_question = qid, aa_revision = revision, aa_selection = selection,
                                aa_author = author, aa_outcome = AnswerApplied, aa_denial = None\<rparr>]\<rparr> in
                          Inr (settle_plan_lifecycle (retain_answered_plan_fork qid revision s4)))))))"

fun denial_class :: "task_error \<Rightarrow> string" where
  "denial_class (StaleIntent _ _) = ''stale_intent''"
| "denial_class AlreadyTerminal = ''already_terminal''"
| "denial_class TaskMissing = ''not_found''"
| "denial_class QuestionMissing = ''not_found''"
| "denial_class ObligationMissing = ''not_found''"
| "denial_class EvidenceMissing = ''not_found''"
| "denial_class QuestionNotPending = ''replayed_answer''"
| "denial_class (QuestionRevision _ _) = ''stale_revision''"
| "denial_class UnknownOption = ''unknown_option''"
| "denial_class (DisabledOption _) = ''disabled_option''"
| "denial_class EmptyCustomAnswer = ''empty_custom''"
| "denial_class StorageFailed = ''storage''"
| "denial_class _ = ''conflict''"

definition record_denied_attempt ::
  "question_id \<Rightarrow> nat \<Rightarrow> answer_selection \<Rightarrow> string \<Rightarrow> string \<Rightarrow> ('p, 'a) task_store \<Rightarrow> ('p, 'a) task_store" where
  "record_denied_attempt qid revision selection author denial s =
     s\<lparr>ts_answers := ts_answers s @ [\<lparr>aa_question = qid, aa_revision = revision, aa_selection = selection,
       aa_author = author, aa_outcome = AnswerDenied, aa_denial = Some denial\<rparr>]\<rparr>"

definition answer_question ::
  "question_id \<Rightarrow> nat \<Rightarrow> answer_selection \<Rightarrow> string \<Rightarrow> ('p, 'a) task_store \<Rightarrow> (task_error + unit) \<times> ('p, 'a) task_store" where
  "answer_question qid revision selection author s =
     (case answer_question_commit qid revision selection author s of
        Inr s' \<Rightarrow> (Inr (), s')
      | Inl e \<Rightarrow> (Inl e, record_denied_attempt qid revision selection author (denial_class e) s))"

section \<open>Steering, pausing and ending\<close>

definition pause_for_workflow_off :: "('p, 'a) task_store \<Rightarrow> (task_error + bool) \<times> ('p, 'a) task_store" where
  "pause_for_workflow_off s =
     (case ts_task s of
        None \<Rightarrow> (Inl TaskMissing, s)
      | Some t \<Rightarrow>
          if tr_lifecycle t \<notin> {LifecycleRunning, LifecycleWaiting} then (Inr False, s)
          else (Inr True, append_event (ts_id s) (tr_revision t + 1) ''task.paused'' ''runtime''
            (move_lifecycle (\<lambda>l. l \<in> {LifecycleRunning, LifecycleWaiting}) LifecyclePaused s)))"

definition steer_task :: "nat \<Rightarrow> nat \<Rightarrow> ('p, 'a) task_store \<Rightarrow> (task_error + nat) \<times> ('p, 'a) task_store" where
  "steer_task expected_intent expected_revision s =
     (case ts_task s of
        None \<Rightarrow> (Inl TaskMissing, s)
      | Some t \<Rightarrow>
          if lifecycle_is_terminal (tr_lifecycle t) then (Inl TerminalCannotReopen, s)
          else if tr_intent t \<noteq> expected_intent then (Inl (StaleIntent expected_intent (tr_intent t)), s)
          else if tr_revision t \<noteq> expected_revision then (Inl (TaskRevision expected_revision (tr_revision t)), s)
          else
            (let s1 = upd_task (\<lambda>t. t\<lparr>tr_revision := tr_revision t + 1, tr_intent := tr_intent t + 1, tr_cursor := tr_cursor t + 1\<rparr>) s;
                 s2 = resume_waiting (supersede_pending_questions (tr_intent t + 1) ''human'' s1);
                 s3 = append_event (ts_id s) (tr_revision t + 1) ''task.steered'' ''human'' s2;
                 s4 = set_lifecycle (\<lambda>l. l = LifecyclePaused) LifecycleRunning s3 in
             (Inr (tr_intent t + 1), settle_plan_lifecycle s4)))"

datatype cancel_status = CancelApplied | CancelAlreadyTerminal

definition cancel_task_with_origin :: "nat \<Rightarrow> string \<Rightarrow> ('p, 'a) task_store \<Rightarrow> (task_error + cancel_status) \<times> ('p, 'a) task_store" where
  "cancel_task_with_origin expected_intent origin s =
     (case ts_task s of
        None \<Rightarrow> (Inl TaskMissing, s)
      | Some t \<Rightarrow>
          if tr_intent t \<noteq> expected_intent then (Inl (StaleIntent expected_intent (tr_intent t)), s)
          else if lifecycle_is_terminal (tr_lifecycle t)
          then (Inr CancelAlreadyTerminal, supersede_terminal_questions origin s)
          else (Inr CancelApplied, append_event (ts_id s) (tr_revision t + 1) ''task.cancelled'' origin
            (supersede_terminal_questions origin (move_lifecycle (\<lambda>_. True) LifecycleCancelled s))))"

text \<open>The counts of open work: unsatisfied, unresolved and unknown.\<close>

definition completion_counts :: "('p, 'a) task_store \<Rightarrow> nat \<times> nat \<times> nat" where
  "completion_counts s =
     (length (filter (\<lambda>b. ob_execution b \<noteq> ObligationSatisfied) (ts_obligations s)) +
        length (filter (\<lambda>r. pl_execution r \<noteq> ObligationSatisfied) (ts_rows s)),
      length (filter (\<lambda>b. ob_applicability b = Unresolved) (ts_obligations s)) +
        length (filter (\<lambda>r. pl_applicability r = Unresolved) (ts_rows s)),
      ts_unknown s)"

definition stale_evidence_count :: "('p, 'a) task_store \<Rightarrow> nat" where
  "stale_evidence_count s =
     length (filter (\<lambda>e. ev_stale e \<and> ev_obligation e \<in> set (map ob_id (ts_obligations s))) (ts_evidence s))"

definition complete_if_eligible :: "('p, 'a) task_store \<Rightarrow> (task_error + unit) \<times> ('p, 'a) task_store" where
  "complete_if_eligible s =
     (case ts_task s of
        None \<Rightarrow> (Inl TaskMissing, s)
      | Some t \<Rightarrow>
          if lifecycle_is_terminal (tr_lifecycle t) then (Inl TaskAlreadyTerminal, s)
          else
            (case completion_counts s of
               (unsatisfied, unresolved, unknown) \<Rightarrow>
                 if unsatisfied > 0 \<or> unresolved > 0 \<or> unknown > 0
                 then (Inl (CompletionOpen unsatisfied unresolved unknown),
                       set_lifecycle (\<lambda>l. l = LifecycleRunning) LifecycleWaiting s)
                 else if stale_evidence_count s > 0 then (Inl (CompletionStale (stale_evidence_count s)), s)
                 else (Inr (), append_event (ts_id s) (tr_revision t + 1) ''task.completed'' ''state''
                   (supersede_terminal_questions ''state'' (move_lifecycle (\<lambda>_. True) LifecycleCompleted s)))))"

section \<open>Blocks, obligations and evidence\<close>

definition block_foreign :: "(lifecycle \<Rightarrow> bool) \<Rightarrow> ('p, 'a) task_store \<Rightarrow> ('p, 'a) task_store" where
  "block_foreign P s = (move_lifecycle P LifecycleBlocked s)\<lparr>ts_plan_block := False\<rparr>"

definition mark_outcome_unknown_block :: "('p, 'a) task_store \<Rightarrow> ('p, 'a) task_store" where
  "mark_outcome_unknown_block = block_foreign (\<lambda>l. \<not> lifecycle_is_terminal l)"

definition mark_no_ready :: "('p, 'a) task_store \<Rightarrow> ('p, 'a) task_store" where
  "mark_no_ready = block_foreign (\<lambda>l. \<not> lifecycle_is_terminal l)"

definition unresolve_plan_rows :: "('p, 'a) task_store \<Rightarrow> ('p, 'a) task_store" where
  "unresolve_plan_rows s = s\<lparr>ts_rows := map (\<lambda>r. r\<lparr>pl_applicability := Unresolved\<rparr>) (ts_rows s)\<rparr>"

definition mark_plan_applicability_unresolved :: "('p, 'a) task_store \<Rightarrow> (task_error + unit) \<times> ('p, 'a) task_store" where
  "mark_plan_applicability_unresolved s =
     (case require_open_task s of
        Inl e \<Rightarrow> (Inl e, s)
      | Inr _ \<Rightarrow> (Inr (), if ts_selection s = None then s else settle_plan_state (unresolve_plan_rows s)))"

definition upd_obligation :: "string \<Rightarrow> (obligation_row \<Rightarrow> obligation_row) \<Rightarrow> ('p, 'a) task_store \<Rightarrow> ('p, 'a) task_store" where
  "upd_obligation i f s = s\<lparr>ts_obligations := map (\<lambda>b. if ob_id b = i then f b else b) (ts_obligations s)\<rparr>"

definition has_obligation :: "string \<Rightarrow> ('p, 'a) task_store \<Rightarrow> bool" where
  "has_obligation i s \<longleftrightarrow> list_ex (\<lambda>b. ob_id b = i) (ts_obligations s)"

definition mark_applicability_unresolved :: "string \<Rightarrow> ('p, 'a) task_store \<Rightarrow> (task_error + bool) \<times> ('p, 'a) task_store" where
  "mark_applicability_unresolved i s =
     (if starts_with ''plan:'' i then (Inr False, s)
      else if \<not> has_obligation i s then (Inl ObligationMissing, s)
      else (Inr True, block_foreign (\<lambda>l. l \<noteq> LifecycleCancelled)
        (unresolve_plan_rows (upd_obligation i (\<lambda>b. b\<lparr>ob_applicability := Unresolved\<rparr>) s))))"

definition missing_obligations :: "('p, 'a) task_store \<Rightarrow> string list" where
  "missing_obligations s = filter (\<lambda>c. c \<notin> set (map ob_criterion (ts_obligations s))) (ts_criteria s)"

definition materialize_obligations :: "(string \<Rightarrow> string) \<Rightarrow> ('p, 'a) task_store \<Rightarrow> ('p, 'a) task_store" where
  "materialize_obligations generate s =
     s\<lparr>ts_obligations := ts_obligations s @ map (\<lambda>c. \<lparr>ob_id = generate c, ob_criterion = c, ob_applicability = Required,
       ob_execution = ObligationPending\<rparr>) (missing_obligations s)\<rparr>"

definition add_evidence :: "string \<Rightarrow> string \<Rightarrow> string \<Rightarrow> string \<Rightarrow> string \<Rightarrow> ('p, 'a) task_store \<Rightarrow> ('p, 'a) task_store" where
  "add_evidence evidence_id scope observation digest i s =
     upd_obligation i (\<lambda>b. b\<lparr>ob_execution := ObligationSatisfied\<rparr>)
       (s\<lparr>ts_evidence := ts_evidence s @ [\<lparr>ev_id = evidence_id, ev_scope = scope, ev_observation = observation,
          ev_digest = digest, ev_stale = False, ev_obligation = i\<rparr>]\<rparr>)"

definition insert_evidence ::
  "string \<Rightarrow> nat \<Rightarrow> string \<Rightarrow> string \<Rightarrow> string \<Rightarrow> ('p, 'a) task_store \<Rightarrow> (task_error + string) \<times> ('p, 'a) task_store" where
  "insert_evidence evidence_id index scope observation digest s =
     (if \<not> index < length (ts_obligations s) then (Inl ObligationMissing, s)
      else (Inr evidence_id, add_evidence evidence_id scope observation digest (ob_id (ts_obligations s ! index)) s))"

definition insert_evidence_for_task ::
  "(string \<Rightarrow> string) \<Rightarrow> string \<Rightarrow> string \<Rightarrow> string \<Rightarrow> ('p, 'a) task_store \<Rightarrow> ('p, 'a) task_store" where
  "insert_evidence_for_task generate scope observation digest s =
     fold (\<lambda>i. add_evidence (generate i) scope observation digest i) (map ob_id (ts_obligations s)) s"

definition invalidate_evidence :: "string \<Rightarrow> ('p, 'a) task_store \<Rightarrow> (task_error + unit) \<times> ('p, 'a) task_store" where
  "invalidate_evidence evidence_id s =
     (case find (\<lambda>e. ev_id e = evidence_id) (ts_evidence s) of
        None \<Rightarrow> (Inl EvidenceMissing, s)
      | Some e \<Rightarrow>
          if \<not> has_obligation (ev_obligation e) s then (Inl StorageFailed, s)
          else (Inr (), block_foreign (\<lambda>l. l \<noteq> LifecycleCancelled)
            (upd_obligation (ev_obligation e) (\<lambda>b. b\<lparr>ob_applicability := Unresolved, ob_execution := ObligationStale\<rparr>)
              (s\<lparr>ts_evidence := map (\<lambda>e. if ev_id e = evidence_id then e\<lparr>ev_stale := True\<rparr> else e) (ts_evidence s)\<rparr>))))"

definition delete_scoped_record :: "string \<Rightarrow> ('p, 'a) task_store \<Rightarrow> (task_error + unit) \<times> ('p, 'a) task_store" where
  "delete_scoped_record evidence_id s =
     (case find (\<lambda>e. ev_id e = evidence_id) (ts_evidence s) of
        None \<Rightarrow> (Inl EvidenceMissing, s)
      | Some e \<Rightarrow>
          (let s' = s\<lparr>ts_evidence := filter (\<lambda>e. ev_id e \<noteq> evidence_id) (ts_evidence s)\<rparr> in
           (Inr (), if list_ex (\<lambda>w. ev_obligation w = ev_obligation e) (ts_evidence s') then s'
                    else upd_obligation (ev_obligation e) (\<lambda>b. b\<lparr>ob_execution := ObligationPending\<rparr>) s')))"

end
