(* ===== verification/Task_Props.thy ===== *)
theory Task_Props
  imports Task_Store State_Machine
begin

text \<open>
  The invariant of a task's rows: at most one question is pending and a running or ended task has none, the
  plan-owned mark belongs to a block, plan revisions grow with their selections, and a running task is held
  by nothing. The step relation has one rule per operation; the number of unknown attempts may change in
  every state.
\<close>

section \<open>Selectors\<close>

lemma upd_task_sel [simp]:
  "ts_task (upd_task f s) = map_option f (ts_task s)" "ts_questions (upd_task f s) = ts_questions s"
  "ts_obligations (upd_task f s) = ts_obligations s" "ts_evidence (upd_task f s) = ts_evidence s"
  "ts_selection (upd_task f s) = ts_selection s" "ts_rows (upd_task f s) = ts_rows s" "ts_plans (upd_task f s) = ts_plans s"
  "ts_hold (upd_task f s) = ts_hold s" "ts_plan_block (upd_task f s) = ts_plan_block s" "ts_unknown (upd_task f s) = ts_unknown s"
  "ts_criteria (upd_task f s) = ts_criteria s" "ts_id (upd_task f s) = ts_id s"
  by (simp_all add: upd_task_def)

lemma move_lifecycle_sel [simp]:
  "ts_questions (move_lifecycle P l s) = ts_questions s" "ts_obligations (move_lifecycle P l s) = ts_obligations s"
  "ts_evidence (move_lifecycle P l s) = ts_evidence s" "ts_selection (move_lifecycle P l s) = ts_selection s"
  "ts_rows (move_lifecycle P l s) = ts_rows s" "ts_plans (move_lifecycle P l s) = ts_plans s" "ts_hold (move_lifecycle P l s) = ts_hold s"
  "ts_plan_block (move_lifecycle P l s) = ts_plan_block s" "ts_unknown (move_lifecycle P l s) = ts_unknown s"
  "ts_criteria (move_lifecycle P l s) = ts_criteria s" "ts_id (move_lifecycle P l s) = ts_id s"
  by (simp_all add: move_lifecycle_def)

lemma set_lifecycle_sel [simp]:
  "ts_questions (set_lifecycle P l s) = ts_questions s" "ts_obligations (set_lifecycle P l s) = ts_obligations s"
  "ts_evidence (set_lifecycle P l s) = ts_evidence s" "ts_selection (set_lifecycle P l s) = ts_selection s"
  "ts_rows (set_lifecycle P l s) = ts_rows s" "ts_plans (set_lifecycle P l s) = ts_plans s" "ts_hold (set_lifecycle P l s) = ts_hold s"
  "ts_plan_block (set_lifecycle P l s) = ts_plan_block s" "ts_unknown (set_lifecycle P l s) = ts_unknown s"
  "ts_criteria (set_lifecycle P l s) = ts_criteria s" "ts_id (set_lifecycle P l s) = ts_id s"
  by (simp_all add: set_lifecycle_def)

lemma append_event_sel [simp]:
  "ts_task (append_event a n ty og s) = ts_task s" "ts_questions (append_event a n ty og s) = ts_questions s"
  "ts_obligations (append_event a n ty og s) = ts_obligations s" "ts_evidence (append_event a n ty og s) = ts_evidence s"
  "ts_selection (append_event a n ty og s) = ts_selection s" "ts_rows (append_event a n ty og s) = ts_rows s"
  "ts_plans (append_event a n ty og s) = ts_plans s" "ts_hold (append_event a n ty og s) = ts_hold s"
  "ts_plan_block (append_event a n ty og s) = ts_plan_block s" "ts_unknown (append_event a n ty og s) = ts_unknown s"
  "ts_criteria (append_event a n ty og s) = ts_criteria s" "ts_answers (append_event a n ty og s) = ts_answers s"
  by (simp_all add: append_event_def)

lemma supersede_questions_sel [simp]:
  "ts_task (supersede_questions P og s) = ts_task s" "ts_obligations (supersede_questions P og s) = ts_obligations s"
  "ts_evidence (supersede_questions P og s) = ts_evidence s" "ts_selection (supersede_questions P og s) = ts_selection s"
  "ts_rows (supersede_questions P og s) = ts_rows s" "ts_plans (supersede_questions P og s) = ts_plans s"
  "ts_hold (supersede_questions P og s) = ts_hold s" "ts_plan_block (supersede_questions P og s) = ts_plan_block s"
  "ts_unknown (supersede_questions P og s) = ts_unknown s" "ts_criteria (supersede_questions P og s) = ts_criteria s"
  by (simp_all add: supersede_questions_def)

lemma upd_obligation_sel [simp]:
  "ts_task (upd_obligation i f s) = ts_task s" "ts_questions (upd_obligation i f s) = ts_questions s"
  "ts_evidence (upd_obligation i f s) = ts_evidence s" "ts_selection (upd_obligation i f s) = ts_selection s"
  "ts_rows (upd_obligation i f s) = ts_rows s" "ts_plans (upd_obligation i f s) = ts_plans s"
  "ts_hold (upd_obligation i f s) = ts_hold s" "ts_plan_block (upd_obligation i f s) = ts_plan_block s"
  "ts_unknown (upd_obligation i f s) = ts_unknown s" "ts_criteria (upd_obligation i f s) = ts_criteria s"
  by (simp_all add: upd_obligation_def)

lemma lifecycle_of_upd [simp]:
  "lifecycle_of (move_lifecycle P l s) = map_option (\<lambda>k. if P k then l else k) (lifecycle_of s)"
  "lifecycle_of (set_lifecycle P l s) = map_option (\<lambda>k. if P k then l else k) (lifecycle_of s)"
  "lifecycle_of (append_event a n ty og s) = lifecycle_of s" "lifecycle_of (supersede_questions Q og s) = lifecycle_of s"
  "lifecycle_of (upd_obligation i f s) = lifecycle_of s"
  by (cases "ts_task s"; simp add: lifecycle_of_def move_lifecycle_def set_lifecycle_def)+

lemma lifecycle_of_other [simp]:
  "lifecycle_of (s\<lparr>ts_criteria := x0\<rparr>) = lifecycle_of s"
  "lifecycle_of (s\<lparr>ts_questions := x1\<rparr>) = lifecycle_of s"
  "lifecycle_of (s\<lparr>ts_answers := x2\<rparr>) = lifecycle_of s"
  "lifecycle_of (s\<lparr>ts_obligations := x3\<rparr>) = lifecycle_of s"
  "lifecycle_of (s\<lparr>ts_evidence := x4\<rparr>) = lifecycle_of s"
  "lifecycle_of (s\<lparr>ts_unknown := x5\<rparr>) = lifecycle_of s"
  "lifecycle_of (s\<lparr>ts_selection := x6\<rparr>) = lifecycle_of s"
  "lifecycle_of (s\<lparr>ts_rows := x7\<rparr>) = lifecycle_of s"
  "lifecycle_of (s\<lparr>ts_plans := x8\<rparr>) = lifecycle_of s"
  "lifecycle_of (s\<lparr>ts_hold := x9\<rparr>) = lifecycle_of s"
  "lifecycle_of (s\<lparr>ts_plan_block := x10\<rparr>) = lifecycle_of s"
  "lifecycle_of (s\<lparr>ts_events := x11\<rparr>) = lifecycle_of s"
  by (simp_all add: lifecycle_of_def)

lemma lifecycle_of_Some [simp]: "ts_task s = Some t \<Longrightarrow> lifecycle_of s = Some (tr_lifecycle t)"
  by (simp add: lifecycle_of_def)

definition intent_of :: "('p, 'a) task_store \<Rightarrow> nat" where
  "intent_of s = (case ts_task s of Some t \<Rightarrow> tr_intent t | None \<Rightarrow> 0)"

lemma intent_of_other [simp]:
  "intent_of (s\<lparr>ts_criteria := x0\<rparr>) = intent_of s"
  "intent_of (s\<lparr>ts_questions := x1\<rparr>) = intent_of s"
  "intent_of (s\<lparr>ts_answers := x2\<rparr>) = intent_of s"
  "intent_of (s\<lparr>ts_obligations := x3\<rparr>) = intent_of s"
  "intent_of (s\<lparr>ts_evidence := x4\<rparr>) = intent_of s"
  "intent_of (s\<lparr>ts_unknown := x5\<rparr>) = intent_of s"
  "intent_of (s\<lparr>ts_selection := x6\<rparr>) = intent_of s"
  "intent_of (s\<lparr>ts_rows := x7\<rparr>) = intent_of s"
  "intent_of (s\<lparr>ts_plans := x8\<rparr>) = intent_of s"
  "intent_of (s\<lparr>ts_hold := x9\<rparr>) = intent_of s"
  "intent_of (s\<lparr>ts_plan_block := x10\<rparr>) = intent_of s"
  "intent_of (s\<lparr>ts_events := x11\<rparr>) = intent_of s"
  by (simp_all add: intent_of_def)

lemma intent_of_upd [simp]:
  "intent_of (move_lifecycle P l s) = intent_of s" "intent_of (set_lifecycle P l s) = intent_of s"
  "intent_of (append_event a n ty og s) = intent_of s" "intent_of (supersede_questions Q og s) = intent_of s"
  "intent_of (upd_obligation i f s) = intent_of s"
  by (cases "ts_task s"; simp add: intent_of_def move_lifecycle_def set_lifecycle_def)+

section \<open>The invariant\<close>

definition no_pending :: "('p, 'a) task_store \<Rightarrow> bool" where
  "no_pending s \<longleftrightarrow> (\<forall>q\<in>set (ts_questions s). \<not> pending q)"

definition questions_ok :: "('p, 'a) task_store \<Rightarrow> bool" where
  "questions_ok s \<longleftrightarrow> length (filter pending (ts_questions s)) \<le> 1 \<and> distinct (map qr_id (ts_questions s)) \<and>
     (\<forall>q\<in>set (ts_questions s). pending q \<longrightarrow> qn_intent (qr_question q) \<le> intent_of s) \<and>
     (lifecycle_of s \<in> {Some LifecycleRunning, Some LifecycleCompleted, Some LifecycleCancelled} \<longrightarrow> no_pending s)"

definition mark_ok :: "('p, 'a) task_store \<Rightarrow> bool" where
  "mark_ok s \<longleftrightarrow> (ts_plan_block s \<longrightarrow>
     lifecycle_of s \<in> {Some LifecycleBlocked, Some LifecycleCompleted, Some LifecycleCancelled} \<and> no_pending s)"

definition plans_ok :: "('p, 'a) task_store \<Rightarrow> bool" where
  "plans_ok s \<longleftrightarrow> sorted_wrt (<) (map pv_revision (ts_plans s)) \<and> sorted (map pv_selection (ts_plans s)) \<and>
     (\<forall>p\<in>set (ts_plans s). \<exists>sel. ts_selection s = Some sel \<and> pv_selection p \<le> se_revision sel)"

definition task_core :: "('p, 'a) task_store \<Rightarrow> bool" where
  "task_core s \<longleftrightarrow> questions_ok s \<and> mark_ok s \<and> plans_ok s"

definition task_inv :: "('p, 'a) task_store \<Rightarrow> bool" where
  "task_inv s \<longleftrightarrow> task_core s \<and> (lifecycle_of s = Some LifecycleRunning \<longrightarrow> \<not> plan_holds s)"

lemma task_coreI: "questions_ok s \<Longrightarrow> mark_ok s \<Longrightarrow> plans_ok s \<Longrightarrow> task_core s"
  by (simp add: task_core_def)

lemma task_coreD: "task_core s \<Longrightarrow> questions_ok s" "task_core s \<Longrightarrow> mark_ok s" "task_core s \<Longrightarrow> plans_ok s"
  by (simp_all add: task_core_def)

lemma task_inv_core: "task_inv s \<Longrightarrow> task_core s"
  by (simp add: task_inv_def)

lemma no_pending_filter: "no_pending s \<longleftrightarrow> filter pending (ts_questions s) = []"
  by (auto simp: no_pending_def filter_empty_conv)

text \<open>Parts of the invariant that an operation does not touch.\<close>

lemma questions_ok_cong:
  "questions_ok s \<Longrightarrow> ts_questions s' = ts_questions s \<Longrightarrow> intent_of s' = intent_of s \<Longrightarrow>
   (lifecycle_of s' \<in> {Some LifecycleRunning, Some LifecycleCompleted, Some LifecycleCancelled} \<longrightarrow> no_pending s) \<Longrightarrow> questions_ok s'"
  by (auto simp: questions_ok_def no_pending_def)

lemma plans_ok_cong: "plans_ok s \<Longrightarrow> ts_plans s' = ts_plans s \<Longrightarrow> ts_selection s' = ts_selection s \<Longrightarrow> plans_ok s'"
  by (simp add: plans_ok_def)

lemma task_core_frame:
  assumes "task_core s" "ts_task s' = ts_task s" "ts_questions s' = ts_questions s" "ts_plan_block s' = ts_plan_block s"
    "ts_plans s' = ts_plans s" "ts_selection s' = ts_selection s"
  shows "task_core s'"
proof -
  have "lifecycle_of s' = lifecycle_of s" "intent_of s' = intent_of s" using assms(2) by (simp_all add: lifecycle_of_def intent_of_def)
  then show ?thesis using assms by (simp add: task_core_def questions_ok_def mark_ok_def plans_ok_def no_pending_def)
qed

lemma no_pending_cong: "ts_questions s' = ts_questions s \<Longrightarrow> no_pending s' = no_pending s"
  by (simp add: no_pending_def)

text \<open>A lifecycle write that ends no wait, with the plan's mark as given.\<close>

lemma task_core_move:
  assumes "task_core s" "ts_questions s' = ts_questions s" "intent_of s' = intent_of s" "ts_plans s' = ts_plans s" "ts_selection s' = ts_selection s"
    and "lifecycle_of s' \<in> {Some LifecycleRunning, Some LifecycleCompleted, Some LifecycleCancelled} \<Longrightarrow> no_pending s"
    and "ts_plan_block s' \<Longrightarrow> lifecycle_of s' \<in> {Some LifecycleBlocked, Some LifecycleCompleted, Some LifecycleCancelled} \<and> no_pending s"
  shows "task_core s'"
  using assms questions_ok_cong[of s s'] plans_ok_cong[of s s'] no_pending_cong[of s' s]
  by (simp add: task_core_def mark_ok_def)

section \<open>Settling\<close>

lemma settle_hold_sel [simp]:
  "ts_task (settle_hold s) = ts_task s" "ts_questions (settle_hold s) = ts_questions s" "ts_plan_block (settle_hold s) = ts_plan_block s"
  "ts_plans (settle_hold s) = ts_plans s" "ts_selection (settle_hold s) = ts_selection s" "ts_obligations (settle_hold s) = ts_obligations s"
  "ts_rows (settle_hold s) = ts_rows s" "ts_criteria (settle_hold s) = ts_criteria s"
  by (simp_all add: settle_hold_def split: option.splits plan_gate.splits)

lemma settle_lifecycle_sel [simp]:
  "ts_questions (settle_plan_lifecycle s) = ts_questions s" "ts_plans (settle_plan_lifecycle s) = ts_plans s"
  "ts_selection (settle_plan_lifecycle s) = ts_selection s" "ts_obligations (settle_plan_lifecycle s) = ts_obligations s"
  "ts_rows (settle_plan_lifecycle s) = ts_rows s" "ts_criteria (settle_plan_lifecycle s) = ts_criteria s"
  "intent_of (settle_plan_lifecycle s) = intent_of s" "ts_hold (settle_plan_lifecycle s) = ts_hold s"
  by (simp_all add: settle_plan_lifecycle_def release_plan_owned_block_def intent_of_def move_lifecycle_def split: option.splits)

lemma settle_state_sel [simp]:
  "ts_questions (settle_plan_state s) = ts_questions s" "ts_plans (settle_plan_state s) = ts_plans s"
  "ts_selection (settle_plan_state s) = ts_selection s" "ts_obligations (settle_plan_state s) = ts_obligations s"
  "ts_rows (settle_plan_state s) = ts_rows s" "ts_criteria (settle_plan_state s) = ts_criteria s"
  by (simp_all add: settle_plan_state_def)

lemma blocking_none: "blocking_sources s = 0 \<Longrightarrow> no_pending s"
  by (simp add: blocking_sources_def no_pending_filter)

lemma release_core:
  assumes "task_core s"
  shows "task_core (release_plan_owned_block s)"
proof (cases "ts_plan_block s \<and> blocking_sources s = 0")
  case True
  then have "no_pending s" by (simp add: blocking_none)
  with True assms show ?thesis
    unfolding release_plan_owned_block_def
    by simp (rule task_core_move[OF assms], simp_all)
qed (use assms in \<open>auto simp: release_plan_owned_block_def\<close>)

lemma settle_lifecycle_inv:
  assumes core: "task_core s"
  shows "task_inv (settle_plan_lifecycle s)"
proof -
  consider (block) "lifecycle_of s = Some LifecycleRunning" "plan_holds s" | (release) "lifecycle_of s = Some LifecycleBlocked" "\<not> plan_holds s"
    | (keep) "\<not> (lifecycle_of s = Some LifecycleRunning \<and> plan_holds s)" "\<not> (lifecycle_of s = Some LifecycleBlocked \<and> \<not> plan_holds s)" by blast
  then show ?thesis
  proof cases
    case block
    let ?s = "(move_lifecycle (\<lambda>l. l = LifecycleRunning) LifecycleBlocked s)\<lparr>ts_plan_block := True\<rparr>"
    have "no_pending s" using core block(1) by (simp add: task_core_def questions_ok_def)
    moreover have life: "lifecycle_of ?s = Some LifecycleBlocked" "intent_of ?s = intent_of s"
      using block(1) by simp_all
    ultimately have "task_core ?s" by - (rule task_core_move[OF core], simp_all)
    then show ?thesis using block life by (simp add: task_inv_def settle_plan_lifecycle_def)
  next
    case release
    have "plan_holds (release_plan_owned_block s) = plan_holds s" by (simp add: release_plan_owned_block_def plan_holds_def)
    then show ?thesis using release release_core[OF core] by (simp add: task_inv_def settle_plan_lifecycle_def)
  next
    case keep
    then show ?thesis using core by (auto simp: task_inv_def settle_plan_lifecycle_def)
  qed
qed

lemma settle_state_inv: "task_core s \<Longrightarrow> task_inv (settle_plan_state s)"
  unfolding settle_plan_state_def
  by (rule settle_lifecycle_inv) (rule task_core_frame, simp_all)

section \<open>Questions\<close>

lemma filter_supersede:
  "filter pending (map (\<lambda>q. if pending q \<and> P q then q\<lparr>qr_state := QuestionSuperseded\<rparr> else q) qs) = filter (\<lambda>q. pending q \<and> \<not> P q) qs"
  by (induction qs) (auto simp: pending_def)

lemma map_id_supersede:
  "map qr_id (map (\<lambda>q. if pending q \<and> P q then q\<lparr>qr_state := QuestionSuperseded\<rparr> else q) qs) = map qr_id qs"
  by (induction qs) auto

lemma no_pending_supersede: "no_pending (supersede_questions P og s) \<longleftrightarrow> (\<forall>q\<in>set (ts_questions s). pending q \<longrightarrow> P q)"
  by (auto simp: no_pending_filter supersede_questions_def filter_supersede filter_empty_conv)

lemma no_pending_supersede_mono: "no_pending s \<Longrightarrow> no_pending (supersede_questions P og s)"
  unfolding no_pending_supersede by (simp add: no_pending_def)

lemma supersede_questions_ok:
  assumes "questions_ok s"
  shows "questions_ok (supersede_questions P og s)"
proof -
  let ?s = "supersede_questions P og s"
  have pend: "filter pending (ts_questions ?s) = filter (\<lambda>q. pending q \<and> \<not> P q) (ts_questions s)"
    by (simp add: supersede_questions_def filter_supersede)
  also have "\<dots> = filter (\<lambda>q. \<not> P q) (filter pending (ts_questions s))" by (simp add: conj_commute)
  finally have "length (filter pending (ts_questions ?s)) \<le> 1"
    using assms length_filter_le[of "\<lambda>q. \<not> P q" "filter pending (ts_questions s)"] by (simp add: questions_ok_def)
  moreover have "distinct (map qr_id (ts_questions ?s))"
    using assms by (simp only: questions_ok_def supersede_questions_def) (simp add: map_id_supersede del: map_map)
  moreover have "qn_intent (qr_question q) \<le> intent_of ?s" if "q \<in> set (ts_questions ?s)" "pending q" for q
  proof -
    have "q \<in> set (filter pending (ts_questions ?s))" using that by simp
    then show ?thesis unfolding pend using assms by (simp add: questions_ok_def)
  qed
  ultimately show ?thesis using assms no_pending_supersede_mono[of s P og] by (simp add: questions_ok_def)
qed

lemma supersede_core: "task_core s \<Longrightarrow> task_core (supersede_questions P og s)"
  using supersede_questions_ok[of s P og] no_pending_supersede_mono[of s P og]
  by (auto simp: task_core_def mark_ok_def plans_ok_def)

lemma supersede_held [simp]: "plan_holds (supersede_questions P og s) = plan_holds s"
  by (simp add: plan_holds_def)

lemma supersede_all: "no_pending (supersede_terminal_questions og s)"
  by (simp add: supersede_terminal_questions_def no_pending_supersede)

text \<open>The single pending question.\<close>

lemma pending_unique:
  assumes "questions_ok s" "q \<in> set (ts_questions s)" "pending q" "w \<in> set (ts_questions s)" "pending w"
  shows "w = q"
proof -
  have "q \<in> set (filter pending (ts_questions s))" "w \<in> set (filter pending (ts_questions s))" using assms by simp_all
  moreover have "length (filter pending (ts_questions s)) \<le> 1" using assms(1) by (simp add: questions_ok_def)
  ultimately show ?thesis by (cases "filter pending (ts_questions s)") auto
qed

lemma insert_question_core:
  assumes core: "task_core s" and ins: "insert_question q s = Inr s'"
  shows "task_core s' \<and> lifecycle_of s' = Some LifecycleWaiting \<and> ts_rows s' = ts_rows s \<and> ts_obligations s' = ts_obligations s"
proof -
  obtain t where t: "ts_task s = Some t" "tr_lifecycle t \<in> {LifecycleRunning, LifecycleWaiting}" "qn_intent q = tr_intent t"
    using ins by (auto simp: insert_question_def split: option.splits if_splits)
  define s1 where "s1 = supersede_pending_questions (tr_intent t) ''state'' s"
  define s2 where "s2 = s1\<lparr>ts_questions := ts_questions s1 @ [\<lparr>qr_question = q, qr_state = QuestionPending, qr_answer = None\<rparr>]\<rparr>"
  have s': "s' = append_event (ts_id s) (tr_revision t + 1) ''question.published'' ''state'' (move_lifecycle (\<lambda>_. True) LifecycleWaiting s2)"
    and fresh: "\<not> list_ex pending (ts_questions s1)" "qn_id q \<notin> set (map qr_id (ts_questions s1))"
    using ins t by (auto simp: insert_question_def Let_def s1_def s2_def split: if_splits)
  have s1: "task_core s1" unfolding s1_def supersede_pending_questions_def by (rule supersede_core[OF core])
  have none: "filter pending (ts_questions s1) = []" using fresh(1) by (simp add: list_ex_iff filter_empty_conv)
  have int: "intent_of s1 = tr_intent t" using t(1) by (simp add: s1_def supersede_pending_questions_def intent_of_def)
  have life: "lifecycle_of s1 = Some (tr_lifecycle t)" using t(1) by (simp add: s1_def supersede_pending_questions_def)
  have "questions_ok s'"
    using s1 fresh(2) none t(3) int
    by (auto simp: task_core_def questions_ok_def s' s2_def pending_def filter_empty_conv)
  moreover have "\<not> ts_plan_block s1" using s1 life t(2) by (auto simp: task_core_def mark_ok_def)
  then have "mark_ok s'" by (simp add: mark_ok_def s' s2_def)
  moreover have "plans_ok s'" using s1 by (simp add: task_core_def s' s2_def plans_ok_def)
  ultimately show ?thesis using life by (simp add: task_core_def s' s2_def s1_def supersede_pending_questions_def)
qed

lemma supersede_forks_core:
  assumes "task_core s" "supersede_forks rows s = (b, s')"
  shows "task_core s' \<and> ts_task s' = ts_task s \<and> ts_rows s' = ts_rows s \<and> ts_plan_block s' = ts_plan_block s \<and> ts_obligations s' = ts_obligations s \<and>
    ts_plans s' = ts_plans s \<and> ts_selection s' = ts_selection s \<and> ts_hold s' = ts_hold s \<and> ts_criteria s' = ts_criteria s \<and>
    (no_pending s \<longrightarrow> no_pending s') \<and> (b \<longrightarrow> no_pending s')"
  using assms
proof (induction rows arbitrary: s b s')
  case (Cons r rows)
  show ?case
  proof (cases "row_fork r")
    case None
    then have "supersede_forks rows s = (b, s')" using Cons.prems(2) by simp
    then show ?thesis by (rule Cons.IH[OF Cons.prems(1)])
  next
    case (Some qv)
    obtain q ver where qv: "row_fork r = Some (q, ver)" using Some by (cases qv) auto
    let ?P = "\<lambda>w. qr_id w = q \<and> qn_revision (qr_question w) = ver"
    let ?s = "supersede_questions ?P ''state'' s"
    show ?thesis
    proof (cases "list_ex (\<lambda>w. pending w \<and> ?P w) (ts_questions s)")
      case True
      then obtain w where w: "w \<in> set (ts_questions s)" "pending w" "?P w" by (auto simp: list_ex_iff)
      have "no_pending ?s"
        unfolding no_pending_supersede using pending_unique[OF task_coreD(1)[OF Cons.prems(1)] w(1,2)] w(3) by blast
      moreover obtain b' s'' where rest: "supersede_forks rows ?s = (b', s'')" by fastforce
      have "supersede_forks (r # rows) s = (True, s'')" using qv True rest by (simp only: supersede_forks.simps option.case prod.case Let_def if_True snd_conv)
      then have "s'' = s'" using Cons.prems(2) by simp
      ultimately show ?thesis using Cons.IH[OF supersede_core[OF Cons.prems(1)] rest] by simp
    next
      case False
      then have "supersede_forks rows s = (b, s')" using Cons.prems(2) qv
        by (simp only: supersede_forks.simps option.case prod.case Let_def if_False)
      then show ?thesis by (rule Cons.IH[OF Cons.prems(1)])
    qed
  qed
qed simp

lemma resume_waiting_sel [simp]:
  "ts_questions (resume_waiting s) = ts_questions s" "ts_obligations (resume_waiting s) = ts_obligations s"
  "ts_selection (resume_waiting s) = ts_selection s" "ts_rows (resume_waiting s) = ts_rows s" "ts_plans (resume_waiting s) = ts_plans s"
  "ts_hold (resume_waiting s) = ts_hold s" "ts_plan_block (resume_waiting s) = ts_plan_block s" "ts_criteria (resume_waiting s) = ts_criteria s"
  "intent_of (resume_waiting s) = intent_of s"
  "lifecycle_of (resume_waiting s) = map_option (\<lambda>l. if l = LifecycleWaiting then LifecycleRunning else l) (lifecycle_of s)"
  by (simp_all add: resume_waiting_def)

lemma resume_waiting_core: "task_core s \<Longrightarrow> no_pending s \<Longrightarrow> task_core (resume_waiting s)"
  by (rule task_core_move[of s]) (auto simp: task_core_def mark_ok_def)

lemma supersede_plan_questions_core:
  assumes "task_core s"
  shows "task_core (supersede_plan_questions s)" "ts_plans (supersede_plan_questions s) = ts_plans s"
    "ts_selection (supersede_plan_questions s) = ts_selection s" "ts_obligations (supersede_plan_questions s) = ts_obligations s"
    "ts_criteria (supersede_plan_questions s) = ts_criteria s"
proof -
  obtain b s' where s': "supersede_forks (ts_rows s) s = (b, s')" by fastforce
  note * = supersede_forks_core[OF assms s']
  show "task_core (supersede_plan_questions s)" "ts_plans (supersede_plan_questions s) = ts_plans s"
    "ts_selection (supersede_plan_questions s) = ts_selection s" "ts_obligations (supersede_plan_questions s) = ts_obligations s"
    "ts_criteria (supersede_plan_questions s) = ts_criteria s"
    using * resume_waiting_core[of s'] by (auto simp: supersede_plan_questions_def s')
qed

section \<open>Steps\<close>

text \<open>The writes of the plan.\<close>

inductive plan_write :: "('p, 'a) task_store \<Rightarrow> ('p, 'a) task_store \<Rightarrow> bool" where
  pw_selection: "record_plan_selection digest kind rows s = (res, s') \<Longrightarrow> plan_write s s'"
| pw_row: "update_plan_row cap handler ver digest change s = (res, s') \<Longrightarrow> plan_write s s'"
| pw_revision: "record_plan_revision handler reopens ver digest body s = (res, s') \<Longrightarrow> plan_write s s'"
| pw_assessment: "record_plan_assessment handler ver digest pver verdict assessment changes s = (res, s') \<Longrightarrow> plan_write s s'"
| pw_hold: "hold_for_plan_gate observed s = (res, s') \<Longrightarrow> plan_write s s'"
| pw_unresolved: "mark_plan_applicability_unresolved s = (res, s') \<Longrightarrow> plan_write s s'"
| pw_fork: "publish_plan_fork q cap handler ver digest change s = (res, s') \<Longrightarrow> plan_write s s'"

inductive task_step :: "('p, 'a) task_store \<Rightarrow> ('p, 'a) task_store \<Rightarrow> bool" where
  tk_plan: "plan_write s s' \<Longrightarrow> task_step s s'"
| tk_publish: "publish_question q s = (res, s') \<Longrightarrow> task_step s s'"
| tk_answer: "answer_question qid ver selection author s = (res, s') \<Longrightarrow> task_step s s'"
| tk_pause: "pause_for_workflow_off s = (res, s') \<Longrightarrow> task_step s s'"
| tk_steer: "steer_task intent ver s = (res, s') \<Longrightarrow> task_step s s'"
| tk_cancel: "cancel_task_with_origin intent origin s = (res, s') \<Longrightarrow> task_step s s'"
| tk_complete: "complete_if_eligible s = (res, s') \<Longrightarrow> task_step s s'"
| tk_outcome_unknown: "task_step s (mark_outcome_unknown_block s)"
| tk_no_ready: "task_step s (mark_no_ready s)"
| tk_unresolved: "mark_applicability_unresolved i s = (res, s') \<Longrightarrow> task_step s s'"
| tk_materialize: "task_step s (materialize_obligations generate s)"
| tk_evidence: "insert_evidence i index scope observation digest s = (res, s') \<Longrightarrow> task_step s s'"
| tk_evidence_all: "task_step s (insert_evidence_for_task generate scope observation digest s)"
| tk_invalidate: "invalidate_evidence i s = (res, s') \<Longrightarrow> task_step s s'"
| tk_delete: "delete_scoped_record i s = (res, s') \<Longrightarrow> task_step s s'"
| tk_attempts: "task_step s (s\<lparr>ts_unknown := n\<rparr>)"

text \<open>A task as it is created.\<close>

definition task_created :: "('p, 'a) task_store \<Rightarrow> bool" where
  "task_created s \<longleftrightarrow> lifecycle_of s = Some LifecycleRunning \<and> ts_questions s = [] \<and> ts_obligations s = [] \<and> ts_evidence s = [] \<and>
     ts_selection s = None \<and> ts_rows s = [] \<and> ts_plans s = [] \<and> ts_hold s = None \<and> \<not> ts_plan_block s"

lemma created_inv: "task_created s \<Longrightarrow> task_inv s"
  by (simp add: task_created_def task_inv_def task_core_def questions_ok_def mark_ok_def plans_ok_def no_pending_def plan_holds_def)

subsection \<open>Writes of the plan\<close>

lemma core_rows: "task_core s \<Longrightarrow> task_core (s\<lparr>ts_rows := rows\<rparr>)"
  by (rule task_core_frame) simp_all

lemma settle_rows_inv: "task_inv s \<Longrightarrow> task_inv (settle_plan_state (s\<lparr>ts_rows := rows\<rparr>))"
  by (rule settle_state_inv[OF core_rows[OF task_inv_core]])

lemma apply_change_rows: "apply_plan_row_change cap handler change s = Inr s' \<Longrightarrow> \<exists>rows. s' = s\<lparr>ts_rows := rows\<rparr>"
  by (auto simp: apply_plan_row_change_def split: option.splits if_splits)

lemma apply_changes_rows: "apply_changes handler changes s = Inr s' \<Longrightarrow> \<exists>rows. s' = s\<lparr>ts_rows := rows\<rparr>"
proof (induction changes arbitrary: s)
  case Nil
  then have "s' = s\<lparr>ts_rows := ts_rows s\<rparr>" by simp
  then show ?case by blast
next
  case (Cons c changes)
  obtain cap change s1 where c: "c = (cap, change)" "apply_plan_row_change cap handler change s = Inr s1" "apply_changes handler changes s1 = Inr s'"
    using Cons.prems by (cases c) (auto split: sum.splits)
  obtain rows1 rows where "s1 = s\<lparr>ts_rows := rows1\<rparr>" "s' = s1\<lparr>ts_rows := rows\<rparr>"
    using apply_change_rows[OF c(2)] Cons.IH[OF c(3)] by blast
  then have "s' = s\<lparr>ts_rows := rows\<rparr>" by simp
  then show ?case by blast
qed

lemma max_revision_ge: "p \<in> set ps \<Longrightarrow> pv_revision p \<le> foldr max (map pv_revision ps) (0 :: nat)"
  by (induction ps) auto

lemma record_selection_inv:
  assumes inv: "task_inv s" and rec: "record_plan_selection digest kind rows s = (res, s')"
  shows "task_inv s'"
proof -
  note core = task_inv_core[OF inv]
  have renew: "task_core (s1\<lparr>ts_selection := Some sel, ts_rows := new\<rparr>)"
    if "task_core s1" "ts_plans s1 = ts_plans s" "\<forall>p\<in>set (ts_plans s). pv_selection p \<le> se_revision sel" for s1 sel new
    using that by (simp add: task_core_def questions_ok_def mark_ok_def plans_ok_def no_pending_def)
  have none: "ts_plans s = []" if "ts_selection s = None" using core that by (auto simp: task_core_def plans_ok_def)
  have some: "\<forall>p\<in>set (ts_plans s). pv_selection p \<le> se_revision cur + 1" if "ts_selection s = Some cur" for cur
    using core that by (fastforce simp: task_core_def plans_ok_def)
  have reset: "task_core (snd (reset_recovered_plan_rows rows s))"
    using core core_rows[OF core] by (simp only: reset_recovered_plan_rows_def) simp
  show ?thesis
    using rec inv renew[OF core refl] renew[OF supersede_plan_questions_core(1)[OF core] supersede_plan_questions_core(2)[OF core]] none some
      settle_state_inv[OF reset]
    by (auto simp: record_plan_selection_def Let_def intro!: settle_state_inv split: sum.splits option.splits if_splits prod.splits)
qed

lemma update_row_inv: "task_inv s \<Longrightarrow> update_plan_row cap handler ver digest change s = (res, s') \<Longrightarrow> task_inv s'"
  by (auto simp: update_plan_row_def dest!: apply_change_rows intro!: settle_rows_inv split: sum.splits)

lemma add_plan_core:
  assumes core: "task_core s" and bound: "check_plan_binding ver digest s = Inr u"
  shows "task_core (s\<lparr>ts_plans := ts_plans s @ [\<lparr>pv_revision = next_plan_revision s, pv_selection = ver, pv_body = body, pv_verdict = None, pv_assessment = None\<rparr>]\<rparr>)"
proof -
  obtain cur where cur: "ts_selection s = Some cur" "se_revision cur = ver"
    using bound by (auto simp: check_plan_binding_def split: sum.splits option.splits if_splits)
  have "pv_revision p < next_plan_revision s" if "p \<in> set (ts_plans s)" for p
    using max_revision_ge[OF that] by (simp add: next_plan_revision_def)
  moreover have "pv_selection p \<le> ver" if "p \<in> set (ts_plans s)" for p
    using core cur that by (auto simp: task_core_def plans_ok_def)
  ultimately show ?thesis
    using core cur by (auto simp: task_core_def questions_ok_def mark_ok_def plans_ok_def no_pending_def sorted_wrt_append)
qed

lemma record_revision_inv:
  assumes inv: "task_inv s" and rec: "record_plan_revision handler reopens ver digest body s = (res, s')"
  shows "task_inv s'"
proof (cases "s' = s")
  case False
  define s1 where "s1 = s\<lparr>ts_plans := ts_plans s @ [\<lparr>pv_revision = next_plan_revision s, pv_selection = ver, pv_body = body, pv_verdict = None, pv_assessment = None\<rparr>]\<rparr>"
  obtain u s2 change where *: "check_plan_binding ver digest s = Inr u" "apply_plan_row_change handler handler change s1 = Inr s2"
    "s' = settle_plan_state (s2\<lparr>ts_rows := map (reopen_row reopens) (ts_rows s2)\<rparr>)"
    using rec False by (auto simp: record_plan_revision_def Let_def s1_def split: sum.splits)
  have "task_core s1" unfolding s1_def by (rule add_plan_core[OF task_inv_core[OF inv] *(1)])
  then show ?thesis using apply_change_rows[OF *(2)] *(3) by (auto intro!: settle_state_inv core_rows)
qed (use inv in simp)

lemma plans_map_core:
  assumes "task_core s" "\<And>p. pv_revision (f p) = pv_revision p \<and> pv_selection (f p) = pv_selection p"
  shows "task_core (s\<lparr>ts_plans := map f (ts_plans s)\<rparr>)"
proof -
  have "pv_revision \<circ> f = pv_revision" "pv_selection \<circ> f = pv_selection" using assms(2) by auto
  then show ?thesis using assms by (auto simp: task_core_def questions_ok_def mark_ok_def plans_ok_def no_pending_def)
qed

lemma record_assessment_inv:
  assumes inv: "task_inv s" and rec: "record_plan_assessment handler ver digest pver verdict assessment changes s = (res, s')"
  shows "task_inv s'"
proof (cases "s' = s")
  case False
  define f where "f = (\<lambda>p. if assessable pver ver s p then p\<lparr>pv_verdict := Some verdict, pv_assessment := Some assessment\<rparr> else p)"
  obtain s2 where *: "apply_changes handler changes (s\<lparr>ts_plans := map f (ts_plans s)\<rparr>) = Inr s2" "s' = settle_plan_state s2"
    using rec False by (auto simp: record_plan_assessment_def Let_def f_def split: sum.splits if_splits)
  have "task_core (s\<lparr>ts_plans := map f (ts_plans s)\<rparr>)"
    by (rule plans_map_core[OF task_inv_core[OF inv]]) (simp add: f_def)
  then show ?thesis using apply_changes_rows[OF *(1)] *(2) by (auto intro!: settle_state_inv core_rows)
qed (use inv in simp)

lemma hold_core: "task_core s \<Longrightarrow> task_core (s\<lparr>ts_hold := h\<rparr>)"
  by (rule task_core_frame) simp_all

lemma settle_held_inv: "task_inv s \<Longrightarrow> task_inv (settle_plan_state (s\<lparr>ts_hold := h\<rparr>))"
  by (rule settle_state_inv[OF hold_core[OF task_inv_core]])

lemma hold_inv: "task_inv s \<Longrightarrow> hold_for_plan_gate observed s = (res, s') \<Longrightarrow> task_inv s'"
  by (auto simp: hold_for_plan_gate_def Let_def intro: settle_held_inv settle_state_inv[OF task_inv_core] split: sum.splits if_splits)

lemma plan_unresolved_inv: "task_inv s \<Longrightarrow> mark_plan_applicability_unresolved s = (res, s') \<Longrightarrow> task_inv s'"
  by (auto simp: mark_plan_applicability_unresolved_def unresolve_plan_rows_def intro: settle_rows_inv
      split: sum.splits if_splits)

lemma fork_inv:
  assumes inv: "task_inv s" and pub: "publish_plan_fork q cap handler ver digest change s = (res, s')"
  shows "task_inv s'"
proof (cases "s' = s")
  case False
  define s1 where "s1 = (if lifecycle_of s = Some LifecycleBlocked then release_plan_owned_block s else s)"
  obtain s2 s3 where *: "apply_plan_row_change cap handler change s1 = Inr s2" "insert_question q s2 = Inr s3" "s' = settle_plan_state s3"
    using pub False unfolding publish_plan_fork_def Let_def s1_def[symmetric] by (auto split: sum.splits)
  have "task_core s1" using task_inv_core[OF inv] release_core[OF task_inv_core[OF inv]] by (simp add: s1_def)
  then have "task_core s2" using apply_change_rows[OF *(1)] core_rows by auto
  then show ?thesis using insert_question_core[OF _ *(2)] *(3) settle_state_inv by blast
qed (use inv in simp)

lemma plan_write_inv: "task_inv s \<Longrightarrow> plan_write s s' \<Longrightarrow> task_inv s'"
  by (erule plan_write.cases)
    (auto intro: record_selection_inv update_row_inv record_revision_inv record_assessment_inv hold_inv plan_unresolved_inv fork_inv)

subsection \<open>The other operations\<close>

lemma publish_inv: "task_inv s \<Longrightarrow> publish_question q s = (res, s') \<Longrightarrow> task_inv s'"
  by (auto simp: publish_question_def task_inv_def dest: insert_question_core split: sum.splits)

lemma frame_inv:
  assumes "task_inv s" "ts_task s' = ts_task s" "ts_questions s' = ts_questions s" "ts_plan_block s' = ts_plan_block s"
    "ts_plans s' = ts_plans s" "ts_selection s' = ts_selection s" "ts_rows s' = ts_rows s" "ts_hold s' = ts_hold s"
  shows "task_inv s'"
proof -
  have "lifecycle_of s' = lifecycle_of s" using assms(2) by (simp add: lifecycle_of_def)
  then show ?thesis using assms task_core_frame[of s s'] by (simp add: task_inv_def plan_holds_def)
qed

lemma retain_rows: "\<exists>rows. retain_answered_plan_fork q ver s = s\<lparr>ts_rows := rows\<rparr> \<and> length rows = length (ts_rows s)"
proof -
  have "s = s\<lparr>ts_rows := ts_rows s\<rparr>" by simp
  then have "\<exists>rows. s = s\<lparr>ts_rows := rows\<rparr> \<and> length rows = length (ts_rows s)" by blast
  then show ?thesis unfolding retain_answered_plan_fork_def by (auto split: option.splits)
qed

text \<open>What an accepted answer leaves before the plan's lifecycle rule runs.\<close>

lemma answer_core:
  assumes core: "task_core s" and ans: "answer_question_commit qid ver selection author s = Inr s'"
  shows "\<exists>s5. task_core s5 \<and> no_pending s5 \<and> lifecycle_of s5 = Some LifecycleRunning \<and> s' = settle_plan_lifecycle s5 \<and>
    ts_obligations s5 = ts_obligations s \<and> length (ts_rows s5) = length (ts_rows s) \<and> ts_hold s5 = ts_hold s"
proof -
  obtain t row where t: "ts_task s = Some t" and row: "find (\<lambda>q. qr_id q = qid) (ts_questions s) = Some row" "pending row"
    using ans by (auto simp: answer_question_commit_def Let_def split: option.splits if_splits)
  define qs where "qs = map (\<lambda>w. if qr_id w = qid then w\<lparr>qr_state := QuestionAnswered, qr_answer := Some (selection, author)\<rparr> else w) (ts_questions s)"
  obtain ans' evs where s': "s' = settle_plan_lifecycle (retain_answered_plan_fork qid ver
      ((move_lifecycle (\<lambda>_. True) LifecycleRunning (s\<lparr>ts_questions := qs\<rparr>))\<lparr>ts_events := evs, ts_answers := ans'\<rparr>))"
    using ans t row by (auto simp: answer_question_commit_def Let_def qs_def append_event_def split: if_splits sum.splits)
  define s4 where "s4 = (move_lifecycle (\<lambda>_. True) LifecycleRunning (s\<lparr>ts_questions := qs\<rparr>))\<lparr>ts_events := evs, ts_answers := ans'\<rparr>"
  have mem: "row \<in> set (ts_questions s)" "qr_id row = qid" using find_SomeD[OF row(1)] by simp_all
  have none: "\<forall>q\<in>set qs. \<not> pending q"
    using pending_unique[OF task_coreD(1)[OF core] mem(1) row(2)] mem(2) by (auto simp: qs_def pending_def)
  have ids: "map qr_id qs = map qr_id (ts_questions s)" by (simp add: qs_def comp_def if_distrib cong: map_cong)
  have "questions_ok s4"
    using core none ids by (simp add: s4_def task_core_def questions_ok_def no_pending_def filter_empty_conv)
  moreover have "\<not> ts_plan_block s" using core mem(1) row(2) by (auto simp: task_core_def mark_ok_def no_pending_def)
  then have "mark_ok s4" by (simp add: s4_def mark_ok_def)
  moreover have "plans_ok s4" using core by (simp add: s4_def task_core_def plans_ok_def)
  ultimately have "task_core s4" by (rule task_coreI)
  moreover obtain rows where "retain_answered_plan_fork qid ver s4 = s4\<lparr>ts_rows := rows\<rparr>" "length rows = length (ts_rows s4)"
    using retain_rows by blast
  moreover have "no_pending s4" "lifecycle_of s4 = Some LifecycleRunning" using none t by (simp_all add: s4_def no_pending_def)
  ultimately show ?thesis
    using s'[folded s4_def] by (intro exI[of _ "s4\<lparr>ts_rows := rows\<rparr>"]) (simp add: core_rows no_pending_def s4_def)
qed

lemma answer_inv:
  assumes "task_inv s" "answer_question qid ver selection author s = (res, s')"
  shows "task_inv s'"
proof (cases "answer_question_commit qid ver selection author s")
  case (Inl e)
  then show ?thesis
    using assms by (auto simp: answer_question_def record_denied_attempt_def intro: frame_inv)
next
  case (Inr s'')
  then show ?thesis
    using assms answer_core[OF task_inv_core[OF assms(1)] Inr] settle_lifecycle_inv by (auto simp: answer_question_def)
qed

lemma steer_inv:
  assumes inv: "task_inv s" and st: "steer_task intent ver s = (res, s')"
  shows "task_inv s'"
proof (cases "s' = s")
  case False
  note core = task_inv_core[OF inv]
  obtain t where t: "ts_task s = Some t" "\<not> lifecycle_is_terminal (tr_lifecycle t)"
    using st False by (auto simp: steer_task_def Let_def split: option.splits if_splits)
  define s1 where "s1 = upd_task (\<lambda>t. t\<lparr>tr_revision := tr_revision t + 1, tr_intent := tr_intent t + 1, tr_cursor := tr_cursor t + 1\<rparr>) s"
  define s2 where "s2 = supersede_pending_questions (tr_intent t + 1) ''human'' s1"
  define s4 where "s4 = set_lifecycle (\<lambda>l. l = LifecyclePaused) LifecycleRunning
    (append_event (ts_id s) (tr_revision t + 1) ''task.steered'' ''human'' (resume_waiting s2))"
  have s': "s' = settle_plan_lifecycle s4"
    using st t False by (auto simp: steer_task_def Let_def s1_def s2_def s4_def split: if_splits)
  have life: "lifecycle_of s1 = lifecycle_of s" "intent_of s1 = intent_of s + 1" "intent_of s = tr_intent t"
    using t(1) by (simp_all add: s1_def lifecycle_of_def intent_of_def upd_task_def)
  have "task_core s1"
    using core life by (auto simp: task_core_def questions_ok_def mark_ok_def plans_ok_def no_pending_def s1_def)
  then have "task_core s2" unfolding s2_def supersede_pending_questions_def by (rule supersede_core)
  moreover have "qn_intent (qr_question q) \<noteq> tr_intent t + 1" if "q \<in> set (ts_questions s)" "pending q" for q
    using core that life(3) by (auto simp: task_core_def questions_ok_def)
  then have none: "no_pending s2" by (simp add: s2_def supersede_pending_questions_def no_pending_supersede s1_def)
  moreover have "ts_questions s4 = ts_questions s2" "intent_of s4 = intent_of s2" "ts_plans s4 = ts_plans s2" "ts_selection s4 = ts_selection s2"
    by (simp_all add: s4_def)
  moreover have "lifecycle_of s4 = Some LifecycleBlocked" if "ts_plan_block s4"
  proof -
    have "ts_plan_block s" using that by (simp add: s4_def s2_def supersede_pending_questions_def s1_def)
    then have "lifecycle_of s = Some LifecycleBlocked" using core t by (auto simp: task_core_def mark_ok_def lifecycle_is_terminal_def)
    then show ?thesis by (simp add: s4_def s2_def supersede_pending_questions_def life(1))
  qed
  ultimately show "task_inv s'" unfolding s' by - (rule settle_lifecycle_inv, rule task_core_move[of s2], simp_all)
qed (use inv in simp)

lemma not_running_inv: "task_core s \<Longrightarrow> lifecycle_of s \<noteq> Some LifecycleRunning \<Longrightarrow> task_inv s"
  by (simp add: task_inv_def)

lemma pause_inv:
  assumes "task_inv s" "pause_for_workflow_off s = (res, s')"
  shows "task_inv s'"
proof (cases "s' = s")
  case False
  then obtain t where t: "ts_task s = Some t" "tr_lifecycle t \<in> {LifecycleRunning, LifecycleWaiting}"
    and s': "s' = append_event (ts_id s) (tr_revision t + 1) ''task.paused'' ''runtime''
      (move_lifecycle (\<lambda>l. l \<in> {LifecycleRunning, LifecycleWaiting}) LifecyclePaused s)"
    using assms(2) by (auto simp: pause_for_workflow_off_def split: option.splits if_splits)
  have "\<not> ts_plan_block s" using task_inv_core[OF assms(1)] t by (auto simp: task_core_def mark_ok_def)
  then have "task_core s'" using t by - (rule task_core_move[OF task_inv_core[OF assms(1)]], auto simp: s')
  then show ?thesis using t by (intro not_running_inv) (auto simp: s')
qed (use assms in simp)

text \<open>Ending a task kills its questions.\<close>

lemma end_core:
  assumes "task_core s" "l \<in> {LifecycleCompleted, LifecycleCancelled}"
  shows "task_core (append_event agg n ty og (supersede_terminal_questions origin (move_lifecycle (\<lambda>_. True) l s)))"
proof -
  let ?s = "supersede_terminal_questions origin s"
  have "task_core ?s" using assms(1) by (simp add: supersede_terminal_questions_def supersede_core)
  moreover have "no_pending ?s" by (rule supersede_all)
  moreover have "ts_questions (supersede_terminal_questions origin (move_lifecycle (\<lambda>_. True) l s)) = ts_questions ?s"
    by (simp add: supersede_terminal_questions_def supersede_questions_def)
  moreover have "lifecycle_of (move_lifecycle (\<lambda>_. True) l s) = Some l" if "ts_plan_block s"
    using assms(1) that by (auto simp: task_core_def mark_ok_def)
  ultimately show ?thesis
    using assms(2) by - (rule task_core_move[of ?s], auto simp: supersede_terminal_questions_def)
qed

lemma cancel_inv:
  assumes inv: "task_inv s" and ca: "cancel_task_with_origin intent origin s = (res, s')"
  shows "task_inv s'"
proof (cases "s' = s")
  case False
  obtain t where t: "ts_task s = Some t" using ca False by (auto simp: cancel_task_with_origin_def split: option.splits if_splits)
  show ?thesis
  proof (cases "lifecycle_is_terminal (tr_lifecycle t)")
    case True
    then have "s' = supersede_terminal_questions origin s"
      using ca False t by (auto simp: cancel_task_with_origin_def split: if_splits)
    then show ?thesis using inv t True supersede_core[OF task_inv_core[OF inv]] by (simp add: task_inv_def supersede_terminal_questions_def)
  next
    case other: False
    then have s': "s' = append_event (ts_id s) (tr_revision t + 1) ''task.cancelled'' origin
        (supersede_terminal_questions origin (move_lifecycle (\<lambda>_. True) LifecycleCancelled s))"
      using ca False t by (auto simp: cancel_task_with_origin_def split: if_splits)
    then show ?thesis
      using end_core[OF task_inv_core[OF inv]] t by (intro not_running_inv) (simp_all add: supersede_terminal_questions_def)
  qed
qed (use inv in simp)

lemma pause_running_core:
  assumes "task_core s"
  shows "task_core (set_lifecycle (\<lambda>l. l = LifecycleRunning) LifecycleWaiting s)"
  by (rule task_core_move[OF assms]) (use assms in \<open>auto simp: task_core_def questions_ok_def mark_ok_def\<close>)

lemma complete_task_inv:
  assumes inv: "task_inv s" and co: "complete_if_eligible s = (res, s')"
  shows "task_inv s'"
proof (cases "s' = s")
  case False
  obtain t where t: "ts_task s = Some t" using co False by (auto simp: complete_if_eligible_def split: option.splits)
  from co False t consider "s' = set_lifecycle (\<lambda>l. l = LifecycleRunning) LifecycleWaiting s"
    | "s' = append_event (ts_id s) (tr_revision t + 1) ''task.completed'' ''state''
        (supersede_terminal_questions ''state'' (move_lifecycle (\<lambda>_. True) LifecycleCompleted s))"
    by (auto simp: complete_if_eligible_def split: if_splits prod.splits)
  then show ?thesis
  proof cases
    case 1
    then show ?thesis using pause_running_core[OF task_inv_core[OF inv]] by (intro not_running_inv) (auto split: if_splits)
  next
    case 2
    then show ?thesis
      using end_core[OF task_inv_core[OF inv]] t by (intro not_running_inv) (simp_all add: supersede_terminal_questions_def)
  qed
qed (use inv in simp)

text \<open>A foreign block leaves no running task behind, so the rows may have changed with it.\<close>

lemma block_foreign_inv:
  assumes core: "task_core s" and "P LifecycleRunning"
  shows "task_inv (block_foreign P s)"
proof (rule not_running_inv)
  show "lifecycle_of (block_foreign P s) \<noteq> Some LifecycleRunning"
    using assms(2) by (auto simp: block_foreign_def split: if_splits)
  have "no_pending s" if "lifecycle_of s = Some l" "l \<in> {LifecycleRunning, LifecycleCompleted, LifecycleCancelled}" for l
    using core that by (auto simp: task_core_def questions_ok_def)
  then show "task_core (block_foreign P s)"
    unfolding block_foreign_def by - (rule task_core_move[OF core], auto split: if_splits)
qed

lemma upd_obligation_core: "task_core s \<Longrightarrow> task_core (upd_obligation i f s)"
  by (erule task_core_frame) simp_all

lemma unresolved_inv: "task_inv s \<Longrightarrow> mark_applicability_unresolved i s = (res, s') \<Longrightarrow> task_inv s'"
  by (auto simp: mark_applicability_unresolved_def unresolve_plan_rows_def
      intro!: block_foreign_inv core_rows upd_obligation_core task_inv_core[of s] split: if_splits)

lemma invalidate_inv:
  assumes "task_inv s" "invalidate_evidence i s = (res, s')"
  shows "task_inv s'"
proof -
  have "task_core (s\<lparr>ts_evidence := es\<rparr>)" for es by (rule task_core_frame[OF task_inv_core[OF assms(1)]]) simp_all
  then show ?thesis
    using assms by (auto simp: invalidate_evidence_def intro!: block_foreign_inv upd_obligation_core split: option.splits if_splits)
qed

lemma evidence_for_task_sel:
  "ts_task (fold (\<lambda>i. add_evidence (g i) a b c i) is s) = ts_task s \<and> ts_questions (fold (\<lambda>i. add_evidence (g i) a b c i) is s) = ts_questions s \<and>
   ts_plan_block (fold (\<lambda>i. add_evidence (g i) a b c i) is s) = ts_plan_block s \<and> ts_plans (fold (\<lambda>i. add_evidence (g i) a b c i) is s) = ts_plans s \<and>
   ts_selection (fold (\<lambda>i. add_evidence (g i) a b c i) is s) = ts_selection s \<and> ts_rows (fold (\<lambda>i. add_evidence (g i) a b c i) is s) = ts_rows s \<and>
   ts_hold (fold (\<lambda>i. add_evidence (g i) a b c i) is s) = ts_hold s \<and> ts_criteria (fold (\<lambda>i. add_evidence (g i) a b c i) is s) = ts_criteria s"
  by (induction "is" arbitrary: s) (simp_all add: add_evidence_def)

lemma task_step_inv:
  assumes inv: "task_inv s" and step: "task_step s s'"
  shows "task_inv s'"
  using step
proof cases
  case (tk_evidence i index scope observation digest res)
  then have "s' = s \<or> (\<exists>j. s' = add_evidence i scope observation digest j s)" by (auto simp: insert_evidence_def split: if_splits)
  then show ?thesis using inv by (auto simp: add_evidence_def intro: frame_inv[OF inv])
next
  case (tk_evidence_all generate scope observation digest)
  then show ?thesis
    using evidence_for_task_sel[of generate scope observation digest "map ob_id (ts_obligations s)" s] frame_inv[OF inv]
    by (simp add: insert_evidence_for_task_def)
next
  case (tk_delete i res)
  then show ?thesis
    using inv by (auto simp: delete_scoped_record_def Let_def intro: frame_inv[OF inv] split: option.splits if_splits)
next
  case (tk_materialize generate)
  then show ?thesis by (auto simp: materialize_obligations_def intro: frame_inv[OF inv])
next
  case (tk_attempts n)
  then show ?thesis by (auto intro: frame_inv[OF inv])
qed (use inv in \<open>auto simp: mark_outcome_unknown_block_def mark_no_ready_def lifecycle_is_terminal_def
  intro: plan_write_inv publish_inv answer_inv pause_inv steer_inv cancel_inv complete_task_inv unresolved_inv invalidate_inv
    block_foreign_inv[OF task_inv_core]\<close>)

interpretation tkm: state_machine task_created task_step task_inv
  by unfold_locales (auto intro: created_inv task_step_inv)

definition task_reachable :: "('p, 'a) task_store \<Rightarrow> bool" where
  "task_reachable s \<longleftrightarrow> (\<exists>s0. task_created s0 \<and> task_step\<^sup>*\<^sup>* s0 s)"

lemma task_reachable_created: "task_created s \<Longrightarrow> task_reachable s"
  by (auto simp: task_reachable_def)

lemma task_reachable_step: "task_reachable s \<Longrightarrow> task_step s s' \<Longrightarrow> task_reachable s'"
  unfolding task_reachable_def by (meson rtranclp.rtrancl_into_rtrancl)

lemma task_reachable_inv: "task_reachable s \<Longrightarrow> task_inv s"
  unfolding task_reachable_def using tkm.run_inv by blast

end
