(* ===== verification/Task_Theorems.thy ===== *)
theory Task_Theorems
  imports Task_Props
begin

text \<open>
  What the life of a task guarantees: a running task is held by nothing, a block the plan did not make
  survives every write of the plan, completion happens exactly when no work is open, and two behaviours
  that go against the documentation of the store.
\<close>

section \<open>Blocks the plan does not own\<close>

definition foreign_block :: "('p, 'a) task_store \<Rightarrow> bool" where
  "foreign_block s \<longleftrightarrow> lifecycle_of s = Some LifecycleBlocked \<and> \<not> ts_plan_block s"

lemma settle_foreign: "foreign_block s \<Longrightarrow> foreign_block (settle_plan_state s)"
proof -
  assume s: "foreign_block s"
  have "lifecycle_of (settle_hold s) = lifecycle_of s" by (simp add: lifecycle_of_def)
  then show ?thesis using s by (simp add: foreign_block_def settle_plan_state_def settle_plan_lifecycle_def release_plan_owned_block_def)
qed

lemma foreign_other [simp]:
  "foreign_block (s\<lparr>ts_rows := a\<rparr>) = foreign_block s" "foreign_block (s\<lparr>ts_plans := b\<rparr>) = foreign_block s"
  "foreign_block (s\<lparr>ts_hold := c\<rparr>) = foreign_block s" "foreign_block (s\<lparr>ts_selection := d\<rparr>) = foreign_block s"
  by (simp_all add: foreign_block_def)

lemma foreign_supersede_forks: "foreign_block s \<Longrightarrow> foreign_block (snd (supersede_forks rows s))"
proof (induction rows arbitrary: s)
  case (Cons r rows)
  have "foreign_block (supersede_questions P og s)" for P og using Cons.prems by (simp add: foreign_block_def)
  then show ?case using Cons by (auto simp: Let_def split: option.splits)
qed simp

lemma foreign_supersede: "foreign_block s \<Longrightarrow> foreign_block (supersede_plan_questions s)"
  using foreign_supersede_forks[of s "ts_rows s"]
  by (cases "supersede_forks (ts_rows s) s") (simp add: supersede_plan_questions_def foreign_block_def)

lemma foreign_no_question: "foreign_block s \<Longrightarrow> insert_question q (s\<lparr>ts_rows := rows\<rparr>) \<noteq> Inr s'"
  by (cases "ts_task s") (auto simp: foreign_block_def insert_question_def)

lemma plan_write_foreign:
  assumes s: "foreign_block s" and w: "plan_write s s'"
  shows "foreign_block s'"
  using w
proof cases
  case (pw_selection digest kind rows res)
  have "foreign_block (settle_plan_state (s1\<lparr>ts_selection := sel, ts_rows := new\<rparr>))" if "foreign_block s1" for s1 sel new
    using that by (simp add: settle_foreign)
  moreover have "foreign_block (settle_plan_state (snd (reset_recovered_plan_rows rows s)))"
    using s by (simp add: reset_recovered_plan_rows_def settle_foreign)
  ultimately show ?thesis
    using pw_selection s foreign_supersede[OF s]
    by (auto simp: record_plan_selection_def Let_def split: sum.splits option.splits if_splits prod.splits)
next
  case (pw_row cap handler ver digest change res)
  then show ?thesis using s by (auto simp: update_plan_row_def dest!: apply_change_rows intro!: settle_foreign split: sum.splits)
next
  case (pw_revision handler reopens ver digest body res)
  then show ?thesis
    using s by (auto simp: record_plan_revision_def Let_def dest!: apply_change_rows intro!: settle_foreign split: sum.splits)
next
  case (pw_assessment handler ver digest pver verdict assessment changes res)
  then show ?thesis
    using s by (auto simp: record_plan_assessment_def Let_def dest!: apply_changes_rows intro!: settle_foreign split: sum.splits if_splits)
next
  case (pw_hold observed res)
  then show ?thesis using s by (auto simp: hold_for_plan_gate_def Let_def intro!: settle_foreign split: sum.splits)
next
  case (pw_unresolved res)
  then show ?thesis
    using s by (auto simp: mark_plan_applicability_unresolved_def unresolve_plan_rows_def intro!: settle_foreign split: sum.splits if_splits)
next
  case (pw_fork q cap handler ver digest change res)
  have "release_plan_owned_block s = s" using s by (simp add: foreign_block_def release_plan_owned_block_def)
  then show ?thesis
    using pw_fork s foreign_no_question[OF s]
    by (auto simp: publish_plan_fork_def Let_def dest!: apply_change_rows split: sum.splits if_splits)
qed

section \<open>Obligations that stay unresolved\<close>

definition unresolved_id :: "string \<Rightarrow> ('p, 'a) task_store \<Rightarrow> bool" where
  "unresolved_id i s \<longleftrightarrow> (\<exists>b\<in>set (ts_obligations s). ob_id b = i \<and> ob_applicability b = Unresolved)"

lemma unresolved_same: "unresolved_id i s \<Longrightarrow> ts_obligations s' = ts_obligations s \<Longrightarrow> unresolved_id i s'"
  by (simp add: unresolved_id_def)

lemma unresolved_upd:
  assumes "unresolved_id i s" "\<And>b. ob_id (f b) = ob_id b \<and> (ob_applicability b = Unresolved \<longrightarrow> ob_applicability (f b) = Unresolved)"
  shows "unresolved_id i (upd_obligation j f s)"
proof -
  obtain b where b: "b \<in> set (ts_obligations s)" "ob_id b = i" "ob_applicability b = Unresolved" using assms(1) by (auto simp: unresolved_id_def)
  let ?g = "\<lambda>b. if ob_id b = j then f b else b"
  have "?g b \<in> set (ts_obligations (upd_obligation j f s))" using b(1) by (auto simp: upd_obligation_def)
  then show ?thesis using b(2,3) assms(2)[of b] unfolding unresolved_id_def by (intro bexI[of _ "?g b"]) auto
qed

lemma release_obligations [simp]: "ts_obligations (release_plan_owned_block s) = ts_obligations s"
  by (simp add: release_plan_owned_block_def)

lemma supersede_forks_obligations: "ts_obligations (snd (supersede_forks rows s)) = ts_obligations s"
  by (induction rows s rule: supersede_forks.induct) (simp_all add: Let_def split: option.splits)

lemma supersede_plan_obligations [simp]: "ts_obligations (supersede_plan_questions s) = ts_obligations s"
  using supersede_forks_obligations[of "ts_rows s" s]
  by (cases "supersede_forks (ts_rows s) s") (simp add: supersede_plan_questions_def)

lemma insert_question_obligations: "insert_question q s = Inr s' \<Longrightarrow> ts_obligations s' = ts_obligations s"
  by (auto simp: insert_question_def Let_def supersede_pending_questions_def split: option.splits if_splits)

lemma plan_write_obligations: "plan_write s s' \<Longrightarrow> ts_obligations s' = ts_obligations s"
proof (induction rule: plan_write.induct)
  case (pw_selection digest kind rows s res s')
  then show ?case
    by (auto simp: record_plan_selection_def Let_def reset_recovered_plan_rows_def split: sum.splits option.splits if_splits prod.splits)
next
  case (pw_fork q cap handler ver digest change s res s')
  then show ?case
    by (auto simp: publish_plan_fork_def Let_def dest!: apply_change_rows insert_question_obligations split: sum.splits if_splits)
qed (auto simp: update_plan_row_def record_plan_revision_def record_plan_assessment_def hold_for_plan_gate_def mark_plan_applicability_unresolved_def
    unresolve_plan_rows_def Let_def dest!: apply_change_rows apply_changes_rows split: sum.splits if_splits)

lemma answer_obligations:
  "answer_question_commit qid ver selection author s = Inr s' \<Longrightarrow> ts_obligations s' = ts_obligations s"
  by (auto simp: answer_question_commit_def Let_def retain_answered_plan_fork_def split: option.splits if_splits sum.splits)

lemma unresolved_evidence: "unresolved_id i s \<Longrightarrow> unresolved_id i (add_evidence e a b c j s)"
  unfolding add_evidence_def by (rule unresolved_upd) (simp_all add: unresolved_id_def)

lemma unresolved_evidence_all: "unresolved_id i s \<Longrightarrow> unresolved_id i (fold (\<lambda>j. add_evidence (g j) a b c j) js s)"
  by (induction js arbitrary: s) (simp_all add: unresolved_evidence)

lemma block_foreign_obligations [simp]: "ts_obligations (block_foreign P s) = ts_obligations s"
  by (simp add: block_foreign_def)

lemma unresolved_block_foreign [simp]: "unresolved_id i (block_foreign P s) = unresolved_id i s"
  by (simp add: unresolved_id_def)

lemma task_step_unresolved:
  assumes un: "unresolved_id i s" and step: "task_step s s'"
  shows "unresolved_id i s'"
  using step
proof cases
  case tk_plan
  then show ?thesis using un plan_write_obligations unresolved_same by blast
next
  case (tk_publish q res)
  then show ?thesis using un insert_question_obligations by (fastforce simp: publish_question_def intro: unresolved_same split: sum.splits)
next
  case (tk_answer qid ver selection author res)
  then show ?thesis
    using un answer_obligations by (fastforce simp: answer_question_def record_denied_attempt_def intro: unresolved_same split: sum.splits)
next
  case (tk_unresolved j res)
  have "unresolved_id i (unresolve_plan_rows (upd_obligation j (\<lambda>b. b\<lparr>ob_applicability := Unresolved\<rparr>) s))"
    by (rule unresolved_same[OF unresolved_upd[OF un]]) (simp_all add: unresolve_plan_rows_def)
  then show ?thesis
    using tk_unresolved un by (auto simp: mark_applicability_unresolved_def intro: unresolved_same split: if_splits)
next
  case (tk_materialize generate)
  then show ?thesis using un by (auto simp: materialize_obligations_def unresolved_id_def)
next
  case (tk_evidence e index scope observation digest res)
  then show ?thesis using un by (auto simp: insert_evidence_def intro: unresolved_evidence split: if_splits)
next
  case (tk_evidence_all generate scope observation digest)
  then show ?thesis using un by (simp add: insert_evidence_for_task_def unresolved_evidence_all)
next
  case (tk_invalidate e res)
  have "unresolved_id i (upd_obligation j (\<lambda>b. b\<lparr>ob_applicability := Unresolved, ob_execution := ObligationStale\<rparr>) (s\<lparr>ts_evidence := es\<rparr>))" for j es
    by (rule unresolved_upd) (use un in \<open>simp_all add: unresolved_id_def\<close>)
  then show ?thesis
    using tk_invalidate un by (auto simp: invalidate_evidence_def intro: unresolved_same split: option.splits if_splits)
next
  case (tk_delete e res)
  have "unresolved_id i (upd_obligation j (\<lambda>b. b\<lparr>ob_execution := ObligationPending\<rparr>) (s\<lparr>ts_evidence := es\<rparr>))" for j es
    by (rule unresolved_upd) (use un in \<open>simp_all add: unresolved_id_def\<close>)
  then show ?thesis
    using tk_delete un by (auto simp: delete_scoped_record_def Let_def intro: unresolved_same split: option.splits if_splits)
qed (use un in \<open>auto simp: pause_for_workflow_off_def steer_task_def cancel_task_with_origin_def complete_if_eligible_def Let_def
    mark_outcome_unknown_block_def mark_no_ready_def supersede_pending_questions_def supersede_terminal_questions_def
    intro: unresolved_same split: option.splits if_splits prod.splits\<close>)

section \<open>The properties\<close>

text \<open>
  C16. A running task is held by nothing: after any operations of the store, a task whose lifecycle is running
  has no gate hold and no plan row that holds it, waits on no question and carries no plan-owned block.
\<close>

theorem running_not_held:
  assumes "task_reachable s" "lifecycle_of s = Some LifecycleRunning"
  shows "\<not> plan_holds s \<and> no_pending s \<and> \<not> ts_plan_block s"
  using task_reachable_inv[OF assms(1)] assms(2) by (auto simp: task_inv_def task_core_def questions_ok_def mark_ok_def)

text \<open>
  C36. A block that the plan did not make (a lost receipt, stale evidence, no ready action) survives every
  sequence of plan writes: selections, row updates, revisions, assessments, gate holds, forks.
\<close>

theorem foreign_block_survives:
  assumes "lifecycle_of s = Some LifecycleBlocked" "\<not> ts_plan_block s" "plan_write\<^sup>*\<^sup>* s s'"
  shows "lifecycle_of s' = Some LifecycleBlocked"
proof -
  have "foreign_block s" using assms(1,2) by (simp add: foreign_block_def)
  with assms(3) have "foreign_block s'" by (induction rule: rtranclp_induct) (auto dest: plan_write_foreign)
  then show ?thesis by (simp add: foreign_block_def)
qed

text \<open>The outcome of a completion call on an open task, by branch.\<close>

lemma completion_eligible:
  assumes "ts_task s = Some t" "\<not> lifecycle_is_terminal (tr_lifecycle t)"
  shows "fst (complete_if_eligible s) = Inr () \<longleftrightarrow>
      list_all (\<lambda>b. ob_execution b = ObligationSatisfied \<and> ob_applicability b \<noteq> Unresolved) (ts_obligations s) \<and>
      list_all (\<lambda>r. pl_execution r = ObligationSatisfied \<and> pl_applicability r \<noteq> Unresolved) (ts_rows s) \<and>
      ts_unknown s = 0 \<and> stale_evidence_count s = 0"
proof -
  have "fst (complete_if_eligible s) = Inr () \<longleftrightarrow> completion_counts s = (0, 0, 0) \<and> stale_evidence_count s = 0"
    using assms by (cases "completion_counts s") (simp add: complete_if_eligible_def)
  also have "completion_counts s = (0, 0, 0) \<longleftrightarrow>
      list_all (\<lambda>b. ob_execution b = ObligationSatisfied \<and> ob_applicability b \<noteq> Unresolved) (ts_obligations s) \<and>
      list_all (\<lambda>r. pl_execution r = ObligationSatisfied \<and> pl_applicability r \<noteq> Unresolved) (ts_rows s) \<and> ts_unknown s = 0"
    by (auto simp: completion_counts_def filter_empty_conv list_all_iff)
  finally show ?thesis by blast
qed

lemma completion_done:
  assumes "ts_task s = Some t" "complete_if_eligible s = (Inr u, s')"
  shows "no_pending s'"
    and "s' = s\<lparr>ts_task := Some (t\<lparr>tr_lifecycle := LifecycleCompleted, tr_revision := tr_revision t + 1, tr_cursor := tr_cursor t + 1\<rparr>),
       ts_questions := map (\<lambda>q. if pending q then q\<lparr>qr_state := QuestionSuperseded\<rparr> else q) (ts_questions s),
       ts_events := ts_events s @ map (supersede_event ''state'') (filter pending (ts_questions s)) @
         [\<lparr>te_aggregate = ts_id s, te_revision = tr_revision t + 1, te_type = ''task.completed'', te_origin = ''state''\<rparr>]\<rparr>"
proof -
  have s': "s' = append_event (ts_id s) (tr_revision t + 1) ''task.completed'' ''state''
      (supersede_terminal_questions ''state'' (move_lifecycle (\<lambda>_. True) LifecycleCompleted s))"
    using assms by (auto simp: complete_if_eligible_def split: if_splits prod.splits)
  show "no_pending s'"
    using supersede_all[of "''state''" "move_lifecycle (\<lambda>_. True) LifecycleCompleted s"] by (simp add: s' no_pending_def)
  show "s' = s\<lparr>ts_task := Some (t\<lparr>tr_lifecycle := LifecycleCompleted, tr_revision := tr_revision t + 1, tr_cursor := tr_cursor t + 1\<rparr>),
       ts_questions := map (\<lambda>q. if pending q then q\<lparr>qr_state := QuestionSuperseded\<rparr> else q) (ts_questions s),
       ts_events := ts_events s @ map (supersede_event ''state'') (filter pending (ts_questions s)) @
         [\<lparr>te_aggregate = ts_id s, te_revision = tr_revision t + 1, te_type = ''task.completed'', te_origin = ''state''\<rparr>]\<rparr>"
    unfolding s' append_event_def supersede_terminal_questions_def supersede_questions_def move_lifecycle_def upd_task_def
    by (simp add: assms(1))
qed

lemma completion_refused:
  assumes "ts_task s = Some t" "\<not> lifecycle_is_terminal (tr_lifecycle t)" "complete_if_eligible s = (Inl e, s')"
    "completion_counts s = (n, m, k)"
  shows "0 < n + m + k \<and> e = CompletionOpen n m k \<and>
     s' = s\<lparr>ts_task := Some (if tr_lifecycle t = LifecycleRunning then t\<lparr>tr_lifecycle := LifecycleWaiting\<rparr> else t)\<rparr> \<or>
     n + m + k = 0 \<and> 0 < stale_evidence_count s \<and> e = CompletionStale (stale_evidence_count s) \<and> s' = s"
  using assms by (auto simp: complete_if_eligible_def set_lifecycle_def upd_task_def split: if_splits)

text \<open>
  C37. Completion is guarded exactly. A task that is open (it exists and has not ended) completes if and only if every
  criterion obligation and every plan row is satisfied and none is unresolved, no attempt is unknown and
  none of its evidence is stale. On completion the task row alone moves to completed, with its revision
  and cursor counted, every pending question is superseded and the events say so; all else is kept. A refusal
  names the counts of unsatisfied, unresolved and unknown work and at most moves a running task to waiting, or,
  when only evidence is stale, names how much and changes nothing.
\<close>

theorem completion_exact:
  assumes "ts_task s = Some t" "\<not> lifecycle_is_terminal (tr_lifecycle t)"
  shows "(fst (complete_if_eligible s) = Inr () \<longleftrightarrow>
      list_all (\<lambda>b. ob_execution b = ObligationSatisfied \<and> ob_applicability b \<noteq> Unresolved) (ts_obligations s) \<and>
      list_all (\<lambda>r. pl_execution r = ObligationSatisfied \<and> pl_applicability r \<noteq> Unresolved) (ts_rows s) \<and>
      ts_unknown s = 0 \<and> stale_evidence_count s = 0) \<and>
    (case complete_if_eligible s of
       (Inr _, s') \<Rightarrow>
         no_pending s' \<and>
         s' = s\<lparr>ts_task := Some (t\<lparr>tr_lifecycle := LifecycleCompleted, tr_revision := tr_revision t + 1, tr_cursor := tr_cursor t + 1\<rparr>),
           ts_questions := map (\<lambda>q. if pending q then q\<lparr>qr_state := QuestionSuperseded\<rparr> else q) (ts_questions s),
           ts_events := ts_events s @ map (supersede_event ''state'') (filter pending (ts_questions s)) @
             [\<lparr>te_aggregate = ts_id s, te_revision = tr_revision t + 1, te_type = ''task.completed'', te_origin = ''state''\<rparr>]\<rparr>
     | (Inl e, s') \<Rightarrow>
         (\<exists>unsatisfied unresolved.
            unsatisfied = length (filter (\<lambda>b. ob_execution b \<noteq> ObligationSatisfied) (ts_obligations s)) +
              length (filter (\<lambda>r. pl_execution r \<noteq> ObligationSatisfied) (ts_rows s)) \<and>
            unresolved = length (filter (\<lambda>b. ob_applicability b = Unresolved) (ts_obligations s)) +
              length (filter (\<lambda>r. pl_applicability r = Unresolved) (ts_rows s)) \<and>
            (0 < unsatisfied + unresolved + ts_unknown s \<and> e = CompletionOpen unsatisfied unresolved (ts_unknown s) \<and>
             s' = s\<lparr>ts_task := Some (if tr_lifecycle t = LifecycleRunning then t\<lparr>tr_lifecycle := LifecycleWaiting\<rparr> else t)\<rparr> \<or>
             unsatisfied + unresolved + ts_unknown s = 0 \<and> 0 < stale_evidence_count s \<and>
             e = CompletionStale (stale_evidence_count s) \<and> s' = s)))"
proof -
  obtain res s' where run: "complete_if_eligible s = (res, s')" by fastforce
  note eligible = completion_eligible[OF assms]
  show ?thesis
  proof (cases res)
    case (Inr u)
    then show ?thesis using eligible completion_done[OF assms(1), of u s'] run by simp
  next
    case (Inl e)
    then have run': "complete_if_eligible s = (Inl e, s')" using run by simp
    note refused = completion_refused[OF assms run' completion_counts_def]
    show ?thesis using eligible refused unfolding run' prod.case sum.case by blast
  qed
qed

text \<open>
  C39. A criterion obligation that went unresolved stays unresolved for good: no operation of the store makes
  it required again, fresh evidence included, so the task never completes.
\<close>

theorem unresolved_never_completes:
  assumes "b \<in> set (ts_obligations s)" "ob_applicability b = Unresolved" "task_step\<^sup>*\<^sup>* s s'"
  shows "fst (complete_if_eligible s') \<noteq> Inr ()"
proof -
  have "unresolved_id (ob_id b) s" using assms(1,2) by (auto simp: unresolved_id_def)
  with assms(3) have "unresolved_id (ob_id b) s'" by (induction rule: rtranclp_induct) (auto dest: task_step_unresolved)
  then have "filter (\<lambda>b. ob_applicability b = Unresolved) (ts_obligations s') \<noteq> []" by (auto simp: unresolved_id_def filter_empty_conv)
  then show ?thesis by (auto simp: complete_if_eligible_def completion_counts_def split: option.splits)
qed

text \<open>
  C40. An accepted answer makes the task running whatever held it: when the plan does not hold the task, an
  answer to its pending question ends a pause for the workflow switch and a block made for a lost receipt.
\<close>

theorem answer_ends_any_hold:
  assumes "task_reachable s" "ts_rows s = []" "ts_hold s = None" "answer_question_commit qid ver selection author s = Inr s'"
  shows "lifecycle_of s' = Some LifecycleRunning"
proof -
  obtain s5 where s5: "lifecycle_of s5 = Some LifecycleRunning" "s' = settle_plan_lifecycle s5" "ts_rows s5 = []" "ts_hold s5 = None"
    using answer_core[OF task_inv_core[OF task_reachable_inv[OF assms(1)]] assms(4)] assms(2,3) by auto
  then show ?thesis by (simp add: settle_plan_lifecycle_def plan_holds_def)
qed

section \<open>Witnesses\<close>

definition demo_task :: "(unit, unit) task_store" where
  "demo_task = \<lparr>ts_id = ''t'', ts_task = Some \<lparr>tr_lifecycle = LifecycleRunning, tr_revision = 1, tr_intent = 1, tr_cursor = 0\<rparr>,
     ts_criteria = [''k''], ts_questions = [], ts_answers = [], ts_obligations = [], ts_evidence = [], ts_unknown = 0, ts_selection = None,
     ts_rows = [], ts_plans = [], ts_hold = None, ts_plan_block = False, ts_events = []\<rparr>"

lemma demo_task_sel [simp]:
  "lifecycle_of demo_task = Some LifecycleRunning" "ts_plan_block demo_task = False" "ts_selection demo_task = None" "ts_rows demo_task = []"
  "ts_hold demo_task = None" "ts_obligations demo_task = []" "ts_questions demo_task = []" "ts_unknown demo_task = 0" "ts_evidence demo_task = []"
  "ts_task demo_task = Some \<lparr>tr_lifecycle = LifecycleRunning, tr_revision = 1, tr_intent = 1, tr_cursor = 0\<rparr>"
  by (simp_all add: demo_task_def lifecycle_of_def)

lemma demo_created: "task_reachable demo_task"
  by (rule task_reachable_created) (simp add: task_created_def, simp add: demo_task_def)

theorem running_not_held_witness: "task_reachable demo_task \<and> \<not> plan_holds demo_task"
  using running_not_held[OF demo_created] demo_created by simp

text \<open>A lost receipt blocks the task, then a refused effect asks for the gate.\<close>

definition demo_blocked :: "(unit, unit) task_store" where
  "demo_blocked = mark_outcome_unknown_block demo_task"

lemma demo_blocked_sel: "lifecycle_of demo_blocked = Some LifecycleBlocked" "\<not> ts_plan_block demo_blocked"
  by (simp_all add: demo_blocked_def mark_outcome_unknown_block_def block_foreign_def lifecycle_is_terminal_def)

theorem foreign_block_survives_witness:
  "lifecycle_of (snd (hold_for_plan_gate HoldUnassessed demo_blocked)) = Some LifecycleBlocked"
proof -
  have "plan_write demo_blocked (snd (hold_for_plan_gate HoldUnassessed demo_blocked))" by (rule pw_hold[OF surjective_pairing])
  then show ?thesis by (rule foreign_block_survives[OF demo_blocked_sel r_into_rtranclp])
qed

theorem completion_exact_witness:
  "lifecycle_of (snd (complete_if_eligible demo_task)) = Some LifecycleCompleted \<and> no_pending (snd (complete_if_eligible demo_task))"
proof -
  have "fst (complete_if_eligible demo_task) = Inr ()"
    by (simp add: complete_if_eligible_def completion_counts_def stale_evidence_count_def lifecycle_is_terminal_def)
  then obtain s' where s': "complete_if_eligible demo_task = (Inr (), s')" by (metis prod.collapse)
  have "no_pending s'" "lifecycle_of s' = Some LifecycleCompleted"
    using completion_exact[OF demo_task_sel(10)] unfolding s' by (auto simp: lifecycle_is_terminal_def lifecycle_of_def)
  then show ?thesis by (simp add: s')
qed

text \<open>An obligation whose evidence went stale is satisfied again by fresh evidence.\<close>

definition demo_stale :: "(unit, unit) task_store" where
  "demo_stale = demo_task\<lparr>ts_obligations := [\<lparr>ob_id = ''o'', ob_criterion = ''k'', ob_applicability = Unresolved, ob_execution = ObligationStale\<rparr>]\<rparr>"

theorem unresolved_never_completes_witness:
  "fst (complete_if_eligible (snd (insert_evidence ''e'' 0 ''s'' ''seen'' ''d'' demo_stale))) \<noteq> Inr ()"
proof (rule unresolved_never_completes)
  show "\<lparr>ob_id = ''o'', ob_criterion = ''k'', ob_applicability = Unresolved, ob_execution = ObligationStale\<rparr> \<in> set (ts_obligations demo_stale)"
    by (simp add: demo_stale_def)
  show "task_step\<^sup>*\<^sup>* demo_stale (snd (insert_evidence ''e'' 0 ''s'' ''seen'' ''d'' demo_stale))"
    by (rule r_into_rtranclp) (rule tk_evidence[OF surjective_pairing])
qed simp

text \<open>A question is asked, the workflow is switched off, the question is answered.\<close>

definition demo_question :: question where
  "demo_question = \<lparr>qn_id = QuestionId ''q'', qn_revision = 1, qn_intent = 1, qn_prompt = ''p'', qn_options = [], qn_recommended = OptionId ''o'', qn_basis = ''b''\<rparr>"

definition demo_asked :: "(unit, unit) task_store" where
  "demo_asked = snd (publish_question demo_question demo_task)"

definition demo_paused :: "(unit, unit) task_store" where
  "demo_paused = snd (pause_for_workflow_off demo_asked)"

lemma demo_paused_reachable: "task_reachable demo_paused"
  unfolding demo_paused_def demo_asked_def
  by (rule task_reachable_step[OF task_reachable_step[OF demo_created tk_publish[OF surjective_pairing]] tk_pause[OF surjective_pairing]])

lemmas demo_task_eval = publish_question_def insert_question_def supersede_pending_questions_def supersede_questions_def demo_question_def
  pause_for_workflow_off_def move_lifecycle_def upd_task_def append_event_def

lemma demo_asked_sel: "ts_task demo_asked = Some \<lparr>tr_lifecycle = LifecycleWaiting, tr_revision = 2, tr_intent = 1, tr_cursor = 1\<rparr>"
  "ts_questions demo_asked = [\<lparr>qr_question = demo_question, qr_state = QuestionPending, qr_answer = None\<rparr>]"
  "ts_rows demo_asked = []" "ts_hold demo_asked = None"
  by (simp_all add: demo_asked_def demo_task_eval Let_def)

lemma demo_paused_sel: "lifecycle_of demo_paused = Some LifecyclePaused" "ts_rows demo_paused = []" "ts_hold demo_paused = None"
  "\<exists>s'. answer_question_commit (QuestionId ''q'') 1 (AnswerCustom ''a'') ''human'' demo_paused = Inr s'"
proof -
  have "\<not> is_blank ''a''" by (simp add: is_blank_def blank_bytes.simps[of "[_]"] byte_val_def)
  then show "\<exists>s'. answer_question_commit (QuestionId ''q'') 1 (AnswerCustom ''a'') ''human'' demo_paused = Inr s'"
    using demo_asked_sel by (simp add: demo_paused_def pause_for_workflow_off_def move_lifecycle_def upd_task_def append_event_def
        answer_question_commit_def Let_def lifecycle_is_terminal_def demo_question_def pending_def)
qed (use demo_asked_sel in \<open>simp_all add: demo_paused_def pause_for_workflow_off_def\<close>)

theorem answer_ends_any_hold_witness:
  "lifecycle_of demo_paused = Some LifecyclePaused \<and>
   (\<exists>s'. answer_question_commit (QuestionId ''q'') 1 (AnswerCustom ''a'') ''human'' demo_paused = Inr s' \<and> lifecycle_of s' = Some LifecycleRunning)"
proof -
  obtain s' where s': "answer_question_commit (QuestionId ''q'') 1 (AnswerCustom ''a'') ''human'' demo_paused = Inr s'"
    using demo_paused_sel(4) by blast
  from answer_ends_any_hold[OF demo_paused_reachable demo_paused_sel(2,3) s'] s' demo_paused_sel(1) show ?thesis by blast
qed

end
