(* ===== verification/Plan.thy ===== *)
theory Plan
  imports Learning Task_Store
begin

text \<open>
  Planning, \<open>src/src/actions.rs\<close>: which capabilities a request needs and who can close them, the order of
  the parts of a plan, its mechanical findings, and the handlers that select, frame, plan, assess and judge
  over the rows of the task. The digest of the request facts (SHA-256 over their JSON text) and the JSON
  text of a handler's output are the arguments \<open>digest\<close> and \<open>to_json\<close>; the reply of the model and the
  JSON reader of its trimmed text are arguments of \<open>judge_plan\<close>. A stored plan is the plan its JSON text encodes.
\<close>

section \<open>Requests\<close>

datatype contract_basis = ContractAbsent | ContractApproved

record work_part =
  wp_id :: string
  wp_criteria :: "string list"
  wp_depends_on :: "string list"
  wp_proof :: string

text \<open>Who a machine answer attributes itself to, and the one mandate that lets it answer.\<close>

datatype decision_author = AuthorSystem | AuthorAgent | AuthorHuman

fun decision_author_as_str :: "decision_author \<Rightarrow> string" where
  "decision_author_as_str AuthorSystem = ''system''"
| "decision_author_as_str AuthorAgent = ''agent''"
| "decision_author_as_str AuthorHuman = ''human''"

record delegation =
  dg_action :: string
  dg_task :: string

definition delegation_covers :: "delegation \<Rightarrow> string \<Rightarrow> string \<Rightarrow> bool" where
  "delegation_covers d action task_id \<longleftrightarrow> dg_action d = action \<and> dg_task d = task_id"

record plan_request =
  rq_kind :: request_kind
  rq_surfaces :: surface_scan
  rq_contract :: contract_basis
  rq_parts :: "work_part list"
  rq_delegation :: "delegation option"
  rq_author :: "decision_author option"

datatype skip_reason = NotNeeded | AlreadySatisfied | NeedsInformation | Unsupported

datatype implementation = ImplLocal | ImplPurpose | ImplLocalAndPurpose | ImplUnavailable

text \<open>The ids of the catalog with how this build runs them.\<close>

definition catalog :: "(string \<times> implementation) list" where
  "catalog = [(resolve_decision_id, ImplLocal), (inspect_system_id, ImplLocal), (test_assumption_id, ImplLocal),
     (prepare_environment_id, ImplLocal), (frame_goal_id, ImplLocal), (challenge_direction_id, ImplPurpose),
     (design_contracts_id, ImplPurpose), (plan_work_id, ImplLocal), (assess_plan_id, ImplLocalAndPurpose)]"

definition registered :: "string \<Rightarrow> implementation option" where
  "registered i = map_of catalog i"

section \<open>Needs and routes\<close>

datatype need = NeedRequired | NeedUnresolved | NeedSkip skip_reason

definition need_when :: "bool \<Rightarrow> need" where
  "need_when holds = (if holds then NeedRequired else NeedSkip NotNeeded)"

definition coordinated :: "work_part list \<Rightarrow> bool" where
  "coordinated parts \<longleftrightarrow> length parts > 1 \<or> list_ex (\<lambda>p. wp_depends_on p \<noteq> []) parts"

text \<open>The needs of the request facts alone, in selection order.\<close>

definition fact_needs :: "plan_request \<Rightarrow> (string \<times> need \<times> string option) list" where
  "fact_needs request =
     (let known = decided (rq_surfaces request);
          approved = (rq_contract request = ContractApproved);
          risky = map_option (\<lambda>ss. list_ex (\<lambda>s. s \<in> ss \<and> surface_is_risk s) all_surfaces) known;
          frame = (if approved then NeedSkip AlreadySatisfied else NeedRequired);
          risk = (if approved then NeedSkip AlreadySatisfied
                  else (case risky of None \<Rightarrow> NeedUnresolved | Some r \<Rightarrow> need_when r));
          kind = rq_kind request;
          plan = (case risky of None \<Rightarrow> NeedUnresolved
                  | Some r \<Rightarrow> need_when (kind = KindPlanOnly \<or> coordinated (rq_parts request) \<or> (r \<and> \<not> approved)));
          inspect = (case known of None \<Rightarrow> NeedRequired | Some _ \<Rightarrow> NeedSkip AlreadySatisfied);
          security = (case known of None \<Rightarrow> NeedUnresolved
                      | Some ss \<Rightarrow> need_when (list_ex (\<lambda>s. s \<in> ss \<and> triggers_security s) all_surfaces));
          edits = (kind = KindChange \<or> kind = KindDeliver) in
      [(frame_goal_id, frame, None), (challenge_direction_id, risk, None), (design_contracts_id, risk, None),
       (plan_work_id, plan, None), (assess_plan_id, plan, None), (inspect_system_id, inspect, None),
       (assess_security_id, security, None), (audit_tests_id, need_when edits, None), (implement_change_id, need_when edits, None),
       (deliver_change_id, need_when (kind = KindDeliver), None), (review_change_id, need_when (kind = KindAudit), None),
       (diagnose_issue_id, need_when (kind = KindDiagnose), None),
       (assess_readiness_id, NeedRequired, if kind = KindPlanOnly then Some assess_plan_id else None)])"

text \<open>A learned condition overrides a decided need.\<close>

definition learned_need :: "learning_definition \<Rightarrow> condition_facts \<Rightarrow> string \<Rightarrow> need \<Rightarrow> need" where
  "learned_need learned facts capability need =
     (if need = NeedUnresolved then need
      else (case applicability learned capability facts of
              Some EffectRequire \<Rightarrow> NeedRequired
            | Some EffectDecline \<Rightarrow> NeedSkip NotNeeded
            | None \<Rightarrow> need))"

definition needs :: "plan_request \<Rightarrow> learning_definition \<Rightarrow> (string \<times> need \<times> string option) list" where
  "needs request learned =
     (let facts = facts_for_selection (rq_kind request) (decided (rq_surfaces request)) in
      map (\<lambda>(capability, need, equivalent). (capability, learned_need learned facts capability need, equivalent))
        (fact_needs request))"

datatype route_block = NotInBuild | RouteUnavailable

datatype route = RouteLocal string | RouteEquivalent string | RoutePurpose string | RouteBlocked route_block

definition runs_locally :: "string \<Rightarrow> bool" where
  "runs_locally i \<longleftrightarrow> registered i \<in> {Some ImplLocal, Some ImplLocalAndPurpose}"

definition route_of :: "string \<Rightarrow> string option \<Rightarrow> route" where
  "route_of capability equivalent =
     (if runs_locally capability then RouteLocal capability
      else if registered capability = Some ImplPurpose then RoutePurpose capability
      else (case equivalent of
              Some e \<Rightarrow> if runs_locally e then RouteEquivalent e
                else if registered capability \<noteq> None then RouteBlocked RouteUnavailable else RouteBlocked NotInBuild
            | None \<Rightarrow> if registered capability \<noteq> None then RouteBlocked RouteUnavailable else RouteBlocked NotInBuild))"

record selected_obligation =
  so_capability :: string
  so_applicability :: obligation_applicability
  so_route :: route

definition obligations_of :: "(string \<times> need \<times> string option) list \<Rightarrow> selected_obligation list" where
  "obligations_of ns = List.map_filter (\<lambda>(capability, need, equivalent).
     case need of
       NeedSkip _ \<Rightarrow> None
     | NeedRequired \<Rightarrow> Some \<lparr>so_capability = capability, so_applicability = Required, so_route = route_of capability equivalent\<rparr>
     | NeedUnresolved \<Rightarrow> Some \<lparr>so_capability = capability, so_applicability = Unresolved, so_route = route_of capability equivalent\<rparr>) ns"

definition decline_reason :: "(string \<times> need \<times> string option) list \<Rightarrow> string \<Rightarrow> skip_reason" where
  "decline_reason ns i =
     (case find (\<lambda>(capability, _). capability = i) ns of
        Some (_, NeedSkip reason, _) \<Rightarrow> reason
      | _ \<Rightarrow> if registered i \<noteq> None then NotNeeded else Unsupported)"

definition row_write :: "selected_obligation \<Rightarrow> plan_row_write" where
  "row_write row =
     (let (handler, route_blocker) = (case so_route row of
            RouteLocal h \<Rightarrow> (Some h, None)
          | RouteEquivalent h \<Rightarrow> (Some h, None)
          | RoutePurpose h \<Rightarrow> (Some h, Some CapabilityUnavailable)
          | RouteBlocked _ \<Rightarrow> (None, Some CapabilityUnavailable));
          reason = (if so_applicability row = Unresolved then Some DependencyBlocked else route_blocker) in
      \<lparr>rw_capability = so_capability row, rw_applicability = so_applicability row,
       rw_stage = (so_capability row \<in> set plan_stages), rw_handler = handler,
       rw_blocker = map_option (\<lambda>r. plan_blocker r (so_capability row)) reason\<rparr>)"

record canonical_facts =
  ca_kind :: request_kind
  ca_surfaces :: "surface set option"
  ca_contract :: contract_basis
  ca_parts :: "work_part list"

definition canonical :: "plan_request \<Rightarrow> canonical_facts" where
  "canonical request = \<lparr>ca_kind = rq_kind request, ca_surfaces = decided (rq_surfaces request),
     ca_contract = rq_contract request, ca_parts = rq_parts request\<rparr>"

section \<open>Plans\<close>

record plan =
  pn_order :: "string list"
  pn_parts :: "work_part list"

datatype plan_finding =
    ZeroCriteria
  | UncoveredCriterion string
  | UnknownCriterion string string
  | MissingProof string

record assessment =
  as_plan_revision :: nat
  as_verdict :: plan_verdict
  as_findings :: "plan_finding list"

datatype semantic_refusal =
    ReplyToolCall | ReplyOverLimit | ReplyEmpty | ReplyMalformed
  | ForeignSurface surface | MissingSurface surface

record surface_note =
  sn_surface :: surface
  sn_text :: string

datatype action_error =
    ActStore task_error
  | EmptyPlan
  | PlanTooLarge nat
  | InvalidPartId string
  | ProofTooLarge string nat
  | DuplicatePart string
  | UnknownDependency string string
  | DependencyCycle string
  | ActUnavailable string
  | SemanticDispatch string
  | SemanticReply string semantic_refusal
  | AutoImpersonatesHuman
  | AutoAuthorRequired
  | EmptyPrompt
  | PromptTooLarge nat
  | OptionSlots nat nat
  | InvalidOptionId string
  | DuplicateOptionId string
  | DisabledWithoutReason string
  | RecommendationNotSelectable string
  | EmptyBasis

text \<open>The checks of the parts one by one, then of their dependencies.\<close>

fun check_parts :: "string set \<Rightarrow> work_part list \<Rightarrow> action_error + string set" where
  "check_parts ids [] = Inr ids"
| "check_parts ids (p # ps) =
     (if length (wp_criteria p) > array_max_items \<or> length (wp_depends_on p) > array_max_items then Inl (PlanTooLarge array_max_items)
      else if \<not> legal_id (wp_id p) then Inl (InvalidPartId (wp_id p))
      else if length (wp_proof p) > text_max_bytes then Inl (ProofTooLarge (wp_id p) text_max_bytes)
      else if wp_id p \<in> ids then Inl (DuplicatePart (wp_id p))
      else check_parts (insert (wp_id p) ids) ps)"

fun check_dependencies :: "string set \<Rightarrow> work_part list \<Rightarrow> action_error + unit" where
  "check_dependencies ids [] = Inr ()"
| "check_dependencies ids (p # ps) =
     (case find (\<lambda>d. d \<notin> ids) (wp_depends_on p) of
        Some d \<Rightarrow> Inl (UnknownDependency (wp_id p) d)
      | None \<Rightarrow> check_dependencies ids ps)"

text \<open>One pass over the parts; the placed ids are the ids in the order.\<close>

fun order_pass :: "work_part list \<Rightarrow> string list \<Rightarrow> string list" where
  "order_pass [] order = order"
| "order_pass (p # ps) order =
     (if wp_id p \<notin> set order \<and> list_all (\<lambda>d. d \<in> set order) (wp_depends_on p) then order_pass ps (order @ [wp_id p])
      else order_pass ps order)"

definition unplaced :: "work_part list \<Rightarrow> string list \<Rightarrow> work_part list" where
  "unplaced parts order = filter (\<lambda>p. wp_id p \<notin> set order) parts"

lemma order_pass_extends:
  "\<exists>new. order_pass ps order = order @ new \<and> set new \<subseteq> wp_id ` set ps \<and> set new \<inter> set order = {}"
proof (induction ps arbitrary: order)
  case (Cons p ps)
  show ?case
  proof (cases "wp_id p \<notin> set order \<and> list_all (\<lambda>d. d \<in> set order) (wp_depends_on p)")
    case True
    then obtain new where "order_pass ps (order @ [wp_id p]) = (order @ [wp_id p]) @ new" "set new \<subseteq> wp_id ` set ps"
      "set new \<inter> set (order @ [wp_id p]) = {}" using Cons.IH by blast
    then show ?thesis using True by (intro exI[of _ "wp_id p # new"]) auto
  next
    case False
    obtain new where "order_pass ps order = order @ new" "set new \<subseteq> wp_id ` set ps" "set new \<inter> set order = {}" using Cons.IH by blast
    then show ?thesis using False by (intro exI[of _ new]) auto
  qed
qed simp

lemma order_pass_shrinks:
  assumes "length (order_pass parts order) \<noteq> length order"
  shows "length (unplaced parts (order_pass parts order)) < length (unplaced parts order)"
proof -
  obtain new where new: "order_pass parts order = order @ new" "set new \<subseteq> wp_id ` set parts" "set new \<inter> set order = {}"
    using order_pass_extends by blast
  then obtain x where "x \<in> set new" using assms by (cases new) auto
  then obtain p where p: "p \<in> set parts" "wp_id p \<in> set new" using new(2) by auto
  then have "p \<in> set (unplaced parts order)" using new(3) by (auto simp: unplaced_def)
  moreover have "unplaced parts (order @ new) = filter (\<lambda>p. wp_id p \<notin> set new) (unplaced parts order)" by (simp add: unplaced_def conj_commute)
  ultimately show ?thesis using p(2) new(1) by (auto intro: length_filter_less)
qed

function order_loop :: "work_part list \<Rightarrow> string list \<Rightarrow> action_error + string list" where
  "order_loop parts order =
     (case find (\<lambda>p. wp_id p \<notin> set order) parts of
        None \<Rightarrow> Inr order
      | Some stuck \<Rightarrow>
          (let order' = order_pass parts order in
           if length order' = length order then Inl (DependencyCycle (wp_id stuck)) else order_loop parts order'))"
  by pat_completeness auto
termination
  by (relation "measure (\<lambda>(parts, order). length (unplaced parts order))") (auto simp: order_pass_shrinks)

declare order_loop.simps [simp del]

definition dependency_order :: "work_part list \<Rightarrow> action_error + string list" where
  "dependency_order parts =
     (if parts = [] then Inl EmptyPlan
      else if length parts > array_max_items then Inl (PlanTooLarge array_max_items)
      else
        (case check_parts {} parts of
           Inl e \<Rightarrow> Inl e
         | Inr ids \<Rightarrow>
             (case check_dependencies ids parts of
                Inl e \<Rightarrow> Inl e
              | Inr _ \<Rightarrow> order_loop parts [])))"

definition plan_findings :: "plan \<Rightarrow> string list \<Rightarrow> plan_finding list" where
  "plan_findings p criteria =
     (if criteria = [] then [ZeroCriteria] else []) @
     map UncoveredCriterion (filter (\<lambda>c. \<not> list_ex (\<lambda>w. c \<in> set (wp_criteria w)) (pn_parts p)) criteria) @
     concat (map (\<lambda>w. map (UnknownCriterion (wp_id w)) (filter (\<lambda>c. c \<notin> set criteria) (wp_criteria w)) @
       (if is_blank (wp_proof w) then [MissingProof (wp_id w)] else [])) (pn_parts p))"

section \<open>Handlers\<close>

type_synonym plan_store = "(plan, assessment) task_store"

datatype frame_unknown = ImpactSurface | AddressableCriteria

datatype semantic_verdict = SemanticPass | SemanticFail

datatype handler_output =
    FramedOutput "string list" "frame_unknown list"
  | AssessmentOutput assessment
  | JudgedOutput string nat semantic_verdict "string list"
  | NotesOutput string "surface_note list"

datatype action_outcome =
    Skipped string skip_reason
  | Framed "string list" "frame_unknown list"
  | Planned nat plan
  | Assessed assessment
  | Judged nat semantic_verdict "string list"
  | Challenged "surface_note list"
  | Designed "surface_note list"
  | Asked question
  | Answered question_id answer_selection string
  | Forked string action_outcome

record selection =
  sl_revision :: nat
  sl_digest :: string
  sl_obligations :: "selected_obligation list"
  sl_declined :: "(string \<times> skip_reason) list"

definition select ::
  "(canonical_facts \<Rightarrow> string) \<Rightarrow> learning_definition \<Rightarrow> plan_request \<Rightarrow> string list \<Rightarrow> plan_store \<Rightarrow>
   (action_error + selection) \<times> plan_store" where
  "select digest learned request shortlist s =
     (let ns = needs request learned;
          obligations = obligations_of ns;
          declined = map (\<lambda>i. (i, decline_reason ns i)) (filter (\<lambda>i. i \<notin> set (map so_capability obligations)) shortlist) in
      case record_plan_selection (digest (canonical request)) (rq_kind request) (map row_write obligations) s of
        (Inl e, s') \<Rightarrow> (Inl (ActStore e), s')
      | (Inr sel, s') \<Rightarrow> (Inr \<lparr>sl_revision = se_revision sel, sl_digest = se_digest sel, sl_obligations = obligations,
                               sl_declined = declined\<rparr>, s'))"

text \<open>The selection the facts of a request are bound to.\<close>

definition bind_request :: "(canonical_facts \<Rightarrow> string) \<Rightarrow> plan_request \<Rightarrow> plan_store \<Rightarrow> action_error + plan_selection" where
  "bind_request digest request s =
     (case ts_selection s of
        None \<Rightarrow> Inl (ActStore PlanSelectionMissing)
      | Some sel \<Rightarrow>
          if se_digest sel \<noteq> digest (canonical request) then Inl (ActStore (PlanSelectionStale (se_revision sel))) else Inr sel)"

datatype row_standing = RowAbsent skip_reason | RowUnresolved | RowOpen obligation_execution

definition plan_row_state :: "learning_definition \<Rightarrow> plan_request \<Rightarrow> string \<Rightarrow> plan_store \<Rightarrow> row_standing" where
  "plan_row_state learned request capability s =
     (case find (\<lambda>r. pl_capability r = capability) (ts_rows s) of
        None \<Rightarrow> RowAbsent (case find (\<lambda>(i, _). i = capability) (needs request learned) of
                   Some (_, NeedSkip reason, _) \<Rightarrow> reason | _ \<Rightarrow> NotNeeded)
      | Some r \<Rightarrow> if pl_applicability r = Unresolved then RowUnresolved else RowOpen (pl_execution r))"

definition frame_goal ::
  "(canonical_facts \<Rightarrow> string) \<Rightarrow> (handler_output \<Rightarrow> string) \<Rightarrow> learning_definition \<Rightarrow> plan_request \<Rightarrow> plan_store \<Rightarrow>
   (action_error + action_outcome) \<times> plan_store" where
  "frame_goal digest to_json learned request s =
     (case bind_request digest request s of
        Inl e \<Rightarrow> (Inl e, s)
      | Inr sel \<Rightarrow>
          (case plan_row_state learned request frame_goal_id s of
             RowAbsent reason \<Rightarrow> (Inr (Skipped frame_goal_id reason), s)
           | RowUnresolved \<Rightarrow> (Inr (Skipped frame_goal_id NeedsInformation), s)
           | RowOpen execution \<Rightarrow>
               if execution = ObligationSatisfied then (Inr (Skipped frame_goal_id AlreadySatisfied), s)
               else if ts_task s = None then (Inl (ActStore TaskMissing), s)
               else
                 (let unknowns = (if decided (rq_surfaces request) = None then [ImpactSurface] else []) @
                        (if ts_criteria s = [] then [AddressableCriteria] else []) in
                  case update_plan_row frame_goal_id frame_goal_id (se_revision sel) (digest (canonical request))
                         (CloseRow ObligationSatisfied (OutputText (to_json (FramedOutput (ts_criteria s) unknowns)))) s of
                    (Inl e, s') \<Rightarrow> (Inl (ActStore e), s')
                  | (Inr _, s') \<Rightarrow> (Inr (Framed (ts_criteria s) unknowns), s'))))"

definition purpose_leg ::
  "(canonical_facts \<Rightarrow> string) \<Rightarrow> learning_definition \<Rightarrow> string \<Rightarrow> plan_request \<Rightarrow> plan_store \<Rightarrow> action_error + action_outcome" where
  "purpose_leg digest learned action request s =
     (case bind_request digest request s of
        Inl e \<Rightarrow> Inl e
      | Inr _ \<Rightarrow>
          (case plan_row_state learned request action s of
             RowAbsent reason \<Rightarrow> Inr (Skipped action reason)
           | RowUnresolved \<Rightarrow> Inr (Skipped action NeedsInformation)
           | RowOpen execution \<Rightarrow>
               if execution = ObligationSatisfied then Inr (Skipped action AlreadySatisfied) else Inl (ActUnavailable action)))"

definition plan_work ::
  "(canonical_facts \<Rightarrow> string) \<Rightarrow> learning_definition \<Rightarrow> plan_request \<Rightarrow> plan_store \<Rightarrow> (action_error + action_outcome) \<times> plan_store" where
  "plan_work digest learned request s =
     (case bind_request digest request s of
        Inl e \<Rightarrow> (Inl e, s)
      | Inr sel \<Rightarrow>
          (case plan_row_state learned request plan_work_id s of
             RowAbsent reason \<Rightarrow> (Inr (Skipped plan_work_id reason), s)
           | RowUnresolved \<Rightarrow> (Inr (Skipped plan_work_id NeedsInformation), s)
           | RowOpen _ \<Rightarrow>
               (case dependency_order (rq_parts request) of
                  Inl e \<Rightarrow> (Inl e, s)
                | Inr order \<Rightarrow>
                    (let p = \<lparr>pn_order = order, pn_parts = rq_parts request\<rparr> in
                     case record_plan_revision plan_work_id assess_plan_id (se_revision sel) (digest (canonical request)) p s of
                       (Inl e, s') \<Rightarrow> (Inl (ActStore e), s')
                     | (Inr revision, s') \<Rightarrow> (Inr (Planned revision p), s')))))"

definition assess_changes :: "(handler_output \<Rightarrow> string) \<Rightarrow> assessment \<Rightarrow> plan_row list \<Rightarrow> (string \<times> plan_row_change) list" where
  "assess_changes to_json a rows =
     concat (map (\<lambda>r.
       if pl_handler r \<noteq> Some assess_plan_id \<or> pl_applicability r \<noteq> Required then []
       else (case as_verdict a of
               PlanPass \<Rightarrow> [(pl_capability r, BlockRow (plan_blocker CapabilityUnavailable (pl_capability r)))]
             | PlanFail \<Rightarrow> [(pl_capability r, CloseRow ObligationFailed (OutputText (to_json (AssessmentOutput a)))),
                            (pl_capability r, BlockRow (plan_blocker DependencyBlocked (pl_capability r)))])) rows)"

definition assess_plan ::
  "(canonical_facts \<Rightarrow> string) \<Rightarrow> (handler_output \<Rightarrow> string) \<Rightarrow> learning_definition \<Rightarrow> plan_request \<Rightarrow> plan_store \<Rightarrow>
   (action_error + action_outcome) \<times> plan_store" where
  "assess_plan digest to_json learned request s =
     (case bind_request digest request s of
        Inl e \<Rightarrow> (Inl e, s)
      | Inr sel \<Rightarrow>
          (case plan_row_state learned request assess_plan_id s of
             RowAbsent reason \<Rightarrow> (Inr (Skipped assess_plan_id reason), s)
           | RowUnresolved \<Rightarrow> (Inr (Skipped assess_plan_id NeedsInformation), s)
           | RowOpen _ \<Rightarrow>
               (case latest_revision (se_revision sel) s of
                  None \<Rightarrow> (Inr (Skipped assess_plan_id NeedsInformation), s)
                | Some latest \<Rightarrow>
                    if pv_verdict latest \<noteq> None then (Inl (ActStore (PlanNotAssessable (pv_revision latest))), s)
                    else if ts_task s = None then (Inl (ActStore TaskMissing), s)
                    else
                      (let findings = plan_findings (pv_body latest) (ts_criteria s);
                           a = \<lparr>as_plan_revision = pv_revision latest, as_verdict = (if findings = [] then PlanPass else PlanFail),
                                as_findings = findings\<rparr> in
                       case record_plan_assessment assess_plan_id (se_revision sel) (digest (canonical request)) (pv_revision latest)
                              (as_verdict a) a (assess_changes to_json a (ts_rows s)) s of
                         (Inl e, s') \<Rightarrow> (Inl (ActStore e), s')
                       | (Inr _, s') \<Rightarrow> (Inr (Assessed a), s')))))"

subsection \<open>The semantic leg\<close>

text \<open>The required rows a handler still owes, and writes to them one by one.\<close>

definition open_rows :: "string \<Rightarrow> plan_store \<Rightarrow> plan_row list" where
  "open_rows action s = filter (\<lambda>r. pl_handler r = Some action \<and> pl_applicability r = Required \<and>
     pl_execution r \<noteq> ObligationSatisfied) (ts_rows s)"

fun update_rows ::
  "string \<Rightarrow> nat \<Rightarrow> string \<Rightarrow> (string \<times> plan_row_change) list \<Rightarrow> plan_store \<Rightarrow> (action_error + unit) \<times> plan_store" where
  "update_rows action revision digest [] s = (Inr (), s)"
| "update_rows action revision digest ((capability, change) # rest) s =
     (case update_plan_row capability action revision digest change s of
        (Inl e, s') \<Rightarrow> (Inl (ActStore e), s')
      | (Inr _, s') \<Rightarrow> update_rows action revision digest rest s')"

definition waits_on_fork :: "plan_row \<Rightarrow> plan_store \<Rightarrow> bool" where
  "waits_on_fork r s =
     (case row_fork r of
        None \<Rightarrow> False
      | Some (q, ver) \<Rightarrow> (case current_question s of Some cur \<Rightarrow> qn_id cur = q \<and> qn_revision cur = ver | None \<Rightarrow> False))"

definition stage_block :: "string \<Rightarrow> nat \<Rightarrow> string \<Rightarrow> error_code \<Rightarrow> plan_store \<Rightarrow> (action_error + unit) \<times> plan_store" where
  "stage_block action revision digest reason s =
     update_rows action revision digest
       (map (\<lambda>r. (pl_capability r, BlockRow (plan_blocker reason (pl_capability r))))
         (filter (\<lambda>r. \<not> waits_on_fork r s) (open_rows action s))) s"

definition stage_close ::
  "string \<Rightarrow> nat \<Rightarrow> string \<Rightarrow> obligation_execution \<Rightarrow> string \<Rightarrow> plan_store \<Rightarrow> (action_error + unit) \<times> plan_store" where
  "stage_close action revision digest execution out s =
     update_rows action revision digest
       (map (\<lambda>r. (pl_capability r, CloseRow execution (OutputText out))) (open_rows action s)) s"

record provider_reply =
  re_tool_calls :: nat
  re_text :: string

record assess_reply =
  ar_verdict :: semantic_verdict
  ar_findings :: "string list"

definition read_reply :: "(string \<Rightarrow> 'r option) \<Rightarrow> provider_reply \<Rightarrow> semantic_refusal + 'r" where
  "read_reply parse reply =
     (if re_tool_calls reply > 0 then Inl ReplyToolCall
      else if length (re_text reply) > text_max_bytes then Inl ReplyOverLimit
      else if is_blank (re_text reply) then Inl ReplyEmpty
      else (case parse (re_text reply) of None \<Rightarrow> Inl ReplyMalformed | Some r \<Rightarrow> Inr r))"

definition check_findings :: "string list \<Rightarrow> semantic_refusal + unit" where
  "check_findings findings =
     (if length findings > array_max_items then Inl ReplyOverLimit
      else if list_ex is_blank findings then Inl ReplyEmpty
      else Inr ())"

definition stage_refuse :: "string \<Rightarrow> nat \<Rightarrow> string \<Rightarrow> semantic_refusal \<Rightarrow> plan_store \<Rightarrow> (action_error + action_outcome) \<times> plan_store" where
  "stage_refuse action revision digest cause s =
     (case stage_block action revision digest DependencyBlocked s of
        (Inl e, s') \<Rightarrow> (Inl e, s')
      | (Inr _, s') \<Rightarrow> (Inl (SemanticReply action cause), s'))"

text \<open>
  From the call on: the sent request is an attempt with its reply, or a failed dispatch. The inputs of the
  call read the task, which must not have ended.
\<close>

definition judge_call ::
  "(handler_output \<Rightarrow> string) \<Rightarrow> (string \<Rightarrow> assess_reply option) \<Rightarrow> (string \<times> provider_reply) option \<Rightarrow> nat \<Rightarrow> string \<Rightarrow>
   (plan, assessment) plan_version \<Rightarrow> plan_store \<Rightarrow> (action_error + action_outcome) \<times> plan_store" where
  "judge_call to_json parse sent revision digest latest s =
     (case sent of
        None \<Rightarrow>
          (case stage_block assess_plan_id revision digest CapabilityUnavailable s of
             (Inl e, s') \<Rightarrow> (Inl e, s')
           | (Inr _, s') \<Rightarrow> (Inl (SemanticDispatch assess_plan_id), s'))
      | Some (attempt_id, reply) \<Rightarrow>
          (case read_reply parse reply of
             Inl cause \<Rightarrow> stage_refuse assess_plan_id revision digest cause s
           | Inr judged \<Rightarrow>
               (case check_findings (ar_findings judged) of
                  Inl cause \<Rightarrow> stage_refuse assess_plan_id revision digest cause s
                | Inr _ \<Rightarrow>
                    (let out = to_json (JudgedOutput attempt_id (pv_revision latest) (ar_verdict judged) (ar_findings judged));
                         done = Inr (Judged (pv_revision latest) (ar_verdict judged) (ar_findings judged)) in
                     case ar_verdict judged of
                       SemanticPass \<Rightarrow>
                         (case stage_close assess_plan_id revision digest ObligationSatisfied out s of
                            (Inl e, s') \<Rightarrow> (Inl e, s')
                          | (Inr _, s') \<Rightarrow> (done, s'))
                     | SemanticFail \<Rightarrow>
                         (case stage_close assess_plan_id revision digest ObligationFailed out s of
                            (Inl e, s') \<Rightarrow> (Inl e, s')
                          | (Inr _, s') \<Rightarrow>
                              (case stage_block assess_plan_id revision digest DependencyBlocked s' of
                                 (Inl e, s'') \<Rightarrow> (Inl e, s'')
                               | (Inr _, s'') \<Rightarrow> (done, s'')))))))"

definition judge_revision ::
  "(handler_output \<Rightarrow> string) \<Rightarrow> (string \<Rightarrow> assess_reply option) \<Rightarrow> (string \<times> provider_reply) option \<Rightarrow> nat \<Rightarrow> string \<Rightarrow>
   (plan, assessment) plan_version \<Rightarrow> plan_store \<Rightarrow> (action_error + action_outcome) \<times> plan_store" where
  "judge_revision to_json parse sent revision digest latest s =
     (case lifecycle_of s of
        None \<Rightarrow> (Inl (ActStore TaskMissing), s)
      | Some l \<Rightarrow>
          if lifecycle_is_terminal l then (Inl (ActStore AlreadyTerminal), s)
          else judge_call to_json parse sent revision digest latest s)"

definition judge_plan ::
  "(canonical_facts \<Rightarrow> string) \<Rightarrow> (handler_output \<Rightarrow> string) \<Rightarrow> (string \<Rightarrow> assess_reply option) \<Rightarrow> (string \<times> provider_reply) option \<Rightarrow>
   learning_definition \<Rightarrow> plan_request \<Rightarrow> plan_store \<Rightarrow> (action_error + action_outcome) \<times> plan_store" where
  "judge_plan digest to_json parse sent learned request s =
     (case bind_request digest request s of
        Inl e \<Rightarrow> (Inl e, s)
      | Inr sel \<Rightarrow>
          (case plan_row_state learned request assess_plan_id s of
             RowAbsent reason \<Rightarrow> (Inr (Skipped assess_plan_id reason), s)
           | RowUnresolved \<Rightarrow> (Inr (Skipped assess_plan_id NeedsInformation), s)
           | RowOpen execution \<Rightarrow>
               if execution = ObligationSatisfied then (Inr (Skipped assess_plan_id AlreadySatisfied), s)
               else if execution = ObligationFailed then assess_plan digest to_json learned request s
               else
                 (case latest_revision (se_revision sel) s of
                    None \<Rightarrow> (Inr (Skipped assess_plan_id NeedsInformation), s)
                  | Some latest \<Rightarrow>
                      (case pv_verdict latest of
                         Some PlanPass \<Rightarrow> judge_revision to_json parse sent (se_revision sel) (digest (canonical request)) latest s
                       | Some PlanFail \<Rightarrow> assess_plan digest to_json learned request s
                       | None \<Rightarrow>
                           (case assess_plan digest to_json learned request s of
                              (Inl e, s') \<Rightarrow> (Inl e, s')
                            | (Inr (Assessed a), s') \<Rightarrow>
                                if as_verdict a \<noteq> PlanPass then (Inr (Assessed a), s')
                                else (case latest_revision (se_revision sel) s' of
                                        None \<Rightarrow> (Inl (ActStore (PlanNotAssessable (pv_revision latest))), s')
                                      | Some l \<Rightarrow> judge_revision to_json parse sent (se_revision sel) (digest (canonical request)) l s')
                            | (Inr mechanical, s') \<Rightarrow> (Inr mechanical, s'))))))"

end
