(* ===== verification/Decision.thy ===== *)
theory Decision
  imports Plan
begin

text \<open>
  Material forks and the semantic stages, \<open>src/src/actions.rs\<close>: \<open>resolve_decision\<close> with the rules under
  which a machine may answer, the fork a stage waits on, and the stages \<open>challenge_direction\<close> and
  \<open>design_contracts\<close>. The generated question id, the reply of the model and the JSON reader of its trimmed
  text are arguments; \<open>auto\<close> says whether the configured decision mode is auto. The output of a row that is
  not an answered fork is a handler's own text, which never names one.
\<close>

abbreviation (input) decision_option_slots :: nat where "decision_option_slots \<equiv> 5"

section \<open>Forks\<close>

record resolve_decision_input =
  rd_prompt :: string
  rd_options :: "question_option list"
  rd_recommended :: option_id
  rd_basis :: string
  rd_delegation :: "delegation option"
  rd_author :: "decision_author option"

primrec option_raw :: "option_id \<Rightarrow> string" where
  "option_raw (OptionId i) = i"

text \<open>The positions one by one; the result says whether the recommended one is enabled.\<close>

fun check_options :: "option_id \<Rightarrow> string set \<Rightarrow> bool \<Rightarrow> question_option list \<Rightarrow> action_error + bool" where
  "check_options recommended seen enabled [] = Inr enabled"
| "check_options recommended seen enabled (opt # rest) =
     (let raw = option_raw (qo_id opt) in
      if \<not> legal_id raw then Inl (InvalidOptionId raw)
      else if raw \<in> seen then Inl (DuplicateOptionId raw)
      else if (case qo_availability opt of Disabled reason \<Rightarrow> is_blank reason | Enabled \<Rightarrow> False) then Inl (DisabledWithoutReason raw)
      else check_options recommended (insert raw seen) (enabled \<or> (qo_id opt = recommended \<and> qo_availability opt = Enabled)) rest)"

definition validate_fork :: "resolve_decision_input \<Rightarrow> action_error + unit" where
  "validate_fork input =
     (if is_blank (rd_prompt input) then Inl EmptyPrompt
      else if length (rd_prompt input) > text_max_bytes then Inl (PromptTooLarge text_max_bytes)
      else if length (rd_options input) \<noteq> decision_option_slots then Inl (OptionSlots decision_option_slots (length (rd_options input)))
      else
        (case check_options (rd_recommended input) {} False (rd_options input) of
           Inl e \<Rightarrow> Inl e
         | Inr enabled \<Rightarrow>
             if \<not> enabled then Inl (RecommendationNotSelectable (option_raw (rd_recommended input)))
             else if is_blank (rd_basis input) then Inl EmptyBasis
             else Inr ()))"

definition same_fork :: "question \<Rightarrow> question \<Rightarrow> bool" where
  "same_fork waiting q \<longleftrightarrow> qn_prompt waiting = qn_prompt q \<and> qn_options waiting = qn_options q \<and>
     qn_recommended waiting = qn_recommended q \<and> qn_basis waiting = qn_basis q"

text \<open>The plan row a stage's fork waits on, bound to the selection the stage ran on.\<close>

record fork_row =
  fr_capability :: string
  fr_revision :: nat
  fr_digest :: string

definition plan_row_waits_for_question :: "string \<Rightarrow> question \<Rightarrow> plan_store \<Rightarrow> bool" where
  "plan_row_waits_for_question capability q s \<longleftrightarrow>
     list_ex (\<lambda>r. pl_capability r = capability \<and> row_fork r = Some (qn_id q, qn_revision q)) (ts_rows s)"

definition fork_blocker :: "question \<Rightarrow> blocker" where
  "fork_blocker q = \<lparr>bl_reason = DependencyBlocked, bl_owner = ''plan'', bl_condition = Decision (qn_id q) (qn_revision q)\<rparr>"

definition publish_or_dedupe :: "question \<Rightarrow> fork_row option \<Rightarrow> plan_store \<Rightarrow> (action_error + question) \<times> plan_store" where
  "publish_or_dedupe q row s =
     (case current_question s of
        Some waiting \<Rightarrow>
          if \<not> same_fork waiting q then (Inl (ActStore PendingQuestionExists), s)
          else if (case row of Some w \<Rightarrow> \<not> plan_row_waits_for_question (fr_capability w) waiting s | None \<Rightarrow> False)
          then (Inl (ActStore PendingQuestionExists), s)
          else (Inr waiting, s)
      | None \<Rightarrow>
          (case (case row of
                   None \<Rightarrow> publish_question q s
                 | Some w \<Rightarrow> publish_plan_fork q (fr_capability w) (fr_capability w) (fr_revision w) (fr_digest w)
                     (BlockRow (fork_blocker q)) s) of
             (Inl e, s') \<Rightarrow> (Inl (ActStore e), s')
           | (Inr _, s') \<Rightarrow> (Inr q, s')))"

definition auto_author :: "resolve_decision_input \<Rightarrow> action_error + string" where
  "auto_author input =
     (case rd_author input of
        Some AuthorHuman \<Rightarrow> Inl AutoImpersonatesHuman
      | Some a \<Rightarrow> Inr (decision_author_as_str a)
      | None \<Rightarrow> Inl AutoAuthorRequired)"

definition fork_question :: "question_id \<Rightarrow> nat \<Rightarrow> resolve_decision_input \<Rightarrow> question" where
  "fork_question qid intent input = \<lparr>qn_id = qid, qn_revision = 1, qn_intent = intent, qn_prompt = rd_prompt input,
     qn_options = rd_options input, qn_recommended = rd_recommended input, qn_basis = rd_basis input\<rparr>"

definition delegated :: "resolve_decision_input \<Rightarrow> string \<Rightarrow> bool" where
  "delegated input task_id = (case rd_delegation input of Some d \<Rightarrow> delegation_covers d resolve_decision_id task_id | None \<Rightarrow> False)"

text \<open>A fork: asked, unless the mode is auto and the delegation covers this task, then answered by its author.\<close>

definition resolve_valid ::
  "bool \<Rightarrow> string \<Rightarrow> question_id \<Rightarrow> resolve_decision_input \<Rightarrow> fork_row option \<Rightarrow> plan_store \<Rightarrow> (action_error + action_outcome) \<times> plan_store" where
  "resolve_valid auto author qid input row s =
     (case ts_task s of
        None \<Rightarrow> (Inl (ActStore TaskMissing), s)
      | Some t \<Rightarrow>
          (case publish_or_dedupe (fork_question qid (tr_intent t) input) row s of
             (Inl e, s') \<Rightarrow> (Inl e, s')
           | (Inr q, s') \<Rightarrow>
               if \<not> auto \<or> \<not> delegated input (ts_id s) then (Inr (Asked q), s')
               else
                 (case answer_question (qn_id q) (qn_revision q) (AnswerOption (qn_recommended q)) author s' of
                    (Inl e, s'') \<Rightarrow> (Inl (ActStore e), s'')
                  | (Inr _, s'') \<Rightarrow> (Inr (Answered (qn_id q) (AnswerOption (qn_recommended q)) author), s''))))"

definition resolve_fork ::
  "bool \<Rightarrow> question_id \<Rightarrow> resolve_decision_input \<Rightarrow> fork_row option \<Rightarrow> plan_store \<Rightarrow> (action_error + action_outcome) \<times> plan_store" where
  "resolve_fork auto qid input row s =
     (case (if auto then auto_author input else Inr []) of
        Inl e \<Rightarrow> (Inl e, s)
      | Inr author \<Rightarrow>
          (case validate_fork input of
             Inl e \<Rightarrow> (Inl e, s)
           | Inr _ \<Rightarrow> resolve_valid auto author qid input row s))"

section \<open>Semantic stages\<close>

datatype fork_standing = ForkClear | ForkWaiting | ForkAnswered answer_selection

definition question_waits :: "question_id \<Rightarrow> nat \<Rightarrow> plan_store \<Rightarrow> bool" where
  "question_waits q ver s = (case current_question s of Some cur \<Rightarrow> qn_id cur = q \<and> qn_revision cur = ver | None \<Rightarrow> False)"

text \<open>Where an identified fork stands: its newest applied answer, else whether it still waits.\<close>

definition fork_answer :: "question_id \<Rightarrow> nat \<Rightarrow> plan_store \<Rightarrow> fork_standing" where
  "fork_answer q ver s =
     (case find (\<lambda>a. aa_question a = q \<and> aa_revision a = ver \<and> aa_outcome a = AnswerApplied) (rev (ts_answers s)) of
        Some a \<Rightarrow> ForkAnswered (aa_selection a)
      | None \<Rightarrow> if question_waits q ver s then ForkWaiting else ForkClear)"

definition fork_state :: "string \<Rightarrow> nat \<Rightarrow> string \<Rightarrow> plan_store \<Rightarrow> fork_standing" where
  "fork_state action revision digest s =
     (case find (\<lambda>r. pl_capability r = action) (ts_rows s) of
        None \<Rightarrow> ForkClear
      | Some own \<Rightarrow>
          (case row_fork own of
             Some (q, ver) \<Rightarrow> if question_waits q ver s then ForkWaiting else fork_answer q ver s
           | None \<Rightarrow>
               (case pl_output own of
                  Some (AnsweredFork q ver sel dg) \<Rightarrow>
                    if sel \<noteq> revision \<or> dg \<noteq> digest then ForkClear else fork_answer q ver s
                | _ \<Rightarrow> ForkClear)))"

definition check_notes :: "surface_note list \<Rightarrow> plan_request \<Rightarrow> semantic_refusal + unit" where
  "check_notes notes request =
     (if length notes > array_max_items then Inl ReplyOverLimit
      else
        (let chosen = (case decided (rq_surfaces request) of Some ss \<Rightarrow> ss | None \<Rightarrow> {}) in
         case find (\<lambda>n. is_blank (sn_text n) \<or> sn_surface n \<notin> chosen) notes of
           Some n \<Rightarrow> Inl (if is_blank (sn_text n) then ReplyEmpty else ForeignSurface (sn_surface n))
         | None \<Rightarrow>
             (case find (\<lambda>x. x \<in> chosen \<and> surface_is_risk x \<and> \<not> list_ex (\<lambda>n. sn_surface n = x) notes) all_surfaces of
                Some x \<Rightarrow> Inl (MissingSurface x)
              | None \<Rightarrow> Inr ())))"

record fork_option =
  fo_id :: string
  fo_label :: string
  fo_consequences :: string
  fo_disabled_reason :: "string option"

record fork_reply =
  fk_prompt :: string
  fk_options :: "fork_option list"
  fk_recommended :: string
  fk_basis :: string

record stage_reply =
  sr_notes :: "surface_note list"
  sr_fork :: "fork_reply option"

definition fork_input :: "plan_request \<Rightarrow> fork_reply \<Rightarrow> resolve_decision_input" where
  "fork_input request fork =
     \<lparr>rd_prompt = fk_prompt fork,
      rd_options = map (\<lambda>f. \<lparr>qo_id = OptionId (fo_id f), qo_label = fo_label f, qo_consequences = fo_consequences f,
        qo_availability = (case fo_disabled_reason f of Some reason \<Rightarrow> Disabled reason | None \<Rightarrow> Enabled)\<rparr>) (fk_options fork),
      rd_recommended = OptionId (fk_recommended fork), rd_basis = fk_basis fork,
      rd_delegation = rq_delegation request, rd_author = rq_author request\<rparr>"

definition fork_stage ::
  "bool \<Rightarrow> question_id \<Rightarrow> string \<Rightarrow> nat \<Rightarrow> string \<Rightarrow> plan_request \<Rightarrow> fork_reply \<Rightarrow> plan_store \<Rightarrow> (action_error + action_outcome) \<times> plan_store" where
  "fork_stage auto qid action revision digest request fork s =
     (case resolve_fork auto qid (fork_input request fork)
             (Some \<lparr>fr_capability = action, fr_revision = revision, fr_digest = digest\<rparr>) s of
        (Inr resolution, s') \<Rightarrow> (Inr (Forked action resolution), s')
      | (Inl e, s') \<Rightarrow>
          (case stage_block action revision digest DependencyBlocked s' of
             (Inl e', s'') \<Rightarrow> (Inl e', s'')
           | (Inr _, s'') \<Rightarrow> (Inl e, s'')))"

text \<open>From the call on, as for the assessment of a plan.\<close>

definition stage_call ::
  "bool \<Rightarrow> question_id \<Rightarrow> (handler_output \<Rightarrow> string) \<Rightarrow> (string \<Rightarrow> stage_reply option) \<Rightarrow> (string \<times> provider_reply) option \<Rightarrow>
   string \<Rightarrow> nat \<Rightarrow> string \<Rightarrow> plan_request \<Rightarrow> plan_store \<Rightarrow> (action_error + action_outcome) \<times> plan_store" where
  "stage_call auto qid to_json parse sent action revision digest request s =
     (case sent of
        None \<Rightarrow>
          (case stage_block action revision digest CapabilityUnavailable s of
             (Inl e, s') \<Rightarrow> (Inl e, s')
           | (Inr _, s') \<Rightarrow> (Inl (SemanticDispatch action), s'))
      | Some (attempt_id, reply) \<Rightarrow>
          (case read_reply parse reply of
             Inl cause \<Rightarrow> stage_refuse action revision digest cause s
           | Inr parsed \<Rightarrow>
               (case check_notes (sr_notes parsed) request of
                  Inl cause \<Rightarrow> stage_refuse action revision digest cause s
                | Inr _ \<Rightarrow>
                    (case sr_fork parsed of
                       Some fork \<Rightarrow> fork_stage auto qid action revision digest request fork s
                     | None \<Rightarrow>
                         (case stage_close action revision digest ObligationSatisfied (to_json (NotesOutput attempt_id (sr_notes parsed))) s of
                            (Inl e, s') \<Rightarrow> (Inl e, s')
                          | (Inr _, s') \<Rightarrow>
                              (Inr (if action = challenge_direction_id then Challenged (sr_notes parsed) else Designed (sr_notes parsed)), s'))))))"

definition semantic_stage ::
  "(canonical_facts \<Rightarrow> string) \<Rightarrow> (handler_output \<Rightarrow> string) \<Rightarrow> (string \<Rightarrow> stage_reply option) \<Rightarrow> (string \<times> provider_reply) option \<Rightarrow>
   bool \<Rightarrow> question_id \<Rightarrow> learning_definition \<Rightarrow> string \<Rightarrow> plan_request \<Rightarrow> plan_store \<Rightarrow> (action_error + action_outcome) \<times> plan_store" where
  "semantic_stage digest to_json parse sent auto qid learned action request s =
     (case bind_request digest request s of
        Inl e \<Rightarrow> (Inl e, s)
      | Inr sel \<Rightarrow>
          (case plan_row_state learned request action s of
             RowAbsent reason \<Rightarrow> (Inr (Skipped action reason), s)
           | RowUnresolved \<Rightarrow> (Inr (Skipped action NeedsInformation), s)
           | RowOpen execution \<Rightarrow>
               if execution = ObligationSatisfied then (Inr (Skipped action AlreadySatisfied), s)
               else if fork_state action (se_revision sel) (digest (canonical request)) s = ForkWaiting
               then (Inr (Skipped action NeedsInformation), s)
               else
                 (case lifecycle_of s of
                    None \<Rightarrow> (Inl (ActStore TaskMissing), s)
                  | Some l \<Rightarrow>
                      if lifecycle_is_terminal l then (Inl (ActStore AlreadyTerminal), s)
                      else stage_call auto qid to_json parse sent action (se_revision sel) (digest (canonical request)) request s)))"

end
