(* ===== verification/Plan_Order.thy ===== *)
theory Plan_Order
  imports Plan
begin

text \<open>
  The order of a plan: \<open>dependency_order\<close> accepts exactly the parts that are well formed and whose
  dependencies have no cycle, and places every part after the parts it depends on.
\<close>

section \<open>Accepted parts\<close>

definition parts_legal :: "work_part list \<Rightarrow> bool" where
  "parts_legal parts \<longleftrightarrow> parts \<noteq> [] \<and> length parts \<le> array_max_items \<and> distinct (map wp_id parts) \<and>
     list_all (\<lambda>p. length (wp_criteria p) \<le> array_max_items \<and> length (wp_depends_on p) \<le> array_max_items \<and> legal_id (wp_id p) \<and>
       length (wp_proof p) \<le> text_max_bytes \<and> set (wp_depends_on p) \<subseteq> wp_id ` set parts) parts"

definition dep_rel :: "work_part list \<Rightarrow> (string \<times> string) set" where
  "dep_rel parts = {(d, wp_id p) |d p. p \<in> set parts \<and> d \<in> set (wp_depends_on p)}"

lemma check_parts_ok:
  "check_parts ids parts = Inr ids' \<longleftrightarrow> ids' = ids \<union> wp_id ` set parts \<and> distinct (map wp_id parts) \<and> wp_id ` set parts \<inter> ids = {} \<and>
     list_all (\<lambda>p. length (wp_criteria p) \<le> array_max_items \<and> length (wp_depends_on p) \<le> array_max_items \<and> legal_id (wp_id p) \<and>
       length (wp_proof p) \<le> text_max_bytes) parts"
  by (induction parts arbitrary: ids) auto

lemma check_dependencies_ok: "check_dependencies ids parts = Inr u \<longleftrightarrow> (\<forall>p\<in>set parts. set (wp_depends_on p) \<subseteq> ids)"
proof (induction parts)
  case (Cons p parts)
  show ?case
  proof (cases "find (\<lambda>d. d \<notin> ids) (wp_depends_on p)")
    case None
    then have "set (wp_depends_on p) \<subseteq> ids" by (auto simp: find_None_iff)
    then show ?thesis using None Cons by simp
  next
    case (Some d)
    then have "\<not> set (wp_depends_on p) \<subseteq> ids" using find_SomeD[OF Some] by auto
    then show ?thesis using Some by simp
  qed
qed simp

section \<open>The loop\<close>

text \<open>Every placed part comes after its dependencies.\<close>

definition ordered :: "work_part list \<Rightarrow> string list \<Rightarrow> bool" where
  "ordered parts order \<longleftrightarrow> distinct order \<and> set order \<subseteq> wp_id ` set parts \<and>
     (\<forall>xs x ys. order = xs @ x # ys \<longrightarrow> (\<exists>p\<in>set parts. wp_id p = x \<and> set (wp_depends_on p) \<subseteq> set xs))"

lemma ordered_Nil: "ordered parts []"
  by (simp add: ordered_def)

lemma ordered_snoc:
  assumes "ordered parts order" "p \<in> set parts" "wp_id p \<notin> set order" "set (wp_depends_on p) \<subseteq> set order"
  shows "ordered parts (order @ [wp_id p])"
  unfolding ordered_def
proof (intro conjI allI impI)
  fix xs x ys assume eq: "order @ [wp_id p] = xs @ x # ys"
  show "\<exists>q\<in>set parts. wp_id q = x \<and> set (wp_depends_on q) \<subseteq> set xs"
  proof (cases ys rule: rev_cases)
    case Nil
    then show ?thesis using eq assms by auto
  next
    case (snoc zs z)
    then have "order = xs @ x # zs" using eq by simp
    then show ?thesis using assms(1) by (auto simp: ordered_def)
  qed
qed (use assms in \<open>auto simp: ordered_def\<close>)

lemma order_pass_ordered: "ordered parts order \<Longrightarrow> set ps \<subseteq> set parts \<Longrightarrow> ordered parts (order_pass ps order)"
  by (induction ps arbitrary: order) (auto simp: list_all_iff intro!: ordered_snoc)

lemma order_pass_keeps: "set order \<subseteq> set (order_pass ps order)"
  using order_pass_extends[of ps order] by auto

text \<open>A pass without progress places no part: each unplaced part waits on an unplaced one.\<close>

lemma order_pass_stuck:
  assumes "length (order_pass ps order) = length order" "p \<in> set ps" "wp_id p \<notin> set order"
  shows "\<not> set (wp_depends_on p) \<subseteq> set order"
  using assms
proof (induction ps arbitrary: order)
  case (Cons q ps)
  have grows: "length (order @ [wp_id q]) \<le> length (order_pass ps (order @ [wp_id q]))"
    using order_pass_extends[of ps "order @ [wp_id q]"] by auto
  show ?case
  proof (cases "wp_id q \<notin> set order \<and> list_all (\<lambda>d. d \<in> set order) (wp_depends_on q)")
    case True
    then have "length (order_pass ps (order @ [wp_id q])) = length order" using Cons.prems(1) by simp
    then show ?thesis using grows by simp
  next
    case False
    then have "length (order_pass ps order) = length order" using Cons.prems(1) by (simp split: if_splits)
    then show ?thesis using Cons.IH Cons.prems False by (auto simp: list_all_iff)
  qed
qed simp

lemma order_loop_ok: "order_loop parts order = Inr order' \<Longrightarrow> ordered parts order \<Longrightarrow> ordered parts order' \<and> wp_id ` set parts \<subseteq> set order'"
proof (induction parts order rule: order_loop.induct)
  case (1 parts order)
  show ?case
  proof (cases "find (\<lambda>p. wp_id p \<notin> set order) parts")
    case None
    then have "order' = order" using "1.prems"(1) by (simp add: order_loop.simps[of parts order])
    then show ?thesis using None "1.prems"(2) by (auto simp: find_None_iff)
  next
    case (Some stuck)
    then have go: "length (order_pass parts order) \<noteq> length order" "order_loop parts (order_pass parts order) = Inr order'"
      using "1.prems"(1) by (auto simp: order_loop.simps[of parts order] Let_def split: if_splits)
    show ?thesis by (rule "1.IH"[OF Some refl go(1) go(2) order_pass_ordered[OF "1.prems"(2) subset_refl]])
  qed
qed

lemma order_loop_total:
  assumes "acyclic (dep_rel parts)" "\<forall>p\<in>set parts. set (wp_depends_on p) \<subseteq> wp_id ` set parts"
  shows "\<exists>order'. order_loop parts order = Inr order'"
  using assms
proof (induction parts order rule: order_loop.induct)
  case (1 parts order)
  show ?case
  proof (cases "find (\<lambda>p. wp_id p \<notin> set order) parts")
    case None
    then show ?thesis by (simp add: order_loop.simps[of parts order])
  next
    case (Some stuck)
    let ?open = "wp_id ` set (unplaced parts order)"
    have "length (order_pass parts order) \<noteq> length order"
    proof
      assume still: "length (order_pass parts order) = length order"
      have waits: "\<exists>d\<in>?open. (d, x) \<in> dep_rel parts" if x: "x \<in> ?open" for x
      proof -
        obtain p where p: "p \<in> set parts" "wp_id p = x" "x \<notin> set order" using x unfolding unplaced_def by force
        then obtain d where d: "d \<in> set (wp_depends_on p)" "d \<notin> set order" using order_pass_stuck[OF still p(1)] by auto
        then have "d \<in> ?open" using "1.prems"(2) p(1) by (fastforce simp: unplaced_def)
        then show ?thesis using d p by (auto simp: dep_rel_def)
      qed
      have "dep_rel parts \<subseteq> (\<Union>p\<in>set parts. set (wp_depends_on p)) \<times> wp_id ` set parts" by (auto simp: dep_rel_def)
      then have "finite (dep_rel parts)" by (rule finite_subset) simp
      then have "wf (dep_rel parts)" using "1.prems"(1) by (rule finite_acyclic_wf)
      moreover have "wp_id stuck \<in> ?open" using find_SomeD[OF Some] by (auto simp: unplaced_def)
      ultimately show False using waits by (metis wfE_min)
    qed
    then show ?thesis using "1.IH"[OF Some refl] "1.prems" Some by (simp add: order_loop.simps[of parts order])
  qed
qed

section \<open>Exactness\<close>

lemma dependency_order_iff:
  "dependency_order parts = Inr order \<longleftrightarrow> parts_legal parts \<and> order_loop parts [] = Inr order"
proof (cases "check_parts {} parts")
  case (Inl e)
  then have "\<not> parts_legal parts" using check_parts_ok[of "{}" parts "wp_id ` set parts"] by (auto simp: parts_legal_def list_all_iff)
  then show ?thesis using Inl by (simp add: dependency_order_def)
next
  case (Inr ids)
  note legal = Inr[unfolded check_parts_ok]
  show ?thesis
  proof (cases "check_dependencies ids parts")
    case (Inl e)
    then have "\<not> parts_legal parts" using check_dependencies_ok[of ids parts "()"] legal by (auto simp: parts_legal_def list_all_iff)
    then show ?thesis using Inl Inr by (simp add: dependency_order_def)
  next
    case deps: (Inr u)
    then have "parts_legal parts \<longleftrightarrow> parts \<noteq> [] \<and> length parts \<le> array_max_items"
      using check_dependencies_ok[of ids parts u] legal by (auto simp: parts_legal_def list_all_iff)
    then show ?thesis using deps Inr by (simp add: dependency_order_def)
  qed
qed

lemma ordered_acyclic:
  assumes legal: "parts_legal parts" and ord: "ordered parts order" "wp_id ` set parts \<subseteq> set order"
  shows "acyclic (dep_rel parts)"
proof -
  define pos where "pos x = length (takeWhile (\<lambda>y. y \<noteq> x) order)" for x
  have before: "pos d < pos x" if dx: "(d, x) \<in> dep_rel parts" for d x
  proof -
    obtain p where p: "p \<in> set parts" "wp_id p = x" "d \<in> set (wp_depends_on p)" using dx by (auto simp: dep_rel_def)
    then obtain xs ys where xs: "order = xs @ x # ys" "x \<notin> set xs" using ord(2) by (metis split_list_first image_eqI subsetD)
    then obtain q where q: "q \<in> set parts" "wp_id q = x" "set (wp_depends_on q) \<subseteq> set xs" using ord(1) xs(1) unfolding ordered_def by blast
    then have "q = p" using legal p by (auto simp: parts_legal_def distinct_map dest: inj_onD)
    then have "d \<in> set xs" using p(3) q(3) by auto
    then obtain us vs where us: "xs = us @ d # vs" "d \<notin> set us" by (metis split_list_first)
    have "pos x = length xs" using xs by (simp add: pos_def takeWhile_append takeWhile_eq_all_conv)
    moreover have "pos d = length us" using us xs by (simp add: pos_def takeWhile_append takeWhile_eq_all_conv)
    ultimately show ?thesis using us(1) by simp
  qed
  have "dep_rel parts \<subseteq> measure pos" using before by auto
  then show ?thesis using wf_measure wf_subset wf_acyclic by blast
qed

text \<open>
  C18. A plan is ordered exactly when it can be: \<open>dependency_order\<close> always returns, it accepts the parts
  if and only if they are legal and their dependencies have no cycle, and the order it gives holds every
  part once, after all the parts it depends on.
\<close>

theorem dependency_order_exact:
  "((\<exists>order. dependency_order parts = Inr order) \<longleftrightarrow> parts_legal parts \<and> acyclic (dep_rel parts)) \<and>
   (case dependency_order parts of
      Inr order \<Rightarrow> distinct order \<and> set order = wp_id ` set parts \<and>
        (\<nexists>xs p ys. p \<in> set parts \<and> order = xs @ wp_id p # ys \<and> \<not> set (wp_depends_on p) \<subseteq> set xs)
    | Inl _ \<Rightarrow> True)"
proof -
  have good: "ordered parts order \<and> wp_id ` set parts \<subseteq> set order \<and> parts_legal parts" if "dependency_order parts = Inr order" for order
    using that order_loop_ok[OF _ ordered_Nil] by (auto simp: dependency_order_iff)
  have iff: "(\<exists>order. dependency_order parts = Inr order) \<longleftrightarrow> parts_legal parts \<and> acyclic (dep_rel parts)"
    using good ordered_acyclic order_loop_total[of parts "[]"]
    by (auto simp: dependency_order_iff parts_legal_def list_all_iff)
  have deps: "set (wp_depends_on p) \<subseteq> set xs"
    if "dependency_order parts = Inr (xs @ wp_id p # ys)" "p \<in> set parts" for xs p ys
  proof -
    note g = good[OF that(1)]
    then obtain q where "q \<in> set parts" "wp_id q = wp_id p" "set (wp_depends_on q) \<subseteq> set xs"
      unfolding ordered_def by blast
    moreover have "q = p" using g that(2) calculation by (auto simp: parts_legal_def distinct_map dest: inj_onD)
    ultimately show ?thesis by simp
  qed
  have whole: "distinct order \<and> set order = wp_id ` set parts" if "dependency_order parts = Inr order" for order
    using good[OF that] by (simp add: ordered_def set_eq_subset)
  show ?thesis
  proof (cases "dependency_order parts")
    case (Inl e)
    then show ?thesis using iff by simp
  next
    case (Inr order)
    have "\<nexists>xs p ys. p \<in> set parts \<and> order = xs @ wp_id p # ys \<and> \<not> set (wp_depends_on p) \<subseteq> set xs"
      using deps Inr by blast
    then show ?thesis using iff whole[OF Inr] unfolding Inr by simp
  qed
qed

end
