(* ===== verification/Plan_Props.thy ===== *)
theory Plan_Props
  imports Plan_Order Task_Props
begin

text \<open>
  The plan handlers over the rows of a task: every stored plan is ordered, and a plan that passed has no
  finding against the criteria of the task. A step is one handler call, or any operation of the task that
  writes no plan revision.
\<close>

section \<open>What the writes keep\<close>

lemma update_row_keeps:
  "update_plan_row cap handler ver dg change s = (res, s') \<Longrightarrow>
   ts_plans s' = ts_plans s \<and> ts_criteria s' = ts_criteria s \<and> ts_selection s' = ts_selection s"
  by (auto simp: update_plan_row_def dest!: apply_change_rows split: sum.splits)

lemma update_rows_inv: "task_inv s \<Longrightarrow> update_rows action ver dg changes s = (res, s') \<Longrightarrow> task_inv s'"
proof (induction action ver dg changes s rule: update_rows.induct)
  case (2 action ver dg capability change rest s)
  obtain r s1 where one: "update_plan_row capability action ver dg change s = (r, s1)" by fastforce
  note inv1 = update_row_inv[OF "2.prems"(1) one]
  show ?case
  proof (cases r)
    case (Inl e)
    then show ?thesis using "2.prems"(2) one inv1 by simp
  next
    case (Inr u)
    then have "update_rows action ver dg rest s1 = (res, s')" using "2.prems"(2) one by simp
    then show ?thesis using "2.IH" one Inr inv1 by simp
  qed
qed simp

lemma update_rows_keeps:
  "update_rows action ver dg changes s = (res, s') \<Longrightarrow>
   ts_plans s' = ts_plans s \<and> ts_criteria s' = ts_criteria s \<and> ts_selection s' = ts_selection s"
proof (induction action ver dg changes s rule: update_rows.induct)
  case (2 action ver dg capability change rest s)
  obtain r s1 where one: "update_plan_row capability action ver dg change s = (r, s1)" by fastforce
  note kept = update_row_keeps[OF one]
  show ?case
  proof (cases r)
    case (Inl e)
    then show ?thesis using "2.prems" one kept by simp
  next
    case (Inr u)
    then have "update_rows action ver dg rest s1 = (res, s')" using "2.prems" one by simp
    then show ?thesis using "2.IH" one Inr kept by simp
  qed
qed simp

lemma record_revision_plans:
  assumes "record_plan_revision handler reopens ver dg body s = (res, s')"
  shows "s' = s \<or> ts_plans s' = ts_plans s @ [\<lparr>pv_revision = next_plan_revision s, pv_selection = ver, pv_body = body,
      pv_verdict = None, pv_assessment = None\<rparr>] \<and> ts_criteria s' = ts_criteria s"
  using assms by (auto simp: record_plan_revision_def Let_def dest!: apply_change_rows split: sum.splits)

lemma record_assessment_plans:
  assumes "record_plan_assessment handler ver dg pver verdict assessment changes s = (res, s')"
  shows "s' = s \<or> ts_plans s' = map (\<lambda>p. if assessable pver ver s p
      then p\<lparr>pv_verdict := Some verdict, pv_assessment := Some assessment\<rparr> else p) (ts_plans s) \<and> ts_criteria s' = ts_criteria s"
  using assms by (auto simp: record_plan_assessment_def Let_def dest!: apply_changes_rows split: sum.splits if_splits)

lemma insert_question_criteria: "insert_question q s = Inr s' \<Longrightarrow> ts_criteria s' = ts_criteria s"
  by (auto simp: insert_question_def Let_def supersede_pending_questions_def split: option.splits if_splits)

lemma plan_write_criteria:
  assumes inv: "task_inv s" and step: "plan_write s s'"
  shows "ts_criteria s' = ts_criteria s"
  using step
proof cases
  case (pw_selection dg kind rows res)
  have "ts_criteria (snd (reset_recovered_plan_rows rows s)) = ts_criteria s" by (simp add: reset_recovered_plan_rows_def)
  then show ?thesis
    using pw_selection supersede_plan_questions_core(5)[OF task_inv_core[OF inv]]
    by (auto simp: record_plan_selection_def Let_def split: sum.splits option.splits if_splits prod.splits)
next
  case (pw_fork q cap handler ver dg change res)
  have "ts_criteria (release_plan_owned_block s) = ts_criteria s" by (simp add: release_plan_owned_block_def)
  then show ?thesis
    using pw_fork by (auto simp: publish_plan_fork_def Let_def dest!: apply_change_rows insert_question_criteria split: sum.splits if_splits)
qed (auto simp: hold_for_plan_gate_def mark_plan_applicability_unresolved_def unresolve_plan_rows_def Let_def
  dest: update_row_keeps record_revision_plans record_assessment_plans split: sum.splits if_splits)

lemma task_step_criteria:
  assumes inv: "task_inv s" and step: "task_step s s'"
  shows "ts_criteria s' = ts_criteria s"
  using step
proof cases
  case tk_plan
  then show ?thesis by (rule plan_write_criteria[OF inv])
next
  case (tk_answer qid ver selection author res)
  have "ts_criteria (retain_answered_plan_fork q ver t) = ts_criteria t" for q ver and t :: "('a, 'b) task_store"
    using retain_rows[of q ver t] by auto
  then show ?thesis
    using tk_answer
    by (auto simp: answer_question_def answer_question_commit_def record_denied_attempt_def Let_def split: sum.splits option.splits if_splits)
next
  case (tk_evidence_all generate scope observation digest)
  then show ?thesis
    using evidence_for_task_sel[of generate scope observation digest "map ob_id (ts_obligations s)" s]
    by (simp add: insert_evidence_for_task_def)
qed (auto simp: publish_question_def pause_for_workflow_off_def steer_task_def cancel_task_with_origin_def complete_if_eligible_def
  mark_outcome_unknown_block_def mark_no_ready_def block_foreign_def mark_applicability_unresolved_def unresolve_plan_rows_def
  materialize_obligations_def insert_evidence_def add_evidence_def invalidate_evidence_def delete_scoped_record_def Let_def
  supersede_pending_questions_def supersede_terminal_questions_def
  dest: insert_question_criteria split: sum.splits option.splits if_splits prod.splits)

section \<open>Handlers\<close>

inductive plan_step :: "(canonical_facts \<Rightarrow> string) \<Rightarrow> (handler_output \<Rightarrow> string) \<Rightarrow> (string \<Rightarrow> assess_reply option) \<Rightarrow> plan_store \<Rightarrow> plan_store \<Rightarrow> bool"
  for digest to_json parse where
  ps_select: "Plan.select digest learned request shortlist s = (res, s') \<Longrightarrow> plan_step digest to_json parse s s'"
| ps_frame: "frame_goal digest to_json learned request s = (res, s') \<Longrightarrow> plan_step digest to_json parse s s'"
| ps_plan: "plan_work digest learned request s = (res, s') \<Longrightarrow> plan_step digest to_json parse s s'"
| ps_assess: "assess_plan digest to_json learned request s = (res, s') \<Longrightarrow> plan_step digest to_json parse s s'"
| ps_judge: "judge_plan digest to_json parse sent learned request s = (res, s') \<Longrightarrow> plan_step digest to_json parse s s'"
| ps_task: "task_step s s' \<Longrightarrow> ts_plans s' = ts_plans s \<Longrightarrow> plan_step digest to_json parse s s'"

definition plans_sound :: "plan_store \<Rightarrow> bool" where
  "plans_sound s \<longleftrightarrow> (\<forall>p\<in>set (ts_plans s). dependency_order (pn_parts (pv_body p)) = Inr (pn_order (pv_body p)) \<and>
     (pv_verdict p = Some PlanPass \<longrightarrow> plan_findings (pv_body p) (ts_criteria s) = []))"

definition plan_inv :: "plan_store \<Rightarrow> bool" where
  "plan_inv s \<longleftrightarrow> task_inv s \<and> plans_sound s"

lemma plans_sound_kept: "plans_sound s \<Longrightarrow> ts_plans s' = ts_plans s \<Longrightarrow> ts_criteria s' = ts_criteria s \<Longrightarrow> plans_sound s'"
  by (simp add: plans_sound_def)

lemma select_write: "Plan.select dg learned request shortlist s = (res, s') \<Longrightarrow> \<exists>d k rows r. record_plan_selection d k rows s = (r, s')"
  by (auto simp: Plan.select_def Let_def split: prod.splits sum.splits)

lemma frame_write:
  "frame_goal dg tj learned request s = (res, s') \<Longrightarrow> s' = s \<or> (\<exists>c h v d ch r. update_plan_row c h v d ch s = (r, s'))"
  by (auto simp: frame_goal_def Let_def split: sum.splits row_standing.splits if_splits prod.splits)

lemma plan_work_write:
  "plan_work dg learned request s = (res, s') \<Longrightarrow> s' = s \<or> (\<exists>p h ro v d r. record_plan_revision h ro v d p s = (r, s') \<and>
     dependency_order (pn_parts p) = Inr (pn_order p))"
  by (auto simp: plan_work_def Let_def split: sum.splits row_standing.splits prod.splits) (metis plan.select_convs)+

lemma assess_write:
  "assess_plan dg tj learned request s = (res, s') \<Longrightarrow> s' = s \<or>
     (\<exists>sel latest v a cs h d r. latest_revision sel s = Some latest \<and> record_plan_assessment h sel d (pv_revision latest) v a cs s = (r, s') \<and>
        (v = PlanPass \<longrightarrow> plan_findings (pv_body latest) (ts_criteria s) = []))"
  unfolding assess_plan_def Let_def
  by (auto split: sum.splits row_standing.splits option.splits if_splits prod.splits) blast+

lemma latest_mem: "latest_revision sel s = Some p \<Longrightarrow> p \<in> set (ts_plans s) \<and> pv_selection p = sel"
  unfolding latest_revision_def plan_revisions_def by (drule find_SomeD) simp

lemma revision_inj:
  assumes "plans_ok s" "p \<in> set (ts_plans s)" "q \<in> set (ts_plans s)" "pv_revision p = pv_revision q"
  shows "p = q"
proof -
  have "distinct (map pv_revision (ts_plans s))" using assms(1) by (simp add: plans_ok_def strict_sorted_iff)
  then show ?thesis using assms(2-4) by (auto simp: distinct_map dest: inj_onD)
qed

lemma assess_inv:
  assumes inv: "plan_inv s" and as: "assess_plan dg tj learned request s = (res, s')"
  shows "plan_inv s'"
proof (cases "s' = s")
  case False
  obtain sel latest v a cs h d r where *: "latest_revision sel s = Some latest"
    "record_plan_assessment h sel d (pv_revision latest) v a cs s = (r, s')"
    "v = PlanPass \<longrightarrow> plan_findings (pv_body latest) (ts_criteria s) = []"
    using assess_write[OF as] False by blast
  have ti: "task_inv s" and so: "plans_sound s" using inv by (simp_all add: plan_inv_def)
  have same: "p = latest" if "p \<in> set (ts_plans s)" "assessable (pv_revision latest) sel s p" for p
    using revision_inj[OF task_coreD(3)[OF task_inv_core[OF ti]]] latest_mem[OF *(1)] that by (auto simp: assessable_def)
  have plans: "ts_plans s' = map (\<lambda>p. if assessable (pv_revision latest) sel s p
      then p\<lparr>pv_verdict := Some v, pv_assessment := Some a\<rparr> else p) (ts_plans s)" "ts_criteria s' = ts_criteria s"
    using record_assessment_plans[OF *(2)] False by blast+
  have "plan_findings (pv_body p) (ts_criteria s) = []"
    if "p \<in> set (ts_plans s)" "assessable (pv_revision latest) sel s p" "v = PlanPass" for p
    using same[OF that(1,2)] *(3) that(3) by simp
  then have "plans_sound s'" using so unfolding plans_sound_def plans by auto
  then show ?thesis using record_assessment_inv[OF ti *(2)] by (simp add: plan_inv_def)
qed (use inv in simp)

lemma rows_inv: "plan_inv s \<Longrightarrow> update_rows action ver dg changes s = (res, s') \<Longrightarrow> plan_inv s'"
  using update_rows_inv[of s action ver dg changes res s'] update_rows_keeps[of action ver dg changes s res s'] plans_sound_kept[of s s']
  by (simp add: plan_inv_def)

lemma judge_revision_inv:
  assumes "plan_inv s" "judge_revision tj parse sent ver dg latest s = (res, s')"
  shows "plan_inv s'"
  using assms
  by (auto simp: judge_revision_def judge_call_def stage_refuse_def stage_block_def stage_close_def Let_def
      split: option.splits if_splits prod.splits sum.splits semantic_verdict.splits dest: rows_inv)

lemma judge_inv:
  assumes inv: "plan_inv s" and ju: "judge_plan dg tj parse sent learned request s = (res, s')"
  shows "plan_inv s'"
proof -
  obtain r1 s1 where a: "assess_plan dg tj learned request s = (r1, s1)" by fastforce
  note inv1 = assess_inv[OF inv a]
  have "s' = s \<or> s' = s1 \<or> (\<exists>l v. judge_revision tj parse sent v (dg (canonical request)) l s = (res, s')) \<or>
      (\<exists>l v. judge_revision tj parse sent v (dg (canonical request)) l s1 = (res, s'))"
    using ju a
    by (auto simp: judge_plan_def split: sum.splits row_standing.splits option.splits if_splits plan_verdict.splits action_outcome.splits)
  then show ?thesis using inv inv1 judge_revision_inv by blast
qed

lemma plan_step_inv:
  assumes inv: "plan_inv s" and step: "plan_step digest to_json parse s s'"
  shows "plan_inv s'"
proof -
  have ti: "task_inv s" and so: "plans_sound s" using inv by (simp_all add: plan_inv_def)
  have kept: "plan_inv s'" if "task_step s s'" "ts_plans s' = ts_plans s"
    using task_step_inv[OF ti that(1)] plans_sound_kept[OF so that(2) task_step_criteria[OF ti that(1)]] by (simp add: plan_inv_def)
  show ?thesis using step
  proof cases
    case (ps_select learned request shortlist res)
    then obtain d k rows r where rec: "record_plan_selection d k rows s = (r, s')" using select_write by blast
    have "ts_plans (snd (reset_recovered_plan_rows rows s)) = ts_plans s" by (simp add: reset_recovered_plan_rows_def)
    then have "ts_plans s' = ts_plans s"
      using rec supersede_plan_questions_core(2)[OF task_inv_core[OF ti]]
      by (auto simp: record_plan_selection_def Let_def split: sum.splits option.splits if_splits prod.splits)
    then show ?thesis using kept task_step.tk_plan[OF plan_write.pw_selection[OF rec]] by blast
  next
    case (ps_frame learned request res)
    then show ?thesis
      using frame_write inv kept update_row_keeps task_step.tk_plan[OF plan_write.pw_row] by metis
  next
    case (ps_plan learned request res)
    then consider "s' = s" | p h ro v d r where "record_plan_revision h ro v d p s = (r, s')" "dependency_order (pn_parts p) = Inr (pn_order p)"
      using plan_work_write by metis
    then show ?thesis
    proof cases
      case 2
      then have "plans_sound s'" using record_revision_plans[OF 2(1)] so by (auto simp: plans_sound_def)
      then show ?thesis using record_revision_inv[OF ti 2(1)] by (simp add: plan_inv_def)
    qed (use inv in simp)
  qed (use inv kept in \<open>auto intro: assess_inv judge_inv\<close>)
qed

interpretation pnm: state_machine task_created "plan_step digest to_json parse" plan_inv
proof unfold_locales
  fix s :: plan_store
  show "task_created s \<Longrightarrow> plan_inv s" using created_inv[of s] by (simp add: plan_inv_def plans_sound_def task_created_def)
qed (rule plan_step_inv)

definition plan_reachable :: "(canonical_facts \<Rightarrow> string) \<Rightarrow> (handler_output \<Rightarrow> string) \<Rightarrow> (string \<Rightarrow> assess_reply option) \<Rightarrow> plan_store \<Rightarrow> bool" where
  "plan_reachable digest to_json parse s \<longleftrightarrow> (\<exists>s0. task_created s0 \<and> (plan_step digest to_json parse)\<^sup>*\<^sup>* s0 s)"

lemma plan_reachable_inv: "plan_reachable digest to_json parse s \<Longrightarrow> plan_inv s"
  unfolding plan_reachable_def using pnm.run_inv by blast

lemma plan_reachable_created: "task_created s \<Longrightarrow> plan_reachable digest to_json parse s"
  by (auto simp: plan_reachable_def)

lemma plan_reachable_step: "plan_reachable digest to_json parse s \<Longrightarrow> plan_step digest to_json parse s s' \<Longrightarrow> plan_reachable digest to_json parse s'"
  unfolding plan_reachable_def by (meson rtranclp.rtrancl_into_rtrancl)

end
