(* ===== verification/Plan_Theorems.thy ===== *)
theory Plan_Theorems
  imports Plan_Props
begin

text \<open>
  What planning guarantees: the gate opens for a required plan only on the newest revision of the current
  selection, ordered, without findings; a stage that asks the model closes as satisfied only on a pass the
  model gave; and a selection never fails on an open task and accounts for every capability asked about.
\<close>

section \<open>The newest revision\<close>

lemma find_split: "find P xs = Some x \<Longrightarrow> \<exists>us vs. xs = us @ x # vs \<and> P x \<and> (\<forall>u\<in>set us. \<not> P u)"
proof (induction xs)
  case (Cons y ys)
  show ?case
  proof (cases "P y")
    case True
    then have "x = y" using Cons.prems by simp
    then show ?thesis using True by (intro exI[of _ "[]"] exI[of _ ys]) simp
  next
    case False
    then obtain us vs where "ys = us @ x # vs" "P x" "\<forall>u\<in>set us. \<not> P u" using Cons by auto
    then show ?thesis using False by (intro exI[of _ "y # us"] exI[of _ vs]) simp
  qed
qed simp

lemma plan_revisions_sorted: "plans_ok s \<Longrightarrow> plan_revisions s = ts_plans s"
  unfolding plan_revisions_def plans_ok_def by (intro sort_key_id_if_sorted) (simp add: strict_sorted_imp_sorted)

text \<open>The newest revision of the current selection is the newest of all.\<close>

lemma latest_newest:
  assumes ok: "plans_ok s" and sel: "ts_selection s = Some sel" and latest: "latest_revision (se_revision sel) s = Some p"
  shows "\<forall>q\<in>set (ts_plans s). pv_revision q \<le> pv_revision p"
proof -
  obtain us vs where split: "rev (ts_plans s) = us @ p # vs" "pv_selection p = se_revision sel" "\<forall>u\<in>set us. pv_selection u \<noteq> se_revision sel"
    using find_split[of "\<lambda>p. pv_selection p = se_revision sel" "rev (ts_plans s)" p] latest
    unfolding latest_revision_def plan_revisions_sorted[OF ok] by blast
  have plans: "ts_plans s = rev vs @ p # rev us" using split(1) by (metis append.assoc append_Cons append_Nil rev.simps(2) rev_append rev_rev_ident)
  have "us = []"
  proof (rule ccontr)
    assume "us \<noteq> []"
    then obtain u where u: "u \<in> set us" by (cases us) auto
    then have "pv_selection p \<le> pv_selection u" "u \<in> set (ts_plans s)" using ok unfolding plans_ok_def plans by (auto simp: sorted_append)
    moreover have "pv_selection u \<le> se_revision sel" using ok sel calculation(2) by (auto simp: plans_ok_def)
    ultimately show False using split(2,3) u by auto
  qed
  then show ?thesis using ok unfolding plans_ok_def plans by (auto simp: sorted_wrt_append intro: less_imp_le)
qed

lemma no_findings:
  assumes "plan_findings p criteria = []"
  shows "criteria \<noteq> []" "set criteria = (\<Union>w\<in>set (pn_parts p). set (wp_criteria w))" "\<forall>w\<in>set (pn_parts p). \<not> is_blank (wp_proof w)"
  using assms by (auto simp: plan_findings_def filter_empty_conv list_ex_iff split: if_splits)

lemma gate_passed:
  assumes "gate_on s = GateOpen" "r \<in> set (ts_rows s)" "pl_capability r = plan_work_id" "pl_applicability r = Required"
  shows "\<exists>sel p. ts_selection s = Some sel \<and> latest_revision (se_revision sel) s = Some p \<and> pv_verdict p = Some PlanPass"
  using assms by (auto simp: gate_on_def Let_def list_ex_iff filter_empty_conv split: option.splits if_splits)

text \<open>
  C13. The gate opens on a sound plan only: when it is open and the task must be planned, the newest plan
  revision belongs to the current selection and passed; its parts cover exactly the criteria of the task,
  of which there is at least one; every part has a proof; and its order is the dependency order of its
  parts. No row is unresolved and every required stage is satisfied.
\<close>

theorem gate_opens_on_sound_plan:
  assumes "plan_reachable digest to_json parse s" "gate_on s = GateOpen"
    and "r \<in> set (ts_rows s)" "pl_capability r = plan_work_id" "pl_applicability r = Required"
  shows "(\<exists>sel p. ts_selection s = Some sel \<and> p \<in> set (ts_plans s) \<and> pv_selection p = se_revision sel \<and>
      (\<forall>q\<in>set (ts_plans s). pv_revision q \<le> pv_revision p) \<and> pv_verdict p = Some PlanPass \<and> ts_criteria s \<noteq> [] \<and>
      set (ts_criteria s) = (\<Union>w\<in>set (pn_parts (pv_body p)). set (wp_criteria w)) \<and>
      (\<forall>w\<in>set (pn_parts (pv_body p)). \<not> is_blank (wp_proof w)) \<and>
      dependency_order (pn_parts (pv_body p)) = Inr (pn_order (pv_body p))) \<and>
    (\<forall>w\<in>set (ts_rows s). pl_applicability w \<noteq> Unresolved \<and>
      (pl_stage w \<and> pl_applicability w = Required \<longrightarrow> pl_execution w = ObligationSatisfied))"
proof -
  have inv: "plan_inv s" by (rule plan_reachable_inv[OF assms(1)])
  then have ok: "plans_ok s" by (simp add: plan_inv_def task_inv_def task_core_def)
  obtain sel p where p: "ts_selection s = Some sel" "latest_revision (se_revision sel) s = Some p" "pv_verdict p = Some PlanPass"
    using gate_passed[OF assms(2-5)] by blast
  have mem: "p \<in> set (ts_plans s)" "pv_selection p = se_revision sel" using latest_mem[OF p(2)] by simp_all
  then have body: "plan_findings (pv_body p) (ts_criteria s) = []" "dependency_order (pn_parts (pv_body p)) = Inr (pn_order (pv_body p))"
    using inv p(3) by (simp_all add: plan_inv_def plans_sound_def)
  have "\<forall>w\<in>set (ts_rows s). pl_applicability w \<noteq> Unresolved \<and>
      (pl_stage w \<and> pl_applicability w = Required \<longrightarrow> pl_execution w = ObligationSatisfied)"
    using assms(2) p(1) by (auto simp: gate_on_def Let_def filter_empty_conv split: if_splits)
  then show ?thesis using p mem latest_newest[OF ok p(1,2)] no_findings[OF body(1)] body(2) by blast
qed

section \<open>Satisfied rows\<close>

definition satisfied_caps :: "plan_store \<Rightarrow> string set" where
  "satisfied_caps s = pl_capability ` {r \<in> set (ts_rows s). pl_execution r = ObligationSatisfied}"

lemma satisfied_caps_other [simp]:
  "satisfied_caps (settle_plan_state s) = satisfied_caps s" "satisfied_caps (s\<lparr>ts_plans := ps\<rparr>) = satisfied_caps s"
  by (simp_all add: satisfied_caps_def)

fun closes_satisfied :: "plan_row_change \<Rightarrow> bool" where
  "closes_satisfied (CloseRow execution _) = (execution = ObligationSatisfied)"
| "closes_satisfied (BlockRow _) = False"

lemma change_row_sel [simp]: "pl_capability (change_row change r) = pl_capability r"
  by (cases change) simp_all

lemma change_row_satisfied: "\<not> closes_satisfied change \<Longrightarrow> pl_execution (change_row change r) = ObligationSatisfied \<Longrightarrow> pl_execution r = ObligationSatisfied"
  by (cases change) simp_all

lemma apply_change_caps:
  assumes "apply_plan_row_change cap handler change s = Inr s'" "\<not> closes_satisfied change"
  shows "satisfied_caps s' \<subseteq> satisfied_caps s"
proof
  fix c assume "c \<in> satisfied_caps s'"
  then obtain r where "r \<in> set (ts_rows s)" "pl_capability r = c" "pl_execution r = ObligationSatisfied \<or> pl_execution (change_row change r) = ObligationSatisfied"
    using assms(1) by (auto simp: apply_plan_row_change_def satisfied_caps_def split: option.splits if_splits)
  then show "c \<in> satisfied_caps s" using change_row_satisfied[OF assms(2)] by (auto simp: satisfied_caps_def)
qed

lemma apply_changes_caps:
  "apply_changes handler changes s = Inr s' \<Longrightarrow> \<forall>c\<in>set changes. \<not> closes_satisfied (snd c) \<Longrightarrow> satisfied_caps s' \<subseteq> satisfied_caps s"
proof (induction handler changes s rule: apply_changes.induct)
  case (2 handler cap change rest s)
  then obtain s1 where s1: "apply_plan_row_change cap handler change s = Inr s1" "apply_changes handler rest s1 = Inr s'"
    by (auto split: sum.splits)
  then show ?case using "2.IH"[OF s1] apply_change_caps[OF s1(1)] "2.prems"(2) by auto
qed simp

lemma update_row_caps:
  "update_plan_row cap handler ver dg change s = (res, s') \<Longrightarrow> \<not> closes_satisfied change \<Longrightarrow> satisfied_caps s' \<subseteq> satisfied_caps s"
  using apply_change_caps[of cap handler change s] by (auto simp: update_plan_row_def split: sum.splits)

lemma update_rows_caps:
  "update_rows action ver dg changes s = (res, s') \<Longrightarrow> \<forall>c\<in>set changes. \<not> closes_satisfied (snd c) \<Longrightarrow> satisfied_caps s' \<subseteq> satisfied_caps s"
proof (induction action ver dg changes s rule: update_rows.induct)
  case (2 action ver dg cap change rest s)
  obtain r s1 where one: "update_plan_row cap action ver dg change s = (r, s1)" by fastforce
  have sub: "satisfied_caps s1 \<subseteq> satisfied_caps s" using update_row_caps[OF one] "2.prems"(2) by simp
  show ?case
  proof (cases r)
    case (Inl e)
    then show ?thesis using "2.prems"(1) one sub by simp
  next
    case (Inr u)
    then have "update_rows action ver dg rest s1 = (res, s')" using "2.prems"(1) one by simp
    then show ?thesis using "2.IH" one Inr sub "2.prems"(2) by fastforce
  qed
qed simp

lemma stage_block_caps: "stage_block action ver dg reason s = (res, s') \<Longrightarrow> satisfied_caps s' \<subseteq> satisfied_caps s"
  unfolding stage_block_def by (erule update_rows_caps) auto

lemma stage_fail_caps: "stage_close action ver dg ObligationFailed out s = (res, s') \<Longrightarrow> satisfied_caps s' \<subseteq> satisfied_caps s"
  unfolding stage_close_def by (erule update_rows_caps) auto

lemma assess_caps:
  assumes "assess_plan dg tj learned request s = (res, s')"
  shows "satisfied_caps s' \<subseteq> satisfied_caps s"
proof -
  have keep: "satisfied_caps s' \<subseteq> satisfied_caps s"
    if rec: "record_plan_assessment h v d pv verdict a (assess_changes tj a' rows) s = (r, s')" for h v d pv verdict a a' rows r
  proof -
    have safe: "\<forall>c\<in>set (assess_changes tj a' rows). \<not> closes_satisfied (snd c)"
      by (auto simp: assess_changes_def split: if_splits plan_verdict.splits)
    show ?thesis
    proof (cases "s' = s")
      case False
      then obtain ps s2 where s2: "apply_changes h (assess_changes tj a' rows) (s\<lparr>ts_plans := ps\<rparr>) = Inr s2" "s' = settle_plan_state s2"
        using rec by (auto simp: record_plan_assessment_def Let_def split: sum.splits if_splits)
      then show ?thesis using apply_changes_caps[OF s2(1) safe] by simp
    qed simp
  qed
  show ?thesis
    using assms unfolding assess_plan_def Let_def
    by (auto split: sum.splits row_standing.splits option.splits if_splits prod.splits dest!: keep)
qed

definition model_passed :: "(string \<Rightarrow> assess_reply option) \<Rightarrow> (string \<times> provider_reply) option \<Rightarrow> bool" where
  "model_passed parse sent \<longleftrightarrow> (\<exists>attempt reply judged. sent = Some (attempt, reply) \<and> read_reply parse reply = Inr judged \<and>
     check_findings (ar_findings judged) = Inr () \<and> ar_verdict judged = SemanticPass)"

lemma judge_revision_caps:
  assumes "judge_revision tj parse sent ver dg latest s = (res, s')"
  shows "satisfied_caps s' \<subseteq> satisfied_caps s \<or> model_passed parse sent"
  using assms
  by (auto simp: judge_revision_def judge_call_def stage_refuse_def Let_def model_passed_def
      split: option.splits if_splits prod.splits sum.splits semantic_verdict.splits
      dest!: stage_block_caps stage_fail_caps)

text \<open>After a mechanical pass the newest revision of the selection carries it.\<close>

lemma find_map_option: "find P (map f xs) = map_option f (find (P \<circ> f) xs)"
  by (induction xs) auto

lemma assess_passes:
  assumes inv: "task_inv s" and as: "assess_plan dg tj learned request s = (Inr (Assessed a), s')" and pass: "as_verdict a = PlanPass"
    and sel: "ts_selection s = Some sel"
  shows "ts_selection s' = Some sel \<and> (\<exists>l. latest_revision (se_revision sel) s' = Some l \<and> pv_verdict l = Some PlanPass)"
proof -
  obtain latest h d cs u where *: "latest_revision (se_revision sel) s = Some latest"
    "record_plan_assessment h (se_revision sel) d (pv_revision latest) PlanPass a cs s = (Inr u, s')"
    using as pass sel unfolding assess_plan_def Let_def bind_request_def
    by (auto split: sum.splits row_standing.splits option.splits if_splits prod.splits)
  let ?f = "\<lambda>p. if assessable (pv_revision latest) (se_revision sel) s p then p\<lparr>pv_verdict := Some PlanPass, pv_assessment := Some a\<rparr> else p"
  have rec: "list_ex (assessable (pv_revision latest) (se_revision sel) s) (ts_plans s)" "ts_plans s' = map ?f (ts_plans s)" "ts_selection s' = ts_selection s"
    using *(2) by (auto simp: record_plan_assessment_def Let_def dest!: apply_changes_rows split: sum.splits if_splits)
  have ok: "plans_ok s" "plans_ok s'"
    using inv record_assessment_inv[OF inv *(2)] by (simp_all add: task_inv_def task_core_def)
  obtain x where x: "x \<in> set (ts_plans s)" "assessable (pv_revision latest) (se_revision sel) s x" using rec(1) by (auto simp: list_ex_iff)
  have "pv_revision x = pv_revision latest" "latest \<in> set (ts_plans s)" using x(2) latest_mem[OF *(1)] by (simp_all add: assessable_def)
  then have "x = latest" by - (rule revision_inj[OF ok(1) x(1)])
  moreover have same: "(\<lambda>p. pv_selection p = se_revision sel) \<circ> ?f = (\<lambda>p. pv_selection p = se_revision sel)" by (rule ext) simp
  have "latest_revision (se_revision sel) s' = map_option ?f (latest_revision (se_revision sel) s)"
    unfolding latest_revision_def plan_revisions_sorted[OF ok(1)] plan_revisions_sorted[OF ok(2)] rec(2)
    by (simp only: rev_map find_map_option same)
  ultimately show ?thesis using x(2) *(1) rec(3) sel by simp
qed

lemma judge_revision_keeps:
  "judge_revision tj parse sent ver dg latest s = (res, s') \<Longrightarrow> ts_plans s' = ts_plans s \<and> ts_selection s' = ts_selection s"
  by (auto simp: judge_revision_def judge_call_def stage_refuse_def stage_block_def stage_close_def Let_def
      split: option.splits if_splits prod.splits sum.splits semantic_verdict.splits dest!: update_rows_keeps)

lemma latest_kept: "ts_plans s' = ts_plans s \<Longrightarrow> latest_revision sel s' = latest_revision sel s"
  by (simp add: latest_revision_def plan_revisions_def)

text \<open>Where a judgement comes from: a call on a revision that passed before, or that passed just now.\<close>

lemma judge_plan_cases:
  assumes inv: "task_inv s" and ju: "judge_plan dg tj parse sent learned request s = (res, s')"
  obtains (kept) "s' = s" | (mechanical) r where "assess_plan dg tj learned request s = (r, s')"
  | (called) s1 sel l where "satisfied_caps s1 \<subseteq> satisfied_caps s" "ts_selection s1 = Some sel"
      "latest_revision (se_revision sel) s1 = Some l" "pv_verdict l = Some PlanPass"
      "judge_revision tj parse sent (se_revision sel) (dg (canonical request)) l s1 = (res, s')"
proof (cases "s' = s \<or> (\<exists>r. assess_plan dg tj learned request s = (r, s'))")
  case False
  obtain sel where sel: "ts_selection s = Some sel"
    using ju False by (auto simp: judge_plan_def bind_request_def split: option.splits if_splits)
  obtain r1 s1 where as: "assess_plan dg tj learned request s = (r1, s1)" by fastforce
  have "(\<exists>l. latest_revision (se_revision sel) s = Some l \<and> pv_verdict l = Some PlanPass \<and>
      judge_revision tj parse sent (se_revision sel) (dg (canonical request)) l s = (res, s')) \<or>
    (\<exists>a l. r1 = Inr (Assessed a) \<and> as_verdict a = PlanPass \<and> latest_revision (se_revision sel) s1 = Some l \<and>
      judge_revision tj parse sent (se_revision sel) (dg (canonical request)) l s1 = (res, s'))"
    using ju False as sel
    by (auto simp: judge_plan_def bind_request_def
        split: sum.splits row_standing.splits option.splits if_splits plan_verdict.splits action_outcome.splits)
  then show ?thesis
    using called[of s sel] called[of s1 sel] sel assess_passes[OF inv, of dg tj learned request _ s1 sel] assess_caps[OF as] as by fastforce
qed (use kept mechanical in blast)

text \<open>
  C19. A planning stage is satisfied by the model's word only, and only on a sound plan: if judging a plan
  satisfies a row, the call was answered by a well-formed pass with acceptable findings, and the newest
  plan revision of the current selection had already passed the mechanical assessment. A failed call, a
  refused reply, a failing verdict or a mechanical failure satisfies nothing.
\<close>

theorem satisfied_only_on_pass:
  assumes "plan_reachable digest to_json parse s" "judge_plan digest to_json parse sent learned request s = (res, s')"
    and "c \<in> satisfied_caps s'" "c \<notin> satisfied_caps s"
  shows "model_passed parse sent \<and>
    (\<exists>sel p. ts_selection s' = Some sel \<and> latest_revision (se_revision sel) s' = Some p \<and> pv_verdict p = Some PlanPass)"
proof -
  have inv: "task_inv s" using plan_reachable_inv[OF assms(1)] by (simp add: plan_inv_def)
  from inv assms(2) show ?thesis
  proof (cases rule: judge_plan_cases)
    case kept
    then show ?thesis using assms(3,4) by simp
  next
    case (mechanical r)
    then show ?thesis using assess_caps[OF mechanical] assms(3,4) by blast
  next
    case (called s1 sel l)
    note kept = judge_revision_keeps[OF called(5)]
    have "model_passed parse sent" using judge_revision_caps[OF called(5)] called(1) assms(3,4) by blast
    then show ?thesis using kept called(2-4) latest_kept[of s' s1] by simp
  qed
qed

section \<open>Selections\<close>

lemma needs_capabilities: "map fst (needs request learned) = selection_capabilities"
  by (simp add: needs_def fact_needs_def Let_def selection_capabilities_def)

lemma obligations_sub: "distinct (map fst ns) \<Longrightarrow> distinct (map so_capability (obligations_of ns)) \<and> so_capability ` set (obligations_of ns) \<subseteq> fst ` set ns"
proof (induction ns)
  case (Cons n ns)
  obtain c d e where n: "n = (c, d, e)" by (cases n) auto
  show ?case using Cons by (cases d) (auto simp: n obligations_of_def List.map_filter_simps)
qed (simp add: obligations_of_def List.map_filter_simps)

lemma obligations_distinct: "distinct (map so_capability (obligations_of (needs request learned)))"
proof -
  have "distinct (map fst (needs request learned))" unfolding needs_capabilities by (simp add: selection_capabilities_def)
  then show ?thesis using obligations_sub by blast
qed

lemma row_write_caps: "map rw_capability (map row_write os) = map so_capability os"
  by (induction os) (simp_all add: row_write_def Let_def split: prod.splits)

lemma fresh_caps: "map pl_capability (map new_plan_row ws) = map rw_capability ws"
  by (simp add: new_plan_row_def comp_def)

lemma reset_caps: "map pl_capability (ts_rows (snd (reset_recovered_plan_rows rows s))) = map pl_capability (ts_rows s)"
proof -
  have "pl_capability (case recovered_row rows r of Some r' \<Rightarrow> r' | None \<Rightarrow> r) = pl_capability r" for r
    by (auto simp: recovered_row_def split: option.splits if_splits)
  then show ?thesis by (simp add: reset_recovered_plan_rows_def comp_def)
qed

text \<open>
  A selection on an open task always succeeds while the revision counter has room: afterwards the
  task's selection is bound to the facts of the request, every capability asked about is either an
  obligation or declined and never both, and the rows are those of the obligations when the facts are new
  and the old rows under the old revision when they are the same.
\<close>

theorem select_accounts:
  assumes "require_open_task s = Inr u" "\<And>cur. ts_selection s = Some cur \<Longrightarrow> se_revision cur + 1 < 2 ^ 63"
  shows "\<exists>out s' sel. Plan.select digest learned request shortlist s = (Inr out, s') \<and> bind_request digest request s' = Inr sel \<and>
    sl_revision out = se_revision sel \<and>
    so_capability ` set (sl_obligations out) \<inter> fst ` set (sl_declined out) = {} \<and>
    set shortlist \<subseteq> so_capability ` set (sl_obligations out) \<union> fst ` set (sl_declined out) \<and>
    (case ts_selection s of
       Some cur \<Rightarrow> if se_digest cur = digest (canonical request)
         then sel = cur \<and> map pl_capability (ts_rows s') = map pl_capability (ts_rows s)
         else se_revision sel = se_revision cur + 1 \<and> map pl_capability (ts_rows s') = map so_capability (sl_obligations out)
     | None \<Rightarrow> se_revision sel = 1 \<and> map pl_capability (ts_rows s') = map so_capability (sl_obligations out))"
proof -
  define os where "os = obligations_of (needs request learned)"
  define ws where "ws = map row_write os"
  have caps: "distinct (map rw_capability ws)" "map pl_capability (map new_plan_row ws) = map so_capability os"
    using obligations_distinct[of request learned] row_write_caps[of os] fresh_caps[of ws] unfolding ws_def os_def by (simp_all del: map_map)
  obtain sel s' where rec: "record_plan_selection (digest (canonical request)) (rq_kind request) ws s = (Inr sel, s')"
    and s': "ts_selection s' = Some sel" "se_digest sel = digest (canonical request)"
    and rows: "case ts_selection s of
       Some cur \<Rightarrow> if se_digest cur = digest (canonical request)
         then sel = cur \<and> map pl_capability (ts_rows s') = map pl_capability (ts_rows s)
         else se_revision sel = se_revision cur + 1 \<and> map pl_capability (ts_rows s') = map so_capability os
     | None \<Rightarrow> se_revision sel = 1 \<and> map pl_capability (ts_rows s') = map so_capability os"
  proof (cases "ts_selection s")
    case None
    then show ?thesis using that assms(1) caps by (simp add: record_plan_selection_def Let_def del: map_map)
  next
    case (Some cur)
    have "ts_selection (snd (reset_recovered_plan_rows ws s)) = Some cur" using Some by (simp add: reset_recovered_plan_rows_def)
    then have reset: "ts_selection (settle_plan_state (snd (reset_recovered_plan_rows ws s))) = Some cur"
      "map pl_capability (ts_rows (settle_plan_state (snd (reset_recovered_plan_rows ws s)))) = map pl_capability (ts_rows s)"
      using reset_caps[of ws s] by simp_all
    show ?thesis
    proof (cases "se_digest cur = digest (canonical request)")
      case True
      obtain reset s1 where r: "reset_recovered_plan_rows ws s = (reset, s1)" by fastforce
      have "record_plan_selection (digest (canonical request)) (rq_kind request) ws s = (Inr cur, if reset then settle_plan_state s1 else s)"
        using assms(1) Some True r by (simp add: record_plan_selection_def Let_def)
      moreover have "map pl_capability (ts_rows (if reset then settle_plan_state s1 else s)) = map pl_capability (ts_rows s)"
        "ts_selection (if reset then settle_plan_state s1 else s) = Some cur" using reset r Some by simp_all
      ultimately show ?thesis by - (rule that, assumption, assumption, simp_all add: True Some)
    next
      case False
      let ?sel = "\<lparr>se_revision = se_revision cur + 1, se_digest = digest (canonical request), se_kind = rq_kind request\<rparr>"
      have "record_plan_selection (digest (canonical request)) (rq_kind request) ws s =
          (Inr ?sel, settle_plan_state ((supersede_plan_questions s)\<lparr>ts_selection := Some ?sel, ts_rows := map new_plan_row ws\<rparr>))"
        using assms(1) assms(2)[OF Some] caps(1) Some False by (simp add: record_plan_selection_def Let_def)
      then show ?thesis by (rule that) (use caps(2) Some False in \<open>simp_all del: map_map\<close>)
    qed
  qed
  show ?thesis using rec s' rows unfolding Plan.select_def Let_def os_def[symmetric] ws_def[symmetric]
    by (cases "ts_selection s") (auto simp: bind_request_def image_iff)
qed

text \<open>A selection of new facts writes one row per obligation, then settles the task.\<close>

lemma select_new_facts:
  assumes "require_open_task s = Inr u"
    "\<forall>cur. ts_selection s = Some cur \<longrightarrow> se_digest cur \<noteq> digest (canonical request) \<and> se_revision cur + 1 < 2 ^ 63"
  obtains out s0 where "Plan.select digest learned request shortlist s = (Inr out, settle_plan_state s0)"
    "ts_rows s0 = map (new_plan_row \<circ> row_write) (obligations_of (needs request learned))" "ts_selection s0 \<noteq> None"
    "sl_declined out = map (\<lambda>i. (i, decline_reason (needs request learned) i))
       (filter (\<lambda>i. i \<notin> so_capability ` set (obligations_of (needs request learned))) shortlist)"
proof -
  define ws where "ws = map row_write (obligations_of (needs request learned))"
  have caps: "distinct (map rw_capability ws)"
    using obligations_distinct[of request learned] row_write_caps[of "obligations_of (needs request learned)"]
    unfolding ws_def by (simp del: map_map)
  obtain sel s0 where "record_plan_selection (digest (canonical request)) (rq_kind request) ws s = (Inr sel, settle_plan_state s0)"
    "ts_rows s0 = map new_plan_row ws" "ts_selection s0 = Some sel"
    using assms caps by (cases "ts_selection s") (auto simp: record_plan_selection_def Let_def)
  then show thesis
    by (intro that[of "\<lparr>sl_revision = se_revision sel, sl_digest = se_digest sel, sl_obligations = obligations_of (needs request learned),
        sl_declined = map (\<lambda>i. (i, decline_reason (needs request learned) i))
          (filter (\<lambda>i. i \<notin> so_capability ` set (obligations_of (needs request learned))) shortlist)\<rparr>" s0])
      (simp_all add: Plan.select_def Let_def ws_def)
qed

lemma undecided_needs:
  assumes "decided (rq_surfaces request) = None" "c \<in> {plan_work_id, assess_plan_id, assess_security_id}"
  shows "(c, NeedUnresolved, None) \<in> set (needs request learned)"
  using assms by (auto simp: needs_def fact_needs_def Let_def learned_need_def)

lemma written_row:
  "pl_capability (new_plan_row (row_write ob)) = so_capability ob" "pl_applicability (new_plan_row (row_write ob)) = so_applicability ob"
  by (simp_all add: new_plan_row_def row_write_def Let_def split: prod.splits)

lemma unresolved_row:
  assumes "(c, NeedUnresolved, e) \<in> set ns"
  shows "\<exists>r\<in>set (map (new_plan_row \<circ> row_write) (obligations_of ns)). pl_capability r = c \<and> pl_applicability r = Unresolved"
    "c \<in> so_capability ` set (obligations_of ns)"
proof -
  let ?ob = "\<lparr>so_capability = c, so_applicability = Unresolved, so_route = route_of c e\<rparr>"
  have ob: "?ob \<in> set (obligations_of ns)"
    unfolding obligations_of_def map_filter_def using assms by (force simp: image_iff)
  show "c \<in> so_capability ` set (obligations_of ns)" using ob by force
  show "\<exists>r\<in>set (map (new_plan_row \<circ> row_write) (obligations_of ns)). pl_capability r = c \<and> pl_applicability r = Unresolved"
    using ob by (force simp: written_row)
qed

lemma settled_not_running: "list_ex holds_lifecycle (ts_rows s) \<Longrightarrow> lifecycle_of (settle_plan_state s) \<noteq> Some LifecycleRunning"
proof -
  assume held: "list_ex holds_lifecycle (ts_rows s)"
  have "plan_holds (settle_hold s)" using held by (simp add: plan_holds_def)
  then show ?thesis unfolding settle_plan_state_def settle_plan_lifecycle_def by auto
qed

section \<open>Witnesses\<close>

text \<open>A request that only plans, on a local surface, selected, planned and judged.\<close>

definition demo_request :: plan_request where
  "demo_request = \<lparr>rq_kind = KindPlanOnly, rq_surfaces = ScanKnown {SurfLocal}, rq_contract = ContractApproved,
     rq_parts = [\<lparr>wp_id = ''b'', wp_criteria = [''k''], wp_depends_on = [''a''], wp_proof = ''t''\<rparr>,
                 \<lparr>wp_id = ''a'', wp_criteria = [], wp_depends_on = [], wp_proof = ''t''\<rparr>], rq_delegation = None, rq_author = None\<rparr>"

definition demo_open_task :: plan_store where
  "demo_open_task = \<lparr>ts_id = ''t'', ts_task = Some \<lparr>tr_lifecycle = LifecycleRunning, tr_revision = 1, tr_intent = 1, tr_cursor = 0\<rparr>,
     ts_criteria = [''k''], ts_questions = [], ts_answers = [], ts_obligations = [], ts_evidence = [], ts_unknown = 0, ts_selection = None,
     ts_rows = [], ts_plans = [], ts_hold = None, ts_plan_block = False, ts_events = []\<rparr>"

abbreviation demo_digest :: "canonical_facts \<Rightarrow> string" where "demo_digest \<equiv> \<lambda>_. ''d''"
abbreviation demo_json :: "handler_output \<Rightarrow> string" where "demo_json \<equiv> \<lambda>_. ''j''"
abbreviation demo_parse :: "string \<Rightarrow> assess_reply option" where "demo_parse \<equiv> \<lambda>_. Some \<lparr>ar_verdict = SemanticPass, ar_findings = []\<rparr>"
abbreviation demo_reply_sent :: "(string \<times> provider_reply) option" where "demo_reply_sent \<equiv> Some (''x'', \<lparr>re_tool_calls = 0, re_text = ''y''\<rparr>)"

definition demo_selected :: plan_store where
  "demo_selected = snd (Plan.select demo_digest [] demo_request [] demo_open_task)"

definition demo_planned :: plan_store where
  "demo_planned = snd (plan_work demo_digest [] demo_request demo_selected)"

definition demo_judged :: plan_store where
  "demo_judged = snd (judge_plan demo_digest demo_json demo_parse demo_reply_sent [] demo_request demo_planned)"

lemma demo_plan_reachable: "plan_reachable demo_digest demo_json demo_parse demo_planned" "plan_reachable demo_digest demo_json demo_parse demo_judged"
proof -
  have "plan_reachable demo_digest demo_json demo_parse demo_open_task"
    by (rule plan_reachable_created) (simp add: task_created_def demo_open_task_def lifecycle_of_def)
  then have "plan_reachable demo_digest demo_json demo_parse demo_selected"
    by (rule plan_reachable_step) (simp only: demo_selected_def, rule ps_select[OF surjective_pairing])
  then show planned: "plan_reachable demo_digest demo_json demo_parse demo_planned"
    by (rule plan_reachable_step) (simp only: demo_planned_def, rule ps_plan[OF surjective_pairing])
  show "plan_reachable demo_digest demo_json demo_parse demo_judged"
    by (rule plan_reachable_step[OF planned]) (simp only: demo_judged_def, rule ps_judge[OF surjective_pairing])
qed

lemma demo_writes: "map row_write (obligations_of (needs demo_request [])) =
  [\<lparr>rw_capability = plan_work_id, rw_applicability = Required, rw_stage = True, rw_handler = Some plan_work_id, rw_blocker = None\<rparr>,
   \<lparr>rw_capability = assess_plan_id, rw_applicability = Required, rw_stage = True, rw_handler = Some assess_plan_id, rw_blocker = None\<rparr>,
   \<lparr>rw_capability = assess_readiness_id, rw_applicability = Required, rw_stage = False, rw_handler = Some assess_plan_id, rw_blocker = None\<rparr>]"
  by (simp add: obligations_of_def List.map_filter_simps needs_def fact_needs_def demo_request_def Let_def need_when_def
    surface_is_risk_def all_surfaces_def triggers_security_def coordinated_def learned_need_def applicability_def route_of_def
    runs_locally_def registered_def catalog_def row_write_def plan_stages_def plan_blocker_def)

lemmas settle_eval = settle_plan_state_def settle_hold_def settle_plan_lifecycle_def lifecycle_of_def plan_holds_def holds_lifecycle_def
  release_plan_owned_block_def require_open_task_def lifecycle_is_terminal_def check_plan_binding_def

definition demo_plan_entry :: "string \<Rightarrow> string \<Rightarrow> obligation_execution \<Rightarrow> row_output option \<Rightarrow> plan_row" where
  "demo_plan_entry capability handler execution out = \<lparr>pl_capability = capability, pl_applicability = Required, pl_execution = execution,
     pl_stage = (capability \<noteq> assess_readiness_id), pl_handler = Some handler, pl_blocker = None, pl_output = out\<rparr>"

definition demo_at :: "plan_row list \<Rightarrow> (plan, assessment) plan_version list \<Rightarrow> plan_store" where
  "demo_at rows plans = demo_open_task\<lparr>ts_selection := Some \<lparr>se_revision = 1, se_digest = ''d'', se_kind = KindPlanOnly\<rparr>,
     ts_rows := rows, ts_plans := plans\<rparr>"

definition demo_plan :: "(plan, assessment) plan_version" where
  "demo_plan = \<lparr>pv_revision = 1, pv_selection = 1, pv_body = \<lparr>pn_order = [''a'', ''b''], pn_parts = rq_parts demo_request\<rparr>,
     pv_verdict = None, pv_assessment = None\<rparr>"

lemma demo_selected_eq: "demo_selected = demo_at [demo_plan_entry plan_work_id plan_work_id ObligationPending None,
    demo_plan_entry assess_plan_id assess_plan_id ObligationPending None, demo_plan_entry assess_readiness_id assess_plan_id ObligationPending None] []"
  by (simp add: demo_selected_def Plan.select_def Let_def demo_writes record_plan_selection_def new_plan_row_def demo_open_task_def settle_eval
      demo_at_def demo_plan_entry_def del: map_map map_eq_conv) (simp add: demo_request_def)

lemma demo_order: "dependency_order (rq_parts demo_request) = Inr [''a'', ''b'']"
  by (simp add: dependency_order_def demo_request_def array_max_items_def text_max_bytes_def legal_id_def is_ascii_alphanumeric_def
      is_ascii_alphabetic_def is_ascii_digit_def byte_val_def order_loop.simps)

definition demo_plan_row :: plan_row where
  "demo_plan_row = demo_plan_entry plan_work_id plan_work_id ObligationSatisfied (Some (OutputText (''{\"revision\":'' @ show_nat 1 @ ''}'')))"

lemma demo_planned_eq: "demo_planned = demo_at [demo_plan_row,
    demo_plan_entry assess_plan_id assess_plan_id ObligationPending None, demo_plan_entry assess_readiness_id assess_plan_id ObligationPending None] [demo_plan]"
  unfolding demo_planned_def demo_selected_eq plan_work_def
  by (simp add: bind_request_def plan_row_state_def demo_order demo_at_def demo_open_task_def demo_plan_entry_def record_plan_revision_def Let_def
      next_plan_revision_def apply_plan_row_change_def reopen_row_def demo_plan_def demo_plan_row_def settle_eval)

lemma demo_text [simp]: "\<not> is_blank ''t''" "\<not> is_blank ''y''"
  by (simp_all add: is_blank_def blank_bytes.simps byte_val_def)

lemma demo_plan_sel [simp]: "pv_revision demo_plan = 1" "pv_selection demo_plan = 1" "pv_verdict demo_plan = None"
  by (simp_all add: demo_plan_def)

lemma demo_findings: "plan_findings (pv_body demo_plan) [''k''] = []"
  by (simp add: plan_findings_def demo_plan_def demo_request_def)

lemma demo_plan_entry_sel [simp]:
  "pl_capability (demo_plan_entry c h e out) = c" "pl_handler (demo_plan_entry c h e out) = Some h" "pl_applicability (demo_plan_entry c h e out) = Required"
  "pl_execution (demo_plan_entry c h e out) = e" "pl_blocker (demo_plan_entry c h e out) = None"
  by (simp_all add: demo_plan_entry_def)

lemma demo_at_sel [simp]:
  "ts_selection (demo_at rows plans) = Some \<lparr>se_revision = 1, se_digest = ''d'', se_kind = KindPlanOnly\<rparr>"
  "ts_rows (demo_at rows plans) = rows" "ts_plans (demo_at rows plans) = plans" "ts_criteria (demo_at rows plans) = [''k'']"
  "ts_task (demo_at rows plans) = Some \<lparr>tr_lifecycle = LifecycleRunning, tr_revision = 1, tr_intent = 1, tr_cursor = 0\<rparr>"
  "ts_hold (demo_at rows plans) = None" "\<not> ts_plan_block (demo_at rows plans)"
  by (simp_all add: demo_at_def demo_open_task_def)

lemma demo_plan_row_sel [simp]:
  "pl_capability demo_plan_row = plan_work_id" "pl_handler demo_plan_row = Some plan_work_id" "pl_applicability demo_plan_row = Required"
  "pl_execution demo_plan_row = ObligationSatisfied" "pl_blocker demo_plan_row = None"
  by (simp_all add: demo_plan_row_def)

text \<open>The mechanical pass blocks the rows that wait for the model, and with them the task.\<close>

definition demo_passed_plan :: "(plan, assessment) plan_version" where
  "demo_passed_plan = demo_plan\<lparr>pv_verdict := Some PlanPass, pv_assessment := Some \<lparr>as_plan_revision = 1, as_verdict = PlanPass, as_findings = []\<rparr>\<rparr>"

definition demo_waiting :: plan_store where
  "demo_waiting = (demo_at [demo_plan_row,
      (demo_plan_entry assess_plan_id assess_plan_id ObligationPending None)\<lparr>pl_blocker := Some (plan_blocker CapabilityUnavailable assess_plan_id)\<rparr>,
      (demo_plan_entry assess_readiness_id assess_plan_id ObligationPending None)\<lparr>pl_blocker := Some (plan_blocker CapabilityUnavailable assess_readiness_id)\<rparr>]
      [demo_passed_plan])
    \<lparr>ts_task := Some \<lparr>tr_lifecycle = LifecycleBlocked, tr_revision = 2, tr_intent = 1, tr_cursor = 1\<rparr>, ts_plan_block := True\<rparr>"

lemma demo_assessed: "assess_plan demo_digest demo_json [] demo_request demo_planned =
    (Inr (Assessed \<lparr>as_plan_revision = 1, as_verdict = PlanPass, as_findings = []\<rparr>), demo_waiting)"
  unfolding demo_planned_eq assess_plan_def demo_waiting_def
  by (simp add: bind_request_def plan_row_state_def latest_revision_def plan_revisions_def Let_def demo_findings record_plan_assessment_def
      assessable_def assess_changes_def apply_plan_row_change_def settle_eval plan_blocker_def demo_passed_plan_def move_lifecycle_def upd_task_def)
    (simp add: demo_at_def demo_open_task_def)

lemma demo_judged_eq: "demo_judged = snd (judge_revision demo_json demo_parse demo_reply_sent 1 ''d'' demo_passed_plan demo_waiting)"
proof -
  have "latest_revision 1 demo_waiting = Some demo_passed_plan"
    by (simp add: latest_revision_def plan_revisions_def demo_waiting_def demo_passed_plan_def)
  then show ?thesis
    unfolding demo_judged_def judge_plan_def demo_assessed
    by (simp add: demo_planned_eq bind_request_def plan_row_state_def latest_revision_def plan_revisions_def)
qed

lemma demo_judged_sel:
  "ts_rows demo_judged = [demo_plan_row, demo_plan_entry assess_plan_id assess_plan_id ObligationSatisfied (Some (OutputText ''j'')),
     demo_plan_entry assess_readiness_id assess_plan_id ObligationSatisfied (Some (OutputText ''j''))] \<and>
   ts_plans demo_judged = [demo_passed_plan] \<and> ts_selection demo_judged = ts_selection demo_planned"
  unfolding demo_judged_eq judge_revision_def judge_call_def demo_planned_eq
  by (simp add: demo_waiting_def read_reply_def text_max_bytes_def check_findings_def stage_close_def open_rows_def update_plan_row_def
      apply_plan_row_change_def Let_def settle_eval plan_blocker_def move_lifecycle_def upd_task_def blocking_sources_def)
    (simp add: demo_plan_entry_def)

theorem gate_opens_on_sound_plan_witness:
  "gate_on demo_judged = GateOpen \<and> (\<exists>p. p \<in> set (ts_plans demo_judged) \<and> pv_verdict p = Some PlanPass \<and>
     dependency_order (pn_parts (pv_body p)) = Inr (pn_order (pv_body p)))"
proof -
  have gate: "gate_on demo_judged = GateOpen"
    using demo_judged_sel
    by (simp add: gate_on_def latest_revision_def plan_revisions_def demo_planned_eq demo_passed_plan_def)
  have "demo_plan_row \<in> set (ts_rows demo_judged)" using demo_judged_sel by simp
  from gate_opens_on_sound_plan[OF demo_plan_reachable(2) gate this] gate show ?thesis by auto
qed

theorem satisfied_only_on_pass_witness: "assess_plan_id \<in> satisfied_caps demo_judged \<and> model_passed demo_parse demo_reply_sent"
proof -
  have new: "assess_plan_id \<in> satisfied_caps demo_judged" "assess_plan_id \<notin> satisfied_caps demo_planned"
    using demo_judged_sel by (simp_all add: satisfied_caps_def demo_planned_eq image_iff conj_disj_distribR ex_disj_distrib)
  have "judge_plan demo_digest demo_json demo_parse demo_reply_sent [] demo_request demo_planned =
      (fst (judge_plan demo_digest demo_json demo_parse demo_reply_sent [] demo_request demo_planned), demo_judged)"
    by (simp add: demo_judged_def)
  from satisfied_only_on_pass[OF demo_plan_reachable(1) this new] new(1) show ?thesis by blast
qed

theorem select_accounts_witness:
  "\<exists>out s'. Plan.select demo_digest [] demo_request [''ship_it''] demo_open_task = (Inr out, s') \<and>
     ''ship_it'' \<in> so_capability ` set (sl_obligations out) \<union> fst ` set (sl_declined out)"
proof -
  have "require_open_task demo_open_task = Inr ()" by (simp add: demo_open_task_def settle_eval)
  moreover have "ts_selection demo_open_task = None" by (simp add: demo_open_task_def)
  ultimately show ?thesis
    using select_accounts[of demo_open_task "()" demo_digest "[]" demo_request "[''ship_it'']"] by auto
qed

end
