(* ===== verification/Decision_Theorems.thy ===== *)
theory Decision_Theorems
  imports Decision Plan_Theorems
begin

text \<open>
  What forks and stages guarantee: a machine answers only under auto mode, a covering delegation and its
  own name, and only with the recommended, enabled position; a stage is satisfied only by a reply that
  leaves no choice open and answers every risky surface of the request; and every call is a sequence of
  the task's own operations.
\<close>

section \<open>Answers\<close>

lemma insert_question_answers: "insert_question q s = Inr s' \<Longrightarrow> ts_answers s' = ts_answers s"
  by (auto simp: insert_question_def Let_def supersede_pending_questions_def supersede_questions_def move_lifecycle_def upd_task_def
      split: option.splits if_splits)

lemma settle_answers [simp]:
  "ts_answers (settle_plan_state s) = ts_answers s" "ts_answers (settle_plan_lifecycle s) = ts_answers s"
  "ts_answers (release_plan_owned_block s) = ts_answers s"
  by (simp_all add: settle_plan_state_def settle_hold_def settle_plan_lifecycle_def release_plan_owned_block_def move_lifecycle_def upd_task_def
      split: option.splits plan_gate.splits)

lemma publish_answers:
  "publish_question q s = (res, s') \<Longrightarrow> ts_answers s' = ts_answers s"
  "publish_plan_fork q cap handler ver dg change s = (res, s') \<Longrightarrow> ts_answers s' = ts_answers s"
  by (auto simp: publish_question_def publish_plan_fork_def Let_def dest!: insert_question_answers apply_change_rows split: sum.splits if_splits)

text \<open>What is published or found waiting is the fork that was asked for.\<close>

lemma publish_or_dedupe_same:
  assumes "publish_or_dedupe q row s = (Inr q', s')"
  shows "same_fork q' q" "ts_answers s' = ts_answers s"
  using assms by (auto simp: publish_or_dedupe_def same_fork_def dest: publish_answers split: option.splits if_splits prod.splits sum.splits)

lemma publish_or_dedupe_answers: "publish_or_dedupe q row s = (res, s') \<Longrightarrow> ts_answers s' = ts_answers s"
  by (auto simp: publish_or_dedupe_def dest: publish_answers split: option.splits if_splits prod.splits sum.splits)

lemma retain_answers [simp]: "ts_answers (retain_answered_plan_fork q ver s) = ts_answers s"
  by (simp add: retain_answered_plan_fork_def split: option.splits)

text \<open>An answer call journals exactly one attempt, with what it was called with.\<close>

lemma answer_journal:
  assumes "answer_question qid ver selection author s = (res, s')"
  shows "\<exists>a. ts_answers s' = ts_answers s @ [a] \<and> aa_question a = qid \<and> aa_selection a = selection \<and> aa_author a = author"
  using assms
  by (auto simp: answer_question_def answer_question_commit_def record_denied_attempt_def Let_def move_lifecycle_def upd_task_def append_event_def
      split: sum.splits option.splits if_splits)

lemma check_options_enabled:
  "check_options r seen e opts = Inr e' \<Longrightarrow> e' \<Longrightarrow> e \<or> (\<exists>opt\<in>set opts. qo_id opt = r \<and> qo_availability opt = Enabled)"
  by (induction r seen e opts rule: check_options.induct) (auto simp: Let_def split: if_splits)

lemma validate_fork_recommended:
  "validate_fork input = Inr u \<Longrightarrow> \<exists>opt\<in>set (rd_options input). qo_id opt = rd_recommended input \<and> qo_availability opt = Enabled"
  by (auto simp: validate_fork_def dest: check_options_enabled split: sum.splits if_splits)

text \<open>
  C17. A machine never answers in a human's place: a resolved fork adds an answer to the journal only when
  the decision mode is auto, the request names a system or agent author and carries a delegation for this
  action on this task. It adds one answer, under that author's name, and it selects the recommended
  position, which is among the positions and enabled.
\<close>

theorem machine_answers_delegated:
  assumes "resolve_fork auto qid input row s = (res, s')" "ts_answers s' \<noteq> ts_answers s"
  shows "auto \<and> (\<exists>d a attempt. rd_delegation input = Some d \<and> delegation_covers d resolve_decision_id (ts_id s) \<and>
     rd_author input = Some a \<and> a \<noteq> AuthorHuman \<and> ts_answers s' = ts_answers s @ [attempt] \<and>
     aa_author attempt = decision_author_as_str a \<and> aa_selection attempt = AnswerOption (rd_recommended input)) \<and>
   (\<exists>opt\<in>set (rd_options input). qo_id opt = rd_recommended input \<and> qo_availability opt = Enabled)"
proof -
  obtain author u where gate: "(if auto then auto_author input else Inr []) = Inr author" "validate_fork input = Inr u"
    and run: "resolve_valid auto author qid input row s = (res, s')"
    using assms by (auto simp: resolve_fork_def split: sum.splits)
  obtain t where t: "ts_task s = Some t" using run assms(2) by (auto simp: resolve_valid_def split: option.splits)
  let ?q = "fork_question qid (tr_intent t) input"
  obtain q s1 r where pub: "publish_or_dedupe ?q row s = (Inr q, s1)" and auto: "auto" "delegated input (ts_id s)"
    and ans: "answer_question (qn_id q) (qn_revision q) (AnswerOption (qn_recommended q)) author s1 = (r, s')"
    using run assms(2) t publish_or_dedupe_answers[of ?q row s]
    by (auto simp: resolve_valid_def split: prod.splits sum.splits if_splits)
  obtain a where a: "rd_author input = Some a" "a \<noteq> AuthorHuman" "author = decision_author_as_str a"
    using gate(1) auto(1) by (auto simp: auto_author_def split: option.splits decision_author.splits)
  obtain d where d: "rd_delegation input = Some d" "delegation_covers d resolve_decision_id (ts_id s)"
    using auto(2) by (auto simp: delegated_def split: option.splits)
  have "qn_recommended q = rd_recommended input" using publish_or_dedupe_same(1)[OF pub] by (simp add: same_fork_def fork_question_def)
  moreover obtain attempt where "ts_answers s' = ts_answers s1 @ [attempt]" "aa_selection attempt = AnswerOption (qn_recommended q)" "aa_author attempt = author"
    using answer_journal[OF ans] by blast
  ultimately show ?thesis
    using auto(1) a d publish_or_dedupe_same(2)[OF pub] validate_fork_recommended[OF gate(2)] by auto
qed

section \<open>Stages\<close>

lemma settle_lifecycle_caps [simp]: "satisfied_caps (settle_plan_lifecycle s) = satisfied_caps s"
  by (simp add: satisfied_caps_def)

lemma insert_question_rows: "insert_question q s = Inr s' \<Longrightarrow> ts_rows s' = ts_rows s"
  by (auto simp: insert_question_def Let_def supersede_pending_questions_def split: option.splits if_splits)

lemma publish_caps:
  "publish_question q s = (res, s') \<Longrightarrow> satisfied_caps s' = satisfied_caps s"
  by (auto simp: publish_question_def satisfied_caps_def dest: insert_question_rows split: sum.splits)

lemma publish_fork_caps:
  assumes "publish_plan_fork q cap handler ver dg (BlockRow b) s = (res, s')"
  shows "satisfied_caps s' \<subseteq> satisfied_caps s"
proof (cases "s' = s")
  case False
  define s1 where "s1 = (if lifecycle_of s = Some LifecycleBlocked then release_plan_owned_block s else s)"
  obtain s2 s3 where *: "apply_plan_row_change cap handler (BlockRow b) s1 = Inr s2" "insert_question q s2 = Inr s3" "s' = settle_plan_state s3"
    using assms False unfolding publish_plan_fork_def Let_def s1_def[symmetric] by (auto split: sum.splits)
  have "satisfied_caps s1 = satisfied_caps s" by (simp add: s1_def satisfied_caps_def release_plan_owned_block_def)
  moreover have "satisfied_caps s3 = satisfied_caps s2" using insert_question_rows[OF *(2)] by (simp add: satisfied_caps_def)
  ultimately show ?thesis using apply_change_caps[OF *(1)] *(3) by simp
qed simp

lemma answer_caps:
  assumes "answer_question qid ver selection author s = (res, s')"
  shows "satisfied_caps s' \<subseteq> satisfied_caps s"
proof -
  have retain: "satisfied_caps (retain_answered_plan_fork q v t) \<subseteq> satisfied_caps t" for q v t
    by (auto simp: retain_answered_plan_fork_def satisfied_caps_def split: option.splits if_splits)
      (metis (mono_tags, lifting) image_eqI mem_Collect_eq)
  have "satisfied_caps s'' \<subseteq> satisfied_caps s" if com: "answer_question_commit qid ver selection author s = Inr s''" for s''
  proof -
    obtain s4 where "s'' = settle_plan_lifecycle (retain_answered_plan_fork qid ver s4)" "ts_rows s4 = ts_rows s"
      using com by (auto simp: answer_question_commit_def Let_def split: option.splits if_splits sum.splits)
    then show ?thesis using retain[of qid ver s4] by (simp add: satisfied_caps_def)
  qed
  then show ?thesis using assms by (auto simp: answer_question_def record_denied_attempt_def satisfied_caps_def split: sum.splits)
qed

lemma resolve_fork_caps:
  assumes "resolve_fork auto qid input row s = (res, s')"
  shows "satisfied_caps s' \<subseteq> satisfied_caps s"
proof -
  have pub: "satisfied_caps s1 \<subseteq> satisfied_caps s" if "publish_or_dedupe q row s = (r, s1)" for q r s1
    using that by (auto simp: publish_or_dedupe_def split: option.splits if_splits prod.splits sum.splits dest!: publish_caps publish_fork_caps)
  show ?thesis
    using assms unfolding resolve_fork_def resolve_valid_def
    by (auto split: sum.splits option.splits prod.splits if_splits dest!: pub answer_caps)
qed

lemma fork_stage_caps: "fork_stage auto qid action ver dg request fork s = (res, s') \<Longrightarrow> satisfied_caps s' \<subseteq> satisfied_caps s"
  unfolding fork_stage_def by (auto split: prod.splits sum.splits dest!: resolve_fork_caps stage_block_caps)

lemma check_notes_ok:
  assumes "check_notes notes request = Inr u"
  shows "\<forall>n\<in>set notes. \<not> is_blank (sn_text n) \<and> (\<exists>ss. decided (rq_surfaces request) = Some ss \<and> sn_surface n \<in> ss)"
    "\<forall>ss x. decided (rq_surfaces request) = Some ss \<and> x \<in> ss \<and> surface_is_risk x \<longrightarrow> x \<in> sn_surface ` set notes"
  using assms by (auto simp: check_notes_def Let_def find_None_iff list_ex_iff image_iff split: if_splits option.splits)

text \<open>
  C38. A stage closes on a complete reply only: if a call of \<open>challenge_direction\<close> or \<open>design_contracts\<close>
  satisfies a row, the stage was not waiting on a fork, the model's reply was well formed and opened no
  fork, each of its notes has text and names a surface of the request, and every risky surface of the
  request is named. A fork, an answer, a refusal or a failed call satisfies nothing.
\<close>

theorem stage_closes_complete:
  assumes "semantic_stage digest to_json parse sent auto qid learned action request s = (res, s')"
    and "c \<in> satisfied_caps s'" "c \<notin> satisfied_caps s"
  shows "\<exists>sel attempt reply parsed. ts_selection s = Some sel \<and>
    fork_state action (se_revision sel) (digest (canonical request)) s \<noteq> ForkWaiting \<and>
    sent = Some (attempt, reply) \<and> read_reply parse reply = Inr parsed \<and> sr_fork parsed = None \<and>
    (\<forall>n\<in>set (sr_notes parsed). \<not> is_blank (sn_text n) \<and> (\<exists>ss. decided (rq_surfaces request) = Some ss \<and> sn_surface n \<in> ss)) \<and>
    (\<forall>ss x. decided (rq_surfaces request) = Some ss \<and> x \<in> ss \<and> surface_is_risk x \<longrightarrow> x \<in> sn_surface ` set (sr_notes parsed))"
proof -
  have new: "s' \<noteq> s" "\<not> satisfied_caps s' \<subseteq> satisfied_caps s" using assms(2,3) by auto
  obtain sel where sel: "ts_selection s = Some sel" "fork_state action (se_revision sel) (digest (canonical request)) s \<noteq> ForkWaiting"
    and call: "stage_call auto qid to_json parse sent action (se_revision sel) (digest (canonical request)) request s = (res, s')"
    using assms(1) new(1)
    by (auto simp: semantic_stage_def bind_request_def split: sum.splits row_standing.splits option.splits if_splits)
  obtain attempt reply parsed u where "sent = Some (attempt, reply)" "read_reply parse reply = Inr parsed" "sr_fork parsed = None"
      "check_notes (sr_notes parsed) request = Inr u"
    using call new(2) unfolding stage_call_def
    by (auto simp: stage_refuse_def split: option.splits prod.splits sum.splits dest!: stage_block_caps fork_stage_caps)
  then show ?thesis using sel check_notes_ok[of "sr_notes parsed" request u] by blast
qed

section \<open>Calls are runs of the task\<close>

lemma insert_question_plans: "insert_question q s = Inr s' \<Longrightarrow> ts_plans s' = ts_plans s"
  by (auto simp: insert_question_def Let_def supersede_pending_questions_def split: option.splits if_splits)

lemma publish_run:
  assumes "publish_question q s = (res, s')"
  shows "plan_step digest to_json parse s s'"
proof -
  have "ts_plans s' = ts_plans s" using assms by (auto simp: publish_question_def dest: insert_question_plans split: sum.splits)
  then show ?thesis using ps_task[OF tk_publish[OF assms]] by simp
qed

lemma publish_fork_run:
  assumes "publish_plan_fork q cap handler ver dg change s = (res, s')"
  shows "plan_step digest to_json parse s s'"
proof -
  have "ts_plans (release_plan_owned_block s) = ts_plans s" by (simp add: release_plan_owned_block_def)
  then have "ts_plans s' = ts_plans s"
    using assms by (auto simp: publish_plan_fork_def Let_def dest!: insert_question_plans apply_change_rows split: sum.splits if_splits)
  then show ?thesis using ps_task[OF tk_plan[OF pw_fork[OF assms]]] by simp
qed

lemma answer_run:
  assumes "answer_question qid ver selection author s = (res, s')"
  shows "plan_step digest to_json parse s s'"
proof -
  have "ts_plans (retain_answered_plan_fork q v t) = ts_plans t" for q v and t :: plan_store using retain_rows[of q v t] by auto
  then have "ts_plans s' = ts_plans s"
    using assms
    by (auto simp: answer_question_def answer_question_commit_def record_denied_attempt_def Let_def split: sum.splits option.splits if_splits)
  then show ?thesis using ps_task[OF tk_answer[OF assms]] by simp
qed

lemma update_rows_run:
  "update_rows action ver dg changes s = (res, s') \<Longrightarrow> (plan_step digest to_json parse)\<^sup>*\<^sup>* s s'"
proof (induction action ver dg changes s rule: update_rows.induct)
  case (2 action ver dg cap change rest s)
  obtain r s1 where one: "update_plan_row cap action ver dg change s = (r, s1)" by fastforce
  have step: "plan_step digest to_json parse s s1"
    using ps_task[OF tk_plan[OF pw_row[OF one]]] update_row_keeps[OF one] by simp
  show ?case
  proof (cases r)
    case (Inl e)
    then show ?thesis using "2.prems" one step by auto
  next
    case (Inr u)
    then have "update_rows action ver dg rest s1 = (res, s')" using "2.prems" one by simp
    then have "(plan_step digest to_json parse)\<^sup>*\<^sup>* s1 s'" using "2.IH" one Inr by simp
    then show ?thesis using step by (rule converse_rtranclp_into_rtranclp[rotated])
  qed
qed simp

lemma stage_block_run: "stage_block action ver dg reason s = (res, s') \<Longrightarrow> (plan_step digest to_json parse)\<^sup>*\<^sup>* s s'"
  unfolding stage_block_def by (rule update_rows_run)

lemma stage_close_run: "stage_close action ver dg execution out s = (res, s') \<Longrightarrow> (plan_step digest to_json parse)\<^sup>*\<^sup>* s s'"
  unfolding stage_close_def by (rule update_rows_run)

lemma resolve_fork_run:
  assumes "resolve_fork auto qid input row s = (res, s')"
  shows "(plan_step digest to_json parse)\<^sup>*\<^sup>* s s'"
proof -
  have pub: "(plan_step digest to_json parse)\<^sup>*\<^sup>* s s1" if "publish_or_dedupe q row s = (r, s1)" for q r s1
    using that by (auto simp: publish_or_dedupe_def split: option.splits if_splits prod.splits sum.splits
        intro: r_into_rtranclp dest: publish_run publish_fork_run)
  have both: "(plan_step digest to_json parse)\<^sup>*\<^sup>* s s2"
    if "publish_or_dedupe q row s = (r, s1)" "answer_question i v sel author s1 = (r', s2)" for q r s1 i v sel author r' s2
    using pub[OF that(1)] answer_run[OF that(2)] by (rule rtranclp.rtrancl_into_rtrancl)
  show ?thesis
    using assms unfolding resolve_fork_def resolve_valid_def
    by (auto split: sum.splits option.splits prod.splits if_splits intro: both dest: pub)
qed

lemma fork_stage_run:
  assumes "fork_stage auto qid action ver dg request fork s = (res, s')"
  shows "(plan_step digest to_json parse)\<^sup>*\<^sup>* s s'"
proof -
  obtain r s1 where one: "resolve_fork auto qid (fork_input request fork) (Some \<lparr>fr_capability = action, fr_revision = ver, fr_digest = dg\<rparr>) s = (r, s1)"
    by fastforce
  have "(plan_step digest to_json parse)\<^sup>*\<^sup>* s1 s'"
    using assms one by (auto simp: fork_stage_def split: prod.splits sum.splits dest: stage_block_run)
  then show ?thesis using resolve_fork_run[OF one] by (meson rtranclp_trans)
qed

text \<open>So the states a stage leads to are reachable, and the invariant of planning covers them.\<close>

lemma semantic_stage_run:
  assumes "semantic_stage dg tj sparse sent auto qid learned action request s = (res, s')"
  shows "(plan_step digest to_json parse)\<^sup>*\<^sup>* s s'"
  using assms unfolding semantic_stage_def stage_call_def
  by (auto simp: stage_refuse_def split: sum.splits row_standing.splits option.splits if_splits prod.splits
      dest: stage_block_run stage_close_run fork_stage_run)

section \<open>Witnesses\<close>

definition demo_option :: "string \<Rightarrow> question_option" where
  "demo_option i = \<lparr>qo_id = OptionId i, qo_label = i, qo_consequences = i, qo_availability = Enabled\<rparr>"

definition demo_fork :: resolve_decision_input where
  "demo_fork = \<lparr>rd_prompt = ''t'', rd_options = map demo_option [''a'', ''b'', ''c'', ''d'', ''e''], rd_recommended = OptionId ''b'',
     rd_basis = ''y'', rd_delegation = Some \<lparr>dg_action = resolve_decision_id, dg_task = ''t''\<rparr>, rd_author = Some AuthorAgent\<rparr>"

lemma demo_fork_valid: "validate_fork demo_fork = Inr ()"
  by (simp add: validate_fork_def demo_fork_def demo_option_def text_max_bytes_def legal_id_def is_ascii_alphanumeric_def is_ascii_alphabetic_def
      is_ascii_digit_def byte_val_def Let_def)

lemma demo_fork_answers: "ts_answers (snd (resolve_fork True (QuestionId ''q'') demo_fork None demo_open_task)) \<noteq> ts_answers demo_open_task"
proof -
  let ?s = demo_open_task
  define q where "q = fork_question (QuestionId ''q'') 1 demo_fork"
  have current: "current_question ?s = None" by (simp add: current_question_def demo_open_task_def lifecycle_is_terminal_def)
  obtain s1 where s1: "publish_question q ?s = (Inr (), s1)"
    by (simp add: publish_question_def insert_question_def demo_open_task_def q_def fork_question_def Let_def supersede_pending_questions_def
        supersede_questions_def)
  have pub: "publish_or_dedupe q None ?s = (Inr q, s1)" using s1 current by (simp add: publish_or_dedupe_def)
  obtain r s2 where ans: "answer_question (qn_id q) (qn_revision q) (AnswerOption (qn_recommended q)) ''agent'' s1 = (r, s2)" by fastforce
  have "snd (resolve_fork True (QuestionId ''q'') demo_fork None ?s) = s2"
    using pub ans demo_fork_valid
    by (cases r) (simp_all add: resolve_fork_def resolve_valid_def auto_author_def demo_fork_def[THEN arg_cong, of rd_author] delegated_def
      demo_fork_def[THEN arg_cong, of rd_delegation] delegation_covers_def demo_open_task_def q_def)
  then show ?thesis using answer_journal[OF ans] publish_answers(1)[OF s1] by auto
qed

theorem machine_answers_delegated_witness:
  "\<exists>d. rd_delegation demo_fork = Some d \<and> delegation_covers d resolve_decision_id (ts_id demo_open_task)"
  using machine_answers_delegated[OF surjective_pairing demo_fork_answers] by blast

definition demo_risky :: plan_request where
  "demo_risky = \<lparr>rq_kind = KindChange, rq_surfaces = ScanKnown {SurfAuth}, rq_contract = ContractAbsent, rq_parts = [],
     rq_delegation = None, rq_author = None\<rparr>"

abbreviation demo_notes :: "string \<Rightarrow> stage_reply option" where
  "demo_notes \<equiv> \<lambda>_. Some \<lparr>sr_notes = [\<lparr>sn_surface = SurfAuth, sn_text = ''t''\<rparr>], sr_fork = None\<rparr>"

definition demo_stage :: plan_store where
  "demo_stage = demo_at [demo_plan_entry challenge_direction_id challenge_direction_id ObligationPending None] []"

lemma demo_stage_closes:
  "challenge_direction_id \<in> satisfied_caps (snd (semantic_stage demo_digest demo_json demo_notes demo_reply_sent False (QuestionId ''q'') []
     challenge_direction_id demo_risky demo_stage))" "challenge_direction_id \<notin> satisfied_caps demo_stage"
  by (simp_all add: semantic_stage_def bind_request_def plan_row_state_def demo_stage_def fork_state_def row_fork_def stage_call_def read_reply_def
      text_max_bytes_def check_notes_def array_max_items_def demo_risky_def all_surfaces_def surface_is_risk_def stage_close_def open_rows_def
      update_plan_row_def apply_plan_row_change_def settle_eval satisfied_caps_def demo_plan_entry_def image_iff)

theorem stage_closes_complete_witness: "ts_selection demo_stage \<noteq> None \<and> SurfAuth \<in> sn_surface ` set (sr_notes (the (demo_notes ''y'')))"
  using stage_closes_complete[OF surjective_pairing demo_stage_closes] by (auto simp: read_reply_def demo_risky_def surface_is_risk_def split: if_splits)

end
